(* ===== verification/Prelude.thy ===== *)
theory Prelude
  imports Main "HOL-Library.Word"
begin

text \<open>
  Shared vocabulary of the development: the names of the machine integer types, byte
  strings with the slice operations the code uses (\<open>buf[off..off+n]\<close> and
  \<open>copy_from_slice\<close>), and the little-endian and big-endian conversions of the Rust
  standard library (\<open>from_le_bytes\<close>, \<open>to_be_bytes\<close>, ...) with their round trips.
  Two collections carry most component proofs: \<open>buf_simps\<close> (slices of patched buffers)
  and \<open>endian_simps\<close> (conversions between words and byte strings).

  \<open>usize\<close> is 64 bits wide and only holds lengths, offsets and indices here: it is
  \<open>nat\<close>, and every place where the code could go out of range is written out.
\<close>

unbundle bit_operations_syntax

type_synonym u8 = "8 word"
type_synonym u16 = "16 word"
type_synonym u32 = "32 word"
type_synonym u64 = "64 word"
type_synonym bytes = "u8 list"

named_theorems buf_simps \<open>slices of patched buffers\<close>
named_theorems endian_simps \<open>words and their byte strings\<close>

lemma unat_bound: "unat (w :: 'a::len word) < 2 ^ LENGTH('a)"
  by (rule unsigned_less)

lemma unat_add_less:
  "unat (a :: 'a::len word) + unat b < 2 ^ LENGTH('a) \<Longrightarrow> unat (a + b) = unat a + unat b"
  by (simp add: unat_word_ariths)

lemma unat_Suc_less: "unat (i :: 'a::len word) < unat (e :: 'a word) \<Longrightarrow> unat (i + 1) = Suc (unat i)"
proof -
  assume "unat i < unat e"
  then have "unat i + 1 < 2 ^ LENGTH('a)" using unat_bound [of e] by linarith
  then show ?thesis by (simp add: unat_word_ariths)
qed

lemma unat_of_nat_small: "n < 2 ^ LENGTH('a) \<Longrightarrow> unat (of_nat n :: 'a::len word) = n"
  by (simp add: unat_of_nat take_bit_eq_mod)

section \<open>Byte strings\<close>

text \<open>\<open>slice buf off n\<close> is \<open>buf[off..off+n]\<close>; \<open>put buf off data\<close> is the buffer after
  \<open>buf[off..off+data.len()].copy_from_slice(data)\<close>. Both are used in range only: the
  operations of the components check the range first and panic outside it.\<close>

definition slice :: "'a list \<Rightarrow> nat \<Rightarrow> nat \<Rightarrow> 'a list" where
  "slice buf off n = take n (drop off buf)"

definition put :: "'a list \<Rightarrow> nat \<Rightarrow> 'a list \<Rightarrow> 'a list" where
  "put buf off data = take off buf @ data @ drop (off + length data) buf"

lemma length_slice [simp, buf_simps]: "length (slice buf off n) = min n (length buf - off)"
  by (simp add: slice_def)

lemma length_put [buf_simps]: "off + length data \<le> length buf \<Longrightarrow> length (put buf off data) = length buf"
  by (simp add: put_def)

lemma nth_slice [buf_simps]: "i < n \<Longrightarrow> off + i < length buf \<Longrightarrow> slice buf off n ! i = buf ! (off + i)"
  by (simp add: slice_def)

lemma nth_put:
  assumes "off + length data \<le> length buf" and "i < length buf"
  shows "put buf off data ! i = (if off \<le> i \<and> i < off + length data then data ! (i - off) else buf ! i)"
  using assms by (auto simp: put_def nth_append)

lemma slice_put_same [buf_simps]:
  "off + length data \<le> length buf \<Longrightarrow> n = length data \<Longrightarrow> slice (put buf off data) off n = data"
  by (simp add: slice_def put_def)

lemma slice_put_below [buf_simps]:
  "a + n \<le> off \<Longrightarrow> off + length data \<le> length buf \<Longrightarrow> slice (put buf off data) a n = slice buf a n"
  by (rule nth_equalityI) (auto simp: length_put nth_slice nth_put)

lemma slice_put_above [buf_simps]:
  "off + length data \<le> a \<Longrightarrow> off + length data \<le> length buf \<Longrightarrow>
   slice (put buf off data) a n = slice buf a n"
  by (rule nth_equalityI) (auto simp: length_put nth_slice nth_put)

lemma slice_slice [buf_simps]:
  "a + m \<le> n \<Longrightarrow> slice (slice buf off n) a m = slice buf (off + a) m"
  by (simp add: slice_def drop_take take_take min_def add.commute)

lemma slice_replicate [buf_simps]: "off + n \<le> k \<Longrightarrow> slice (replicate k x) off n = replicate n x"
  by (simp add: slice_def)

lemma slice_append_left [buf_simps]: "off + n \<le> length xs \<Longrightarrow> slice (xs @ ys) off n = slice xs off n"
  by (simp add: slice_def)

lemma slice_append_right [buf_simps]:
  "length xs \<le> off \<Longrightarrow> slice (xs @ ys) off n = slice ys (off - length xs) n"
  by (simp add: slice_def)

lemma slice_all [buf_simps]: "length buf \<le> n \<Longrightarrow> slice buf 0 n = buf"
  by (simp add: slice_def)

lemma slice_drop [buf_simps]: "slice (drop k buf) off n = slice buf (k + off) n"
  by (simp add: slice_def add.commute)

lemma put_put_same:
  "off + length a \<le> length buf \<Longrightarrow> length b = length a \<Longrightarrow> put (put buf off a) off b = put buf off b"
  by (rule nth_equalityI) (auto simp: length_put nth_put)

lemma put_slice_id: "off + n \<le> length buf \<Longrightarrow> put buf off (slice buf off n) = buf"
  by (rule nth_equalityI) (auto simp: length_put nth_put nth_slice)

lemma put_commute:
  assumes "a + length xs \<le> b" and "b + length ys \<le> length buf"
  shows "put (put buf b ys) a xs = put (put buf a xs) b ys"
  using assms by (intro nth_equalityI) (auto simp: length_put nth_put)

lemma put_put_adjacent:
  "off + length a + length b \<le> length buf \<Longrightarrow> put (put buf off a) (off + length a) b = put buf off (a @ b)"
  by (rule nth_equalityI) (auto simp: length_put nth_put nth_append)

lemma put_Nil [simp]: "put buf off [] = buf"
  by (simp add: put_def)

lemma le_length_put [buf_simps]: "n \<le> length buf \<Longrightarrow> n \<le> length (put buf off data)"
  by (simp add: put_def)

subsection \<open>A buffer filled field by field\<close>

text \<open>\<open>put_all buf ws\<close> writes the fields \<open>ws\<close>, pairs of an offset and its bytes;
  \<open>layout lo ws hi\<close> says that they lie in \<open>[lo, hi)\<close>, in order and disjoint. Then each field
  reads back as it was written, and what lies between the fields is unchanged.\<close>

definition put_all :: "'a list \<Rightarrow> (nat \<times> 'a list) list \<Rightarrow> 'a list" where
  "put_all buf ws = foldl (\<lambda>b (off, d). put b off d) buf ws"

fun layout :: "nat \<Rightarrow> (nat \<times> 'a list) list \<Rightarrow> nat \<Rightarrow> bool" where
  "layout lo [] hi = (lo \<le> hi)"
| "layout lo ((off, d) # ws) hi = (lo \<le> off \<and> layout (off + length d) ws hi)"

lemma put_all_Nil [simp]: "put_all buf [] = buf"
  by (simp add: put_all_def)

lemma put_all_Cons: "put_all buf ((off, d) # ws) = put_all (put buf off d) ws"
  by (simp add: put_all_def)

lemma layout_le: "layout lo ws hi \<Longrightarrow> lo \<le> hi"
  by (induction lo ws hi rule: layout.induct) auto

lemma length_put_all: "layout lo ws (length buf) \<Longrightarrow> length (put_all buf ws) = length buf"
proof (induction ws arbitrary: lo buf)
  case (Cons w ws)
  obtain off d where w: "w = (off, d)" by (cases w)
  have "length (put buf off d) = length buf"
    using Cons.prems w layout_le [of "off + length d" ws] by (auto intro: length_put)
  then show ?case using Cons w by (auto simp: put_all_Cons)
qed simp

lemma slice_put_all_below:
  "layout lo ws (length buf) \<Longrightarrow> a + n \<le> lo \<Longrightarrow> slice (put_all buf ws) a n = slice buf a n"
proof (induction ws arbitrary: lo buf)
  case (Cons w ws)
  obtain off d where w: "w = (off, d)" by (cases w)
  have fits: "off + length d \<le> length buf" "a + n \<le> off"
    using Cons.prems w layout_le [of "off + length d" ws] by auto
  have "slice (put_all (put buf off d) ws) a n = slice (put buf off d) a n"
    by (rule Cons.IH [of "off + length d"]) (use Cons.prems w fits in \<open>auto simp: length_put\<close>)
  then show ?case using fits w by (simp add: put_all_Cons slice_put_below)
qed simp

lemma slice_put_all:
  assumes "layout lo ws (length buf)" and "map_of ws off \<noteq> None" and "length (the (map_of ws off)) = n"
  shows "slice (put_all buf ws) off n = the (map_of ws off)"
  using assms
proof (induction ws arbitrary: lo buf)
  case (Cons w ws)
  obtain o' d where w: "w = (o', d)" by (cases w)
  have fits: "o' + length d \<le> length buf"
    using Cons.prems w layout_le [of "o' + length d" ws] by auto
  show ?case
  proof (cases "o' = off")
    case True
    have "slice (put_all (put buf o' d) ws) off n = slice (put buf o' d) off n"
      by (rule slice_put_all_below [of "o' + length d"])
        (use True Cons.prems w fits in \<open>auto simp: length_put\<close>)
    then show ?thesis using True Cons.prems w fits by (simp add: put_all_Cons slice_put_same)
  next
    case False
    then show ?thesis
      using Cons.IH [of "o' + length d" "put buf o' d"] Cons.prems w fits
      by (auto simp: put_all_Cons length_put)
  qed
qed simp

lemma slice_put_all_other:
  assumes "layout lo ws (length buf)" and "\<forall>(off, d) \<in> set ws. a + n \<le> off \<or> off + length d \<le> a"
  shows "slice (put_all buf ws) a n = slice buf a n"
  using assms
proof (induction ws arbitrary: lo buf)
  case (Cons w ws)
  obtain off d where w: "w = (off, d)" by (cases w)
  have fits: "off + length d \<le> length buf"
    using Cons.prems w layout_le [of "off + length d" ws] by auto
  have "slice (put_all (put buf off d) ws) a n = slice (put buf off d) a n"
    by (rule Cons.IH [of "off + length d"]) (use Cons.prems w fits in \<open>auto simp: length_put\<close>)
  then show ?case using Cons.prems fits w
    by (auto simp: put_all_Cons slice_put_below slice_put_above)
qed simp

lemmas put_all_simps = slice_put_all [where lo = 0] length_put_all [where lo = 0]

section \<open>Endian conversions\<close>

text \<open>\<open>le_word bs\<close> is \<open>from_le_bytes\<close> and \<open>le_bytes n w\<close> is \<open>to_le_bytes\<close> for an
  integer of \<open>n\<close> bytes, at any word width; the big-endian forms reverse the bytes.\<close>

definition le_word :: "bytes \<Rightarrow> 'a::len word" where
  "le_word bs = foldr (\<lambda>b acc. ucast b OR push_bit 8 acc) bs 0"

definition le_bytes :: "nat \<Rightarrow> 'a::len word \<Rightarrow> bytes" where
  "le_bytes n w = map (\<lambda>i. ucast (drop_bit (8 * i) w)) [0..<n]"

definition be_word :: "bytes \<Rightarrow> 'a::len word" where
  "be_word bs = le_word (rev bs)"

definition be_bytes :: "nat \<Rightarrow> 'a::len word \<Rightarrow> bytes" where
  "be_bytes n w = rev (le_bytes n w)"

lemma length_le_bytes [simp]: "length (le_bytes n w) = n"
  by (simp add: le_bytes_def)

lemma length_be_bytes [simp]: "length (be_bytes n w) = n"
  by (simp add: be_bytes_def)

lemma le_word_Nil [simp]: "le_word [] = 0"
  by (simp add: le_word_def)

lemma le_word_Cons: "le_word (b # bs) = ucast b OR push_bit 8 (le_word bs)"
  by (simp add: le_word_def)

lemma bit_le_word:
  "bit (le_word bs :: 'a::len word) k \<longleftrightarrow>
   k < LENGTH('a) \<and> k div 8 < length bs \<and> bit (bs ! (k div 8)) (k mod 8)"
proof (induction bs arbitrary: k)
  case Nil
  then show ?case by simp
next
  case (Cons b bs)
  show ?case
  proof (cases "k < 8")
    case True
    then show ?thesis by (auto simp: le_word_Cons bit_simps)
  next
    case False
    have "\<not> bit b k" using False bit_imp_le_length [of b k] by auto
    moreover from False obtain m where m: "k = 8 + m" by (metis le_add_diff_inverse not_less)
    moreover have "(8 + m) div 8 = Suc (m div 8)" and "(8 + m) mod 8 = m mod 8" by simp_all
    ultimately show ?thesis
      using Cons.IH [of m] by (auto simp: le_word_Cons bit_simps)
  qed
qed

lemma le_word_le_bytes [endian_simps]:
  "LENGTH('a) \<le> 8 * n \<Longrightarrow> le_word (le_bytes n (w :: 'a::len word)) = w"
proof (rule bit_word_eqI)
  fix k
  assume "LENGTH('a) \<le> 8 * n" and k: "k < LENGTH('a)"
  then have "k div 8 < n" by linarith
  moreover have "8 * (k div 8) + k mod 8 = k" by simp
  ultimately show "bit (le_word (le_bytes n w) :: 'a word) k = bit w k"
    using k by (auto simp: bit_le_word le_bytes_def bit_simps)
qed

lemma le_bytes_le_word [endian_simps]:
  "length bs = n \<Longrightarrow> 8 * n \<le> LENGTH('a) \<Longrightarrow> le_bytes n (le_word bs :: 'a::len word) = bs"
proof (rule nth_equalityI)
  fix i
  assume l: "length bs = n" "8 * n \<le> LENGTH('a)" and "i < length (le_bytes n (le_word bs :: 'a word))"
  then have i: "i < n" by simp
  show "le_bytes n (le_word bs :: 'a word) ! i = bs ! i"
  proof (rule bit_word_eqI)
    fix k
    assume "k < LENGTH(8)"
    then show "bit (le_bytes n (le_word bs :: 'a word) ! i) k = bit (bs ! i) k"
      using i l by (auto simp: le_bytes_def bit_simps bit_le_word)
  qed
qed simp

lemma be_word_be_bytes [endian_simps]:
  "LENGTH('a) \<le> 8 * n \<Longrightarrow> be_word (be_bytes n (w :: 'a::len word)) = w"
  by (simp add: be_word_def be_bytes_def le_word_le_bytes)

lemma be_bytes_be_word [endian_simps]:
  "length bs = n \<Longrightarrow> 8 * n \<le> LENGTH('a) \<Longrightarrow> be_bytes n (be_word bs :: 'a::len word) = bs"
  by (simp add: be_word_def be_bytes_def le_bytes_le_word)

lemma le_bytes_inj: "LENGTH('a) \<le> 8 * n \<Longrightarrow> le_bytes n (v :: 'a::len word) = le_bytes n w \<Longrightarrow> v = w"
  by (metis le_word_le_bytes)

lemma be_bytes_inj: "LENGTH('a) \<le> 8 * n \<Longrightarrow> be_bytes n (v :: 'a::len word) = be_bytes n w \<Longrightarrow> v = w"
  by (metis be_word_be_bytes)

section \<open>Ordered maps and sets\<close>

text \<open>A \<open>BTreeMap\<close> is the list of its entries in key order, a \<open>BTreeSet\<close> the ordered list of
  its elements; lookup is \<open>map_of\<close>.\<close>

fun bt_insert :: "'k::linorder \<Rightarrow> 'v \<Rightarrow> ('k \<times> 'v) list \<Rightarrow> ('k \<times> 'v) list" where
  "bt_insert k v [] = [(k, v)]"
| "bt_insert k v ((k', v') # m) =
     (if k < k' then (k, v) # (k', v') # m
      else if k = k' then (k, v) # m else (k', v') # bt_insert k v m)"

fun bts_insert :: "'k::linorder \<Rightarrow> 'k list \<Rightarrow> 'k list" where
  "bts_insert k [] = [k]"
| "bts_insert k (k' # s) =
     (if k < k' then k # k' # s else if k = k' then k' # s else k' # bts_insert k s)"

definition bt_ok :: "('k::linorder \<times> 'v) list \<Rightarrow> bool" where
  "bt_ok m = sorted_wrt (<) (map fst m)"

lemma map_of_bt_insert: "map_of (bt_insert k v m) = (map_of m)(k \<mapsto> v)"
  by (induction k v m rule: bt_insert.induct) (auto simp: fun_eq_iff)

lemma keys_bt_insert: "fst ` set (bt_insert k v m) = insert k (fst ` set m)"
  by (induction k v m rule: bt_insert.induct) auto

lemma bt_ok_insert: "bt_ok m \<Longrightarrow> bt_ok (bt_insert k v m)"
proof (induction k v m rule: bt_insert.induct)
  case (2 k v k' v' m)
  have "x \<in> insert k (fst ` set m)" if "x \<in> set (map fst (bt_insert k v m))" for x
    using that keys_bt_insert [of k v m] by simp
  then show ?case using 2 by (force simp: bt_ok_def)
qed (simp add: bt_ok_def)

lemma bt_ok_distinct: "bt_ok m \<Longrightarrow> distinct (map fst m)"
  by (simp add: bt_ok_def strict_sorted_iff)

lemma set_bt_insert: "set (bt_insert k v m) \<subseteq> insert (k, v) (set m)"
  by (induction k v m rule: bt_insert.induct) auto

lemma bt_ok_Nil [simp]: "bt_ok []"
  by (simp add: bt_ok_def)

lemma set_bts_insert: "set (bts_insert k s) = insert k (set s)"
  by (induction k s rule: bts_insert.induct) auto

end
