(* ===== verification/Errors.thy ===== *)
theory Errors
  imports Prelude
begin

text \<open>
  Failure and state. \<open>errno\<close> is the error enumeration of \<open>src/src/utils/errors.rs\<close>. A
  fallible operation of the crate returns \<open>'a res\<close>: \<open>Ok\<close> and \<open>Err\<close> are the two sides of
  its \<open>Result\<close> (an \<open>Ext4Error\<close> is its error number; the message is a diagnostic string),
  \<open>Panic\<close> is a panic (an index or a slice out of range, an \<open>unwrap\<close>, an explicit
  \<open>panic!\<close>), and \<open>Undef\<close> is an \<open>unsafe\<close> access outside its buffer.

  An operation that changes a device is a function \<open>'s \<Rightarrow> 'a res \<times> 's\<close>: the state comes
  back with an error too, because the writes made before an early return stay made.
  Integer arithmetic on \<open>u8\<close> .. \<open>u64\<close> is the release profile's, which wraps; \<open>run.sh\<close>
  runs the crate in that profile.
\<close>

section \<open>Error numbers\<close>

datatype errno =
    EPERM | ENOENT | EINTR | EIO | ENXIO | E2BIG | EBADF | EAGAIN | ENOMEM | EACCES
  | EFAULT | ENOTBLK | EBUSY | EEXIST | EXDEV | ENODEV | ENOTDIR | EISDIR | EINVAL
  | ENFILE | EMFILE | ENOTTY | ETXTBSY | EFBIG | ENOSPC | ESPIPE | EROFS | EMLINK
  | EPIPE | ERANGE | ENAMETOOLONG | ENOTEMPTY | ENODATA | ENOTSUP

fun errno_code :: "errno \<Rightarrow> int" where
  "errno_code EPERM = 1" | "errno_code ENOENT = 2" | "errno_code EINTR = 4"
| "errno_code EIO = 5" | "errno_code ENXIO = 6" | "errno_code E2BIG = 7"
| "errno_code EBADF = 9" | "errno_code EAGAIN = 11" | "errno_code ENOMEM = 12"
| "errno_code EACCES = 13" | "errno_code EFAULT = 14" | "errno_code ENOTBLK = 15"
| "errno_code EBUSY = 16" | "errno_code EEXIST = 17" | "errno_code EXDEV = 18"
| "errno_code ENODEV = 19" | "errno_code ENOTDIR = 20" | "errno_code EISDIR = 21"
| "errno_code EINVAL = 22" | "errno_code ENFILE = 23" | "errno_code EMFILE = 24"
| "errno_code ENOTTY = 25" | "errno_code ETXTBSY = 26" | "errno_code EFBIG = 27"
| "errno_code ENOSPC = 28" | "errno_code ESPIPE = 29" | "errno_code EROFS = 30"
| "errno_code EMLINK = 31" | "errno_code EPIPE = 32" | "errno_code ERANGE = 34"
| "errno_code ENAMETOOLONG = 36" | "errno_code ENOTEMPTY = 39" | "errno_code ENODATA = 61"
| "errno_code ENOTSUP = 95"

lemma errno_code_inj: "errno_code a = errno_code b \<Longrightarrow> a = b"
  by (cases a; cases b) simp_all

section \<open>Results\<close>

datatype 'a res = Ok 'a | Err errno | Panic | Undef

definition bind :: "'a res \<Rightarrow> ('a \<Rightarrow> 'b res) \<Rightarrow> 'b res" where
  "bind r f = (case r of Ok a \<Rightarrow> f a | Err e \<Rightarrow> Err e | Panic \<Rightarrow> Panic | Undef \<Rightarrow> Undef)"

lemma bind_simps [simp]:
  "bind (Ok a) f = f a" "bind (Err e) f = Err e" "bind Panic f = Panic" "bind Undef f = Undef"
  by (simp_all add: bind_def)

lemma bind_eq_Ok: "bind r f = Ok b \<longleftrightarrow> (\<exists>a. r = Ok a \<and> f a = Ok b)"
  by (cases r) auto

lemma bind_cong [fundef_cong]:
  "r = r' \<Longrightarrow> (\<And>a. r' = Ok a \<Longrightarrow> f a = g a) \<Longrightarrow> bind r f = bind r' g"
  by (cases r') auto

definition map_res :: "('a \<Rightarrow> 'b) \<Rightarrow> 'a res \<Rightarrow> 'b res" where
  "map_res f r = bind r (\<lambda>a. Ok (f a))"

lemma map_res_simps [simp]:
  "map_res f (Ok a) = Ok (f a)" "map_res f (Err e) = Err e" "map_res f Panic = Panic"
  "map_res f Undef = Undef"
  by (simp_all add: map_res_def)

text \<open>A result is safe when the operation neither panicked nor touched memory it does not own.\<close>

fun safe :: "'a res \<Rightarrow> bool" where
  "safe Panic = False" | "safe Undef = False" | "safe _ = True"

lemma safe_bind [intro]: "safe r \<Longrightarrow> (\<And>a. r = Ok a \<Longrightarrow> safe (f a)) \<Longrightarrow> safe (bind r f)"
  by (cases r) auto

fun is_ok :: "'a res \<Rightarrow> bool" where
  "is_ok (Ok _) = True" | "is_ok _ = False"

section \<open>State\<close>

type_synonym ('s, 'a) io = "'s \<Rightarrow> 'a res \<times> 's"

definition ret :: "'a \<Rightarrow> ('s, 'a) io" where
  "ret a s = (Ok a, s)"

definition bindS :: "('s, 'a) io \<Rightarrow> ('a \<Rightarrow> ('s, 'b) io) \<Rightarrow> ('s, 'b) io" where
  "bindS m f s = (case m s of
     (Ok a, t) \<Rightarrow> f a t
   | (Err e, t) \<Rightarrow> (Err e, t)
   | (Panic, t) \<Rightarrow> (Panic, t)
   | (Undef, t) \<Rightarrow> (Undef, t))"

text \<open>\<open>lift\<close> runs a computation that does not use the state, \<open>asks\<close> one that only reads it.\<close>

definition lift :: "'a res \<Rightarrow> ('s, 'a) io" where
  "lift r s = (r, s)"

definition asks :: "('s \<Rightarrow> 'a res) \<Rightarrow> ('s, 'a) io" where
  "asks r s = (r s, s)"

definition modify :: "('s \<Rightarrow> 's) \<Rightarrow> ('s, unit) io" where
  "modify f s = (Ok (), f s)"

fun for_each :: "('x \<Rightarrow> ('s, unit) io) \<Rightarrow> 'x list \<Rightarrow> ('s, unit) io" where
  "for_each body [] = ret ()"
| "for_each body (x # xs) = bindS (body x) (\<lambda>_. for_each body xs)"

lemma ret_apply [simp]: "ret a s = (Ok a, s)"
  by (simp add: ret_def)

lemma lift_apply [simp]: "lift r s = (r, s)"
  by (simp add: lift_def)

lemma asks_apply [simp]: "asks r s = (r s, s)"
  by (simp add: asks_def)

lemma modify_apply [simp]: "modify f s = (Ok (), f s)"
  by (simp add: modify_def)

lemma bindS_Ok: "m s = (Ok a, t) \<Longrightarrow> bindS m f s = f a t"
  by (simp add: bindS_def)

lemma bindS_Err: "m s = (Err e, t) \<Longrightarrow> bindS m f s = (Err e, t)"
  by (simp add: bindS_def)

lemma bindS_simps [simp]:
  "bindS (ret a) f = f a"
  "bindS (lift (Ok a)) f = f a"
  "bindS (lift (Err e)) f = lift (Err e)"
  "bindS (lift Panic) f = lift Panic"
  "bindS (lift Undef) f = lift Undef"
  by (simp_all add: bindS_def fun_eq_iff)

lemma bindS_modify [simp]: "bindS (modify g) f s = f () (g s)"
  by (simp add: bindS_def)

lemma bindS_asks: "bindS (asks r) f s = bindS (lift (r s)) f s"
  by (simp add: bindS_def)

lemma bindS_eq_Ok: "bindS m f s = (Ok b, u) \<longleftrightarrow> (\<exists>a t. m s = (Ok a, t) \<and> f a t = (Ok b, u))"
  by (auto simp: bindS_def split: prod.splits res.splits)

text \<open>A fallible step on each element, stopping at the first failure.\<close>

fun map_each :: "('x \<Rightarrow> 'y res) \<Rightarrow> 'x list \<Rightarrow> 'y list res" where
  "map_each f [] = Ok []"
| "map_each f (x # xs) = bind (f x) (\<lambda>y. map_res ((#) y) (map_each f xs))"

lemma map_each_Ok: "(\<And>x. x \<in> set xs \<Longrightarrow> f x = Ok (g x)) \<Longrightarrow> map_each f xs = Ok (map g xs)"
  by (induction xs) simp_all

section \<open>Checked access to buffers\<close>

text \<open>\<open>&buf[off..off + n]\<close> and \<open>buf[off..off + d.len()].copy_from_slice(d)\<close>.\<close>

definition get_at :: "bytes \<Rightarrow> nat \<Rightarrow> nat \<Rightarrow> bytes res" where
  "get_at buf off n = (if off + n \<le> length buf then Ok (slice buf off n) else Panic)"

definition put_at :: "bytes \<Rightarrow> nat \<Rightarrow> bytes \<Rightarrow> bytes res" where
  "put_at buf off d = (if off + length d \<le> length buf then Ok (put buf off d) else Panic)"

lemma get_at_Ok [buf_simps]: "off + n \<le> length buf \<Longrightarrow> get_at buf off n = Ok (slice buf off n)"
  by (simp add: get_at_def)

lemma put_at_Ok [buf_simps]: "off + length d \<le> length buf \<Longrightarrow> put_at buf off d = Ok (put buf off d)"
  by (simp add: put_at_def)

lemma put_at_eq_Ok:
  "put_at buf off d = Ok b \<longleftrightarrow> off + length d \<le> length buf \<and> b = put buf off d"
  by (auto simp: put_at_def)

section \<open>Encoders and decoders\<close>

text \<open>The contract of an on-disk format: what the encoder writes for a valid value decodes to
  that value. Every format with this contract has an encoder that succeeds and is injective
  on valid values, and a decoder that is safe on what the encoder wrote.\<close>

locale codec =
  fixes encode :: "'a \<Rightarrow> bytes res"
    and decode :: "bytes \<Rightarrow> 'a res"
    and valid :: "'a \<Rightarrow> bool"
  assumes decode_encode: "valid x \<Longrightarrow> bind (encode x) decode = Ok x"
begin

lemma encode_ok: "valid x \<Longrightarrow> is_ok (encode x)"
  using decode_encode [of x] by (cases "encode x") simp_all

lemma encode_inj: "valid x \<Longrightarrow> valid y \<Longrightarrow> encode x = encode y \<Longrightarrow> x = y"
  by (metis decode_encode res.inject(1))

lemma encode_inj_on: "inj_on encode (Collect valid)"
  by (rule inj_onI) (use encode_inj in auto)

lemma decode_safe: "valid x \<Longrightarrow> encode x = Ok b \<Longrightarrow> safe (decode b)"
  using decode_encode [of x] by simp

end

end
