(* ===== verification/Crc.thy ===== *)
theory Crc
  imports Errors
begin

text \<open>
  The CRC-32C of \<open>src/src/utils/crc.rs\<close>: the lookup table, the table-driven loop
  \<open>crc32\<close> (it panics when \<open>size\<close> exceeds the buffer, as \<open>p[0]\<close> does on an empty slice)
  and \<open>ext4_crc32c\<close>. There is no initial or final inversion: callers pass the seed and chain
  the returned value.

  The reference is the bitwise shift register of the reflected polynomial \<open>0x82F63B78\<close>:
  the table-driven loop is shown equal to it for every input, and from the register follow
  the facts the journal relies on (chaining, and detection of every error burst of up to four
  bytes), stated once as the locale \<open>checksum\<close>.
\<close>

section \<open>The code\<close>

definition CRC32C_TAB :: "u32 list" where
  "CRC32C_TAB = [
   0x00000000, 0xF26B8303, 0xE13B70F7, 0x1350F3F4, 0xC79A971F, 0x35F1141C, 0x26A1E7E8, 0xD4CA64EB,
   0x8AD958CF, 0x78B2DBCC, 0x6BE22838, 0x9989AB3B, 0x4D43CFD0, 0xBF284CD3, 0xAC78BF27, 0x5E133C24,
   0x105EC76F, 0xE235446C, 0xF165B798, 0x030E349B, 0xD7C45070, 0x25AFD373, 0x36FF2087, 0xC494A384,
   0x9A879FA0, 0x68EC1CA3, 0x7BBCEF57, 0x89D76C54, 0x5D1D08BF, 0xAF768BBC, 0xBC267848, 0x4E4DFB4B,
   0x20BD8EDE, 0xD2D60DDD, 0xC186FE29, 0x33ED7D2A, 0xE72719C1, 0x154C9AC2, 0x061C6936, 0xF477EA35,
   0xAA64D611, 0x580F5512, 0x4B5FA6E6, 0xB93425E5, 0x6DFE410E, 0x9F95C20D, 0x8CC531F9, 0x7EAEB2FA,
   0x30E349B1, 0xC288CAB2, 0xD1D83946, 0x23B3BA45, 0xF779DEAE, 0x05125DAD, 0x1642AE59, 0xE4292D5A,
   0xBA3A117E, 0x4851927D, 0x5B016189, 0xA96AE28A, 0x7DA08661, 0x8FCB0562, 0x9C9BF696, 0x6EF07595,
   0x417B1DBC, 0xB3109EBF, 0xA0406D4B, 0x522BEE48, 0x86E18AA3, 0x748A09A0, 0x67DAFA54, 0x95B17957,
   0xCBA24573, 0x39C9C670, 0x2A993584, 0xD8F2B687, 0x0C38D26C, 0xFE53516F, 0xED03A29B, 0x1F682198,
   0x5125DAD3, 0xA34E59D0, 0xB01EAA24, 0x42752927, 0x96BF4DCC, 0x64D4CECF, 0x77843D3B, 0x85EFBE38,
   0xDBFC821C, 0x2997011F, 0x3AC7F2EB, 0xC8AC71E8, 0x1C661503, 0xEE0D9600, 0xFD5D65F4, 0x0F36E6F7,
   0x61C69362, 0x93AD1061, 0x80FDE395, 0x72966096, 0xA65C047D, 0x5437877E, 0x4767748A, 0xB50CF789,
   0xEB1FCBAD, 0x197448AE, 0x0A24BB5A, 0xF84F3859, 0x2C855CB2, 0xDEEEDFB1, 0xCDBE2C45, 0x3FD5AF46,
   0x7198540D, 0x83F3D70E, 0x90A324FA, 0x62C8A7F9, 0xB602C312, 0x44694011, 0x5739B3E5, 0xA55230E6,
   0xFB410CC2, 0x092A8FC1, 0x1A7A7C35, 0xE811FF36, 0x3CDB9BDD, 0xCEB018DE, 0xDDE0EB2A, 0x2F8B6829,
   0x82F63B78, 0x709DB87B, 0x63CD4B8F, 0x91A6C88C, 0x456CAC67, 0xB7072F64, 0xA457DC90, 0x563C5F93,
   0x082F63B7, 0xFA44E0B4, 0xE9141340, 0x1B7F9043, 0xCFB5F4A8, 0x3DDE77AB, 0x2E8E845F, 0xDCE5075C,
   0x92A8FC17, 0x60C37F14, 0x73938CE0, 0x81F80FE3, 0x55326B08, 0xA759E80B, 0xB4091BFF, 0x466298FC,
   0x1871A4D8, 0xEA1A27DB, 0xF94AD42F, 0x0B21572C, 0xDFEB33C7, 0x2D80B0C4, 0x3ED04330, 0xCCBBC033,
   0xA24BB5A6, 0x502036A5, 0x4370C551, 0xB11B4652, 0x65D122B9, 0x97BAA1BA, 0x84EA524E, 0x7681D14D,
   0x2892ED69, 0xDAF96E6A, 0xC9A99D9E, 0x3BC21E9D, 0xEF087A76, 0x1D63F975, 0x0E330A81, 0xFC588982,
   0xB21572C9, 0x407EF1CA, 0x532E023E, 0xA145813D, 0x758FE5D6, 0x87E466D5, 0x94B49521, 0x66DF1622,
   0x38CC2A06, 0xCAA7A905, 0xD9F75AF1, 0x2B9CD9F2, 0xFF56BD19, 0x0D3D3E1A, 0x1E6DCDEE, 0xEC064EED,
   0xC38D26C4, 0x31E6A5C7, 0x22B65633, 0xD0DDD530, 0x0417B1DB, 0xF67C32D8, 0xE52CC12C, 0x1747422F,
   0x49547E0B, 0xBB3FFD08, 0xA86F0EFC, 0x5A048DFF, 0x8ECEE914, 0x7CA56A17, 0x6FF599E3, 0x9D9E1AE0,
   0xD3D3E1AB, 0x21B862A8, 0x32E8915C, 0xC083125F, 0x144976B4, 0xE622F5B7, 0xF5720643, 0x07198540,
   0x590AB964, 0xAB613A67, 0xB831C993, 0x4A5A4A90, 0x9E902E7B, 0x6CFBAD78, 0x7FAB5E8C, 0x8DC0DD8F,
   0xE330A81A, 0x115B2B19, 0x020BD8ED, 0xF0605BEE, 0x24AA3F05, 0xD6C1BC06, 0xC5914FF2, 0x37FACCF1,
   0x69E9F0D5, 0x9B8273D6, 0x88D28022, 0x7AB90321, 0xAE7367CA, 0x5C18E4C9, 0x4F48173D, 0xBD23943E,
   0xF36E6F75, 0x0105EC76, 0x12551F82, 0xE03E9C81, 0x34F4F86A, 0xC69F7B69, 0xD5CF889D, 0x27A40B9E,
   0x79B737BA, 0x8BDCB4B9, 0x988C474D, 0x6AE7C44E, 0xBE2DA0A5, 0x4C4623A6, 0x5F16D052, 0xAD7D5351]"

definition EXT4_CRC32_INIT :: u32 where
  "EXT4_CRC32_INIT = 0xFFFFFFFF"

fun crc32_loop :: "u32 \<Rightarrow> bytes \<Rightarrow> nat \<Rightarrow> u32 list \<Rightarrow> u32 res" where
  "crc32_loop crc p 0 tab = Ok crc"
| "crc32_loop crc [] (Suc n) tab = Panic"
| "crc32_loop crc (b # p) (Suc n) tab =
     (let i = unat ((ucast crc :: u8) XOR b)
      in if i < length tab then crc32_loop ((tab ! i) XOR drop_bit 8 crc) p n tab else Panic)"

definition crc32 :: "u32 \<Rightarrow> bytes \<Rightarrow> u32 \<Rightarrow> u32 list \<Rightarrow> u32 res" where
  "crc32 crc buf sz tab = crc32_loop crc buf (unat sz) tab"

definition ext4_crc32c :: "u32 \<Rightarrow> bytes \<Rightarrow> u32 \<Rightarrow> u32 res" where
  "ext4_crc32c crc buf sz = crc32 crc buf sz CRC32C_TAB"

section \<open>The shift register\<close>

definition crc_bit :: "u32 \<Rightarrow> u32" where
  "crc_bit c = (if bit c 0 then 0x82F63B78 else 0) XOR drop_bit 1 c"

definition crc_byte :: "u32 \<Rightarrow> u32" where
  "crc_byte c = (crc_bit ^^ 8) c"

text \<open>\<open>crc_ref crc buf\<close> feeds the bytes, least significant bit first, into the register.\<close>

definition crc_ref :: "u32 \<Rightarrow> bytes \<Rightarrow> u32" where
  "crc_ref crc buf = fold (\<lambda>b c. crc_byte (c XOR ucast b)) buf crc"

lemma crc_bit_xor: "crc_bit (a XOR b) = crc_bit a XOR crc_bit b"
  by (rule bit_word_eqI) (simp add: crc_bit_def bit_simps; auto)

lemma crc_bits_xor: "(crc_bit ^^ n) (a XOR b) = (crc_bit ^^ n) a XOR (crc_bit ^^ n) b"
  by (induction n) (simp_all add: crc_bit_xor)

lemma crc_bit_zero [simp]: "crc_bit 0 = 0"
  by (simp add: crc_bit_def)

lemma crc_bit_eq_0: "crc_bit c = 0 \<Longrightarrow> c = 0"
proof (rule ccontr)
  assume z: "crc_bit c = 0" and "c \<noteq> 0"
  have "\<not> bit c 32" using bit_imp_le_length [of c 32] by auto
  then have top: "bit (crc_bit c) 31 = bit c 0"
    by (simp add: crc_bit_def bit_simps bit_numeral_rec)
  then have "\<not> bit c 0" using z by simp
  then have "drop_bit 1 c = 0" using z by (simp add: crc_bit_def)
  have "bit c k = False" for k
  proof (cases k)
    case 0
    then show ?thesis using \<open>\<not> bit c 0\<close> by simp
  next
    case (Suc m)
    have "bit (drop_bit 1 c) m = bit c (1 + m)" by (simp add: bit_drop_bit_eq)
    then show ?thesis using \<open>drop_bit 1 c = 0\<close> Suc by simp
  qed
  then show False using \<open>c \<noteq> 0\<close> by (auto intro: bit_word_eqI)
qed

lemma word_xor_eq_0: "(a XOR b = 0) = (a = (b :: 'a::len word))"
proof
  assume "a XOR b = 0"
  then have "a XOR (b XOR b) = b" by (metis xor.assoc xor.left_neutral)
  then show "a = b" by simp
qed simp

lemma crc_bit_inj: "crc_bit a = crc_bit b \<Longrightarrow> a = b"
  using crc_bit_eq_0 [of "a XOR b"] by (simp add: crc_bit_xor word_xor_eq_0)

lemma crc_bits_inj: "(crc_bit ^^ n) a = (crc_bit ^^ n) b \<Longrightarrow> a = b"
  by (induction n) (auto dest: crc_bit_inj)

lemma crc_byte_inj: "crc_byte a = crc_byte b \<Longrightarrow> a = b"
  unfolding crc_byte_def by (rule crc_bits_inj)

lemma crc_byte_xor: "crc_byte (a XOR b) = crc_byte a XOR crc_byte b"
  by (simp add: crc_byte_def crc_bits_xor)

section \<open>The table is the shift register\<close>

text \<open>The first \<open>2 ^ k\<close> entries; each row doubles the previous one, because the register is
  linear.\<close>

definition crc_row :: "nat \<Rightarrow> u32 list" where
  "crc_row k = map (\<lambda>i. crc_byte (of_nat i)) [0..<2 ^ k]"

lemma crc_row_0: "crc_row 0 = [0]"
  by (simp add: crc_row_def crc_byte_def numeral_eq_Suc)

lemma of_nat_top_bit:
  assumes "i < 2 ^ k" "k < 32"
  shows "(of_nat (i + 2 ^ k) :: u32) = 2 ^ k XOR of_nat i"
proof -
  have "\<not> bit i k" using assms by (simp add: bit_iff_odd)
  then have "push_bit k 1 AND (of_nat i :: u32) = 0"
    using assms by (intro bit_eqI) (auto simp: bit_simps)
  then have "push_bit k 1 + (of_nat i :: u32) = push_bit k 1 XOR of_nat i"
    by (rule disjunctive_add_eq_xor)
  then show ?thesis by (simp add: push_bit_eq_mult add.commute)
qed

lemma crc_row_Suc:
  assumes "k < 32"
  shows "crc_row (Suc k) = crc_row k @ map ((XOR) (crc_byte (2 ^ k))) (crc_row k)"
proof -
  have "[0..<2 ^ Suc k] = [0..<2 ^ k] @ map (\<lambda>i. i + 2 ^ k) [0..<2 ^ k]"
    using upt_add_eq_append [of 0 "2 ^ k" "2 ^ k"] by (simp add: map_add_upt mult_2)
  moreover have "crc_byte (of_nat (i + 2 ^ k)) = crc_byte (2 ^ k) XOR crc_byte (of_nat i)"
    if "i < 2 ^ k" for i
    by (simp only: of_nat_top_bit [OF that assms] crc_byte_xor)
  ultimately show ?thesis by (simp add: crc_row_def del: upt_Suc of_nat_add)
qed

lemma crc_byte_unfold:
  "crc_byte c = crc_bit (crc_bit (crc_bit (crc_bit (crc_bit (crc_bit (crc_bit (crc_bit c)))))))"
  by (simp add: crc_byte_def numeral_eq_Suc)

lemma crc_row_1: "crc_row (Suc 0) = crc_row 0 @ map ((XOR) 0xF26B8303) (crc_row 0)"
  using crc_row_Suc [of 0] by (simp add: crc_byte_unfold crc_bit_def)

lemma crc_row_2: "crc_row 2 = crc_row (Suc 0) @ map ((XOR) 0xE13B70F7) (crc_row (Suc 0))"
proof -
  have "crc_byte 2 = 0xE13B70F7" by (simp add: crc_byte_unfold crc_bit_def)
  then show ?thesis using crc_row_Suc [of "Suc 0"] by (simp add: numeral_2_eq_2)
qed

lemma crc_row_3: "crc_row 3 = crc_row 2 @ map ((XOR) 0xC79A971F) (crc_row 2)"
  using crc_row_Suc [of 2] by (simp add: crc_byte_unfold crc_bit_def)

lemma crc_row_4: "crc_row 4 = crc_row 3 @ map ((XOR) 0x8AD958CF) (crc_row 3)"
  using crc_row_Suc [of 3] by (simp add: crc_byte_unfold crc_bit_def)

lemma crc_row_5: "crc_row 5 = crc_row 4 @ map ((XOR) 0x105EC76F) (crc_row 4)"
  using crc_row_Suc [of 4] by (simp add: crc_byte_unfold crc_bit_def)

lemma crc_row_6: "crc_row 6 = crc_row 5 @ map ((XOR) 0x20BD8EDE) (crc_row 5)"
  using crc_row_Suc [of 5] by (simp add: crc_byte_unfold crc_bit_def)

lemma crc_row_7: "crc_row 7 = crc_row 6 @ map ((XOR) 0x417B1DBC) (crc_row 6)"
  using crc_row_Suc [of 6] by (simp add: crc_byte_unfold crc_bit_def)

lemma crc_row_8: "crc_row 8 = crc_row 7 @ map ((XOR) 0x82F63B78) (crc_row 7)"
  using crc_row_Suc [of 7] by (simp add: crc_byte_unfold crc_bit_def)

lemma CRC32C_TAB_row: "CRC32C_TAB = crc_row 8"
  by (simp add: crc_row_0 crc_row_1 crc_row_2 crc_row_3 crc_row_4 crc_row_5 crc_row_6 crc_row_7
      crc_row_8 CRC32C_TAB_def)

lemma CRC32C_TAB_eq: "CRC32C_TAB = map (\<lambda>i. crc_byte (of_nat i)) [0..<256]"
  by (simp add: CRC32C_TAB_row crc_row_def)

lemma length_CRC32C_TAB [simp]: "length CRC32C_TAB = 256"
  by (simp add: CRC32C_TAB_eq)

lemma CRC32C_TAB_nth: "CRC32C_TAB ! unat (i :: u8) = crc_byte (ucast i)"
proof -
  have "unat i < 256" using unat_bound [of i] by simp
  then have "CRC32C_TAB ! unat i = crc_byte (of_nat (unat i))" by (simp add: CRC32C_TAB_eq)
  then show ?thesis by (simp add: unsigned_def)
qed

lemma crc_bits_shift:
  fixes c :: u32
  shows "n \<le> 8 \<Longrightarrow> (crc_bit ^^ n) (c AND NOT (mask 8)) = drop_bit n (c AND NOT (mask 8))"
proof (induction n)
  case 0
  then show ?case by simp
next
  case (Suc n)
  then have "\<not> bit (drop_bit n (c AND NOT (mask 8))) 0"
    by (simp add: bit_simps bit_mask_iff)
  then show ?case using Suc by (simp add: crc_bit_def drop_bit_drop_bit)
qed

lemma crc_byte_split: "crc_byte c = crc_byte (ucast (ucast c :: u8)) XOR drop_bit 8 (c :: u32)"
proof -
  have c: "c = ucast (ucast c :: u8) XOR (c AND NOT (mask 8))"
    by (rule bit_word_eqI) (auto simp: bit_simps bit_mask_iff)
  have "crc_byte (c AND NOT (mask 8)) = drop_bit 8 (c AND NOT (mask 8))"
    unfolding crc_byte_def by (rule crc_bits_shift) simp
  also have "\<dots> = drop_bit 8 c"
    by (rule bit_word_eqI) (auto simp: bit_simps bit_mask_iff dest: bit_imp_le_length)
  finally show ?thesis by (subst c) (simp only: crc_byte_xor)
qed

lemma table_step:
  "(CRC32C_TAB ! unat ((ucast crc :: u8) XOR b)) XOR drop_bit 8 crc = crc_byte (crc XOR ucast b)"
proof -
  have "ucast (crc XOR ucast b) = (ucast crc :: u8) XOR b"
    by (rule bit_word_eqI) (auto simp: bit_simps)
  moreover have "drop_bit 8 (crc XOR ucast b) = drop_bit 8 crc"
    by (rule bit_word_eqI) (auto simp: bit_simps dest: bit_imp_le_length)
  ultimately show ?thesis
    by (simp only: CRC32C_TAB_nth crc_byte_split [of "crc XOR ucast b"])
qed

lemma crc32_loop_ref:
  "crc32_loop crc buf n CRC32C_TAB =
     (if n \<le> length buf then Ok (crc_ref crc (take n buf)) else Panic)"
proof (induction crc buf n CRC32C_TAB rule: crc32_loop.induct)
  case (3 crc b p n)
  have "unat ((ucast crc :: u8) XOR b) < 256" using unat_bound [of "(ucast crc :: u8) XOR b"] by simp
  then show ?case using 3 by (simp add: table_step crc_ref_def)
qed (simp_all add: crc_ref_def)

text \<open>C20: for every seed and buffer the table-driven CRC is the bitwise shift register of the
  Castagnoli polynomial over the first \<open>size\<close> bytes; it panics exactly when \<open>size\<close> is larger
  than the buffer.\<close>

theorem ext4_crc32c_correct:
  "ext4_crc32c crc buf sz =
     (if unat sz \<le> length buf then Ok (crc_ref crc (take (unat sz) buf)) else Panic)"
  by (simp add: ext4_crc32c_def crc32_def crc32_loop_ref)

section \<open>The contract of a checksum\<close>

text \<open>What the journal's codecs use of a checksum function: it can be computed in pieces, no
  two seeds meet after the same data, and two pieces of at most \<open>window\<close> bytes that differ
  give different sums.\<close>

locale checksum =
  fixes sum_from :: "u32 \<Rightarrow> bytes \<Rightarrow> u32" and window :: nat
  assumes chain: "sum_from s (a @ b) = sum_from (sum_from s a) b"
    and seed_inj: "sum_from s a = sum_from t a \<Longrightarrow> s = t"
    and window_inj: "length a = length b \<Longrightarrow> length a \<le> window \<Longrightarrow>
      sum_from s a = sum_from s b \<Longrightarrow> a = b"
begin

lemma burst:
  assumes "length a = length b" and "length a \<le> window"
    and "sum_from s (p @ a @ q) = sum_from s (p @ b @ q)"
  shows "a = b"
  using assms window_inj [of a b "sum_from s p"] seed_inj by (auto simp: chain)

lemma burst_put:
  assumes "off + length a \<le> length buf" and "length b = length a" and "length a \<le> window"
    and "sum_from s (put buf off a) = sum_from s (put buf off b)"
  shows "a = b"
  by (rule burst [of a b s "take off buf" "drop (off + length a) buf"])
    (use assms in \<open>simp_all add: put_def\<close>)

end

lemma crc_ref_Nil [simp]: "crc_ref s [] = s"
  by (simp add: crc_ref_def)

lemma crc_ref_append: "crc_ref s (a @ b) = crc_ref (crc_ref s a) b"
  by (simp add: crc_ref_def)

lemma crc_ref_Cons: "crc_ref s (b # bs) = crc_ref (crc_byte (s XOR ucast b)) bs"
  by (simp add: crc_ref_def)

lemma crc_ref_seed_inj: "crc_ref s a = crc_ref t a \<Longrightarrow> s = t"
proof (induction a arbitrary: s t)
  case Nil
  then show ?case by simp
next
  case (Cons b a)
  then have "crc_byte (s XOR ucast b) = crc_byte (t XOR ucast b)" by (simp add: crc_ref_Cons)
  then have "s XOR ucast b = t XOR ucast b" by (rule crc_byte_inj)
  then have "(s XOR ucast b) XOR ucast b = (t XOR ucast b) XOR ucast b" by (rule arg_cong)
  then show ?case by (simp add: xor.assoc)
qed

text \<open>Up to four bytes enter the register as one word: feeding them is xoring the word in and
  clocking the register eight times a byte.\<close>

lemma crc_byte_push:
  fixes w :: u32
  assumes "take_bit 24 w = w"
  shows "crc_byte (c XOR push_bit 8 w) = crc_byte c XOR w"
proof -
  have high: "k < 24" if "bit w k" for k
  proof -
    have "bit (take_bit 24 w) k" using that assms by simp
    then show ?thesis by (simp add: bit_take_bit_iff)
  qed
  have "(ucast (push_bit 8 w) :: u8) = 0"
    by (rule bit_word_eqI) (simp add: bit_simps)
  moreover have "drop_bit 8 (push_bit 8 w) = w"
    by (rule bit_word_eqI) (use high in \<open>auto simp: bit_simps dest: high\<close>)
  ultimately have "crc_byte (push_bit 8 w) = w"
    by (subst crc_byte_split) (simp add: crc_byte_unfold)
  then show ?thesis by (simp only: crc_byte_xor)
qed

lemma crc_ref_word:
  "length bs \<le> 4 \<Longrightarrow> crc_ref s bs = (crc_byte ^^ length bs) (s XOR le_word bs)"
proof (induction bs arbitrary: s)
  case Nil
  then show ?case by simp
next
  case (Cons b bs)
  have low: "take_bit 24 (le_word bs) = (le_word bs :: u32)"
    using Cons.prems by (intro bit_word_eqI) (auto simp: bit_take_bit_iff bit_le_word)
  have "le_word (b # bs) = ucast b XOR push_bit 8 (le_word bs :: u32)"
    unfolding le_word_Cons by (rule bit_word_eqI) (auto simp: bit_simps dest: bit_imp_le_length)
  then have "crc_byte (s XOR le_word (b # bs)) = crc_byte (s XOR ucast b) XOR le_word bs"
    using crc_byte_push [OF low, of "s XOR ucast b"] by (simp add: xor.assoc)
  then show ?case using Cons by (simp add: crc_ref_Cons funpow_swap1)
qed

lemma crc_bytes_inj: "(crc_byte ^^ n) a = (crc_byte ^^ n) b \<Longrightarrow> a = b"
  by (induction n) (auto dest: crc_byte_inj)

lemma crc_ref_window:
  assumes "length a = length b" "length a \<le> 4" "crc_ref s a = crc_ref s b"
  shows "a = b"
proof -
  have "s XOR le_word a = s XOR le_word b"
    using assms crc_bytes_inj by (simp add: crc_ref_word)
  then have "(s XOR s) XOR le_word a = (s XOR s) XOR le_word b"
    unfolding xor.assoc by (rule arg_cong)
  then have "(le_word a :: u32) = le_word b" by simp
  then have "le_bytes (length a) (le_word a :: u32) = le_bytes (length b) (le_word b :: u32)"
    using assms(1) by simp
  moreover have "8 * length a \<le> LENGTH(32)" "8 * length b \<le> LENGTH(32)" using assms by simp_all
  ultimately show ?thesis by (simp only: le_bytes_le_word)
qed

lemma ext4_crc32c_all:
  "ext4_crc32c s buf (of_nat (length buf)) = Ok (crc_ref s (take (length buf mod 2 ^ 32) buf))"
  by (simp add: ext4_crc32c_def crc32_def crc32_loop_ref unat_of_nat take_bit_eq_mod)

lemma ext4_crc32c_small:
  "length buf < 2 ^ 32 \<Longrightarrow> ext4_crc32c s buf (of_nat (length buf)) = Ok (crc_ref s buf)"
  by (simp add: ext4_crc32c_all)

interpretation crc: checksum crc_ref 4
  by unfold_locales (fact crc_ref_append, fact crc_ref_seed_inj, fact crc_ref_window)

text \<open>An error burst confined to four bytes of a buffer changes its checksum, whatever the
  seed and whatever surrounds it.\<close>

theorem crc32c_detects_bursts:
  assumes "length a = length b" and "length a \<le> 4" and "a \<noteq> b"
    and "length p + length a + length q < 2 ^ 32"
  shows "ext4_crc32c seed (p @ a @ q) (of_nat (length (p @ a @ q))) \<noteq>
    ext4_crc32c seed (p @ b @ q) (of_nat (length (p @ b @ q)))"
proof
  assume eq: "ext4_crc32c seed (p @ a @ q) (of_nat (length (p @ a @ q))) =
    ext4_crc32c seed (p @ b @ q) (of_nat (length (p @ b @ q)))"
  have "crc_ref seed (p @ a @ q) = crc_ref seed (p @ b @ q)"
    using eq assms(1,4) ext4_crc32c_small [of "p @ a @ q" seed] ext4_crc32c_small [of "p @ b @ q" seed]
    by simp
  with crc.burst [OF assms(1,2)] assms(3) show False by simp
qed

theorem crc32c_detects_bursts_witness:
  "ext4_crc32c 7 [1, 2, 3, 9, 9] 5 \<noteq> ext4_crc32c 7 [1, 4, 5, 6, 9] 5"
  using crc32c_detects_bursts [of "[2, 3, 9]" "[4, 5, 6]" "[1]" "[9]" 7] by simp

end
