(* ===== verification/JournalFormat.thy ===== *)
theory JournalFormat
  imports Crc
begin

text \<open>
  The jbd2 on-disk format of \<open>src/src/ext4_defs/journal.rs\<close>: the journal superblock, block
  tags in their three layouts, commit, revoke and descriptor blocks, and the checksum fields of
  each. Everything is big-endian. Every read is the checked slice access of the code, so a
  parser that could index outside its buffer would evaluate to \<open>Panic\<close>; the lemmas
  \<open>..._safe\<close> show that none does, on any input.
\<close>

section \<open>Big-endian access\<close>

definition be16 :: "bytes \<Rightarrow> nat \<Rightarrow> u16 res" where
  "be16 buf off = map_res be_word (get_at buf off 2)"

definition be32 :: "bytes \<Rightarrow> nat \<Rightarrow> u32 res" where
  "be32 buf off = map_res be_word (get_at buf off 4)"

definition be64 :: "bytes \<Rightarrow> nat \<Rightarrow> u64 res" where
  "be64 buf off = map_res be_word (get_at buf off 8)"

definition put_be32 :: "bytes \<Rightarrow> nat \<Rightarrow> u32 \<Rightarrow> bytes res" where
  "put_be32 buf off v = put_at buf off (be_bytes 4 v)"

definition put_be64 :: "bytes \<Rightarrow> nat \<Rightarrow> u64 \<Rightarrow> bytes res" where
  "put_be64 buf off v = put_at buf off (be_bytes 8 v)"

lemma be_Ok [buf_simps]:
  "off + 2 \<le> length buf \<Longrightarrow> be16 buf off = Ok (be_word (slice buf off 2))"
  "off + 4 \<le> length buf \<Longrightarrow> be32 buf off = Ok (be_word (slice buf off 4))"
  "off + 8 \<le> length buf \<Longrightarrow> be64 buf off = Ok (be_word (slice buf off 8))"
  by (simp_all add: be16_def be32_def be64_def buf_simps)

lemma put_be_Ok [buf_simps]:
  "off + 4 \<le> length buf \<Longrightarrow> put_be32 buf off v = Ok (put buf off (be_bytes 4 v))"
  "off + 8 \<le> length buf \<Longrightarrow> put_be64 buf off w = Ok (put buf off (be_bytes 8 w))"
  by (simp_all add: put_be32_def put_be64_def buf_simps)

section \<open>Constants\<close>

definition JBD2_MAGIC_NUMBER :: u32 where "JBD2_MAGIC_NUMBER = 0xC03B3998"
definition JBD2_DESCRIPTOR_BLOCK :: u32 where "JBD2_DESCRIPTOR_BLOCK = 1"
definition JBD2_COMMIT_BLOCK :: u32 where "JBD2_COMMIT_BLOCK = 2"
definition JBD2_SUPERBLOCK_V1 :: u32 where "JBD2_SUPERBLOCK_V1 = 3"
definition JBD2_SUPERBLOCK_V2 :: u32 where "JBD2_SUPERBLOCK_V2 = 4"
definition JBD2_REVOKE_BLOCK :: u32 where "JBD2_REVOKE_BLOCK = 5"

definition JBD2_FEATURE_INCOMPAT_64BIT :: u32 where "JBD2_FEATURE_INCOMPAT_64BIT = 0x2"
definition JBD2_FEATURE_INCOMPAT_CSUM_V2 :: u32 where "JBD2_FEATURE_INCOMPAT_CSUM_V2 = 0x8"
definition JBD2_FEATURE_INCOMPAT_CSUM_V3 :: u32 where "JBD2_FEATURE_INCOMPAT_CSUM_V3 = 0x10"

definition JBD2_FLAG_ESCAPE :: u16 where "JBD2_FLAG_ESCAPE = 1"
definition JBD2_FLAG_SAME_UUID :: u16 where "JBD2_FLAG_SAME_UUID = 2"
definition JBD2_FLAG_LAST_TAG :: u16 where "JBD2_FLAG_LAST_TAG = 8"

lemmas jbd2_consts = JBD2_MAGIC_NUMBER_def JBD2_DESCRIPTOR_BLOCK_def JBD2_COMMIT_BLOCK_def
  JBD2_REVOKE_BLOCK_def

section \<open>Checksums\<close>

definition jbd2_csum_seed :: "bytes \<Rightarrow> u32 res" where
  "jbd2_csum_seed uuid = ext4_crc32c EXT4_CRC32_INIT uuid 16"

definition jbd2_block_csum :: "u32 \<Rightarrow> bytes \<Rightarrow> u32 res" where
  "jbd2_block_csum seed block = ext4_crc32c seed block (of_nat (length block))"

definition jbd2_data_block_csum :: "u32 \<Rightarrow> u32 \<Rightarrow> bytes \<Rightarrow> u32 res" where
  "jbd2_data_block_csum seed sequence data =
     bind (ext4_crc32c seed (be_bytes 4 sequence) 4) (\<lambda>c.
     ext4_crc32c c data (of_nat (length data)))"

lemma jbd2_csum_seed_ok [buf_simps]:
  "length uuid = 16 \<Longrightarrow> jbd2_csum_seed uuid = Ok (crc_ref EXT4_CRC32_INIT uuid)"
  by (simp add: jbd2_csum_seed_def ext4_crc32c_def crc32_def crc32_loop_ref)

lemma jbd2_block_csum_ok:
  "jbd2_block_csum seed block = Ok (crc_ref seed (take (length block mod 2 ^ 32) block))"
  by (simp add: jbd2_block_csum_def ext4_crc32c_all)

lemma jbd2_block_csum_small [buf_simps]:
  "length block < 2 ^ 32 \<Longrightarrow> jbd2_block_csum seed block = Ok (crc_ref seed block)"
  by (simp add: jbd2_block_csum_ok)

lemma jbd2_data_block_csum_ok:
  "jbd2_data_block_csum seed sequence data =
     Ok (crc_ref seed (be_bytes 4 sequence @ take (length data mod 2 ^ 32) data))"
  using ext4_crc32c_all [of seed "be_bytes 4 sequence"]
  by (simp add: jbd2_data_block_csum_def ext4_crc32c_all crc_ref_append)

section \<open>The journal superblock\<close>

definition JBD2_SUPERBLOCK_MIN_LEN :: nat where "JBD2_SUPERBLOCK_MIN_LEN = 1024"

record journal_superblock =
  jsb_blocktype :: u32
  jsb_blocksize :: u32
  jsb_maxlen :: u32
  jsb_first :: u32
  jsb_sequence :: u32
  jsb_start :: u32
  jsb_feature_compat :: u32
  jsb_feature_incompat :: u32
  jsb_feature_ro_compat :: u32
  jsb_uuid :: bytes
  jsb_checksum_type :: u8

definition JournalSuperblock_parse :: "bytes \<Rightarrow> journal_superblock res" where
  "JournalSuperblock_parse buf =
     (if length buf < JBD2_SUPERBLOCK_MIN_LEN then Err EINVAL
      else bind (be32 buf 0) (\<lambda>magic.
        if magic \<noteq> JBD2_MAGIC_NUMBER then Err EINVAL
        else bind (get_at buf 48 16) (\<lambda>uuid.
          bind (be32 buf 4) (\<lambda>blocktype.
          bind (be32 buf 12) (\<lambda>blocksize.
          bind (be32 buf 16) (\<lambda>maxlen.
          bind (be32 buf 20) (\<lambda>first.
          bind (be32 buf 24) (\<lambda>sequence.
          bind (be32 buf 28) (\<lambda>start.
          bind (be32 buf 36) (\<lambda>feature_compat.
          bind (be32 buf 40) (\<lambda>feature_incompat.
          bind (be32 buf 44) (\<lambda>feature_ro_compat.
          bind (get_at buf 80 1) (\<lambda>checksum_type.
            Ok \<lparr> jsb_blocktype = blocktype, jsb_blocksize = blocksize, jsb_maxlen = maxlen,
                 jsb_first = first, jsb_sequence = sequence, jsb_start = start,
                 jsb_feature_compat = feature_compat, jsb_feature_incompat = feature_incompat,
                 jsb_feature_ro_compat = feature_ro_compat, jsb_uuid = uuid,
                 jsb_checksum_type = hd checksum_type \<rparr>)))))))))))))"

definition JournalSuperblock_emit :: "journal_superblock \<Rightarrow> bytes res" where
  "JournalSuperblock_emit sb =
     (let buf = replicate (max (unat (jsb_blocksize sb)) JBD2_SUPERBLOCK_MIN_LEN) 0 in
      bind (put_be32 buf 0 JBD2_MAGIC_NUMBER) (\<lambda>buf.
      bind (put_be32 buf 4 (jsb_blocktype sb)) (\<lambda>buf.
      bind (put_be32 buf 12 (jsb_blocksize sb)) (\<lambda>buf.
      bind (put_be32 buf 16 (jsb_maxlen sb)) (\<lambda>buf.
      bind (put_be32 buf 20 (jsb_first sb)) (\<lambda>buf.
      bind (put_be32 buf 24 (jsb_sequence sb)) (\<lambda>buf.
      bind (put_be32 buf 28 (jsb_start sb)) (\<lambda>buf.
      bind (put_be32 buf 36 (jsb_feature_compat sb)) (\<lambda>buf.
      bind (put_be32 buf 40 (jsb_feature_incompat sb)) (\<lambda>buf.
      bind (put_be32 buf 44 (jsb_feature_ro_compat sb)) (\<lambda>buf.
      bind (put_at buf 48 (jsb_uuid sb)) (\<lambda>buf.
      put_at buf 80 [jsb_checksum_type sb]))))))))))))"

definition has_incompat :: "journal_superblock \<Rightarrow> u32 \<Rightarrow> bool" where
  "has_incompat sb b \<longleftrightarrow> jsb_feature_incompat sb AND b \<noteq> 0"

definition patch_journal_sb_head :: "bytes \<Rightarrow> u32 \<Rightarrow> u32 \<Rightarrow> bytes res" where
  "patch_journal_sb_head sb_block sequence start =
     bind (put_at sb_block 24 (be_bytes 4 sequence)) (\<lambda>b. put_at b 28 (be_bytes 4 start))"

definition finalize_journal_sb_csum :: "bytes \<Rightarrow> bytes res" where
  "finalize_journal_sb_csum sb_block =
     bind (put_at sb_block 252 [0, 0, 0, 0]) (\<lambda>b.
     bind (get_at b 0 JBD2_SUPERBLOCK_MIN_LEN) (\<lambda>head.
     bind (ext4_crc32c EXT4_CRC32_INIT head (of_nat JBD2_SUPERBLOCK_MIN_LEN)) (\<lambda>c.
     put_at b 252 (be_bytes 4 c))))"

lemma JournalSuperblock_parse_ok:
  "1024 \<le> length buf \<Longrightarrow> JournalSuperblock_parse buf =
     (if be_word (slice buf 0 4) \<noteq> JBD2_MAGIC_NUMBER then Err EINVAL
      else Ok \<lparr> jsb_blocktype = be_word (slice buf 4 4), jsb_blocksize = be_word (slice buf 12 4),
        jsb_maxlen = be_word (slice buf 16 4), jsb_first = be_word (slice buf 20 4),
        jsb_sequence = be_word (slice buf 24 4), jsb_start = be_word (slice buf 28 4),
        jsb_feature_compat = be_word (slice buf 36 4),
        jsb_feature_incompat = be_word (slice buf 40 4),
        jsb_feature_ro_compat = be_word (slice buf 44 4), jsb_uuid = slice buf 48 16,
        jsb_checksum_type = hd (slice buf 80 1) \<rparr>)"
  by (simp add: JournalSuperblock_parse_def JBD2_SUPERBLOCK_MIN_LEN_def buf_simps)

lemma JournalSuperblock_parse_safe: "safe (JournalSuperblock_parse buf)"
proof (cases "length buf < 1024")
  case True
  then show ?thesis by (simp add: JournalSuperblock_parse_def JBD2_SUPERBLOCK_MIN_LEN_def)
qed (simp add: JournalSuperblock_parse_ok)

definition sb_fields :: "journal_superblock \<Rightarrow> (nat \<times> bytes) list" where
  "sb_fields sb =
     [(0, be_bytes 4 JBD2_MAGIC_NUMBER), (4, be_bytes 4 (jsb_blocktype sb)),
      (12, be_bytes 4 (jsb_blocksize sb)), (16, be_bytes 4 (jsb_maxlen sb)),
      (20, be_bytes 4 (jsb_first sb)), (24, be_bytes 4 (jsb_sequence sb)),
      (28, be_bytes 4 (jsb_start sb)), (36, be_bytes 4 (jsb_feature_compat sb)),
      (40, be_bytes 4 (jsb_feature_incompat sb)), (44, be_bytes 4 (jsb_feature_ro_compat sb)),
      (48, jsb_uuid sb), (80, [jsb_checksum_type sb])]"

lemma JournalSuperblock_emit_fields:
  assumes "length (jsb_uuid sb) = 16"
  shows "JournalSuperblock_emit sb =
    Ok (put_all (replicate (max (unat (jsb_blocksize sb)) 1024) 0) (sb_fields sb))"
proof -
  obtain buf :: bytes where buf: "buf = replicate (max (unat (jsb_blocksize sb)) 1024) 0"
    and len: "1024 \<le> length buf" by simp
  show ?thesis
    unfolding JournalSuperblock_emit_def JBD2_SUPERBLOCK_MIN_LEN_def Let_def buf [symmetric]
    using assms order_trans [OF _ len]
    by (simp add: put_be32_def put_at_Ok le_length_put sb_fields_def put_all_Cons)
qed

lemma JournalSuperblock_roundtrip:
  assumes "length (jsb_uuid sb) = 16"
  shows "bind (JournalSuperblock_emit sb) JournalSuperblock_parse = Ok sb"
proof -
  obtain buf :: bytes where buf: "buf = replicate (max (unat (jsb_blocksize sb)) 1024) 0"
    and len: "1024 \<le> length buf" by simp
  have "layout 0 (sb_fields sb) (length buf)" using assms len by (simp add: sb_fields_def)
  then show ?thesis
    unfolding JournalSuperblock_emit_fields [OF assms] bind_simps buf [symmetric]
    using assms len
    by (simp add: JournalSuperblock_parse_ok put_all_simps sb_fields_def endian_simps)
qed

interpretation sb_codec: codec JournalSuperblock_emit JournalSuperblock_parse
  "\<lambda>sb. length (jsb_uuid sb) = 16"
  by unfold_locales (fact JournalSuperblock_roundtrip)

text \<open>Patching the head and re-stamping the checksum touch only their own bytes.\<close>

lemma patch_journal_sb_head_ok:
  "32 \<le> length b \<Longrightarrow> patch_journal_sb_head b sequence start =
    Ok (put_all b [(24, be_bytes 4 sequence), (28, be_bytes 4 start)])"
  by (simp add: patch_journal_sb_head_def put_at_Ok le_length_put put_all_Cons)

definition sb_csum :: "bytes \<Rightarrow> u32" where
  "sb_csum b = crc_ref EXT4_CRC32_INIT (slice (put b 252 [0, 0, 0, 0]) 0 1024)"

lemma finalize_journal_sb_csum_ok:
  "1024 \<le> length b \<Longrightarrow> finalize_journal_sb_csum b = Ok (put b 252 (be_bytes 4 (sb_csum b)))"
  using ext4_crc32c_small [of "slice (put b 252 [0, 0, 0, 0]) 0 1024"]
  by (simp add: finalize_journal_sb_csum_def JBD2_SUPERBLOCK_MIN_LEN_def put_at_Ok get_at_Ok
      le_length_put length_put put_put_same sb_csum_def)

section \<open>Block tags\<close>

datatype tag_format = V1 | V2 | V3

definition from_features :: "u32 \<Rightarrow> tag_format" where
  "from_features feature_incompat =
     (if feature_incompat AND JBD2_FEATURE_INCOMPAT_CSUM_V3 \<noteq> 0 then V3
      else if feature_incompat AND JBD2_FEATURE_INCOMPAT_CSUM_V2 \<noteq> 0 then V2 else V1)"

record block_tag =
  tag_blocknr :: u64
  tag_flags :: u16
  tag_checksum :: u32

definition tag_len :: "tag_format \<Rightarrow> bool \<Rightarrow> nat" where
  "tag_len fmt has_64bit = (case fmt of V3 \<Rightarrow> 16 | _ \<Rightarrow> if has_64bit then 12 else 8)"

definition BlockTag_emit :: "block_tag \<Rightarrow> tag_format \<Rightarrow> bool \<Rightarrow> bool \<Rightarrow> bytes" where
  "BlockTag_emit tag fmt has_64bit same_uuid =
     (let lo = ucast (tag_blocknr tag AND 0xFFFFFFFF) :: u32;
          hi = ucast (drop_bit 32 (tag_blocknr tag)) :: u32
      in (case fmt of
            V3 \<Rightarrow> be_bytes 4 lo @ be_bytes 4 (ucast (tag_flags tag) :: u32) @ be_bytes 4 hi
                  @ be_bytes 4 (tag_checksum tag)
          | _ \<Rightarrow> (let csum16 = (if fmt = V1 then 0 else ucast (tag_checksum tag AND 0xFFFF)) :: u16
                 in be_bytes 4 lo @ be_bytes 2 csum16 @ be_bytes 2 (tag_flags tag)
                    @ (if has_64bit then be_bytes 4 hi else [])))
         @ (if same_uuid then [] else replicate 16 0))"

definition BlockTag_parse :: "bytes \<Rightarrow> tag_format \<Rightarrow> bool \<Rightarrow> (block_tag \<times> nat) res" where
  "BlockTag_parse buf fmt has_64bit =
     (if length buf < tag_len fmt has_64bit then Err EINVAL
      else bind
        (if fmt = V3
         then bind (be32 buf 0) (\<lambda>lo. bind (be32 buf 4) (\<lambda>fl.
              bind (be32 buf 8) (\<lambda>hi. bind (be32 buf 12) (\<lambda>checksum.
              Ok (push_bit 32 (ucast hi) OR ucast lo :: u64, ucast fl :: u16, checksum)))))
         else bind (be32 buf 0) (\<lambda>lo. bind (be16 buf 4) (\<lambda>csum16. bind (be16 buf 6) (\<lambda>fl.
              bind (if has_64bit then be32 buf 8 else Ok 0) (\<lambda>hi.
              Ok (push_bit 32 (ucast hi) OR ucast lo, fl,
                  if fmt = V1 then 0 else ucast csum16))))))
        (\<lambda>(blocknr, flags, checksum).
          let tag = \<lparr> tag_blocknr = blocknr, tag_flags = flags, tag_checksum = checksum \<rparr> in
          if flags AND JBD2_FLAG_SAME_UUID = 0
          then if length buf < tag_len fmt has_64bit + 16 then Err EINVAL
               else Ok (tag, tag_len fmt has_64bit + 16)
          else Ok (tag, tag_len fmt has_64bit)))"

text \<open>The tags a layout can hold: without 64-bit tags a block number has 32 bits, and the
  checksum field has none, 16 or 32 bits.\<close>

definition tag_fits :: "tag_format \<Rightarrow> bool \<Rightarrow> block_tag \<Rightarrow> bool" where
  "tag_fits fmt has_64bit tag =
     (case fmt of
        V3 \<Rightarrow> True
      | V2 \<Rightarrow> (has_64bit \<or> drop_bit 32 (tag_blocknr tag) = 0) \<and> drop_bit 16 (tag_checksum tag) = 0
      | V1 \<Rightarrow> (has_64bit \<or> drop_bit 32 (tag_blocknr tag) = 0) \<and> tag_checksum tag = 0)"

definition same_uuid_flag :: "block_tag \<Rightarrow> bool" where
  "same_uuid_flag tag \<longleftrightarrow> tag_flags tag AND JBD2_FLAG_SAME_UUID \<noteq> 0"

lemma tag_len_simps [simp]:
  "tag_len V3 h = 16" "tag_len V2 True = 12" "tag_len V2 False = 8"
  "tag_len V1 True = 12" "tag_len V1 False = 8"
  by (simp_all add: tag_len_def)

lemma length_BlockTag_emit:
  "length (BlockTag_emit tag fmt h su) = tag_len fmt h + (if su then 0 else 16)"
  by (cases fmt) (simp_all add: BlockTag_emit_def tag_len_def Let_def)

lemma blocknr_halves:
  fixes b :: u64
  shows "push_bit 32 (ucast (ucast (drop_bit 32 b) :: u32)) OR ucast (ucast (b AND 0xFFFFFFFF) :: u32) = b"
proof -
  have m: "(0xFFFFFFFF :: u64) = mask 32" by (simp add: mask_eq_exp_minus_1)
  show ?thesis unfolding m
    by (rule bit_word_eqI) (auto simp: bit_simps bit_mask_iff)
qed

lemma blocknr_low_half:
  fixes b :: u64
  assumes "drop_bit 32 b = 0"
  shows "ucast (ucast (b AND 0xFFFFFFFF) :: u32) = b"
  using blocknr_halves [of b] assms by simp

lemma flags_wide: "ucast (ucast (f :: u16) :: u32) = f"
  by (rule bit_word_eqI) (auto simp: bit_simps)

lemma csum_low_half:
  fixes c :: u32
  assumes "drop_bit 16 c = 0"
  shows "ucast (ucast (c AND 0xFFFF) :: u16) = c"
proof -
  have m: "(0xFFFF :: u32) = mask 16" by (simp add: mask_eq_exp_minus_1)
  have "k < 16" if "bit c k" for k
  proof (rule ccontr)
    assume "\<not> k < 16"
    then have "bit (drop_bit 16 c) (k - 16)" using that by (simp add: bit_drop_bit_eq)
    then show False using assms by simp
  qed
  then show ?thesis unfolding m
    by (intro bit_word_eqI) (auto simp: bit_simps bit_mask_iff)
qed

lemma BlockTag_parse_safe: "safe (BlockTag_parse buf fmt h)"
  by (cases fmt) (auto simp: BlockTag_parse_def tag_len_def buf_simps Let_def split: if_splits)

lemma BlockTag_parse_consumed:
  assumes "BlockTag_parse buf fmt h = Ok (tag, n)"
  shows "n \<le> length buf" and "8 \<le> n"
    and "n = tag_len fmt h + (if same_uuid_flag tag then 0 else 16)"
  using assms by (cases fmt; cases h; force simp: BlockTag_parse_def tag_len_def buf_simps Let_def
      same_uuid_flag_def split: if_splits)+

lemma BlockTag_roundtrip:
  assumes "tag_fits fmt h tag"
  shows "BlockTag_parse (BlockTag_emit tag fmt h (same_uuid_flag tag) @ rest) fmt h =
    Ok (tag, tag_len fmt h + (if same_uuid_flag tag then 0 else 16))"
proof -
  let ?b = "BlockTag_emit tag fmt h (same_uuid_flag tag) @ rest"
  have len: "length ?b = tag_len fmt h + (if same_uuid_flag tag then 0 else 16) + length rest"
    by (simp add: length_BlockTag_emit)
  show ?thesis
  proof (cases fmt)
    case V3
    then show ?thesis using len
      by (simp add: BlockTag_parse_def tag_len_def be_Ok same_uuid_flag_def)
         (simp add: BlockTag_emit_def tag_len_def Let_def buf_simps endian_simps blocknr_halves flags_wide)
  next
    case V2
    then show ?thesis using len assms
      by (cases h) (simp_all add: BlockTag_parse_def tag_len_def be_Ok same_uuid_flag_def,
        simp_all add: BlockTag_emit_def Let_def buf_simps endian_simps blocknr_halves
          blocknr_low_half csum_low_half tag_fits_def)
  next
    case V1
    then show ?thesis using len assms
      by (cases h) (simp_all add: BlockTag_parse_def tag_len_def be_Ok same_uuid_flag_def,
        simp_all add: BlockTag_emit_def Let_def buf_simps endian_simps blocknr_halves
          blocknr_low_half tag_fits_def)
  qed
qed

section \<open>Commit blocks\<close>

record commit_block =
  cb_sequence :: u32
  cb_commit_sec :: u64
  cb_commit_nsec :: u32

definition CommitBlock_emit :: "commit_block \<Rightarrow> nat \<Rightarrow> bytes res" where
  "CommitBlock_emit cb block_size =
     bind (put_be32 (replicate block_size 0) 0 JBD2_MAGIC_NUMBER) (\<lambda>buf.
     bind (put_be32 buf 4 JBD2_COMMIT_BLOCK) (\<lambda>buf.
     bind (put_be32 buf 8 (cb_sequence cb)) (\<lambda>buf.
     bind (put_be64 buf 48 (cb_commit_sec cb)) (\<lambda>buf.
     put_be32 buf 56 (cb_commit_nsec cb)))))"

definition CommitBlock_parse :: "bytes \<Rightarrow> commit_block res" where
  "CommitBlock_parse buf =
     (if length buf < 60 then Err EINVAL
      else bind (be32 buf 0) (\<lambda>magic.
        if magic \<noteq> JBD2_MAGIC_NUMBER then Err EINVAL
        else bind (be32 buf 4) (\<lambda>blocktype.
        if blocktype \<noteq> JBD2_COMMIT_BLOCK then Err EINVAL
        else bind (be32 buf 8) (\<lambda>sequence.
          bind (be64 buf 48) (\<lambda>commit_sec.
          bind (be32 buf 56) (\<lambda>commit_nsec.
          Ok \<lparr> cb_sequence = sequence, cb_commit_sec = commit_sec,
               cb_commit_nsec = commit_nsec \<rparr>))))))"

definition finalize_commit_csum :: "bytes \<Rightarrow> u32 \<Rightarrow> bytes res" where
  "finalize_commit_csum block seed =
     bind (put_at block 12 [4]) (\<lambda>b.
     bind (put_at b 13 [4]) (\<lambda>b.
     bind (put_be32 b 16 0) (\<lambda>b.
     bind (jbd2_block_csum seed b) (\<lambda>c.
     put_be32 b 16 c))))"

definition verify_commit_csum :: "bytes \<Rightarrow> u32 \<Rightarrow> bool res" where
  "verify_commit_csum block seed =
     (if length block < 20 then Ok False
      else bind (be32 block 16) (\<lambda>stored.
        bind (put_be32 block 16 0) (\<lambda>tmp.
        bind (jbd2_block_csum seed tmp) (\<lambda>c. Ok (c = stored)))))"

definition commit_fields :: "commit_block \<Rightarrow> (nat \<times> bytes) list" where
  "commit_fields cb =
     [(0, be_bytes 4 JBD2_MAGIC_NUMBER), (4, be_bytes 4 JBD2_COMMIT_BLOCK),
      (8, be_bytes 4 (cb_sequence cb)), (48, be_bytes 8 (cb_commit_sec cb)),
      (56, be_bytes 4 (cb_commit_nsec cb))]"

lemma CommitBlock_emit_fields:
  assumes "60 \<le> n"
  shows "CommitBlock_emit cb n = Ok (put_all (replicate n 0) (commit_fields cb))"
  using order_trans [OF _ assms]
  by (simp add: CommitBlock_emit_def put_be_Ok le_length_put commit_fields_def put_all_Cons)

lemma length_commit_fields:
  "60 \<le> n \<Longrightarrow> length (put_all (replicate n 0) (commit_fields cb)) = n"
  using length_put_all [of 0 "commit_fields cb" "replicate n 0"] by (simp add: commit_fields_def)

lemma CommitBlock_parse_safe: "safe (CommitBlock_parse buf)"
  by (simp add: CommitBlock_parse_def buf_simps)

lemma CommitBlock_roundtrip:
  "60 \<le> n \<Longrightarrow> bind (CommitBlock_emit cb n) CommitBlock_parse = Ok cb"
  by (simp add: CommitBlock_emit_fields CommitBlock_parse_def length_commit_fields be_Ok)
     (simp add: commit_fields_def put_all_simps endian_simps jbd2_consts)

interpretation commit_codec: codec "\<lambda>cb. CommitBlock_emit cb n" CommitBlock_parse "\<lambda>cb. 60 \<le> n" for n
  by unfold_locales (fact CommitBlock_roundtrip)

section \<open>Revoke blocks\<close>

record revoke_block =
  rb_sequence :: u32
  rb_blocks :: "u64 list"

definition entry_size :: "bool \<Rightarrow> nat" where
  "entry_size has_64bit = (if has_64bit then 8 else 4)"

fun put_entries :: "bool \<Rightarrow> bytes \<Rightarrow> nat \<Rightarrow> u64 list \<Rightarrow> (bytes \<times> nat) res" where
  "put_entries has_64bit buf off [] = Ok (buf, off)"
| "put_entries has_64bit buf off (blk # blks) =
     bind (if has_64bit then put_be64 buf off blk else put_be32 buf off (ucast blk)) (\<lambda>buf.
     put_entries has_64bit buf (off + entry_size has_64bit) blks)"

definition RevokeBlock_emit :: "revoke_block \<Rightarrow> nat \<Rightarrow> bool \<Rightarrow> bytes res" where
  "RevokeBlock_emit rb block_size has_64bit =
     bind (put_be32 (replicate block_size 0) 0 JBD2_MAGIC_NUMBER) (\<lambda>buf.
     bind (put_be32 buf 4 JBD2_REVOKE_BLOCK) (\<lambda>buf.
     bind (put_be32 buf 8 (rb_sequence rb)) (\<lambda>buf.
     bind (put_entries has_64bit buf 16 (rb_blocks rb)) (\<lambda>(buf, off).
     put_be32 buf 12 (of_nat off)))))"

function get_entries :: "bool \<Rightarrow> bytes \<Rightarrow> nat \<Rightarrow> nat \<Rightarrow> u64 list res" where
  "get_entries has_64bit buf r_count off =
     (if off + entry_size has_64bit \<le> r_count
      then bind (if has_64bit then be64 buf off else map_res ucast (be32 buf off)) (\<lambda>blk.
           map_res ((#) blk) (get_entries has_64bit buf r_count (off + entry_size has_64bit)))
      else Ok [])"
  by pat_completeness auto
termination
  by (relation "measure (\<lambda>(h, buf, r_count, off). r_count - off)") (auto simp: entry_size_def split: if_splits)

declare get_entries.simps [simp del]

definition RevokeBlock_parse :: "bytes \<Rightarrow> bool \<Rightarrow> revoke_block res" where
  "RevokeBlock_parse buf has_64bit =
     (if length buf < 16 then Err EINVAL
      else bind (be32 buf 0) (\<lambda>magic.
        if magic \<noteq> JBD2_MAGIC_NUMBER then Err EINVAL
        else bind (be32 buf 4) (\<lambda>blocktype.
        if blocktype \<noteq> JBD2_REVOKE_BLOCK then Err EINVAL
        else bind (be32 buf 8) (\<lambda>sequence.
          bind (be32 buf 12) (\<lambda>r_count.
          if length buf < unat r_count then Err EINVAL
          else bind (get_entries has_64bit buf (unat r_count) 16) (\<lambda>blocks.
            Ok \<lparr> rb_sequence = sequence, rb_blocks = blocks \<rparr>))))))"

definition finalize_revoke_csum :: "bytes \<Rightarrow> u32 \<Rightarrow> bytes res" where
  "finalize_revoke_csum block seed =
     (if length block < 4 then Panic
      else bind (put_be32 block (length block - 4) 0) (\<lambda>b.
        bind (jbd2_block_csum seed b) (\<lambda>c.
        put_be32 b (length block - 4) c)))"

definition verify_revoke_csum :: "bytes \<Rightarrow> u32 \<Rightarrow> bool res" where
  "verify_revoke_csum block seed =
     (if length block < 4 then Ok False
      else bind (be32 block (length block - 4)) (\<lambda>stored.
        bind (put_be32 block (length block - 4) 0) (\<lambda>tmp.
        bind (jbd2_block_csum seed tmp) (\<lambda>c. Ok (c = stored)))))"

definition entry_bytes :: "bool \<Rightarrow> u64 \<Rightarrow> bytes" where
  "entry_bytes h blk = (if h then be_bytes 8 blk else be_bytes 4 (ucast blk :: u32))"

lemma length_entry_bytes [simp]: "length (entry_bytes h blk) = entry_size h"
  by (simp add: entry_bytes_def entry_size_def)

lemma length_entries [simp]: "length (concat (map (entry_bytes h) blks)) = entry_size h * length blks"
  by (induction blks) simp_all

lemma put_entries_ok:
  "off + entry_size h * length blks \<le> length buf \<Longrightarrow> put_entries h buf off blks =
     Ok (put buf off (concat (map (entry_bytes h) blks)), off + entry_size h * length blks)"
proof (induction blks arbitrary: buf off)
  case Nil
  then show ?case by simp
next
  case (Cons blk blks)
  have "(if h then put_be64 buf off blk else put_be32 buf off (ucast blk)) =
      Ok (put buf off (entry_bytes h blk))"
    using Cons.prems by (cases h) (simp_all add: entry_size_def entry_bytes_def put_be_Ok)
  moreover have "put (put buf off (entry_bytes h blk)) (off + entry_size h)
      (concat (map (entry_bytes h) blks)) = put buf off (concat (map (entry_bytes h) (blk # blks)))"
    using put_put_adjacent [of off "entry_bytes h blk" "concat (map (entry_bytes h) blks)" buf] Cons.prems
    by simp
  ultimately show ?case using Cons by (simp add: length_put)
qed

lemma entry_read:
  assumes "off + entry_size h \<le> length buf"
  shows "(if h then be64 buf off else map_res ucast (be32 buf off)) =
    Ok (if h then be_word (slice buf off 8) else ucast (be_word (slice buf off 4) :: u32))"
  using assms by (cases h) (simp_all add: entry_size_def be_Ok)

lemma get_entries_safe: "r_count \<le> length buf \<Longrightarrow> safe (get_entries h buf r_count off)"
proof (induction h buf r_count off rule: get_entries.induct)
  case (1 h buf r_count off)
  show ?case
  proof (cases "off + entry_size h \<le> r_count")
    case True
    then have "get_entries h buf r_count off =
        map_res ((#) (if h then be_word (slice buf off 8) else ucast (be_word (slice buf off 4) :: u32)))
          (get_entries h buf r_count (off + entry_size h))"
      using "1.prems" entry_read [of off h buf] by (subst get_entries.simps) simp
    moreover have "safe (get_entries h buf r_count (off + entry_size h))"
      using True 1 entry_read [of off h buf] by simp
    ultimately show ?thesis by (auto simp: map_res_def)
  next
    case False
    then show ?thesis by (subst get_entries.simps) simp
  qed
qed

lemma RevokeBlock_parse_safe: "safe (RevokeBlock_parse buf h)"
  by (auto simp: RevokeBlock_parse_def be_Ok get_entries_safe split: if_splits intro!: safe_bind)

definition entry_fits :: "bool \<Rightarrow> u64 \<Rightarrow> bool" where
  "entry_fits h blk \<longleftrightarrow> h \<or> drop_bit 32 blk = 0"

lemma narrow_blocknr:
  fixes b :: u64
  assumes "drop_bit 32 b = 0"
  shows "ucast (ucast b :: u32) = b"
proof -
  have "(ucast b :: u32) = ucast (b AND 0xFFFFFFFF)"
    unfolding mask_eq_exp_minus_1 [of 32, where 'a = "64 word", simplified, symmetric]
    by (rule bit_word_eqI) (auto simp: bit_simps bit_mask_iff)
  then show ?thesis using blocknr_low_half [OF assms] by simp
qed

lemma get_entries_ok:
  assumes "slice buf off (entry_size h * length blks) = concat (map (entry_bytes h) blks)"
    and "off + entry_size h * length blks \<le> length buf" and "list_all (entry_fits h) blks"
  shows "get_entries h buf (off + entry_size h * length blks) off = Ok blks"
  using assms
proof (induction blks arbitrary: off)
  case Nil
  then show ?case by (subst get_entries.simps) (simp add: entry_size_def)
next
  case (Cons blk blks)
  let ?n = "entry_size h * length (blk # blks)"
  have first: "slice buf off (entry_size h) = entry_bytes h blk"
    using arg_cong [OF Cons.prems(1), of "\<lambda>x. slice x 0 (entry_size h)"] by (simp add: buf_simps)
  have rest: "slice buf (off + entry_size h) (entry_size h * length blks) = concat (map (entry_bytes h) blks)"
    using arg_cong [OF Cons.prems(1), of "\<lambda>x. slice x (entry_size h) (entry_size h * length blks)"]
    by (simp add: buf_simps)
  have "(if h then be64 buf off else map_res ucast (be32 buf off)) = Ok blk"
    using Cons.prems(2,3) first narrow_blocknr [of blk]
    by (cases h) (simp_all add: be_Ok entry_bytes_def entry_size_def entry_fits_def endian_simps)
  moreover have "get_entries h buf (off + ?n) (off + entry_size h) = Ok blks"
    using Cons.IH [OF rest] Cons.prems by (simp add: add.assoc)
  ultimately show ?case by (subst get_entries.simps) simp
qed

lemma RevokeBlock_roundtrip:
  assumes "16 + entry_size h * length (rb_blocks rb) \<le> n" and "n < 2 ^ 32"
    and "list_all (entry_fits h) (rb_blocks rb)"
  shows "bind (RevokeBlock_emit rb n h) (\<lambda>b. RevokeBlock_parse b h) = Ok rb"
proof -
  let ?es = "concat (map (entry_bytes h) (rb_blocks rb))"
  let ?c = "16 + entry_size h * length (rb_blocks rb)"
  let ?ws = "[(0, be_bytes 4 JBD2_MAGIC_NUMBER), (4, be_bytes 4 JBD2_REVOKE_BLOCK),
    (8, be_bytes 4 (rb_sequence rb)), (12, be_bytes 4 (of_nat ?c :: u32)), (16, ?es)]"
  let ?b = "put_all (replicate n 0) ?ws"
  have lay: "layout 0 ?ws (length (replicate n 0))" using assms(1) by simp
  have len: "length ?b = n" using length_put_all [OF lay] by simp
  have "RevokeBlock_emit rb n h = Ok ?b"
    using assms(1) put_commute [of 12 "be_bytes 4 (of_nat ?c :: u32)" 16 ?es]
    by (simp add: RevokeBlock_emit_def put_be_Ok le_length_put length_put put_entries_ok put_all_Cons)
  moreover have cnt: "unat (of_nat ?c :: u32) = ?c"
    by (rule unat_of_nat_small) (use assms in simp)
  moreover have "get_entries h ?b ?c 16 = Ok (rb_blocks rb)"
    by (rule get_entries_ok) (use assms(1,3) len slice_put_all [OF lay, of 16] in simp_all)
  ultimately show ?thesis using assms(1) len slice_put_all [OF lay]
    by (simp add: RevokeBlock_parse_def be_Ok endian_simps jbd2_consts del: of_nat_add of_nat_mult)
qed

interpretation revoke_codec: codec "\<lambda>rb. RevokeBlock_emit rb n h" "\<lambda>b. RevokeBlock_parse b h"
  "\<lambda>rb. 16 + entry_size h * length (rb_blocks rb) \<le> n \<and> n < 2 ^ 32 \<and> list_all (entry_fits h) (rb_blocks rb)"
  for n h
  by unfold_locales (blast intro: RevokeBlock_roundtrip)

section \<open>Descriptor blocks\<close>

definition descriptor_block_tag_capacity :: "nat \<Rightarrow> tag_format \<Rightarrow> bool \<Rightarrow> bool \<Rightarrow> nat" where
  "descriptor_block_tag_capacity block_size fmt has_64bit has_csum =
     (block_size - (12 + 16 + (if has_csum then 4 else 0))) div tag_len fmt has_64bit"

text \<open>The tag as it is written at position \<open>idx\<close> of a descriptor block.\<close>

definition descriptor_tag :: "nat \<Rightarrow> nat \<Rightarrow> block_tag \<Rightarrow> block_tag" where
  "descriptor_tag last_idx idx tag =
     (let flags = tag_flags tag AND NOT (JBD2_FLAG_SAME_UUID OR JBD2_FLAG_LAST_TAG);
          flags = (if 0 < idx then flags OR JBD2_FLAG_SAME_UUID else flags);
          flags = (if idx = last_idx then flags OR JBD2_FLAG_LAST_TAG else flags)
      in tag\<lparr> tag_flags := flags \<rparr>)"

fun put_tags ::
  "tag_format \<Rightarrow> bool \<Rightarrow> nat \<Rightarrow> nat \<Rightarrow> bytes \<Rightarrow> nat \<Rightarrow> block_tag list \<Rightarrow> bytes res" where
  "put_tags fmt has_64bit last_idx idx block off [] = Ok block"
| "put_tags fmt has_64bit last_idx idx block off (tag # tags) =
     (let b = BlockTag_emit (descriptor_tag last_idx idx tag) fmt has_64bit (0 < idx)
      in bind (put_at block off b) (\<lambda>block.
         put_tags fmt has_64bit last_idx (Suc idx) block (off + length b) tags))"

definition assemble_descriptor_block ::
  "u32 \<Rightarrow> u32 \<Rightarrow> nat \<Rightarrow> tag_format \<Rightarrow> bool \<Rightarrow> bool \<Rightarrow> block_tag list \<Rightarrow> bytes res" where
  "assemble_descriptor_block seed sequence block_size fmt has_64bit has_csum tags =
     bind (put_be32 (replicate block_size 0) 0 JBD2_MAGIC_NUMBER) (\<lambda>block.
     bind (put_be32 block 4 JBD2_DESCRIPTOR_BLOCK) (\<lambda>block.
     bind (put_be32 block 8 sequence) (\<lambda>block.
     bind (put_tags fmt has_64bit (length tags - 1) 0 block 12 tags) (\<lambda>block.
     if has_csum
     then bind (put_be32 block (block_size - 4) 0) (\<lambda>block.
          bind (jbd2_block_csum seed block) (\<lambda>c.
          put_be32 block (block_size - 4) c))
     else Ok block))))"

function get_tags :: "bytes \<Rightarrow> tag_format \<Rightarrow> bool \<Rightarrow> nat \<Rightarrow> block_tag list res" where
  "get_tags buf fmt has_64bit off =
     (if length buf < off then Panic
      else bind (BlockTag_parse (drop off buf) fmt has_64bit) (\<lambda>(tag, consumed).
        if tag_flags tag AND JBD2_FLAG_LAST_TAG \<noteq> 0 then Ok [tag]
        else map_res ((#) tag) (get_tags buf fmt has_64bit (off + consumed))))"
  by pat_completeness auto
termination
  by (relation "measure (\<lambda>(buf, fmt, h, off). Suc (length buf) - off)")
     (auto dest!: BlockTag_parse_consumed(2))

declare get_tags.simps [simp del]

definition parse_descriptor_block :: "bytes \<Rightarrow> tag_format \<Rightarrow> bool \<Rightarrow> block_tag list res" where
  "parse_descriptor_block buf fmt has_64bit =
     (if length buf < 12 then Err EINVAL
      else bind (be32 buf 0) (\<lambda>magic.
        if magic \<noteq> JBD2_MAGIC_NUMBER then Err EINVAL
        else bind (be32 buf 4) (\<lambda>blocktype.
        if blocktype \<noteq> JBD2_DESCRIPTOR_BLOCK then Err EINVAL
        else get_tags buf fmt has_64bit 12)))"

lemma get_tags_safe: "off \<le> length buf \<Longrightarrow> safe (get_tags buf fmt h off)"
proof (induction buf fmt h off rule: get_tags.induct)
  case (1 buf fmt h off)
  show ?case
  proof (cases "BlockTag_parse (drop off buf) fmt h")
    case (Ok r)
    obtain tag n where r: "r = (tag, n)" by (cases r)
    have "off + n \<le> length buf"
      using BlockTag_parse_consumed(1) [of "drop off buf" fmt h tag n] Ok r "1.prems" by simp
    then show ?thesis using 1 Ok r
      by (subst get_tags.simps) (auto simp: map_res_def)
  next
    case Panic
    then show ?thesis using BlockTag_parse_safe [of "drop off buf" fmt h] by simp
  next
    case Undef
    then show ?thesis using BlockTag_parse_safe [of "drop off buf" fmt h] by simp
  qed (use "1.prems" in \<open>subst get_tags.simps, simp\<close>)
qed

lemma parse_descriptor_block_safe: "safe (parse_descriptor_block buf fmt h)"
  by (simp add: parse_descriptor_block_def be_Ok get_tags_safe)

fun fixed_tags :: "nat \<Rightarrow> nat \<Rightarrow> block_tag list \<Rightarrow> block_tag list" where
  "fixed_tags last_idx idx [] = []"
| "fixed_tags last_idx idx (tag # tags) =
     descriptor_tag last_idx idx tag # fixed_tags last_idx (Suc idx) tags"

definition tags_bytes :: "tag_format \<Rightarrow> bool \<Rightarrow> block_tag list \<Rightarrow> bytes" where
  "tags_bytes fmt h tags = concat (map (\<lambda>t. BlockTag_emit t fmt h (same_uuid_flag t)) tags)"

definition last_tag_flag :: "block_tag \<Rightarrow> bool" where
  "last_tag_flag tag \<longleftrightarrow> tag_flags tag AND JBD2_FLAG_LAST_TAG \<noteq> 0"

lemma flag_bit: "(f AND 2 \<noteq> 0) = bit (f :: u16) 1" "(f AND 8 \<noteq> 0) = bit f 3"
  using and_exp_eq_0_iff_not_bit [of f 1] and_exp_eq_0_iff_not_bit [of f 3] by simp_all

lemma descriptor_tag_flags [simp]:
  "same_uuid_flag (descriptor_tag l idx tag) \<longleftrightarrow> 0 < idx"
  "last_tag_flag (descriptor_tag l idx tag) \<longleftrightarrow> idx = l"
  unfolding same_uuid_flag_def last_tag_flag_def JBD2_FLAG_SAME_UUID_def JBD2_FLAG_LAST_TAG_def flag_bit
  by (auto simp: descriptor_tag_def Let_def JBD2_FLAG_SAME_UUID_def JBD2_FLAG_LAST_TAG_def bit_simps
      bit_numeral_rec)

lemma descriptor_tag_keeps [simp]:
  "tag_blocknr (descriptor_tag l idx tag) = tag_blocknr tag"
  "tag_checksum (descriptor_tag l idx tag) = tag_checksum tag"
  "tag_fits fmt h (descriptor_tag l idx tag) = tag_fits fmt h tag"
  by (simp_all add: descriptor_tag_def Let_def) (cases fmt; simp add: tag_fits_def)

lemma fixed_tags_keeps:
  "length (fixed_tags l idx tags) = length tags"
  "map tag_blocknr (fixed_tags l idx tags) = map tag_blocknr tags"
  "map tag_checksum (fixed_tags l idx tags) = map tag_checksum tags"
  "list_all (tag_fits fmt h) (fixed_tags l idx tags) = list_all (tag_fits fmt h) tags"
  by (induction tags arbitrary: idx) simp_all

lemma length_tags_bytes:
  "length (tags_bytes fmt h (fixed_tags l idx tags)) =
     tag_len fmt h * length tags + (if idx = 0 \<and> tags \<noteq> [] then 16 else 0)"
  by (induction tags arbitrary: idx) (auto simp: tags_bytes_def length_BlockTag_emit)

lemma tags_bytes_Cons:
  "tags_bytes fmt h (t # ts) = BlockTag_emit t fmt h (same_uuid_flag t) @ tags_bytes fmt h ts"
  by (simp add: tags_bytes_def)

lemma put_tags_ok:
  "off + length (tags_bytes fmt h (fixed_tags l idx tags)) \<le> length block \<Longrightarrow>
   put_tags fmt h l idx block off tags = Ok (put block off (tags_bytes fmt h (fixed_tags l idx tags)))"
proof (induction tags arbitrary: idx block off)
  case Nil
  then show ?case by (simp add: tags_bytes_def)
next
  case (Cons tag tags)
  let ?b = "BlockTag_emit (descriptor_tag l idx tag) fmt h (0 < idx)"
  let ?r = "tags_bytes fmt h (fixed_tags l (Suc idx) tags)"
  have fits: "off + length ?b + length ?r \<le> length block"
    using Cons.prems by (simp add: tags_bytes_Cons)
  then have "put_tags fmt h l (Suc idx) (put block off ?b) (off + length ?b) tags =
      Ok (put (put block off ?b) (off + length ?b) ?r)"
    by (intro Cons.IH) (simp add: length_put)
  then show ?case using fits put_put_adjacent [of off ?b ?r block]
    by (simp add: Let_def put_at_Ok tags_bytes_Cons)
qed

lemma get_tags_ok:
  assumes "drop off buf = tags_bytes fmt h ts @ rest" and "off \<le> length buf" and "ts \<noteq> []"
    and "list_all (tag_fits fmt h) ts" and "last_tag_flag (last ts)"
    and "list_all (\<lambda>t. \<not> last_tag_flag t) (butlast ts)"
  shows "get_tags buf fmt h off = Ok ts"
  using assms
proof (induction ts arbitrary: off)
  case (Cons t ts)
  let ?n = "tag_len fmt h + (if same_uuid_flag t then 0 else 16)"
  have t: "BlockTag_parse (drop off buf) fmt h = Ok (t, ?n)"
    using BlockTag_roundtrip [of fmt h t "tags_bytes fmt h ts @ rest"] Cons.prems
    by (simp add: tags_bytes_Cons)
  show ?case
  proof (cases "ts = []")
    case True
    then show ?thesis using t Cons.prems by (subst get_tags.simps) (simp add: last_tag_flag_def)
  next
    case False
    have "drop (off + ?n) buf = drop ?n (drop off buf)" by (simp only: drop_drop add.commute)
    also have "\<dots> = tags_bytes fmt h ts @ rest"
      unfolding Cons.prems(1) tags_bytes_Cons by (simp add: length_BlockTag_emit)
    finally have rest: "drop (off + ?n) buf = tags_bytes fmt h ts @ rest" .
    have "?n \<le> length (drop off buf)" by (rule BlockTag_parse_consumed(1) [OF t])
    then have "off + ?n \<le> length buf" using Cons.prems(2) by (simp only: length_drop)
    from Cons.IH [OF rest this False] have "get_tags buf fmt h (off + ?n) = Ok ts"
      using Cons.prems False by simp
    then show ?thesis using t Cons.prems False
      by (subst get_tags.simps) (simp add: last_tag_flag_def)
  qed
qed simp

lemma fixed_tags_last:
  "tags \<noteq> [] \<Longrightarrow> last_tag_flag (last (fixed_tags (idx + length tags - 1) idx tags)) \<and>
     list_all (\<lambda>t. \<not> last_tag_flag t) (butlast (fixed_tags (idx + length tags - 1) idx tags))"
proof (induction tags arbitrary: idx)
  case (Cons tag tags)
  then show ?case using Cons.IH [of "Suc idx"] by (cases tags) auto
qed simp

lemma descriptor_fits:
  assumes "tags \<noteq> []" and "length tags \<le> descriptor_block_tag_capacity n fmt h c"
  shows "28 + tag_len fmt h * length tags + (if c then 4 else 0) \<le> n"
proof -
  obtain d where d: "d = (if c then 4 else 0 :: nat)" by simp
  obtain p where p: "p = tag_len fmt h * length tags" by simp
  have "p \<le> tag_len fmt h * ((n - (12 + 16 + d)) div tag_len fmt h)"
    using assms(2) by (simp add: descriptor_block_tag_capacity_def p d)
  also have "\<dots> \<le> n - (12 + 16 + d)" by simp
  finally have "p \<le> n - (12 + 16 + d)" .
  moreover have "0 < p" using assms(1) by (simp add: p tag_len_def split: tag_format.split)
  ultimately show ?thesis unfolding p [symmetric] d [symmetric] by linarith
qed

definition descriptor_fields :: "u32 \<Rightarrow> bytes \<Rightarrow> (nat \<times> bytes) list" where
  "descriptor_fields sequence data =
     [(0, be_bytes 4 JBD2_MAGIC_NUMBER), (4, be_bytes 4 JBD2_DESCRIPTOR_BLOCK),
      (8, be_bytes 4 sequence), (12, data)]"

lemma assemble_ok:
  assumes "tags \<noteq> []" and "length tags \<le> descriptor_block_tag_capacity n fmt h c"
  obtains tail where "length tail = (if c then 4 else 0)"
    and "assemble_descriptor_block seed sequence n fmt h c tags =
      Ok (put (put_all (replicate n 0)
        (descriptor_fields sequence (tags_bytes fmt h (fixed_tags (length tags - 1) 0 tags))))
        (n - length tail) tail)"
proof -
  let ?ws = "descriptor_fields sequence (tags_bytes fmt h (fixed_tags (length tags - 1) 0 tags))"
  have fits: "28 + tag_len fmt h * length tags + (if c then 4 else 0) \<le> n"
    by (rule descriptor_fits [OF assms])
  have len: "length (put_all (replicate n 0) ?ws) = n"
    using length_put_all [of 0 ?ws "replicate n 0"] fits assms(1)
    by (simp add: descriptor_fields_def length_tags_bytes)
  have eq: "assemble_descriptor_block seed sequence n fmt h c tags =
     (let block = put_all (replicate n 0) ?ws in
      if c then bind (jbd2_block_csum seed (put block (n - 4) (be_bytes 4 (0 :: u32))))
             (\<lambda>s. Ok (put block (n - 4) (be_bytes 4 s)))
      else Ok block)"
    using fits assms(1) len
    by (simp add: assemble_descriptor_block_def put_be_Ok le_length_put length_put put_tags_ok
        length_tags_bytes descriptor_fields_def put_all_Cons Let_def jbd2_block_csum_ok put_put_same)
  show thesis
  proof (cases c)
    case True
    then obtain t where "assemble_descriptor_block seed sequence n fmt h c tags =
        Ok (put (put_all (replicate n 0) ?ws) (n - 4) (be_bytes 4 (t :: u32)))"
      unfolding eq Let_def jbd2_block_csum_ok bind_simps by (simp only: if_True)
    then show thesis using that [of "be_bytes 4 t"] True by simp
  next
    case False
    then have "assemble_descriptor_block seed sequence n fmt h c tags = Ok (put_all (replicate n 0) ?ws)"
      unfolding eq Let_def by (simp only: if_False)
    then show thesis using that [of "[]"] False by simp
  qed
qed

text \<open>A checksummed tag of the narrow formats keeps only 16 bits of the checksum, or none: what the
  block holds of a tag is \<open>stored_tag\<close>.\<close>

definition stored_tag :: "tag_format \<Rightarrow> block_tag \<Rightarrow> block_tag" where
  "stored_tag fmt tag = tag\<lparr> tag_checksum :=
     (case fmt of V3 \<Rightarrow> tag_checksum tag | V2 \<Rightarrow> tag_checksum tag AND 0xFFFF | V1 \<Rightarrow> 0) \<rparr>"

definition blocknr_fits :: "tag_format \<Rightarrow> bool \<Rightarrow> u64 \<Rightarrow> bool" where
  "blocknr_fits fmt has_64bit b \<longleftrightarrow> fmt = V3 \<or> has_64bit \<or> drop_bit 32 b = 0"

lemma stored_tag_simps [simp]:
  "tag_blocknr (stored_tag fmt tag) = tag_blocknr tag"
  "tag_flags (stored_tag fmt tag) = tag_flags tag"
  "same_uuid_flag (stored_tag fmt tag) = same_uuid_flag tag"
  by (simp_all add: stored_tag_def same_uuid_flag_def)

lemma BlockTag_emit_stored: "BlockTag_emit (stored_tag fmt tag) fmt h su = BlockTag_emit tag fmt h su"
  by (cases fmt) (simp_all add: BlockTag_emit_def stored_tag_def)

lemma stored_tag_fits: "blocknr_fits fmt h (tag_blocknr tag) \<Longrightarrow> tag_fits fmt h (stored_tag fmt tag)"
proof -
  have m: "(0xFFFF :: u32) = mask 16" by (simp add: mask_eq_exp_minus_1)
  have "drop_bit 16 (c AND 0xFFFF) = 0" for c :: u32
    unfolding m by (rule bit_word_eqI) (auto simp: bit_simps)
  then show "blocknr_fits fmt h (tag_blocknr tag) \<Longrightarrow> tag_fits fmt h (stored_tag fmt tag)"
    by (cases fmt) (simp_all add: tag_fits_def stored_tag_def blocknr_fits_def)
qed

lemma descriptor_tag_stored:
  "stored_tag fmt (descriptor_tag l idx tag) = descriptor_tag l idx (stored_tag fmt tag)"
  by (cases tag; cases fmt) (simp_all add: stored_tag_def descriptor_tag_def Let_def)

lemma fixed_tags_stored: "map (stored_tag fmt) (fixed_tags l idx tags) = fixed_tags l idx (map (stored_tag fmt) tags)"
  by (induction tags arbitrary: idx) (simp_all add: descriptor_tag_stored)

lemma tags_bytes_stored: "tags_bytes fmt h (map (stored_tag fmt) tags) = tags_bytes fmt h tags"
  by (simp add: tags_bytes_def BlockTag_emit_stored o_def)

lemma descriptor_parses:
  assumes "tags \<noteq> []" and "length tags \<le> descriptor_block_tag_capacity n fmt h c"
    and "\<forall>tag \<in> set tags. blocknr_fits fmt h (tag_blocknr tag)"
  obtains b where "assemble_descriptor_block seed sequence n fmt h c tags = Ok b" and "length b = n"
    and "slice b 0 4 = be_bytes 4 JBD2_MAGIC_NUMBER" and "slice b 4 4 = be_bytes 4 JBD2_DESCRIPTOR_BLOCK"
    and "slice b 8 4 = be_bytes 4 sequence"
    and "parse_descriptor_block b fmt h = Ok (map (stored_tag fmt) (fixed_tags (length tags - 1) 0 tags))"
proof -
  let ?ts = "fixed_tags (length tags - 1) 0 (map (stored_tag fmt) tags)"
  let ?data = "tags_bytes fmt h ?ts"
  have data: "tags_bytes fmt h (fixed_tags (length tags - 1) 0 tags) = ?data"
    by (simp add: tags_bytes_stored flip: fixed_tags_stored)
  let ?ws = "descriptor_fields sequence ?data"
  obtain tail where tail: "length tail = (if c then 4 else 0)"
    and b: "assemble_descriptor_block seed sequence n fmt h c tags =
      Ok (put (put_all (replicate n 0) ?ws) (n - length tail) tail)"
    by (rule assemble_ok [OF assms(1,2), of seed sequence, unfolded data])
  let ?a = "put_all (replicate n 0) ?ws"
  have fits: "28 + tag_len fmt h * length tags + length tail \<le> n"
    using descriptor_fits [OF assms(1,2)] tail by simp
  have lay: "layout 0 ?ws (length (replicate n (0 :: u8)))"
    using fits assms(1) by (simp add: descriptor_fields_def length_tags_bytes)
  have len: "length ?a = n" using length_put_all [OF lay] by simp
  let ?p = "put ?a (n - length tail) tail"
  have lp: "length ?p = n" using len fits by (simp add: length_put)
  have get: "slice ?p off m = slice ?a off m" if "off + m \<le> n - length tail" for off m
    using that len fits by (intro slice_put_below) simp_all
  have fields: "slice ?a 0 4 = be_bytes 4 JBD2_MAGIC_NUMBER" "slice ?a 4 4 = be_bytes 4 JBD2_DESCRIPTOR_BLOCK"
    "slice ?a 8 4 = be_bytes 4 sequence" "slice ?a 12 (length ?data) = ?data"
    using slice_put_all [OF lay, of 0 4] slice_put_all [OF lay, of 4 4] slice_put_all [OF lay, of 8 4]
      slice_put_all [OF lay, of 12 "length ?data"]
    by (simp_all add: descriptor_fields_def)
  have fields': "slice ?p 0 4 = be_bytes 4 JBD2_MAGIC_NUMBER" "slice ?p 4 4 = be_bytes 4 JBD2_DESCRIPTOR_BLOCK"
    "slice ?p 8 4 = be_bytes 4 sequence"
    using get [of 0 4] get [of 4 4] get [of 8 4] fields(1-3) fits by simp_all
  have "slice ?p 12 (length ?data) = ?data"
    using get [of 12 "length ?data"] fields(4) fits assms(1) by (simp add: length_tags_bytes)
  then have "drop 12 ?p = ?data @ drop (length ?data) (drop 12 ?p)"
    unfolding slice_def by (metis append_take_drop_id)
  then have "get_tags ?p fmt h 12 = Ok ?ts"
  proof (rule get_tags_ok)
    show "12 \<le> length ?p" using fits lp by simp
    show "?ts \<noteq> []" using assms(1) by (cases tags) simp_all
    show "list_all (tag_fits fmt h) ?ts"
      unfolding fixed_tags_keeps(4) using assms(3) by (simp add: list_all_iff stored_tag_fits)
    show "last_tag_flag (last ?ts)" "list_all (\<lambda>t. \<not> last_tag_flag t) (butlast ?ts)"
      using fixed_tags_last [of "map (stored_tag fmt) tags" 0] assms(1) by simp_all
  qed
  then have "parse_descriptor_block ?p fmt h = Ok ?ts"
    using lp fields' fits by (simp add: parse_descriptor_block_def be_Ok endian_simps)
  then show thesis using that [OF b lp fields'] by (simp add: fixed_tags_stored)
qed

text \<open>C17: within the capacity the code computes, assembling a descriptor block from any tags whose
  block numbers the layout can hold succeeds, and parsing the block gives those tags back, in order,
  with the part of the checksum that the format stores and with the \<open>SAME_UUID\<close> and
  \<open>LAST_TAG\<close> flags the convention requires: the header, the first tag's UUID, the tags and the
  tail checksum never overlap.\<close>

theorem descriptor_roundtrip:
  assumes "tags \<noteq> []" and "length tags \<le> descriptor_block_tag_capacity n fmt h c"
    and "\<forall>tag \<in> set tags. blocknr_fits fmt h (tag_blocknr tag)"
  shows "bind (assemble_descriptor_block seed sequence n fmt h c tags)
      (\<lambda>b. parse_descriptor_block b fmt h) = Ok (map (stored_tag fmt) (fixed_tags (length tags - 1) 0 tags))"
  by (rule descriptor_parses [OF assms, of seed sequence]) simp

theorem descriptor_roundtrip_witness:
  "bind (assemble_descriptor_block 7 9 64 V3 True True
      [\<lparr> tag_blocknr = 0x100000002, tag_flags = 1, tag_checksum = 5 \<rparr>])
      (\<lambda>b. parse_descriptor_block b V3 True)
    = Ok [\<lparr> tag_blocknr = 0x100000002, tag_flags = 9, tag_checksum = 5 \<rparr>]"
  using descriptor_roundtrip [of "[\<lparr> tag_blocknr = 0x100000002, tag_flags = 1, tag_checksum = 5 \<rparr>]"
      64 V3 True True 7 9]
  by (simp add: descriptor_block_tag_capacity_def blocknr_fits_def descriptor_tag_def stored_tag_def
      JBD2_FLAG_SAME_UUID_def JBD2_FLAG_LAST_TAG_def)

section \<open>Stamped blocks\<close>

text \<open>A commit block keeps its checksum at offset 16, a revoke block in its last four bytes; both
  cover the whole block with the field zeroed. \<open>stamp_ok\<close> is that condition.\<close>

definition stamp_ok :: "bytes \<Rightarrow> u32 \<Rightarrow> nat \<Rightarrow> bool" where
  "stamp_ok block seed off \<longleftrightarrow> jbd2_block_csum seed (put block off [0, 0, 0, 0]) = Ok (be_word (slice block off 4))"

lemma be_bytes_0 [simp]: "be_bytes 4 (0 :: u32) = [0, 0, 0, 0]"
  by (simp add: be_bytes_def le_bytes_def upt_rec)

lemma verify_commit_csum_eq: "verify_commit_csum block seed = Ok (20 \<le> length block \<and> stamp_ok block seed 16)"
  by (auto simp: verify_commit_csum_def stamp_ok_def be_Ok put_be_Ok jbd2_block_csum_ok)

lemma verify_revoke_csum_eq:
  "verify_revoke_csum block seed = Ok (4 \<le> length block \<and> stamp_ok block seed (length block - 4))"
  by (auto simp: verify_revoke_csum_def stamp_ok_def be_Ok put_be_Ok jbd2_block_csum_ok)

lemma stamp_ok_put:
  assumes "off + 4 \<le> length b" and "jbd2_block_csum seed (put b off [0, 0, 0, 0]) = Ok c"
  shows "stamp_ok (put b off (be_bytes 4 c)) seed off"
  using assms by (simp add: stamp_ok_def put_put_same slice_put_same be_word_be_bytes)

lemma finalize_commit_csum_ok:
  assumes "20 \<le> length block"
  obtains c where "finalize_commit_csum block seed = Ok (put (put block 12 [4, 4]) 16 (be_bytes 4 c))"
    and "jbd2_block_csum seed (put (put block 12 [4, 4]) 16 [0, 0, 0, 0]) = Ok c"
proof -
  have "put (put block 12 [4]) 13 [4] = put block 12 [4, 4 :: u8]"
    using assms put_put_adjacent [of 12 "[4]" "[4]" block] by simp
  then show thesis
    using that assms
    by (simp add: finalize_commit_csum_def put_at_Ok put_be_Ok le_length_put jbd2_block_csum_ok
        put_put_same length_put)
qed

lemma finalized_commit_verifies:
  assumes "20 \<le> length block"
  shows "bind (finalize_commit_csum block seed) (\<lambda>b. verify_commit_csum b seed) = Ok True"
proof -
  obtain c where c: "finalize_commit_csum block seed = Ok (put (put block 12 [4, 4]) 16 (be_bytes 4 c))"
    "jbd2_block_csum seed (put (put block 12 [4, 4]) 16 [0, 0, 0, 0]) = Ok c"
    by (rule finalize_commit_csum_ok [OF assms])
  then show ?thesis using assms by (simp add: verify_commit_csum_eq stamp_ok_put length_put)
qed

lemma finalized_revoke_verifies:
  assumes "4 \<le> length block"
  shows "bind (finalize_revoke_csum block seed) (\<lambda>b. verify_revoke_csum b seed) = Ok True"
proof -
  obtain c where "finalize_revoke_csum block seed = Ok (put block (length block - 4) (be_bytes 4 c))"
    "jbd2_block_csum seed (put block (length block - 4) [0, 0, 0, 0]) = Ok c"
    using assms by (simp add: finalize_revoke_csum_def put_be_Ok jbd2_block_csum_ok put_put_same length_put)
  then show ?thesis using assms stamp_ok_put [of "length block - 4" block seed]
    by (simp add: verify_revoke_csum_eq length_put)
qed

text \<open>A commit block and a revoke block that were finalized verify under the same seed, for any
  block long enough to hold the commit checksum field.\<close>

theorem finalized_blocks_verify:
  assumes "20 \<le> length block"
  shows "bind (finalize_commit_csum block seed) (\<lambda>b. verify_commit_csum b seed) = Ok True
    \<and> bind (finalize_revoke_csum block seed) (\<lambda>b. verify_revoke_csum b seed) = Ok True"
  using assms finalized_commit_verifies finalized_revoke_verifies by simp

theorem finalized_blocks_verify_witness:
  "bind (finalize_commit_csum (replicate 20 7) 5) (\<lambda>b. verify_commit_csum b 5) = Ok True
    \<and> bind (finalize_revoke_csum (replicate 20 7) 5) (\<lambda>b. verify_revoke_csum b 5) = Ok True"
  by (rule finalized_blocks_verify) simp

lemma stamp_burst:
  assumes ok: "stamp_ok b seed off" "stamp_ok (put b a d) seed off" and "length b < 2 ^ 32"
    and "a + length d \<le> length b" "length d \<le> 4" "off + 4 \<le> length b"
    and apart: "a + length d \<le> off \<or> off + 4 \<le> a"
  shows "put b a d = b"
proof -
  let ?z = "put b off [0, 0, 0, 0]"
  have field: "slice (put b a d) off 4 = slice b off 4"
    using apart assms(4) by (auto simp: slice_put_below slice_put_above)
  have swap: "put (put b a d) off [0, 0, 0, 0] = put ?z a d"
    using apart assms(4,6) put_commute [of off "[0, 0, 0, 0]" a d b] put_commute [of a d off "[0, 0, 0, 0]" b]
    by auto
  have same: "slice ?z a (length d) = slice b a (length d)"
    using apart assms(6) by (auto simp: slice_put_below slice_put_above)
  have "crc_ref seed (put ?z a d) = crc_ref seed (put ?z a (slice b a (length d)))"
    using ok assms(3,4,6) unfolding stamp_ok_def swap field
    by (simp add: jbd2_block_csum_small length_put flip: same) (simp add: put_slice_id length_put)
  then have "d = slice b a (length d)"
    by (rule crc.burst_put [rotated 3]) (use assms in \<open>simp_all add: length_put\<close>)
  then show ?thesis using assms(4) by (metis put_slice_id)
qed

text \<open>Corruption is caught: if a verified commit block is changed in at most four
  consecutive bytes outside the checksum field, it no longer verifies.\<close>

theorem commit_csum_detects_corruption:
  assumes "verify_commit_csum b seed = Ok True" and "length b < 2 ^ 32"
    and "a + length d \<le> length b" and "length d \<le> 4" and "a + length d \<le> 16 \<or> 20 \<le> a"
    and "put b a d \<noteq> b"
  shows "verify_commit_csum (put b a d) seed = Ok False"
proof -
  have len: "20 \<le> length b" and ok: "stamp_ok b seed 16"
    using assms(1) by (simp_all add: verify_commit_csum_eq)
  then show ?thesis using stamp_burst [OF ok _ assms(2,3,4)] assms
    by (auto simp: verify_commit_csum_eq)
qed

theorem commit_csum_detects_corruption_witness:
  "\<exists>b. verify_commit_csum b 5 = Ok True \<and> verify_commit_csum (put b 0 [1]) 5 = Ok False"
proof -
  obtain c where c: "finalize_commit_csum (replicate 20 0) 5 =
      Ok (put (put (replicate 20 0) 12 [4, 4]) 16 (be_bytes 4 c))"
    "jbd2_block_csum 5 (put (put (replicate 20 0) 12 [4, 4]) 16 [0, 0, 0, 0]) = Ok c"
    by (rule finalize_commit_csum_ok [of "replicate 20 0" 5]) simp_all
  let ?b = "put (put (replicate 20 0) 12 [4, 4]) 16 (be_bytes 4 c)"
  have b: "verify_commit_csum ?b 5 = Ok True" and len: "length ?b = 20"
    using c stamp_ok_put [of 16 "put (replicate 20 0) 12 [4, 4]" 5 c]
    by (simp_all add: verify_commit_csum_eq length_put)
  have "?b ! 0 = 0" and "put ?b 0 [1] ! 0 = 1" by (simp_all add: nth_put length_put)
  then have "put ?b 0 [1] \<noteq> ?b" by auto
  then show ?thesis using commit_csum_detects_corruption [OF b, of 0 "[1]"] b len by auto
qed

lemma patched_superblock_parts:
  assumes "JournalSuperblock_parse b = Ok sb"
  obtains b' where "bind (patch_journal_sb_head b seq start) finalize_journal_sb_csum = Ok b'"
    and "JournalSuperblock_parse b' = Ok (sb\<lparr> jsb_sequence := seq, jsb_start := start \<rparr>)"
    and "length b' = length b"
    and "\<And>off n. (off + n \<le> 24 \<or> 32 \<le> off) \<and> (off + n \<le> 252 \<or> 256 \<le> off) \<Longrightarrow>
      slice b' off n = slice b off n"
    and "be_word (slice b' 252 4) = sb_csum b'"
proof -
  have len: "1024 \<le> length b" using assms
    by (auto simp: JournalSuperblock_parse_def JBD2_SUPERBLOCK_MIN_LEN_def split: if_splits)
  let ?w = "[(24, be_bytes 4 seq), (28, be_bytes 4 start)]"
  let ?p = "put_all b ?w"
  have lp: "length ?p = length b" using len by (intro length_put_all [of 0]) simp
  let ?c = "sb_csum ?p"
  let ?ws = "[(24, be_bytes 4 seq), (28, be_bytes 4 start), (252, be_bytes 4 ?c)]"
  let ?b = "put_all b ?ws"
  have b: "?b = put ?p 252 (be_bytes 4 ?c)" by (simp add: put_all_Cons)
  have lay: "layout 0 ?ws (length b)" using len by simp
  show thesis
  proof (rule that [of ?b])
    show "bind (patch_journal_sb_head b seq start) finalize_journal_sb_csum = Ok ?b"
      using len lp by (simp add: patch_journal_sb_head_ok finalize_journal_sb_csum_ok b)
    show lb: "length ?b = length b" by (rule length_put_all [OF lay])
    show other: "slice ?b off n = slice b off n"
      if "(off + n \<le> 24 \<or> 32 \<le> off) \<and> (off + n \<le> 252 \<or> 256 \<le> off)" for off n
      by (rule slice_put_all_other [OF lay]) (use that in auto)
    have fields: "slice ?b 24 4 = be_bytes 4 seq" "slice ?b 28 4 = be_bytes 4 start"
      "slice ?b 252 4 = be_bytes 4 ?c"
      using slice_put_all [OF lay, of 24 4] slice_put_all [OF lay, of 28 4]
        slice_put_all [OF lay, of 252 4] by simp_all
    show "JournalSuperblock_parse ?b = Ok (sb\<lparr> jsb_sequence := seq, jsb_start := start \<rparr>)"
      using assms len lb fields other
      by (auto simp: JournalSuperblock_parse_ok endian_simps split: if_splits)
    have "sb_csum (put ?p 252 (be_bytes 4 x)) = sb_csum ?p" for x :: u32
      using len lp by (simp add: sb_csum_def put_put_same)
    then have "sb_csum ?b = ?c" unfolding b .
    then show "be_word (slice ?b 252 4) = sb_csum ?b" unfolding fields(3) by (simp add: endian_simps)
  qed
qed

text \<open>Updating the journal superblock in place (new head, new checksum) changes exactly what
  it should: the block parses to the old superblock with the new \<open>s_sequence\<close> and \<open>s_start\<close>,
  every byte outside these two fields and the checksum is kept, and the checksum is the one of the
  new contents.\<close>

theorem patched_superblock:
  assumes "JournalSuperblock_parse b = Ok sb"
  shows "\<exists>b'. bind (patch_journal_sb_head b seq start) finalize_journal_sb_csum = Ok b'
    \<and> JournalSuperblock_parse b' = Ok (sb\<lparr> jsb_sequence := seq, jsb_start := start \<rparr>)
    \<and> length b' = length b \<and> be_word (slice b' 252 4) = sb_csum b'
    \<and> (\<forall>off n. (off + n \<le> 24 \<or> 32 \<le> off) \<and> (off + n \<le> 252 \<or> 256 \<le> off) \<longrightarrow>
         slice b' off n = slice b off n)"
  by (rule patched_superblock_parts [OF assms, of seq start]) blast

definition sample_superblock :: journal_superblock where
  "sample_superblock = \<lparr> jsb_blocktype = 4, jsb_blocksize = 1024, jsb_maxlen = 64, jsb_first = 1,
     jsb_sequence = 7, jsb_start = 1, jsb_feature_compat = 0, jsb_feature_incompat = 0x12,
     jsb_feature_ro_compat = 0, jsb_uuid = replicate 16 0xAB, jsb_checksum_type = 4 \<rparr>"

theorem patched_superblock_witness:
  "\<exists>b b'. JournalSuperblock_parse b = Ok sample_superblock
    \<and> bind (patch_journal_sb_head b 8 0) finalize_journal_sb_csum = Ok b'
    \<and> JournalSuperblock_parse b' = Ok (sample_superblock\<lparr> jsb_sequence := 8, jsb_start := 0 \<rparr>)"
proof -
  have "bind (JournalSuperblock_emit sample_superblock) JournalSuperblock_parse = Ok sample_superblock"
    by (rule JournalSuperblock_roundtrip) (simp add: sample_superblock_def)
  then obtain b where "JournalSuperblock_parse b = Ok sample_superblock" by (auto simp: bind_eq_Ok)
  then show ?thesis using patched_superblock [of b sample_superblock 8 0] by blast
qed

text \<open>C22: none of the parsers can index outside its buffer: on arbitrary bytes each returns a
  value or an error number.\<close>

theorem journal_parsers_safe:
  "safe (JournalSuperblock_parse buf) \<and> safe (BlockTag_parse buf fmt h) \<and> safe (CommitBlock_parse buf)
   \<and> safe (RevokeBlock_parse buf h) \<and> safe (parse_descriptor_block buf fmt h)"
  by (simp add: JournalSuperblock_parse_safe BlockTag_parse_safe CommitBlock_parse_safe
      RevokeBlock_parse_safe parse_descriptor_block_safe)

end
