(* ===== verification/StructLayout.thy ===== *)
theory StructLayout
  imports Errors
begin

text \<open>
  The memory layout of \<open>#[repr(C)]\<close> structs and little-endian access to their bytes. The crate
  reads on-disk structures by casting a byte pointer to a struct pointer and writes them back as
  the bytes of the struct, so a struct value is the same thing as its byte image. A layout lists the
  fields in order with element size (which is also the alignment) and element count;
  \<open>offset_of\<close> and \<open>size_of\<close> follow the C rules, padding included.

  Also the little-endian slice helpers and the saturating arithmetic of the standard library.
\<close>

type_synonym layout = "(string \<times> nat \<times> nat) list"

definition align_up :: "nat \<Rightarrow> nat \<Rightarrow> nat" where
  "align_up a off = (off + a - 1) div a * a"

fun offset_from :: "nat \<Rightarrow> layout \<Rightarrow> string \<Rightarrow> nat" where
  "offset_from off [] field = off"
| "offset_from off ((name, sz, cnt) # fields) field =
     (let off = align_up sz off in
      if name = field then off else offset_from (off + sz * cnt) fields field)"

fun end_from :: "nat \<Rightarrow> layout \<Rightarrow> nat" where
  "end_from off [] = off"
| "end_from off ((name, sz, cnt) # fields) = end_from (align_up sz off + sz * cnt) fields"

definition offset_of :: "layout \<Rightarrow> string \<Rightarrow> nat" where
  "offset_of fields field = offset_from 0 fields field"

definition size_of :: "layout \<Rightarrow> nat" where
  "size_of fields = align_up (fold max (map (\<lambda>(name, sz, cnt). sz) fields) 1) (end_from 0 fields)"

section \<open>Little-endian fields\<close>

definition le_get :: "nat \<Rightarrow> nat \<Rightarrow> bytes \<Rightarrow> 'a::len word" where
  "le_get off n buf = le_word (slice buf off n)"

definition le_put :: "nat \<Rightarrow> nat \<Rightarrow> 'a::len word \<Rightarrow> bytes \<Rightarrow> bytes" where
  "le_put off n v buf = put buf off (le_bytes n v)"

lemma length_le_put [simp]: "off + n \<le> length buf \<Longrightarrow> length (le_put off n v buf) = length buf"
  by (simp add: le_put_def length_put)

lemma le_get_put_same [simp]:
  "off + n \<le> length buf \<Longrightarrow> LENGTH('a) \<le> 8 * n \<Longrightarrow> le_get off n (le_put off n (v :: 'a::len word) buf) = v"
  by (simp add: le_get_def le_put_def slice_put_same le_word_le_bytes)

lemma le_get_put_other [simp]:
  "a + m \<le> off \<or> off + n \<le> a \<Longrightarrow> off + n \<le> length buf \<Longrightarrow> le_get a m (le_put off n v buf) = le_get a m buf"
  by (auto simp: le_get_def le_put_def slice_put_below slice_put_above)

lemma slice_le_put_other:
  "a + m \<le> off \<or> off + n \<le> a \<Longrightarrow> off + n \<le> length buf \<Longrightarrow> slice (le_put off n v buf) a m = slice buf a m"
  by (auto simp: le_put_def slice_put_below slice_put_above)

lemma le_put_get_same:
  "off + n \<le> length buf \<Longrightarrow> LENGTH('a) = 8 * n \<Longrightarrow> le_put off n (le_get off n buf :: 'a::len word) buf = buf"
  by (simp add: le_put_def le_get_def le_bytes_le_word put_slice_id)

text \<open>\<open>u32::from_le_bytes\<close> and \<open>to_le_bytes\<close> through slices, which panic out of range.\<close>

definition get_le :: "nat \<Rightarrow> bytes \<Rightarrow> nat \<Rightarrow> 'a::len word res" where
  "get_le n buf off = map_res le_word (get_at buf off n)"

definition put_le :: "nat \<Rightarrow> bytes \<Rightarrow> nat \<Rightarrow> 'a::len word \<Rightarrow> bytes res" where
  "put_le n buf off v = put_at buf off (le_bytes n v)"

lemma get_le_Ok [buf_simps]: "off + n \<le> length buf \<Longrightarrow> get_le n buf off = Ok (le_get off n buf)"
  by (simp add: get_le_def get_at_Ok le_get_def)

lemma put_le_Ok [buf_simps]: "off + n \<le> length buf \<Longrightarrow> put_le n buf off v = Ok (le_put off n v buf)"
  by (simp add: put_le_def put_at_Ok le_put_def)

section \<open>Words\<close>

definition saturating_sub :: "'a::len word \<Rightarrow> 'a word \<Rightarrow> 'a word" where
  "saturating_sub a b = (if b \<le> a then a - b else 0)"

definition saturating_add :: "'a::len word \<Rightarrow> 'a word \<Rightarrow> 'a word" where
  "saturating_add a b = (if unat a + unat b < 2 ^ LENGTH('a) then a + b else - 1)"

lemma unat_saturating_sub: "unat (saturating_sub a b) = unat a - unat b"
  by (auto simp: saturating_sub_def unat_sub word_le_nat_alt)

lemma unat_saturating_add: "unat (saturating_add (a :: 'a::len word) b) = min (unat a + unat b) (2 ^ LENGTH('a) - 1)"
  by (auto simp: saturating_add_def unat_add_less unsigned_minus_1_eq_mask mask_eq_exp_minus_1)

text \<open>\<open>x as u64 \<bar> (hi as u64) << 32\<close> and the halves of a 64-bit value.\<close>

lemma halves_join:
  fixes v :: u64
  shows "ucast (ucast (v AND 0xFFFFFFFF) :: u32) OR push_bit 32 (ucast (ucast (drop_bit 32 v) :: u32)) = v"
proof -
  have m: "(0xFFFFFFFF :: u64) = mask 32" by (simp add: mask_eq_exp_minus_1)
  show ?thesis unfolding m by (rule bit_word_eqI) (auto simp: bit_simps bit_mask_iff)
qed

lemma join_halves:
  fixes lo hi :: u32
  shows "unat (push_bit 32 (ucast hi) OR ucast lo :: u64) = unat hi * 2 ^ 32 + unat lo"
proof -
  have "(push_bit 32 (ucast hi) :: u64) AND ucast lo = 0"
    by (rule bit_word_eqI) (auto simp: bit_simps dest: bit_imp_le_length)
  then have "(push_bit 32 (ucast hi) OR ucast lo :: u64) = push_bit 32 (ucast hi) + ucast lo"
    by (simp add: disjunctive_add_eq_or)
  moreover have "unat (push_bit 32 (ucast hi) :: u64) = unat hi * 2 ^ 32"
    using unat_bound [of hi] unfolding unsigned_push_bit_eq unsigned_ucast_eq
    by (simp add: take_bit_eq_mod push_bit_eq_mult)
  moreover have "unat (ucast lo :: u64) = unat lo"
    using unat_bound [of lo] by (simp add: unsigned_ucast_eq take_bit_eq_mod)
  ultimately show ?thesis
    using unat_bound [of hi] unat_bound [of lo] by (simp add: unat_add_less)
qed

end
