(* ===== verification/ExtentNode.thy ===== *)
theory ExtentNode
  imports StructLayout
begin

text \<open>
  Nodes of the extent tree (\<open>src/src/ext4_defs/extents.rs\<close>): the 12-byte header, index and extent
  records, the node (the root is the 60-byte \<open>i_block\<close> array of the inode, held as its bytes; the others
  are whole blocks) and the two binary searches. A record is read by pointer cast: the slice before
  it panics when it starts outside the buffer, and a record that starts inside but ends outside is an
  out-of-bounds read, \<open>Undef\<close>.

  The lemmas show that on a node whose entries lie in the buffer the searches are safe and terminate,
  and return the last entry whose key is not above the block searched.
\<close>

section \<open>Records\<close>

record extent_header =
  eh_magic :: u16
  eh_entries_count :: u16
  eh_max_entries_count :: u16
  eh_depth :: u16
  eh_generation :: u32

record extent_index =
  ei_first_block :: u32
  ei_leaf_lo :: u32
  ei_leaf_hi :: u16
  ei_padding :: u16

record extent =
  ee_first_block :: u32
  ee_block_count :: u16
  ee_start_hi :: u16
  ee_start_lo :: u32

definition EXT_INIT_MAX_LEN :: u16 where "EXT_INIT_MAX_LEN = 32768"
definition EXT4_EXTENT_MAGIC :: u16 where "EXT4_EXTENT_MAGIC = 0xF30A"

definition header_of_bytes :: "bytes \<Rightarrow> extent_header" where
  "header_of_bytes b =
     \<lparr> eh_magic = le_get 0 2 b, eh_entries_count = le_get 2 2 b, eh_max_entries_count = le_get 4 2 b,
       eh_depth = le_get 6 2 b, eh_generation = le_get 8 4 b \<rparr>"

definition header_bytes :: "extent_header \<Rightarrow> bytes" where
  "header_bytes h = le_bytes 2 (eh_magic h) @ le_bytes 2 (eh_entries_count h)
     @ le_bytes 2 (eh_max_entries_count h) @ le_bytes 2 (eh_depth h) @ le_bytes 4 (eh_generation h)"

definition index_of_bytes :: "bytes \<Rightarrow> extent_index" where
  "index_of_bytes b =
     \<lparr> ei_first_block = le_get 0 4 b, ei_leaf_lo = le_get 4 4 b, ei_leaf_hi = le_get 8 2 b,
       ei_padding = le_get 10 2 b \<rparr>"

definition index_bytes :: "extent_index \<Rightarrow> bytes" where
  "index_bytes i = le_bytes 4 (ei_first_block i) @ le_bytes 4 (ei_leaf_lo i)
     @ le_bytes 2 (ei_leaf_hi i) @ le_bytes 2 (ei_padding i)"

definition extent_of_bytes :: "bytes \<Rightarrow> extent" where
  "extent_of_bytes b =
     \<lparr> ee_first_block = le_get 0 4 b, ee_block_count = le_get 4 2 b, ee_start_hi = le_get 6 2 b,
       ee_start_lo = le_get 8 4 b \<rparr>"

definition extent_bytes :: "extent \<Rightarrow> bytes" where
  "extent_bytes e = le_bytes 4 (ee_first_block e) @ le_bytes 2 (ee_block_count e)
     @ le_bytes 2 (ee_start_hi e) @ le_bytes 4 (ee_start_lo e)"

lemma record_bytes_length [simp]:
  "length (header_bytes h) = 12" "length (index_bytes i) = 12" "length (extent_bytes e) = 12"
  by (simp_all add: header_bytes_def index_bytes_def extent_bytes_def)

lemma record_bytes_roundtrip [simp]:
  "header_of_bytes (header_bytes h) = h" "index_of_bytes (index_bytes i) = i"
  "extent_of_bytes (extent_bytes e) = e"
  by (simp_all add: header_bytes_def index_bytes_def extent_bytes_def header_of_bytes_def
      index_of_bytes_def extent_of_bytes_def le_get_def buf_simps endian_simps)

section \<open>Fields\<close>

definition ei_get_pblock :: "extent_index \<Rightarrow> u64" where
  "ei_get_pblock i = push_bit 32 (ucast (ei_leaf_hi i)) OR ucast (ei_leaf_lo i)"

definition ei_store_pblock :: "u64 \<Rightarrow> extent_index \<Rightarrow> extent_index" where
  "ei_store_pblock pblock i =
     i\<lparr> ei_leaf_lo := ucast (pblock AND 0xffffffff), ei_leaf_hi := ucast (drop_bit 32 pblock) \<rparr>"

definition get_pblock :: "extent \<Rightarrow> u64" where
  "get_pblock e = ucast (ee_start_lo e) OR push_bit 32 (ucast (ee_start_hi e))"

definition store_pblock :: "u64 \<Rightarrow> extent \<Rightarrow> extent" where
  "store_pblock pblock e =
     e\<lparr> ee_start_lo := ucast (pblock AND 0xffffffff), ee_start_hi := ucast (drop_bit 32 pblock) \<rparr>"

definition is_unwritten :: "extent \<Rightarrow> bool" where
  "is_unwritten e \<longleftrightarrow> EXT_INIT_MAX_LEN < ee_block_count e"

definition get_actual_len :: "extent \<Rightarrow> u16" where
  "get_actual_len e =
     (if is_unwritten e then ee_block_count e - EXT_INIT_MAX_LEN else ee_block_count e)"

definition mark_unwritten :: "extent \<Rightarrow> extent" where
  "mark_unwritten e = e\<lparr> ee_block_count := ee_block_count e OR EXT_INIT_MAX_LEN \<rparr>"

definition get_last_block :: "extent \<Rightarrow> u32" where
  "get_last_block e = ee_first_block e + ucast (ee_block_count e) - 1"

definition set_last_block :: "u32 \<Rightarrow> extent \<Rightarrow> extent" where
  "set_last_block last_block e =
     e\<lparr> ee_block_count := ucast (last_block - ee_first_block e + 1) \<rparr>"

section \<open>Nodes\<close>

datatype node_data = Root bytes | Internal bytes

fun node_bytes :: "node_data \<Rightarrow> bytes" where
  "node_bytes (Root b) = b" | "node_bytes (Internal b) = b"

record extent_node =
  en_header :: extent_header
  en_data :: node_data
  en_is_root :: bool

definition is_power_of_two :: "nat \<Rightarrow> bool" where
  "is_power_of_two n \<longleftrightarrow> n \<noteq> 0 \<and> n AND (n - 1) = 0"

definition load_from_data :: "bytes \<Rightarrow> bool \<Rightarrow> extent_node res" where
  "load_from_data data is_root =
     (if is_root
      then if length data \<noteq> 15 * 4 then Err EINVAL
        else Ok \<lparr> en_header = header_of_bytes (slice data 0 12), en_data = Root data, en_is_root = True \<rparr>
      else if \<not> (is_power_of_two (length data) \<and> 1024 \<le> length data \<and> length data \<le> 65536)
        then Err EINVAL
        else Ok \<lparr> en_header = header_of_bytes (slice data 0 12), en_data = Internal data,
                  en_is_root = False \<rparr>)"

text \<open>A 12-byte record at byte offset \<open>off\<close>. In the root the offset is four times the index of the
  \<open>u32\<close> array.\<close>

definition load_record :: "node_data \<Rightarrow> nat \<Rightarrow> bytes res" where
  "load_record data off =
     (if length (node_bytes data) < off then Panic
      else if length (node_bytes data) < off + 12 then Undef
      else Ok (slice (node_bytes data) off 12))"

definition load_extent :: "node_data \<Rightarrow> nat \<Rightarrow> extent res" where
  "load_extent data pos = map_res extent_of_bytes (load_record data (12 + pos * 12))"

definition load_index :: "node_data \<Rightarrow> nat \<Rightarrow> extent_index res" where
  "load_index data pos = map_res index_of_bytes (load_record data (12 + pos * 12))"

text \<open>The loop of \<open>binsearch_extent\<close>, the same for both kinds of node; it returns \<open>l\<close>. The searches
  start at \<open>l = 1\<close>; \<open>m - 1\<close> at \<open>m = 0\<close> would wrap and the next slice would panic.\<close>

function extent_loop :: "node_data \<Rightarrow> u32 \<Rightarrow> nat \<Rightarrow> nat \<Rightarrow> nat res" where
  "extent_loop data lblock l r =
     (if l \<le> r
      then let m = l + (r - l) div 2 in
        bind (load_extent data m) (\<lambda>ext.
          if lblock < ee_first_block ext
          then if m = 0 then Panic else extent_loop data lblock l (m - 1)
          else extent_loop data lblock (m + 1) r)
      else Ok l)"
  by pat_completeness auto
termination
  by (relation "measure (\<lambda>(data, lblock, l, r). Suc r - l)") (auto simp: Let_def)

function index_loop :: "node_data \<Rightarrow> u32 \<Rightarrow> nat \<Rightarrow> nat \<Rightarrow> nat res" where
  "index_loop data lblock l r =
     (if l \<le> r
      then let m = l + (r - l) div 2 in
        bind (load_index data m) (\<lambda>idx.
          if lblock < ei_first_block idx
          then if m = 0 then Ok l else index_loop data lblock l (m - 1)
          else index_loop data lblock (m + 1) r)
      else Ok l)"
  by pat_completeness auto
termination
  by (relation "measure (\<lambda>(data, lblock, l, r). Suc r - l)") (auto simp: Let_def)

declare extent_loop.simps [simp del] index_loop.simps [simp del]

definition binsearch_extent :: "extent_node \<Rightarrow> u32 \<Rightarrow> (extent \<times> nat) option res" where
  "binsearch_extent node lblock =
     (if eh_entries_count (en_header node) = 0 then Ok None
      else bind (extent_loop (en_data node) lblock 1 (unat (eh_entries_count (en_header node)) - 1)) (\<lambda>l.
        bind (load_extent (en_data node) (l - 1)) (\<lambda>ext. Ok (Some (ext, l - 1)))))"

definition binsearch_idx :: "extent_node \<Rightarrow> u32 \<Rightarrow> nat option res" where
  "binsearch_idx node lblock =
     (if eh_entries_count (en_header node) = 0 then Ok None
      else let r = unat (eh_entries_count (en_header node)) - 1 in
        case en_data node of
          Root _ \<Rightarrow> bind (index_loop (en_data node) lblock 1 r) (\<lambda>l.
            Ok (if l = 0 then None else Some (l - 1)))
        | Internal _ \<Rightarrow> map_res (\<lambda>l. Some (l - 1)) (index_loop (en_data node) lblock 0 r))"

definition get_index :: "extent_node \<Rightarrow> nat \<Rightarrow> extent_index res" where
  "get_index node pos = load_index (en_data node) pos"

definition get_extent :: "extent_node \<Rightarrow> nat \<Rightarrow> extent res" where
  "get_extent node pos = load_extent (en_data node) pos"

section \<open>The searches\<close>

text \<open>\<open>fits n data\<close>: the first \<open>n\<close> records lie in the buffer; then they are the lists below.\<close>

definition fits :: "nat \<Rightarrow> node_data \<Rightarrow> bool" where
  "fits n data \<longleftrightarrow> 12 + 12 * n \<le> length (node_bytes data)"

definition extent_at :: "node_data \<Rightarrow> nat \<Rightarrow> extent" where
  "extent_at data pos = extent_of_bytes (slice (node_bytes data) (12 + pos * 12) 12)"

definition index_at :: "node_data \<Rightarrow> nat \<Rightarrow> extent_index" where
  "index_at data pos = index_of_bytes (slice (node_bytes data) (12 + pos * 12) 12)"

lemma load_fits:
  "fits n data \<Longrightarrow> pos < n \<Longrightarrow> load_extent data pos = Ok (extent_at data pos)"
  "fits n data \<Longrightarrow> pos < n \<Longrightarrow> load_index data pos = Ok (index_at data pos)"
  by (simp_all add: fits_def load_extent_def load_index_def load_record_def extent_at_def index_at_def)

text \<open>The position both searches look for, by its specification.\<close>

definition last_le :: "(nat \<Rightarrow> u32) \<Rightarrow> nat \<Rightarrow> u32 \<Rightarrow> nat \<Rightarrow> bool" where
  "last_le key n lblock p \<longleftrightarrow> p < n \<and> (p = 0 \<or> key p \<le> lblock) \<and> (\<forall>j. p < j \<longrightarrow> j < n \<longrightarrow> lblock < key j)"

definition ascending :: "(nat \<Rightarrow> u32) \<Rightarrow> nat \<Rightarrow> bool" where
  "ascending key n \<longleftrightarrow> (\<forall>i j. i < j \<longrightarrow> j < n \<longrightarrow> key i < key j)"

lemma midpoint: "l \<le> r \<Longrightarrow> l \<le> l + (r - l) div 2 \<and> l + (r - l) div 2 \<le> (r :: nat)"
  by (auto intro: order_trans [OF div_le_dividend])

lemma extent_loop_spec:
  assumes "fits n data" and "ascending (\<lambda>i. ee_first_block (extent_at data i)) n" and "r < n" "1 \<le> l" "l \<le> Suc r"
    and "l = 1 \<or> ee_first_block (extent_at data (l - 1)) \<le> lblock"
    and "\<forall>j. r < j \<longrightarrow> j < n \<longrightarrow> lblock < ee_first_block (extent_at data j)"
  shows "\<exists>k. extent_loop data lblock l r = Ok k \<and> 1 \<le> k \<and>
    last_le (\<lambda>i. ee_first_block (extent_at data i)) n lblock (k - 1)"
  using assms
proof (induction data lblock l r rule: extent_loop.induct)
  case (1 data lblock l r)
  show ?case
  proof (cases "l \<le> r")
    case False
    then have "l = Suc r" using "1.prems" by simp
    then have "extent_loop data lblock l r = Ok l" by (subst extent_loop.simps) simp
    then show ?thesis using "1.prems" \<open>l = Suc r\<close> by (auto simp: last_le_def)
  next
    case True
    let ?m = "l + (r - l) div 2" and ?key = "\<lambda>i. ee_first_block (extent_at data i)"
    have m: "l \<le> ?m" "?m \<le> r" using midpoint [OF True] by simp_all
    have load: "load_extent data ?m = Ok (extent_at data ?m)"
      by (rule load_fits(1) [OF "1.prems"(1)]) (use m "1.prems"(3) in simp)
    show ?thesis
    proof (cases "lblock < ?key ?m")
      case less: True
      have step: "extent_loop data lblock l r = extent_loop data lblock l (?m - 1)"
        using True load less m "1.prems"(4) by (subst extent_loop.simps) (simp add: Let_def)
      have above: "\<forall>j. ?m - 1 < j \<longrightarrow> j < n \<longrightarrow> lblock < ?key j"
      proof (intro allI impI)
        fix j
        assume "?m - 1 < j" "j < n"
        then have "?m = j \<or> ?m < j" by linarith
        then show "lblock < ?key j"
          using less "1.prems"(2) \<open>j < n\<close> by (auto simp: ascending_def intro: less_trans)
      qed
      show ?thesis unfolding step
        by (rule "1.IH"(1) [OF True refl load less]) (use m "1.prems" above in auto)
    next
      case ge: False
      have step: "extent_loop data lblock l r = extent_loop data lblock (?m + 1) r"
        using True load ge by (subst extent_loop.simps) (simp add: Let_def)
      show ?thesis unfolding step
        by (rule "1.IH"(2) [OF True refl load ge]) (use m ge "1.prems" in auto)
    qed
  qed
qed

lemma index_loop_spec:
  assumes "fits n data" and "ascending (\<lambda>i. ei_first_block (index_at data i)) n" and "r < n" "l \<le> Suc r"
    and "l \<le> 1 \<or> ei_first_block (index_at data (l - 1)) \<le> lblock"
    and "\<forall>j. r < j \<longrightarrow> j < n \<longrightarrow> lblock < ei_first_block (index_at data j)"
  shows "\<exists>k. index_loop data lblock l r = Ok k \<and> l \<le> k \<and>
    last_le (\<lambda>i. ei_first_block (index_at data i)) n lblock (k - 1)"
  using assms
proof (induction data lblock l r rule: index_loop.induct)
  case (1 data lblock l r)
  show ?case
  proof (cases "l \<le> r")
    case False
    then have "l = Suc r" using "1.prems" by simp
    then have "index_loop data lblock l r = Ok l" by (subst index_loop.simps) simp
    then show ?thesis using "1.prems" \<open>l = Suc r\<close> by (auto simp: last_le_def)
  next
    case True
    let ?m = "l + (r - l) div 2" and ?key = "\<lambda>i. ei_first_block (index_at data i)"
    have m: "l \<le> ?m" "?m \<le> r" using midpoint [OF True] by simp_all
    have load: "load_index data ?m = Ok (index_at data ?m)"
      by (rule load_fits(2) [OF "1.prems"(1)]) (use m "1.prems"(3) in simp)
    show ?thesis
    proof (cases "lblock < ?key ?m")
      case less: True
      have above: "\<forall>j. ?m - 1 < j \<longrightarrow> j < n \<longrightarrow> lblock < ?key j"
      proof (intro allI impI)
        fix j
        assume "?m - 1 < j" "j < n"
        then have "?m = j \<or> ?m < j" by linarith
        then show "lblock < ?key j"
          using less "1.prems"(2) \<open>j < n\<close> by (auto simp: ascending_def intro: less_trans)
      qed
      show ?thesis
      proof (cases "?m = 0")
        case zero: True
        then have l: "l = 0" using m by simp
        have "index_loop data lblock l r = Ok l"
          using True load less zero unfolding index_loop.simps [of data lblock l r] Let_def zero by simp
        moreover have "last_le ?key n lblock (l - 1)"
          using above zero l m "1.prems"(3) by (auto simp: last_le_def)
        ultimately show ?thesis by simp
      next
        case nz: False
        have step: "index_loop data lblock l r = index_loop data lblock l (?m - 1)"
          using True load less
          unfolding index_loop.simps [of data lblock l r] Let_def if_not_P [OF nz] by simp
        show ?thesis unfolding step
          by (rule "1.IH"(1) [OF True refl load less nz]) (use m nz "1.prems" above in auto)
      qed
    next
      case ge: False
      have step: "index_loop data lblock l r = index_loop data lblock (?m + 1) r"
        using True load ge by (subst index_loop.simps) (simp add: Let_def)
      have "\<exists>k. index_loop data lblock (?m + 1) r = Ok k \<and> ?m + 1 \<le> k \<and> last_le ?key n lblock (k - 1)"
        by (rule "1.IH"(2) [OF True refl load ge]) (use m ge "1.prems" in auto)
      then show ?thesis unfolding step using m by auto
    qed
  qed
qed

end
