(* ===== verification/BlockDev.thy ===== *)
theory BlockDev
  imports Errors
begin

text \<open>
  Block devices (\<open>src/src/ext4_defs/block.rs\<close> and \<open>Disk\<close> of \<open>src/src/main.rs\<close>). The
  backing device is its contents, a byte for every offset (reads past the end of the image file
  are zero-filled, writes past it extend it), together with the history of the writes and flushes it
  received, so that statements about crashes and about ordering can be made of it.

  The locale \<open>block_device\<close> is the contract of the trait \<open>BlockDevice\<close>: through some view of the
  state as bytes, a read returns the bytes of its range and a write replaces exactly those of its
  range. It is interpreted on the backing device here and on the write-capturing device of the
  journal in \<open>JournalDevice\<close>.
\<close>

section \<open>The backing device\<close>

datatype dev_event = DevWrite nat bytes | DevFlush

record disk =
  dk_image :: "nat \<Rightarrow> u8"
  dk_events :: "dev_event list"

definition image_read :: "(nat \<Rightarrow> u8) \<Rightarrow> nat \<Rightarrow> nat \<Rightarrow> bytes" where
  "image_read img off n = map img [off..<off + n]"

definition image_write :: "(nat \<Rightarrow> u8) \<Rightarrow> nat \<Rightarrow> bytes \<Rightarrow> (nat \<Rightarrow> u8)" where
  "image_write img off d = (\<lambda>i. if off \<le> i \<and> i < off + length d then d ! (i - off) else img i)"

definition disk_read :: "nat \<Rightarrow> nat \<Rightarrow> (disk, bytes) io" where
  "disk_read off n s = (Ok (image_read (dk_image s) off n), s)"

definition disk_write :: "nat \<Rightarrow> bytes \<Rightarrow> (disk, unit) io" where
  "disk_write off d s =
     (Ok (), s\<lparr> dk_image := image_write (dk_image s) off d,
                dk_events := dk_events s @ [DevWrite off d] \<rparr>)"

definition disk_flush :: "(disk, unit) io" where
  "disk_flush s = (Ok (), s\<lparr> dk_events := dk_events s @ [DevFlush] \<rparr>)"

lemma length_image_read [simp]: "length (image_read img off n) = n"
  by (simp add: image_read_def)

lemma nth_image_read: "i < n \<Longrightarrow> image_read img off n ! i = img (off + i)"
  by (simp add: image_read_def)

lemma image_read_cong:
  "(\<And>i. off \<le> i \<Longrightarrow> i < off + n \<Longrightarrow> img i = img' i) \<Longrightarrow> image_read img off n = image_read img' off n"
  by (simp add: image_read_def)

lemma image_read_append:
  "image_read img off (m + n) = image_read img off m @ image_read img (off + m) n"
  using upt_add_eq_append [of off "off + m" n] by (simp add: image_read_def add.assoc)

lemma slice_image_read:
  "a + m \<le> n \<Longrightarrow> slice (image_read img off n) a m = image_read img (off + a) m"
  by (rule nth_equalityI) (auto simp: nth_slice nth_image_read add.assoc)

lemma image_read_write_same: "image_read (image_write img off d) off (length d) = d"
  by (rule nth_equalityI) (simp_all add: nth_image_read image_write_def)

lemma image_read_write_apart:
  "a + n \<le> off \<or> off + length d \<le> a \<Longrightarrow> image_read (image_write img off d) a n = image_read img a n"
  by (rule image_read_cong) (auto simp: image_write_def)

lemma image_write_inside:
  assumes "off \<le> a" and "a + length d \<le> off + n"
  shows "image_read (image_write img a d) off n = put (image_read img off n) (a - off) d"
proof (rule nth_equalityI)
  show "length (image_read (image_write img a d) off n) = length (put (image_read img off n) (a - off) d)"
    using assms by (simp add: length_put)
  fix i
  assume "i < length (image_read (image_write img a d) off n)"
  moreover have "a \<le> off + i \<and> off + i < a + length d \<longleftrightarrow> a - off \<le> i \<and> i < a - off + length d"
    using assms(1) by auto
  ultimately show "image_read (image_write img a d) off n ! i = put (image_read img off n) (a - off) d ! i"
    using assms by (simp add: nth_image_read nth_put image_write_def add.commute)
qed

lemma image_write_put:
  assumes "a + length d \<le> n"
  shows "image_write img off (put (image_read img off n) a d) = image_write img (off + a) d"
proof
  fix i
  show "image_write img off (put (image_read img off n) a d) i = image_write img (off + a) d i"
  proof (cases "off \<le> i \<and> i < off + n")
    case True
    then obtain j where j: "i = off + j" "j < n" by (metis le_Suc_ex nat_add_left_cancel_less)
    then show ?thesis using assms by (simp add: image_write_def length_put nth_put nth_image_read)
  next
    case False
    then show ?thesis using assms by (auto simp: image_write_def length_put)
  qed
qed

lemma image_write_read_id: "image_write img off (image_read img off n) = img"
  by (auto simp: image_write_def nth_image_read fun_eq_iff)

lemma image_write_overwrite:
  "length d = length e \<Longrightarrow> image_write (image_write img off d) off e = image_write img off e"
  by (auto simp: image_write_def)

lemma image_write_cover:
  "off \<le> a \<Longrightarrow> a + length d \<le> off + length e \<Longrightarrow>
   image_write (image_write img a d) off e = image_write img off e"
  by (auto simp: image_write_def fun_eq_iff)

lemma image_write_append:
  "image_write (image_write img a d) (a + length d) e = image_write img a (d @ e)"
  by (auto simp: image_write_def fun_eq_iff nth_append diff_diff_add)

lemma image_write_Nil [simp]: "image_write img a [] = img"
  by (auto simp: image_write_def fun_eq_iff)

lemma image_write_commute:
  "a + length d \<le> b \<or> b + length e \<le> a \<Longrightarrow>
   image_write (image_write img a d) b e = image_write (image_write img b e) a d"
  by (auto simp: image_write_def fun_eq_iff)

section \<open>The contract\<close>

locale block_device =
  fixes rd :: "nat \<Rightarrow> nat \<Rightarrow> ('s, bytes) io"
    and wr :: "nat \<Rightarrow> bytes \<Rightarrow> ('s, unit) io"
    and view :: "'s \<Rightarrow> nat \<Rightarrow> u8"
    and inv :: "'s \<Rightarrow> bool"
  assumes rd_view: "inv s \<Longrightarrow> rd off n s = (Ok (image_read (view s) off n), s)"
    and wr_view: "inv s \<Longrightarrow>
      \<exists>t. wr off d s = (Ok (), t) \<and> inv t \<and> view t = image_write (view s) off d"
begin

lemma read_back:
  assumes "inv s" and "wr off d s = (Ok (), t)"
  shows "rd off (length d) t = (Ok d, t)"
proof -
  have t: "inv t" "view t = image_write (view s) off d" using wr_view [OF assms(1), of off d] assms(2) by auto
  show ?thesis using rd_view [OF t(1)] by (simp add: t(2) image_read_write_same)
qed

lemma read_other:
  assumes "inv s" and "wr off d s = (Ok (), t)" and "a + n \<le> off \<or> off + length d \<le> a"
  shows "fst (rd a n t) = fst (rd a n s)"
proof -
  have t: "inv t" "view t = image_write (view s) off d" using wr_view [OF assms(1), of off d] assms(2) by auto
  show ?thesis using rd_view [OF t(1), of a n] rd_view [OF assms(1), of a n] assms(3)
    by (simp add: t(2) image_read_write_apart)
qed

text \<open>A read-modify-write of a larger range has the effect of the small write.\<close>

lemma rmw:
  assumes "inv s" and "off \<le> a" and "a + length d \<le> off + n"
  shows "\<exists>t u. wr off (put (image_read (view s) off n) (a - off) d) s = (Ok (), t)
    \<and> wr a d s = (Ok (), u) \<and> view t = view u"
proof -
  have "image_write (view s) off (put (image_read (view s) off n) (a - off) d) = image_write (view s) a d"
    using assms(2,3)
    by (auto simp: fun_eq_iff image_write_def length_put nth_put nth_image_read)
  then show ?thesis using wr_view [OF assms(1)] by metis
qed

end

interpretation raw: block_device disk_read disk_write dk_image "\<lambda>_. True"
  by unfold_locales (simp_all add: disk_read_def disk_write_def)

section \<open>Blocks in memory\<close>

text \<open>\<open>Block::load\<close> and \<open>sync_blk_to_disk\<close>; \<open>write_offset\<close> of a block panics when the range
  leaves the buffer, and also when \<open>data\<close> is shorter than \<open>len\<close> (the two slices of
  \<open>copy_from_slice\<close> then have different lengths).\<close>

record block =
  blk_disk_offset :: nat
  blk_data :: bytes

definition Block_load :: "nat \<Rightarrow> nat \<Rightarrow> (disk, block) io" where
  "Block_load off n = bindS (disk_read off n) (\<lambda>d. ret \<lparr> blk_disk_offset = off, blk_data = d \<rparr>)"

definition Block_write_offset :: "block \<Rightarrow> nat \<Rightarrow> bytes \<Rightarrow> nat \<Rightarrow> block res" where
  "Block_write_offset b off d n =
     (if off + n \<le> length (blk_data b)
      then if length (take (min n (length d)) d) = n
           then Ok (b\<lparr> blk_data := put (blk_data b) off (take (min n (length d)) d) \<rparr>)
           else Panic
      else Panic)"

definition sync_blk_to_disk :: "block \<Rightarrow> (disk, unit) io" where
  "sync_blk_to_disk b = disk_write (blk_disk_offset b) (blk_data b)"

lemma Block_write_offset_ok:
  "off + n \<le> length (blk_data b) \<Longrightarrow> n \<le> length d \<Longrightarrow>
   Block_write_offset b off d n = Ok (b\<lparr> blk_data := put (blk_data b) off (take n d) \<rparr>)"
  by (simp add: Block_write_offset_def min_absorb1)

end
