(* ===== verification/JournalDevice.thy ===== *)
theory JournalDevice
  imports BlockDev
begin

text \<open>
  The running transaction and the write-capturing device of the journal
  (\<open>src/src/ext4_impls/journal/transaction.rs\<close> and \<open>device.rs\<close>). The state is the inner device
  and the contents of the mutex: the transaction if one is open, the nesting depth and the pending
  crash point. While a transaction is open a write is staged block by block (read-modify-write) and
  a read is overlaid with the staged blocks.

  Block numbers are \<open>usize\<close> quotients cast to \<open>u64\<close>, the identity on the 64-bit targets of the
  crate; they are \<open>nat\<close> here. The abstract view of the device is the bytes a reader sees, and
  through it the captured writes are ordinary writes: this is the contract \<open>block_device\<close>.
\<close>

section \<open>Transactions\<close>

record staged_block =
  sb_data :: bytes
  sb_is_metadata :: bool

record transaction =
  txn_sequence :: u32
  txn_blocks :: "(nat \<times> staged_block) list"
  txn_revokes :: "nat list"

definition Transaction_new :: "u32 \<Rightarrow> transaction" where
  "Transaction_new sequence = \<lparr> txn_sequence = sequence, txn_blocks = [], txn_revokes = [] \<rparr>"

definition stage :: "nat \<Rightarrow> bytes \<Rightarrow> bool \<Rightarrow> transaction \<Rightarrow> transaction" where
  "stage final_block data is_metadata t =
     t\<lparr> txn_blocks := bt_insert final_block \<lparr> sb_data = data, sb_is_metadata = is_metadata \<rparr>
          (txn_blocks t) \<rparr>"

definition Transaction_revoke :: "nat \<Rightarrow> transaction \<Rightarrow> transaction" where
  "Transaction_revoke block t = t\<lparr> txn_revokes := bts_insert block (txn_revokes t) \<rparr>"

definition Transaction_is_empty :: "transaction \<Rightarrow> bool" where
  "Transaction_is_empty t \<longleftrightarrow> txn_blocks t = [] \<and> txn_revokes t = []"

section \<open>The device\<close>

datatype crash_point = NoCrash | AfterCommitBlock | MidCheckpoint nat

record jdev =
  jd_inner :: disk
  jd_block_size :: nat
  jd_txn :: "transaction option"
  jd_depth :: u32
  jd_crash :: crash_point

definition JournalDevice_new :: "disk \<Rightarrow> nat \<Rightarrow> jdev" where
  "JournalDevice_new inner block_size =
     \<lparr> jd_inner = inner, jd_block_size = block_size, jd_txn = None, jd_depth = 0,
       jd_crash = NoCrash \<rparr>"

definition jd_begin :: "u32 \<Rightarrow> jdev \<Rightarrow> jdev" where
  "jd_begin sequence s =
     (let s = (if jd_depth s = 0 then s\<lparr> jd_txn := Some (Transaction_new sequence) \<rparr> else s)
      in s\<lparr> jd_depth := jd_depth s + 1 \<rparr>)"

definition jd_end :: "jdev \<Rightarrow> transaction option \<times> jdev" where
  "jd_end s =
     (if jd_depth s = 0 then (None, s)
      else let s = s\<lparr> jd_depth := jd_depth s - 1 \<rparr> in
        if jd_depth s = 0 then (jd_txn s, s\<lparr> jd_txn := None \<rparr>) else (None, s))"

definition set_crash :: "crash_point \<Rightarrow> jdev \<Rightarrow> jdev" where
  "set_crash c s = s\<lparr> jd_crash := c \<rparr>"

definition take_crash :: "jdev \<Rightarrow> crash_point \<times> jdev" where
  "take_crash s = (jd_crash s, s\<lparr> jd_crash := NoCrash \<rparr>)"

definition jd_revoke :: "nat \<Rightarrow> jdev \<Rightarrow> jdev" where
  "jd_revoke b s = s\<lparr> jd_txn := map_option (Transaction_revoke b) (jd_txn s) \<rparr>"

lemma chunk_pos: "0 < bs \<Longrightarrow> dst < len \<Longrightarrow> 0 < min (bs - pos mod bs) (len - dst)" for bs :: nat
  by simp

text \<open>The loop of \<open>read_offset\<close>: \<open>pos\<close> is the device offset, \<open>dst\<close> the offset in the result. A
  block size of zero panics in \<open>pos / bs\<close>.\<close>

function overlay ::
  "(nat \<times> staged_block) list \<Rightarrow> nat \<Rightarrow> nat \<Rightarrow> nat \<Rightarrow> nat \<Rightarrow> bytes \<Rightarrow> bytes res" where
  "overlay blocks bs len pos dst result =
     (if len \<le> dst then Ok result
      else if bs = 0 then Panic
      else let b = pos div bs; intra = pos mod bs; n = min (bs - intra) (len - dst) in
        bind (case map_of blocks b of
                Some sb \<Rightarrow> bind (get_at (sb_data sb) intra n) (\<lambda>d. put_at result dst d)
              | None \<Rightarrow> Ok result)
          (\<lambda>result. overlay blocks bs len (pos + n) (dst + n) result))"
  by pat_completeness auto
termination
  by (relation "measure (\<lambda>(blocks, bs, len, pos, dst, result). len - dst)")
     (auto simp: chunk_pos not_le intro!: diff_less_mono2)

declare overlay.simps [simp del]

definition jd_read :: "nat \<Rightarrow> nat \<Rightarrow> (jdev, bytes) io" where
  "jd_read offset len s =
     (let base = image_read (dk_image (jd_inner s)) offset len in
      (case jd_txn s of
         Some t \<Rightarrow> overlay (txn_blocks t) (jd_block_size s) len offset 0 base
       | None \<Rightarrow> Ok base, s))"

text \<open>The loop of \<open>write_offset\<close>, over the transaction; the inner device is only read.\<close>

function capture :: "(nat \<Rightarrow> u8) \<Rightarrow> nat \<Rightarrow> bytes \<Rightarrow> nat \<Rightarrow> nat \<Rightarrow> transaction \<Rightarrow> transaction res" where
  "capture img bs data pos src t =
     (if length data \<le> src then Ok t
      else if bs = 0 then Panic
      else let b = pos div bs; intra = pos mod bs; n = min (bs - intra) (length data - src);
               block = (case map_of (txn_blocks t) b of
                          Some sb \<Rightarrow> sb_data sb | None \<Rightarrow> image_read img (b * bs) bs) in
        bind (put_at block intra (slice data src n)) (\<lambda>block.
          capture img bs data (pos + n) (src + n) (stage b block False t)))"
  by pat_completeness auto
termination
  by (relation "measure (\<lambda>(img, bs, data, pos, src, t). length data - src)")
     (auto simp: chunk_pos not_le intro!: diff_less_mono2)

declare capture.simps [simp del]

definition jd_write :: "nat \<Rightarrow> bytes \<Rightarrow> (jdev, unit) io" where
  "jd_write offset data s =
     (case jd_txn s of
        Some t \<Rightarrow> (case capture (dk_image (jd_inner s)) (jd_block_size s) data offset 0 t of
            Ok t' \<Rightarrow> (Ok (), s\<lparr> jd_txn := Some t' \<rparr>)
          | Err e \<Rightarrow> (Err e, s) | Panic \<Rightarrow> (Panic, s) | Undef \<Rightarrow> (Undef, s))
      | None \<Rightarrow> (let (r, d) = disk_write offset data (jd_inner s) in (r, s\<lparr> jd_inner := d \<rparr>)))"

definition jd_flush :: "(jdev, unit) io" where
  "jd_flush s = (Ok (), s\<lparr> jd_inner := snd (disk_flush (jd_inner s)) \<rparr>)"

section \<open>A closed device\<close>

text \<open>With no transaction open the device passes everything through; these are the facts by which
  the journal engine, which runs on the closed device, is evaluated.\<close>

definition closed :: "jdev \<Rightarrow> bool" where
  "closed s \<longleftrightarrow> jd_txn s = None"

definition jd_image :: "jdev \<Rightarrow> nat \<Rightarrow> u8" where
  "jd_image s = dk_image (jd_inner s)"

definition jd_put :: "nat \<Rightarrow> bytes \<Rightarrow> jdev \<Rightarrow> jdev" where
  "jd_put off d s = s\<lparr> jd_inner := snd (disk_write off d (jd_inner s)) \<rparr>"

definition jd_synced :: "jdev \<Rightarrow> jdev" where
  "jd_synced s = s\<lparr> jd_inner := snd (disk_flush (jd_inner s)) \<rparr>"

lemma jd_read_closed: "closed s \<Longrightarrow> jd_read off n s = (Ok (image_read (jd_image s) off n), s)"
  by (simp add: jd_read_def closed_def jd_image_def Let_def)

lemma jd_write_closed: "closed s \<Longrightarrow> jd_write off d s = (Ok (), jd_put off d s)"
  by (simp add: jd_write_def closed_def jd_put_def disk_write_def)

lemma jd_flush_synced [simp]: "jd_flush s = (Ok (), jd_synced s)"
  by (simp add: jd_flush_def jd_synced_def)

lemma closed_simps [simp]:
  "closed (jd_put off d s) = closed s"
  "closed (jd_synced s) = closed s"
  "jd_image (jd_put off d s) = image_write (jd_image s) off d"
  "jd_image (jd_synced s) = jd_image s"
  "jd_block_size (jd_put off d s) = jd_block_size s"
  "jd_block_size (jd_synced s) = jd_block_size s"
  by (simp_all add: closed_def jd_image_def jd_put_def jd_synced_def disk_write_def disk_flush_def)

section \<open>The view and the invariant\<close>

text \<open>What a reader sees at byte \<open>i\<close>, and the invariant: the staged blocks are whole blocks, and
  they are in order.\<close>

definition txn_view :: "(nat \<Rightarrow> u8) \<Rightarrow> nat \<Rightarrow> (nat \<times> staged_block) list \<Rightarrow> nat \<Rightarrow> u8" where
  "txn_view img bs blocks i =
     (case map_of blocks (i div bs) of Some sb \<Rightarrow> sb_data sb ! (i mod bs) | None \<Rightarrow> img i)"

definition jd_view :: "jdev \<Rightarrow> nat \<Rightarrow> u8" where
  "jd_view s = (case jd_txn s of
     Some t \<Rightarrow> txn_view (dk_image (jd_inner s)) (jd_block_size s) (txn_blocks t)
   | None \<Rightarrow> dk_image (jd_inner s))"

definition whole_blocks :: "nat \<Rightarrow> (nat \<times> staged_block) list \<Rightarrow> bool" where
  "whole_blocks bs blocks \<longleftrightarrow> bt_ok blocks \<and> (\<forall>b sb. map_of blocks b = Some sb \<longrightarrow> length (sb_data sb) = bs)"

definition jd_inv :: "jdev \<Rightarrow> bool" where
  "jd_inv s \<longleftrightarrow> 0 < jd_block_size s \<and>
     (\<forall>t. jd_txn s = Some t \<longrightarrow> whole_blocks (jd_block_size s) (txn_blocks t))"

lemma chunk_block:
  fixes pos bs n :: nat
  assumes "0 < bs" and "n \<le> bs - pos mod bs" and "pos \<le> i" and "i < pos + n"
  shows "i div bs = pos div bs" and "i mod bs = pos mod bs + (i - pos)"
proof -
  obtain q r where qr: "q = pos div bs" "r = pos mod bs" by simp
  then have pos: "pos = r + bs * q" by simp
  have lt: "r + (i - pos) < bs" using assms qr by linarith
  have i: "i = r + (i - pos) + bs * q" using assms(3) pos by linarith
  have "i div bs = q" by (subst i) (use lt assms(1) in simp)
  then show "i div bs = pos div bs" by (simp add: qr)
  have "i mod bs = r + (i - pos)" by (subst i) (use lt in simp)
  then show "i mod bs = pos mod bs + (i - pos)" by (simp add: qr)
qed

lemma overlay_chunk:
  assumes "0 < bs" and "whole_blocks bs blocks" and "dst + n \<le> length result"
    and n: "n \<le> bs - pos mod bs" "pos mod bs + n \<le> bs"
    and base: "slice result dst n = image_read img pos n"
  shows "(case map_of blocks (pos div bs) of
        Some sb \<Rightarrow> bind (get_at (sb_data sb) (pos mod bs) n) (\<lambda>d. put_at result dst d)
      | None \<Rightarrow> Ok result) = Ok (put result dst (image_read (txn_view img bs blocks) pos n))"
proof (cases "map_of blocks (pos div bs)")
  case None
  have "image_read (txn_view img bs blocks) pos n = image_read img pos n"
  proof (rule image_read_cong)
    fix i
    assume "pos \<le> i" "i < pos + n"
    then have "i div bs = pos div bs" by (rule chunk_block(1) [OF assms(1) n(1)])
    then show "txn_view img bs blocks i = img i" using None by (simp add: txn_view_def)
  qed
  then show ?thesis using None base assms(3) put_slice_id [of dst n result] by simp
next
  case (Some sb)
  then have len: "length (sb_data sb) = bs" using assms(2) by (simp add: whole_blocks_def)
  have "slice (sb_data sb) (pos mod bs) n = image_read (txn_view img bs blocks) pos n"
  proof (rule nth_equalityI)
    fix j
    assume "j < length (slice (sb_data sb) (pos mod bs) n)"
    then have j: "j < n" by simp
    have "(pos + j) div bs = pos div bs" "(pos + j) mod bs = pos mod bs + j"
      using chunk_block [OF assms(1) n(1), of "pos + j"] j by simp_all
    then show "slice (sb_data sb) (pos mod bs) n ! j = image_read (txn_view img bs blocks) pos n ! j"
      using Some len n j by (simp add: nth_slice nth_image_read txn_view_def)
  qed (use len n in simp)
  then show ?thesis using Some len n assms(3) by (simp add: get_at_Ok put_at_Ok)
qed

lemma overlay_ok:
  assumes "0 < bs" and "whole_blocks bs blocks" and "length result = len" and "dst \<le> len"
    and "slice result dst (len - dst) = image_read img pos (len - dst)"
  shows "overlay blocks bs len pos dst result =
    Ok (take dst result @ image_read (txn_view img bs blocks) pos (len - dst))"
  using assms
proof (induction blocks bs len pos dst result rule: overlay.induct)
  case (1 blocks bs len pos dst result)
  show ?case
  proof (cases "len \<le> dst")
    case True
    then show ?thesis using "1.prems" by (subst overlay.simps) (simp add: image_read_def)
  next
    case False
    obtain n where n: "n = min (bs - pos mod bs) (len - dst)" by simp
    have "0 < bs - pos mod bs" using "1.prems"(1) by simp
    then have le: "n \<le> bs - pos mod bs" "pos mod bs + n \<le> bs" "dst + n \<le> len" "n \<le> len - dst" "0 < n"
      using False "1.prems"(1) unfolding n by (auto simp: min_def)
    let ?seg = "image_read (txn_view img bs blocks) pos n"
    let ?r = "put result dst ?seg"
    have tail: "slice result (dst + a) m = image_read img (pos + a) m" if "a + m \<le> len - dst" for a m
      using arg_cong [OF "1.prems"(5), of "\<lambda>x. slice x a m"] that
      by (simp add: slice_slice slice_image_read)
    have chunk: "(case map_of blocks (pos div bs) of
        Some sb \<Rightarrow> bind (get_at (sb_data sb) (pos mod bs) n) (\<lambda>d. put_at result dst d)
      | None \<Rightarrow> Ok result) = Ok ?r"
      by (rule overlay_chunk) (use "1.prems"(1,2,3) le tail [of 0 n] in simp_all)
    then have step: "overlay blocks bs len pos dst result = overlay blocks bs len (pos + n) (dst + n) ?r"
      using False "1.prems"(1) chunk
      unfolding overlay.simps [of blocks bs len pos dst result] Let_def n [symmetric] by simp
    have rest: "slice ?r (dst + n) (len - (dst + n)) = image_read img (pos + n) (len - (dst + n))"
      using tail [of n "len - (dst + n)"] le "1.prems"(3) by (simp add: slice_put_above)
    have IH: "overlay blocks bs len (pos + n) (dst + n) ?r =
        Ok (take (dst + n) ?r @ image_read (txn_view img bs blocks) (pos + n) (len - (dst + n)))"
      by (rule "1.IH" [OF False _ refl refl n chunk])
        (use "1.prems"(1,2,3) le rest in \<open>simp_all add: length_put\<close>)
    have "take (dst + n) ?r = take dst result @ ?seg"
      using le "1.prems"(3) by (simp add: put_def)
    moreover have "?seg @ image_read (txn_view img bs blocks) (pos + n) (len - (dst + n)) =
        image_read (txn_view img bs blocks) pos (len - dst)"
      using image_read_append [of "txn_view img bs blocks" pos n "len - (dst + n)"] le by simp
    ultimately show ?thesis unfolding step IH by simp
  qed
qed

lemma jd_read_view: "jd_inv s \<Longrightarrow> jd_read off n s = (Ok (image_read (jd_view s) off n), s)"
  using overlay_ok [of "jd_block_size s" _ "image_read (dk_image (jd_inner s)) off n" n 0 "dk_image (jd_inner s)" off]
  by (auto simp: jd_read_def jd_view_def jd_inv_def slice_all Let_def split: option.split)

lemma staged_block_view:
  assumes "0 < bs" and "whole_blocks bs blocks"
  shows "(case map_of blocks b of Some sb \<Rightarrow> sb_data sb | None \<Rightarrow> image_read img (b * bs) bs) =
    image_read (txn_view img bs blocks) (b * bs) bs"
proof (rule nth_equalityI)
  let ?cur = "case map_of blocks b of Some sb \<Rightarrow> sb_data sb | None \<Rightarrow> image_read img (b * bs) bs"
  show len: "length ?cur = length (image_read (txn_view img bs blocks) (b * bs) bs)"
    using assms(2) by (simp add: whole_blocks_def split: option.split)
  fix j
  assume "j < length ?cur"
  then have j: "j < bs" using len by simp
  then have "(b * bs + j) div bs = b" "(b * bs + j) mod bs = j" using assms(1) by simp_all
  then show "?cur ! j = image_read (txn_view img bs blocks) (b * bs) bs ! j"
    using j by (simp add: nth_image_read txn_view_def split: option.split)
qed

lemma stage_view:
  assumes "0 < bs" and "whole_blocks bs (txn_blocks t)" and fit: "pos mod bs + length d \<le> bs"
    and block: "block = put (image_read (txn_view img bs (txn_blocks t)) (pos div bs * bs) bs) (pos mod bs) d"
  shows "whole_blocks bs (txn_blocks (stage (pos div bs) block m t))"
    and "txn_view img bs (txn_blocks (stage (pos div bs) block m t)) =
      image_write (txn_view img bs (txn_blocks t)) pos d"
proof -
  let ?b = "pos div bs" and ?v = "txn_view img bs (txn_blocks t)"
  have len: "length block = bs" using block fit by (simp add: length_put)
  then show "whole_blocks bs (txn_blocks (stage ?b block m t))"
    using assms(2) by (auto simp: whole_blocks_def stage_def bt_ok_insert map_of_bt_insert split: if_splits)
  show "txn_view img bs (txn_blocks (stage ?b block m t)) = image_write ?v pos d"
  proof
    fix i
    show "txn_view img bs (txn_blocks (stage ?b block m t)) i = image_write ?v pos d i"
    proof (cases "i div bs = ?b")
      case False
      moreover have "length d \<le> bs - pos mod bs" using fit by linarith
      ultimately have "\<not> (pos \<le> i \<and> i < pos + length d)"
        using chunk_block(1) [OF assms(1), of "length d" pos i] by auto
      then show ?thesis
        using False by (auto simp: txn_view_def stage_def map_of_bt_insert image_write_def)
    next
      case True
      have i: "i = ?b * bs + i mod bs" and p: "pos = ?b * bs + pos mod bs"
        using True by (metis div_mult_mod_eq)+
      have lt: "i mod bs < bs" using assms(1) by simp
      have "block ! (i mod bs) = (if pos mod bs \<le> i mod bs \<and> i mod bs < pos mod bs + length d
          then d ! (i mod bs - pos mod bs) else ?v (?b * bs + i mod bs))"
        unfolding block using fit lt by (simp add: nth_put nth_image_read)
      also have "\<dots> = image_write ?v pos d i"
      proof -
        have "pos \<le> i \<longleftrightarrow> pos mod bs \<le> i mod bs" "i < pos + length d \<longleftrightarrow> i mod bs < pos mod bs + length d"
          "i - pos = i mod bs - pos mod bs"
          using i p by linarith+
        then show ?thesis unfolding image_write_def by (simp only: i [symmetric])
      qed
      finally show ?thesis
        unfolding txn_view_def [of img bs "txn_blocks (stage ?b block m t)"]
        using True by (simp add: stage_def map_of_bt_insert)
    qed
  qed
qed

lemma capture_ok:
  assumes "0 < bs" and "whole_blocks bs (txn_blocks t)" and "src \<le> length data"
  shows "\<exists>t'. capture img bs data pos src t = Ok t' \<and> whole_blocks bs (txn_blocks t')
    \<and> txn_view img bs (txn_blocks t') = image_write (txn_view img bs (txn_blocks t)) pos (drop src data)
    \<and> txn_sequence t' = txn_sequence t \<and> txn_revokes t' = txn_revokes t"
  using assms
proof (induction img bs data pos src t rule: capture.induct)
  case (1 img bs data pos src t)
  show ?case
  proof (cases "length data \<le> src")
    case True
    then show ?thesis using "1.prems" by (subst capture.simps) simp
  next
    case False
    obtain n where n: "n = min (bs - pos mod bs) (length data - src)" by simp
    have "0 < bs - pos mod bs" using "1.prems"(1) by simp
    then have le: "pos mod bs + n \<le> bs" "src + n \<le> length data" "0 < n"
      using False "1.prems"(1) unfolding n by (auto simp: min_def)
    let ?v = "txn_view img bs (txn_blocks t)"
    obtain cur where cur: "cur = image_read ?v (pos div bs * bs) bs" by simp
    have cur': "(case map_of (txn_blocks t) (pos div bs) of
        Some sb \<Rightarrow> sb_data sb | None \<Rightarrow> image_read img (pos div bs * bs) bs) = cur"
      unfolding cur by (rule staged_block_view [OF "1.prems"(1,2)])
    let ?d = "slice data src n"
    let ?t = "stage (pos div bs) (put cur (pos mod bs) ?d) False t"
    have len: "length ?d = n" using le by simp
    then have put: "put_at cur (pos mod bs) ?d = Ok (put cur (pos mod bs) ?d)"
      using le cur by (simp add: put_at_Ok)
    have step: "capture img bs data pos src t = capture img bs data (pos + n) (src + n) ?t"
      using False "1.prems"(1) put
      unfolding capture.simps [of img bs data pos src t] Let_def n [symmetric] cur' by simp
    have fit: "pos mod bs + length ?d \<le> bs" using len le by simp
    note st = stage_view [OF "1.prems"(1,2) fit, of _ img False, OF arg_cong [OF cur, of "\<lambda>c. put c (pos mod bs) ?d"]]
    note IH = "1.IH" [OF False _ refl refl n cur' [symmetric] put _ st(1)]
    have "image_write (image_write ?v pos ?d) (pos + n) (drop (src + n) data) = image_write ?v pos (drop src data)"
      using image_write_append [of ?v pos ?d "drop (src + n) data"] len
      by (simp add: slice_def add.commute [of src]) (metis append_take_drop_id drop_drop)
    moreover have "\<exists>t'. capture img bs data (pos + n) (src + n) ?t = Ok t' \<and> whole_blocks bs (txn_blocks t')
      \<and> txn_view img bs (txn_blocks t') = image_write (txn_view img bs (txn_blocks ?t)) (pos + n) (drop (src + n) data)
      \<and> txn_sequence t' = txn_sequence ?t \<and> txn_revokes t' = txn_revokes ?t"
      by (rule IH) (use "1.prems"(1) le in simp_all)
    ultimately show ?thesis unfolding step st(2) by (simp add: stage_def)
  qed
qed

lemma jd_write_view:
  assumes "jd_inv s"
  shows "\<exists>t. jd_write off d s = (Ok (), t) \<and> jd_inv t \<and> jd_view t = image_write (jd_view s) off d"
proof (cases "jd_txn s")
  case None
  then show ?thesis using assms by (simp add: jd_write_def disk_write_def jd_inv_def jd_view_def)
next
  case (Some t)
  then have t: "0 < jd_block_size s" "whole_blocks (jd_block_size s) (txn_blocks t)"
    using assms by (simp_all add: jd_inv_def)
  from capture_ok [OF this, of 0 d "dk_image (jd_inner s)" off] show ?thesis
    using Some t(1) by (auto simp: jd_write_def jd_inv_def jd_view_def)
qed

interpretation jdev: block_device jd_read jd_write jd_view jd_inv
  by unfold_locales (fact jd_read_view, fact jd_write_view)

section \<open>Properties\<close>

text \<open>Writing out the staged blocks, in any order of distinct block numbers, produces the view.\<close>

lemma image_write_block:
  assumes "0 < bs" and "length d = bs"
  shows "image_write img (b * bs) d i = (if i div bs = b then d ! (i mod bs) else img i)"
proof -
  have "b * bs \<le> i \<and> i < b * bs + bs \<longleftrightarrow> i div bs = b"
    using assms(1) by (metis add.commute div_nat_eqI dividend_less_div_times le_add1 mult.commute mult_Suc_right
        times_div_less_eq_dividend)
  moreover have "i - b * bs = i mod bs" if "i div bs = b"
    using that by (metis minus_div_mult_eq_mod)
  ultimately show ?thesis using assms(2) by (auto simp: image_write_def)
qed

lemma checkpoint_blocks:
  assumes "0 < bs" and "distinct (map fst blocks)" and "\<forall>(b, d) \<in> set blocks. length d = bs"
  shows "foldl (\<lambda>img (b, d). image_write img (b * bs) d) img blocks i =
    (case map_of blocks (i div bs) of Some d \<Rightarrow> d ! (i mod bs) | None \<Rightarrow> img i)"
  using assms(2,3)
proof (induction blocks arbitrary: img)
  case (Cons x blocks)
  obtain b d where x: "x = (b, d)" by (cases x)
  have "b \<notin> fst ` set blocks" "length d = bs" using Cons.prems x by auto
  then have "map_of blocks b = None" by (simp add: map_of_eq_None_iff)
  moreover have "foldl (\<lambda>img (b, d). image_write img (b * bs) d) (image_write img (b * bs) d) blocks i =
    (case map_of blocks (i div bs) of Some d \<Rightarrow> d ! (i mod bs) | None \<Rightarrow> image_write img (b * bs) d i)"
    by (rule Cons.IH) (use Cons.prems in auto)
  ultimately show ?case
    using image_write_block [OF assms(1) \<open>length d = bs\<close>] x by (auto split: option.split)
qed simp

definition write_all :: "(nat \<times> bytes) list \<Rightarrow> (jdev, unit) io" where
  "write_all ws = for_each (\<lambda>(off, d). jd_write off d) ws"

text \<open>C14: while a transaction is open, any sequence of writes of any ranges is captured: the inner
  device is not touched, yet every later read returns what it would return had the writes gone to a
  plain device (read-your-writes, across block boundaries and repeated writes).\<close>

theorem captured_writes_simulate_plain_writes:
  assumes "jd_inv s" and "jd_txn s = Some t"
  shows "\<exists>s'. write_all ws s = (Ok (), s') \<and> jd_inner s' = jd_inner s \<and> jd_inv s' \<and> jd_txn s' \<noteq> None
    \<and> (\<forall>off n. jd_read off n s' =
        (Ok (image_read (foldl (\<lambda>img (off, d). image_write img off d) (jd_view s) ws) off n), s'))"
  using assms
proof (induction ws arbitrary: s t)
  case Nil
  then show ?case by (simp add: write_all_def jd_read_view)
next
  case (Cons w ws)
  obtain off d where w: "w = (off, d)" by (cases w)
  obtain s1 where s1: "jd_write off d s = (Ok (), s1)" "jd_inv s1" "jd_view s1 = image_write (jd_view s) off d"
    using jd_write_view [OF Cons.prems(1)] by blast
  then obtain t1 where t1: "jd_txn s1 = Some t1" "jd_inner s1 = jd_inner s"
    using Cons.prems(2) by (auto simp: jd_write_def split: res.splits)
  have "write_all (w # ws) s = write_all ws s1"
    using s1(1) w by (simp add: write_all_def bindS_def)
  then show ?case using Cons.IH [OF s1(2) t1(1)] t1(2) s1(3) w by simp
qed

theorem captured_writes_simulate_plain_writes_witness:
  "\<exists>s'. write_all [(3, [1, 2, 3]), (4, [9])]
      (jd_begin 5 (JournalDevice_new \<lparr> dk_image = (\<lambda>_. 0), dk_events = [] \<rparr> 4)) = (Ok (), s')
    \<and> fst (jd_read 2 5 s') = Ok [0, 1, 9, 3, 0]"
proof -
  let ?s = "jd_begin 5 (JournalDevice_new \<lparr> dk_image = (\<lambda>_. 0), dk_events = [] \<rparr> 4)"
  have "jd_inv ?s" "jd_txn ?s = Some (Transaction_new 5)"
    by (simp_all add: jd_inv_def jd_begin_def JournalDevice_new_def Transaction_new_def whole_blocks_def Let_def)
  from captured_writes_simulate_plain_writes [OF this, of "[(3, [1, 2, 3]), (4, [9])]"]
  obtain s' where "write_all [(3, [1, 2, 3]), (4, [9])] ?s = (Ok (), s')"
    and "fst (jd_read 2 5 s') = Ok (image_read
      (foldl (\<lambda>img (off, d). image_write img off d) (jd_view ?s) [(3, [1, 2, 3]), (4, [9])]) 2 5)"
    by auto
  moreover have "jd_view ?s = (\<lambda>_. 0)"
    by (simp add: jd_view_def jd_begin_def JournalDevice_new_def Transaction_new_def txn_view_def Let_def fun_eq_iff)
  ultimately show ?thesis by (simp add: image_read_def image_write_def upt_rec)
qed

text \<open>A closed device is transparent: reads, writes and flushes are those of the inner device,
  and the journal state is not touched.\<close>

theorem closed_device_is_transparent:
  assumes "jd_txn s = None"
  shows "jd_read off n s = (fst (disk_read off n (jd_inner s)), s)
    \<and> jd_write off d s = (Ok (), s\<lparr> jd_inner := snd (disk_write off d (jd_inner s)) \<rparr>)
    \<and> jd_flush s = (Ok (), s\<lparr> jd_inner := snd (disk_flush (jd_inner s)) \<rparr>)"
  using assms by (simp add: jd_read_def jd_write_def jd_synced_def disk_read_def disk_write_def Let_def)

theorem closed_device_is_transparent_witness:
  "jd_read 0 2 (JournalDevice_new \<lparr> dk_image = (\<lambda>_. 7), dk_events = [] \<rparr> 4) =
    (Ok [7, 7], JournalDevice_new \<lparr> dk_image = (\<lambda>_. 7), dk_events = [] \<rparr> 4)"
  using closed_device_is_transparent
    [of "JournalDevice_new \<lparr> dk_image = (\<lambda>_. 7), dk_events = [] \<rparr> 4" 0 2]
  by (simp add: JournalDevice_new_def disk_read_def image_read_def upt_rec)

end
