(* ===== verification/SuperBlock.thy ===== *)
theory SuperBlock
  imports Crc StructLayout JournalDevice
begin

text \<open>
  The ext4 superblock (\<open>src/src/ext4_defs/super_block.rs\<close>). The struct is read and written by
  pointer casts, so a superblock is its 1024-byte image, and a field is the little-endian word at
  its \<open>repr(C)\<close> offset; \<open>superblock_layout\<close> lists the fields as the struct declares them.
  Shifts by a runtime amount are the release profile's, which masks the amount.
\<close>

section \<open>Layout\<close>

definition superblock_layout :: layout where
  "superblock_layout = [
   (''inodes_count'', 4, 1), (''blocks_count_lo'', 4, 1), (''reserved_blocks_count_lo'', 4, 1),
   (''free_blocks_count_lo'', 4, 1), (''free_inodes_count'', 4, 1), (''first_data_block'', 4, 1),
   (''log_block_size'', 4, 1), (''log_cluster_size'', 4, 1), (''blocks_per_group'', 4, 1),
   (''frags_per_group'', 4, 1), (''inodes_per_group'', 4, 1), (''mount_time'', 4, 1),
   (''write_time'', 4, 1), (''mount_count'', 2, 1), (''max_mount_count'', 2, 1), (''magic'', 2, 1),
   (''state'', 2, 1), (''errors'', 2, 1), (''minor_rev_level'', 2, 1), (''last_check_time'', 4, 1),
   (''check_interval'', 4, 1), (''creator_os'', 4, 1), (''rev_level'', 4, 1),
   (''def_resuid'', 2, 1), (''def_resgid'', 2, 1), (''first_inode'', 4, 1), (''inode_size'', 2, 1),
   (''block_group_index'', 2, 1), (''features_compatible'', 4, 1),
   (''features_incompatible'', 4, 1), (''features_read_only'', 4, 1), (''uuid'', 1, 16),
   (''volume_name'', 1, 16), (''last_mounted'', 1, 64), (''algorithm_usage_bitmap'', 4, 1),
   (''s_prealloc_blocks'', 1, 1), (''s_prealloc_dir_blocks'', 1, 1),
   (''s_reserved_gdt_blocks'', 2, 1), (''journal_uuid'', 1, 16), (''journal_inode_number'', 4, 1),
   (''journal_dev'', 4, 1), (''last_orphan'', 4, 1), (''hash_seed'', 4, 4),
   (''default_hash_version'', 1, 1), (''journal_backup_type'', 1, 1), (''desc_size'', 2, 1),
   (''default_mount_opts'', 4, 1), (''first_meta_bg'', 4, 1), (''mkfs_time'', 4, 1),
   (''journal_blocks'', 4, 17), (''blocks_count_hi'', 4, 1), (''reserved_blocks_count_hi'', 4, 1),
   (''free_blocks_count_hi'', 4, 1), (''min_extra_isize'', 2, 1), (''want_extra_isize'', 2, 1),
   (''flags'', 4, 1), (''raid_stride'', 2, 1), (''mmp_interval'', 2, 1), (''mmp_block'', 8, 1),
   (''raid_stripe_width'', 4, 1), (''log_groups_per_flex'', 1, 1), (''checksum_type'', 1, 1),
   (''reserved_pad'', 2, 1), (''kbytes_written'', 8, 1), (''snapshot_inum'', 4, 1),
   (''snapshot_id'', 4, 1), (''snapshot_r_blocks_count'', 8, 1), (''snapshot_list'', 4, 1),
   (''error_count'', 4, 1), (''first_error_time'', 4, 1), (''first_error_ino'', 4, 1),
   (''first_error_block'', 8, 1), (''first_error_func'', 1, 32), (''first_error_line'', 4, 1),
   (''last_error_time'', 4, 1), (''last_error_ino'', 4, 1), (''last_error_line'', 4, 1),
   (''last_error_block'', 8, 1), (''last_error_func'', 1, 32), (''mount_opts'', 1, 64),
   (''usr_quota_inum'', 4, 1), (''grp_quota_inum'', 4, 1), (''overhead_clusters'', 4, 1),
   (''backup_bgs'', 4, 2), (''encrypt_algos'', 1, 4), (''encrypt_pw_salt'', 1, 16),
   (''lpf_ino'', 4, 1), (''padding'', 4, 100), (''checksum'', 4, 1)]"

type_synonym superblock = bytes

definition sb_get :: "nat \<Rightarrow> string \<Rightarrow> superblock \<Rightarrow> 'a::len word" where
  "sb_get n field sb = le_get (offset_of superblock_layout field) n sb"

definition sb_put :: "nat \<Rightarrow> string \<Rightarrow> 'a::len word \<Rightarrow> superblock \<Rightarrow> superblock" where
  "sb_put n field v sb = le_put (offset_of superblock_layout field) n v sb"

lemma size_of_superblock: "size_of superblock_layout = 1024"
  by code_simp

lemma sb_offsets [simp]:
  "offset_of superblock_layout ''inodes_count'' = 0"
  "offset_of superblock_layout ''blocks_count_lo'' = 4"
  "offset_of superblock_layout ''free_blocks_count_lo'' = 12"
  "offset_of superblock_layout ''free_inodes_count'' = 16"
  "offset_of superblock_layout ''first_data_block'' = 20"
  "offset_of superblock_layout ''log_block_size'' = 24"
  "offset_of superblock_layout ''blocks_per_group'' = 32"
  "offset_of superblock_layout ''inodes_per_group'' = 40"
  "offset_of superblock_layout ''rev_level'' = 76"
  "offset_of superblock_layout ''inode_size'' = 88"
  "offset_of superblock_layout ''features_compatible'' = 92"
  "offset_of superblock_layout ''features_incompatible'' = 96"
  "offset_of superblock_layout ''features_read_only'' = 100"
  "offset_of superblock_layout ''uuid'' = 104"
  "offset_of superblock_layout ''s_reserved_gdt_blocks'' = 206"
  "offset_of superblock_layout ''hash_seed'' = 236"
  "offset_of superblock_layout ''default_hash_version'' = 252"
  "offset_of superblock_layout ''desc_size'' = 254"
  "offset_of superblock_layout ''blocks_count_hi'' = 336"
  "offset_of superblock_layout ''free_blocks_count_hi'' = 344"
  "offset_of superblock_layout ''want_extra_isize'' = 350"
  "offset_of superblock_layout ''checksum'' = 1020"
  by code_simp+

section \<open>Accessors\<close>

definition EXT4_FEATURE_INCOMPAT_RECOVER :: u32 where "EXT4_FEATURE_INCOMPAT_RECOVER = 0x4"
definition SB_FEATURE_INCOMPAT_OFF :: nat where "SB_FEATURE_INCOMPAT_OFF = 0x60"
definition SB_CHECKSUM_OFF :: nat where "SB_CHECKSUM_OFF = 0x3fc"
definition SUPERBLOCK_OFFSET :: nat where "SUPERBLOCK_OFFSET = 1024"

definition block_size :: "superblock \<Rightarrow> u32" where
  "block_size sb = push_bit (unat (sb_get 4 ''log_block_size'' sb AND 31 :: u32)) 1024"

definition blocks_per_group :: "superblock \<Rightarrow> u32" where
  "blocks_per_group sb = sb_get 4 ''blocks_per_group'' sb"

definition inodes_per_group :: "superblock \<Rightarrow> u32" where
  "inodes_per_group sb = sb_get 4 ''inodes_per_group'' sb"

definition total_inodes :: "superblock \<Rightarrow> u32" where
  "total_inodes sb = sb_get 4 ''inodes_count'' sb"

definition free_inodes_count :: "superblock \<Rightarrow> u32" where
  "free_inodes_count sb = sb_get 4 ''free_inodes_count'' sb"

definition first_data_block :: "superblock \<Rightarrow> u32" where
  "first_data_block sb = sb_get 4 ''first_data_block'' sb"

definition sb_inode_size :: "superblock \<Rightarrow> u16" where
  "sb_inode_size sb = sb_get 2 ''inode_size'' sb"

definition hash_seed :: "superblock \<Rightarrow> u32 list" where
  "hash_seed sb = map (\<lambda>i. le_get (offset_of superblock_layout ''hash_seed'' + 4 * i) 4 sb) [0..<4]"

definition default_hash_version :: "superblock \<Rightarrow> u8" where
  "default_hash_version sb = sb_get 1 ''default_hash_version'' sb"

definition has_feature_dir_index :: "superblock \<Rightarrow> bool" where
  "has_feature_dir_index sb \<longleftrightarrow> sb_get 4 ''features_compatible'' sb AND (0x20 :: u32) \<noteq> 0"

definition has_feature_journal :: "superblock \<Rightarrow> bool" where
  "has_feature_journal sb \<longleftrightarrow> sb_get 4 ''features_compatible'' sb AND (0x4 :: u32) \<noteq> 0"

definition blocks_count :: "superblock \<Rightarrow> u64" where
  "blocks_count sb = push_bit 32 (ucast (sb_get 4 ''blocks_count_hi'' sb :: u32))
     OR ucast (sb_get 4 ''blocks_count_lo'' sb :: u32)"

text \<open>\<open>block_group_count\<close> divides by \<open>blocks_per_group\<close>, which panics when it is zero.\<close>

definition block_group_count :: "superblock \<Rightarrow> u32 res" where
  "block_group_count sb =
     (let blocks_count = blocks_count sb; bpg = ucast (blocks_per_group sb) :: u64 in
      if bpg = 0 then Panic
      else let c = blocks_count div bpg in
        Ok (ucast (if blocks_count mod bpg \<noteq> 0 then c + 1 else c)))"

definition desc_size :: "superblock \<Rightarrow> u16" where
  "desc_size sb = (let n = sb_get 2 ''desc_size'' sb in if n < 32 then 32 else n)"

definition extra_size :: "superblock \<Rightarrow> u16" where
  "extra_size sb = sb_get 2 ''want_extra_isize'' sb"

definition reserved_gdt_blocks :: "superblock \<Rightarrow> u16" where
  "reserved_gdt_blocks sb = sb_get 2 ''s_reserved_gdt_blocks'' sb"

definition get_inodes_in_group_cnt :: "superblock \<Rightarrow> u32 \<Rightarrow> u32 res" where
  "get_inodes_in_group_cnt sb bgid =
     bind (block_group_count sb) (\<lambda>block_group_count.
     Ok (if bgid + 1 < block_group_count then inodes_per_group sb
         else saturating_sub (total_inodes sb)
                (saturating_sub block_group_count 1 * inodes_per_group sb)))"

definition decrease_free_inodes_count :: "superblock \<Rightarrow> superblock" where
  "decrease_free_inodes_count sb =
     sb_put 4 ''free_inodes_count'' (saturating_sub (free_inodes_count sb) 1) sb"

definition increase_free_inodes_count :: "superblock \<Rightarrow> superblock" where
  "increase_free_inodes_count sb =
     sb_put 4 ''free_inodes_count'' (saturating_add (free_inodes_count sb) 1) sb"

definition free_blocks_count :: "superblock \<Rightarrow> u64" where
  "free_blocks_count sb = ucast (sb_get 4 ''free_blocks_count_lo'' sb :: u32)
     OR push_bit 32 (ucast (sb_get 4 ''free_blocks_count_hi'' sb :: u32))"

definition set_free_blocks_count :: "u64 \<Rightarrow> superblock \<Rightarrow> superblock" where
  "set_free_blocks_count free_blocks sb =
     sb_put 4 ''free_blocks_count_hi'' (ucast (drop_bit 32 free_blocks) :: u32)
       (sb_put 4 ''free_blocks_count_lo'' (ucast (free_blocks AND 0xffffffff) :: u32) sb)"

definition incompat_features :: "superblock \<Rightarrow> u32" where
  "incompat_features sb = sb_get 4 ''features_incompatible'' sb"

definition needs_recovery :: "superblock \<Rightarrow> bool" where
  "needs_recovery sb \<longleftrightarrow> incompat_features sb AND EXT4_FEATURE_INCOMPAT_RECOVER \<noteq> 0"

definition set_needs_recovery :: "bool \<Rightarrow> superblock \<Rightarrow> superblock" where
  "set_needs_recovery on sb =
     sb_put 4 ''features_incompatible''
       (if on then incompat_features sb OR EXT4_FEATURE_INCOMPAT_RECOVER
        else incompat_features sb AND NOT EXT4_FEATURE_INCOMPAT_RECOVER) sb"

definition ext4_balloc_bitmap_csum :: "superblock \<Rightarrow> bytes \<Rightarrow> u32 res" where
  "ext4_balloc_bitmap_csum sb bitmap =
     bind (ext4_crc32c EXT4_CRC32_INIT (slice sb (offset_of superblock_layout ''uuid'') 16) 16)
       (\<lambda>csum. ext4_crc32c csum bitmap (blocks_per_group sb div 8))"

definition ext4_ialloc_bitmap_csum :: "superblock \<Rightarrow> bytes \<Rightarrow> u32 res" where
  "ext4_ialloc_bitmap_csum sb bitmap =
     bind (ext4_crc32c EXT4_CRC32_INIT (slice sb (offset_of superblock_layout ''uuid'') 16) 16)
       (\<lambda>csum. ext4_crc32c csum bitmap ((inodes_per_group sb + 7) div 8))"

section \<open>Persistence\<close>

definition sync_to_disk :: "superblock \<Rightarrow> (jdev, unit) io" where
  "sync_to_disk sb = jd_write SUPERBLOCK_OFFSET sb"

definition with_csum :: "superblock \<Rightarrow> superblock res" where
  "with_csum sb = bind (ext4_crc32c EXT4_CRC32_INIT sb 0x3fc) (\<lambda>c. Ok (sb_put 4 ''checksum'' c sb))"

definition sync_to_disk_with_csum :: "superblock \<Rightarrow> (jdev, superblock) io" where
  "sync_to_disk_with_csum sb =
     bindS (lift (with_csum sb)) (\<lambda>sb. bindS (jd_write SUPERBLOCK_OFFSET sb) (\<lambda>_. ret sb))"

text \<open>\<open>Ext4::read_super_block\<close> of \<open>src/src/ext4_impls/ext4.rs\<close>.\<close>

definition read_super_block :: "(jdev, superblock) io" where
  "read_super_block = jd_read SUPERBLOCK_OFFSET SUPERBLOCK_OFFSET"

definition patch_recover_in_block :: "bytes \<Rightarrow> nat \<Rightarrow> bool \<Rightarrow> bytes res" where
  "patch_recover_in_block block sb_off on =
     (let fo = sb_off + SB_FEATURE_INCOMPAT_OFF; co = sb_off + SB_CHECKSUM_OFF in
      bind (get_le 4 block fo) (\<lambda>feat :: u32.
      bind (put_le 4 block fo
              (if on then feat OR EXT4_FEATURE_INCOMPAT_RECOVER
               else feat AND NOT EXT4_FEATURE_INCOMPAT_RECOVER)) (\<lambda>block.
      bind (get_at block sb_off SB_CHECKSUM_OFF) (\<lambda>sb_bytes.
      bind (ext4_crc32c EXT4_CRC32_INIT sb_bytes (of_nat SB_CHECKSUM_OFF)) (\<lambda>csum.
      put_le 4 block co csum)))))"

section \<open>Updating the flag\<close>

text \<open>\<open>recover_sb on sb\<close> is the superblock with the flag set or cleared and its checksum redone;
  both code paths, on the struct and in a staged block, compute it.\<close>

definition recover_sb :: "bool \<Rightarrow> superblock \<Rightarrow> superblock" where
  "recover_sb on sb = sb_put 4 ''checksum''
     (crc_ref EXT4_CRC32_INIT (slice (set_needs_recovery on sb) 0 0x3fc)) (set_needs_recovery on sb)"

lemma put_in_slice:
  "a + length d \<le> n \<Longrightarrow> off + n \<le> length buf \<Longrightarrow>
   put buf (off + a) d = put buf off (put (slice buf off n) a d)"
  by (rule nth_equalityI) (auto simp: length_put nth_put nth_slice)

lemma length_set_needs_recovery [simp]: "100 \<le> length sb \<Longrightarrow> length (set_needs_recovery on sb) = length sb"
  by (simp add: set_needs_recovery_def sb_put_def)

lemma length_recover_sb [simp]: "length sb = 1024 \<Longrightarrow> length (recover_sb on sb) = 1024"
  by (simp add: recover_sb_def sb_put_def)

lemma with_csum_ok:
  assumes "length sb = 1024"
  shows "with_csum (set_needs_recovery on sb) = Ok (recover_sb on sb)"
  using assms by (simp add: with_csum_def ext4_crc32c_def crc32_def crc32_loop_ref recover_sb_def slice_def)

lemma patch_recover_ok:
  assumes "off + 1024 \<le> length block"
  shows "patch_recover_in_block block off on = Ok (put block off (recover_sb on (slice block off 1024)))"
proof -
  let ?sb = "slice block off 1024"
  have feat: "le_get (off + 96) 4 block = (incompat_features ?sb :: u32)"
    using assms by (simp add: incompat_features_def sb_get_def le_get_def slice_slice)
  let ?v = "if on then incompat_features ?sb OR EXT4_FEATURE_INCOMPAT_RECOVER
    else incompat_features ?sb AND NOT EXT4_FEATURE_INCOMPAT_RECOVER"
  let ?s = "set_needs_recovery on ?sb"
  have b: "le_put (off + 96) 4 ?v block = put block off ?s"
    using assms put_in_slice [of 96 "le_bytes 4 ?v" 1024 off block]
    by (simp add: le_put_def set_needs_recovery_def sb_put_def)
  have ls: "length ?s = 1024" using assms by simp
  let ?p = "put block off ?s"
  have lp: "length ?p = length block" using assms ls by (simp add: length_put)
  have part: "slice ?p off 1020 = slice ?s 0 1020"
    using slice_put_same [of off ?s block 1024] slice_slice [of 0 1020 1024 ?p off] assms ls by simp
  have csum: "ext4_crc32c EXT4_CRC32_INIT (slice ?s 0 1020) (of_nat SB_CHECKSUM_OFF) =
      Ok (crc_ref EXT4_CRC32_INIT (slice ?s 0 1020))"
    using ext4_crc32c_small [of "slice ?s 0 1020"] ls by (simp add: SB_CHECKSUM_OFF_def)
  let ?c = "crc_ref EXT4_CRC32_INIT (slice ?s 0 1020)"
  have "le_put (off + 1020) 4 ?c ?p = put block off (recover_sb on ?sb)"
  proof -
    have "le_put (off + 1020) 4 ?c ?p = put ?p off (put (slice ?p off 1024) 1020 (le_bytes 4 ?c))"
      unfolding le_put_def using assms lp by (intro put_in_slice) simp_all
    also have "slice ?p off 1024 = ?s" using assms ls by (intro slice_put_same) simp_all
    also have "put ?p off (put ?s 1020 (le_bytes 4 ?c)) = put block off (recover_sb on ?sb)"
      using assms ls by (simp add: put_put_same length_put recover_sb_def sb_put_def le_put_def)
    finally show ?thesis .
  qed
  then show ?thesis
    using assms lp feat csum part
    unfolding patch_recover_in_block_def Let_def SB_FEATURE_INCOMPAT_OFF_def
    by (simp add: get_le_Ok put_le_Ok get_at_Ok b SB_CHECKSUM_OFF_def)
qed

lemma needs_recovery_iff: "needs_recovery sb \<longleftrightarrow> bit (incompat_features sb) 2"
  using and_exp_eq_0_iff_not_bit [of "incompat_features sb" 2]
  by (simp add: needs_recovery_def EXT4_FEATURE_INCOMPAT_RECOVER_def)

lemma incompat_after:
  assumes "length sb = 1024"
  shows "incompat_features (recover_sb on sb) =
    (if on then incompat_features sb OR EXT4_FEATURE_INCOMPAT_RECOVER
     else incompat_features sb AND NOT EXT4_FEATURE_INCOMPAT_RECOVER)"
  using assms by (simp add: incompat_features_def recover_sb_def set_needs_recovery_def sb_get_def sb_put_def)

lemma needs_recovery_after [simp]: "length sb = 1024 \<Longrightarrow> needs_recovery (recover_sb on sb) = on"
  unfolding needs_recovery_iff incompat_after EXT4_FEATURE_INCOMPAT_RECOVER_def
  by (simp add: bit_simps bit_numeral_rec)

lemma recover_sb_keeps:
  assumes "length sb = 1024" and "a + n \<le> 96 \<or> 100 \<le> a" and "a + n \<le> 1020"
  shows "slice (recover_sb on sb) a n = slice sb a n"
  using assms by (auto simp: recover_sb_def set_needs_recovery_def sb_put_def slice_le_put_other)

lemma recover_sb_last [simp]:
  assumes "length sb = 1024"
  shows "recover_sb False (recover_sb on sb) = recover_sb False sb"
proof -
  let ?f = "offset_of superblock_layout ''features_incompatible''"
  have put2: "le_put 96 4 (v :: u32) (le_put 1020 4 (c :: u32) (le_put 96 4 (w :: u32) sb)) =
      le_put 1020 4 c (le_put 96 4 v sb)" for v c w
    using assms put_commute [of 96 "le_bytes 4 v" 1020 "le_bytes 4 c" "le_put 96 4 w sb"]
    by (simp add: le_put_def put_put_same length_put)
  have "incompat_features (recover_sb on sb) AND NOT EXT4_FEATURE_INCOMPAT_RECOVER =
      incompat_features sb AND NOT EXT4_FEATURE_INCOMPAT_RECOVER"
    unfolding incompat_after [OF assms]
    by (rule bit_word_eqI) (auto simp: bit_simps)
  then have s: "set_needs_recovery False (recover_sb on sb) =
      le_put 1020 4 (crc_ref EXT4_CRC32_INIT (slice (set_needs_recovery on sb) 0 1020)) (set_needs_recovery False sb)"
    by (simp add: set_needs_recovery_def recover_sb_def [of on] sb_put_def put2)
  have "slice (set_needs_recovery False (recover_sb on sb)) 0 1020 = slice (set_needs_recovery False sb) 0 1020"
    unfolding s using assms by (intro slice_le_put_other) simp_all
  then show ?thesis
    using assms unfolding recover_sb_def [of False] s
    by (simp add: sb_put_def le_put_def put_put_same length_put)
qed
section \<open>Properties\<close>

lemma read_super_block_closed:
  "closed s \<Longrightarrow> read_super_block s = (Ok (image_read (jd_image s) 1024 1024), s)"
  by (simp add: read_super_block_def SUPERBLOCK_OFFSET_def jd_read_closed)

definition update_live_sb :: "bool \<Rightarrow> (jdev, superblock) io" where
  "update_live_sb on = bindS read_super_block (\<lambda>sb. sync_to_disk_with_csum (set_needs_recovery on sb))"

lemma update_live_sb_ok:
  assumes "closed s"
  shows "update_live_sb on s =
    (let sb = recover_sb on (image_read (jd_image s) 1024 1024) in (Ok sb, jd_put 1024 sb s))"
  using assms
  by (simp add: update_live_sb_def bindS_def read_super_block_closed sync_to_disk_with_csum_def
      with_csum_ok jd_write_closed SUPERBLOCK_OFFSET_def Let_def)

text \<open>The two ways the code updates the recovery flag agree: patching the block of the image
  that holds the superblock (at offset \<open>1024 mod bs\<close> of block \<open>1024 div bs\<close>) and writing it back
  leaves the same image as reading the superblock, changing the flag and syncing it with a fresh
  checksum; and the flag then reads as it was set.\<close>

theorem patch_is_live_update:
  assumes "closed s" and "1024 mod bs + 1024 \<le> bs"
  shows "\<exists>b sb t. patch_recover_in_block (image_read (jd_image s) (1024 div bs * bs) bs) (1024 mod bs) on = Ok b
    \<and> update_live_sb on s = (Ok sb, t)
    \<and> jd_image t = image_write (jd_image s) (1024 div bs * bs) b \<and> needs_recovery sb = on"
proof -
  let ?off = "1024 div bs * bs" and ?o = "1024 mod bs"
  have pos: "?off + ?o = 1024" by simp
  let ?blk = "image_read (jd_image s) ?off bs"
  let ?sb = "recover_sb on (image_read (jd_image s) 1024 1024)"
  have "slice ?blk ?o 1024 = image_read (jd_image s) 1024 1024"
    using slice_image_read [of ?o 1024 bs "jd_image s" ?off] assms(2) pos by simp
  then have patch: "patch_recover_in_block ?blk ?o on = Ok (put ?blk ?o ?sb)"
    using patch_recover_ok [of ?o ?blk on] assms(2) by simp
  have "image_write (jd_image s) ?off (put ?blk ?o ?sb) = image_write (jd_image s) 1024 ?sb"
    using image_write_put [of ?o ?sb bs "jd_image s" ?off] assms(2) pos by simp
  then show ?thesis using patch update_live_sb_ok [OF assms(1), of on]
    by (auto simp: Let_def)
qed

theorem patch_is_live_update_witness:
  "\<exists>s b sb t. patch_recover_in_block (image_read (jd_image s) 0 4096) 1024 True = Ok b
    \<and> update_live_sb True s = (Ok sb, t) \<and> jd_image t = image_write (jd_image s) 0 b \<and> needs_recovery sb"
  using patch_is_live_update [of "JournalDevice_new \<lparr> dk_image = (\<lambda>_. 0), dk_events = [] \<rparr> 4096" 4096 True]
  by (simp add: closed_def JournalDevice_new_def) blast

text \<open>The free block counter is 64 bits wide, split over two fields: setting it and reading it
  back is the identity for every value, and no other byte of the superblock changes.\<close>

theorem free_blocks_roundtrip:
  assumes "length sb = 1024"
  shows "free_blocks_count (set_free_blocks_count n sb) = n
    \<and> length (set_free_blocks_count n sb) = 1024
    \<and> (\<forall>a m. (a + m \<le> 12 \<or> 16 \<le> a) \<and> (a + m \<le> 344 \<or> 348 \<le> a) \<longrightarrow>
         slice (set_free_blocks_count n sb) a m = slice sb a m)"
  using assms halves_join [of n]
  by (auto simp: free_blocks_count_def set_free_blocks_count_def sb_get_def sb_put_def slice_le_put_other)

theorem free_blocks_roundtrip_witness:
  "free_blocks_count (set_free_blocks_count 0x123456789AB (replicate 1024 0)) = 0x123456789AB"
  using free_blocks_roundtrip [of "replicate 1024 0" "0x123456789AB"] by simp

lemma block_group_count_ceil:
  assumes "0 < unat (blocks_per_group sb)"
    and "unat (blocks_count sb) \<le> unat (blocks_per_group sb) * (2 ^ 32 - 1)"
  shows "\<exists>g. block_group_count sb = Ok g
    \<and> unat (blocks_count sb) \<le> unat g * unat (blocks_per_group sb)
    \<and> unat g * unat (blocks_per_group sb) < unat (blocks_count sb) + unat (blocks_per_group sb)"
proof -
  obtain n b where n: "n = unat (blocks_count sb)" and b: "b = unat (blocks_per_group sb)" by simp
  let ?w = "ucast (blocks_per_group sb) :: u64"
  have w: "unat ?w = b" using unat_bound [of "blocks_per_group sb"]
    by (simp add: unsigned_ucast_eq take_bit_eq_mod b)
  then have nz: "?w \<noteq> 0" using assms(1) b by auto
  let ?c = "blocks_count sb div ?w"
  obtain q r where qr: "q = n div b" "r = n mod b" by simp
  have nb: "n = b * q + r" "r < b" using assms(1) b by (simp_all add: qr)
  have c: "unat ?c = q" by (simp add: unat_div w n qr)
  have m: "(blocks_count sb mod ?w = 0) = (r = 0)"
    by (metis n qr(2) unat_mod unsigned_0 unsigned_word_eqI w)
  have "b * q + r \<le> b * (2 ^ 32 - 1)" using assms(2) nb n b by simp
  then have q: "q + (if r = 0 then 0 else 1) \<le> 2 ^ 32 - 1"
  proof (cases "r = 0")
    case True
    then show ?thesis using \<open>b * q + r \<le> b * (2 ^ 32 - 1)\<close> assms(1) b by simp
  next
    case False
    then have "b * q < b * (2 ^ 32 - 1)" using \<open>b * q + r \<le> b * (2 ^ 32 - 1)\<close> by linarith
    then show ?thesis using False by simp
  qed
  let ?g = "ucast (if blocks_count sb mod ?w \<noteq> 0 then ?c + 1 else ?c) :: u32"
  have g: "unat ?g = q + (if r = 0 then 0 else 1)"
    using q by (auto simp: m c unsigned_ucast_eq take_bit_eq_mod unat_add_less)
  have "block_group_count sb = Ok ?g" using nz by (simp add: block_group_count_def Let_def)
  moreover have "n \<le> unat ?g * b \<and> unat ?g * b < n + b"
    unfolding g using nb by (auto simp: algebra_simps)
  ultimately show ?thesis unfolding n b by blast
qed

text \<open>The number of block groups is the ceiling of the block count over the group size: the
  groups cover all blocks, and the last one is not empty.\<close>

theorem block_group_count_correct:
  assumes "0 < unat (blocks_per_group sb)"
    and "unat (blocks_count sb) \<le> unat (blocks_per_group sb) * (2 ^ 32 - 1)"
  shows "\<exists>g. block_group_count sb = Ok g
    \<and> unat (blocks_count sb) \<le> unat g * unat (blocks_per_group sb)
    \<and> unat g * unat (blocks_per_group sb) < unat (blocks_count sb) + unat (blocks_per_group sb)"
  using assms by (rule block_group_count_ceil)

definition sample_sb :: superblock where
  "sample_sb = sb_put 4 ''inodes_per_group'' (16 :: u32) (sb_put 4 ''inodes_count'' (40 :: u32)
     (sb_put 4 ''blocks_per_group'' (8192 :: u32) (sb_put 4 ''blocks_count_lo'' (20000 :: u32)
     (replicate 1024 0))))"

lemma sample_sb_fields:
  "unat (blocks_per_group sample_sb) = 8192" "unat (blocks_count sample_sb) = 20000"
  "inodes_per_group sample_sb = 16" "total_inodes sample_sb = 40"
proof -
  have z: "le_get a 4 (replicate 1024 0) = (0 :: u32)" if "a + 4 \<le> 1024" for a
    using that by (simp add: le_get_def slice_replicate) (simp add: le_word_def numeral_eq_Suc)
  show "unat (blocks_per_group sample_sb) = 8192" "unat (blocks_count sample_sb) = 20000"
    "inodes_per_group sample_sb = 16" "total_inodes sample_sb = 40"
    by (simp_all add: sample_sb_def sb_put_def sb_get_def blocks_per_group_def blocks_count_def
        inodes_per_group_def total_inodes_def z)
qed

theorem block_group_count_correct_witness:
  "\<exists>g. block_group_count sample_sb = Ok g \<and> 20000 \<le> unat g * 8192 \<and> unat g * 8192 < 20000 + 8192"
  using block_group_count_correct [of sample_sb] by (simp add: sample_sb_fields)

text \<open>The inodes of the groups add up: for a geometry in which the inode count lies in the last
  group, the counts of all groups sum to the total, and no group has more than
  \<open>inodes_per_group\<close>.\<close>

theorem inodes_in_groups_add_up:
  assumes "block_group_count sb = Ok g" and "0 < unat g"
    and "(unat g - 1) * unat (inodes_per_group sb) \<le> unat (total_inodes sb)"
    and "unat (total_inodes sb) \<le> unat g * unat (inodes_per_group sb)"
  shows "\<exists>cs. map (\<lambda>i. get_inodes_in_group_cnt sb (of_nat i)) [0..<unat g] = map Ok cs
    \<and> sum_list (map unat cs) = unat (total_inodes sb)
    \<and> (\<forall>c \<in> set cs. unat c \<le> unat (inodes_per_group sb))"
proof -
  obtain n where n: "unat g = Suc n" using assms(2) gr0_conv_Suc by auto
  let ?ipg = "inodes_per_group sb" and ?t = "total_inodes sb"
  let ?last = "saturating_sub ?t (saturating_sub g 1 * ?ipg)"
  have sn: "unat (of_nat (Suc i) :: u32) = Suc i" if "i \<le> n" for i
    using that n unat_bound [of g] by (intro unat_of_nat_small) simp
  have full: "get_inodes_in_group_cnt sb (of_nat i) = Ok ?ipg" if "i < n" for i
  proof -
    have "unat (of_nat i + 1 :: u32) = Suc i" using sn [of i] that by (simp add: add.commute)
    then show ?thesis using assms(1) that n
      by (simp add: get_inodes_in_group_cnt_def word_less_nat_alt)
  qed
  have "unat (of_nat n + 1 :: u32) = Suc n" using sn [of n] by (simp add: add.commute)
  then have last: "get_inodes_in_group_cnt sb (of_nat n) = Ok ?last"
    using assms(1) n by (simp add: get_inodes_in_group_cnt_def word_less_nat_alt)
  have "unat (saturating_sub g 1) = n" by (simp add: unat_saturating_sub n)
  moreover have "n * unat ?ipg < 2 ^ 32" using assms(3) n unat_bound [of ?t] by simp
  ultimately have "unat (saturating_sub g 1 * ?ipg) = n * unat ?ipg"
    by (simp add: unat_word_ariths)
  then have l: "unat ?last = unat ?t - n * unat ?ipg" by (simp add: unat_saturating_sub)
  let ?cs = "replicate n ?ipg @ [?last]"
  have "map (\<lambda>i. get_inodes_in_group_cnt sb (of_nat i)) [0..<n] = map (\<lambda>i. Ok ?ipg) [0..<n]"
    using full by simp
  also have "\<dots> = map Ok (replicate n ?ipg)" by (simp add: map_replicate_trivial map_replicate_const)
  finally have "map (\<lambda>i. get_inodes_in_group_cnt sb (of_nat i)) [0..<unat g] = map Ok ?cs"
    using last n by simp
  moreover have "sum_list (map unat ?cs) = unat ?t"
    using l assms(3) n by (simp add: sum_list_replicate)
  moreover have "\<forall>c \<in> set ?cs. unat c \<le> unat ?ipg" using l assms(4) n by auto
  ultimately show ?thesis by blast
qed

theorem inodes_in_groups_add_up_witness:
  "\<exists>cs. map (\<lambda>i. get_inodes_in_group_cnt sample_sb (of_nat i)) [0..<3] = map Ok cs
    \<and> sum_list (map unat cs) = 40"
proof -
  obtain g where g: "block_group_count sample_sb = Ok g" "20000 \<le> unat g * 8192" "unat g * 8192 < 28192"
    using block_group_count_ceil [of sample_sb] by (auto simp: sample_sb_fields)
  then have "unat g = 3" by simp
  then show ?thesis using inodes_in_groups_add_up [OF g(1)] by (auto simp: sample_sb_fields)
qed

end
