(* ===== verification/Inode.thy ===== *)
theory Inode
  imports ExtentNode SuperBlock
begin

text \<open>
  The inode (\<open>src/src/ext4_defs/inode.rs\<close>): the struct as a record, its 156-byte on-disk image, the
  split 64-bit fields, the mode bits, the checksum over the struct and the on-disk tail, and the
  permission check. \<open>i_block\<close>, an array of fifteen \<open>u32\<close> that the code only reads and writes through
  casts, is its 60 bytes. Plain getters and setters are the record's selectors and updates.
\<close>

section \<open>The struct\<close>

record linux2 =
  l_i_blocks_high :: u16
  l_i_file_acl_high :: u16
  l_i_uid_high :: u16
  l_i_gid_high :: u16
  l_i_checksum_lo :: u16
  l_i_reserved :: u16

record inode =
  i_mode :: u16
  i_uid :: u16
  i_size_lo :: u32
  i_atime :: u32
  i_ctime :: u32
  i_mtime :: u32
  i_dtime :: u32
  i_gid :: u16
  i_links_count :: u16
  i_blocks :: u32
  i_flags :: u32
  i_osd1 :: u32
  i_block :: bytes
  i_generation :: u32
  i_file_acl :: u32
  i_size_hi :: u32
  i_faddr :: u32
  i_osd2 :: linux2
  i_extra_isize :: u16
  i_checksum_hi :: u16
  i_ctime_extra :: u32
  i_mtime_extra :: u32
  i_atime_extra :: u32
  i_crtime :: u32
  i_crtime_extra :: u32
  i_version_hi :: u32

record inode_ref =
  ir_inode_num :: u32
  ir_inode :: inode

definition osd2_bytes :: "linux2 \<Rightarrow> bytes" where
  "osd2_bytes o2 = le_bytes 2 (l_i_blocks_high o2) @ le_bytes 2 (l_i_file_acl_high o2)
     @ le_bytes 2 (l_i_uid_high o2) @ le_bytes 2 (l_i_gid_high o2)
     @ le_bytes 2 (l_i_checksum_lo o2) @ le_bytes 2 (l_i_reserved o2)"

definition osd2_of_bytes :: "bytes \<Rightarrow> linux2" where
  "osd2_of_bytes b =
     \<lparr> l_i_blocks_high = le_get 0 2 b, l_i_file_acl_high = le_get 2 2 b, l_i_uid_high = le_get 4 2 b,
       l_i_gid_high = le_get 6 2 b, l_i_checksum_lo = le_get 8 2 b, l_i_reserved = le_get 10 2 b \<rparr>"

definition inode_bytes :: "inode \<Rightarrow> bytes" where
  "inode_bytes i =
     le_bytes 2 (i_mode i) @ le_bytes 2 (i_uid i) @ le_bytes 4 (i_size_lo i) @ le_bytes 4 (i_atime i)
     @ le_bytes 4 (i_ctime i) @ le_bytes 4 (i_mtime i) @ le_bytes 4 (i_dtime i) @ le_bytes 2 (i_gid i)
     @ le_bytes 2 (i_links_count i) @ le_bytes 4 (i_blocks i) @ le_bytes 4 (i_flags i)
     @ le_bytes 4 (i_osd1 i) @ i_block i @ le_bytes 4 (i_generation i) @ le_bytes 4 (i_file_acl i)
     @ le_bytes 4 (i_size_hi i) @ le_bytes 4 (i_faddr i) @ osd2_bytes (i_osd2 i)
     @ le_bytes 2 (i_extra_isize i) @ le_bytes 2 (i_checksum_hi i) @ le_bytes 4 (i_ctime_extra i)
     @ le_bytes 4 (i_mtime_extra i) @ le_bytes 4 (i_atime_extra i) @ le_bytes 4 (i_crtime i)
     @ le_bytes 4 (i_crtime_extra i) @ le_bytes 4 (i_version_hi i)"

definition inode_of_bytes :: "bytes \<Rightarrow> inode" where
  "inode_of_bytes b =
     \<lparr> i_mode = le_get 0 2 b, i_uid = le_get 2 2 b, i_size_lo = le_get 4 4 b, i_atime = le_get 8 4 b,
       i_ctime = le_get 12 4 b, i_mtime = le_get 16 4 b, i_dtime = le_get 20 4 b, i_gid = le_get 24 2 b,
       i_links_count = le_get 26 2 b, i_blocks = le_get 28 4 b, i_flags = le_get 32 4 b,
       i_osd1 = le_get 36 4 b, i_block = slice b 40 60, i_generation = le_get 100 4 b,
       i_file_acl = le_get 104 4 b, i_size_hi = le_get 108 4 b, i_faddr = le_get 112 4 b,
       i_osd2 = osd2_of_bytes (slice b 116 12), i_extra_isize = le_get 128 2 b,
       i_checksum_hi = le_get 130 2 b, i_ctime_extra = le_get 132 4 b, i_mtime_extra = le_get 136 4 b,
       i_atime_extra = le_get 140 4 b, i_crtime = le_get 144 4 b, i_crtime_extra = le_get 148 4 b,
       i_version_hi = le_get 152 4 b \<rparr>"

lemma length_osd2_bytes [simp]: "length (osd2_bytes o2) = 12"
  by (simp add: osd2_bytes_def)

lemma osd2_roundtrip [simp]: "osd2_of_bytes (osd2_bytes o2) = o2"
  by (simp add: osd2_of_bytes_def osd2_bytes_def le_get_def buf_simps endian_simps)

lemma length_inode_bytes [simp]: "length (i_block i) = 60 \<Longrightarrow> length (inode_bytes i) = 156"
  by (simp add: inode_bytes_def)

lemma inode_roundtrip: "length (i_block i) = 60 \<Longrightarrow> inode_of_bytes (inode_bytes i @ rest) = i"
  by (simp add: inode_of_bytes_def inode_bytes_def le_get_def buf_simps endian_simps)

section \<open>Split fields and mode bits\<close>

definition inode_size :: "inode \<Rightarrow> u64" where
  "inode_size i = ucast (i_size_lo i) OR push_bit 32 (ucast (i_size_hi i))"

definition set_size :: "u64 \<Rightarrow> inode \<Rightarrow> inode" where
  "set_size sz i = i\<lparr> i_size_lo := ucast (sz AND 0xffffffff), i_size_hi := ucast (drop_bit 32 sz) \<rparr>"

definition inode_blocks_count :: "inode \<Rightarrow> u64" where
  "inode_blocks_count i =
     (let blocks = ucast (i_blocks i) in
      if l_i_blocks_high (i_osd2 i) \<noteq> 0
      then blocks OR push_bit 32 (ucast (l_i_blocks_high (i_osd2 i))) else blocks)"

definition set_inode_blocks_count :: "u64 \<Rightarrow> inode \<Rightarrow> inode" where
  "set_inode_blocks_count blocks i =
     i\<lparr> i_blocks := ucast (blocks AND 0xFFFFFFFF),
        i_osd2 := (i_osd2 i)\<lparr> l_i_blocks_high := ucast (drop_bit 32 blocks) \<rparr> \<rparr>"

text \<open>\<open>Ext4Superblock::inode_size_file\<close> of \<open>super_block.rs\<close>.\<close>

definition EXT4_INODE_MODE_TYPE_MASK :: u16 where "EXT4_INODE_MODE_TYPE_MASK = 0xF000"
definition EXT4_INODE_MODE_PERM_MASK :: u16 where "EXT4_INODE_MODE_PERM_MASK = 0x0FFF"
definition S_IFDIR :: u16 where "S_IFDIR = 0x4000"
definition S_IFREG :: u16 where "S_IFREG = 0x8000"
definition S_IFLNK :: u16 where "S_IFLNK = 0xA000"

lemmas mode_consts = EXT4_INODE_MODE_TYPE_MASK_def EXT4_INODE_MODE_PERM_MASK_def S_IFDIR_def
  S_IFREG_def S_IFLNK_def

definition inode_size_file :: "superblock \<Rightarrow> inode \<Rightarrow> u64" where
  "inode_size_file sb i =
     (let v = ucast (i_size_lo i) in
      if 0 < (sb_get 4 ''rev_level'' sb :: u32)
         \<and> i_mode i AND EXT4_INODE_MODE_TYPE_MASK = S_IFREG
      then v OR push_bit 32 (ucast (i_size_hi i)) else v)"

text \<open>\<open>set_device\<close>: words 0 and 1 of \<open>i_block\<close>.\<close>

definition set_device :: "u32 \<Rightarrow> inode \<Rightarrow> inode" where
  "set_device rdev i =
     (let major = drop_bit 8 rdev AND 0xfff;
          minor = (rdev AND 0xff) OR (drop_bit 12 rdev AND 0xfff00)
      in if major < 256 \<and> minor < 256
         then i\<lparr> i_block := le_put 4 4 (0 :: u32) (le_put 0 4 rdev (i_block i)) \<rparr>
         else i\<lparr> i_block := le_put 4 4 rdev (le_put 0 4 (0 :: u32) (i_block i)) \<rparr>)"

text \<open>The flags of \<open>InodeFileType\<close> cover all four type bits, those of \<open>InodePerm\<close> only
  \<open>0x0DC0\<close>; \<open>from_bits_truncate\<close> drops the rest.\<close>

definition file_type :: "inode \<Rightarrow> u16" where
  "file_type i = i_mode i AND EXT4_INODE_MODE_TYPE_MASK AND 0xF000"

definition file_perm :: "inode \<Rightarrow> u16" where
  "file_perm i = i_mode i AND EXT4_INODE_MODE_PERM_MASK AND 0x0DC0"

definition is_dir :: "inode \<Rightarrow> bool" where "is_dir i \<longleftrightarrow> file_type i = S_IFDIR"
definition is_file :: "inode \<Rightarrow> bool" where "is_file i \<longleftrightarrow> file_type i = S_IFREG"
definition is_link :: "inode \<Rightarrow> bool" where "is_link i \<longleftrightarrow> file_type i = S_IFLNK"
definition is_index :: "inode \<Rightarrow> bool" where "is_index i \<longleftrightarrow> i_flags i AND 0x1000 \<noteq> 0"

definition can_read :: "inode \<Rightarrow> bool" where "can_read i \<longleftrightarrow> file_perm i AND 0x0100 = 0x0100"
definition can_write :: "inode \<Rightarrow> bool" where "can_write i \<longleftrightarrow> file_perm i AND 0x0080 = 0x0080"
definition can_exec :: "inode \<Rightarrow> bool" where "can_exec i \<longleftrightarrow> file_perm i AND 0x0040 = 0x0040"

definition set_file_type :: "u16 \<Rightarrow> inode \<Rightarrow> inode" where
  "set_file_type kind i = i\<lparr> i_mode := (i_mode i AND NOT EXT4_INODE_MODE_TYPE_MASK) OR kind \<rparr>"

definition set_file_perm :: "u16 \<Rightarrow> inode \<Rightarrow> inode" where
  "set_file_perm perm i = i\<lparr> i_mode := (i_mode i AND NOT EXT4_INODE_MODE_PERM_MASK) OR perm \<rparr>"

definition check_access :: "inode \<Rightarrow> u16 \<Rightarrow> u16 \<Rightarrow> u16 \<Rightarrow> u16 \<Rightarrow> bool" where
  "check_access i uid gid access_mode umask =
     (let owner_perm = drop_bit 6 (i_mode i AND 0x1C0);
          group_perm = drop_bit 3 (i_mode i AND 0x38);
          other_perm = i_mode i AND 7;
          perm = (if i_uid i = uid then owner_perm
                  else if i_gid i = gid then group_perm else other_perm);
          adjusted_perm = perm AND NOT (drop_bit 6 (umask AND 0x1C0));
          ok = (\<lambda>b. access_mode AND b = 0 \<or> adjusted_perm AND b = b)
      in ok 4 \<and> ok 2 \<and> ok 1)"

section \<open>The extent root\<close>

definition root_extent_header :: "inode \<Rightarrow> extent_header" where
  "root_extent_header i = header_of_bytes (slice (i_block i) 0 12)"

definition root_header_depth :: "inode \<Rightarrow> u16" where
  "root_header_depth i = eh_depth (root_extent_header i)"

definition extent_tree_init :: "inode \<Rightarrow> inode" where
  "extent_tree_init i =
     i\<lparr> i_block := put (i_block i) 0 (header_bytes
        \<lparr> eh_magic = EXT4_EXTENT_MAGIC, eh_entries_count = 0, eh_max_entries_count = 4, eh_depth = 0,
          eh_generation = 0 \<rparr>) \<rparr>"

text \<open>Entry \<open>pos\<close> of the root, through a pointer past the header: outside the array it is an
  out-of-bounds access.\<close>

definition root_extent_at :: "inode \<Rightarrow> nat \<Rightarrow> extent res" where
  "root_extent_at i pos =
     (if 12 + pos * 12 + 12 \<le> length (i_block i)
      then Ok (extent_of_bytes (slice (i_block i) (12 + pos * 12) 12)) else Undef)"

definition root_index_at :: "inode \<Rightarrow> nat \<Rightarrow> extent_index res" where
  "root_index_at i pos =
     (if 12 + pos * 12 + 12 \<le> length (i_block i)
      then Ok (index_of_bytes (slice (i_block i) (12 + pos * 12) 12)) else Undef)"

section \<open>The checksum\<close>

definition set_inode_checksum_value :: "superblock \<Rightarrow> u32 \<Rightarrow> inode \<Rightarrow> inode" where
  "set_inode_checksum_value sb csum i =
     (let i = i\<lparr> i_osd2 := (i_osd2 i)\<lparr> l_i_checksum_lo := ucast (csum AND 0xffff) \<rparr> \<rparr>
      in if 128 < sb_inode_size sb then i\<lparr> i_checksum_hi := ucast (drop_bit 16 csum) \<rparr> else i)"

definition zero_checksum :: "inode \<Rightarrow> inode" where
  "zero_checksum i = i\<lparr> i_osd2 := (i_osd2 i)\<lparr> l_i_checksum_lo := 0 \<rparr>, i_checksum_hi := 0 \<rparr>"

text \<open>The 256-byte buffer the checksum is taken over: the struct, the tail (cut to what fits), zeros.\<close>

definition checksum_buffer :: "inode \<Rightarrow> bytes \<Rightarrow> bytes" where
  "checksum_buffer i tail =
     put (put (replicate 0x100 0) 0 (inode_bytes i)) 0x9c (take (min (length tail) (0x100 - 0x9c)) tail)"

definition get_inode_checksum_with_tail ::
  "u32 \<Rightarrow> superblock \<Rightarrow> bytes \<Rightarrow> inode \<Rightarrow> (u32 \<times> inode) res" where
  "get_inode_checksum_with_tail inode_id sb tail i =
     (let ino_gen = i_generation i; i = zero_checksum i in
      bind (ext4_crc32c EXT4_CRC32_INIT (slice sb (offset_of superblock_layout ''uuid'') 16) 16) (\<lambda>c.
      bind (ext4_crc32c c (le_bytes 4 inode_id) 4) (\<lambda>c.
      bind (ext4_crc32c c (le_bytes 4 ino_gen) 4) (\<lambda>c.
      bind (ext4_crc32c c (checksum_buffer i tail) (ucast (sb_inode_size sb))) (\<lambda>c.
      Ok (if sb_inode_size sb = 128 then c AND 0xFFFF else c, set_inode_checksum_value sb c i))))))"

definition set_inode_checksum_with_tail :: "superblock \<Rightarrow> u32 \<Rightarrow> bytes \<Rightarrow> inode \<Rightarrow> inode res" where
  "set_inode_checksum_with_tail sb inode_id tail i =
     bind (get_inode_checksum_with_tail inode_id sb tail i) (\<lambda>(csum, i).
       let i = i\<lparr> i_osd2 := (i_osd2 i)\<lparr> l_i_checksum_lo := ucast (drop_bit 16 (push_bit 16 csum)) \<rparr> \<rparr>
       in Ok (if 128 < sb_inode_size sb then i\<lparr> i_checksum_hi := ucast (drop_bit 16 csum) \<rparr> else i))"

definition get_checksum :: "superblock \<Rightarrow> inode \<Rightarrow> u32" where
  "get_checksum sb i =
     (let v = ucast (l_i_checksum_lo (i_osd2 i)) in
      if 128 < sb_inode_size sb then v OR push_bit 16 (ucast (i_checksum_hi i)) else v)"

definition sync_inode_to_disk :: "inode \<Rightarrow> nat \<Rightarrow> (jdev, unit) io" where
  "sync_inode_to_disk i inode_pos = jd_write inode_pos (inode_bytes i)"

section \<open>Properties\<close>

lemma low48:
  fixes n :: u64
  shows "ucast (ucast (n AND 0xFFFFFFFF) :: u32) OR push_bit 32 (ucast (ucast (drop_bit 32 n) :: u16)) =
    take_bit 48 n"
proof -
  have m: "(0xFFFFFFFF :: u64) = mask 32" by (simp add: mask_eq_exp_minus_1)
  show ?thesis unfolding m by (rule bit_word_eqI) (auto simp: bit_simps bit_mask_iff)
qed

text \<open>The split fields of an inode: the size is 64 bits wide and reads back as set; the block
  count is 48 bits wide, and reads back reduced to 48 bits.\<close>

theorem inode_split_fields:
  "inode_size (set_size n i) = n \<and> inode_blocks_count (set_inode_blocks_count b i) = take_bit 48 b
   \<and> inode_size (set_inode_blocks_count b i) = inode_size i
   \<and> inode_blocks_count (set_size n i) = inode_blocks_count i"
proof -
  have "inode_blocks_count (set_inode_blocks_count b i) = take_bit 48 b"
    using low48 [of b] by (auto simp: inode_blocks_count_def set_inode_blocks_count_def Let_def)
  then show ?thesis using halves_join [of n]
    by (simp add: inode_size_def set_size_def set_inode_blocks_count_def inode_blocks_count_def Let_def)
qed

lemma bits_within:
  fixes v m :: u16
  assumes "v AND NOT m = 0" and "bit v k"
  shows "bit m k"
proof (rule ccontr)
  assume "\<not> bit m k"
  then have "bit (v AND NOT m) k"
    using assms(2) bit_imp_le_length [OF assms(2)] by (simp add: bit_and_iff bit_not_iff)
  then show False using assms(1) by simp
qed

lemma replace_masked:
  fixes m t p v :: u16
  assumes "t AND p = 0" and "v AND NOT t = 0"
  shows "((m AND NOT t) OR v) AND t = v" and "((m AND NOT t) OR v) AND p = m AND p"
proof -
  have tp: "\<not> (bit t k \<and> bit p k)" for k
    using assms(1) by (metis bit_0_eq bit_and_iff bot_apply bot_bool_def)
  show "((m AND NOT t) OR v) AND t = v" "((m AND NOT t) OR v) AND p = m AND p"
    using tp bits_within [OF assms(2)] by (auto intro!: bit_word_eqI simp: bit_and_iff bit_or_iff bit_not_iff)
qed

text \<open>Setting the file type replaces exactly the type bits and setting the permissions exactly
  the others, so neither can corrupt what the other holds.\<close>

theorem mode_fields_independent:
  assumes "kind AND NOT EXT4_INODE_MODE_TYPE_MASK = 0" and "perm AND NOT EXT4_INODE_MODE_PERM_MASK = 0"
  shows "file_type (set_file_type kind i) = kind \<and> file_perm (set_file_type kind i) = file_perm i
    \<and> file_type (set_file_perm perm i) = file_type i \<and> file_perm (set_file_perm perm i) = perm AND 0x0DC0"
proof -
  have disjoint: "EXT4_INODE_MODE_TYPE_MASK AND EXT4_INODE_MODE_PERM_MASK = 0"
    "EXT4_INODE_MODE_PERM_MASK AND EXT4_INODE_MODE_TYPE_MASK = 0"
    by (simp_all add: mode_consts)
  have type: "x AND EXT4_INODE_MODE_TYPE_MASK AND 0xF000 = x AND EXT4_INODE_MODE_TYPE_MASK" for x
    by (simp add: mode_consts and.assoc)
  show ?thesis
    unfolding file_type_def file_perm_def set_file_type_def set_file_perm_def type
    using replace_masked [OF disjoint(1) assms(1)] replace_masked [OF disjoint(2) assms(2)]
    by (simp flip: and.assoc)
qed

theorem mode_fields_independent_witness:
  "file_type (set_file_type 0x4000 (inode_of_bytes (replicate 156 0xFF))) = 0x4000
   \<and> file_perm (set_file_perm 0x1C0 (inode_of_bytes (replicate 156 0xFF))) = 0x1C0"
  using mode_fields_independent [where kind = "0x4000" and perm = "0x1C0"
      and i = "inode_of_bytes (replicate 156 0xFF)", unfolded mode_consts]
  by simp

lemma csum_halves:
  fixes c :: u32
  shows "(c AND 0xffff) OR push_bit 16 (ucast (ucast (drop_bit 16 c) :: u16)) = c"
    and "ucast (drop_bit 16 (push_bit 16 c)) = (ucast (c AND 0xffff) :: u16)"
    and "ucast (ucast (c AND 0xffff) :: u16) = c AND 0xffff"
    and "ucast (drop_bit 16 (push_bit 16 (c AND 0xffff))) = (ucast (c AND 0xffff) :: u16)"
proof -
  have m: "(0xffff :: u32) = mask 16" by (simp add: mask_eq_exp_minus_1)
  show "(c AND 0xffff) OR push_bit 16 (ucast (ucast (drop_bit 16 c) :: u16)) = c"
    "ucast (drop_bit 16 (push_bit 16 c)) = (ucast (c AND 0xffff) :: u16)"
    "ucast (ucast (c AND 0xffff) :: u16) = c AND 0xffff"
    "ucast (drop_bit 16 (push_bit 16 (c AND 0xffff))) = (ucast (c AND 0xffff) :: u16)"
    unfolding m by (rule bit_word_eqI; auto simp: bit_simps bit_mask_iff)+
qed

definition inode_crc :: "u32 \<Rightarrow> superblock \<Rightarrow> bytes \<Rightarrow> inode \<Rightarrow> u32" where
  "inode_crc inode_id sb tail i =
     crc_ref EXT4_CRC32_INIT (slice sb 104 16 @ le_bytes 4 inode_id @ le_bytes 4 (i_generation i)
       @ take (unat (sb_inode_size sb)) (checksum_buffer (zero_checksum i) tail))"

lemma length_checksum_buffer [simp]: "length (i_block i) = 60 \<Longrightarrow> length (checksum_buffer i tail) = 256"
  by (simp add: checksum_buffer_def length_put)

lemma get_inode_checksum_eq:
  assumes "length sb = 1024" and "length (i_block i) = 60"
  shows "get_inode_checksum_with_tail inode_id sb tail i =
    (if 256 < sb_inode_size sb then Panic
     else let c = inode_crc inode_id sb tail i in
       Ok (if sb_inode_size sb = 128 then c AND 0xFFFF else c, set_inode_checksum_value sb c (zero_checksum i)))"
proof -
  have "unat (ucast (sb_inode_size sb) :: u32) = unat (sb_inode_size sb)"
    using unat_bound [of "sb_inode_size sb"] by (simp add: unsigned_ucast_eq take_bit_eq_mod)
  moreover have "length (checksum_buffer (zero_checksum i) tail) = 256"
    using assms(2) by (intro length_checksum_buffer) (simp add: zero_checksum_def)
  ultimately show ?thesis using assms
    by (simp add: get_inode_checksum_with_tail_def ext4_crc32c_def crc32_def crc32_loop_ref Let_def
        crc_ref_append inode_crc_def word_less_nat_alt not_less)
qed

lemma set_inode_checksum_eq:
  assumes "length sb = 1024" and "length (i_block i) = 60" and "128 \<le> sb_inode_size sb"
  shows "set_inode_checksum_with_tail sb inode_id tail i =
    (if 256 < sb_inode_size sb then Panic
     else Ok (set_inode_checksum_value sb (inode_crc inode_id sb tail i) (zero_checksum i)))"
  using assms(3) unfolding set_inode_checksum_with_tail_def get_inode_checksum_eq [OF assms(1,2)]
  by (auto simp: Let_def set_inode_checksum_value_def csum_halves)

text \<open>Stamping the inode checksum is a fixpoint: the stored checksum is the one that recomputing
  over the stamped inode (with the same on-disk tail) gives, recomputing does not change the inode,
  and no field but the two checksum halves was touched. For an inode record larger than the 256-byte
  buffer of the code the computation panics.\<close>

theorem inode_checksum_stamp:
  assumes "length sb = 1024" and "length (i_block i) = 60" and "128 \<le> sb_inode_size sb"
  shows "if sb_inode_size sb \<le> 256
    then \<exists>i' c. set_inode_checksum_with_tail sb inode_id tail i = Ok i'
      \<and> get_inode_checksum_with_tail inode_id sb tail i' = Ok (c, i') \<and> get_checksum sb i' = c
      \<and> zero_checksum i' = zero_checksum i
    else set_inode_checksum_with_tail sb inode_id tail i = Panic"
proof (cases "sb_inode_size sb \<le> 256")
  case False
  then show ?thesis using assms by (simp add: set_inode_checksum_eq not_le)
next
  case True
  let ?c = "inode_crc inode_id sb tail i"
  let ?i = "set_inode_checksum_value sb ?c (zero_checksum i)"
  have set: "set_inode_checksum_with_tail sb inode_id tail i = Ok ?i"
    using assms True by (simp add: set_inode_checksum_eq not_less)
  have z: "zero_checksum ?i = zero_checksum i"
    by (simp add: set_inode_checksum_value_def zero_checksum_def Let_def)
  have same: "inode_crc inode_id sb tail j = ?c"
    if "zero_checksum j = zero_checksum i" "i_generation j = i_generation i" for j
    using that by (simp add: inode_crc_def)
  have i: "length (i_block ?i) = 60" "i_generation ?i = i_generation i"
    using assms(2) by (simp_all add: set_inode_checksum_value_def zero_checksum_def Let_def)
  then have get: "get_inode_checksum_with_tail inode_id sb tail ?i =
      Ok (if sb_inode_size sb = 128 then ?c AND 0xFFFF else ?c, ?i)"
    using True get_inode_checksum_eq [OF assms(1) i(1)] by (simp add: not_less same [OF z i(2)] z Let_def)
  have "get_checksum sb ?i = (if sb_inode_size sb = 128 then ?c AND 0xFFFF else ?c)"
    using assms(3) by (auto simp: get_checksum_def set_inode_checksum_value_def Let_def csum_halves)
  then show ?thesis using True set get z by simp
qed

definition inode_sb :: "u16 \<Rightarrow> superblock" where
  "inode_sb n = sb_put 2 ''inode_size'' n (replicate 1024 0)"

theorem inode_checksum_stamp_witness:
  "set_inode_checksum_with_tail (inode_sb 512) 12 [] (inode_of_bytes (replicate 156 0)) = Panic"
proof -
  have n: "sb_inode_size (inode_sb 512) = 512" "length (inode_sb 512) = 1024"
    by (simp_all add: inode_sb_def sb_inode_size_def sb_get_def sb_put_def)
  show ?thesis
    using inode_checksum_stamp [of "inode_sb 512" "inode_of_bytes (replicate 156 0)" 12 "[]"] n
    by (simp add: inode_of_bytes_def)
qed

lemma mode_triple:
  fixes m :: u16
  shows "bit (drop_bit 6 (m AND 0x1C0)) k \<longleftrightarrow> k < 3 \<and> bit m (6 + k)"
    and "bit (drop_bit 3 (m AND 0x38)) k \<longleftrightarrow> k < 3 \<and> bit m (3 + k)"
    and "bit (m AND 7) k \<longleftrightarrow> k < 3 \<and> bit m k"
proof -
  have m: "(0x1C0 :: u16) = push_bit 6 (mask 3)" "(0x38 :: u16) = push_bit 3 (mask 3)" "(7 :: u16) = mask 3"
    by (simp_all add: mask_eq_exp_minus_1)
  show "bit (drop_bit 6 (m AND 0x1C0)) k \<longleftrightarrow> k < 3 \<and> bit m (6 + k)"
    "bit (drop_bit 3 (m AND 0x38)) k \<longleftrightarrow> k < 3 \<and> bit m (3 + k)"
    "bit (m AND 7) k \<longleftrightarrow> k < 3 \<and> bit m k"
    unfolding m bit_drop_bit_eq comp_def bit_and_iff bit_push_bit_iff bit_mask_iff
    by (auto dest: bit_imp_le_length)
qed

lemma and_exp: "p AND 2 ^ n = (if bit p n then 2 ^ n else (0 :: 'a::len word))"
  by (rule bit_word_eqI) (auto simp: bit_and_iff bit_exp_iff)

definition access_class :: "inode \<Rightarrow> u16 \<Rightarrow> u16 \<Rightarrow> nat" where
  "access_class i uid gid = (if i_uid i = uid then 6 else if i_gid i = gid then 3 else 0)"

text \<open>With an empty umask, \<open>check_access\<close> grants a request exactly when each of the three
  permission bits it asks for is set in the triple of the first class that applies: owner, then
  group, then others.\<close>

theorem check_access_correct:
  "check_access i uid gid m 0 \<longleftrightarrow>
     (\<forall>k < 3. bit m k \<longrightarrow> bit (i_mode i) (access_class i uid gid + k))"
proof -
  have one: "(m AND 4 = 0 \<or> p AND 4 = 4) \<longleftrightarrow> (bit m 2 \<longrightarrow> bit p 2)"
    "(m AND 2 = 0 \<or> p AND 2 = 2) \<longleftrightarrow> (bit m 1 \<longrightarrow> bit p 1)"
    "(m AND 1 = 0 \<or> p AND 1 = 1) \<longleftrightarrow> (bit m 0 \<longrightarrow> bit p 0)" for p :: u16
    using and_exp [of m 2] and_exp [of m 1] and_exp [of m 0] and_exp [of p 2] and_exp [of p 1] and_exp [of p 0]
    by simp_all
  have all3: "(\<forall>k < 3. Q k) \<longleftrightarrow> Q 2 \<and> Q 1 \<and> Q (0 :: nat)" for Q
    by (auto simp: numeral_3_eq_3 less_Suc_eq numeral_2_eq_2)
  have adj: "x AND NOT (drop_bit 6 (0 AND 0x1C0)) = x" for x :: u16 by simp
  show ?thesis
    unfolding check_access_def Let_def adj one all3 access_class_def if_distrib [where f = "\<lambda>x. bit x _"]
      mode_triple
    by (simp add: numeral_2_eq_2)
qed

text \<open>Mode 0640: a member of the group may read but not write.\<close>

theorem check_access_correct_witness:
  "check_access ((inode_of_bytes (replicate 156 0))\<lparr> i_mode := 0x81A0, i_uid := 7, i_gid := 9 \<rparr>) 8 9 4 0
   \<and> \<not> check_access ((inode_of_bytes (replicate 156 0))\<lparr> i_mode := 0x81A0, i_uid := 7, i_gid := 9 \<rparr>) 8 9 6 0"
proof -
  have all3: "(\<forall>k < 3. Q k) \<longleftrightarrow> Q 2 \<and> Q 1 \<and> Q (0 :: nat)" for Q
    by (auto simp: numeral_3_eq_3 less_Suc_eq numeral_2_eq_2)
  show ?thesis unfolding check_access_correct all3
    by (simp add: access_class_def bit_numeral_rec)
qed

end
