(* ===== verification/ExtentTree.thy ===== *)
theory ExtentTree
  imports Inode
begin

text \<open>
  Lookup in the extent tree: \<open>find_extent\<close> of \<open>src/src/ext4_impls/extents.rs\<close> and the block mapping
  \<open>get_pblock_idx\<close> and \<open>get_pblock_state\<close> of \<open>src/src/ext4_impls/inode.rs\<close>. The descent reads one
  block per level from the device; the filesystem block size is the argument \<open>bs\<close>.

  The specification is the list of extents in the leaves. \<open>tree_of\<close> says that a node of some depth
  represents a list of extents, with the index keys separating the children, and the lookup is
  shown to find in a tree of any depth what a search of that list finds.
\<close>

section \<open>The code\<close>

record extent_path_node =
  pn_header :: extent_header
  pn_index :: "extent_index option"
  pn_extent :: "extent option"
  pn_position :: nat
  pn_pblock :: u64
  pn_pblock_of_node :: nat

record search_path =
  sp_depth :: u16
  sp_maxdepth :: u16
  sp_path :: "extent_path_node list"

definition SearchPath_new :: search_path where
  "SearchPath_new = \<lparr> sp_depth = 0, sp_maxdepth = 4, sp_path = [] \<rparr>"

definition push_path :: "extent_path_node \<Rightarrow> search_path \<Rightarrow> search_path" where
  "push_path n sp = sp\<lparr> sp_path := sp_path sp @ [n] \<rparr>"

text \<open>The loop over the index levels; \<open>depth\<close> counts down from the depth in the root header.\<close>

fun descend ::
  "nat \<Rightarrow> u32 \<Rightarrow> nat \<Rightarrow> extent_node \<Rightarrow> nat \<Rightarrow> search_path \<Rightarrow> (jdev, extent_node \<times> nat \<times> search_path) io" where
  "descend bs lblock 0 node pblock_of_node sp = ret (node, pblock_of_node, sp)"
| "descend bs lblock (Suc depth) node pblock_of_node sp =
     bindS (lift (binsearch_idx node lblock)) (\<lambda>index_pos.
     case index_pos of
       None \<Rightarrow> lift (Err ENOENT)
     | Some pos \<Rightarrow>
         bindS (lift (get_index node pos)) (\<lambda>index.
         let next_block = ei_leaf_lo index;
             sp = push_path \<lparr> pn_header = en_header node, pn_index = Some index, pn_extent = None,
                    pn_position = pos, pn_pblock = ucast next_block,
                    pn_pblock_of_node = pblock_of_node \<rparr> sp
         in bindS (jd_read (unat next_block * bs) bs) (\<lambda>next_data.
            bindS (lift (load_from_data next_data False)) (\<lambda>node.
            descend bs lblock depth node (unat next_block)
              (sp\<lparr> sp_depth := sp_depth sp + 1 \<rparr>)))))"

definition extent_pblock :: "extent \<Rightarrow> u32 \<Rightarrow> u64" where
  "extent_pblock e lblock =
     (let first = ucast (ee_first_block e) :: u64; end = first + ucast (get_actual_len e);
          lblk = ucast lblock
      in if first \<le> lblk \<and> lblk < end then lblk - first + get_pblock e else 0)"

definition find_extent :: "nat \<Rightarrow> inode_ref \<Rightarrow> u32 \<Rightarrow> (jdev, search_path) io" where
  "find_extent bs ir lblock =
     (case load_from_data (i_block (ir_inode ir)) True of
        Ok node \<Rightarrow>
          bindS (descend bs lblock (unat (eh_depth (en_header node))) node 0 SearchPath_new)
            (\<lambda>(node, pblock_of_node, sp).
            bindS (lift (binsearch_extent node lblock)) (\<lambda>r.
            case r of
              Some (ext, pos) \<Rightarrow>
                ret ((push_path \<lparr> pn_header = en_header node, pn_index = None, pn_extent = Some ext,
                       pn_position = pos, pn_pblock = extent_pblock ext lblock,
                       pn_pblock_of_node = pblock_of_node \<rparr> sp)\<lparr> sp_maxdepth := eh_depth (en_header node) \<rparr>)
            | None \<Rightarrow>
                ret (push_path \<lparr> pn_header = en_header node, pn_index = None, pn_extent = None,
                       pn_position = 0, pn_pblock = 0, pn_pblock_of_node = pblock_of_node \<rparr> sp)))
      | _ \<Rightarrow> lift Panic)"

text \<open>Both callers take the last node of the path; \<open>get_pblock_idx\<close> turns every error into \<open>EIO\<close>,
  \<open>get_pblock_state\<close> into a hole.\<close>

definition get_pblock_idx :: "nat \<Rightarrow> inode_ref \<Rightarrow> u32 \<Rightarrow> (jdev, u64) io" where
  "get_pblock_idx bs ir lblock s =
     (case find_extent bs ir lblock s of
        (Ok sp, s) \<Rightarrow> (if sp_path sp = [] then Panic else Ok (pn_pblock (last (sp_path sp))), s)
      | (Err e, s) \<Rightarrow> (Err EIO, s) | (Panic, s) \<Rightarrow> (Panic, s) | (Undef, s) \<Rightarrow> (Undef, s))"

definition get_pblock_state :: "nat \<Rightarrow> inode_ref \<Rightarrow> u32 \<Rightarrow> (jdev, u64 \<times> bool) io" where
  "get_pblock_state bs ir lblock s =
     (case find_extent bs ir lblock s of
        (Ok sp, s) \<Rightarrow>
          (if sp_path sp = [] then Panic
           else let n = last (sp_path sp) in
             Ok (pn_pblock n, case pn_extent n of Some e \<Rightarrow> is_unwritten e | None \<Rightarrow> False), s)
      | (Err e, s) \<Rightarrow> (Ok (0, False), s) | (Panic, s) \<Rightarrow> (Panic, s) | (Undef, s) \<Rightarrow> (Undef, s))"

section \<open>The tree a node represents\<close>

text \<open>An extent covers the logical blocks \<open>[first, first + len)\<close>; the reference lookup takes the
  extent that covers the block.\<close>

definition covers :: "extent \<Rightarrow> u32 \<Rightarrow> bool" where
  "covers e lblock \<longleftrightarrow> unat (ee_first_block e) \<le> unat lblock
     \<and> unat lblock < unat (ee_first_block e) + unat (get_actual_len e)"

definition lookup :: "extent list \<Rightarrow> u32 \<Rightarrow> u64 \<times> bool" where
  "lookup es lblock =
     (case find (\<lambda>e. covers e lblock) es of
        Some e \<Rightarrow> (get_pblock e + ucast (lblock - ee_first_block e), is_unwritten e)
      | None \<Rightarrow> (0, False))"

text \<open>The blocks of an extent end before the next one begins.\<close>

fun separated :: "extent list \<Rightarrow> bool" where
  "separated (e # f # es) =
     (unat (ee_first_block e) + unat (get_actual_len e) \<le> unat (ee_first_block f)
      \<and> ee_first_block e < ee_first_block f \<and> separated (f # es))"
| "separated es = True"

definition entries :: "extent_node \<Rightarrow> nat" where
  "entries node = unat (eh_entries_count (en_header node))"

definition node_ok :: "extent_node \<Rightarrow> bool" where
  "node_ok node \<longleftrightarrow> fits (entries node) (en_data node)"

text \<open>The child of an index entry, at its 48-bit block number, read from the image of the device.\<close>

definition child :: "(nat \<Rightarrow> u8) \<Rightarrow> nat \<Rightarrow> extent_node \<Rightarrow> nat \<Rightarrow> extent_node res" where
  "child img bs node pos =
     load_from_data (image_read img (unat (ei_get_pblock (index_at (en_data node) pos)) * bs) bs) False"

text \<open>\<open>tree_of img bs d node lo hi es\<close>: the node at height \<open>d\<close> holds the extents \<open>es\<close>, all of whose
  blocks lie in \<open>[lo, hi)\<close>; the keys of an index node ascend and bound the ranges of its children
  (the first child may begin below its key). The code follows \<open>leaf_lo\<close> alone, so the blocks of index
  nodes lie below \<open>2 ^ 32\<close>.\<close>

inductive tree_of :: "(nat \<Rightarrow> u8) \<Rightarrow> nat \<Rightarrow> nat \<Rightarrow> extent_node \<Rightarrow> nat \<Rightarrow> nat \<Rightarrow> extent list \<Rightarrow> bool"
  for img :: "nat \<Rightarrow> u8" and bs :: nat where
  leaf: "node_ok node \<Longrightarrow> es = map (extent_at (en_data node)) [0..<entries node] \<Longrightarrow> separated es
    \<Longrightarrow> \<forall>e \<in> set es. lo \<le> unat (ee_first_block e)
          \<and> unat (ee_first_block e) + unat (get_actual_len e) \<le> hi
    \<Longrightarrow> tree_of img bs 0 node lo hi es"
| index: "node_ok node \<Longrightarrow> 0 < entries node
    \<Longrightarrow> ascending (\<lambda>i. ei_first_block (index_at (en_data node) i)) (entries node)
    \<Longrightarrow> bound = (\<lambda>i. if i = 0 then lo else if i < entries node
          then unat (ei_first_block (index_at (en_data node) i)) else hi)
    \<Longrightarrow> \<forall>i \<le> entries node. lo \<le> bound i \<and> bound i \<le> hi
    \<Longrightarrow> \<forall>i < entries node. ei_leaf_hi (index_at (en_data node) i) = 0
    \<Longrightarrow> \<forall>i < entries node. child img bs node i = Ok (kids ! i)
          \<and> tree_of img bs d (kids ! i) (bound i) (bound (Suc i)) (parts ! i)
    \<Longrightarrow> length parts = entries node \<Longrightarrow> es = concat parts
    \<Longrightarrow> tree_of img bs (Suc d) node lo hi es"

section \<open>Leaves\<close>

lemma separated_Cons:
  "separated (e # es) \<longleftrightarrow> (\<forall>f \<in> set es. unat (ee_first_block e) + unat (get_actual_len e) \<le> unat (ee_first_block f)
      \<and> ee_first_block e < ee_first_block f) \<and> separated es"
proof (induction es arbitrary: e)
  case (Cons f es)
  show ?case
  proof
    assume "separated (e # f # es)"
    then have ef: "unat (ee_first_block e) + unat (get_actual_len e) \<le> unat (ee_first_block f)"
      "ee_first_block e < ee_first_block f" "separated (f # es)" by simp_all
    moreover have "\<forall>g \<in> set es. ee_first_block f < ee_first_block g" using ef(3) Cons.IH by blast
    ultimately show "(\<forall>g \<in> set (f # es). unat (ee_first_block e) + unat (get_actual_len e) \<le> unat (ee_first_block g)
      \<and> ee_first_block e < ee_first_block g) \<and> separated (f # es)"
      by (fastforce simp: word_less_nat_alt)
  qed simp
qed simp

lemma separated_nth:
  "separated es \<Longrightarrow> i < j \<Longrightarrow> j < length es \<Longrightarrow>
   unat (ee_first_block (es ! i)) + unat (get_actual_len (es ! i)) \<le> unat (ee_first_block (es ! j))
   \<and> ee_first_block (es ! i) < ee_first_block (es ! j)"
proof (induction es arbitrary: i j)
  case (Cons e es)
  then show ?case by (cases i; cases j) (auto simp: separated_Cons)
qed simp

lemma extent_pblock_eq:
  "extent_pblock e lblock =
     (if covers e lblock then get_pblock e + ucast (lblock - ee_first_block e) else 0)"
proof -
  have up: "unat (ucast w :: u64) = unat w" for w :: u32
    using unat_bound [of w] by (simp add: unsigned_ucast_eq take_bit_eq_mod)
  have up16: "unat (ucast w :: u64) = unat w" for w :: u16
    using unat_bound [of w] by (simp add: unsigned_ucast_eq take_bit_eq_mod)
  have sum: "unat (ucast (ee_first_block e) + ucast (get_actual_len e) :: u64) =
      unat (ee_first_block e) + unat (get_actual_len e)"
    using unat_bound [of "ee_first_block e"] unat_bound [of "get_actual_len e"]
    by (simp add: unat_add_less up up16)
  have cond: "(ucast (ee_first_block e) \<le> (ucast lblock :: u64)
      \<and> ucast lblock < (ucast (ee_first_block e) + ucast (get_actual_len e) :: u64)) = covers e lblock"
    by (simp add: covers_def word_le_nat_alt word_less_nat_alt up sum)
  have "(ucast (lblock - ee_first_block e) :: u64) = ucast lblock - ucast (ee_first_block e)"
    if "unat (ee_first_block e) \<le> unat lblock"
    using that by (intro unsigned_word_eqI [where 'a = nat]) (simp add: unat_sub word_le_nat_alt up)
  then show ?thesis unfolding extent_pblock_def Let_def cond
    by (auto simp: covers_def add.commute)
qed

text \<open>In a leaf, the last extent that does not begin after the block is the only one that can cover
  it.\<close>

lemma lookup_leaf:
  assumes "separated es" and "last_le (\<lambda>i. ee_first_block (es ! i)) (length es) lblock p"
  shows "find (\<lambda>e. covers e lblock) es = (if covers (es ! p) lblock then Some (es ! p) else None)"
proof -
  have p: "p < length es" "\<And>j. p < j \<Longrightarrow> j < length es \<Longrightarrow> lblock < ee_first_block (es ! j)"
    using assms(2) by (auto simp: last_le_def)
  have only: "j = p" if "j < length es" "covers (es ! j) lblock" for j
  proof (rule linorder_cases [of j p])
    assume "j < p"
    then have "unat lblock < unat (ee_first_block (es ! p))"
      using separated_nth [OF assms(1) \<open>j < p\<close> p(1)] that(2) by (simp add: covers_def)
    then show ?thesis using assms(2) \<open>j < p\<close> by (auto simp: last_le_def word_le_nat_alt)
  next
    assume "p < j"
    then show ?thesis using p(2) [OF _ that(1)] that(2) by (simp add: covers_def word_less_nat_alt)
  qed
  show ?thesis
  proof (cases "covers (es ! p) lblock")
    case True
    then have "find (\<lambda>e. covers e lblock) es \<noteq> None"
      unfolding find_None_iff using nth_mem [OF p(1)] by blast
    then obtain e where e: "find (\<lambda>e. covers e lblock) es = Some e" by auto
    then have "e = es ! p" using only by (auto simp: find_Some_iff)
    then show ?thesis using e True by simp
  next
    case False
    then have "\<not> (\<exists>e \<in> set es. covers e lblock)" using only by (metis in_set_conv_nth)
    then show ?thesis using False by (simp add: find_None_iff)
  qed
qed

lemma lookup_node_leaf:
  assumes "node_ok node" and "es = map (extent_at (en_data node)) [0..<entries node]" and "separated es"
  shows "\<exists>r. binsearch_extent node lblock = Ok r \<and>
    (case r of None \<Rightarrow> es = [] | Some (e, pos) \<Rightarrow>
       lookup es lblock = (extent_pblock e lblock, covers e lblock \<and> is_unwritten e))"
proof (cases "eh_entries_count (en_header node) = 0")
  case True
  then show ?thesis using assms(2) by (simp add: binsearch_extent_def entries_def)
next
  case False
  let ?n = "entries node" and ?key = "\<lambda>i. ee_first_block (extent_at (en_data node) i)"
  have n: "0 < ?n" using False by (simp add: entries_def unat_gt_0)
  have es: "length es = ?n" "\<And>i. i < ?n \<Longrightarrow> es ! i = extent_at (en_data node) i" using assms(2) by simp_all
  have asc: "ascending ?key ?n"
    unfolding ascending_def
  proof (intro allI impI)
    fix i j
    assume "i < j" "j < ?n"
    then show "?key i < ?key j" using separated_nth [OF assms(3), of i j] es by simp
  qed
  have "\<exists>k. extent_loop (en_data node) lblock 1 (?n - 1) = Ok k \<and> 1 \<le> k \<and> last_le ?key ?n lblock (k - 1)"
    by (rule extent_loop_spec) (use assms(1) asc n in \<open>auto simp: node_ok_def\<close>)
  then obtain k where k: "extent_loop (en_data node) lblock 1 (?n - 1) = Ok k" "last_le ?key ?n lblock (k - 1)"
    by blast
  then have p: "k - 1 < ?n" by (simp add: last_le_def)
  then have load: "load_extent (en_data node) (k - 1) = Ok (es ! (k - 1))"
    using load_fits(1) [of ?n] assms(1) es by (simp add: node_ok_def)
  have "last_le (\<lambda>i. ee_first_block (es ! i)) (length es) lblock (k - 1)"
    using k(2) es by (auto simp: last_le_def)
  from lookup_leaf [OF assms(3) this] have "lookup es lblock =
      (extent_pblock (es ! (k - 1)) lblock, covers (es ! (k - 1)) lblock \<and> is_unwritten (es ! (k - 1)))"
    by (simp add: lookup_def extent_pblock_eq)
  then show ?thesis using False k(1) load by (simp add: binsearch_extent_def entries_def)
qed

section \<open>Trees\<close>

lemma in_concat_nth: "x \<in> set (concat xss) \<Longrightarrow> \<exists>q < length xss. x \<in> set (xss ! q)"
  unfolding set_concat UN_iff by (metis in_set_conv_nth)

lemma tree_of_range:
  "tree_of img bs d node lo hi es \<Longrightarrow>
   \<forall>e \<in> set es. lo \<le> unat (ee_first_block e) \<and> unat (ee_first_block e) + unat (get_actual_len e) \<le> hi"
proof (induction rule: tree_of.induct)
  case (index node bound lo hi kids d parts es)
  show ?case
  proof
    fix e
    assume "e \<in> set es"
    then obtain i where i: "i < entries node" "e \<in> set (parts ! i)"
      using in_concat_nth [of e parts] index.hyps by auto
    then have "bound i \<le> unat (ee_first_block e)"
      "unat (ee_first_block e) + unat (get_actual_len e) \<le> bound (Suc i)"
      using index.IH by blast+
    moreover have "lo \<le> bound i" "bound (Suc i) \<le> hi" using index.hyps(5) i by auto
    ultimately show "lo \<le> unat (ee_first_block e) \<and> unat (ee_first_block e) + unat (get_actual_len e) \<le> hi"
      by linarith
  qed
qed simp

lemma find_concat:
  assumes "p < length parts" and "\<And>q. q < length parts \<Longrightarrow> q \<noteq> p \<Longrightarrow> \<forall>x \<in> set (parts ! q). \<not> P x"
  shows "find P (concat parts) = find P (parts ! p)"
  using assms
proof (induction parts arbitrary: p)
  case (Cons x parts)
  have app: "find P (x @ ys) = (case find P x of Some a \<Rightarrow> Some a | None \<Rightarrow> find P ys)" for ys
    by (induction x) auto
  show ?case
  proof (cases p)
    case 0
    have "find P (concat parts) = None"
      unfolding find_None_iff
    proof
      assume "\<exists>a. a \<in> set (concat parts) \<and> P a"
      then obtain q a where "q < length parts" "a \<in> set (parts ! q)" "P a" using in_concat_nth by metis
      then show False using Cons.prems(2) [of "Suc q"] 0 by auto
    qed
    then show ?thesis using 0 by (simp add: app split: option.split)
  next
    case (Suc p')
    have "find P x = None" using Cons.prems(2) [of 0] Suc by (auto simp: find_None_iff)
    moreover have "find P (concat parts) = find P (parts ! p')"
    proof (rule Cons.IH)
      show "p' < length parts" using Cons.prems(1) Suc by simp
      show "\<forall>y \<in> set (parts ! q). \<not> P y" if "q < length parts" "q \<noteq> p'" for q
        using Cons.prems(2) [of "Suc q"] that Suc by simp
    qed
    ultimately show ?thesis using Suc by (simp add: app)
  qed
qed simp

lemma binsearch_idx_spec:
  assumes "node_ok node" and "0 < entries node"
    and "ascending (\<lambda>i. ei_first_block (index_at (en_data node) i)) (entries node)"
  shows "\<exists>p. binsearch_idx node lblock = Ok (Some p) \<and>
    last_le (\<lambda>i. ei_first_block (index_at (en_data node) i)) (entries node) lblock p"
proof -
  let ?n = "entries node" and ?key = "\<lambda>i. ei_first_block (index_at (en_data node) i)"
  have "\<exists>k. index_loop (en_data node) lblock l (?n - 1) = Ok k \<and> l \<le> k \<and> last_le ?key ?n lblock (k - 1)"
    if "l \<le> 1" for l
    by (rule index_loop_spec) (use that assms in \<open>auto simp: node_ok_def\<close>)
  from this [of 0] this [of 1] obtain k0 k1 where
    k: "index_loop (en_data node) lblock 0 (?n - 1) = Ok k0" "last_le ?key ?n lblock (k0 - 1)"
      "index_loop (en_data node) lblock 1 (?n - 1) = Ok k1" "last_le ?key ?n lblock (k1 - 1)" "1 \<le> k1"
    by auto
  have nz: "eh_entries_count (en_header node) \<noteq> 0" using assms(2) by (auto simp: entries_def)
  show ?thesis
  proof (cases "en_data node")
    case (Root b)
    then have "binsearch_idx node lblock = Ok (Some (k1 - 1))"
      using k(3,5) nz by (simp add: binsearch_idx_def entries_def Let_def)
    then show ?thesis using k(4) by blast
  next
    case (Internal b)
    then have "binsearch_idx node lblock = Ok (Some (k0 - 1))"
      using k(1) nz by (simp add: binsearch_idx_def entries_def Let_def)
    then show ?thesis using k(2) by blast
  qed
qed

lemma index_child_only:
  assumes "tree_of img bs (Suc d) node lo hi es"
    and p: "last_le (\<lambda>i. ei_first_block (index_at (en_data node) i)) (entries node) lblock p"
  obtains kid a b part where "child img bs node p = Ok kid" and "tree_of img bs d kid a b part"
    and "lookup es lblock = lookup part lblock" and "ei_leaf_hi (index_at (en_data node) p) = 0"
  using assms(1)
proof (cases rule: tree_of.cases)
  case (index bound kids parts)
  let ?key = "\<lambda>i. ei_first_block (index_at (en_data node) i)"
  have pn: "p < entries node" using p by (simp add: last_le_def)
  have mono: "bound i \<le> bound j" if "0 < i" "i \<le> j" "j < entries node" for i j
    using that index(3) unfolding index(4) ascending_def
    by (cases "i = j") (auto simp: word_less_nat_alt intro: less_imp_le)
  have none: "\<not> covers e lblock" if q: "q < entries node" "q \<noteq> p" "e \<in> set (parts ! q)" for q e
  proof -
    have "tree_of img bs d (kids ! q) (bound q) (bound (Suc q)) (parts ! q)" using index(7) q(1) by blast
    from tree_of_range [OF this] q(3)
    have r: "bound q \<le> unat (ee_first_block e)" "unat (ee_first_block e) + unat (get_actual_len e) \<le> bound (Suc q)"
      by blast+
    show ?thesis
    proof (cases "q < p")
      case True
      then have "bound (Suc q) \<le> bound p" using mono [of "Suc q" p] pn by simp
      moreover have "bound p \<le> unat lblock"
        using True p pn by (auto simp: index(4) last_le_def word_le_nat_alt)
      ultimately show ?thesis using r by (auto simp: covers_def)
    next
      case False
      then have "p < q" using q(2) by simp
      then have "unat lblock < bound q" using p q(1) by (auto simp: index(4) last_le_def word_less_nat_alt)
      then show ?thesis using r by (auto simp: covers_def)
    qed
  qed
  have "find (\<lambda>e. covers e lblock) es = find (\<lambda>e. covers e lblock) (parts ! p)"
    unfolding index(9) by (rule find_concat) (use pn none index(8) in auto)
  then have "lookup es lblock = lookup (parts ! p) lblock" by (simp add: lookup_def)
  then show thesis using that index(6,7) pn by blast
qed

text \<open>A device whose reads give an image, be it that of the disk or the view of a transaction.\<close>

definition reads_as :: "jdev \<Rightarrow> (nat \<Rightarrow> u8) \<Rightarrow> bool" where
  "reads_as s img \<longleftrightarrow> (\<forall>off n. jd_read off n s = (Ok (image_read img off n), s))"

lemma reads_closed: "closed s \<Longrightarrow> reads_as s (jd_image s)"
  by (simp add: reads_as_def jd_read_closed)

lemma reads_view: "jd_inv s \<Longrightarrow> reads_as s (jd_view s)"
  by (simp add: reads_as_def jd_read_view)

lemma find_extent_tree:
  assumes "tree_of img bs d node lo hi es" and "reads_as s img"
  shows "\<exists>node' pon' sp' r. descend bs lblock d node pon sp s = (Ok (node', pon', sp'), s)
    \<and> binsearch_extent node' lblock = Ok r
    \<and> (case r of None \<Rightarrow> lookup es lblock = (0, False)
       | Some (e, pos) \<Rightarrow> lookup es lblock = (extent_pblock e lblock, covers e lblock \<and> is_unwritten e))"
  using assms(1)
proof (induction d arbitrary: node lo hi es pon sp)
  case 0
  then have leaf: "node_ok node" "es = map (extent_at (en_data node)) [0..<entries node]" "separated es"
    by (auto elim: tree_of.cases)
  from lookup_node_leaf [OF this] obtain r where "binsearch_extent node lblock = Ok r"
    "case r of None \<Rightarrow> es = [] | Some (e, pos) \<Rightarrow>
       lookup es lblock = (extent_pblock e lblock, covers e lblock \<and> is_unwritten e)" by blast
  then show ?case by (auto simp: lookup_def split: option.splits)
next
  case (Suc d)
  then have "node_ok node" "0 < entries node"
    "ascending (\<lambda>i. ei_first_block (index_at (en_data node) i)) (entries node)"
    by (auto elim: tree_of.cases)
  from binsearch_idx_spec [OF this] obtain p where p: "binsearch_idx node lblock = Ok (Some p)"
    "last_le (\<lambda>i. ei_first_block (index_at (en_data node) i)) (entries node) lblock p" by blast
  obtain kid a b part where kid: "child img bs node p = Ok kid" "tree_of img bs d kid a b part"
    "lookup es lblock = lookup part lblock" "ei_leaf_hi (index_at (en_data node) p) = 0"
    by (rule index_child_only [OF Suc.prems p(2)])
  let ?i = "index_at (en_data node) p"
  have get: "get_index node p = Ok ?i"
    using load_fits(2) [of "entries node" "en_data node" p] \<open>node_ok node\<close> p(2)
    by (simp add: get_index_def node_ok_def last_le_def)
  have "unat (ei_get_pblock ?i) = unat (ei_leaf_lo ?i)"
    using kid(4) unat_bound [of "ei_leaf_lo ?i"]
    by (simp add: ei_get_pblock_def unsigned_ucast_eq take_bit_eq_mod)
  then have read: "load_from_data (image_read img (unat (ei_leaf_lo ?i) * bs) bs) False = Ok kid"
    using kid(1) by (simp add: child_def)
  obtain sp1 where step: "descend bs lblock (Suc d) node pon sp s =
      descend bs lblock d kid (unat (ei_leaf_lo ?i)) sp1 s"
    using p(1) get read assms(2) by (simp add: Let_def bindS_def reads_as_def)
  show ?case unfolding step kid(3) by (rule Suc.IH [OF kid(2)])
qed

lemma find_extent_result:
  assumes "reads_as s img" and root: "load_from_data (i_block (ir_inode ir)) True = Ok root"
    and tree: "tree_of img bs (unat (eh_depth (en_header root))) root lo hi es"
  obtains sp where "find_extent bs ir lblock s = (Ok sp, s)" and "sp_path sp \<noteq> []"
    and "pn_pblock (last (sp_path sp)) = fst (lookup es lblock)"
    and "fst (lookup es lblock) \<noteq> 0 \<Longrightarrow>
      (case pn_extent (last (sp_path sp)) of Some e \<Rightarrow> is_unwritten e | None \<Rightarrow> False) = snd (lookup es lblock)"
proof -
  from find_extent_tree [OF tree assms(1)] obtain node' pon' sp' r where
    d: "descend bs lblock (unat (eh_depth (en_header root))) root 0 SearchPath_new s = (Ok (node', pon', sp'), s)"
    and b: "binsearch_extent node' lblock = Ok r"
    and r: "case r of None \<Rightarrow> lookup es lblock = (0, False)
       | Some (e, pos) \<Rightarrow> lookup es lblock = (extent_pblock e lblock, covers e lblock \<and> is_unwritten e)"
    by blast
  show thesis
  proof (cases r)
    case None
    then show thesis
      using r that by (simp add: find_extent_def root bindS_def d b push_path_def)
  next
    case (Some x)
    then obtain e pos where x: "r = Some (e, pos)" by (cases x) simp
    then have l: "lookup es lblock = (extent_pblock e lblock, covers e lblock \<and> is_unwritten e)" using r by simp
    have "extent_pblock e lblock \<noteq> 0 \<Longrightarrow> covers e lblock" by (simp add: extent_pblock_eq split: if_splits)
    then show thesis
      using l that by (simp add: find_extent_def root bindS_def d b x push_path_def)
  qed
qed

lemma get_pblock_idx_lookup:
  assumes "reads_as s img" and "load_from_data (i_block (ir_inode ir)) True = Ok root"
    and "tree_of img bs (unat (eh_depth (en_header root))) root lo hi es"
  shows "get_pblock_idx bs ir lblock s = (Ok (fst (lookup es lblock)), s)"
  by (rule find_extent_result [OF assms, of lblock]) (simp add: get_pblock_idx_def)

text \<open>A block in a hole may be reported unwritten, when the extent before it is; the block 0 tells.\<close>

lemma get_pblock_state_lookup:
  assumes "reads_as s img" and "load_from_data (i_block (ir_inode ir)) True = Ok root"
    and "tree_of img bs (unat (eh_depth (en_header root))) root lo hi es"
  obtains u where "get_pblock_state bs ir lblock s = (Ok (fst (lookup es lblock), u), s)"
    and "fst (lookup es lblock) \<noteq> 0 \<Longrightarrow> u = snd (lookup es lblock)"
  by (rule find_extent_result [OF assms, of lblock]) (simp add: get_pblock_state_def Let_def)

text \<open>C9: on a well-formed extent tree of any depth, mapping a logical block gives what the list of
  extents in the leaves gives: the physical block when some extent covers it, 0 for a hole. The
  lookup terminates, does not panic, reads nothing outside its buffers and changes nothing. The image
  is what a reader sees, the captured writes of an open transaction included.\<close>

theorem get_pblock_idx_correct:
  assumes "jd_inv s" and root: "load_from_data (i_block (ir_inode ir)) True = Ok root"
    and tree: "tree_of (jd_view s) bs (unat (eh_depth (en_header root))) root lo hi es"
  shows "get_pblock_idx bs ir lblock s = (Ok (fst (lookup es lblock)), s)"
  by (rule get_pblock_idx_lookup [OF reads_view [OF assms(1)] root tree])

text \<open>A root with one extent of four blocks, at logical block 2 and physical block 100.\<close>

definition sample_extent :: extent where
  "sample_extent = \<lparr> ee_first_block = 2, ee_block_count = 4, ee_start_hi = 0, ee_start_lo = 100 \<rparr>"

definition sample_root :: bytes where
  "sample_root = header_bytes \<lparr> eh_magic = 0xF30A, eh_entries_count = 1, eh_max_entries_count = 4,
     eh_depth = 0, eh_generation = 0 \<rparr> @ extent_bytes sample_extent @ replicate 36 0"

definition sample_node :: extent_node where
  "sample_node = \<lparr> en_header = \<lparr> eh_magic = 0xF30A, eh_entries_count = 1, eh_max_entries_count = 4,
     eh_depth = 0, eh_generation = 0 \<rparr>, en_data = Root sample_root, en_is_root = True \<rparr>"

definition sample_ref :: inode_ref where
  "sample_ref = \<lparr> ir_inode_num = 8, ir_inode = (inode_of_bytes (replicate 156 0))\<lparr> i_block := sample_root \<rparr> \<rparr>"

lemma length_sample_root [simp]: "length sample_root = 60"
  by (simp add: sample_root_def)

lemma sample_root_load: "load_from_data (i_block (ir_inode sample_ref)) True = Ok sample_node"
  by (simp add: load_from_data_def sample_ref_def sample_node_def)
     (simp add: sample_root_def slice_def)

lemma sample_tree: "tree_of img bs 0 sample_node 0 (2 ^ 32) [sample_extent]"
proof (rule tree_of.leaf)
  have n: "entries sample_node = 1" by (simp add: entries_def sample_node_def)
  then show "node_ok sample_node" by (simp add: node_ok_def fits_def sample_node_def)
  have "extent_at (en_data sample_node) 0 = sample_extent"
    by (simp add: extent_at_def sample_node_def sample_root_def slice_def)
  then show "[sample_extent] = map (extent_at (en_data sample_node)) [0..<entries sample_node]"
    by (simp add: n)
qed (simp_all add: sample_extent_def get_actual_len_def is_unwritten_def EXT_INIT_MAX_LEN_def)

theorem get_pblock_idx_correct_witness:
  "fst (get_pblock_idx 1024 sample_ref 4 (JournalDevice_new \<lparr> dk_image = (\<lambda>_. 0), dk_events = [] \<rparr> 1024)) = Ok 102"
proof -
  let ?s = "JournalDevice_new \<lparr> dk_image = (\<lambda>_. 0), dk_events = [] \<rparr> 1024"
  have "jd_inv ?s" by (simp add: jd_inv_def JournalDevice_new_def)
  moreover have "tree_of (jd_view ?s) 1024 (unat (eh_depth (en_header sample_node))) sample_node 0 (2 ^ 32) [sample_extent]"
    using sample_tree by (simp add: sample_node_def)
  ultimately have "get_pblock_idx 1024 sample_ref 4 ?s = (Ok (fst (lookup [sample_extent] 4)), ?s)"
    by (rule get_pblock_idx_correct [OF _ sample_root_load])
  then show ?thesis
    by (simp add: lookup_def covers_def sample_extent_def get_actual_len_def is_unwritten_def
        EXT_INIT_MAX_LEN_def get_pblock_def)
qed

end
