(* ===== verification/Journal.thy ===== *)
theory Journal
  imports JournalFormat ExtentTree
begin

text \<open>
  The journal engine (\<open>src/src/ext4_impls/journal/mod.rs\<close>): the live journal superblock, the scan of
  the log, commit with its crash points, the revoke table and recovery. The engine runs on the
  device of the filesystem with no transaction open (\<open>journal_end\<close> closes it first), so its state
  is that device; \<open>bs\<close> is the filesystem block size and every log block is found through the
  extent tree of the journal inode. Log block indices are stored as \<open>u64\<close> by the scan and cast
  back, as the code does. The three updates of the journal superblock are the same five lines and
  share one definition here.
\<close>

section \<open>State\<close>

record journal =
  j_sb :: journal_superblock
  j_inode_ref :: inode_ref

record live_sb =
  ls_sb :: journal_superblock
  ls_fmt :: tag_format
  ls_has_64bit :: bool
  ls_has_csum :: bool
  ls_seed :: u32

record logged_block =
  lb_final_block :: u64
  lb_data_log_block :: u64
  lb_flags :: u16

record scanned_txn =
  st_sequence :: u32
  st_blocks :: "logged_block list"
  st_revoke_log_blocks :: "u64 list"

record scan_result =
  sr_txns :: "scanned_txn list"
  sr_last_sequence :: u32

section \<open>Log blocks\<close>

definition map_log_block :: "nat \<Rightarrow> journal \<Rightarrow> u32 \<Rightarrow> (jdev, u64) io" where
  "map_log_block bs j log_block = get_pblock_idx bs (j_inode_ref j) log_block"

definition read_log_block :: "nat \<Rightarrow> journal \<Rightarrow> u32 \<Rightarrow> (jdev, bytes) io" where
  "read_log_block bs j idx = bindS (map_log_block bs j idx) (\<lambda>pblock. jd_read (unat pblock * bs) bs)"

definition write_log_block :: "nat \<Rightarrow> journal \<Rightarrow> u32 \<Rightarrow> bytes \<Rightarrow> (jdev, unit) io" where
  "write_log_block bs j idx data =
     bindS (map_log_block bs j idx) (\<lambda>pblock.
       if length data \<noteq> bs then lift (Err EINVAL) else jd_write (unat pblock * bs) data)"

definition live_sb_of :: "bytes \<Rightarrow> live_sb res" where
  "live_sb_of sb_block =
     bind (JournalSuperblock_parse sb_block) (\<lambda>sb.
     bind (jbd2_csum_seed (jsb_uuid sb)) (\<lambda>seed.
     Ok \<lparr> ls_sb = sb, ls_fmt = from_features (jsb_feature_incompat sb),
          ls_has_64bit = has_incompat sb JBD2_FEATURE_INCOMPAT_64BIT,
          ls_has_csum = has_incompat sb
            (JBD2_FEATURE_INCOMPAT_CSUM_V2 OR JBD2_FEATURE_INCOMPAT_CSUM_V3),
          ls_seed = seed \<rparr>))"

definition live_sb :: "nat \<Rightarrow> journal \<Rightarrow> (jdev, live_sb) io" where
  "live_sb bs j = bindS (read_log_block bs j 0) (\<lambda>b. lift (live_sb_of b))"

definition live_sequence :: "nat \<Rightarrow> journal \<Rightarrow> (jdev, u32) io" where
  "live_sequence bs j = bindS (live_sb bs j) (\<lambda>ls. ret (jsb_sequence (ls_sb ls)))"

definition advance :: "u32 \<Rightarrow> u32 \<Rightarrow> u32 \<Rightarrow> u32" where
  "advance first maxlen c = (if maxlen \<le> c + 1 then first else c + 1)"

section \<open>Scan\<close>

fun log_tags :: "u32 \<Rightarrow> u32 \<Rightarrow> u32 \<Rightarrow> block_tag list \<Rightarrow> logged_block list \<times> u32" where
  "log_tags first maxlen cursor [] = ([], cursor)"
| "log_tags first maxlen cursor (tag # tags) =
     (let (lbs, c) = log_tags first maxlen (advance first maxlen cursor) tags in
      (\<lparr> lb_final_block = tag_blocknr tag, lb_data_log_block = ucast cursor,
         lb_flags = tag_flags tag \<rparr> # lbs, c))"

fun scan_loop ::
  "nat \<Rightarrow> journal \<Rightarrow> live_sb \<Rightarrow> nat \<Rightarrow> u32 \<Rightarrow> u32 \<Rightarrow> scanned_txn list \<Rightarrow> logged_block list \<Rightarrow> u64 list
    \<Rightarrow> (jdev, scanned_txn list) io" where
  "scan_loop bs j ls 0 cursor next_seq txns cur_blocks cur_revokes = ret txns"
| "scan_loop bs j ls (Suc n) cursor next_seq txns cur_blocks cur_revokes =
     bindS (read_log_block bs j cursor) (\<lambda>block.
     bindS (lift (be32 block 0)) (\<lambda>magic.
     if magic \<noteq> JBD2_MAGIC_NUMBER then ret txns
     else bindS (lift (be32 block 4)) (\<lambda>blocktype.
       bindS (lift (be32 block 8)) (\<lambda>h_seq.
       let first = jsb_first (ls_sb ls); maxlen = jsb_maxlen (ls_sb ls) in
       if h_seq \<noteq> next_seq then ret txns
       else if blocktype = JBD2_DESCRIPTOR_BLOCK then
         bindS (lift (parse_descriptor_block block (ls_fmt ls) (ls_has_64bit ls))) (\<lambda>tags.
           let (lbs, cursor) = log_tags first maxlen (advance first maxlen cursor) tags in
           scan_loop bs j ls n cursor next_seq txns (cur_blocks @ lbs) cur_revokes)
       else if blocktype = JBD2_REVOKE_BLOCK then
         scan_loop bs j ls n (advance first maxlen cursor) next_seq txns cur_blocks
           (cur_revokes @ [ucast cursor])
       else if blocktype = JBD2_COMMIT_BLOCK then
         bindS (lift (if ls_has_csum ls then verify_commit_csum block (ls_seed ls) else Ok True)) (\<lambda>ok.
           if \<not> ok then ret txns
           else scan_loop bs j ls n (advance first maxlen cursor) (next_seq + 1)
                  (txns @ [\<lparr> st_sequence = next_seq, st_blocks = cur_blocks,
                             st_revoke_log_blocks = cur_revokes \<rparr>]) [] [])
       else ret txns))))"

definition scan :: "nat \<Rightarrow> journal \<Rightarrow> (jdev, scan_result) io" where
  "scan bs j =
     bindS (live_sb bs j) (\<lambda>ls. let sb = ls_sb ls in
     if jsb_start sb = 0 then ret \<lparr> sr_txns = [], sr_last_sequence = jsb_sequence sb - 1 \<rparr>
     else bindS (scan_loop bs j ls (unat (jsb_maxlen sb)) (jsb_start sb) (jsb_sequence sb) [] [] []) (\<lambda>txns.
       ret \<lparr> sr_txns = txns,
             sr_last_sequence = (if txns = [] then jsb_sequence sb - 1 else st_sequence (last txns)) \<rparr>))"

section \<open>Commit\<close>

definition write_journal_head :: "nat \<Rightarrow> journal \<Rightarrow> bool \<Rightarrow> u32 \<Rightarrow> u32 \<Rightarrow> (jdev, unit) io" where
  "write_journal_head bs j has_csum seq start =
     bindS (read_log_block bs j 0) (\<lambda>sb_block.
     bindS (lift (patch_journal_sb_head sb_block seq start)) (\<lambda>sb_block.
     bindS (lift (if has_csum then finalize_journal_sb_csum sb_block else Ok sb_block)) (\<lambda>sb_block.
     bindS (write_log_block bs j 0 sb_block) (\<lambda>_.
     jd_flush))))"

definition escaped :: "bytes \<Rightarrow> bool" where
  "escaped data \<longleftrightarrow> 4 \<le> length data \<and> slice data 0 4 = be_bytes 4 JBD2_MAGIC_NUMBER"

definition log_entry :: "live_sb \<Rightarrow> u32 \<Rightarrow> nat \<times> bytes \<Rightarrow> (block_tag \<times> bytes) res" where
  "log_entry ls seq = (\<lambda>(final_block, data).
     let flags = (if escaped data then JBD2_FLAG_ESCAPE else 0);
         logged = (if escaped data then put data 0 [0, 0, 0, 0] else data)
     in bind (if ls_has_csum ls then jbd2_data_block_csum (ls_seed ls) seq logged else Ok 0) (\<lambda>checksum.
        Ok (\<lparr> tag_blocknr = of_nat final_block, tag_flags = flags, tag_checksum = checksum \<rparr>, logged)))"

fun write_logged :: "nat \<Rightarrow> journal \<Rightarrow> u32 \<Rightarrow> u32 \<Rightarrow> u32 \<Rightarrow> bytes list \<Rightarrow> (jdev, u32) io" where
  "write_logged bs j first maxlen cursor [] = ret cursor"
| "write_logged bs j first maxlen cursor (logged # rest) =
     bindS (write_log_block bs j cursor logged) (\<lambda>_.
     write_logged bs j first maxlen (advance first maxlen cursor) rest)"

text \<open>The checkpoint loop; \<open>False\<close> when an injected crash stopped it.\<close>

fun checkpoint :: "nat \<Rightarrow> crash_point \<Rightarrow> nat \<Rightarrow> (nat \<times> bytes) list \<Rightarrow> (jdev, bool) io" where
  "checkpoint bs crash i [] = ret True"
| "checkpoint bs crash i ((final_block, data) # rest) =
     (if (case crash of MidCheckpoint n \<Rightarrow> n \<le> i | _ \<Rightarrow> False) then ret False
      else bindS (jd_write (final_block * bs) data) (\<lambda>_. checkpoint bs crash (Suc i) rest))"

text \<open>Step 2b: the staged blocks and, in every case, the superblock's block with the recovery flag
  set.\<close>

definition journaled_blocks :: "nat \<Rightarrow> transaction \<Rightarrow> (jdev, (nat \<times> bytes) list) io" where
  "journaled_blocks bs txn =
     (if bs = 0 then lift Panic
      else let sb_block_idx = 1024 div bs; sb_off = 1024 mod bs;
               journaled = foldl (\<lambda>m (b, staged). bt_insert b (sb_data staged) m) [] (txn_blocks txn) in
        bindS (case map_of journaled sb_block_idx of
                 Some d \<Rightarrow> ret d | None \<Rightarrow> jd_read (sb_block_idx * bs) bs) (\<lambda>buf.
        bindS (lift (patch_recover_in_block buf sb_off True)) (\<lambda>buf.
        ret (bt_insert sb_block_idx buf journaled))))"

definition write_revokes :: "nat \<Rightarrow> journal \<Rightarrow> live_sb \<Rightarrow> u32 \<Rightarrow> transaction \<Rightarrow> (jdev, u32) io" where
  "write_revokes bs j ls cursor txn =
     (if txn_revokes txn = [] then ret cursor
      else bindS (lift (RevokeBlock_emit
               \<lparr> rb_sequence = txn_sequence txn, rb_blocks = map of_nat (txn_revokes txn) \<rparr> bs
               (ls_has_64bit ls))) (\<lambda>blk.
           bindS (lift (if ls_has_csum ls then finalize_revoke_csum blk (ls_seed ls) else Ok blk)) (\<lambda>blk.
           bindS (write_log_block bs j cursor blk) (\<lambda>_.
           ret (advance (jsb_first (ls_sb ls)) (jsb_maxlen (ls_sb ls)) cursor)))))"

definition write_commit_block :: "nat \<Rightarrow> journal \<Rightarrow> live_sb \<Rightarrow> u32 \<Rightarrow> u32 \<Rightarrow> (jdev, unit) io" where
  "write_commit_block bs j ls cursor seq =
     bindS (lift (CommitBlock_emit \<lparr> cb_sequence = seq, cb_commit_sec = 0, cb_commit_nsec = 0 \<rparr> bs)) (\<lambda>blk.
     bindS (lift (if ls_has_csum ls then finalize_commit_csum blk (ls_seed ls) else Ok blk)) (\<lambda>blk.
     bindS (write_log_block bs j cursor blk) (\<lambda>_.
     jd_flush)))"

definition commit_with_crash :: "nat \<Rightarrow> journal \<Rightarrow> transaction \<Rightarrow> crash_point \<Rightarrow> (jdev, unit) io" where
  "commit_with_crash bs j txn crash =
     (if Transaction_is_empty txn then ret ()
      else bindS (live_sb bs j) (\<lambda>ls.
        let first = jsb_first (ls_sb ls); maxlen = jsb_maxlen (ls_sb ls); seq = txn_sequence txn in
        bindS (journaled_blocks bs txn) (\<lambda>journaled.
        bindS (lift (map_each (log_entry ls seq) journaled)) (\<lambda>logged.
        let tags = map fst logged in
        if descriptor_block_tag_capacity bs (ls_fmt ls) (ls_has_64bit ls) (ls_has_csum ls) < length tags
        then lift (Err ENOSPC)
        else bindS (lift (assemble_descriptor_block (ls_seed ls) seq bs (ls_fmt ls) (ls_has_64bit ls)
                            (ls_has_csum ls) tags)) (\<lambda>descriptor.
          bindS (write_logged bs j first maxlen first (descriptor # map snd logged)) (\<lambda>cursor.
          bindS (write_revokes bs j ls cursor txn) (\<lambda>cursor.
          bindS jd_flush (\<lambda>_.
          bindS (write_journal_head bs j (ls_has_csum ls) seq first) (\<lambda>_.
          bindS (write_commit_block bs j ls cursor seq) (\<lambda>_.
          bindS (update_live_sb True) (\<lambda>_.
          bindS jd_flush (\<lambda>_.
          if crash = AfterCommitBlock then ret ()
          else bindS (checkpoint bs crash 0 journaled) (\<lambda>finished.
            if \<not> finished then ret ()
            else bindS jd_flush (\<lambda>_.
              bindS (write_journal_head bs j (ls_has_csum ls) (seq + 1) 0) (\<lambda>_.
              bindS (update_live_sb False) (\<lambda>_.
              jd_flush))))))))))))))))"

definition commit :: "nat \<Rightarrow> journal \<Rightarrow> transaction \<Rightarrow> (jdev, unit) io" where
  "commit bs j txn = commit_with_crash bs j txn NoCrash"

section \<open>Recovery\<close>

definition revoke_entry :: "u32 \<Rightarrow> (u64 \<times> u32) list \<Rightarrow> u64 \<Rightarrow> (u64 \<times> u32) list" where
  "revoke_entry seq table b =
     bt_insert b (case map_of table b of Some s \<Rightarrow> max s seq | None \<Rightarrow> seq) table"

fun revoke_blocks ::
  "nat \<Rightarrow> journal \<Rightarrow> live_sb \<Rightarrow> u64 list \<Rightarrow> (u64 \<times> u32) list \<Rightarrow> (jdev, (u64 \<times> u32) list) io" where
  "revoke_blocks bs j ls [] table = ret table"
| "revoke_blocks bs j ls (log_idx # rest) table =
     bindS (read_log_block bs j (ucast log_idx)) (\<lambda>block.
     bindS (lift (if ls_has_csum ls then verify_revoke_csum block (ls_seed ls) else Ok True)) (\<lambda>ok.
     if \<not> ok then lift (Err EIO)
     else bindS (lift (RevokeBlock_parse block (ls_has_64bit ls))) (\<lambda>rb.
       revoke_blocks bs j ls rest (foldl (revoke_entry (rb_sequence rb)) table (rb_blocks rb)))))"

fun revoke_txns ::
  "nat \<Rightarrow> journal \<Rightarrow> live_sb \<Rightarrow> scanned_txn list \<Rightarrow> (u64 \<times> u32) list \<Rightarrow> (jdev, (u64 \<times> u32) list) io" where
  "revoke_txns bs j ls [] table = ret table"
| "revoke_txns bs j ls (t # ts) table =
     bindS (revoke_blocks bs j ls (st_revoke_log_blocks t) table) (\<lambda>table. revoke_txns bs j ls ts table)"

definition build_revoke_table :: "nat \<Rightarrow> journal \<Rightarrow> scan_result \<Rightarrow> (jdev, (u64 \<times> u32) list) io" where
  "build_revoke_table bs j sr = bindS (live_sb bs j) (\<lambda>ls. revoke_txns bs j ls (sr_txns sr) [])"

definition replay_block ::
  "nat \<Rightarrow> journal \<Rightarrow> (u64 \<times> u32) list \<Rightarrow> u32 \<Rightarrow> logged_block \<Rightarrow> (jdev, unit) io" where
  "replay_block bs j revokes seq lb =
     (if (case map_of revokes (lb_final_block lb) of Some rseq \<Rightarrow> seq \<le> rseq | None \<Rightarrow> False)
      then ret ()
      else bindS (read_log_block bs j (ucast (lb_data_log_block lb))) (\<lambda>data.
        bindS (lift (if lb_flags lb AND JBD2_FLAG_ESCAPE \<noteq> 0
                     then put_at data 0 (be_bytes 4 JBD2_MAGIC_NUMBER) else Ok data)) (\<lambda>data.
        jd_write (unat (lb_final_block lb) * bs) data)))"

definition recover :: "nat \<Rightarrow> journal \<Rightarrow> (jdev, unit) io" where
  "recover bs j =
     bindS (scan bs j) (\<lambda>sr.
     if sr_txns sr = [] then ret ()
     else bindS (build_revoke_table bs j sr) (\<lambda>revokes.
       bindS (for_each (\<lambda>txn. for_each (replay_block bs j revokes (st_sequence txn)) (st_blocks txn))
                (sr_txns sr)) (\<lambda>_.
       bindS jd_flush (\<lambda>_.
       bindS (write_journal_head bs j
                (has_incompat (j_sb j) JBD2_FEATURE_INCOMPAT_CSUM_V2
                 \<or> has_incompat (j_sb j) JBD2_FEATURE_INCOMPAT_CSUM_V3)
                (sr_last_sequence sr + 1) 0) (\<lambda>_.
       bindS (update_live_sb False) (\<lambda>_.
       jd_flush))))))"

end
