(* ===== verification/JournalRuns.thy ===== *)
theory JournalRuns
  imports Journal
begin

text \<open>
  Runs of the journal engine. The engine of \<open>Journal\<close> works on the closed device; a run is
  described by its result and the image it leaves (\<open>runs\<close>), and the image by its filesystem blocks
  (\<open>block_of\<close>, \<open>store\<close>). Each operation of the engine has its rule, and \<open>runs_commit\<close> puts them
  together: the image that commit leaves, at every crash point.
\<close>

section \<open>Runs on the closed device\<close>

definition runs :: "(jdev, 'a) io \<Rightarrow> jdev \<Rightarrow> 'a \<Rightarrow> (nat \<Rightarrow> u8) \<Rightarrow> bool" where
  "runs m s a img \<longleftrightarrow> (\<exists>t. m s = (Ok a, t) \<and> closed t \<and> jd_image t = img)"

lemma runs_bind:
  assumes "runs m s a img" and "\<And>t. closed t \<Longrightarrow> jd_image t = img \<Longrightarrow> runs (f a) t b img'"
  shows "runs (bindS m f) s b img'"
  using assms unfolding runs_def bindS_def by fastforce

lemma runs_det: "runs m s a img \<Longrightarrow> runs m s b img' \<Longrightarrow> b = a \<and> img' = img"
  unfolding runs_def by fastforce

lemma runs_image: "runs m s a img \<Longrightarrow> img = img' \<Longrightarrow> runs m s a img'"
  by simp

lemma runs_ret: "closed s \<Longrightarrow> runs (ret a) s a (jd_image s)"
  by (simp add: runs_def)

lemma runs_lift: "closed s \<Longrightarrow> r = Ok a \<Longrightarrow> runs (lift r) s a (jd_image s)"
  by (simp add: runs_def)

lemma runs_flush: "closed s \<Longrightarrow> runs jd_flush s () (jd_image s)"
  by (simp add: runs_def)

lemma runs_read: "closed s \<Longrightarrow> runs (jd_read off n) s (image_read (jd_image s) off n) (jd_image s)"
  by (simp add: runs_def jd_read_closed)

lemma runs_write: "closed s \<Longrightarrow> runs (jd_write off d) s () (image_write (jd_image s) off d)"
  by (simp add: runs_def jd_write_closed)

section \<open>Blocks of an image\<close>

definition block_of :: "nat \<Rightarrow> (nat \<Rightarrow> u8) \<Rightarrow> nat \<Rightarrow> bytes" where
  "block_of bs img b = image_read img (b * bs) bs"

definition store :: "nat \<Rightarrow> (nat \<Rightarrow> u8) \<Rightarrow> nat \<Rightarrow> bytes \<Rightarrow> (nat \<Rightarrow> u8)" where
  "store bs img b d = image_write img (b * bs) d"

definition store_all :: "nat \<Rightarrow> (nat \<times> bytes) list \<Rightarrow> (nat \<Rightarrow> u8) \<Rightarrow> (nat \<Rightarrow> u8)" where
  "store_all bs ws img = foldl (\<lambda>img (b, d). store bs img b d) img ws"

lemma length_block_of [simp]: "length (block_of bs img b) = bs"
  by (simp add: block_of_def)

lemma block_of_store:
  assumes "0 < bs" and "length d = bs"
  shows "block_of bs (store bs img b d) c = (if c = b then d else block_of bs img c)"
proof (rule nth_equalityI)
  fix i
  assume "i < length (block_of bs (store bs img b d) c)"
  then have i: "i < bs" by simp
  then have "(c * bs + i) div bs = c" "(c * bs + i) mod bs = i" using assms(1) by simp_all
  then show "block_of bs (store bs img b d) c ! i = (if c = b then d else block_of bs img c) ! i"
    using i assms by (simp add: block_of_def store_def nth_image_read image_write_block)
qed (use assms in simp)

lemma store_all_simps [simp]:
  "store_all bs [] img = img"
  "store_all bs ((b, d) # ws) img = store_all bs ws (store bs img b d)"
  by (simp_all add: store_all_def)

lemma block_of_store_all_other:
  "0 < bs \<Longrightarrow> \<forall>(b, d) \<in> set ws. length d = bs \<Longrightarrow> c \<notin> fst ` set ws \<Longrightarrow>
   block_of bs (store_all bs ws img) c = block_of bs img c"
  by (induction ws arbitrary: img) (auto simp: block_of_store)

lemma block_of_store_all:
  assumes "0 < bs" and "distinct (map fst ws)" and "\<forall>(b, d) \<in> set ws. length d = bs" and "(c, d) \<in> set ws"
  shows "block_of bs (store_all bs ws img) c = d"
  using assms(2-4)
proof (induction ws arbitrary: img)
  case (Cons w ws)
  obtain b e where w: "w = (b, e)" by (cases w)
  show ?case
  proof (cases "c = b")
    case True
    then have "d = e" "c \<notin> fst ` set ws" using Cons.prems w by (auto simp: rev_image_eqI)
    then show ?thesis using True w Cons.prems(2) block_of_store_all_other [OF assms(1), of ws c] assms(1)
      by (auto simp: block_of_store)
  next
    case False
    then show ?thesis using w Cons by auto
  qed
qed simp

lemma store_all_redo:
  assumes "0 < bs" and "distinct (map fst ws)" and "\<forall>(b, d) \<in> set ws. length d = bs"
  shows "store_all bs ws (store_all bs (take n ws) img) = store_all bs ws img"
proof
  fix i
  have part: "distinct (map fst (take n ws))" "\<forall>(b, d) \<in> set (take n ws). length d = bs"
    using assms(2,3) by (auto simp: take_map [symmetric] dest: in_set_takeD)
  have "map_of (take n ws) b = None" if "map_of ws b = None" for b
    using that by (auto simp: map_of_eq_None_iff dest: in_set_takeD)
  then show "store_all bs ws (store_all bs (take n ws) img) i = store_all bs ws img i"
    using checkpoint_blocks [OF assms] checkpoint_blocks [OF assms(1) part]
    by (simp add: store_all_def store_def split: option.split)
qed

section \<open>Log blocks\<close>

text \<open>\<open>log_mapped bs j P\<close>: log block \<open>k\<close> of the journal inode lies at filesystem block \<open>P k\<close>.\<close>

definition log_mapped :: "nat \<Rightarrow> journal \<Rightarrow> (nat \<Rightarrow> nat) \<Rightarrow> bool" where
  "log_mapped bs j P \<longleftrightarrow> (\<forall>k s. closed s \<and> k < 2 ^ 32 \<longrightarrow>
     (\<exists>p. map_log_block bs j (of_nat k) s = (Ok p, s) \<and> unat p = P k))"

lemma runs_map_log:
  assumes "log_mapped bs j P" and "closed s" and "k < 2 ^ 32"
  obtains p where "runs (map_log_block bs j (of_nat k)) s p (jd_image s)" and "unat p = P k"
  using assms unfolding log_mapped_def runs_def by blast

lemma runs_read_log:
  assumes "log_mapped bs j P" and "closed s" and "k < 2 ^ 32"
  shows "runs (read_log_block bs j (of_nat k)) s (block_of bs (jd_image s) (P k)) (jd_image s)"
proof -
  obtain p where p: "runs (map_log_block bs j (of_nat k)) s p (jd_image s)" "unat p = P k"
    by (rule runs_map_log [OF assms])
  show ?thesis unfolding read_log_block_def
    by (rule runs_bind [OF p(1)]) (use p(2) runs_read in \<open>metis block_of_def\<close>)
qed

lemma runs_write_log:
  assumes "log_mapped bs j P" and "closed s" and "k < 2 ^ 32" and "length d = bs"
  shows "runs (write_log_block bs j (of_nat k) d) s () (store bs (jd_image s) (P k) d)"
proof -
  obtain p where p: "runs (map_log_block bs j (of_nat k)) s p (jd_image s)" "unat p = P k"
    by (rule runs_map_log [OF assms(1-3)])
  show ?thesis unfolding write_log_block_def
    by (rule runs_bind [OF p(1)]) (use p(2) assms(4) in \<open>simp add: runs_write store_def flip: p(2)\<close>,
      metis runs_write)
qed

lemma runs_read_log0:
  "log_mapped bs j P \<Longrightarrow> closed s \<Longrightarrow>
   runs (read_log_block bs j 0) s (block_of bs (jd_image s) (P 0)) (jd_image s)"
  using runs_read_log [of bs j P s 0] by simp

text \<open>The journal superblock with a new head; its parse.\<close>

definition head_block :: "bool \<Rightarrow> u32 \<Rightarrow> u32 \<Rightarrow> bytes \<Rightarrow> bytes" where
  "head_block c seq start b =
     (let b = put_all b [(24, be_bytes 4 seq), (28, be_bytes 4 start)]
      in if c then put b 252 (be_bytes 4 (sb_csum b)) else b)"

lemma length_head_block [simp]: "1024 \<le> length b \<Longrightarrow> length (head_block c seq start b) = length b"
  by (simp add: head_block_def Let_def put_all_Cons length_put)

lemma runs_head:
  assumes "log_mapped bs j P" and "closed s" and "1024 \<le> bs"
  shows "runs (write_journal_head bs j c seq start) s ()
    (store bs (jd_image s) (P 0) (head_block c seq start (block_of bs (jd_image s) (P 0))))"
proof -
  let ?b = "block_of bs (jd_image s) (P 0)"
  let ?p = "put_all ?b [(24, be_bytes 4 seq), (28, be_bytes 4 start)]"
  have lp: "length ?p = bs" using assms(3) by (simp add: put_all_Cons length_put)
  have h: "(if c then finalize_journal_sb_csum ?p else Ok ?p) = Ok (head_block c seq start ?b)"
    using assms(3) lp by (simp add: finalize_journal_sb_csum_ok head_block_def Let_def)
  have p: "patch_journal_sb_head ?b seq start = Ok ?p"
    using assms(3) by (simp add: patch_journal_sb_head_ok)
  show ?thesis unfolding write_journal_head_def
    apply (rule runs_bind [OF runs_read_log0 [OF assms(1,2)]])
    apply (rule runs_bind, erule runs_lift, rule p)
    apply (rule runs_bind, erule runs_lift, rule h)
    apply (rule runs_bind)
     apply (rule runs_write_log [OF assms(1), where k = 0, simplified], assumption)
     apply (use assms(3) in simp)
    apply (metis runs_flush)
    done
qed

lemma parse_head:
  assumes "JournalSuperblock_parse b = Ok sb"
  shows "JournalSuperblock_parse (head_block c seq start b) = Ok (sb\<lparr> jsb_sequence := seq, jsb_start := start \<rparr>)"
proof -
  have len: "1024 \<le> length b" using assms
    by (auto simp: JournalSuperblock_parse_def JBD2_SUPERBLOCK_MIN_LEN_def split: if_splits)
  obtain ws where ws: "head_block c seq start b = put_all b ((24, be_bytes 4 seq) # (28, be_bytes 4 start) # ws)"
    "layout 252 ws 256" "ws = [] \<or> (\<exists>d. ws = [(252, d)])"
  proof (cases c)
    case True
    then show thesis using that [of "[(252, be_bytes 4 (sb_csum (put_all b [(24, be_bytes 4 seq), (28, be_bytes 4 start)])))]"]
      by (simp add: head_block_def Let_def put_all_Cons)
  qed (use that [of "[]"] in \<open>simp add: head_block_def Let_def put_all_Cons\<close>)
  let ?ws = "(24, be_bytes 4 seq) # (28, be_bytes 4 start) # ws"
  have lay: "layout 0 ?ws (length b)" using ws(2,3) len by auto
  have other: "slice (put_all b ?ws) off n = slice b off n"
    if "(off + n \<le> 24 \<or> 32 \<le> off) \<and> (off + n \<le> 252 \<or> 256 \<le> off)" for off n
    by (rule slice_put_all_other [OF lay]) (use that ws(2,3) in auto)
  have fields: "slice (put_all b ?ws) 24 4 = be_bytes 4 seq" "slice (put_all b ?ws) 28 4 = be_bytes 4 start"
    using slice_put_all [OF lay, of 24 4] slice_put_all [OF lay, of 28 4] by simp_all
  show ?thesis unfolding ws(1)
    using assms len length_put_all [OF lay] fields other
    by (auto simp: JournalSuperblock_parse_ok endian_simps split: if_splits)
qed

lemma live_head:
  "live_sb_of b = Ok ls \<Longrightarrow> live_sb_of (head_block c seq start b) =
    Ok (ls\<lparr> ls_sb := (ls_sb ls)\<lparr> jsb_sequence := seq, jsb_start := start \<rparr> \<rparr>)"
  by (auto simp: live_sb_of_def bind_eq_Ok parse_head has_incompat_def)

section \<open>The superblock's block\<close>

text \<open>\<open>sb_block on bs b\<close> is the block that holds the superblock, with the recovery flag set or
  cleared.\<close>

definition sb_block :: "bool \<Rightarrow> nat \<Rightarrow> bytes \<Rightarrow> bytes" where
  "sb_block on bs b = put b (1024 mod bs) (recover_sb on (slice b (1024 mod bs) 1024))"

definition sb_idx :: "nat \<Rightarrow> nat" where
  "sb_idx bs = 1024 div bs"

lemma length_sb_block [simp]: "1024 mod bs + 1024 \<le> bs \<Longrightarrow> length b = bs \<Longrightarrow> length (sb_block on bs b) = bs"
  by (simp add: sb_block_def length_put)

lemma runs_update_sb:
  assumes "closed s" and "1024 mod bs + 1024 \<le> bs"
  obtains r where "runs (update_live_sb on) s r
    (store bs (jd_image s) (sb_idx bs) (sb_block on bs (block_of bs (jd_image s) (sb_idx bs))))"
proof -
  let ?off = "1024 div bs * bs" and ?o = "1024 mod bs"
  have pos: "?off + ?o = 1024" by simp
  have sl: "slice (image_read (jd_image s) ?off bs) ?o 1024 = image_read (jd_image s) 1024 1024"
    using slice_image_read [of ?o 1024 bs "jd_image s" ?off] assms(2) pos by simp
  let ?sb = "recover_sb on (image_read (jd_image s) 1024 1024)"
  have "image_write (jd_image s) ?off (put (image_read (jd_image s) ?off bs) ?o ?sb) = image_write (jd_image s) 1024 ?sb"
    using image_write_put [of ?o ?sb bs "jd_image s" ?off] assms(2) pos by simp
  then have "runs (update_live_sb on) s ?sb
    (store bs (jd_image s) (sb_idx bs) (sb_block on bs (block_of bs (jd_image s) (sb_idx bs))))"
    using assms(1) update_live_sb_ok [OF assms(1), of on]
    by (simp add: runs_def Let_def store_def sb_block_def block_of_def sb_idx_def sl)
  then show thesis using that by blast
qed

lemma runs_updated_sb:
  assumes "closed s" and "1024 mod bs + 1024 \<le> bs"
    and "\<And>t. closed t \<Longrightarrow> jd_image t =
      store bs (jd_image s) (sb_idx bs) (sb_block on bs (block_of bs (jd_image s) (sb_idx bs))) \<Longrightarrow> runs k t b img"
  shows "runs (bindS (update_live_sb on) (\<lambda>_. k)) s b img"
proof -
  obtain r where r: "runs (update_live_sb on) s r
    (store bs (jd_image s) (sb_idx bs) (sb_block on bs (block_of bs (jd_image s) (sb_idx bs))))"
    by (rule runs_update_sb [OF assms(1,2)])
  show ?thesis by (rule runs_bind [OF r assms(3)])
qed

section \<open>The journaled blocks\<close>

definition staged_data :: "transaction \<Rightarrow> (nat \<times> bytes) list" where
  "staged_data txn = foldl (\<lambda>m (b, staged). bt_insert b (sb_data staged) m) [] (txn_blocks txn)"

definition journaled :: "nat \<Rightarrow> transaction \<Rightarrow> (nat \<Rightarrow> u8) \<Rightarrow> (nat \<times> bytes) list" where
  "journaled bs txn img = bt_insert (sb_idx bs)
     (sb_block True bs (case map_of (staged_data txn) (sb_idx bs) of
        Some d \<Rightarrow> d | None \<Rightarrow> block_of bs img (sb_idx bs))) (staged_data txn)"

definition txn_keys :: "nat \<Rightarrow> transaction \<Rightarrow> nat set" where
  "txn_keys bs txn = insert (sb_idx bs) (fst ` set (txn_blocks txn))"

lemma fold_staged:
  "bt_ok m \<Longrightarrow> (let r = foldl (\<lambda>m (b, staged). bt_insert b (sb_data staged) m) m blocks in
     bt_ok r \<and> fst ` set r = fst ` set m \<union> fst ` set blocks
     \<and> snd ` set r \<subseteq> snd ` set m \<union> (sb_data \<circ> snd) ` set blocks)"
proof (induction blocks arbitrary: m)
  case (Cons x blocks)
  obtain b st where x: "x = (b, st)" by (cases x)
  note IH = Cons.IH [OF bt_ok_insert [OF Cons.prems, of b "sb_data st"]]
  have "snd ` set (bt_insert b (sb_data st) m) \<subseteq> insert (sb_data st) (snd ` set m)"
    using set_bt_insert [of b "sb_data st" m] by auto
  then show ?case using IH x by (simp add: Let_def keys_bt_insert) blast
qed simp

lemma staged_data_props:
  assumes "whole_blocks bs (txn_blocks txn)"
  shows "bt_ok (staged_data txn)" and "fst ` set (staged_data txn) = fst ` set (txn_blocks txn)"
    and "\<forall>(b, d) \<in> set (staged_data txn). length d = bs"
proof -
  have f: "bt_ok (staged_data txn)" "fst ` set (staged_data txn) = fst ` set (txn_blocks txn)"
    "snd ` set (staged_data txn) \<subseteq> (sb_data \<circ> snd) ` set (txn_blocks txn)"
    using fold_staged [of "[] :: (nat \<times> bytes) list" "txn_blocks txn"]
    by (simp_all add: Let_def staged_data_def)
  show "bt_ok (staged_data txn)" "fst ` set (staged_data txn) = fst ` set (txn_blocks txn)"
    by (fact f(1), fact f(2))
  have "length (sb_data st) = bs" if "(b, st) \<in> set (txn_blocks txn)" for b st
  proof -
    have "map_of (txn_blocks txn) b = Some st"
      using that assms bt_ok_distinct [of "txn_blocks txn"] by (simp add: whole_blocks_def)
    then show ?thesis using assms unfolding whole_blocks_def by blast
  qed
  then have "length ((sb_data \<circ> snd) x) = bs" if "x \<in> set (txn_blocks txn)" for x
    using that by (cases x) simp
  then have "\<forall>d \<in> (sb_data \<circ> snd) ` set (txn_blocks txn). length d = bs"
    by (simp only: ball_simps(9)) blast
  then have len: "length d = bs" if "d \<in> snd ` set (staged_data txn)" for d
    using subsetD [OF f(3) that] by (rule bspec)
  have "length (snd x) = bs" if "x \<in> set (staged_data txn)" for x
    by (rule len) (use that in \<open>rule imageI\<close>)
  then show "\<forall>(b, d) \<in> set (staged_data txn). length d = bs"
    by (intro ballI) (simp add: case_prod_beta)
qed

lemma journaled_props:
  assumes "whole_blocks bs (txn_blocks txn)" and "1024 mod bs + 1024 \<le> bs"
  shows "distinct (map fst (journaled bs txn img))" and "fst ` set (journaled bs txn img) = txn_keys bs txn"
    and "\<forall>(b, d) \<in> set (journaled bs txn img). length d = bs"
    and "length (journaled bs txn img) = card (txn_keys bs txn)"
proof -
  note p = staged_data_props [OF assms(1)]
  let ?d = "sb_block True bs (case map_of (staged_data txn) (sb_idx bs) of
        Some d \<Rightarrow> d | None \<Rightarrow> block_of bs img (sb_idx bs))"
  show d: "distinct (map fst (journaled bs txn img))"
    unfolding journaled_def by (intro bt_ok_distinct bt_ok_insert p(1))
  show k: "fst ` set (journaled bs txn img) = txn_keys bs txn"
    by (simp add: journaled_def keys_bt_insert p(2) txn_keys_def)
  have "length (case map_of (staged_data txn) (sb_idx bs) of
        Some d \<Rightarrow> d | None \<Rightarrow> block_of bs img (sb_idx bs)) = bs"
    using p(3) by (auto split: option.split dest: map_of_SomeD)
  then have "length ?d = bs" using assms(2) by simp
  then show "\<forall>(b, d) \<in> set (journaled bs txn img). length d = bs"
    using set_bt_insert [of "sb_idx bs" ?d "staged_data txn"] p(3) unfolding journaled_def by blast
  show "length (journaled bs txn img) = card (txn_keys bs txn)"
    using distinct_card [OF d] k by simp
qed

lemma journaled_blocks_eq:
  assumes "closed s" and "1024 mod bs + 1024 \<le> bs" and "whole_blocks bs (txn_blocks txn)"
  shows "journaled_blocks bs txn s = (Ok (journaled bs txn (jd_image s)), s)"
proof -
  let ?base = "case map_of (staged_data txn) (sb_idx bs) of
        Some d \<Rightarrow> d | None \<Rightarrow> block_of bs (jd_image s) (sb_idx bs)"
  have len: "length ?base = bs"
    using staged_data_props(3) [OF assms(3)] by (auto split: option.split dest: map_of_SomeD)
  have base: "(case map_of (staged_data txn) (sb_idx bs) of
      Some d \<Rightarrow> ret d | None \<Rightarrow> jd_read (sb_idx bs * bs) bs) s = (Ok ?base, s)"
    using assms(1) by (simp add: jd_read_closed block_of_def split: option.split)
  have patch: "patch_recover_in_block ?base (1024 mod bs) True = Ok (sb_block True bs ?base)"
    unfolding sb_block_def by (rule patch_recover_ok) (use assms(2) len in simp)
  have bs: "bs \<noteq> 0" using assms(2) by (cases bs) simp_all
  show ?thesis
    unfolding journaled_blocks_def if_not_P [OF bs] Let_def staged_data_def [symmetric]
      bindS_def [of "case_option _ _ _"] base [unfolded sb_idx_def]
    using patch by (simp add: journaled_def sb_idx_def cong: option.case_cong)
qed

lemma runs_journaled:
  "closed s \<Longrightarrow> 1024 mod bs + 1024 \<le> bs \<Longrightarrow> whole_blocks bs (txn_blocks txn) \<Longrightarrow>
   runs (journaled_blocks bs txn) s (journaled bs txn (jd_image s)) (jd_image s)"
  by (simp add: runs_def journaled_blocks_eq)

section \<open>The log that commit writes\<close>

definition log_copy :: "bytes \<Rightarrow> bytes" where
  "log_copy data = (if escaped data then put data 0 [0, 0, 0, 0] else data)"

definition entry_tag :: "live_sb \<Rightarrow> u32 \<Rightarrow> nat \<times> bytes \<Rightarrow> block_tag" where
  "entry_tag ls seq = (\<lambda>(b, d). \<lparr> tag_blocknr = of_nat b,
     tag_flags = (if escaped d then JBD2_FLAG_ESCAPE else 0),
     tag_checksum = (if ls_has_csum ls
       then crc_ref (ls_seed ls) (be_bytes 4 seq @ take (length (log_copy d) mod 2 ^ 32) (log_copy d)) else 0) \<rparr>)"

lemma log_entries_ok:
  "map_each (log_entry ls seq) jnl = Ok (map (\<lambda>x. (entry_tag ls seq x, log_copy (snd x))) jnl)"
  by (rule map_each_Ok)
     (auto simp: log_entry_def entry_tag_def log_copy_def Let_def jbd2_data_block_csum_ok)

lemma length_log_copy [simp]: "4 \<le> length d \<Longrightarrow> length (log_copy d) = length d"
  by (simp add: log_copy_def length_put)

lemma log_copy_restored:
  "4 \<le> length d \<Longrightarrow> escaped d \<Longrightarrow> put (log_copy d) 0 (be_bytes 4 JBD2_MAGIC_NUMBER) = d"
  using put_slice_id [of 0 4 d] by (auto simp: log_copy_def escaped_def put_put_same)

lemma advance_nat:
  "Suc k < unat maxlen \<Longrightarrow> advance first maxlen (of_nat k) = of_nat (Suc k)"
proof -
  assume k: "Suc k < unat maxlen"
  then have "unat (of_nat (Suc k) :: u32) = Suc k"
    using unat_bound [of maxlen] by (intro unat_of_nat_small) simp
  then have "\<not> maxlen \<le> of_nat k + 1" using k by (simp add: word_le_nat_alt add.commute)
  then show ?thesis by (simp add: advance_def add.commute)
qed

definition log_cells :: "(nat \<Rightarrow> nat) \<Rightarrow> nat \<Rightarrow> bytes list \<Rightarrow> (nat \<times> bytes) list" where
  "log_cells P k ds = zip (map P [k..<k + length ds]) ds"

lemma log_cells_simps [simp]:
  "log_cells P k [] = []" "log_cells P k (d # ds) = (P k, d) # log_cells P (Suc k) ds"
  by (simp_all add: log_cells_def upt_conv_Cons del: upt_Suc)

lemma keys_log_cells: "map fst (log_cells P k ds) = map P [k..<k + length ds]"
  by (simp add: log_cells_def)

lemma in_log_cells: "i < length ds \<Longrightarrow> (P (k + i), ds ! i) \<in> set (log_cells P k ds)"
  by (force simp: log_cells_def in_set_zip)

lemma log_cells_lengths: "\<forall>d \<in> set ds. length d = bs \<Longrightarrow> \<forall>(b, d) \<in> set (log_cells P k ds). length d = bs"
  by (auto simp: log_cells_def dest: set_zip_rightD)

lemma runs_write_logged:
  assumes "log_mapped bs j P"
  shows "closed s \<Longrightarrow> \<forall>d \<in> set ds. length d = bs \<Longrightarrow> k + length ds < unat maxlen \<Longrightarrow>
    runs (write_logged bs j first maxlen (of_nat k) ds) s (of_nat (k + length ds))
      (store_all bs (log_cells P k ds) (jd_image s))"
proof (induction ds arbitrary: k s)
  case Nil
  then show ?case by (simp add: runs_def)
next
  case (Cons d ds)
  have k: "k < 2 ^ 32" using Cons.prems(3) unat_bound [of maxlen] by simp
  have w: "runs (write_log_block bs j (of_nat k) d) s () (store bs (jd_image s) (P k) d)"
    by (rule runs_write_log [OF assms Cons.prems(1) k]) (use Cons.prems(2) in simp)
  show ?case
    unfolding write_logged.simps
  proof (rule runs_bind [OF w])
    fix t
    assume t: "closed t" "jd_image t = store bs (jd_image s) (P k) d"
    have "advance first maxlen (of_nat k) = of_nat (Suc k)"
      by (rule advance_nat) (use Cons.prems(3) in simp)
    then show "runs (write_logged bs j first maxlen (advance first maxlen (of_nat k)) ds) t
        (of_nat (k + length (d # ds))) (store_all bs (log_cells P k (d # ds)) (jd_image s))"
      using Cons.IH [OF t(1), of "Suc k"] Cons.prems t(2) by simp
  qed
qed

text \<open>The commit block.\<close>

lemma commit_block_made:
  assumes "1024 \<le> n"
  obtains b b' where "CommitBlock_emit \<lparr> cb_sequence = seq, cb_commit_sec = 0, cb_commit_nsec = 0 \<rparr> n = Ok b"
    and "(if c then finalize_commit_csum b seed else Ok b) = Ok b'" and "length b' = n"
    and "slice b' 0 4 = be_bytes 4 JBD2_MAGIC_NUMBER" and "slice b' 4 4 = be_bytes 4 JBD2_COMMIT_BLOCK"
    and "slice b' 8 4 = be_bytes 4 seq" and "c \<longrightarrow> verify_commit_csum b' seed = Ok True"
proof -
  let ?cb = "\<lparr> cb_sequence = seq, cb_commit_sec = 0, cb_commit_nsec = 0 \<rparr>"
  let ?b = "put_all (replicate n 0) (commit_fields ?cb)"
  have e: "CommitBlock_emit ?cb n = Ok ?b" using assms by (simp add: CommitBlock_emit_fields)
  have len: "length ?b = n" using assms length_commit_fields [of n ?cb] by simp
  have f: "slice ?b 0 4 = be_bytes 4 JBD2_MAGIC_NUMBER" "slice ?b 4 4 = be_bytes 4 JBD2_COMMIT_BLOCK"
    "slice ?b 8 4 = be_bytes 4 seq"
    using assms by (simp_all add: commit_fields_def put_all_simps)
  show thesis
  proof (cases c)
    case True
    obtain x :: u32 where x: "finalize_commit_csum ?b seed = Ok (put (put ?b 12 [4, 4]) 16 (be_bytes 4 x))"
    proof (rule finalize_commit_csum_ok [of ?b seed])
      show "20 \<le> length ?b" using len assms by simp
    qed
    let ?b' = "put (put ?b 12 [4, 4]) 16 (be_bytes 4 x)"
    have "verify_commit_csum ?b' seed = Ok True"
      using finalized_commit_verifies [of ?b seed] x len assms by simp
    moreover have "slice ?b' off 4 = slice ?b off 4" if "off \<le> 8" for off
      using that len assms by (simp add: slice_put_below length_put)
    ultimately show thesis using that [OF e, of ?b'] True x f len assms by (simp add: length_put)
  next
    case False
    then show thesis using that [OF e, of ?b] f len by simp
  qed
qed

section \<open>The checkpoint\<close>

lemma runs_checkpoint:
  assumes "\<And>n. crash \<noteq> MidCheckpoint n"
  shows "closed s \<Longrightarrow> runs (checkpoint bs crash i ws) s True (store_all bs ws (jd_image s))"
proof (induction ws arbitrary: i s)
  case Nil
  then show ?case by (simp add: runs_def)
next
  case (Cons w ws)
  obtain b d where w: "w = (b, d)" by (cases w)
  have go: "\<not> (case crash of MidCheckpoint n \<Rightarrow> n \<le> i | _ \<Rightarrow> False)"
    using assms by (cases crash) auto
  have "runs (jd_write (b * bs) d) s () (store bs (jd_image s) b d)"
    unfolding store_def by (rule runs_write [OF Cons.prems])
  then show ?case unfolding w checkpoint.simps if_not_P [OF go]
    by (rule runs_bind) (use Cons.IH in force)
qed

lemma runs_checkpoint_mid:
  "closed s \<Longrightarrow> i \<le> n \<Longrightarrow>
   runs (checkpoint bs (MidCheckpoint n) i ws) s (length ws \<le> n - i) (store_all bs (take (n - i) ws) (jd_image s))"
proof (induction ws arbitrary: i s)
  case Nil
  then show ?case by (simp add: runs_def)
next
  case (Cons w ws)
  obtain b d where w: "w = (b, d)" by (cases w)
  show ?case
  proof (cases "i = n")
    case True
    then show ?thesis using Cons.prems w by (simp add: runs_def)
  next
    case False
    then have i: "\<not> n \<le> i" "n - i = Suc (n - Suc i)" using Cons.prems(2) by auto
    have "runs (jd_write (b * bs) d) s () (store bs (jd_image s) b d)"
      unfolding store_def by (rule runs_write [OF Cons.prems(1)])
    then show ?thesis unfolding w checkpoint.simps crash_point.case if_not_P [OF i(1)]
    proof (rule runs_bind)
      fix t
      assume "closed t" "jd_image t = store bs (jd_image s) b d"
      then show "runs (checkpoint bs (MidCheckpoint n) (Suc i) ws) t (length ((b, d) # ws) \<le> n - i)
          (store_all bs (take (n - i) ((b, d) # ws)) (jd_image s))"
        using Cons.IH [of t "Suc i"] i Cons.prems(2) by simp
    qed
  qed
qed

section \<open>Commit\<close>

text \<open>The situation in which a transaction is committed: the device is closed, log block \<open>k\<close> lies
  at \<open>P k\<close>, the superblock fits in its block, the live journal superblock parses to \<open>ls\<close>, the
  staged blocks are whole and have numbers that the tags can hold, they fit in one descriptor, and
  the log area holds the transaction with a block to spare.\<close>

definition commit_setup :: "nat \<Rightarrow> journal \<Rightarrow> (nat \<Rightarrow> nat) \<Rightarrow> live_sb \<Rightarrow> transaction \<Rightarrow> jdev \<Rightarrow> bool" where
  "commit_setup bs j P ls txn s \<longleftrightarrow>
     closed s \<and> log_mapped bs j P \<and> 1024 mod bs + 1024 \<le> bs \<and> bs < 2 ^ 32
     \<and> live_sb_of (block_of bs (jd_image s) (P 0)) = Ok ls
     \<and> txn_blocks txn \<noteq> [] \<and> txn_revokes txn = [] \<and> whole_blocks bs (txn_blocks txn)
     \<and> (\<forall>b \<in> txn_keys bs txn. b < 2 ^ 64 \<and> blocknr_fits (ls_fmt ls) (ls_has_64bit ls) (of_nat b))
     \<and> card (txn_keys bs txn)
         \<le> descriptor_block_tag_capacity bs (ls_fmt ls) (ls_has_64bit ls) (ls_has_csum ls)
     \<and> 0 < unat (jsb_first (ls_sb ls))
     \<and> unat (jsb_first (ls_sb ls)) + card (txn_keys bs txn) + 2 < unat (jsb_maxlen (ls_sb ls))"

text \<open>The image when the commit block and the recovery flag are durable, and the image cleaned
  up after the checkpoint.\<close>

definition log_image :: "nat \<Rightarrow> (nat \<Rightarrow> nat) \<Rightarrow> nat \<Rightarrow> bytes \<Rightarrow> (nat \<times> bytes) list \<Rightarrow> (nat \<Rightarrow> u8) \<Rightarrow> (nat \<Rightarrow> u8)" where
  "log_image bs P f desc jnl img = store_all bs (log_cells P f (desc # map (\<lambda>x. log_copy (snd x)) jnl)) img"

definition with_head :: "nat \<Rightarrow> (nat \<Rightarrow> nat) \<Rightarrow> bool \<Rightarrow> u32 \<Rightarrow> u32 \<Rightarrow> (nat \<Rightarrow> u8) \<Rightarrow> (nat \<Rightarrow> u8)" where
  "with_head bs P c seq start img = store bs img (P 0) (head_block c seq start (block_of bs img (P 0)))"

definition with_flag :: "nat \<Rightarrow> bool \<Rightarrow> (nat \<Rightarrow> u8) \<Rightarrow> (nat \<Rightarrow> u8)" where
  "with_flag bs on img = store bs img (sb_idx bs) (sb_block on bs (block_of bs img (sb_idx bs)))"

definition committed ::
  "nat \<Rightarrow> (nat \<Rightarrow> nat) \<Rightarrow> live_sb \<Rightarrow> u32 \<Rightarrow> bytes \<Rightarrow> bytes \<Rightarrow> (nat \<times> bytes) list \<Rightarrow> (nat \<Rightarrow> u8) \<Rightarrow> (nat \<Rightarrow> u8)" where
  "committed bs P ls seq desc com jnl img =
     with_flag bs True
       (store bs (with_head bs P (ls_has_csum ls) seq (jsb_first (ls_sb ls))
                   (log_image bs P (unat (jsb_first (ls_sb ls))) desc jnl img))
          (P (unat (jsb_first (ls_sb ls)) + length jnl + 1)) com)"

definition cleaned :: "nat \<Rightarrow> (nat \<Rightarrow> nat) \<Rightarrow> live_sb \<Rightarrow> u32 \<Rightarrow> (nat \<Rightarrow> u8) \<Rightarrow> (nat \<Rightarrow> u8)" where
  "cleaned bs P ls seq img = with_flag bs False (with_head bs P (ls_has_csum ls) (seq + 1) 0 img)"

definition after_crash ::
  "nat \<Rightarrow> (nat \<Rightarrow> nat) \<Rightarrow> live_sb \<Rightarrow> u32 \<Rightarrow> crash_point \<Rightarrow> (nat \<times> bytes) list \<Rightarrow> (nat \<Rightarrow> u8) \<Rightarrow> (nat \<Rightarrow> u8)" where
  "after_crash bs P ls seq crash jnl img =
     (case crash of
        NoCrash \<Rightarrow> cleaned bs P ls seq (store_all bs jnl img)
      | AfterCommitBlock \<Rightarrow> img
      | MidCheckpoint n \<Rightarrow> if length jnl \<le> n then cleaned bs P ls seq (store_all bs jnl img)
                          else store_all bs (take n jnl) img)"

lemma runs_flushed:
  "runs m s a img \<Longrightarrow> (\<And>t. closed t \<Longrightarrow> jd_image t = img \<Longrightarrow> runs k t b img') \<Longrightarrow>
   runs (bindS m (\<lambda>_. bindS jd_flush (\<lambda>_. k))) s b img'"
  by (erule runs_bind) (metis runs_bind runs_flush)

lemma runs_cleaned:
  assumes "log_mapped bs j P" and "closed s" and "1024 mod bs + 1024 \<le> bs"
  shows "runs (bindS (write_journal_head bs j (ls_has_csum ls) (seq + 1) 0)
      (\<lambda>_. bindS (update_live_sb False) (\<lambda>_. jd_flush))) s () (cleaned bs P ls seq (jd_image s))"
proof (rule runs_bind)
  show "runs (write_journal_head bs j (ls_has_csum ls) (seq + 1) 0) s ()
      (with_head bs P (ls_has_csum ls) (seq + 1) 0 (jd_image s))"
    unfolding with_head_def by (rule runs_head [OF assms(1,2)]) (use assms(3) in simp)
  fix t
  assume t: "closed t" "jd_image t = with_head bs P (ls_has_csum ls) (seq + 1) 0 (jd_image s)"
  obtain r where "runs (update_live_sb False) t r (with_flag bs False (jd_image t))"
    unfolding with_flag_def by (rule runs_update_sb [OF t(1) assms(3), of False])
  then show "runs (bindS (update_live_sb False) (\<lambda>_. jd_flush)) t () (cleaned bs P ls seq (jd_image s))"
    by (rule runs_bind) (use t(2) runs_flush in \<open>force simp: cleaned_def\<close>)
qed

lemma runs_live:
  assumes "log_mapped bs j P" and "closed s" and "live_sb_of (block_of bs (jd_image s) (P 0)) = Ok ls"
  shows "runs (live_sb bs j) s ls (jd_image s)"
  unfolding live_sb_def
  by (rule runs_bind [OF runs_read_log0 [OF assms(1,2)]]) (use assms(3) runs_lift in metis)

lemma runs_commit_block:
  assumes "log_mapped bs j P" and "closed s" and "k < 2 ^ 32"
    and "CommitBlock_emit \<lparr> cb_sequence = seq, cb_commit_sec = 0, cb_commit_nsec = 0 \<rparr> bs = Ok b"
    and "(if ls_has_csum ls then finalize_commit_csum b (ls_seed ls) else Ok b) = Ok com" and "length com = bs"
  shows "runs (write_commit_block bs j ls (of_nat k) seq) s () (store bs (jd_image s) (P k) com)"
  unfolding write_commit_block_def assms(4) bindS_simps assms(5)
  by (rule runs_bind [OF runs_write_log [OF assms(1-3,6)]]) (metis runs_flush)

lemma runs_commit_tail:
  assumes "log_mapped bs j P" and "1024 mod bs + 1024 \<le> bs" and "closed s"
  shows "runs (if crash = AfterCommitBlock then ret ()
      else bindS (checkpoint bs crash 0 jnl) (\<lambda>finished.
        if \<not> finished then ret ()
        else bindS jd_flush (\<lambda>_.
          bindS (write_journal_head bs j (ls_has_csum ls) (seq + 1) 0) (\<lambda>_.
          bindS (update_live_sb False) (\<lambda>_. jd_flush))))) s ()
    (after_crash bs P ls seq crash jnl (jd_image s))"
proof -
  have clean: "runs (bindS jd_flush (\<lambda>_. bindS (write_journal_head bs j (ls_has_csum ls) (seq + 1) 0)
      (\<lambda>_. bindS (update_live_sb False) (\<lambda>_. jd_flush)))) t () (cleaned bs P ls seq (jd_image t))"
    if "closed t" for t
    by (rule runs_bind [OF runs_flush [OF that]]) (metis runs_cleaned [OF assms(1) _ assms(2)])
  show ?thesis
  proof (cases crash)
    case NoCrash
    have "\<And>n. NoCrash \<noteq> MidCheckpoint n" and ne: "NoCrash \<noteq> AfterCommitBlock" by simp_all
    note chk = runs_checkpoint [OF this(1) assms(3), of bs 0 jnl]
    show ?thesis
      unfolding NoCrash if_not_P [OF ne]
      by (rule runs_bind [OF chk]) (use clean in \<open>force simp: after_crash_def\<close>)
  next
    case AfterCommitBlock
    then show ?thesis using runs_ret [OF assms(3)] by (simp add: after_crash_def)
  next
    case (MidCheckpoint n)
    have ne: "MidCheckpoint n \<noteq> AfterCommitBlock" by simp
    show ?thesis
      unfolding MidCheckpoint if_not_P [OF ne]
    proof (rule runs_bind [OF runs_checkpoint_mid [OF assms(3), of 0 n bs jnl]])
      fix t
      assume t: "closed t" "jd_image t = store_all bs (take (n - 0) jnl) (jd_image s)"
      show "runs (if \<not> length jnl \<le> n - 0 then ret ()
        else bindS jd_flush (\<lambda>_. bindS (write_journal_head bs j (ls_has_csum ls) (seq + 1) 0)
          (\<lambda>_. bindS (update_live_sb False) (\<lambda>_. jd_flush)))) t ()
        (after_crash bs P ls seq (MidCheckpoint n) jnl (jd_image s))"
        using t clean [OF t(1)] runs_ret [OF t(1)]
        by (cases "length jnl \<le> n") (simp_all add: after_crash_def)
    qed simp
  qed
qed

lemma runs_commit:
  assumes "commit_setup bs j P ls txn s"
  obtains desc com where
    "assemble_descriptor_block (ls_seed ls) (txn_sequence txn) bs (ls_fmt ls) (ls_has_64bit ls) (ls_has_csum ls)
       (map (entry_tag ls (txn_sequence txn)) (journaled bs txn (jd_image s))) = Ok desc" and "length desc = bs"
    and "length com = bs" and "slice com 0 4 = be_bytes 4 JBD2_MAGIC_NUMBER"
    and "slice com 4 4 = be_bytes 4 JBD2_COMMIT_BLOCK" and "slice com 8 4 = be_bytes 4 (txn_sequence txn)"
    and "ls_has_csum ls \<longrightarrow> verify_commit_csum com (ls_seed ls) = Ok True"
    and "\<And>crash. runs (commit_with_crash bs j txn crash) s ()
       (after_crash bs P ls (txn_sequence txn) crash (journaled bs txn (jd_image s))
         (committed bs P ls (txn_sequence txn) desc com (journaled bs txn (jd_image s)) (jd_image s)))"
proof -
  note st = assms [unfolded commit_setup_def]
  have map: "log_mapped bs j P" and cl: "closed s" and fit: "1024 mod bs + 1024 \<le> bs" and whole: "whole_blocks bs (txn_blocks txn)"
    using st by blast+
  let ?jnl = "journaled bs txn (jd_image s)" and ?seq = "txn_sequence txn" and ?first = "jsb_first (ls_sb ls)"
    and ?maxlen = "jsb_maxlen (ls_sb ls)" and ?c = "ls_has_csum ls"
  let ?f = "unat ?first"
  note jp = journaled_props [OF whole fit, of "jd_image s"]
  let ?tags = "map (entry_tag ls ?seq) ?jnl"
  have bs: "1024 \<le> bs" using fit by simp
  have keys: "tag_blocknr (entry_tag ls ?seq x) = of_nat (fst x)" for x
    by (simp add: entry_tag_def split: prod.split)
  have card: "0 < card (txn_keys bs txn)" by (simp add: txn_keys_def card_gt_0_iff)
  have ne: "?tags \<noteq> []" using jp(4) card by auto
  have cap: "length ?tags \<le> descriptor_block_tag_capacity bs (ls_fmt ls) (ls_has_64bit ls) ?c"
    using st jp(4) by simp
  have "\<forall>tag \<in> set ?tags. blocknr_fits (ls_fmt ls) (ls_has_64bit ls) (tag_blocknr tag)"
    using st jp(2) keys by auto
  then obtain desc where desc: "assemble_descriptor_block (ls_seed ls) ?seq bs (ls_fmt ls) (ls_has_64bit ls) ?c ?tags = Ok desc"
      "length desc = bs"
    by (rule descriptor_parses [OF ne cap])
  obtain b com where com: "CommitBlock_emit \<lparr> cb_sequence = ?seq, cb_commit_sec = 0, cb_commit_nsec = 0 \<rparr> bs = Ok b"
      "(if ?c then finalize_commit_csum b (ls_seed ls) else Ok b) = Ok com" "length com = bs"
      "slice com 0 4 = be_bytes 4 JBD2_MAGIC_NUMBER" "slice com 4 4 = be_bytes 4 JBD2_COMMIT_BLOCK"
      "slice com 8 4 = be_bytes 4 ?seq" "?c \<longrightarrow> verify_commit_csum com (ls_seed ls) = Ok True"
    by (rule commit_block_made [OF bs, of ?seq ?c "ls_seed ls"])
  let ?ds = "desc # map (\<lambda>x. log_copy (snd x)) ?jnl"
  have ds: "\<forall>d \<in> set ?ds. length d = bs" using jp(3) desc(2) bs by (auto simp: case_prod_beta)
  have area: "?f + length ?ds < unat ?maxlen" using st jp(4) by simp
  let ?i1 = "log_image bs P ?f desc ?jnl (jd_image s)"
  have k: "?f + length ?ds < 2 ^ 32" using area unat_bound [of ?maxlen] by simp
  have inv: "of_nat ?f = ?first" by simp
  have logged: "runs (write_logged bs j ?first ?maxlen ?first ?ds) t (of_nat (?f + length ?ds)) ?i1"
    if "closed t" "jd_image t = jd_image s" for t
    using runs_write_logged [OF map that(1) ds area, of ?first]
    unfolding that(2) log_image_def inv .
  have main: "runs (commit_with_crash bs j txn crash) s () (after_crash bs P ls ?seq crash ?jnl
      (committed bs P ls ?seq desc com ?jnl (jd_image s)))" (is "runs _ _ _ (after_crash _ _ _ _ _ _ ?i4)") for crash
  proof -
    have ne': "\<not> Transaction_is_empty txn" using st by (simp add: Transaction_is_empty_def)
    have nc: "\<not> descriptor_block_tag_capacity bs (ls_fmt ls) (ls_has_64bit ls) ?c < length ?tags" using cap by simp
    have rv: "write_revokes bs j ls c txn = ret c" for c using st by (simp add: write_revokes_def)
    show ?thesis
      unfolding commit_with_crash_def if_not_P [OF ne'] Let_def rv bindS_simps
      apply (rule runs_bind [OF runs_live [OF map cl]])
       apply (use st in blast)
      apply (rule runs_bind, erule runs_journaled [OF _ fit whole])
      apply (simp only: log_entries_ok bindS_simps map_map o_def fst_conv snd_conv)
      apply (subst if_not_P, rule nc)
      apply (simp only: desc(1) bindS_simps)
      apply (rule runs_bind, erule (1) logged)
      apply (simp only: rv bindS_simps)
      apply (rule runs_bind, erule runs_flush)
      apply (rule runs_bind, erule runs_head [OF map _ bs])
      apply (rule runs_bind, erule runs_commit_block [OF map _ k com(1-3)])
      apply (rule runs_updated_sb [OF _ fit], assumption)
      apply (rule runs_bind, erule runs_flush)
      apply (rule runs_image, erule runs_commit_tail [OF map fit])
      apply (simp add: committed_def with_head_def with_flag_def)
      done
  qed
  show thesis by (rule that [OF desc com(3-7) main])
qed

end
