(* ===== verification/JournalCrash.thy ===== *)
theory JournalCrash
  imports JournalRuns
begin

text \<open>
  What a crash leaves and what recovery makes of it: the scan of a committed log, the replay of its
  blocks, and the theorem they give. A committed transaction reaches the same image whether its
  checkpoint finished, stopped anywhere, or never began before \<open>recover\<close> ran.
\<close>

section \<open>Scan\<close>

fun logged_at :: "nat \<Rightarrow> block_tag list \<Rightarrow> logged_block list" where
  "logged_at k [] = []"
| "logged_at k (tag # tags) =
     \<lparr> lb_final_block = tag_blocknr tag, lb_data_log_block = ucast (of_nat k :: u32), lb_flags = tag_flags tag \<rparr>
       # logged_at (Suc k) tags"

lemma log_tags_nat:
  "k + length tags < unat maxlen \<Longrightarrow>
   log_tags first maxlen (of_nat k) tags = (logged_at k tags, of_nat (k + length tags))"
proof (induction tags arbitrary: k)
  case (Cons tag tags)
  have "advance first maxlen (of_nat k) = of_nat (Suc k)"
    by (rule advance_nat) (use Cons.prems in simp)
  then show ?case using Cons.IH [of "Suc k"] Cons.prems by simp
qed simp

lemma read_log_eq:
  assumes "log_mapped bs j P" and "closed s" and "k < 2 ^ 32"
  shows "read_log_block bs j (of_nat k) s = (Ok (block_of bs (jd_image s) (P k)), s)"
proof -
  obtain p where "map_log_block bs j (of_nat k) s = (Ok p, s)" "unat p = P k"
    using assms unfolding log_mapped_def by blast
  then show ?thesis using assms(2)
    by (simp add: read_log_block_def bindS_def jd_read_closed block_of_def)
qed

text \<open>A block's journal header.\<close>

definition header :: "bytes \<Rightarrow> u32 \<Rightarrow> u32 \<Rightarrow> bool" where
  "header b ty seq \<longleftrightarrow> 12 \<le> length b \<and> slice b 0 4 = be_bytes 4 JBD2_MAGIC_NUMBER
     \<and> slice b 4 4 = be_bytes 4 ty \<and> slice b 8 4 = be_bytes 4 seq"

definition continues :: "bytes \<Rightarrow> u32 \<Rightarrow> bool" where
  "continues b seq \<longleftrightarrow> be_word (slice b 0 4) = JBD2_MAGIC_NUMBER \<and> be_word (slice b 8 4) = seq"

lemma header_reads:
  "header b ty seq \<Longrightarrow> be32 b 0 = Ok JBD2_MAGIC_NUMBER \<and> be32 b 4 = Ok ty \<and> be32 b 8 = Ok seq"
  by (simp add: header_def be_Ok endian_simps)

lemma scan_descriptor:
  assumes "read_log_block bs j cur s = (Ok b, s)" and "header b JBD2_DESCRIPTOR_BLOCK q"
    and "parse_descriptor_block b (ls_fmt ls) (ls_has_64bit ls) = Ok tags"
    and "log_tags (jsb_first (ls_sb ls)) (jsb_maxlen (ls_sb ls))
      (advance (jsb_first (ls_sb ls)) (jsb_maxlen (ls_sb ls)) cur) tags = (lbs, c)"
  shows "scan_loop bs j ls (Suc n) cur q txns cb cr s = scan_loop bs j ls n c q txns (cb @ lbs) cr s"
  using header_reads [OF assms(2)] assms(3,4)
  unfolding scan_loop.simps bindS_Ok [of "read_log_block bs j cur", OF assms(1)]
  by (simp add: Let_def)

lemma scan_commit:
  assumes "read_log_block bs j cur s = (Ok b, s)" and "header b JBD2_COMMIT_BLOCK q"
    and "ls_has_csum ls \<longrightarrow> verify_commit_csum b (ls_seed ls) = Ok True"
  shows "scan_loop bs j ls (Suc n) cur q txns cb cr s =
    scan_loop bs j ls n (advance (jsb_first (ls_sb ls)) (jsb_maxlen (ls_sb ls)) cur) (q + 1)
      (txns @ [\<lparr> st_sequence = q, st_blocks = cb, st_revoke_log_blocks = cr \<rparr>]) [] [] s"
proof -
  have "(if ls_has_csum ls then verify_commit_csum b (ls_seed ls) else Ok True) = Ok True"
    using assms(3) by simp
  then show ?thesis
    using header_reads [OF assms(2)]
    unfolding scan_loop.simps bindS_Ok [of "read_log_block bs j cur", OF assms(1)]
    by (simp add: Let_def jbd2_consts)
qed

lemma scan_end:
  assumes "read_log_block bs j cur s = (Ok b, s)" and "12 \<le> length b" and "\<not> continues b q"
  shows "scan_loop bs j ls n cur q txns cb cr s = (Ok txns, s)"
proof (cases n)
  case (Suc m)
  then show ?thesis
    using assms(2,3)
    unfolding Suc scan_loop.simps bindS_Ok [of "read_log_block bs j cur", OF assms(1)]
    by (simp add: Let_def be_Ok continues_def)
qed simp

section \<open>Replay\<close>

lemma replay_run:
  assumes "log_mapped bs j P" and "4 \<le> bs"
    and "\<forall>(b, d) \<in> set jnl. length d = bs \<and> b < 2 ^ 64" and "length tags = length jnl"
    and "map tag_blocknr tags = map (of_nat \<circ> fst) jnl"
    and "map (\<lambda>t. tag_flags t AND JBD2_FLAG_ESCAPE \<noteq> 0) tags = map (escaped \<circ> snd) jnl"
    and "k + length jnl < 2 ^ 32"
    and "\<forall>i < length jnl. P (k + i) \<notin> fst ` set jnl"
    and "closed s" and "\<forall>i < length jnl. block_of bs (jd_image s) (P (k + i)) = log_copy (snd (jnl ! i))"
  shows "runs (for_each (replay_block bs j [] seq) (logged_at k tags)) s () (store_all bs jnl (jd_image s))"
  using assms(3-10)
proof (induction jnl arbitrary: tags k s)
  case Nil
  then show ?case by (simp add: runs_def)
next
  case (Cons x jnl)
  obtain b d where x: "x = (b, d)" by (cases x)
  obtain tag tags' where tags: "tags = tag # tags'" using Cons.prems(2) by (cases tags) auto
  have bd: "length d = bs" "b < 2 ^ 64" using Cons.prems(1) x by auto
  have tag: "tag_blocknr tag = of_nat b" "(tag_flags tag AND JBD2_FLAG_ESCAPE \<noteq> 0) = escaped d"
    using Cons.prems(3,4) x tags by auto
  have blk: "block_of bs (jd_image s) (P k) = log_copy d" using Cons.prems(8) x by force
  have kb: "k < 2 ^ 32" using Cons.prems(5) by simp
  have cast: "ucast (ucast (of_nat k :: u32) :: u64) = (of_nat k :: u32)"
    by (rule bit_word_eqI) (auto simp: bit_simps)
  have rd: "read_log_block bs j (of_nat k) s = (Ok (log_copy d), s)"
    using read_log_eq [OF assms(1) Cons.prems(7) kb] blk by simp
  have data: "(if tag_flags tag AND JBD2_FLAG_ESCAPE \<noteq> 0
      then put_at (log_copy d) 0 (be_bytes 4 JBD2_MAGIC_NUMBER) else Ok (log_copy d)) = Ok d"
    unfolding tag(2) using bd assms(2) by (simp add: put_at_Ok log_copy_restored) (simp add: log_copy_def)
  have run: "bindS (read_log_block bs j (of_nat k)) f s = f (log_copy d) s" for f :: "bytes \<Rightarrow> (jdev, unit) io"
    by (simp add: bindS_def rd)
  have nb: "unat (of_nat b :: u64) = b" using bd(2) by (simp add: unat_of_nat_small)
  have one: "runs (replay_block bs j [] seq \<lparr> lb_final_block = tag_blocknr tag,
      lb_data_log_block = ucast (of_nat k :: u32), lb_flags = tag_flags tag \<rparr>) s ()
      (store bs (jd_image s) b d)"
    using runs_write [OF Cons.prems(7), of "b * bs" d]
    by (simp add: replay_block_def cast runs_def run data [simplified] tag(1) nb store_def)
  show ?case
    unfolding tags logged_at.simps for_each.simps
  proof (rule runs_bind [OF one])
    fix t
    assume t: "closed t" "jd_image t = store bs (jd_image s) b d"
    have keep: "block_of bs (jd_image t) (P (Suc k + i)) = log_copy (snd (jnl ! i))" if "i < length jnl" for i
    proof -
      have "P (k + Suc i) \<noteq> b" using Cons.prems(6) that x by (metis Suc_mono image_eqI insertI1 fst_conv length_Cons list.set(2))
      then show ?thesis using Cons.prems(8) [rule_format, of "Suc i"] that t(2) bd(1) assms(2)
        by (simp add: block_of_store)
    qed
    have apart: "P (Suc k + i) \<notin> fst ` set jnl" if "i < length jnl" for i
      using Cons.prems(6) that by force
    have "runs (for_each (replay_block bs j [] seq) (logged_at (Suc k) tags')) t ()
        (store_all bs jnl (jd_image t))"
      by (rule Cons.IH) (use Cons.prems(1-5) t(1) tags keep apart in auto)
    then show "runs (for_each (replay_block bs j [] seq) (logged_at (Suc k) tags')) t ()
        (store_all bs (x # jnl) (jd_image s))"
      using t(2) x by simp
  qed
qed

section \<open>Recovery\<close>

text \<open>\<open>dirty_log\<close>: the image holds one committed transaction \<open>seq\<close> that logs \<open>jnl\<close>, and the log
  ends after it.\<close>

definition dirty_log ::
  "nat \<Rightarrow> (nat \<Rightarrow> nat) \<Rightarrow> live_sb \<Rightarrow> u32 \<Rightarrow> (nat \<times> bytes) list \<Rightarrow> (nat \<Rightarrow> u8) \<Rightarrow> bool" where
  "dirty_log bs P ls seq jnl img \<longleftrightarrow>
     (let first = jsb_first (ls_sb ls); f = unat first; m = length jnl in
      live_sb_of (block_of bs img (P 0)) =
        Ok (ls\<lparr> ls_sb := (ls_sb ls)\<lparr> jsb_sequence := seq, jsb_start := first \<rparr> \<rparr>)
      \<and> 0 < f \<and> f + m + 2 < unat (jsb_maxlen (ls_sb ls))
      \<and> header (block_of bs img (P f)) JBD2_DESCRIPTOR_BLOCK seq
      \<and> (\<exists>tags. parse_descriptor_block (block_of bs img (P f)) (ls_fmt ls) (ls_has_64bit ls) = Ok tags
           \<and> map tag_blocknr tags = map (of_nat \<circ> fst) jnl
           \<and> map (\<lambda>t. tag_flags t AND JBD2_FLAG_ESCAPE \<noteq> 0) tags = map (escaped \<circ> snd) jnl)
      \<and> (\<forall>i < m. block_of bs img (P (Suc f + i)) = log_copy (snd (jnl ! i)))
      \<and> header (block_of bs img (P (f + m + 1))) JBD2_COMMIT_BLOCK seq
      \<and> (ls_has_csum ls \<longrightarrow> verify_commit_csum (block_of bs img (P (f + m + 1))) (ls_seed ls) = Ok True)
      \<and> \<not> continues (block_of bs img (P (f + m + 2))) (seq + 1))"

lemma scan_dirty:
  assumes "dirty_log bs P ls seq jnl (jd_image s)" and "log_mapped bs j P" and "closed s" and "1024 \<le> bs"
  obtains tags where "scan bs j s = (Ok \<lparr> sr_txns = [\<lparr> st_sequence = seq,
      st_blocks = logged_at (Suc (unat (jsb_first (ls_sb ls)))) tags, st_revoke_log_blocks = [] \<rparr>],
      sr_last_sequence = seq \<rparr>, s)"
    and "map tag_blocknr tags = map (of_nat \<circ> fst) jnl"
    and "map (\<lambda>t. tag_flags t AND JBD2_FLAG_ESCAPE \<noteq> 0) tags = map (escaped \<circ> snd) jnl"
proof -
  let ?first = "jsb_first (ls_sb ls)" and ?maxlen = "jsb_maxlen (ls_sb ls)"
  let ?f = "unat ?first" and ?m = "length jnl"
  let ?ls = "ls\<lparr> ls_sb := (ls_sb ls)\<lparr> jsb_sequence := seq, jsb_start := ?first \<rparr> \<rparr>"
  note d = assms(1) [unfolded dirty_log_def Let_def]
  obtain tags where tags: "parse_descriptor_block (block_of bs (jd_image s) (P ?f)) (ls_fmt ls) (ls_has_64bit ls) = Ok tags"
    "map tag_blocknr tags = map (of_nat \<circ> fst) jnl"
    "map (\<lambda>t. tag_flags t AND JBD2_FLAG_ESCAPE \<noteq> 0) tags = map (escaped \<circ> snd) jnl"
    using d by blast
  have lt: "length tags = ?m" using tags(2) by (metis length_map)
  have area: "0 < ?f" "?f + ?m + 2 < unat ?maxlen" using d by blast+
  have k: "k < 2 ^ 32" if "k \<le> ?f + ?m + 2" for k using that area(2) unat_bound [of ?maxlen] by simp
  note rd = read_log_eq [OF assms(2,3)]
  have live: "live_sb bs j s = (Ok ?ls, s)"
    using rd [of 0] d by (simp add: live_sb_def bindS_def)
  obtain n where n: "unat ?maxlen = Suc (Suc n)" using area(2) by (metis add_2_eq_Suc' gr0_conv_Suc less_imp_Suc_add plus_nat.simps(2))
  have adv: "advance ?first ?maxlen (of_nat i) = of_nat (Suc i)" if "i < ?f + ?m + 2" for i
    by (rule advance_nat) (use that area(2) in simp)
  have inv: "of_nat ?f = ?first" by simp
  have tags1: "log_tags ?first ?maxlen (of_nat (Suc ?f)) tags = (logged_at (Suc ?f) tags, of_nat (Suc ?f + length tags))"
    by (rule log_tags_nat) (use area(2) lt in simp)
  have s1: "scan_loop bs j ?ls (Suc (Suc n)) (of_nat ?f) seq [] [] [] s =
      scan_loop bs j ?ls (Suc n) (of_nat (?f + ?m + 1)) seq [] (logged_at (Suc ?f) tags) [] s"
    by (subst scan_descriptor [OF rd [OF k [of ?f]], where tags = tags and q = seq
        and lbs = "logged_at (Suc ?f) tags" and c = "of_nat (?f + ?m + 1)"])
       (use d tags adv [of ?f] tags1 lt in \<open>simp_all del: of_nat_Suc of_nat_add unat_of_nat\<close>)
  have s2: "\<dots> = scan_loop bs j ?ls n (of_nat (?f + ?m + 2)) (seq + 1)
      [\<lparr> st_sequence = seq, st_blocks = logged_at (Suc ?f) tags, st_revoke_log_blocks = [] \<rparr>] [] [] s"
    by (subst scan_commit [OF rd [OF k [of "?f + ?m + 1"]]])
       (use d adv [of "?f + ?m + 1"] in \<open>simp_all del: of_nat_Suc of_nat_add unat_of_nat\<close>)
  have s3: "\<dots> = (Ok [\<lparr> st_sequence = seq, st_blocks = logged_at (Suc ?f) tags, st_revoke_log_blocks = [] \<rparr>], s)"
    by (rule scan_end [OF rd [OF k [of "?f + ?m + 2"]]]) (use d assms(4) in simp_all)
  have nz: "?first \<noteq> 0" using area(1) by (auto simp: unat_gt_0)
  have "scan bs j s = (Ok \<lparr> sr_txns = [\<lparr> st_sequence = seq,
      st_blocks = logged_at (Suc ?f) tags, st_revoke_log_blocks = [] \<rparr>], sr_last_sequence = seq \<rparr>, s)"
    using s1 s2 s3 nz n unfolding inv by (simp add: scan_def bindS_def live Let_def)
  then show thesis by (rule that [OF _ tags(2,3)])
qed

lemma recover_dirty:
  assumes dirty: "dirty_log bs P ls seq jnl (jd_image s)" and map: "log_mapped bs j P" and cl: "closed s"
    and fit: "1024 mod bs + 1024 \<le> bs"
    and csum: "ls_has_csum ls = (has_incompat (j_sb j) JBD2_FEATURE_INCOMPAT_CSUM_V2
      \<or> has_incompat (j_sb j) JBD2_FEATURE_INCOMPAT_CSUM_V3)"
    and jnl: "\<forall>(b, d) \<in> set jnl. length d = bs \<and> b < 2 ^ 64"
    and apart: "\<forall>i < length jnl. P (Suc (unat (jsb_first (ls_sb ls))) + i) \<notin> fst ` set jnl"
  shows "runs (recover bs j) s () (cleaned bs P ls seq (store_all bs jnl (jd_image s)))"
proof -
  let ?f = "unat (jsb_first (ls_sb ls))"
  have bs: "1024 \<le> bs" using fit by simp
  obtain tags where scan: "scan bs j s = (Ok \<lparr> sr_txns = [\<lparr> st_sequence = seq,
      st_blocks = logged_at (Suc ?f) tags, st_revoke_log_blocks = [] \<rparr>], sr_last_sequence = seq \<rparr>, s)"
    and tags: "map tag_blocknr tags = map (of_nat \<circ> fst) jnl"
      "map (\<lambda>t. tag_flags t AND JBD2_FLAG_ESCAPE \<noteq> 0) tags = map (escaped \<circ> snd) jnl"
    by (rule scan_dirty [OF dirty map cl bs])
  let ?sr = "\<lparr> sr_txns = [\<lparr> st_sequence = seq, st_blocks = logged_at (Suc ?f) tags, st_revoke_log_blocks = [] \<rparr>],
      sr_last_sequence = seq \<rparr>"
  note d = dirty [unfolded dirty_log_def Let_def]
  have logs: "\<forall>i < length jnl. block_of bs (jd_image s) (P (Suc ?f + i)) = log_copy (snd (jnl ! i))"
    using d by blast
  have area: "?f + length jnl + 2 < unat (jsb_maxlen (ls_sb ls))" using d by blast
  then have k: "Suc ?f + length jnl < 2 ^ 32" using unat_bound [of "jsb_maxlen (ls_sb ls)"] by simp
  have len: "length tags = length jnl" using tags(1) by (metis length_map)
  have live: "live_sb bs j s = (Ok (ls\<lparr> ls_sb := (ls_sb ls)\<lparr> jsb_sequence := seq, jsb_start := jsb_first (ls_sb ls) \<rparr> \<rparr>), s)"
    using read_log_eq [OF map cl, of 0] d by (simp add: live_sb_def bindS_def)
  have table: "runs (build_revoke_table bs j ?sr) s [] (jd_image s)"
    using cl by (simp add: build_revoke_table_def runs_def bindS_def live)
  have replay: "runs (for_each (\<lambda>txn. for_each (replay_block bs j [] (st_sequence txn)) (st_blocks txn)) (sr_txns ?sr))
      t () (store_all bs jnl (jd_image s))" if t: "closed t" "jd_image t = jd_image s" for t
  proof -
    have "runs (for_each (replay_block bs j [] seq) (logged_at (Suc ?f) tags)) t () (store_all bs jnl (jd_image t))"
      by (rule replay_run [OF map _ jnl len tags k apart t(1)]) (use bs logs t(2) in simp_all)
    then show ?thesis unfolding t(2) by (auto simp: runs_def bindS_def)
  qed
  have start: "runs (scan bs j) s ?sr (jd_image s)" using scan cl by (simp add: runs_def)
  have ne: "sr_txns ?sr \<noteq> []" by simp
  show ?thesis
    unfolding recover_def csum [symmetric]
  proof (rule runs_bind [OF start], subst if_not_P, rule ne)
    fix t
    assume t: "closed t" "jd_image t = jd_image s"
    have tbl: "runs (build_revoke_table bs j ?sr) t [] (jd_image s)"
      using t d read_log_eq [OF map t(1), of 0]
      by (simp add: build_revoke_table_def runs_def bindS_def live_sb_def)
    show "runs (bindS (build_revoke_table bs j ?sr) (\<lambda>revokes.
        bindS (for_each (\<lambda>txn. for_each (replay_block bs j revokes (st_sequence txn)) (st_blocks txn)) (sr_txns ?sr)) (\<lambda>_.
        bindS jd_flush (\<lambda>_.
        bindS (write_journal_head bs j (ls_has_csum ls) (sr_last_sequence ?sr + 1) 0) (\<lambda>_.
        bindS (update_live_sb False) (\<lambda>_. jd_flush)))))) t ()
      (cleaned bs P ls seq (store_all bs jnl (jd_image s)))"
      apply (rule runs_bind [OF tbl])
      apply (rule runs_bind, erule (1) replay)
      apply (rule runs_bind, erule runs_flush)
      apply (rule runs_image)
       apply (simp only: scan_result.simps)
       apply (erule runs_cleaned [OF map _ fit])
      apply simp
      done
  qed
qed

section \<open>The log survives the checkpoint\<close>

text \<open>The log's blocks are distinct, and apart from the blocks that the transaction writes.\<close>

definition log_apart :: "nat \<Rightarrow> (nat \<Rightarrow> nat) \<Rightarrow> live_sb \<Rightarrow> transaction \<Rightarrow> bool" where
  "log_apart bs P ls txn \<longleftrightarrow>
     (let f = unat (jsb_first (ls_sb ls)); area = insert 0 {f..f + card (txn_keys bs txn) + 2}
      in inj_on P area \<and> P ` area \<inter> txn_keys bs txn = {})"

lemma flag_escape: "(f AND JBD2_FLAG_ESCAPE \<noteq> 0) = bit (f :: u16) 0"
  using and_exp_eq_0_iff_not_bit [of f 0] by (simp add: JBD2_FLAG_ESCAPE_def)

lemma descriptor_tag_escape:
  "bit (tag_flags (descriptor_tag l idx tag)) 0 = bit (tag_flags tag) 0"
  by (simp add: descriptor_tag_def Let_def JBD2_FLAG_SAME_UUID_def JBD2_FLAG_LAST_TAG_def bit_simps
      bit_numeral_rec)

lemma fixed_tags_escape:
  "map (\<lambda>t. bit (tag_flags t) 0) (fixed_tags l idx tags) = map (\<lambda>t. bit (tag_flags t) 0) tags"
  by (induction tags arbitrary: idx) (simp_all add: descriptor_tag_escape)

lemma block_of_with_head:
  "0 < bs \<Longrightarrow> 1024 \<le> bs \<Longrightarrow> block_of bs (with_head bs P c seq start img) b =
    (if b = P 0 then head_block c seq start (block_of bs img (P 0)) else block_of bs img b)"
  by (simp add: with_head_def block_of_store)

lemma block_of_with_flag:
  "1024 mod bs + 1024 \<le> bs \<Longrightarrow> block_of bs (with_flag bs on img) b =
    (if b = sb_idx bs then sb_block on bs (block_of bs img b) else block_of bs img b)"
  by (cases "bs = 0") (auto simp: with_flag_def block_of_store)

lemma block_of_log_image:
  assumes "0 < bs" and "\<forall>d \<in> set (desc # map (\<lambda>x. log_copy (snd x)) jnl). length d = bs"
    and "inj_on P A" and "{f..f + length jnl} \<subseteq> A" and "k \<in> A"
  shows "block_of bs (log_image bs P f desc jnl img) (P k) =
    (if k = f then desc else if f < k \<and> k \<le> f + length jnl then log_copy (snd (jnl ! (k - Suc f)))
     else block_of bs img (P k))"
proof -
  let ?ds = "desc # map (\<lambda>x. log_copy (snd x)) jnl"
  note len = log_cells_lengths [OF assms(2), of P f]
  have "inj_on P (set [f..<f + length ?ds])"
    by (rule inj_on_subset [OF assms(3)]) (use assms(4) in auto)
  then have dist: "distinct (map fst (log_cells P f ?ds))"
    unfolding keys_log_cells by (simp add: distinct_map del: upt_Suc)
  have keys: "fst ` set (log_cells P f ?ds) = P ` {f..f + length jnl}"
    using arg_cong [OF keys_log_cells [of P f ?ds], of set] by (simp add: atLeastLessThanSuc_atLeastAtMost del: upt_Suc)
  show ?thesis
  proof (cases "f \<le> k \<and> k \<le> f + length jnl")
    case True
    have "(P (f + (k - f)), ?ds ! (k - f)) \<in> set (log_cells P f ?ds)"
      by (rule in_log_cells) (use True in auto)
    then have "(P k, ?ds ! (k - f)) \<in> set (log_cells P f ?ds)" using True by simp
    then have "block_of bs (log_image bs P f desc jnl img) (P k) = ?ds ! (k - f)"
      unfolding log_image_def by (rule block_of_store_all [OF assms(1) dist len])
    then show ?thesis using True by (auto simp: nth_Cons' )
  next
    case False
    have "k \<notin> {f..f + length jnl}" using False by simp
    then have "P k \<notin> P ` {f..f + length jnl}"
      using inj_on_image_mem_iff [OF assms(3,5,4)] by simp
    then have "block_of bs (log_image bs P f desc jnl img) (P k) = block_of bs img (P k)"
      unfolding log_image_def by (intro block_of_store_all_other [OF assms(1) len]) (simp only: keys, simp)
    then show ?thesis using False by auto
  qed
qed

lemma committed_dirty:
  assumes ready: "commit_setup bs j P ls txn s" and apart: "log_apart bs P ls txn"
    and jnl: "jnl = journaled bs txn (jd_image s)" and seq: "seq = txn_sequence txn"
    and desc: "assemble_descriptor_block (ls_seed ls) seq bs (ls_fmt ls) (ls_has_64bit ls) (ls_has_csum ls)
       (map (entry_tag ls seq) jnl) = Ok desc" "length desc = bs"
    and com: "length com = bs" "slice com 0 4 = be_bytes 4 JBD2_MAGIC_NUMBER"
      "slice com 4 4 = be_bytes 4 JBD2_COMMIT_BLOCK" "slice com 8 4 = be_bytes 4 seq"
      "ls_has_csum ls \<longrightarrow> verify_commit_csum com (ls_seed ls) = Ok True"
    and ends: "\<not> continues (block_of bs (jd_image s)
       (P (unat (jsb_first (ls_sb ls)) + card (txn_keys bs txn) + 2))) (seq + 1)"
  shows "dirty_log bs P ls seq jnl (store_all bs (take n jnl) (committed bs P ls seq desc com jnl (jd_image s)))"
proof -
  note st = ready [unfolded commit_setup_def]
  have fit: "1024 mod bs + 1024 \<le> bs" and whole: "whole_blocks bs (txn_blocks txn)" using st by blast+
  then have bs: "1024 \<le> bs" "0 < bs" by simp_all
  let ?first = "jsb_first (ls_sb ls)"
  obtain f where f: "f = unat ?first" by simp
  let ?m = "length jnl"
  note jp = journaled_props [OF whole fit, of "jd_image s", folded jnl]
  have m: "?m = card (txn_keys bs txn)" by (fact jp(4))
  have pos: "0 < ?m" unfolding m by (simp add: txn_keys_def card_gt_0_iff)
  have area: "0 < f" "f + ?m + 2 < unat (jsb_maxlen (ls_sb ls))" using st m f by simp_all
  let ?A = "insert 0 {f..f + ?m + 2}"
  have inj: "inj_on P ?A" and keys: "P ` ?A \<inter> fst ` set jnl = {}"
    using apart by (simp_all add: log_apart_def Let_def f m jp(2))
  have tags_ne: "map (entry_tag ls seq) jnl \<noteq> []" using pos by auto
  have cap: "length (map (entry_tag ls seq) jnl) \<le> descriptor_block_tag_capacity bs (ls_fmt ls) (ls_has_64bit ls) (ls_has_csum ls)"
    using st m by simp
  have nr: "tag_blocknr (entry_tag ls seq x) = of_nat (fst x)"
    "bit (tag_flags (entry_tag ls seq x)) 0 = escaped (snd x)" for x
    by (auto simp: entry_tag_def JBD2_FLAG_ESCAPE_def split: prod.split)
  have fits: "\<forall>tag \<in> set (map (entry_tag ls seq) jnl). blocknr_fits (ls_fmt ls) (ls_has_64bit ls) (tag_blocknr tag)"
    using st nr jp(2) by auto
  have parse: "header desc JBD2_DESCRIPTOR_BLOCK seq
    \<and> parse_descriptor_block desc (ls_fmt ls) (ls_has_64bit ls) = Ok (map (stored_tag (ls_fmt ls))
        (fixed_tags (length (map (entry_tag ls seq) jnl) - 1) 0 (map (entry_tag ls seq) jnl)))"
    by (rule descriptor_parses [OF tags_ne cap fits, of "ls_seed ls" seq]) (use desc bs in \<open>simp add: header_def\<close>)
  let ?tags = "map (stored_tag (ls_fmt ls)) (fixed_tags (length (map (entry_tag ls seq) jnl) - 1) 0 (map (entry_tag ls seq) jnl))"
  have "map tag_blocknr ?tags = map tag_blocknr (map (entry_tag ls seq) jnl)"
    using fixed_tags_keeps(2) [of "length (map (entry_tag ls seq) jnl) - 1" 0 "map (entry_tag ls seq) jnl"]
    by (simp add: o_def)
  then have t1: "map tag_blocknr ?tags = map (of_nat \<circ> fst) jnl" by (simp add: nr o_def)
  have "map (\<lambda>t. bit (tag_flags t) 0) ?tags = map (\<lambda>t. bit (tag_flags t) 0) (map (entry_tag ls seq) jnl)"
    using fixed_tags_escape [of "length (map (entry_tag ls seq) jnl) - 1" 0 "map (entry_tag ls seq) jnl"]
    by (simp add: o_def)
  then have t2: "map (\<lambda>t. tag_flags t AND JBD2_FLAG_ESCAPE \<noteq> 0) ?tags = map (escaped \<circ> snd) jnl"
    by (simp add: nr flag_escape o_def)
  have ds: "\<forall>d \<in> set (desc # map (\<lambda>x. log_copy (snd x)) jnl). length d = bs"
    using jp(3) desc(2) bs(1) by (auto simp: case_prod_beta)
  let ?I = "store_all bs (take n jnl) (committed bs P ls seq desc com jnl (jd_image s))"
  have blk: "block_of bs ?I (P k) =
      (if k = f + ?m + 1 then com
       else if k = 0 then head_block (ls_has_csum ls) seq ?first (block_of bs (jd_image s) (P 0))
       else if k = f then desc
       else if f < k \<and> k \<le> f + ?m then log_copy (snd (jnl ! (k - Suc f)))
       else block_of bs (jd_image s) (P k))" if k: "k \<in> ?A" for k
  proof -
    have nk: "P k \<notin> fst ` set jnl" using keys k by blast
    then have "block_of bs ?I (P k) = block_of bs (committed bs P ls seq desc com jnl (jd_image s)) (P k)"
      by (intro block_of_store_all_other [OF bs(2)]) (use jp(3) in \<open>auto dest: in_set_takeD simp: case_prod_beta\<close>)
    moreover have "P k \<noteq> sb_idx bs" using nk by (auto simp: jp(2) txn_keys_def)
    moreover have "P k = P (f + ?m + 1) \<longleftrightarrow> k = f + ?m + 1" "P k = P 0 \<longleftrightarrow> k = 0"
      using inj_on_eq_iff [OF inj k, of "f + ?m + 1"] inj_on_eq_iff [OF inj k, of 0] by simp_all
    moreover have sub: "{f..f + ?m} \<subseteq> ?A" by auto
    ultimately show ?thesis
      using block_of_log_image [OF bs(2) ds inj sub k, of "jd_image s"]
        block_of_log_image [OF bs(2) ds inj sub, of 0 "jd_image s"] bs area(1) com(1)
      by (simp add: committed_def block_of_with_flag [OF fit] block_of_store block_of_with_head flip: f)
  qed
  show ?thesis
    unfolding dirty_log_def Let_def f [symmetric]
  proof (intro conjI exI allI impI)
    show "live_sb_of (block_of bs ?I (P 0)) = Ok (ls\<lparr> ls_sb := (ls_sb ls)\<lparr> jsb_sequence := seq, jsb_start := ?first \<rparr> \<rparr>)"
      using st by (simp add: blk live_head)
    show "header (block_of bs ?I (P f)) JBD2_DESCRIPTOR_BLOCK seq"
      "parse_descriptor_block (block_of bs ?I (P f)) (ls_fmt ls) (ls_has_64bit ls) = Ok ?tags"
      using parse area(1) by (simp_all add: blk)
    show "header (block_of bs ?I (P (f + ?m + 1))) JBD2_COMMIT_BLOCK seq"
      using com bs by (simp add: blk header_def)
    show "verify_commit_csum (block_of bs ?I (P (f + ?m + 1))) (ls_seed ls) = Ok True" if "ls_has_csum ls"
      using com that by (simp add: blk)
    show "\<not> continues (block_of bs ?I (P (f + ?m + 2))) (seq + 1)"
      using ends area(1) by (simp add: blk m f)
    fix i
    assume "i < ?m"
    then show "block_of bs ?I (P (Suc f + i)) = log_copy (snd (jnl ! i))" by (simp add: blk)
  qed (fact t1 t2 area)+
qed

lemma recover_clean_run:
  assumes "log_mapped bs j P" and "closed s"
    and "live_sb_of (block_of bs (jd_image s) (P 0)) = Ok ls" and "jsb_start (ls_sb ls) = 0"
  shows "recover bs j s = (Ok (), s)"
proof -
  have "live_sb bs j s = (Ok ls, s)"
    using read_log_eq [OF assms(1,2), of 0] assms(3) by (simp add: live_sb_def bindS_def)
  then show ?thesis using assms(4) by (simp add: recover_def scan_def bindS_def Let_def)
qed

lemma live_cleaned:
  assumes "1024 mod bs + 1024 \<le> bs" and "P 0 \<noteq> sb_idx bs"
    and "live_sb_of (block_of bs img (P 0)) = Ok ls"
  shows "live_sb_of (block_of bs (cleaned bs P ls' seq img) (P 0)) =
    Ok (ls\<lparr> ls_sb := (ls_sb ls)\<lparr> jsb_sequence := seq + 1, jsb_start := 0 \<rparr> \<rparr>)"
  using assms live_head [OF assms(3)]
  by (simp add: cleaned_def block_of_with_flag block_of_with_head)

lemma crash_recovers:
  assumes ready: "commit_setup bs j P ls txn s" and apart: "log_apart bs P ls txn"
    and csum: "ls_has_csum ls = (has_incompat (j_sb j) JBD2_FEATURE_INCOMPAT_CSUM_V2
      \<or> has_incompat (j_sb j) JBD2_FEATURE_INCOMPAT_CSUM_V3)"
    and ends: "\<not> continues (block_of bs (jd_image s)
       (P (unat (jsb_first (ls_sb ls)) + card (txn_keys bs txn) + 2))) (txn_sequence txn + 1)"
  shows "\<exists>s1 s2 s3. commit_with_crash bs j txn crash s = (Ok (), s1) \<and> recover bs j s1 = (Ok (), s2)
    \<and> commit bs j txn s = (Ok (), s3) \<and> jd_image s2 = jd_image s3 \<and> recover bs j s2 = (Ok (), s2)"
proof -
  note st = ready [unfolded commit_setup_def]
  have map: "log_mapped bs j P" and fit: "1024 mod bs + 1024 \<le> bs" and whole: "whole_blocks bs (txn_blocks txn)"
    using st by blast+
  then have bs: "0 < bs" by simp
  obtain jnl seq where jnl: "jnl = journaled bs txn (jd_image s)" and seq: "seq = txn_sequence txn" by simp
  note jp = journaled_props [OF whole fit, of "jd_image s", folded jnl]
  obtain desc com where dc:
    "assemble_descriptor_block (ls_seed ls) seq bs (ls_fmt ls) (ls_has_64bit ls) (ls_has_csum ls)
       (map (entry_tag ls seq) jnl) = Ok desc" "length desc = bs"
    "length com = bs" "slice com 0 4 = be_bytes 4 JBD2_MAGIC_NUMBER"
    "slice com 4 4 = be_bytes 4 JBD2_COMMIT_BLOCK" "slice com 8 4 = be_bytes 4 seq"
    "ls_has_csum ls \<longrightarrow> verify_commit_csum com (ls_seed ls) = Ok True"
    and run: "\<And>crash. runs (commit_with_crash bs j txn crash) s ()
       (after_crash bs P ls seq crash jnl (committed bs P ls seq desc com jnl (jd_image s)))"
    by (rule runs_commit [OF ready, folded jnl seq]) blast
  let ?I = "committed bs P ls seq desc com jnl (jd_image s)"
  note dirty = committed_dirty [OF ready apart jnl seq dc ends [folded seq]]
  have whole_jnl: "\<forall>(b, d) \<in> set jnl. length d = bs \<and> b < 2 ^ 64"
  proof (intro ballI, clarify)
    fix b d
    assume x: "(b, d) \<in> set jnl"
    then have "b \<in> txn_keys bs txn" unfolding jp(2) [symmetric] by (rule image_eqI [rotated]) simp
    moreover have "length d = bs" using jp(3) x by blast
    ultimately show "length d = bs \<and> b < 2 ^ 64" using st by blast
  qed
  have log: "\<forall>i < length jnl. P (Suc (unat (jsb_first (ls_sb ls))) + i) \<notin> fst ` set jnl"
  proof (intro allI impI)
    fix i
    assume "i < length jnl"
    then have "Suc (unat (jsb_first (ls_sb ls))) + i
      \<in> insert 0 {unat (jsb_first (ls_sb ls))..unat (jsb_first (ls_sb ls)) + card (txn_keys bs txn) + 2}"
      by (simp add: jp(4))
    then show "P (Suc (unat (jsb_first (ls_sb ls))) + i) \<notin> fst ` set jnl"
      using apart unfolding log_apart_def Let_def jp(2) by blast
  qed
  let ?final = "cleaned bs P ls seq (store_all bs jnl ?I)"
  have replay: "runs (recover bs j) t () ?final" if t: "closed t" "jd_image t = store_all bs (take n jnl) ?I" for t n
  proof -
    have "dirty_log bs P ls seq jnl (jd_image t)" using dirty [of n] t(2) by simp
    from recover_dirty [OF this map t(1) fit csum whole_jnl log] show ?thesis
      unfolding t(2) store_all_redo [OF bs jp(1,3)] .
  qed
  have p0: "P 0 \<noteq> sb_idx bs" using apart by (auto simp: log_apart_def Let_def txn_keys_def)
  have noop: "recover bs j t = (Ok (), t)" if t: "closed t" "jd_image t = ?final" for t
  proof -
    obtain ls' where "live_sb_of (block_of bs (store_all bs jnl ?I) (P 0)) = Ok ls'"
      using dirty [of "length jnl"] by (auto simp: dirty_log_def Let_def)
    note live = live_cleaned [where P = P, OF fit p0 this, of ls seq, folded t(2)]
    show ?thesis by (rule recover_clean_run [OF map t(1) live]) simp
  qed
  then have noop': "runs (recover bs j) t () ?final" if "closed t" "jd_image t = ?final" for t
    using that by (simp add: runs_def)
  have "runs (bindS (commit_with_crash bs j txn crash) (\<lambda>_. recover bs j)) s () ?final"
  proof (rule runs_bind [OF run])
    fix t
    assume "closed t" "jd_image t = after_crash bs P ls seq crash jnl ?I"
    then show "runs (recover bs j) t () ?final"
      using replay [of t 0] replay [of t] noop' [of t]
      by (auto simp: after_crash_def split: crash_point.splits if_splits)
  qed
  moreover have "runs (commit bs j txn) s () ?final"
    using run [of NoCrash] by (simp add: commit_def after_crash_def)
  moreover obtain s1 where "commit_with_crash bs j txn crash s = (Ok (), s1)"
    using run [of crash] by (auto simp: runs_def)
  ultimately show ?thesis using noop by (auto simp: runs_def bindS_def)
qed

lemma map_of_fold_staged:
  "distinct (map fst blocks) \<Longrightarrow>
   map_of (foldl (\<lambda>m (b, staged). bt_insert b (sb_data staged) m) m blocks) b =
     (case map_of blocks b of Some st \<Rightarrow> Some (sb_data st) | None \<Rightarrow> map_of m b)"
proof (induction blocks arbitrary: m)
  case (Cons x blocks)
  obtain a st where x: "x = (a, st)" by (cases x)
  then have "map_of blocks a = None" using Cons.prems by (simp add: map_of_eq_None_iff)
  then show ?case using Cons x by (auto simp: map_of_bt_insert split: option.split)
qed simp

lemma map_of_staged:
  assumes "whole_blocks bs (txn_blocks txn)"
  shows "map_of (staged_data txn) b = map_option sb_data (map_of (txn_blocks txn) b)"
  using map_of_fold_staged [of "txn_blocks txn" "[]" b] assms bt_ok_distinct [of "txn_blocks txn"]
  by (simp add: staged_data_def whole_blocks_def split: option.splits)

text \<open>The superblock's block as the transaction sees it: staged, or as on disk.\<close>

definition sb_base :: "nat \<Rightarrow> transaction \<Rightarrow> (nat \<Rightarrow> u8) \<Rightarrow> bytes" where
  "sb_base bs txn img = (case map_of (txn_blocks txn) (sb_idx bs) of
     Some st \<Rightarrow> sb_data st | None \<Rightarrow> block_of bs img (sb_idx bs))"

lemma map_of_journaled:
  assumes "whole_blocks bs (txn_blocks txn)"
  shows "map_of (journaled bs txn img) b =
    (if b = sb_idx bs then Some (sb_block True bs (sb_base bs txn img))
     else map_option sb_data (map_of (txn_blocks txn) b))"
  using map_of_staged [OF assms]
  by (simp add: journaled_def map_of_bt_insert sb_base_def split: option.split)

lemma block_of_committed_other:
  assumes "1024 mod bs + 1024 \<le> bs" and "length com = bs"
    and "\<forall>d \<in> set (desc # map (\<lambda>x. log_copy (snd x)) jnl). length d = bs"
    and "b \<noteq> sb_idx bs"
    and "b \<notin> P ` insert 0 {unat (jsb_first (ls_sb ls))..unat (jsb_first (ls_sb ls)) + length jnl + 1}"
  shows "block_of bs (committed bs P ls seq desc com jnl img) b = block_of bs img b"
proof -
  let ?f = "unat (jsb_first (ls_sb ls))"
  let ?ds = "desc # map (\<lambda>x. log_copy (snd x)) jnl"
  have bs: "1024 \<le> bs" "0 < bs" using assms(1) by simp_all
  have keys: "fst ` set (log_cells P ?f ?ds) = P ` {?f..?f + length jnl}"
    using arg_cong [OF keys_log_cells [of P ?f ?ds], of set] by (simp add: atLeastLessThanSuc_atLeastAtMost del: upt_Suc)
  have "b \<notin> fst ` set (log_cells P ?f ?ds)" unfolding keys using assms(5) by auto
  then have "block_of bs (log_image bs P ?f desc jnl img) b = block_of bs img b"
    unfolding log_image_def by (rule block_of_store_all_other [OF bs(2) log_cells_lengths [OF assms(3)]])
  moreover have "b \<noteq> P 0" "b \<noteq> P (?f + length jnl + 1)" using assms(5) by auto
  ultimately show ?thesis
    using bs assms(2,4)
    by (simp add: committed_def block_of_with_flag [OF assms(1)] block_of_store block_of_with_head)
qed

lemma slice_sb_block:
  "1024 mod bs + 1024 \<le> bs \<Longrightarrow> length b = bs \<Longrightarrow>
   slice (sb_block on bs b) (1024 mod bs) 1024 = recover_sb on (slice b (1024 mod bs) 1024)"
  by (simp add: sb_block_def slice_put_same)

lemma sb_block_last:
  assumes "1024 mod bs + 1024 \<le> bs" and "length b = bs"
  shows "sb_block False bs (sb_block True bs b) = sb_block False bs b"
  using assms slice_sb_block [OF assms, of True]
  unfolding sb_block_def [of False bs "sb_block True bs b"]
  by (simp add: sb_block_def put_put_same)

lemma commit_result:
  assumes ready: "commit_setup bs j P ls txn s" and apart: "log_apart bs P ls txn"
  shows "\<exists>s'. commit bs j txn s = (Ok (), s') \<and> closed s'
    \<and> (\<forall>b st. (b, st) \<in> set (txn_blocks txn) \<and> b \<noteq> sb_idx bs \<longrightarrow> block_of bs (jd_image s') b = sb_data st)
    \<and> block_of bs (jd_image s') (sb_idx bs) = sb_block False bs (sb_base bs txn (jd_image s))
    \<and> (\<forall>b. b \<notin> txn_keys bs txn
          \<union> P ` insert 0 {unat (jsb_first (ls_sb ls))..unat (jsb_first (ls_sb ls)) + card (txn_keys bs txn) + 1}
        \<longrightarrow> block_of bs (jd_image s') b = block_of bs (jd_image s) b)"
proof -
  note st = ready [unfolded commit_setup_def]
  have map: "log_mapped bs j P" and fit: "1024 mod bs + 1024 \<le> bs" and whole: "whole_blocks bs (txn_blocks txn)"
    using st by blast+
  then have bs: "0 < bs" "1024 \<le> bs" by simp_all
  obtain jnl seq where jnl: "jnl = journaled bs txn (jd_image s)" and seq: "seq = txn_sequence txn" by simp
  note jp = journaled_props [OF whole fit, of "jd_image s", folded jnl]
  obtain desc com where len: "length desc = bs" "length com = bs"
    and run: "\<And>crash. runs (commit_with_crash bs j txn crash) s ()
       (after_crash bs P ls seq crash jnl (committed bs P ls seq desc com jnl (jd_image s)))"
    by (rule runs_commit [OF ready, folded jnl seq]) blast
  let ?I = "committed bs P ls seq desc com jnl (jd_image s)"
  let ?final = "cleaned bs P ls seq (store_all bs jnl ?I)"
  have "runs (commit bs j txn) s () ?final"
    using run [of NoCrash] by (simp add: commit_def after_crash_def)
  then obtain s' where s': "commit bs j txn s = (Ok (), s')" "closed s'" "jd_image s' = ?final"
    by (auto simp: runs_def)
  let ?area = "insert 0 {unat (jsb_first (ls_sb ls))..unat (jsb_first (ls_sb ls)) + length jnl + 1}"
  have sub: "P ` ?area \<inter> txn_keys bs txn = {}"
    using apart unfolding log_apart_def Let_def jp(4) by force
  have p0: "P 0 \<notin> txn_keys bs txn" using sub by blast
  have fin: "block_of bs ?final b = (if b = sb_idx bs then sb_block False bs (block_of bs (store_all bs jnl ?I) b)
      else block_of bs (store_all bs jnl ?I) b)" if "b \<noteq> P 0" for b
    using that bs by (simp add: cleaned_def block_of_with_flag [OF fit] block_of_with_head)
  have stored: "block_of bs (store_all bs jnl ?I) b = d" if "map_of jnl b = Some d" for b d
    by (rule block_of_store_all [OF bs(1) jp(1,3) map_of_SomeD [OF that]])
  have mj: "map_of jnl b = (if b = sb_idx bs then Some (sb_block True bs (sb_base bs txn (jd_image s)))
     else map_option sb_data (map_of (txn_blocks txn) b))" for b
    unfolding jnl by (rule map_of_journaled [OF whole])
  have base: "length (sb_base bs txn (jd_image s)) = bs"
    using whole by (auto simp: sb_base_def whole_blocks_def split: option.split)
  have data: "block_of bs ?final b = sb_data st" if "(b, st) \<in> set (txn_blocks txn)" "b \<noteq> sb_idx bs" for b st
  proof -
    have "map_of (txn_blocks txn) b = Some st"
      using that(1) whole bt_ok_distinct [of "txn_blocks txn"] by (simp add: whole_blocks_def)
    moreover have "b \<in> txn_keys bs txn" using that(1) by (force simp: txn_keys_def)
    ultimately show ?thesis using fin [of b] stored [of b] mj [of b] p0 that(2) by auto
  qed
  have sb: "block_of bs ?final (sb_idx bs) = sb_block False bs (sb_base bs txn (jd_image s))"
    using fin [of "sb_idx bs"] stored [of "sb_idx bs"] mj [of "sb_idx bs"] p0 sb_block_last [OF fit base]
    by (auto simp: txn_keys_def)
  have ds: "\<forall>d \<in> set (desc # map (\<lambda>x. log_copy (snd x)) jnl). length d = bs"
    using jp(3) len bs by (auto simp: case_prod_beta)
  have other: "block_of bs ?final b = block_of bs (jd_image s) b" if b: "b \<notin> txn_keys bs txn \<union> P ` ?area" for b
  proof -
    have "b \<noteq> sb_idx bs" "b \<noteq> P 0" "b \<notin> fst ` set jnl" using b by (auto simp: txn_keys_def jp(2))
    then have "block_of bs ?final b = block_of bs ?I b"
      using fin [of b] block_of_store_all_other [OF bs(1) jp(3)] by simp
    also have "\<dots> = block_of bs (jd_image s) b"
      by (rule block_of_committed_other [OF fit len(2) ds]) (use b in \<open>auto simp: txn_keys_def\<close>)
    finally show ?thesis .
  qed
  show ?thesis
    using s' data sb other unfolding jp(4) by (intro exI [of _ s']) simp
qed

lemma commit_over_capacity:
  assumes "closed s" and "log_mapped bs j P" and "1024 mod bs + 1024 \<le> bs"
    and "live_sb_of (block_of bs (jd_image s) (P 0)) = Ok ls"
    and "txn_blocks txn \<noteq> []" and "whole_blocks bs (txn_blocks txn)"
    and "descriptor_block_tag_capacity bs (ls_fmt ls) (ls_has_64bit ls) (ls_has_csum ls) < card (txn_keys bs txn)"
  shows "commit_with_crash bs j txn crash s = (Err ENOSPC, s)"
proof -
  have live: "live_sb bs j s = (Ok ls, s)"
    using read_log_eq [OF assms(2,1), of 0] assms(4) by (simp add: live_sb_def bindS_def)
  have ne: "\<not> Transaction_is_empty txn" using assms(5) by (simp add: Transaction_is_empty_def)
  note jb = journaled_blocks_eq [OF assms(1,3,6)]
  have over: "descriptor_block_tag_capacity bs (ls_fmt ls) (ls_has_64bit ls) (ls_has_csum ls)
      < length (journaled bs txn (jd_image s))"
    using assms(7) journaled_props(4) [OF assms(6,3), of "jd_image s"] by simp
  show ?thesis
    unfolding commit_with_crash_def if_not_P [OF ne] Let_def bindS_def [of "live_sb bs j"] live
      bindS_def [of "journaled_blocks bs txn"] prod.case res.case jb log_entries_ok bindS_simps length_map if_P [OF over]
    by simp
qed

section \<open>A small journal\<close>

text \<open>A journal of 16 blocks at block 100 of a device with blocks of 2048 bytes, and a transaction
  that stages block 7.\<close>

definition small_extent :: extent where
  "small_extent = \<lparr> ee_first_block = 0, ee_block_count = 16, ee_start_hi = 0, ee_start_lo = 100 \<rparr>"

definition small_root :: bytes where
  "small_root = header_bytes \<lparr> eh_magic = 0xF30A, eh_entries_count = 1, eh_max_entries_count = 4,
     eh_depth = 0, eh_generation = 0 \<rparr> @ extent_bytes small_extent @ replicate 36 0"

definition small_node :: extent_node where
  "small_node = \<lparr> en_header = \<lparr> eh_magic = 0xF30A, eh_entries_count = 1, eh_max_entries_count = 4,
     eh_depth = 0, eh_generation = 0 \<rparr>, en_data = Root small_root, en_is_root = True \<rparr>"

definition small_sb :: journal_superblock where
  "small_sb = \<lparr> jsb_blocktype = 4, jsb_blocksize = 2048, jsb_maxlen = 16, jsb_first = 1,
     jsb_sequence = 7, jsb_start = 0, jsb_feature_compat = 0, jsb_feature_incompat = 0x12,
     jsb_feature_ro_compat = 0, jsb_uuid = replicate 16 0xAB, jsb_checksum_type = 4 \<rparr>"

definition small_journal :: journal where
  "small_journal = \<lparr> j_sb = small_sb, j_inode_ref =
     \<lparr> ir_inode_num = 8, ir_inode = (inode_of_bytes (replicate 156 0))\<lparr> i_block := small_root \<rparr> \<rparr> \<rparr>"

definition small_sb_bytes :: bytes where
  "small_sb_bytes = (case JournalSuperblock_emit small_sb of Ok b \<Rightarrow> b | _ \<Rightarrow> [])"

definition small_dev :: jdev where
  "small_dev = JournalDevice_new \<lparr> dk_image = store 2048 (\<lambda>_. 0) 100 small_sb_bytes, dk_events = [] \<rparr> 2048"

definition small_txn :: transaction where
  "small_txn = stage 7 (replicate 2048 9) False (Transaction_new 7)"

definition small_pos :: "nat \<Rightarrow> nat" where
  "small_pos k = unat (fst (lookup [small_extent] (of_nat k)))"

definition small_ls :: live_sb where
  "small_ls = \<lparr> ls_sb = small_sb, ls_fmt = V3, ls_has_64bit = True, ls_has_csum = True,
     ls_seed = crc_ref EXT4_CRC32_INIT (replicate 16 0xAB) \<rparr>"

lemma small_pos: "k < 16 \<Longrightarrow> small_pos k = 100 + k"
proof -
  assume k: "k < 16"
  then have u: "unat (of_nat k :: u32) = k" by (intro unat_of_nat_small) simp
  have w: "unat (ucast (of_nat k :: u32) :: u64) = k"
    using k u by (simp add: unsigned_ucast_eq take_bit_eq_mod)
  have "fst (lookup [small_extent] (of_nat k)) = 100 + ucast (of_nat k :: u32)"
    using k u by (simp add: lookup_def covers_def small_extent_def get_actual_len_def is_unwritten_def
        EXT_INIT_MAX_LEN_def get_pblock_def)
  moreover have "unat (100 + ucast (of_nat k :: u32) :: u64) = 100 + k"
    using k w by (subst unat_add_less) simp_all
  ultimately show ?thesis by (simp add: small_pos_def)
qed

lemma small_mapped: "log_mapped 2048 small_journal small_pos"
proof -
  have len: "length small_root = 60" by (simp add: small_root_def)
  have root: "load_from_data (i_block (ir_inode (j_inode_ref small_journal))) True = Ok small_node"
    using len by (simp add: load_from_data_def small_journal_def small_node_def)
      (simp add: small_root_def slice_def)
  have tree: "tree_of img 2048 0 small_node 0 (2 ^ 32) [small_extent]" for img
  proof (rule tree_of.leaf)
    have n: "entries small_node = 1" by (simp add: entries_def small_node_def)
    then show "node_ok small_node" using len by (simp add: node_ok_def fits_def small_node_def)
    have "extent_at (en_data small_node) 0 = small_extent"
      by (simp add: extent_at_def small_node_def small_root_def slice_def)
    then show "[small_extent] = map (extent_at (en_data small_node)) [0..<entries small_node]"
      by (simp add: n)
  qed (simp_all add: small_extent_def get_actual_len_def is_unwritten_def EXT_INIT_MAX_LEN_def)
  have "map_log_block 2048 small_journal k s = (Ok (fst (lookup [small_extent] k)), s)" if "closed s" for k s
    unfolding map_log_block_def
    by (rule get_pblock_idx_lookup [OF reads_closed [OF that] root, where lo = 0 and hi = "2 ^ 32"])
       (use len tree in \<open>simp_all add: small_journal_def small_node_def\<close>)
  then show ?thesis by (simp add: log_mapped_def small_pos_def)
qed

lemma small_sb_bytes: "length small_sb_bytes = 2048" "JournalSuperblock_parse small_sb_bytes = Ok small_sb"
proof -
  have f: "JournalSuperblock_emit small_sb = Ok (put_all (replicate 2048 0) (sb_fields small_sb))"
    using JournalSuperblock_emit_fields [of small_sb] by (simp add: small_sb_def)
  then have b: "small_sb_bytes = put_all (replicate 2048 0) (sb_fields small_sb)"
    by (simp add: small_sb_bytes_def)
  have "layout 0 (sb_fields small_sb) (length (replicate 2048 (0 :: u8)))"
    by (simp add: sb_fields_def small_sb_def)
  then show "length small_sb_bytes = 2048" unfolding b by (simp add: length_put_all)
  have "bind (JournalSuperblock_emit small_sb) JournalSuperblock_parse = Ok small_sb"
    by (rule JournalSuperblock_roundtrip) (simp add: small_sb_def)
  then show "JournalSuperblock_parse small_sb_bytes = Ok small_sb" by (simp add: f b)
qed

lemma small_image: "jd_image small_dev = store 2048 (\<lambda>_. 0) 100 small_sb_bytes"
  by (simp add: small_dev_def jd_image_def JournalDevice_new_def)

lemma small_live: "live_sb_of small_sb_bytes = Ok small_ls"
  by (simp add: live_sb_of_def small_sb_bytes small_ls_def)
     (simp add: small_sb_def jbd2_csum_seed_ok from_features_def has_incompat_def
      JBD2_FEATURE_INCOMPAT_CSUM_V3_def JBD2_FEATURE_INCOMPAT_CSUM_V2_def JBD2_FEATURE_INCOMPAT_64BIT_def)

lemma small_keys: "txn_keys 2048 small_txn = {0, 7}"
  by (simp add: txn_keys_def sb_idx_def small_txn_def stage_def Transaction_new_def)

lemma small_ready: "commit_setup 2048 small_journal small_pos small_ls small_txn small_dev"
  unfolding commit_setup_def
proof (intro conjI)
  show "closed small_dev" by (simp add: small_dev_def closed_def JournalDevice_new_def)
  show "live_sb_of (block_of 2048 (jd_image small_dev) (small_pos 0)) = Ok small_ls"
    using small_pos [of 0] by (simp add: small_image block_of_store small_sb_bytes small_live)
  show "whole_blocks 2048 (txn_blocks small_txn)"
    by (simp add: whole_blocks_def small_txn_def stage_def Transaction_new_def bt_ok_def)
  show "txn_blocks small_txn \<noteq> []" "txn_revokes small_txn = []"
    by (simp_all add: small_txn_def stage_def Transaction_new_def)
qed (simp_all add: small_mapped small_keys small_ls_def small_sb_def blocknr_fits_def
    descriptor_block_tag_capacity_def)

lemma small_index:
  "unat (jsb_first (ls_sb small_ls)) = 1" "card (txn_keys 2048 small_txn) = 2"
  by (simp_all add: small_keys small_ls_def small_sb_def)

lemma small_apart: "log_apart 2048 small_pos small_ls small_txn"
proof -
  have area: "insert 0 {1..1 + 2 + 2} = {..5 :: nat}" by auto
  have img: "small_pos ` {..5} = (\<lambda>k. 100 + k) ` {..5}" by (rule image_cong) (simp_all add: small_pos)
  have "inj_on small_pos {..5}"
  proof (rule inj_onI)
    fix x y :: nat
    assume "x \<in> {..5}" "y \<in> {..5}" "small_pos x = small_pos y"
    then show "x = y" using small_pos [of x] small_pos [of y] by simp
  qed
  moreover have "100 \<le> b" if "b \<in> small_pos ` {..5}" for b
    using that unfolding img by (elim imageE) simp
  then have "small_pos ` {..5} \<inter> {0, 7} = {}" by fastforce
  ultimately have "inj_on small_pos {..5} \<and> small_pos ` {..5} \<inter> {0, 7} = {}" by (rule conjI)
  moreover have two: "card {0, 7 :: nat} = 2" by simp
  ultimately show ?thesis unfolding log_apart_def Let_def small_index small_keys two area by simp
qed

lemma small_ends: "\<not> continues (block_of 2048 (jd_image small_dev)
    (small_pos (unat (jsb_first (ls_sb small_ls)) + card (txn_keys 2048 small_txn) + 2))) (txn_sequence small_txn + 1)"
proof -
  have "block_of 2048 (\<lambda>_. 0) 105 = replicate 2048 0"
    by (rule nth_equalityI) (simp_all add: block_of_def nth_image_read)
  moreover have "be_word (replicate 4 0) = (0 :: u32)"
    by (simp add: be_word_def le_word_Cons numeral_eq_Suc)
  ultimately show ?thesis
    using small_pos [of "1 + 2 + 2"] unfolding small_index
    by (simp add: small_image block_of_store small_sb_bytes continues_def slice_replicate
        JBD2_MAGIC_NUMBER_def)
qed

section \<open>Properties\<close>

text \<open>C1: crash safety of a commit. Whatever the injected crash (none, right after the commit block,
  or after any number of checkpointed blocks), recovery at the next mount leaves the image that the
  uninterrupted commit leaves, bit for bit, and running recovery again does nothing.\<close>

theorem commit_crash_recovery:
  assumes "commit_setup bs j P ls txn s" and "log_apart bs P ls txn"
    and "ls_has_csum ls = (has_incompat (j_sb j) JBD2_FEATURE_INCOMPAT_CSUM_V2
      \<or> has_incompat (j_sb j) JBD2_FEATURE_INCOMPAT_CSUM_V3)"
    and "\<not> continues (block_of bs (jd_image s)
       (P (unat (jsb_first (ls_sb ls)) + card (txn_keys bs txn) + 2))) (txn_sequence txn + 1)"
  shows "\<exists>s1 s2 s3. commit_with_crash bs j txn crash s = (Ok (), s1) \<and> recover bs j s1 = (Ok (), s2)
    \<and> commit bs j txn s = (Ok (), s3) \<and> jd_image s2 = jd_image s3 \<and> recover bs j s2 = (Ok (), s2)"
  by (rule crash_recovers [OF assms])

theorem commit_crash_recovery_witness:
  "\<exists>s1 s2 s3. commit_with_crash 2048 small_journal small_txn (MidCheckpoint 1) small_dev = (Ok (), s1)
    \<and> recover 2048 small_journal s1 = (Ok (), s2)
    \<and> commit 2048 small_journal small_txn small_dev = (Ok (), s3) \<and> jd_image s2 = jd_image s3
    \<and> recover 2048 small_journal s2 = (Ok (), s2)"
  by (rule commit_crash_recovery [OF small_ready small_apart _ small_ends])
     (simp add: small_ls_def small_journal_def small_sb_def has_incompat_def
      JBD2_FEATURE_INCOMPAT_CSUM_V3_def JBD2_FEATURE_INCOMPAT_CSUM_V2_def)

text \<open>C13: what a commit does: every staged block is at its place, the superblock's block is the
  staged one (or the one on disk) with the recovery flag cleared and its checksum redone, and no
  other block changed, the log and the journal superblock apart.\<close>

theorem commit_effect:
  assumes "commit_setup bs j P ls txn s" and "log_apart bs P ls txn"
  shows "\<exists>s'. commit bs j txn s = (Ok (), s') \<and> closed s'
    \<and> (\<forall>b st. (b, st) \<in> set (txn_blocks txn) \<and> b \<noteq> sb_idx bs \<longrightarrow> block_of bs (jd_image s') b = sb_data st)
    \<and> block_of bs (jd_image s') (sb_idx bs) = sb_block False bs (sb_base bs txn (jd_image s))
    \<and> (\<forall>b. b \<notin> txn_keys bs txn
          \<union> P ` insert 0 {unat (jsb_first (ls_sb ls))..unat (jsb_first (ls_sb ls)) + card (txn_keys bs txn) + 1}
        \<longrightarrow> block_of bs (jd_image s') b = block_of bs (jd_image s) b)"
  by (rule commit_result [OF assms])

theorem commit_effect_witness:
  "\<exists>s'. commit 2048 small_journal small_txn small_dev = (Ok (), s')
    \<and> block_of 2048 (jd_image s') 7 = replicate 2048 9"
  using commit_effect [OF small_ready small_apart]
  by (fastforce simp: small_txn_def stage_def Transaction_new_def sb_idx_def)

text \<open>A transaction whose tags do not fit in one descriptor block is refused with \<open>ENOSPC\<close>
  before anything is written: neither the image nor the history of the device changes.\<close>

theorem commit_no_space:
  assumes "closed s" and "log_mapped bs j P" and "1024 mod bs + 1024 \<le> bs"
    and "live_sb_of (block_of bs (jd_image s) (P 0)) = Ok ls"
    and "txn_blocks txn \<noteq> []" and "whole_blocks bs (txn_blocks txn)"
    and "descriptor_block_tag_capacity bs (ls_fmt ls) (ls_has_64bit ls) (ls_has_csum ls) < card (txn_keys bs txn)"
  shows "commit_with_crash bs j txn crash s = (Err ENOSPC, s)"
  by (rule commit_over_capacity [OF assms])

definition large_txn :: transaction where
  "large_txn = \<lparr> txn_sequence = 7,
     txn_blocks = map (\<lambda>b. (b, \<lparr> sb_data = replicate 2048 0, sb_is_metadata = True \<rparr>)) [1..<200],
     txn_revokes = [] \<rparr>"

theorem commit_no_space_witness:
  "commit_with_crash 2048 small_journal large_txn NoCrash small_dev = (Err ENOSPC, small_dev)"
proof (rule commit_no_space [OF _ small_mapped])
  show "closed small_dev" by (simp add: small_dev_def closed_def JournalDevice_new_def)
  show "live_sb_of (block_of 2048 (jd_image small_dev) (small_pos 0)) = Ok small_ls"
    using small_pos [of 0] by (simp add: small_image block_of_store small_sb_bytes small_live)
  have m: "map_of (map (\<lambda>b. (b, v)) xs) b = (if b \<in> set xs then Some v else None)" for xs b and v :: staged_block
    by (induction xs) auto
  show "whole_blocks 2048 (txn_blocks large_txn)"
    by (auto simp: whole_blocks_def large_txn_def bt_ok_def o_def m split: if_splits)
  have "txn_keys 2048 large_txn = {0..<200}"
    by (auto simp: txn_keys_def sb_idx_def large_txn_def image_image)
  then show "descriptor_block_tag_capacity 2048 (ls_fmt small_ls) (ls_has_64bit small_ls) (ls_has_csum small_ls)
      < card (txn_keys 2048 large_txn)"
    by (simp add: small_ls_def descriptor_block_tag_capacity_def)
qed (simp_all add: large_txn_def)

end
