(* ===== verification/BlockGroup.thy ===== *)
theory BlockGroup
  imports SuperBlock
begin

text \<open>
  Block group descriptors (\<open>src/src/ext4_defs/block_group.rs\<close>). The struct is packed, 64 bytes
  long, and read and written by pointer casts, so a descriptor is its byte image. \<open>load_new\<close> divides
  by the raw \<open>desc_size\<close> field of the superblock, which is zero on images without the 64-bit
  feature: the division panics there. A cast that reads past the loaded block is \<open>Undef\<close>.
\<close>

section \<open>Layout\<close>

definition block_group_layout :: layout where
  "block_group_layout = [
   (''block_bitmap_lo'', 4, 1), (''inode_bitmap_lo'', 4, 1), (''inode_table_first_block_lo'', 4, 1),
   (''free_blocks_count_lo'', 2, 1), (''free_inodes_count_lo'', 2, 1), (''used_dirs_count_lo'', 2, 1),
   (''flags'', 2, 1), (''exclude_bitmap_lo'', 4, 1), (''block_bitmap_csum_lo'', 2, 1),
   (''inode_bitmap_csum_lo'', 2, 1), (''itable_unused_lo'', 2, 1), (''checksum'', 2, 1),
   (''block_bitmap_hi'', 4, 1), (''inode_bitmap_hi'', 4, 1), (''inode_table_first_block_hi'', 4, 1),
   (''free_blocks_count_hi'', 2, 1), (''free_inodes_count_hi'', 2, 1), (''used_dirs_count_hi'', 2, 1),
   (''itable_unused_hi'', 2, 1), (''exclude_bitmap_hi'', 4, 1), (''block_bitmap_csum_hi'', 2, 1),
   (''inode_bitmap_csum_hi'', 2, 1), (''reserved'', 4, 1)]"

type_synonym block_group = bytes

definition bg_get :: "nat \<Rightarrow> string \<Rightarrow> block_group \<Rightarrow> 'a::len word" where
  "bg_get n field bg = le_get (offset_of block_group_layout field) n bg"

definition bg_put :: "nat \<Rightarrow> string \<Rightarrow> 'a::len word \<Rightarrow> block_group \<Rightarrow> block_group" where
  "bg_put n field v bg = le_put (offset_of block_group_layout field) n v bg"

lemma size_of_block_group: "size_of block_group_layout = 64"
  by code_simp

lemma bg_offsets [simp]:
  "offset_of block_group_layout ''block_bitmap_lo'' = 0"
  "offset_of block_group_layout ''inode_bitmap_lo'' = 4"
  "offset_of block_group_layout ''inode_table_first_block_lo'' = 8"
  "offset_of block_group_layout ''free_blocks_count_lo'' = 12"
  "offset_of block_group_layout ''free_inodes_count_lo'' = 14"
  "offset_of block_group_layout ''used_dirs_count_lo'' = 16"
  "offset_of block_group_layout ''block_bitmap_csum_lo'' = 24"
  "offset_of block_group_layout ''inode_bitmap_csum_lo'' = 26"
  "offset_of block_group_layout ''itable_unused_lo'' = 28"
  "offset_of block_group_layout ''checksum'' = 30"
  "offset_of block_group_layout ''block_bitmap_hi'' = 32"
  "offset_of block_group_layout ''inode_bitmap_hi'' = 36"
  "offset_of block_group_layout ''inode_table_first_block_hi'' = 40"
  "offset_of block_group_layout ''free_blocks_count_hi'' = 44"
  "offset_of block_group_layout ''free_inodes_count_hi'' = 46"
  "offset_of block_group_layout ''used_dirs_count_hi'' = 48"
  "offset_of block_group_layout ''itable_unused_hi'' = 50"
  "offset_of block_group_layout ''block_bitmap_csum_hi'' = 56"
  "offset_of block_group_layout ''inode_bitmap_csum_hi'' = 58"
  by code_simp+

section \<open>Fields\<close>

definition EXT4_MIN_BLOCK_GROUP_DESCRIPTOR_SIZE :: u16 where
  "EXT4_MIN_BLOCK_GROUP_DESCRIPTOR_SIZE = 32"

definition EXT4_MAX_BLOCK_GROUP_DESCRIPTOR_SIZE :: u16 where
  "EXT4_MAX_BLOCK_GROUP_DESCRIPTOR_SIZE = 64"

definition raw_desc_size :: "superblock \<Rightarrow> u16" where
  "raw_desc_size sb = sb_get 2 ''desc_size'' sb"

definition get_block_bitmap_block :: "superblock \<Rightarrow> block_group \<Rightarrow> u64" where
  "get_block_bitmap_block sb bg =
     (let v = ucast (bg_get 4 ''block_bitmap_lo'' bg :: u32) in
      if EXT4_MIN_BLOCK_GROUP_DESCRIPTOR_SIZE < raw_desc_size sb
      then v OR push_bit 32 (ucast (bg_get 4 ''block_bitmap_hi'' bg :: u32)) else v)"

definition get_inode_bitmap_block :: "superblock \<Rightarrow> block_group \<Rightarrow> u64" where
  "get_inode_bitmap_block sb bg =
     (let v = ucast (bg_get 4 ''inode_bitmap_lo'' bg :: u32) in
      if EXT4_MIN_BLOCK_GROUP_DESCRIPTOR_SIZE < raw_desc_size sb
      then v OR push_bit 32 (ucast (bg_get 4 ''inode_bitmap_hi'' bg :: u32)) else v)"

definition get_itable_unused :: "superblock \<Rightarrow> block_group \<Rightarrow> u32" where
  "get_itable_unused sb bg =
     (let v = ucast (bg_get 2 ''itable_unused_lo'' bg :: u16) in
      if EXT4_MIN_BLOCK_GROUP_DESCRIPTOR_SIZE < desc_size sb
      then v OR push_bit 16 (ucast (bg_get 2 ''itable_unused_hi'' bg :: u16)) else v)"

definition get_used_dirs_count :: "superblock \<Rightarrow> block_group \<Rightarrow> u32" where
  "get_used_dirs_count sb bg =
     (let v = ucast (bg_get 2 ''used_dirs_count_lo'' bg :: u16) in
      if EXT4_MIN_BLOCK_GROUP_DESCRIPTOR_SIZE < desc_size sb
      then v OR push_bit 16 (ucast (bg_get 2 ''used_dirs_count_hi'' bg :: u16)) else v)"

definition set_used_dirs_count :: "superblock \<Rightarrow> u32 \<Rightarrow> block_group \<Rightarrow> block_group" where
  "set_used_dirs_count sb cnt bg =
     (let bg = bg_put 2 ''used_dirs_count_lo'' (ucast (cnt AND 0xffff) :: u16) bg in
      if EXT4_MIN_BLOCK_GROUP_DESCRIPTOR_SIZE < desc_size sb
      then bg_put 2 ''used_dirs_count_hi'' (ucast (drop_bit 16 cnt) :: u16) bg else bg)"

definition set_itable_unused :: "superblock \<Rightarrow> u32 \<Rightarrow> block_group \<Rightarrow> block_group" where
  "set_itable_unused sb cnt bg =
     (let bg = bg_put 2 ''itable_unused_lo'' (ucast (cnt AND 0xffff) :: u16) bg in
      if EXT4_MIN_BLOCK_GROUP_DESCRIPTOR_SIZE < desc_size sb
      then bg_put 2 ''itable_unused_hi'' (ucast (drop_bit 16 cnt) :: u16) bg else bg)"

definition set_free_inodes_count :: "superblock \<Rightarrow> u32 \<Rightarrow> block_group \<Rightarrow> block_group" where
  "set_free_inodes_count sb cnt bg =
     (let bg = bg_put 2 ''free_inodes_count_lo'' (ucast (cnt AND 0xffff) :: u16) bg in
      if EXT4_MIN_BLOCK_GROUP_DESCRIPTOR_SIZE < desc_size sb
      then bg_put 2 ''free_inodes_count_hi'' (ucast (drop_bit 16 cnt) :: u16) bg else bg)"

definition get_free_inodes_count :: "block_group \<Rightarrow> u32" where
  "get_free_inodes_count bg =
     push_bit 16 (ucast (bg_get 2 ''free_inodes_count_hi'' bg :: u16))
       OR ucast (bg_get 2 ''free_inodes_count_lo'' bg :: u16)"

definition get_inode_table_blk_num :: "block_group \<Rightarrow> u64" where
  "get_inode_table_blk_num bg =
     push_bit 32 (ucast (bg_get 4 ''inode_table_first_block_hi'' bg :: u32))
       OR ucast (bg_get 4 ''inode_table_first_block_lo'' bg :: u32)"

definition get_free_blocks_count :: "block_group \<Rightarrow> u64" where
  "get_free_blocks_count bg =
     ucast (bg_get 2 ''free_blocks_count_lo'' bg :: u16)
       OR push_bit 16 (ucast (bg_get 2 ''free_blocks_count_hi'' bg :: u16))"

definition bg_set_free_blocks_count :: "u32 \<Rightarrow> block_group \<Rightarrow> block_group" where
  "bg_set_free_blocks_count cnt bg =
     bg_put 2 ''free_blocks_count_hi'' (ucast (drop_bit 16 cnt) :: u16)
       (bg_put 2 ''free_blocks_count_lo'' (ucast (cnt AND 0xffff) :: u16) bg)"

section \<open>Position and persistence\<close>

text \<open>The byte offset of the block that holds descriptor \<open>idx\<close>, and the offset in it.\<close>

definition desc_place :: "superblock \<Rightarrow> nat \<Rightarrow> (nat \<times> nat) res" where
  "desc_place sb idx =
     (let block_size = unat (block_size sb); desc_size = unat (raw_desc_size sb) in
      if desc_size = 0 then Panic
      else let dsc_cnt = block_size div desc_size in
        if dsc_cnt = 0 then Panic
        else Ok ((unat (first_data_block sb) + idx div dsc_cnt + 1) * block_size, idx mod dsc_cnt * desc_size))"

definition load_new :: "superblock \<Rightarrow> nat \<Rightarrow> (jdev, block_group) io" where
  "load_new sb idx =
     bindS (lift (desc_place sb idx)) (\<lambda>(pos, offset).
     bindS (jd_read pos (unat (block_size sb))) (\<lambda>block.
     lift (if offset + 64 \<le> length block then Ok (slice block offset 64) else Undef)))"

definition get_block_group_checksum :: "u32 \<Rightarrow> superblock \<Rightarrow> block_group \<Rightarrow> u16 res" where
  "get_block_group_checksum bgid sb bg =
     bind (ext4_crc32c EXT4_CRC32_INIT (slice sb (offset_of superblock_layout ''uuid'') 16) 16) (\<lambda>c.
     bind (ext4_crc32c c (le_bytes 4 bgid) 4) (\<lambda>c.
     bind (ext4_crc32c c (bg_put 2 ''checksum'' (0 :: u16) bg) (ucast (desc_size sb))) (\<lambda>c.
     Ok (ucast (c AND 0xFFFF)))))"

definition set_block_group_checksum :: "u32 \<Rightarrow> superblock \<Rightarrow> block_group \<Rightarrow> block_group res" where
  "set_block_group_checksum bgid sb bg =
     bind (get_block_group_checksum bgid sb bg) (\<lambda>c. Ok (bg_put 2 ''checksum'' c bg))"

definition sync_block_group_to_disk :: "superblock \<Rightarrow> nat \<Rightarrow> block_group \<Rightarrow> (jdev, unit) io" where
  "sync_block_group_to_disk sb bgid bg =
     bindS (lift (desc_place sb bgid)) (\<lambda>(pos, offset). jd_write (pos + offset) bg)"

definition bg_sync_to_disk_with_csum :: "superblock \<Rightarrow> nat \<Rightarrow> block_group \<Rightarrow> (jdev, block_group) io" where
  "bg_sync_to_disk_with_csum sb bgid bg =
     bindS (lift (set_block_group_checksum (of_nat bgid) sb bg)) (\<lambda>bg.
     bindS (sync_block_group_to_disk sb bgid bg) (\<lambda>_. ret bg))"

text \<open>The metadata checksum feature is bit 10 of \<open>features_read_only\<close>.\<close>

definition set_block_group_balloc_bitmap_csum :: "superblock \<Rightarrow> bytes \<Rightarrow> block_group \<Rightarrow> block_group res" where
  "set_block_group_balloc_bitmap_csum sb bitmap bg =
     bind (ext4_balloc_bitmap_csum sb bitmap) (\<lambda>csum.
     Ok (if drop_bit 10 ((sb_get 4 ''features_read_only'' sb :: u32) AND 0x400) = 0 then bg
         else let bg = bg_put 2 ''block_bitmap_csum_lo'' (ucast (csum AND 0xFFFF) :: u16) bg in
           if desc_size sb = EXT4_MAX_BLOCK_GROUP_DESCRIPTOR_SIZE
           then bg_put 2 ''block_bitmap_csum_hi'' (ucast (drop_bit 16 csum) :: u16) bg else bg))"

definition set_block_group_ialloc_bitmap_csum :: "superblock \<Rightarrow> bytes \<Rightarrow> block_group \<Rightarrow> block_group res" where
  "set_block_group_ialloc_bitmap_csum sb bitmap bg =
     bind (ext4_ialloc_bitmap_csum sb bitmap) (\<lambda>csum.
     Ok (if drop_bit 10 ((sb_get 4 ''features_read_only'' sb :: u32) AND 0x400) = 0 then bg
         else let bg = bg_put 2 ''inode_bitmap_csum_lo'' (ucast (csum AND 0xFFFF) :: u16) bg in
           if desc_size sb = EXT4_MAX_BLOCK_GROUP_DESCRIPTOR_SIZE
           then bg_put 2 ''inode_bitmap_csum_hi'' (ucast (drop_bit 16 csum) :: u16) bg else bg))"

section \<open>Counters\<close>

lemma halves16:
  fixes v :: u32
  shows "push_bit 16 (ucast (ucast (drop_bit 16 v) :: u16)) OR ucast (ucast (v AND 0xffff) :: u16) = v"
    and "ucast (ucast (v AND 0xffff) :: u16) OR push_bit 16 (ucast (ucast (drop_bit 16 v) :: u16)) = v"
proof -
  have m: "(0xffff :: u32) = mask 16" by (simp add: mask_eq_exp_minus_1)
  show "push_bit 16 (ucast (ucast (drop_bit 16 v) :: u16)) OR ucast (ucast (v AND 0xffff) :: u16) = v"
    "ucast (ucast (v AND 0xffff) :: u16) OR push_bit 16 (ucast (ucast (drop_bit 16 v) :: u16)) = v"
    unfolding m by (rule bit_word_eqI; auto simp: bit_simps bit_mask_iff)+
qed

lemma halves16_wide:
  fixes v :: u32
  shows "(ucast (ucast (v AND 0xffff) :: u16) :: u64) OR push_bit 16 (ucast (ucast (drop_bit 16 v) :: u16)) = ucast v"
proof -
  have m: "(0xffff :: u32) = mask 16" by (simp add: mask_eq_exp_minus_1)
  show ?thesis unfolding m
    by (rule bit_word_eqI)
       (auto simp: bit_simps bit_mask_iff dest: bit_imp_le_length, metis le_add_diff_inverse not_le)
qed

lemma length_bg_put [simp]:
  "offset_of block_group_layout field + n \<le> length bg \<Longrightarrow> length (bg_put n field v bg) = length bg"
  by (simp add: bg_put_def)

definition wide_descriptors :: "superblock \<Rightarrow> bool" where
  "wide_descriptors sb \<longleftrightarrow> 32 < desc_size sb"

lemma wide_iff: "EXT4_MIN_BLOCK_GROUP_DESCRIPTOR_SIZE < desc_size sb \<longleftrightarrow> wide_descriptors sb"
  by (simp add: wide_descriptors_def EXT4_MIN_BLOCK_GROUP_DESCRIPTOR_SIZE_def)

lemmas bg_access = bg_get_def bg_put_def wide_iff Let_def

lemma counters_read_back:
  assumes "length bg = 64"
  shows "wide_descriptors sb \<Longrightarrow> get_free_inodes_count (set_free_inodes_count sb n bg) = n"
    and "wide_descriptors sb \<Longrightarrow> get_used_dirs_count sb (set_used_dirs_count sb n bg) = n"
    and "wide_descriptors sb \<Longrightarrow> get_itable_unused sb (set_itable_unused sb n bg) = n"
    and "get_free_blocks_count (bg_set_free_blocks_count n bg) = ucast n"
  using assms halves16 [of n] halves16_wide [of n]
  by (simp_all add: get_free_inodes_count_def set_free_inodes_count_def get_used_dirs_count_def
      set_used_dirs_count_def get_itable_unused_def set_itable_unused_def get_free_blocks_count_def
      bg_set_free_blocks_count_def bg_access)

text \<open>The four counters of a descriptor are split in two 16-bit halves: with 64-byte
  descriptors each reads back as it was set, setting one changes no other counter, no bitmap or
  table location and not the checksum.\<close>

theorem group_counters_roundtrip:
  assumes "length bg = 64" and "wide_descriptors sb"
  shows "get_free_inodes_count (set_free_inodes_count sb n bg) = n
    \<and> get_used_dirs_count sb (set_used_dirs_count sb n bg) = n
    \<and> get_itable_unused sb (set_itable_unused sb n bg) = n
    \<and> get_free_blocks_count (bg_set_free_blocks_count n bg) = ucast n
    \<and> (\<forall>f \<in> {set_free_inodes_count sb n, set_used_dirs_count sb n, set_itable_unused sb n,
              bg_set_free_blocks_count n}.
         length (f bg) = 64 \<and> get_inode_table_blk_num (f bg) = get_inode_table_blk_num bg
         \<and> get_block_bitmap_block sb (f bg) = get_block_bitmap_block sb bg
         \<and> get_inode_bitmap_block sb (f bg) = get_inode_bitmap_block sb bg
         \<and> (bg_get 2 ''checksum'' (f bg) :: u16) = bg_get 2 ''checksum'' bg)"
  using assms counters_read_back [OF assms(1)]
  by (simp add: set_free_inodes_count_def set_used_dirs_count_def set_itable_unused_def
      bg_set_free_blocks_count_def get_inode_table_blk_num_def get_block_bitmap_block_def
      get_inode_bitmap_block_def bg_access)

definition wide_sb :: superblock where
  "wide_sb = sb_put 2 ''desc_size'' (64 :: u16) (sb_put 4 ''log_block_size'' (1 :: u32) (replicate 1024 0))"

lemma wide_sb [simp]:
  "length wide_sb = 1024" "desc_size wide_sb = 64" "raw_desc_size wide_sb = 64" "block_size wide_sb = 2048"
  "first_data_block wide_sb = 0"
proof -
  have z: "le_get a 4 (replicate 1024 0) = (0 :: u32)" if "a + 4 \<le> 1024" for a
    using that by (simp add: le_get_def slice_replicate) (simp add: le_word_def numeral_eq_Suc)
  show "length wide_sb = 1024" "desc_size wide_sb = 64" "raw_desc_size wide_sb = 64"
    "block_size wide_sb = 2048" "first_data_block wide_sb = 0"
    by (simp_all add: wide_sb_def sb_put_def sb_get_def desc_size_def raw_desc_size_def block_size_def
        first_data_block_def z)
qed

theorem group_counters_roundtrip_witness:
  "get_free_inodes_count (set_free_inodes_count wide_sb 0x12345 (replicate 64 0)) = 0x12345"
  using group_counters_roundtrip [of "replicate 64 0" wide_sb "0x12345"] by (simp add: wide_descriptors_def)

section \<open>The checksum\<close>

definition bg_csum :: "u32 \<Rightarrow> superblock \<Rightarrow> block_group \<Rightarrow> u32" where
  "bg_csum bgid sb bg = crc_ref EXT4_CRC32_INIT (slice sb 104 16 @ le_bytes 4 bgid
     @ take (unat (desc_size sb)) (bg_put 2 ''checksum'' (0 :: u16) bg))"

lemma get_block_group_checksum_eq:
  assumes "length sb = 1024" and "length bg = 64"
  shows "get_block_group_checksum bgid sb bg =
    (if desc_size sb \<le> 64 then Ok (ucast (bg_csum bgid sb bg)) else Panic)"
proof -
  have u: "ext4_crc32c EXT4_CRC32_INIT (slice sb 104 16) 16 = Ok (crc_ref EXT4_CRC32_INIT (slice sb 104 16))"
    using ext4_crc32c_small [of "slice sb 104 16"] assms by simp
  have b: "ext4_crc32c c (le_bytes 4 bgid) 4 = Ok (crc_ref c (le_bytes 4 bgid))" for c
    using ext4_crc32c_small [of "le_bytes 4 bgid" c] by simp
  have n: "unat (ucast (desc_size sb) :: u32) = unat (desc_size sb)"
    using unat_bound [of "desc_size sb"] by (simp add: unsigned_ucast_eq take_bit_eq_mod)
  have d: "desc_size sb \<le> 64 \<longleftrightarrow> unat (desc_size sb) \<le> 64" by (simp add: word_le_nat_alt)
  have m: "(ucast (c AND 0xFFFF) :: u16) = ucast c" for c :: u32
  proof -
    have mm: "(0xFFFF :: u32) = mask 16" by (simp add: mask_eq_exp_minus_1)
    show ?thesis unfolding mm by (rule bit_word_eqI) (auto simp: bit_simps bit_mask_iff)
  qed
  show ?thesis
    using assms by (simp add: get_block_group_checksum_def u b ext4_crc32c_def crc32_def crc32_loop_ref n d m
        bg_csum_def crc_ref_append slice_def)
qed

text \<open>Stamping a descriptor is a fixpoint: with descriptors of at most 64 bytes the checksum
  is computed, the stamped descriptor's checksum is the one in its field, whatever the field held
  before, and stamping again changes nothing; with a larger \<open>desc_size\<close> it panics.\<close>

theorem group_checksum_stamp:
  assumes "length sb = 1024" and "length bg = 64"
  shows "if desc_size sb \<le> 64
    then \<exists>b. set_block_group_checksum bgid sb bg = Ok b \<and> length b = 64
      \<and> get_block_group_checksum bgid sb b = Ok (bg_get 2 ''checksum'' b)
      \<and> set_block_group_checksum bgid sb b = Ok b
    else set_block_group_checksum bgid sb bg = Panic"
proof (cases "desc_size sb \<le> 64")
  case True
  let ?c = "ucast (bg_csum bgid sb bg) :: u16"
  let ?b = "bg_put 2 ''checksum'' ?c bg"
  have l: "length ?b = 64" using assms by simp
  have "bg_put 2 ''checksum'' (0 :: u16) ?b = bg_put 2 ''checksum'' (0 :: u16) bg"
    using assms by (simp add: bg_put_def le_put_def put_put_same)
  then have "bg_csum bgid sb ?b = bg_csum bgid sb bg" by (simp add: bg_csum_def)
  then have g: "get_block_group_checksum bgid sb ?b = Ok ?c"
    using True get_block_group_checksum_eq [OF assms(1) l] by simp
  moreover have "bg_get 2 ''checksum'' ?b = ?c" using assms by (simp add: bg_get_def bg_put_def)
  moreover have "bg_put 2 ''checksum'' ?c ?b = ?b"
    using assms by (simp add: bg_put_def le_put_def put_put_same)
  moreover have "set_block_group_checksum bgid sb bg = Ok ?b"
    using True get_block_group_checksum_eq [OF assms] by (simp add: set_block_group_checksum_def)
  ultimately show ?thesis using True l by (simp add: set_block_group_checksum_def)
next
  case False
  then show ?thesis using get_block_group_checksum_eq [OF assms] by (simp add: set_block_group_checksum_def)
qed

theorem group_checksum_stamp_witness:
  "\<exists>b. set_block_group_checksum 3 wide_sb (replicate 64 7) = Ok b
    \<and> get_block_group_checksum 3 wide_sb b = Ok (bg_get 2 ''checksum'' b)"
  using group_checksum_stamp [of wide_sb "replicate 64 7" 3] by auto

section \<open>Loading what was stored\<close>

text \<open>With 64-byte descriptors, whole blocks of them: descriptor \<open>g\<close> lies at byte \<open>64 * g\<close> of the
  descriptor table.\<close>

definition table_ok :: "superblock \<Rightarrow> bool" where
  "table_ok sb \<longleftrightarrow> raw_desc_size sb = 64 \<and> 0 < unat (block_size sb) \<and> unat (block_size sb) mod 64 = 0"

lemma desc_place_ok:
  assumes "table_ok sb"
  obtains pos off where "desc_place sb g = Ok (pos, off)" and "off + 64 \<le> unat (block_size sb)"
    and "pos + off = (unat (first_data_block sb) + 1) * unat (block_size sb) + 64 * g"
proof -
  let ?bs = "unat (block_size sb)"
  obtain n where n: "?bs = 64 * n" "0 < n" using assms by (auto simp: table_ok_def dvd_def mod_eq_0_iff_dvd)
  have m: "g mod n < n" using n(2) by simp
  have "desc_place sb g = Ok ((unat (first_data_block sb) + g div n + 1) * ?bs, g mod n * 64)"
    using assms n by (simp add: desc_place_def table_ok_def Let_def)
  moreover have "g mod n * 64 + 64 \<le> ?bs"
    using mult_le_mono1 [of "Suc (g mod n)" n 64] m n(1) by simp
  moreover have "(unat (first_data_block sb) + g div n + 1) * ?bs + g mod n * 64
      = (unat (first_data_block sb) + 1) * ?bs + 64 * g"
  proof -
    have "n * (g div n) * 64 + g mod n * 64 = g * 64" by (metis add_mult_distrib mult_div_mod_eq)
    then show ?thesis unfolding n(1) by (simp add: algebra_simps)
  qed
  ultimately show thesis using that by blast
qed

lemma load_new_eq:
  assumes "table_ok sb" and "jd_inv s"
  shows "load_new sb g s =
    (Ok (image_read (jd_view s) ((unat (first_data_block sb) + 1) * unat (block_size sb) + 64 * g) 64), s)"
proof -
  obtain pos off where d: "desc_place sb g = Ok (pos, off)" "off + 64 \<le> unat (block_size sb)"
    "pos + off = (unat (first_data_block sb) + 1) * unat (block_size sb) + 64 * g"
    by (rule desc_place_ok [OF assms(1)])
  show ?thesis using d(2) slice_image_read [of off 64 "unat (block_size sb)" "jd_view s" pos]
    by (simp add: load_new_def d(1) bindS_def jd_read_view [OF assms(2)] d(3))
qed

lemma sync_block_group_eq:
  assumes "table_ok sb" and "jd_inv s"
  shows "\<exists>t. sync_block_group_to_disk sb g bg s = (Ok (), t) \<and> jd_inv t
    \<and> jd_view t = image_write (jd_view s) ((unat (first_data_block sb) + 1) * unat (block_size sb) + 64 * g) bg"
proof -
  obtain pos off where d: "desc_place sb g = Ok (pos, off)"
    "pos + off = (unat (first_data_block sb) + 1) * unat (block_size sb) + 64 * g"
    by (rule desc_place_ok [OF assms(1)])
  show ?thesis using jd_write_view [OF assms(2), of "pos + off" bg]
    by (simp add: sync_block_group_to_disk_def d)
qed

text \<open>The descriptor table is an array: a descriptor that was stored is loaded back, and every
  other group's descriptor is loaded as before, on the open device (in a transaction) as on the
  closed one.\<close>

theorem group_descriptors_array:
  assumes "table_ok sb" and "jd_inv s" and "length bg = 64"
  shows "\<exists>t. sync_block_group_to_disk sb g bg s = (Ok (), t) \<and> jd_inv t
    \<and> load_new sb g t = (Ok bg, t)
    \<and> (\<forall>g'. g' \<noteq> g \<longrightarrow> fst (load_new sb g' t) = fst (load_new sb g' s))"
proof -
  let ?p = "\<lambda>g. (unat (first_data_block sb) + 1) * unat (block_size sb) + 64 * g"
  obtain t where t: "sync_block_group_to_disk sb g bg s = (Ok (), t)" "jd_inv t"
    "jd_view t = image_write (jd_view s) (?p g) bg"
    using sync_block_group_eq [OF assms(1,2)] by blast
  have "image_read (jd_view t) (?p g) 64 = bg"
    using image_read_write_same [of "jd_view s" "?p g" bg] assms(3) by (simp add: t(3))
  moreover have "image_read (jd_view t) (?p g') 64 = image_read (jd_view s) (?p g') 64" if "g' \<noteq> g" for g'
    unfolding t(3) by (rule image_read_write_apart) (use that assms(3) in linarith)
  ultimately show ?thesis
    using t load_new_eq [OF assms(1) t(2)] load_new_eq [OF assms(1,2)] by (intro exI [of _ t]) simp
qed

theorem group_descriptors_array_witness:
  "\<exists>t. sync_block_group_to_disk wide_sb 5 (replicate 64 7)
      (JournalDevice_new \<lparr> dk_image = (\<lambda>_. 0), dk_events = [] \<rparr> 2048) = (Ok (), t)
    \<and> load_new wide_sb 5 t = (Ok (replicate 64 7), t)"
  using group_descriptors_array [of wide_sb "JournalDevice_new \<lparr> dk_image = (\<lambda>_. 0), dk_events = [] \<rparr> 2048"
      "replicate 64 7" 5]
  by (auto simp: table_ok_def jd_inv_def JournalDevice_new_def)

end
