(* ===== verification/Ext4Fs.thy ===== *)
theory Ext4Fs
  imports JournalCrash BlockGroup
begin

text \<open>
  The filesystem object (\<open>src/src/ext4_defs/ext4.rs\<close>, \<open>src/src/ext4_impls/ext4.rs\<close>) and the
  operations every other part rests on: the geometry of groups, blocks and inodes
  (\<open>balloc.rs\<close>, \<open>inode.rs\<close>), loading and writing back inodes, opening, and running an operation
  inside a journal transaction.

  \<open>ext4\<close> holds the cached superblock, the cached system zones and the journal engine; the block device
  is the state. \<open>journal_device\<close> and \<open>journal\<close> are set together by \<open>open_journaled\<close>, and are one
  field here; without them the device never opens a transaction and passes everything through. The
  in-memory file locks belong to the FUSE layer and are not modelled.
\<close>

record system_zone =
  sz_group :: u32
  sz_start_blk :: u64
  sz_end_blk :: u64

record ext4 =
  fs_sb :: superblock
  fs_zones :: "system_zone list option"
  fs_journal :: "journal option"

definition fs_block_size :: "ext4 \<Rightarrow> nat" where
  "fs_block_size fs = unat (block_size (fs_sb fs))"

section \<open>Blocks and groups\<close>

text \<open>A zero \<open>blocks_per_group\<close> makes the divisions panic.\<close>

definition shifted_addr :: "superblock \<Rightarrow> u64 \<Rightarrow> u64" where
  "shifted_addr sb baddr = (if first_data_block sb \<noteq> 0 \<and> baddr \<noteq> 0 then baddr - 1 else baddr)"

definition get_bgid_of_block :: "superblock \<Rightarrow> u64 \<Rightarrow> u32 res" where
  "get_bgid_of_block sb baddr =
     (if blocks_per_group sb = 0 then Panic
      else Ok (ucast (shifted_addr sb baddr div ucast (blocks_per_group sb))))"

definition get_block_of_bgid :: "superblock \<Rightarrow> u32 \<Rightarrow> u64" where
  "get_block_of_bgid sb bgid =
     (if first_data_block sb \<noteq> 0 then 1 else 0) + ucast bgid * ucast (blocks_per_group sb)"

definition addr_to_idx_bg :: "superblock \<Rightarrow> u64 \<Rightarrow> u32 res" where
  "addr_to_idx_bg sb baddr =
     (if blocks_per_group sb = 0 then Panic
      else Ok (ucast (shifted_addr sb baddr mod ucast (blocks_per_group sb))))"

definition bg_idx_to_addr :: "superblock \<Rightarrow> u32 \<Rightarrow> u32 \<Rightarrow> u64" where
  "bg_idx_to_addr sb index bgid =
     (let index = (if first_data_block sb \<noteq> 0 then index + 1 else index)
      in ucast (blocks_per_group sb) * ucast bgid + ucast index)"

text \<open>\<open>is_power_of\<close>: the loop divides while it can; it never sees zero, because it starts at
  \<open>base\<close> or more.\<close>

function divide_out :: "u32 \<Rightarrow> u32 \<Rightarrow> u32" where
  "divide_out n base =
     (if 1 < unat base \<and> 0 < unat n \<and> n mod base = 0 then divide_out (n div base) base else n)"
  by pat_completeness auto
termination
  by (relation "measure (\<lambda>(n, base). unat n)") (auto simp: unat_div)

declare divide_out.simps [simp del]

definition is_power_of :: "u32 \<Rightarrow> u32 \<Rightarrow> bool" where
  "is_power_of n base \<longleftrightarrow> base \<le> n \<and> divide_out n base = 1"

definition ext4_bg_has_super :: "u32 \<Rightarrow> bool" where
  "ext4_bg_has_super grp \<longleftrightarrow>
     grp = 0 \<or> is_power_of grp 3 \<or> is_power_of grp 5 \<or> is_power_of grp 7"

definition ext4_has_feature_meta_bg :: "superblock \<Rightarrow> bool" where
  "ext4_has_feature_meta_bg sb \<longleftrightarrow> incompat_features sb AND 0x0010 \<noteq> 0"

definition ext4_bg_num_gdb :: "superblock \<Rightarrow> u32 \<Rightarrow> u32 res" where
  "ext4_bg_num_gdb sb grp =
     bind (block_group_count sb) (\<lambda>group_count.
     if block_size sb = 0 then Panic
     else let reserved_gdt_blocks = ucast (reserved_gdt_blocks sb);
              desc_blocks = ucast ((ucast group_count * ucast (desc_size sb) + ucast (block_size sb) - 1)
                div (ucast (block_size sb) :: u64)) :: u32 in
       Ok (if \<not> ext4_bg_has_super grp then 0
           else if grp = 0 then desc_blocks + reserved_gdt_blocks
           else if ext4_has_feature_meta_bg sb then 1
           else desc_blocks + reserved_gdt_blocks))"

definition num_base_meta_blocks :: "superblock \<Rightarrow> u32 \<Rightarrow> u32 res" where
  "num_base_meta_blocks sb bgid =
     bind (ext4_bg_num_gdb sb bgid) (\<lambda>gdt_blocks.
     Ok (if ext4_bg_has_super bgid then 1 + gdt_blocks else 0))"

section \<open>System zones\<close>

definition group_zones :: "superblock \<Rightarrow> u32 \<Rightarrow> (jdev, system_zone list) io" where
  "group_zones sb bgid =
     bindS (lift (num_base_meta_blocks sb bgid)) (\<lambda>meta_blks.
     bindS (load_new sb (unat bgid)) (\<lambda>bg.
     if block_size sb = 0 then lift Panic
     else let start = get_block_of_bgid sb bgid;
              blk_bmp = get_block_bitmap_block sb bg; ino_bmp = get_inode_bitmap_block sb bg;
              ino_tbl = get_inode_table_blk_num bg; bs = ucast (block_size sb) :: u64;
              itb_per_group = (ucast (inodes_per_group sb) * ucast (sb_inode_size sb) + bs - 1) div bs in
       ret ((if meta_blks \<noteq> 0 then [\<lparr> sz_group = bgid, sz_start_blk = start,
                sz_end_blk = start + ucast meta_blks - 1 \<rparr>] else [])
            @ [\<lparr> sz_group = bgid, sz_start_blk = blk_bmp, sz_end_blk = blk_bmp \<rparr>,
               \<lparr> sz_group = bgid, sz_start_blk = ino_bmp, sz_end_blk = ino_bmp \<rparr>,
               \<lparr> sz_group = bgid, sz_start_blk = ino_tbl, sz_end_blk = ino_tbl + itb_per_group - 1 \<rparr>])))"

fun zones_of :: "superblock \<Rightarrow> u32 list \<Rightarrow> (jdev, system_zone list) io" where
  "zones_of sb [] = ret []"
| "zones_of sb (bgid # bgids) =
     bindS (group_zones sb bgid) (\<lambda>zs. bindS (zones_of sb bgids) (\<lambda>rest. ret (zs @ rest)))"

definition get_system_zone :: "superblock \<Rightarrow> (jdev, system_zone list) io" where
  "get_system_zone sb =
     bindS (lift (block_group_count sb)) (\<lambda>n. zones_of sb (map of_nat [0..<unat n]))"

definition is_system_reserved_block :: "ext4 \<Rightarrow> u64 \<Rightarrow> bool" where
  "is_system_reserved_block fs block_num \<longleftrightarrow>
     (case fs_zones fs of None \<Rightarrow> False
      | Some zones \<Rightarrow> list_ex (\<lambda>z. sz_start_blk z \<le> block_num \<and> block_num \<le> sz_end_blk z) zones)"

section \<open>Inodes\<close>

definition get_bgid_of_inode :: "superblock \<Rightarrow> u32 \<Rightarrow> u32 res" where
  "get_bgid_of_inode sb inode_num =
     (if inodes_per_group sb = 0 then Panic else Ok (saturating_sub inode_num 1 div inodes_per_group sb))"

definition inode_to_bgidx :: "superblock \<Rightarrow> u32 \<Rightarrow> u32 res" where
  "inode_to_bgidx sb inode_num =
     (if inodes_per_group sb = 0 then Panic else Ok (saturating_sub inode_num 1 mod inodes_per_group sb))"

definition inode_disk_pos :: "ext4 \<Rightarrow> u32 \<Rightarrow> (jdev, nat) io" where
  "inode_disk_pos fs inode_num =
     (let sb = fs_sb fs in
      if inodes_per_group sb = 0 then lift Panic
      else let bgid = saturating_sub inode_num 1 div inodes_per_group sb;
               index = saturating_sub inode_num 1 mod inodes_per_group sb in
        bindS (load_new sb (unat bgid)) (\<lambda>bg.
        ret (unat (get_inode_table_blk_num bg) * fs_block_size fs + unat index * unat (sb_inode_size sb))))"

definition get_inode_ref :: "ext4 \<Rightarrow> u32 \<Rightarrow> (jdev, inode_ref) io" where
  "get_inode_ref fs inode_num =
     bindS (inode_disk_pos fs inode_num) (\<lambda>offset.
     bindS (jd_read offset (fs_block_size fs)) (\<lambda>block.
     lift (if 156 \<le> length block
           then Ok \<lparr> ir_inode_num = inode_num, ir_inode = inode_of_bytes (slice block 0 156) \<rparr> else Undef)))"

definition write_back_inode :: "ext4 \<Rightarrow> inode_ref \<Rightarrow> (jdev, inode_ref) io" where
  "write_back_inode fs r =
     bindS (inode_disk_pos fs (ir_inode_num r)) (\<lambda>inode_pos.
       let inode_size = unat (sb_inode_size (fs_sb fs)) in
     bindS (if 156 < inode_size then jd_read (inode_pos + 156) (inode_size - 156) else ret []) (\<lambda>tail.
     bindS (lift (set_inode_checksum_with_tail (fs_sb fs) (ir_inode_num r) tail (ir_inode r))) (\<lambda>i.
     bindS (sync_inode_to_disk i inode_pos) (\<lambda>_.
     ret (r\<lparr> ir_inode := i \<rparr>)))))"

definition write_back_inode_without_csum :: "ext4 \<Rightarrow> inode_ref \<Rightarrow> (jdev, unit) io" where
  "write_back_inode_without_csum fs r =
     bindS (inode_disk_pos fs (ir_inode_num r)) (\<lambda>inode_pos. sync_inode_to_disk (ir_inode r) inode_pos)"

section \<open>Opening\<close>

definition JOURNAL_INODE :: u32 where "JOURNAL_INODE = 8"

definition open_fs :: "(jdev, ext4) io" where
  "open_fs =
     bindS read_super_block (\<lambda>sb.
     bindS (get_system_zone sb) (\<lambda>zones.
     ret \<lparr> fs_sb = sb, fs_zones = Some zones, fs_journal = None \<rparr>))"

text \<open>\<open>Journal::load\<close>: any parse error means no journal.\<close>

definition Journal_load :: "ext4 \<Rightarrow> (jdev, journal option) io" where
  "Journal_load fs =
     (if \<not> has_feature_journal (fs_sb fs) then ret None
      else bindS (get_inode_ref fs JOURNAL_INODE) (\<lambda>r. let bs = fs_block_size fs in
        bindS (get_pblock_idx bs r 0) (\<lambda>pblock.
        bindS (jd_read (unat pblock * bs) bs) (\<lambda>buf.
        lift (case JournalSuperblock_parse buf of
                Ok sb \<Rightarrow> Ok (Some \<lparr> j_sb = sb, j_inode_ref = r \<rparr>)
              | Err _ \<Rightarrow> Ok None | Panic \<Rightarrow> Panic | Undef \<Rightarrow> Undef)))))"

definition open_and_recover :: "(jdev, ext4) io" where
  "open_and_recover =
     bindS open_fs (\<lambda>fs.
     bindS (Journal_load fs) (\<lambda>journal. case journal of
       None \<Rightarrow> ret fs
     | Some j \<Rightarrow> bindS (recover (fs_block_size fs) j) (\<lambda>_.
         bindS read_super_block (\<lambda>sb. ret (fs\<lparr> fs_sb := sb \<rparr>)))))"

text \<open>\<open>open_journaled\<close>: the block size is probed on the bare device, which the transparent wrapper
  stands for here, then a new wrapper is made with that size.\<close>

definition probe :: "disk \<Rightarrow> nat res \<times> disk" where
  "probe d = (let (r, s) = open_fs (JournalDevice_new d 0) in (map_res fs_block_size r, jd_inner s))"

definition open_wrapped :: "(jdev, ext4) io" where
  "open_wrapped =
     bindS open_fs (\<lambda>fs.
     bindS (Journal_load fs) (\<lambda>journal. case journal of
       None \<Rightarrow> ret fs
     | Some j \<Rightarrow> bindS (recover (fs_block_size fs) j) (\<lambda>_.
         bindS read_super_block (\<lambda>sb. ret (fs\<lparr> fs_sb := sb, fs_journal := Some j \<rparr>)))))"

definition open_journaled :: "disk \<Rightarrow> ext4 res \<times> jdev" where
  "open_journaled d = (case probe d of
       (Ok bs, d) \<Rightarrow> open_wrapped (JournalDevice_new d bs)
     | (Err e, d) \<Rightarrow> (Err e, JournalDevice_new d 0)
     | (Panic, d) \<Rightarrow> (Panic, JournalDevice_new d 0)
     | (Undef, d) \<Rightarrow> (Undef, JournalDevice_new d 0))"

section \<open>Journaled operations\<close>

definition journal_begin :: "ext4 \<Rightarrow> (jdev, unit) io" where
  "journal_begin fs = (case fs_journal fs of
     None \<Rightarrow> ret ()
   | Some j \<Rightarrow> bindS (live_sequence (fs_block_size fs) j) (\<lambda>seq. modify (jd_begin seq)))"

definition journal_end :: "ext4 \<Rightarrow> bool \<Rightarrow> (jdev, unit) io" where
  "journal_end fs ok s = (case fs_journal fs of
     None \<Rightarrow> ret () s
   | Some j \<Rightarrow> (case jd_end s of
       (None, s) \<Rightarrow> ret () s
     | (Some txn, s) \<Rightarrow>
         if ok then (let (crash, s) = take_crash s in commit_with_crash (fs_block_size fs) j txn crash s)
         else ret () s))"

text \<open>A panic of the operation unwinds past \<open>journal_end\<close>.\<close>

definition journaled_op :: "ext4 \<Rightarrow> (jdev, 'a) io \<Rightarrow> (jdev, 'a) io" where
  "journaled_op fs op =
     bindS (journal_begin fs) (\<lambda>_ s. case op s of
       (Ok a, s) \<Rightarrow> bindS (journal_end fs True) (\<lambda>_. ret a) s
     | (Err e, s) \<Rightarrow> bindS (journal_end fs False) (\<lambda>_. lift (Err e)) s
     | (Panic, s) \<Rightarrow> (Panic, s)
     | (Undef, s) \<Rightarrow> (Undef, s))"

end
