(* ===== verification/Geometry.thy ===== *)
theory Geometry
  imports Ext4Fs
begin

text \<open>
  The arithmetic of the geometry: block addresses against groups and indices, the groups that hold a
  backup superblock, and inode numbers against groups and indices.
\<close>

lemma unat_ucast32 [simp]: "unat (ucast (n :: u32) :: u64) = unat n"
proof -
  have "unat n < 2 ^ 64" using unat_bound [of n] by simp
  then show ?thesis by (simp add: unsigned_ucast_eq take_bit_eq_mod)
qed

lemma unat_mult_add_small:
  fixes n g i :: u32
  assumes "unat i \<le> unat n"
  shows "unat (ucast n * ucast g + ucast i :: u64) = unat n * unat g + unat i"
proof -
  have g: "unat g \<le> 2 ^ 32 - 1" and n: "unat n \<le> 2 ^ 32 - 1"
    using unat_bound [of g] unat_bound [of n] by simp_all
  have "unat n * unat g \<le> (2 ^ 32 - 1) * (2 ^ 32 - 1)" by (rule mult_le_mono [OF n g])
  then have "unat n * unat g + unat i < 2 ^ 64" using n assms by simp
  then show ?thesis by (simp add: unat_word_ariths)
qed

lemma div_mod_packed:
  fixes n g i :: u32
  assumes "i < n" and "a = (ucast n * ucast g + ucast i :: u64)"
  shows "(ucast (a div ucast n) :: u32) = g" and "(ucast (a mod ucast n) :: u32) = i"
proof -
  have i: "unat i < unat n" using assms(1) by (simp add: word_less_nat_alt)
  then have a: "unat a = unat n * unat g + unat i" using unat_mult_add_small [of i n g] assms(2) by simp
  have "unat (a div ucast n) = unat g" "unat (a mod ucast n) = unat i"
    using a i by (simp_all add: unat_div unat_mod)
  then have "unat (ucast (a div ucast n) :: u32) = unat g" "unat (ucast (a mod ucast n) :: u32) = unat i"
    using unat_bound [of g] unat_bound [of i] by (simp_all add: unsigned_ucast_eq take_bit_eq_mod)
  then show "(ucast (a div ucast n) :: u32) = g" "(ucast (a mod ucast n) :: u32) = i"
    by (simp_all add: word_unat_eq_iff)
qed

lemma packed_address:
  fixes n :: u32 and a :: u64
  assumes "0 < n" and "unat a div unat n < 2 ^ 32"
  shows "(ucast (a mod ucast n) :: u32) < n"
    and "ucast n * ucast (ucast (a div ucast n) :: u32) + ucast (ucast (a mod ucast n) :: u32) = a"
proof -
  have n: "0 < unat n" using assms(1) by (simp add: word_less_nat_alt)
  have lt: "unat a mod unat n < unat n" using n by simp
  then have m: "unat (ucast (a mod ucast n) :: u32) = unat a mod unat n"
    using unat_bound [of n] by (simp add: unsigned_ucast_eq take_bit_eq_mod unat_mod)
  have d: "unat (ucast (a div ucast n) :: u32) = unat a div unat n"
    using assms(2) by (simp add: unsigned_ucast_eq take_bit_eq_mod unat_div)
  show "(ucast (a mod ucast n) :: u32) < n" using m lt by (simp add: word_less_nat_alt)
  have "unat (ucast n * ucast (ucast (a div ucast n) :: u32) + ucast (ucast (a mod ucast n) :: u32) :: u64) = unat a"
    using unat_mult_add_small [of "ucast (a mod ucast n)" n "ucast (a div ucast n)"] m d lt by simp
  then show "ucast n * ucast (ucast (a div ucast n) :: u32) + ucast (ucast (a mod ucast n) :: u32) = a"
    by (simp add: word_unat_eq_iff)
qed

lemma bg_idx_to_addr_eq:
  assumes "idx < blocks_per_group sb"
  shows "bg_idx_to_addr sb idx g = (if first_data_block sb \<noteq> 0 then 1 else 0)
    + (ucast (blocks_per_group sb) * ucast g + ucast idx)"
proof -
  have "unat idx < unat (blocks_per_group sb)" using assms by (simp add: word_less_nat_alt)
  then have "unat (idx + 1) = Suc (unat idx)" by (rule unat_Suc_less)
  moreover have "Suc (unat idx) < 2 ^ 64" using unat_bound [of idx] by simp
  ultimately have "(ucast (idx + 1) :: u64) = ucast idx + 1" by (simp add: word_unat_eq_iff unat_word_ariths)
  then show ?thesis by (simp add: bg_idx_to_addr_def)
qed

lemma shifted_addr_eq:
  assumes "idx < blocks_per_group sb"
  shows "shifted_addr sb (bg_idx_to_addr sb idx g) = ucast (blocks_per_group sb) * ucast g + ucast idx"
proof -
  let ?a = "ucast (blocks_per_group sb) * ucast g + ucast idx :: u64"
  have i: "unat idx < unat (blocks_per_group sb)" using assms by (simp add: word_less_nat_alt)
  have g: "unat g \<le> 2 ^ 32 - 1" and n: "unat (blocks_per_group sb) \<le> 2 ^ 32 - 1"
    using unat_bound [of g] unat_bound [of "blocks_per_group sb"] by simp_all
  have "unat (blocks_per_group sb) * unat g \<le> (2 ^ 32 - 1) * (2 ^ 32 - 1)" by (rule mult_le_mono [OF n g])
  then have "Suc (unat ?a) < 2 ^ 64"
    using unat_mult_add_small [of idx "blocks_per_group sb" g] i n by simp
  then have "1 + ?a \<noteq> 0" by (simp add: word_unat_eq_iff unat_word_ariths)
  then show ?thesis unfolding shifted_addr_def bg_idx_to_addr_eq [OF assms] by simp
qed

text \<open>C23: block addresses and positions in groups correspond one to one. The address of an index
  below \<open>blocks_per_group\<close> in any group maps back to that group and index, without wrapping, with
  or without a shifted first data block; index 0 is the first block of the group; and every address
  from the first data block on whose group number fits in 32 bits is the address of its group and
  index.\<close>

theorem group_arithmetic:
  assumes "0 < blocks_per_group sb"
  shows "(\<forall>g. \<forall>idx < blocks_per_group sb.
        get_bgid_of_block sb (bg_idx_to_addr sb idx g) = Ok g
        \<and> addr_to_idx_bg sb (bg_idx_to_addr sb idx g) = Ok idx
        \<and> get_block_of_bgid sb g = bg_idx_to_addr sb 0 g)
    \<and> (\<forall>b. (first_data_block sb \<noteq> 0 \<longrightarrow> b \<noteq> 0) \<and> unat b div unat (blocks_per_group sb) < 2 ^ 32 \<longrightarrow>
        (\<exists>g idx. get_bgid_of_block sb b = Ok g \<and> addr_to_idx_bg sb b = Ok idx
          \<and> idx < blocks_per_group sb \<and> bg_idx_to_addr sb idx g = b))"
proof (intro conjI allI impI)
  fix g idx :: u32
  assume i: "idx < blocks_per_group sb"
  show "get_bgid_of_block sb (bg_idx_to_addr sb idx g) = Ok g"
    "addr_to_idx_bg sb (bg_idx_to_addr sb idx g) = Ok idx"
    using assms div_mod_packed [OF i refl, of g]
    by (simp_all add: get_bgid_of_block_def addr_to_idx_bg_def shifted_addr_eq [OF i])
  show "get_block_of_bgid sb g = bg_idx_to_addr sb 0 g"
    using bg_idx_to_addr_eq [of 0 sb g] assms by (simp add: get_block_of_bgid_def mult.commute)
next
  fix b :: u64
  assume b: "(first_data_block sb \<noteq> 0 \<longrightarrow> b \<noteq> 0) \<and> unat b div unat (blocks_per_group sb) < 2 ^ 32"
  let ?a = "shifted_addr sb b"
  let ?g = "ucast (?a div ucast (blocks_per_group sb)) :: u32"
  let ?i = "ucast (?a mod ucast (blocks_per_group sb)) :: u32"
  have a: "(if first_data_block sb \<noteq> 0 then 1 else 0) + ?a = b" "unat ?a \<le> unat b"
    using b by (auto simp: shifted_addr_def unat_minus_one)
  have "unat ?a div unat (blocks_per_group sb) \<le> unat b div unat (blocks_per_group sb)"
    by (rule div_le_mono [OF a(2)])
  then have "unat ?a div unat (blocks_per_group sb) < 2 ^ 32" using b by linarith
  note p = packed_address [OF assms this]
  then have "bg_idx_to_addr sb ?i ?g = b" unfolding bg_idx_to_addr_eq [OF p(1)] p(2) by (rule_tac a(1))
  then show "\<exists>g idx. get_bgid_of_block sb b = Ok g \<and> addr_to_idx_bg sb b = Ok idx
      \<and> idx < blocks_per_group sb \<and> bg_idx_to_addr sb idx g = b"
    using assms p(1) by (simp add: get_bgid_of_block_def addr_to_idx_bg_def)
qed

theorem group_arithmetic_witness:
  "get_bgid_of_block sample_sb (bg_idx_to_addr sample_sb 8191 2) = Ok 2
    \<and> addr_to_idx_bg sample_sb (bg_idx_to_addr sample_sb 8191 2) = Ok 8191"
proof -
  have "0 < blocks_per_group sample_sb" "8191 < blocks_per_group sample_sb"
    using sample_sb_fields(1) by (simp_all add: word_less_nat_alt)
  then show ?thesis using group_arithmetic [of sample_sb] by blast
qed

section \<open>Backup groups\<close>

lemma divide_out_nat:
  assumes "1 < unat base" and "0 < unat n"
  shows "\<exists>k. unat n = unat (divide_out n base) * unat base ^ k
    \<and> \<not> unat base dvd unat (divide_out n base)"
  using assms(2)
proof (induction "unat n" arbitrary: n rule: less_induct)
  case less
  show ?case
  proof (cases "n mod base = 0")
    case False
    then have "\<not> unat base dvd unat n" by (simp add: dvd_eq_mod_eq_0 word_unat_eq_iff unat_mod)
    then show ?thesis using False by (intro exI [of _ 0]) (simp add: divide_out.simps [of n])
  next
    case True
    then have d: "unat n = unat (n div base) * unat base"
      by (simp add: word_unat_eq_iff unat_mod unat_div dvd_eq_mod_eq_0 [symmetric])
    then have pos: "0 < unat (n div base)" using less.prems by (metis gr0I mult_zero_left)
    have lt: "unat (n div base) < unat n" using d pos assms(1) by simp
    obtain k where k: "unat (n div base) = unat (divide_out (n div base) base) * unat base ^ k"
      "\<not> unat base dvd unat (divide_out (n div base) base)"
      using less.hyps [OF lt pos] by blast
    have "divide_out n base = divide_out (n div base) base"
      using True assms(1) less.prems by (simp add: divide_out.simps [of n])
    then show ?thesis using d k by (intro exI [of _ "Suc k"]) simp
  qed
qed

lemma is_power_of_iff:
  assumes "1 < unat base"
  shows "is_power_of n base \<longleftrightarrow> (\<exists>k > 0. unat n = unat base ^ k)"
proof (cases "unat n = 0")
  case True
  then show ?thesis using assms by (auto simp: is_power_of_def word_le_nat_alt)
next
  case False
  then obtain k where k: "unat n = unat (divide_out n base) * unat base ^ k"
    "\<not> unat base dvd unat (divide_out n base)" using divide_out_nat [OF assms, of n] by auto
  show ?thesis
  proof
    assume p: "is_power_of n base"
    then have "unat n = unat base ^ k" using k(1) by (simp add: is_power_of_def)
    moreover have "unat base \<le> unat n" using p by (simp add: is_power_of_def word_le_nat_alt)
    ultimately show "\<exists>k > 0. unat n = unat base ^ k" using assms by (cases k) auto
  next
    assume "\<exists>k > 0. unat n = unat base ^ k"
    then obtain m where m: "0 < m" "unat n = unat base ^ m" by blast
    have "k = m"
    proof (rule ccontr)
      assume "k \<noteq> m"
      then consider "k < m" | "m < k" by linarith
      then show False
      proof cases
        case 1
        then have "unat base ^ m = unat base ^ (m - k) * unat base ^ k" by (simp add: power_add [symmetric])
        then have "unat (divide_out n base) = unat base ^ (m - k)" using k(1) m(2) assms by simp
        moreover have "unat base dvd unat base ^ (m - k)" using 1 by (simp add: dvd_power)
        ultimately show False using k(2) by simp
      next
        case 2
        then have "unat base ^ m < unat base ^ k" using assms by (simp add: power_strict_increasing)
        moreover have "0 < unat (divide_out n base)" using k(2) by (metis dvd_0_right gr0I)
        ultimately show False using k(1) m(2) by (metis less_irrefl less_le_trans mult_le_mono1 nat_mult_1 Suc_leI One_nat_def)
      qed
    qed
    then have "unat (divide_out n base) = 1" using k(1) m(2) assms by simp
    moreover have "unat base \<le> unat n" using m assms by (simp add: self_le_power)
    ultimately show "is_power_of n base" by (simp add: is_power_of_def word_le_nat_alt word_unat_eq_iff)
  qed
qed

lemma any_power:
  "n = 0 \<or> (\<exists>k > 0. n = 3 ^ k) \<or> (\<exists>k > 0. n = 5 ^ k) \<or> (\<exists>k > 0. n = 7 ^ k) \<longleftrightarrow>
   n = 0 \<or> (\<exists>k > 0. n = 3 ^ k \<or> n = 5 ^ k \<or> n = 7 ^ k)" for n :: nat
  by blast

text \<open>The groups with a superblock are group 0 and the positive powers of 3, 5 and 7: the
  division loop of the power test decides them. Group 1, which holds a backup on a standard image, is
  not among them, so its backup is not a system zone.\<close>

theorem backup_groups:
  "(ext4_bg_has_super g \<longleftrightarrow>
      unat g = 0 \<or> (\<exists>k > 0. unat g = 3 ^ k \<or> unat g = 5 ^ k \<or> unat g = 7 ^ k))
    \<and> \<not> ext4_bg_has_super 1"
proof
  have u: "unat (3 :: u32) = 3" "unat (5 :: u32) = 5" "unat (7 :: u32) = 7" by simp_all
  have gt: "1 < unat (3 :: u32)" "1 < unat (5 :: u32)" "1 < unat (7 :: u32)" by simp_all
  note pow = gt [THEN is_power_of_iff [of _ g], unfolded u]
  have z: "g = 0 \<longleftrightarrow> unat g = 0" by (rule unat_eq_zero [symmetric])
  show "ext4_bg_has_super g \<longleftrightarrow>
      unat g = 0 \<or> (\<exists>k > 0. unat g = 3 ^ k \<or> unat g = 5 ^ k \<or> unat g = 7 ^ k)"
    unfolding ext4_bg_has_super_def z pow by (rule any_power)
  show "\<not> ext4_bg_has_super 1" by (simp add: ext4_bg_has_super_def is_power_of_def word_le_nat_alt)
qed

section \<open>Inode numbers\<close>

text \<open>Inode numbers and positions in the inode bitmaps correspond one to one: the number that the
  allocator gives to index \<open>idx\<close> of group \<open>g\<close>, when it fits in 32 bits, maps back to \<open>g\<close> and \<open>idx\<close>,
  and every positive number is the number of its group and index.\<close>

theorem inode_numbers:
  assumes "0 < inodes_per_group sb"
  shows "(\<forall>g. \<forall>idx < inodes_per_group sb.
        unat g * unat (inodes_per_group sb) + unat idx + 1 < 2 ^ 32 \<longrightarrow>
        get_bgid_of_inode sb (g * inodes_per_group sb + (idx + 1)) = Ok g
        \<and> inode_to_bgidx sb (g * inodes_per_group sb + (idx + 1)) = Ok idx)
    \<and> (\<forall>ino. 0 < ino \<longrightarrow> (\<exists>g idx. get_bgid_of_inode sb ino = Ok g \<and> inode_to_bgidx sb ino = Ok idx
        \<and> idx < inodes_per_group sb \<and> ino = g * inodes_per_group sb + (idx + 1)))"
proof (intro conjI allI impI)
  let ?n = "inodes_per_group sb"
  have n: "0 < unat ?n" using assms by (simp add: word_less_nat_alt)
  {
    fix g idx :: u32
    assume i: "idx < ?n" and fit: "unat g * unat ?n + unat idx + 1 < 2 ^ 32"
    have lt: "unat idx < unat ?n" using i by (simp add: word_less_nat_alt)
    have "unat (g * ?n + (idx + 1)) = unat g * unat ?n + unat idx + 1"
      using fit by (simp add: unat_word_ariths)
    then have s: "unat (saturating_sub (g * ?n + (idx + 1)) 1) = unat idx + unat g * unat ?n"
      by (simp add: unat_saturating_sub)
    show "get_bgid_of_inode sb (g * ?n + (idx + 1)) = Ok g"
      "inode_to_bgidx sb (g * ?n + (idx + 1)) = Ok idx"
      using assms lt by (simp_all add: get_bgid_of_inode_def inode_to_bgidx_def word_unat_eq_iff unat_div unat_mod s)
  }
  fix ino :: u32
  assume "0 < ino"
  then have s: "saturating_sub ino 1 = ino - 1"
    by (simp add: word_unat_eq_iff unat_saturating_sub unat_minus_one word_less_nat_alt)
  have "(ino - 1) mod ?n < ?n" using n by (simp add: word_less_nat_alt unat_mod)
  moreover have "ino = (ino - 1) div ?n * ?n + ((ino - 1) mod ?n + 1)"
    by (metis add.assoc diff_add_cancel word_mod_div_equality)
  ultimately show "\<exists>g idx. get_bgid_of_inode sb ino = Ok g \<and> inode_to_bgidx sb ino = Ok idx
      \<and> idx < ?n \<and> ino = g * ?n + (idx + 1)"
    using assms by (simp add: get_bgid_of_inode_def inode_to_bgidx_def s)
qed

theorem inode_numbers_witness:
  "get_bgid_of_inode sample_sb (2 * 16 + (7 + 1)) = Ok 2 \<and> inode_to_bgidx sample_sb (2 * 16 + (7 + 1)) = Ok 7"
proof -
  have "0 < inodes_per_group sample_sb" "(7 :: u32) < inodes_per_group sample_sb"
    "unat (2 :: u32) * unat (inodes_per_group sample_sb) + unat (7 :: u32) + 1 < 2 ^ 32"
    by (simp_all add: sample_sb_fields(3))
  then show ?thesis using inode_numbers [of sample_sb] unfolding sample_sb_fields(3) by blast
qed

end
