(* ===== verification/Bitmap.thy ===== *)
theory Bitmap
  imports Errors
begin

text \<open>
  The allocation bitmaps of \<open>src/src/utils/bitmap.rs\<close>: test, set and clear one bit, clear a
  range, and search for a clear bit. A bitmap is its byte string; an index outside it panics,
  as the slice access does. \<open>bit_at\<close> is the abstract view, the set of bits: the lemmas
  describe every operation through it, and the search (three loops: up to a byte boundary,
  whole bytes, the tail) is shown to be a plain left-to-right search.
\<close>

definition bit_at :: "bytes \<Rightarrow> nat \<Rightarrow> bool" where
  "bit_at bmap i = bit (bmap ! (i div 8)) (i mod 8)"

definition byte_index :: "u32 \<Rightarrow> nat" where
  "byte_index b = unat (drop_bit 3 b)"

definition bit_mask :: "u32 \<Rightarrow> u8" where
  "bit_mask b = push_bit (unat (b AND 7)) 1"

definition ext4_bmap_is_bit_set :: "bytes \<Rightarrow> u32 \<Rightarrow> bool res" where
  "ext4_bmap_is_bit_set bmap b =
     (if byte_index b < length bmap then Ok (bmap ! byte_index b AND bit_mask b \<noteq> 0) else Panic)"

definition ext4_bmap_is_bit_clr :: "bytes \<Rightarrow> u32 \<Rightarrow> bool res" where
  "ext4_bmap_is_bit_clr bmap b = map_res Not (ext4_bmap_is_bit_set bmap b)"

definition ext4_bmap_bit_set :: "bytes \<Rightarrow> u32 \<Rightarrow> bytes res" where
  "ext4_bmap_bit_set bmap b =
     (if byte_index b < length bmap
      then Ok (bmap[byte_index b := bmap ! byte_index b OR bit_mask b]) else Panic)"

definition ext4_bmap_bit_clr :: "bytes \<Rightarrow> u32 \<Rightarrow> bytes res" where
  "ext4_bmap_bit_clr bmap b =
     (if byte_index b < length bmap
      then Ok (bmap[byte_index b := bmap ! byte_index b AND NOT (bit_mask b)]) else Panic)"

text \<open>The search returns \<open>Some i\<close> for \<open>true\<close> with \<open>*bit_id = i\<close>, and \<open>None\<close> for \<open>false\<close>,
  where \<open>bit_id\<close> is not written. Its first loop either returns or hands \<open>(i, bcnt)\<close> on.\<close>

function find_clr_head :: "bytes \<Rightarrow> u32 \<Rightarrow> u32 \<Rightarrow> (u32 option + u32 \<times> u32) res" where
  "find_clr_head bmap i bcnt =
     (if i AND 7 = 0 then Ok (Inr (i, bcnt))
      else if bcnt = 0 then Ok (Inl None)
      else bind (ext4_bmap_is_bit_clr bmap i)
             (\<lambda>c. if c then Ok (Inl (Some i)) else find_clr_head bmap (i + 1) (bcnt - 1)))"
  by pat_completeness auto
termination
  by (relation "measure (\<lambda>(bmap, i, bcnt). unat bcnt)") (auto simp: unat_gt_0 unat_minus_one)

fun find_clr_byte :: "bytes \<Rightarrow> u32 \<Rightarrow> u32 list \<Rightarrow> u32 option res" where
  "find_clr_byte bmap bit_pos [] = Ok None"
| "find_clr_byte bmap bit_pos (j # js) =
     bind (ext4_bmap_is_bit_clr bmap (bit_pos + j))
       (\<lambda>c. if c then Ok (Some (bit_pos + j)) else find_clr_byte bmap bit_pos js)"

function find_clr_bytes ::
  "bytes \<Rightarrow> nat \<Rightarrow> u32 \<Rightarrow> u32 \<Rightarrow> (u32 option + u32 \<times> u32) res" where
  "find_clr_bytes bmap byte_idx bit_pos bcnt =
     (if bcnt < 8 then Ok (Inr (bit_pos, bcnt))
      else if length bmap \<le> byte_idx then Ok (Inl None)
      else bind (if bmap ! byte_idx = 0xFF then Ok None
                 else find_clr_byte bmap bit_pos [0, 1, 2, 3, 4, 5, 6, 7])
             (\<lambda>r. case r of
                Some b \<Rightarrow> Ok (Inl (Some b))
              | None \<Rightarrow> find_clr_bytes bmap (Suc byte_idx) (bit_pos + 8) (bcnt - 8)))"
  by pat_completeness auto
termination
  by (relation "measure (\<lambda>(bmap, byte_idx, bit_pos, bcnt). unat bcnt)")
     (auto simp: word_le_nat_alt unat_sub not_less)

function find_clr_tail :: "bytes \<Rightarrow> u32 \<Rightarrow> u32 \<Rightarrow> u32 \<Rightarrow> u32 option res" where
  "find_clr_tail bmap ebit bit_pos bcnt =
     (if bcnt = 0 then Ok None
      else if ebit \<le> bit_pos then Ok None
      else bind (ext4_bmap_is_bit_clr bmap bit_pos)
             (\<lambda>c. if c then Ok (Some bit_pos)
                  else find_clr_tail bmap ebit (bit_pos + 1) (bcnt - 1)))"
  by pat_completeness auto
termination
  by (relation "measure (\<lambda>(bmap, ebit, bit_pos, bcnt). unat bcnt)")
     (auto simp: unat_gt_0 unat_minus_one)

declare find_clr_head.simps [simp del] find_clr_bytes.simps [simp del] find_clr_tail.simps [simp del]

definition ext4_bmap_bit_find_clr :: "bytes \<Rightarrow> u32 \<Rightarrow> u32 \<Rightarrow> u32 option res" where
  "ext4_bmap_bit_find_clr bmap sbit ebit =
     bind (find_clr_head bmap sbit (ebit - sbit)) (\<lambda>r1. case r1 of
       Inl found \<Rightarrow> Ok found
     | Inr (i, bcnt) \<Rightarrow>
         bind (find_clr_bytes bmap (byte_index i) i bcnt) (\<lambda>r2. case r2 of
           Inl found \<Rightarrow> Ok found
         | Inr (bit_pos, rest) \<Rightarrow> find_clr_tail bmap ebit bit_pos rest))"

fun clear_bits :: "bytes \<Rightarrow> u32 list \<Rightarrow> bytes res" where
  "clear_bits bmap [] = Ok bmap"
| "clear_bits bmap (b # bs) = bind (ext4_bmap_bit_clr bmap b) (\<lambda>m. clear_bits m bs)"

definition ext4_bmap_bits_free :: "bytes \<Rightarrow> u32 \<Rightarrow> u32 \<Rightarrow> bytes res" where
  "ext4_bmap_bits_free bmap start_bit end_bit =
     clear_bits bmap (map of_nat [unat start_bit..<Suc (unat end_bit)])"

section \<open>Single bits\<close>

lemma byte_index_eq: "byte_index b = unat b div 8"
  unfolding byte_index_def unat_drop_bit_eq by (simp add: drop_bit_eq_div)

lemma low_bits: "unat (b AND 7 :: u32) = unat b mod 8"
proof -
  have "b AND 7 = take_bit 3 b"
    using take_bit_eq_mask [of 3 b] by (simp add: mask_eq_exp_minus_1)
  then have "unat (b AND 7) = take_bit 3 (unat b)" by (simp only: unsigned_take_bit_eq)
  then show ?thesis by (simp add: take_bit_eq_mod)
qed

lemma bit_mask_exp: "bit_mask b = 2 ^ (unat b mod 8)"
  by (simp add: bit_mask_def low_bits push_bit_eq_mult)

lemma bit_bit_mask: "bit (bit_mask b) k \<longleftrightarrow> k = unat b mod 8"
proof -
  have "unat b mod 8 < 8" by simp
  then show ?thesis unfolding bit_mask_exp by (auto simp: bit_exp_iff)
qed

lemma byte_index_less: "byte_index b < length bmap \<longleftrightarrow> unat b < 8 * length bmap"
  by (auto simp: byte_index_eq)

lemma div_mod_8_iff: "(i :: nat) = j \<longleftrightarrow> i div 8 = j div 8 \<and> i mod 8 = j mod 8"
  by (metis div_mult_mod_eq)

lemma is_bit_set_eq:
  "unat b < 8 * length bmap \<Longrightarrow> ext4_bmap_is_bit_set bmap b = Ok (bit_at bmap (unat b))"
  by (simp add: ext4_bmap_is_bit_set_def byte_index_less bit_at_def byte_index_eq bit_mask_exp
      and_exp_eq_0_iff_not_bit)

lemma is_bit_clr_eq:
  "unat b < 8 * length bmap \<Longrightarrow> ext4_bmap_is_bit_clr bmap b = Ok (\<not> bit_at bmap (unat b))"
  by (simp add: ext4_bmap_is_bit_clr_def is_bit_set_eq)

lemma bit_at_update:
  "i < 8 * length bmap \<Longrightarrow>
   bit_at (bmap[n := x]) i = (if i div 8 = n then bit x (i mod 8) else bit_at bmap i)"
  by (auto simp: bit_at_def nth_list_update)

lemma bit_set_ok:
  assumes "unat b < 8 * length bmap"
  obtains m where "ext4_bmap_bit_set bmap b = Ok m" and "length m = length bmap"
    and "\<And>i. i < 8 * length bmap \<Longrightarrow> bit_at m i = (i = unat b \<or> bit_at bmap i)"
proof
  let ?m = "bmap[byte_index b := bmap ! byte_index b OR bit_mask b]"
  show "ext4_bmap_bit_set bmap b = Ok ?m" and "length ?m = length bmap"
    using assms by (simp_all add: ext4_bmap_bit_set_def byte_index_less)
  fix i
  assume "i < 8 * length bmap"
  then have "bit_at ?m i = (if i div 8 = byte_index b
      then bit (bmap ! byte_index b) (i mod 8) \<or> i mod 8 = unat b mod 8 else bit_at bmap i)"
    by (simp add: bit_at_update bit_or_iff bit_bit_mask)
  also have "\<dots> \<longleftrightarrow> i = unat b \<or> bit_at bmap i"
    unfolding div_mod_8_iff [of i] by (simp add: byte_index_eq bit_at_def) blast
  finally show "bit_at ?m i = (i = unat b \<or> bit_at bmap i)" .
qed

lemma bit_clr_ok:
  assumes "unat b < 8 * length bmap"
  obtains m where "ext4_bmap_bit_clr bmap b = Ok m" and "length m = length bmap"
    and "\<And>i. i < 8 * length bmap \<Longrightarrow> bit_at m i = (i \<noteq> unat b \<and> bit_at bmap i)"
proof
  let ?m = "bmap[byte_index b := bmap ! byte_index b AND NOT (bit_mask b)]"
  show "ext4_bmap_bit_clr bmap b = Ok ?m" and "length ?m = length bmap"
    using assms by (simp_all add: ext4_bmap_bit_clr_def byte_index_less)
  fix i
  assume "i < 8 * length bmap"
  moreover have "bit (x AND NOT (bit_mask b)) (i mod 8) \<longleftrightarrow> bit x (i mod 8) \<and> i mod 8 \<noteq> unat b mod 8"
    for x by (simp add: bit_and_iff bit_not_iff bit_bit_mask)
  ultimately have "bit_at ?m i = (if i div 8 = byte_index b
      then bit (bmap ! byte_index b) (i mod 8) \<and> i mod 8 \<noteq> unat b mod 8 else bit_at bmap i)"
    by (simp add: bit_at_update)
  also have "\<dots> \<longleftrightarrow> i \<noteq> unat b \<and> bit_at bmap i"
    unfolding div_mod_8_iff [of i] by (simp add: byte_index_eq bit_at_def) blast
  finally show "bit_at ?m i = (i \<noteq> unat b \<and> bit_at bmap i)" .
qed

section \<open>The search\<close>

text \<open>The reference: the least clear bit of \<open>[s, e)\<close>, by a plain left-to-right search.\<close>

definition first_clear :: "bytes \<Rightarrow> nat \<Rightarrow> nat \<Rightarrow> nat option" where
  "first_clear bmap s e = List.find (\<lambda>i. \<not> bit_at bmap i) [s..<e]"

lemma first_clear_step:
  "s < e \<Longrightarrow> first_clear bmap s e = (if bit_at bmap s then first_clear bmap (Suc s) e else Some s)"
  by (simp add: first_clear_def upt_conv_Cons)

lemma first_clear_empty [simp]: "e \<le> s \<Longrightarrow> first_clear bmap s e = None"
  by (simp add: first_clear_def)

lemma find_append:
  "List.find P (xs @ ys) = (case List.find P xs of Some x \<Rightarrow> Some x | None \<Rightarrow> List.find P ys)"
  by (induction xs) auto

lemma find_map: "List.find P (map f xs) = map_option f (List.find (\<lambda>x. P (f x)) xs)"
  by (induction xs) auto

lemma first_clear_split:
  assumes "s \<le> m" "m \<le> e"
  shows "first_clear bmap s e =
    (case first_clear bmap s m of Some x \<Rightarrow> Some x | None \<Rightarrow> first_clear bmap m e)"
proof -
  have "[s..<e] = [s..<m] @ [m..<e]"
    using assms by (metis le_Suc_ex upt_add_eq_append)
  then show ?thesis unfolding first_clear_def by (simp only: find_append)
qed

lemma first_clear_Some:
  "first_clear bmap s e = Some i \<longleftrightarrow>
   s \<le> i \<and> i < e \<and> \<not> bit_at bmap i \<and> (\<forall>j. s \<le> j \<longrightarrow> j < i \<longrightarrow> bit_at bmap j)"
proof (induction "e - s" arbitrary: s)
  case 0
  then show ?case by auto
next
  case (Suc n)
  then have IH: "first_clear bmap (Suc s) e = Some i \<longleftrightarrow>
      Suc s \<le> i \<and> i < e \<and> \<not> bit_at bmap i \<and> (\<forall>j. Suc s \<le> j \<longrightarrow> j < i \<longrightarrow> bit_at bmap j)"
    by simp
  from Suc.hyps(2) have "s < e" by simp
  have split: "s \<le> j \<longleftrightarrow> j = s \<or> Suc s \<le> j" for j by auto
  show ?case
  proof (cases "bit_at bmap s")
    case True
    then show ?thesis using IH \<open>s < e\<close> by (auto simp: first_clear_step split)
  next
    case False
    then show ?thesis using \<open>s < e\<close> by (auto simp: first_clear_step split)
  qed
qed

lemma first_clear_None: "first_clear bmap s e = None \<longleftrightarrow> (\<forall>i. s \<le> i \<longrightarrow> i < e \<longrightarrow> bit_at bmap i)"
  by (auto simp: first_clear_def find_None_iff)

lemma find_clr_head_spec:
  fixes i bcnt ebit :: u32
  assumes "unat i + unat bcnt = unat ebit" and "unat ebit \<le> 8 * length bmap"
  shows "case find_clr_head bmap i bcnt of
      Ok (Inl r) \<Rightarrow> r = map_option of_nat (first_clear bmap (unat i) (unat ebit))
    | Ok (Inr (i', rest)) \<Rightarrow> unat i' + unat rest = unat ebit \<and> unat i' mod 8 = 0
        \<and> first_clear bmap (unat i) (unat ebit) = first_clear bmap (unat i') (unat ebit)
    | _ \<Rightarrow> False"
  using assms
proof (induction bmap i bcnt rule: find_clr_head.induct)
  case (1 bmap i bcnt)
  show ?case
  proof (cases "i AND 7 = 0 \<or> bcnt = 0")
    case True
    then show ?thesis
      using "1.prems" low_bits [of i] by (auto simp: find_clr_head.simps [of bmap i])
  next
    case False
    then have less: "unat i < unat ebit" using "1.prems" unat_gt_0 [of bcnt] by auto
    then have clr: "ext4_bmap_is_bit_clr bmap i = Ok (\<not> bit_at bmap (unat i))"
      using "1.prems" by (simp add: is_bit_clr_eq)
    have "unat (i + 1) + unat (bcnt - 1) = unat ebit"
      using False "1.prems" less by (simp add: unat_Suc_less [OF less] unat_minus_one)
    note IH = "1.IH" [OF _ _ _ _ this "1.prems"(2), of False]
    show ?thesis
    proof (cases "bit_at bmap (unat i)")
      case True
      then have head: "find_clr_head bmap i bcnt = find_clr_head bmap (i + 1) (bcnt - 1)"
        using False clr by (simp add: find_clr_head.simps [of bmap i])
      have first: "first_clear bmap (unat i) (unat ebit) = first_clear bmap (unat (i + 1)) (unat ebit)"
        using True less by (simp add: first_clear_step unat_Suc_less [OF less])
      show ?thesis unfolding head first using IH False clr True by simp
    next
      case False
      then show ?thesis
        using \<open>\<not> (i AND 7 = 0 \<or> bcnt = 0)\<close> clr less
        by (simp add: find_clr_head.simps [of bmap i] first_clear_step)
    qed
  qed
qed

lemma find_clr_byte_eq:
  assumes "unat p + 8 \<le> 8 * length bmap" and "unat p + 8 < 2 ^ 32"
    and "\<forall>j \<in> set js. unat j < 8"
  shows "find_clr_byte bmap p js =
    Ok (map_option ((+) p) (List.find (\<lambda>j. \<not> bit_at bmap (unat p + unat j)) js))"
  using assms(3)
proof (induction js)
  case Nil
  then show ?case by simp
next
  case (Cons j js)
  then have "unat (p + j) = unat p + unat j"
    using assms(2) by (intro unat_add_less) simp
  moreover from this have "ext4_bmap_is_bit_clr bmap (p + j) = Ok (\<not> bit_at bmap (unat p + unat j))"
    using assms(1) Cons.prems by (simp add: is_bit_clr_eq)
  ultimately show ?case using Cons by simp
qed

lemma first_clear_byte:
  assumes "unat p + 8 \<le> 8 * length bmap" and "unat p + 8 < 2 ^ 32"
  shows "find_clr_byte bmap p [0, 1, 2, 3, 4, 5, 6, 7] =
    Ok (map_option of_nat (first_clear bmap (unat p) (unat p + 8)))"
proof -
  let ?js = "[0, 1, 2, 3, 4, 5, 6, 7] :: u32 list"
  have "[0..<8] = [0, 1, 2, 3, 4, 5, 6, 7 :: nat]" by (simp add: upt_rec)
  then have "map (\<lambda>j. unat p + unat j) ?js = map (\<lambda>i. i + unat p) [0..<8]" by simp
  also have "\<dots> = [unat p..<unat p + 8]" by (simp add: map_add_upt add.commute)
  finally have "first_clear bmap (unat p) (unat p + 8) =
      map_option (\<lambda>j. unat p + unat j) (List.find (\<lambda>j. \<not> bit_at bmap (unat p + unat j)) ?js)"
    using find_map [of "\<lambda>i. \<not> bit_at bmap i" "\<lambda>j. unat p + unat j" ?js]
    by (simp only: first_clear_def)
  moreover have "find_clr_byte bmap p ?js =
      Ok (map_option ((+) p) (List.find (\<lambda>j. \<not> bit_at bmap (unat p + unat j)) ?js))"
    using assms by (intro find_clr_byte_eq) auto
  ultimately show ?thesis by (simp add: option.map_comp comp_def)
qed

lemma full_byte:
  "s mod 8 = 0 \<Longrightarrow> bmap ! (s div 8) = 0xFF \<Longrightarrow> first_clear bmap s (s + 8) = None"
proof -
  assume s: "s mod 8 = 0" and b: "bmap ! (s div 8) = 0xFF"
  have full: "(0xFF :: u8) = mask 8" by (simp add: mask_eq_exp_minus_1)
  have ones: "bit (0xFF :: u8) k" if "k < 8" for k
    unfolding full bit_mask_iff using that by simp
  obtain q where q: "s = 8 * q" using s by (metis mod_0_imp_dvd dvdE)
  have "i div 8 = q" if "s \<le> i" "i < s + 8" for i
    using that unfolding q by (intro div_nat_eqI) simp_all
  then have "bit_at bmap i" if "s \<le> i" "i < s + 8" for i
    using that b ones [of "i mod 8"] by (simp add: bit_at_def q)
  then show ?thesis by (simp add: first_clear_None)
qed

lemma find_clr_bytes_spec:
  fixes p bcnt ebit :: u32
  assumes "unat p + unat bcnt = unat ebit" and "unat ebit \<le> 8 * length bmap"
    and "unat p mod 8 = 0" and "byte_idx = unat p div 8"
  shows "case find_clr_bytes bmap byte_idx p bcnt of
      Ok (Inl r) \<Rightarrow> r = map_option of_nat (first_clear bmap (unat p) (unat ebit))
    | Ok (Inr (p', rest)) \<Rightarrow> unat p' + unat rest = unat ebit
        \<and> first_clear bmap (unat p) (unat ebit) = first_clear bmap (unat p') (unat ebit)
    | _ \<Rightarrow> False"
  using assms
proof (induction bmap byte_idx p bcnt rule: find_clr_bytes.induct)
  case (1 bmap byte_idx p bcnt)
  show ?case
  proof (cases "bcnt < 8")
    case True
    then have "find_clr_bytes bmap byte_idx p bcnt = Ok (Inr (p, bcnt))"
      by (simp add: find_clr_bytes.simps [of bmap byte_idx])
    then show ?thesis using "1.prems" by simp
  next
    case False
    then have 8: "8 \<le> unat bcnt" by (simp add: word_less_nat_alt)
    have p8: "unat p + 8 \<le> 8 * length bmap" "unat p + 8 < 2 ^ 32" and e: "unat p + 8 \<le> unat ebit"
      using "1.prems" 8 unat_bound [of ebit] by simp_all
    have idx: "byte_idx < length bmap" using "1.prems" p8 by linarith
    have next_p: "unat (p + 8) = unat p + 8" using p8 by (simp add: unat_add_less)
    have next_b: "unat (bcnt - 8) = unat bcnt - 8" using 8 by (simp add: unat_sub word_le_nat_alt)
    let ?r = "first_clear bmap (unat p) (unat p + 8)"
    have byte: "(if bmap ! byte_idx = 0xFF then Ok None
        else find_clr_byte bmap p [0, 1, 2, 3, 4, 5, 6, 7]) = Ok (map_option of_nat ?r)"
    proof (cases "bmap ! byte_idx = 0xFF")
      case True
      then show ?thesis using "1.prems" by (simp add: full_byte)
    next
      case False
      then show ?thesis using first_clear_byte [OF p8] by (simp only: if_False)
    qed
    have whole: "first_clear bmap (unat p) (unat ebit) =
        (case ?r of Some x \<Rightarrow> Some x | None \<Rightarrow> first_clear bmap (unat p + 8) (unat ebit))"
      using e by (intro first_clear_split) simp_all
    show ?thesis
    proof (cases ?r)
      case (Some x)
      then show ?thesis using False idx byte whole
        by (simp add: find_clr_bytes.simps [of bmap byte_idx])
    next
      case None
      then have step: "find_clr_bytes bmap byte_idx p bcnt
          = find_clr_bytes bmap (Suc byte_idx) (p + 8) (bcnt - 8)"
        using False idx byte by (simp add: find_clr_bytes.simps [of bmap byte_idx])
      have "unat (p + 8) + unat (bcnt - 8) = unat ebit" "unat (p + 8) mod 8 = 0"
          "Suc byte_idx = unat (p + 8) div 8"
        using "1.prems" 8 next_p next_b by simp_all
      note IH = "1.IH" [OF _ _ _ _ this(1) "1.prems"(2) this(2,3), of None]
      have first: "first_clear bmap (unat p) (unat ebit) = first_clear bmap (unat (p + 8)) (unat ebit)"
        using whole None next_p by simp
      show ?thesis
        unfolding step first by (rule IH) (use False idx byte None in simp_all)
    qed
  qed
qed

lemma find_clr_tail_spec:
  fixes p bcnt ebit :: u32
  assumes "unat p + unat bcnt = unat ebit" and "unat ebit \<le> 8 * length bmap"
  shows "find_clr_tail bmap ebit p bcnt =
    Ok (map_option of_nat (first_clear bmap (unat p) (unat ebit)))"
  using assms
proof (induction bmap ebit p bcnt rule: find_clr_tail.induct)
  case (1 bmap ebit p bcnt)
  show ?case
  proof (cases "bcnt = 0")
    case True
    then show ?thesis using "1.prems" by (simp add: find_clr_tail.simps [of bmap ebit])
  next
    case False
    then have less: "unat p < unat ebit" using "1.prems" unat_gt_0 [of bcnt] by auto
    then have clr: "ext4_bmap_is_bit_clr bmap p = Ok (\<not> bit_at bmap (unat p))"
      using "1.prems" by (simp add: is_bit_clr_eq)
    have "unat (p + 1) + unat (bcnt - 1) = unat ebit"
      using False "1.prems" less by (simp add: unat_Suc_less [OF less] unat_minus_one)
    note IH = "1.IH" [OF _ _ _ _ this "1.prems"(2), of False]
    show ?thesis
      using IH False clr less unat_Suc_less [OF less]
      by (cases "bit_at bmap (unat p)")
         (simp_all add: find_clr_tail.simps [of bmap ebit p] first_clear_step word_le_nat_alt)
  qed
qed

lemma find_clr_unsat:
  "unat sbit \<le> unat ebit \<Longrightarrow> unat (ebit - sbit :: u32) = unat ebit - unat sbit"
  by (simp add: unat_sub word_le_nat_alt)

lemma bit_find_clr_eq:
  fixes sbit ebit :: u32
  assumes "sbit \<le> ebit" and "unat ebit \<le> 8 * length bmap"
  shows "ext4_bmap_bit_find_clr bmap sbit ebit =
    Ok (map_option of_nat (first_clear bmap (unat sbit) (unat ebit)))"
proof -
  have cnt: "unat sbit + unat (ebit - sbit) = unat ebit"
    using assms(1) by (simp add: find_clr_unsat word_le_nat_alt)
  note head = find_clr_head_spec [OF cnt assms(2)]
  show ?thesis
  proof (cases "find_clr_head bmap sbit (ebit - sbit)")
    case (Ok r)
    show ?thesis
    proof (cases r)
      case (Inl found)
      then show ?thesis using head Ok by (simp add: ext4_bmap_bit_find_clr_def)
    next
      case (Inr ib)
      obtain i rest where ib: "ib = (i, rest)" by (cases ib)
      have i: "unat i + unat rest = unat ebit" "unat i mod 8 = 0"
        "first_clear bmap (unat sbit) (unat ebit) = first_clear bmap (unat i) (unat ebit)"
        using head Ok Inr ib by simp_all
      note bytes = find_clr_bytes_spec [OF i(1) assms(2) i(2) byte_index_eq [of i]]
      show ?thesis
        using bytes find_clr_tail_spec [OF _ assms(2)] Ok Inr ib i(3)
        by (auto simp: ext4_bmap_bit_find_clr_def split: res.splits sum.splits prod.splits)
    qed
  qed (use head in simp_all)
qed

text \<open>C21: for a range inside the bitmap, the three-loop search returns the least clear bit of
  \<open>[sbit, ebit)\<close>, and reports failure exactly when every bit of the range is set; it never
  indexes outside the bitmap.\<close>

theorem bit_find_clr_correct:
  fixes sbit ebit :: u32
  assumes "sbit \<le> ebit" and "unat ebit \<le> 8 * length bmap"
  shows "ext4_bmap_bit_find_clr bmap sbit ebit =
    Ok (map_option of_nat (first_clear bmap (unat sbit) (unat ebit)))"
  by (rule bit_find_clr_eq [OF assms])

theorem bit_find_clr_correct_witness:
  "ext4_bmap_bit_find_clr [0xFF, 0xFF, 0xF7, 0] 3 32 = Ok (Some 19)"
proof -
  have "[3..<32] = [3,4,5,6,7,8,9,10,11,12,13,14,15,16,17,18,19,20,21,22,23,24,25,26,27,28,29,30,31::nat]"
    by (simp add: upt_rec)
  then have "first_clear [0xFF, 0xFF, 0xF7, 0] 3 32 = Some 19"
    by (simp add: first_clear_def bit_at_def)
  then show ?thesis
    using bit_find_clr_correct [of 3 32 "[0xFF, 0xFF, 0xF7, 0]"] by simp
qed

section \<open>Ranges\<close>

lemma clear_bits_ok:
  assumes "\<forall>b \<in> set bs. unat b < 8 * length bmap"
  shows "\<exists>m. clear_bits bmap bs = Ok m \<and> length m = length bmap
    \<and> (\<forall>i < 8 * length bmap. bit_at m i \<longleftrightarrow> bit_at bmap i \<and> i \<notin> unat ` set bs)"
  using assms
proof (induction bs arbitrary: bmap)
  case Nil
  then show ?case by simp
next
  case (Cons b bs)
  then have "unat b < 8 * length bmap" by simp
  then obtain m where m: "ext4_bmap_bit_clr bmap b = Ok m" "length m = length bmap"
    "\<And>i. i < 8 * length bmap \<Longrightarrow> bit_at m i = (i \<noteq> unat b \<and> bit_at bmap i)"
    by (rule bit_clr_ok) blast
  then show ?case using Cons.IH [of m] Cons.prems by fastforce
qed

lemma bits_free_ok:
  fixes start_bit end_bit :: u32
  assumes "unat end_bit < 8 * length bmap"
  shows "\<exists>m. ext4_bmap_bits_free bmap start_bit end_bit = Ok m \<and> length m = length bmap
    \<and> (\<forall>i < 8 * length bmap.
         bit_at m i \<longleftrightarrow> bit_at bmap i \<and> \<not> (unat start_bit \<le> i \<and> i \<le> unat end_bit))"
proof -
  let ?bs = "map of_nat [unat start_bit..<Suc (unat end_bit)] :: u32 list"
  have id: "unat (of_nat i :: u32) = i" if "i \<le> unat end_bit" for i
    using that unat_bound [of end_bit] by (simp add: unat_of_nat take_bit_eq_mod)
  have "unat ` set ?bs = (\<lambda>i. unat (of_nat i :: u32)) ` {unat start_bit..unat end_bit}"
    by (simp add: image_image atLeastLessThanSuc_atLeastAtMost del: upt_Suc)
  also have "\<dots> = {unat start_bit..unat end_bit}" using id by force
  finally have bits: "unat ` set ?bs = {unat start_bit..unat end_bit}" .
  have "\<forall>x \<in> unat ` set ?bs. x < 8 * length bmap" using assms unfolding bits by simp
  then have "\<forall>b \<in> set ?bs. unat b < 8 * length bmap" by blast
  from clear_bits_ok [OF this] show ?thesis
    unfolding ext4_bmap_bits_free_def bits by simp
qed

text \<open>Freeing a range clears exactly the bits \<open>start_bit ..= end_bit\<close> (the end is
  inclusive) and leaves every other bit of the bitmap as it was.\<close>

theorem bits_free_correct:
  fixes start_bit end_bit :: u32
  assumes "unat end_bit < 8 * length bmap"
  shows "\<exists>m. ext4_bmap_bits_free bmap start_bit end_bit = Ok m \<and> length m = length bmap
    \<and> (\<forall>i < 8 * length bmap.
         bit_at m i \<longleftrightarrow> bit_at bmap i \<and> \<not> (unat start_bit \<le> i \<and> i \<le> unat end_bit))"
  by (rule bits_free_ok [OF assms])

theorem bits_free_correct_witness:
  "\<exists>m. ext4_bmap_bits_free [0xFF, 0xFF] 6 8 = Ok m \<and> length m = 2
    \<and> (\<forall>i < 16. bit_at m i \<longleftrightarrow> bit_at [0xFF, 0xFF] i \<and> \<not> (6 \<le> i \<and> i \<le> 8))"
proof -
  have two: "length [0xFF, 0xFF :: u8] = 2" by simp
  show ?thesis using bits_free_correct [of 8 "[0xFF, 0xFF]" 6, unfolded two] by simp
qed

end
