(* ===== verification/Alloc.thy ===== *)
theory Alloc
  imports Bitmap Ext4Fs
begin

text \<open>
  Allocation of blocks (\<open>src/src/ext4_impls/balloc.rs\<close>) and of inodes
  (\<open>src/src/ext4_impls/ialloc.rs\<close>). The allocators take the cached superblock for the geometry and
  read the live one for the counters. The \<open>&mut\<close> inode reference and the \<open>&mut\<close> start group are
  passed and returned. The group loops run at most \<open>block_group_count\<close> times and recurse on the
  count; the bit loops recurse on the list of their indices.
\<close>

section \<open>Inodes\<close>

text \<open>One group: \<open>None\<close> when it has no free inode, or when its bitmap has none.\<close>

definition ialloc_group :: "ext4 \<Rightarrow> superblock \<Rightarrow> bool \<Rightarrow> u32 \<Rightarrow> (jdev, u32 option) io" where
  "ialloc_group fs sb dir bgid =
     bindS (load_new sb (unat bgid)) (\<lambda>bg.
     let free_inodes = get_free_inodes_count bg in
     if free_inodes = 0 then ret None
     else let pos = unat (get_inode_bitmap_block sb bg) * fs_block_size fs in
     bindS (jd_read pos (fs_block_size fs)) (\<lambda>raw_data.
     bindS (lift (get_inodes_in_group_cnt sb bgid)) (\<lambda>inodes_in_bg.
     bindS (lift (ext4_bmap_bit_find_clr raw_data 0 inodes_in_bg)) (\<lambda>found. case found of
       None \<Rightarrow> ret None
     | Some idx_in_bg \<Rightarrow>
         bindS (lift (ext4_bmap_bit_set raw_data idx_in_bg)) (\<lambda>bitmap_data.
         bindS (jd_write pos bitmap_data) (\<lambda>_.
         bindS (lift (set_block_group_ialloc_bitmap_csum sb bitmap_data bg)) (\<lambda>bg.
         let bg = set_free_inodes_count sb (free_inodes - 1) bg;
             bg = (if dir then set_used_dirs_count sb (get_used_dirs_count sb bg + 1) bg else bg);
             unused = get_itable_unused sb bg;
             bg = (if saturating_sub inodes_in_bg unused \<le> idx_in_bg
                   then set_itable_unused sb (saturating_sub inodes_in_bg (idx_in_bg + 1)) bg else bg) in
         bindS (bg_sync_to_disk_with_csum sb (unat bgid) bg) (\<lambda>_.
         bindS (sync_to_disk_with_csum (decrease_free_inodes_count sb)) (\<lambda>sb.
         ret (Some (bgid * inodes_per_group sb + (idx_in_bg + 1))))))))))))"

fun ialloc_groups :: "ext4 \<Rightarrow> superblock \<Rightarrow> bool \<Rightarrow> u32 list \<Rightarrow> (jdev, u32) io" where
  "ialloc_groups fs sb dir [] = lift (Err ENOSPC)"
| "ialloc_groups fs sb dir (bgid # bgids) =
     bindS (ialloc_group fs sb dir bgid) (\<lambda>r. case r of
       Some inode_num \<Rightarrow> ret inode_num | None \<Rightarrow> ialloc_groups fs sb dir bgids)"

definition ialloc_alloc_inode :: "ext4 \<Rightarrow> bool \<Rightarrow> (jdev, u32) io" where
  "ialloc_alloc_inode fs dir =
     bindS (lift (block_group_count (fs_sb fs))) (\<lambda>bg_count.
     bindS read_super_block (\<lambda>sb.
     ialloc_groups fs sb dir (map of_nat [0..<unat bg_count])))"

definition alloc_inode :: "ext4 \<Rightarrow> bool \<Rightarrow> (jdev, u32) io" where
  "alloc_inode fs dir = ialloc_alloc_inode fs dir"

definition ialloc_free_inode :: "ext4 \<Rightarrow> u32 \<Rightarrow> bool \<Rightarrow> (jdev, unit) io" where
  "ialloc_free_inode fs index dir =
     bindS (lift (get_bgid_of_inode (fs_sb fs) index)) (\<lambda>bgid.
     bindS read_super_block (\<lambda>sb.
     bindS (load_new sb (unat bgid)) (\<lambda>bg.
     let pos = unat (get_inode_bitmap_block (fs_sb fs) bg) * fs_block_size fs in
     bindS (jd_read pos (fs_block_size fs)) (\<lambda>bitmap_data.
     bindS (lift (inode_to_bgidx (fs_sb fs) index)) (\<lambda>index_in_group.
     bindS (lift (ext4_bmap_bit_clr bitmap_data index_in_group)) (\<lambda>bitmap_data.
     bindS (jd_write pos bitmap_data) (\<lambda>_.
     bindS (lift (set_block_group_ialloc_bitmap_csum sb bitmap_data bg)) (\<lambda>bg.
     let bg = set_free_inodes_count (fs_sb fs) (get_free_inodes_count bg + 1) bg;
         bg = (if dir then set_used_dirs_count (fs_sb fs)
                 (saturating_sub (get_used_dirs_count (fs_sb fs) bg) 1) bg else bg) in
     bindS (bg_sync_to_disk_with_csum sb (unat bgid) bg) (\<lambda>_.
     bindS (sync_to_disk_with_csum (increase_free_inodes_count sb)) (\<lambda>_. ret ()))))))))))"

section \<open>Blocks\<close>

definition EXT4_INODE_BLOCK_SIZE :: nat where "EXT4_INODE_BLOCK_SIZE = 512"

definition update_free_block_counts ::
  "ext4 \<Rightarrow> inode_ref \<Rightarrow> block_group \<Rightarrow> nat \<Rightarrow> (jdev, inode_ref) io" where
  "update_free_block_counts fs r bg bgid =
     bindS read_super_block (\<lambda>sb.
     bindS (sync_to_disk_with_csum (set_free_blocks_count (free_blocks_count sb - 1) sb)) (\<lambda>sb.
     let inode_blocks = inode_blocks_count (ir_inode r) + of_nat (fs_block_size fs div EXT4_INODE_BLOCK_SIZE) in
     bindS (write_back_inode fs (r\<lparr> ir_inode := set_inode_blocks_count inode_blocks (ir_inode r) \<rparr>)) (\<lambda>r.
     let bg = bg_set_free_blocks_count (ucast (get_free_blocks_count bg - 1)) bg in
     bindS (bg_sync_to_disk_with_csum sb bgid bg) (\<lambda>_. ret r))))"

text \<open>The five lines that take bit \<open>idx\<close> of a group; the code has them once for each search.\<close>

definition take_block ::
  "ext4 \<Rightarrow> inode_ref \<Rightarrow> block_group \<Rightarrow> u32 \<Rightarrow> bytes \<Rightarrow> nat \<Rightarrow> u32 \<Rightarrow> (jdev, u64 \<times> inode_ref) io" where
  "take_block fs r bg bgid bitmap pos idx =
     bindS (lift (ext4_bmap_bit_set bitmap idx)) (\<lambda>bitmap.
     bindS (lift (set_block_group_balloc_bitmap_csum (fs_sb fs) bitmap bg)) (\<lambda>bg.
     bindS (jd_write pos bitmap) (\<lambda>_.
     bindS (update_free_block_counts fs r bg (unat bgid)) (\<lambda>r.
     ret (bg_idx_to_addr (fs_sb fs) idx bgid, r)))))"

fun near_clear :: "ext4 \<Rightarrow> u32 \<Rightarrow> bytes \<Rightarrow> u32 list \<Rightarrow> u32 option res" where
  "near_clear fs bgid bitmap [] = Ok None"
| "near_clear fs bgid bitmap (idx # idxs) =
     bind (ext4_bmap_is_bit_clr bitmap idx) (\<lambda>clr.
     if clr \<and> \<not> is_system_reserved_block fs (bg_idx_to_addr (fs_sb fs) idx bgid) then Ok (Some idx)
     else near_clear fs bgid bitmap idxs)"

text \<open>The search in one group. \<open>check_goal\<close>: the goal itself is tested against the system zones in
  \<open>balloc_alloc_block\<close>, not in \<open>balloc_alloc_block_from\<close>.\<close>

definition search_group :: "ext4 \<Rightarrow> bool \<Rightarrow> u32 \<Rightarrow> bytes \<Rightarrow> u32 \<Rightarrow> u32 option res" where
  "search_group fs check_goal bgid bitmap idx =
     (let reserved = (\<lambda>i. is_system_reserved_block fs (bg_idx_to_addr (fs_sb fs) i bgid));
          end_idx = min ((idx + 63) AND NOT 63) (blocks_per_group (fs_sb fs)) in
      bind (ext4_bmap_is_bit_clr bitmap idx) (\<lambda>clr.
      if clr \<and> \<not> (check_goal \<and> reserved idx) then Ok (Some idx)
      else bind (near_clear fs bgid bitmap (map of_nat [unat (idx + 1)..<unat end_idx])) (\<lambda>near.
        case near of Some i \<Rightarrow> Ok (Some i)
        | None \<Rightarrow> bind (ext4_bmap_bit_find_clr bitmap idx (blocks_per_group (fs_sb fs))) (\<lambda>found.
            Ok (case found of Some i \<Rightarrow> if reserved i then None else Some i | None \<Rightarrow> None)))))"

fun alloc_loop :: "ext4 \<Rightarrow> inode_ref \<Rightarrow> u32 \<Rightarrow> nat \<Rightarrow> u32 \<Rightarrow> u32 \<Rightarrow> (jdev, u64 \<times> inode_ref) io" where
  "alloc_loop fs r groups 0 bgid idx_in_bg = lift (Err ENOSPC)"
| "alloc_loop fs r groups (Suc n) bgid idx_in_bg =
     bindS (load_new (fs_sb fs) (unat bgid)) (\<lambda>bg.
     if get_free_blocks_count bg = 0
     then alloc_loop fs r groups n ((bgid + 1) mod groups) idx_in_bg
     else bindS (lift (addr_to_idx_bg (fs_sb fs) (get_block_of_bgid (fs_sb fs) bgid))) (\<lambda>first_in_bg_index.
       let idx_in_bg = max idx_in_bg first_in_bg_index;
           pos = unat (get_block_bitmap_block (fs_sb fs) bg) * fs_block_size fs in
       bindS (jd_read pos (fs_block_size fs)) (\<lambda>bitmap.
       bindS (lift (search_group fs True bgid bitmap idx_in_bg)) (\<lambda>found. case found of
         Some idx \<Rightarrow> take_block fs r bg bgid bitmap pos idx
       | None \<Rightarrow> alloc_loop fs r groups n ((bgid + 1) mod groups) idx_in_bg))))"

definition balloc_alloc_block :: "ext4 \<Rightarrow> inode_ref \<Rightarrow> u64 option \<Rightarrow> (jdev, u64 \<times> inode_ref) io" where
  "balloc_alloc_block fs r goal =
     bindS (lift (case goal of
         Some g \<Rightarrow> bind (get_bgid_of_block (fs_sb fs) g) (\<lambda>b. bind (addr_to_idx_bg (fs_sb fs) g) (\<lambda>i. Ok (b, i)))
       | None \<Rightarrow> Ok (0, 0))) (\<lambda>(bgid, idx_in_bg).
     bindS (lift (block_group_count (fs_sb fs))) (\<lambda>n.
     alloc_loop fs r n (unat n) bgid idx_in_bg))"

text \<open>The start group comes back updated; an error leaves it as it was.\<close>

fun alloc_from_loop ::
  "ext4 \<Rightarrow> inode_ref \<Rightarrow> u32 \<Rightarrow> nat \<Rightarrow> u32 \<Rightarrow> u32 \<Rightarrow> (jdev, u64 \<times> inode_ref \<times> u32) io" where
  "alloc_from_loop fs r groups 0 bgid idx_in_bg = lift (Err ENOSPC)"
| "alloc_from_loop fs r groups (Suc n) bgid idx_in_bg =
     bindS (load_new (fs_sb fs) (unat bgid)) (\<lambda>bg.
     if get_free_blocks_count bg = 0
     then alloc_from_loop fs r groups n ((bgid + 1) mod groups) idx_in_bg
     else bindS (lift (addr_to_idx_bg (fs_sb fs) (get_block_of_bgid (fs_sb fs) bgid))) (\<lambda>first_in_bg_index.
       let idx_in_bg = max idx_in_bg first_in_bg_index in
       if blocks_per_group (fs_sb fs) \<le> idx_in_bg
       then alloc_from_loop fs r groups n ((bgid + 1) mod groups) 0
       else let pos = unat (get_block_bitmap_block (fs_sb fs) bg) * fs_block_size fs in
       bindS (jd_read pos (fs_block_size fs)) (\<lambda>bitmap.
       bindS (lift (search_group fs False bgid bitmap idx_in_bg)) (\<lambda>found. case found of
         Some idx \<Rightarrow> bindS (take_block fs r bg bgid bitmap pos idx) (\<lambda>(b, r). ret (b, r, bgid))
       | None \<Rightarrow> alloc_from_loop fs r groups n ((bgid + 1) mod groups) 0))))"

definition balloc_alloc_block_from ::
  "ext4 \<Rightarrow> inode_ref \<Rightarrow> u32 \<Rightarrow> (jdev, u64 \<times> inode_ref \<times> u32) io" where
  "balloc_alloc_block_from fs r start_bgid =
     bindS (lift (block_group_count (fs_sb fs))) (\<lambda>n. alloc_from_loop fs r n (unat n) start_bgid 0)"

section \<open>Freeing blocks\<close>

text \<open>One iteration for each group that the range touches; the superblock stays the copy read at the
  start, updated.\<close>

fun free_loop ::
  "ext4 \<Rightarrow> superblock \<Rightarrow> inode_ref \<Rightarrow> u64 \<Rightarrow> nat \<Rightarrow> nat \<Rightarrow> (jdev, inode_ref) io" where
  "free_loop fs sb r start cnt 0 = ret r"
| "free_loop fs sb r start cnt (Suc n) =
     bindS (lift (get_bgid_of_block (fs_sb fs) start)) (\<lambda>bgid.
     bindS (lift (addr_to_idx_bg (fs_sb fs) start)) (\<lambda>idx_in_bg.
     bindS (load_new sb (unat bgid)) (\<lambda>bg.
     let pos = unat (get_block_bitmap_block sb bg) * fs_block_size fs in
     bindS (jd_read pos (fs_block_size fs)) (\<lambda>data.
     let free_cnt = min cnt (unat (blocks_per_group sb) - unat idx_in_bg) in
     bindS (lift (ext4_bmap_bits_free data idx_in_bg (idx_in_bg + of_nat free_cnt - 1))) (\<lambda>data.
     bindS (lift (set_block_group_balloc_bitmap_csum sb data bg)) (\<lambda>bg.
     bindS (jd_write pos data) (\<lambda>_.
     bindS (sync_to_disk_with_csum (set_free_blocks_count (free_blocks_count sb + of_nat free_cnt) sb)) (\<lambda>sb.
     let inode_blocks = inode_blocks_count (ir_inode r)
           - of_nat (free_cnt * (fs_block_size fs div EXT4_INODE_BLOCK_SIZE)) in
     bindS (write_back_inode fs (r\<lparr> ir_inode := set_inode_blocks_count inode_blocks (ir_inode r) \<rparr>)) (\<lambda>r.
     let bg = bg_set_free_blocks_count (ucast (get_free_blocks_count bg + of_nat free_cnt)) bg in
     bindS (bg_sync_to_disk_with_csum sb (unat bgid) bg) (\<lambda>_.
     free_loop fs sb r (start + of_nat free_cnt) (cnt - free_cnt) n))))))))))"

definition balloc_free_blocks :: "ext4 \<Rightarrow> inode_ref \<Rightarrow> u64 \<Rightarrow> u32 \<Rightarrow> (jdev, inode_ref) io" where
  "balloc_free_blocks fs r start cnt =
     bindS read_super_block (\<lambda>sb.
     bindS (lift (get_bgid_of_block (fs_sb fs) start)) (\<lambda>bg_first.
     bindS (lift (get_bgid_of_block (fs_sb fs) (start + ucast cnt - 1))) (\<lambda>bg_last.
     free_loop fs sb r start (unat cnt) (Suc (unat bg_last) - unat bg_first))))"

section \<open>Batches\<close>

text \<open>The sequential scan of one group, over the bits \<open>idxs\<close>, until \<open>want\<close> blocks are found; the
  index at which it stopped comes back, \<open>end_idx\<close> when it ran out of bits. (The first index is that of
  the group's first block, 0, so it is never past the end.)\<close>

fun batch_scan ::
  "ext4 \<Rightarrow> u32 \<Rightarrow> nat \<Rightarrow> u32 \<Rightarrow> u32 list \<Rightarrow> bytes \<Rightarrow> u64 list \<Rightarrow> (u32 \<times> bytes \<times> u64 list) res" where
  "batch_scan fs bgid want end_idx [] bitmap acc = Ok (end_idx, bitmap, acc)"
| "batch_scan fs bgid want end_idx (i # is) bitmap acc =
     (if want \<le> length acc then Ok (i, bitmap, acc)
      else bind (ext4_bmap_is_bit_clr bitmap i) (\<lambda>clr.
        let block_num = bg_idx_to_addr (fs_sb fs) i bgid in
        if clr \<and> \<not> is_system_reserved_block fs block_num
        then bind (ext4_bmap_bit_set bitmap i) (\<lambda>bitmap. batch_scan fs bgid want end_idx is bitmap (acc @ [block_num]))
        else batch_scan fs bgid want end_idx is bitmap acc))"

text \<open>The bitmap search that follows. An iteration finds a block or moves \<open>start_idx\<close> up, so
  \<open>want + end_idx - start_idx\<close> iterations are enough.\<close>

fun batch_search ::
  "ext4 \<Rightarrow> u32 \<Rightarrow> nat \<Rightarrow> u32 \<Rightarrow> nat \<Rightarrow> u32 \<Rightarrow> bytes \<Rightarrow> u64 list \<Rightarrow> (bytes \<times> u64 list) res" where
  "batch_search fs bgid want end_idx 0 start_idx bitmap acc = Undef"
| "batch_search fs bgid want end_idx (Suc fuel) start_idx bitmap acc =
     (if want \<le> length acc then Ok (bitmap, acc)
      else bind (ext4_bmap_bit_find_clr bitmap start_idx end_idx) (\<lambda>found. case found of
        None \<Rightarrow> Ok (bitmap, acc)
      | Some i \<Rightarrow> let block_num = bg_idx_to_addr (fs_sb fs) i bgid in
          if is_system_reserved_block fs block_num
          then batch_search fs bgid want end_idx fuel (i + 1) bitmap acc
          else bind (ext4_bmap_bit_set bitmap i) (\<lambda>bitmap.
            batch_search fs bgid want end_idx fuel start_idx bitmap (acc @ [block_num]))))"

definition batch_pick ::
  "ext4 \<Rightarrow> u32 \<Rightarrow> nat \<Rightarrow> u32 \<Rightarrow> bytes \<Rightarrow> (bytes \<times> u64 list) res" where
  "batch_pick fs bgid want first bitmap =
     (let end_idx = min (blocks_per_group (fs_sb fs)) (of_nat (fs_block_size fs) * 8) in
      bind (batch_scan fs bgid want end_idx (map of_nat [unat first..<unat end_idx]) bitmap []) (\<lambda>(i, bitmap, acc).
      batch_search fs bgid want end_idx (Suc (want + unat end_idx)) i bitmap acc))"

text \<open>One group; the inode's block count is updated in memory only.\<close>

definition batch_group ::
  "ext4 \<Rightarrow> inode_ref \<Rightarrow> u32 \<Rightarrow> nat \<Rightarrow> (jdev, u64 list \<times> inode_ref) io" where
  "batch_group fs r bgid remaining =
     bindS (load_new (fs_sb fs) (unat bgid)) (\<lambda>bg.
     let free_blocks = get_free_blocks_count bg in
     if free_blocks = 0 then ret ([], r)
     else let pos = unat (get_block_bitmap_block (fs_sb fs) bg) * fs_block_size fs in
     bindS (jd_read pos (fs_block_size fs)) (\<lambda>bitmap_data.
     bindS (lift (addr_to_idx_bg (fs_sb fs) (get_block_of_bgid (fs_sb fs) bgid))) (\<lambda>first.
     bindS (lift (batch_pick fs bgid (min remaining (unat free_blocks)) first bitmap_data)) (\<lambda>(bitmap_data, found).
     if found = [] then ret ([], r)
     else bindS (lift (set_block_group_balloc_bitmap_csum (fs_sb fs) bitmap_data bg)) (\<lambda>bg.
       bindS (jd_write pos bitmap_data) (\<lambda>_.
       let bg = bg_set_free_blocks_count (ucast (free_blocks - of_nat (length found))) bg in
       bindS (bg_sync_to_disk_with_csum (fs_sb fs) (unat bgid) bg) (\<lambda>_.
       bindS read_super_block (\<lambda>sb.
       bindS (sync_to_disk_with_csum (set_free_blocks_count (free_blocks_count sb - of_nat (length found)) sb)) (\<lambda>_.
       let inode_blocks = inode_blocks_count (ir_inode r)
             + of_nat (length found) * of_nat (fs_block_size fs div EXT4_INODE_BLOCK_SIZE) in
       ret (found, r\<lparr> ir_inode := set_inode_blocks_count inode_blocks (ir_inode r) \<rparr>))))))))))"

fun batch_loop ::
  "ext4 \<Rightarrow> u32 \<Rightarrow> nat \<Rightarrow> inode_ref \<Rightarrow> u32 \<Rightarrow> nat \<Rightarrow> u64 list \<Rightarrow> (jdev, u64 list \<times> inode_ref \<times> u32) io" where
  "batch_loop fs groups 0 r bgid remaining acc = ret (acc, r, bgid)"
| "batch_loop fs groups (Suc n) r bgid remaining acc =
     (if remaining = 0 then ret (acc, r, bgid)
      else bindS (batch_group fs r bgid remaining) (\<lambda>(found, r).
        batch_loop fs groups n r ((bgid + 1) mod groups)
          (remaining - length found) (acc @ found)))"

definition balloc_alloc_block_batch ::
  "ext4 \<Rightarrow> inode_ref \<Rightarrow> u32 \<Rightarrow> nat \<Rightarrow> (jdev, u64 list \<times> inode_ref \<times> u32) io" where
  "balloc_alloc_block_batch fs r start_bgid count =
     (if count = 0 then ret ([], r, start_bgid)
      else bindS (lift (block_group_count (fs_sb fs))) (\<lambda>n.
        if n = 0 then lift (Err EINVAL)
        else let bgid = (if n \<le> start_bgid then 0 else start_bgid) in
          bindS (batch_loop fs n (unat n) r bgid count []) (\<lambda>(result, r, bgid).
          bindS (if result = [] then ret r else write_back_inode fs r) (\<lambda>r.
          ret (result, r, bgid)))))"

end
