(* ===== verification/Views.thy ===== *)
theory Views
  imports Alloc Geometry
begin

text \<open>
  Reasoning on what a reader sees. \<open>sees m s a v\<close> says that \<open>m\<close> run from \<open>s\<close> returns \<open>a\<close> and leaves
  the view \<open>v\<close>: it does not matter whether a transaction is open, the writes are then captured.
  Each operation that the allocators are made of has its rule: superblock, descriptors, inodes.
\<close>

section \<open>The logic\<close>

definition sees :: "(jdev, 'a) io \<Rightarrow> jdev \<Rightarrow> 'a \<Rightarrow> (nat \<Rightarrow> u8) \<Rightarrow> bool" where
  "sees m s a v \<longleftrightarrow> (\<exists>t. m s = (Ok a, t) \<and> jd_inv t \<and> jd_view t = v)"

lemma sees_bind:
  assumes "sees m s a v" and "\<And>t. jd_inv t \<Longrightarrow> jd_view t = v \<Longrightarrow> sees (f a) t b w"
  shows "sees (bindS m f) s b w"
  using assms unfolding sees_def bindS_def by fastforce

lemma sees_ret: "jd_inv s \<Longrightarrow> jd_view s = v \<Longrightarrow> sees (ret a) s a v"
  by (simp add: sees_def)

lemma sees_lift: "jd_inv s \<Longrightarrow> jd_view s = v \<Longrightarrow> r = Ok a \<Longrightarrow> sees (lift r) s a v"
  by (simp add: sees_def)

lemma sees_read: "jd_inv s \<Longrightarrow> jd_view s = v \<Longrightarrow> sees (jd_read off n) s (image_read v off n) v"
  by (auto simp: sees_def jd_read_view)

lemma sees_write: "jd_inv s \<Longrightarrow> jd_view s = v \<Longrightarrow> sees (jd_write off d) s () (image_write v off d)"
  using jd_write_view by (auto simp: sees_def)

lemma sees_unique: "sees m s a v \<Longrightarrow> sees m s b w \<Longrightarrow> b = a \<and> w = v"
  by (auto simp: sees_def)

section \<open>Superblock\<close>

definition sb_at :: "(nat \<Rightarrow> u8) \<Rightarrow> superblock" where
  "sb_at v = image_read v 1024 1024"

definition sb_stamped :: "superblock \<Rightarrow> superblock" where
  "sb_stamped sb = sb_put 4 ''checksum'' (crc_ref EXT4_CRC32_INIT (slice sb 0 0x3fc)) sb"

lemma length_sb_at [simp]: "length (sb_at v) = 1024"
  by (simp add: sb_at_def)

lemma length_sb_put [simp]:
  "offset_of superblock_layout field + n \<le> length sb \<Longrightarrow> length (sb_put n field v sb) = length sb"
  by (simp add: sb_put_def)

lemma length_sb_stamped [simp]: "length sb = 1024 \<Longrightarrow> length (sb_stamped sb) = 1024"
  by (simp add: sb_stamped_def)

lemma sees_super: "jd_inv s \<Longrightarrow> jd_view s = v \<Longrightarrow> sees read_super_block s (sb_at v) v"
  unfolding read_super_block_def SUPERBLOCK_OFFSET_def sb_at_def by (rule sees_read)

lemma sees_sync_super:
  assumes "jd_inv s" and "jd_view s = v" and "length sb = 1024"
  shows "sees (sync_to_disk_with_csum sb) s (sb_stamped sb) (image_write v 1024 (sb_stamped sb))"
proof -
  have "with_csum sb = Ok (sb_stamped sb)"
    using assms(3) by (simp add: with_csum_def ext4_crc32c_def crc32_def crc32_loop_ref sb_stamped_def slice_def)
  then show ?thesis
    using sees_write [OF assms(1,2), of 1024 "sb_stamped sb"]
    by (auto simp: sync_to_disk_with_csum_def SUPERBLOCK_OFFSET_def sees_def bindS_def)
qed

section \<open>Descriptors\<close>

definition desc_pos :: "superblock \<Rightarrow> u32 \<Rightarrow> nat" where
  "desc_pos sb g = (unat (first_data_block sb) + 1) * unat (block_size sb) + 64 * unat g"

definition desc_at :: "(nat \<Rightarrow> u8) \<Rightarrow> superblock \<Rightarrow> u32 \<Rightarrow> block_group" where
  "desc_at v sb g = image_read v (desc_pos sb g) 64"

definition bg_stamped :: "u32 \<Rightarrow> superblock \<Rightarrow> block_group \<Rightarrow> block_group" where
  "bg_stamped g sb bg = bg_put 2 ''checksum'' (ucast (bg_csum g sb bg) :: u16) bg"

lemma length_desc_at [simp]: "length (desc_at v sb g) = 64"
  by (simp add: desc_at_def)

lemma length_bg_stamped [simp]: "length bg = 64 \<Longrightarrow> length (bg_stamped g sb bg) = 64"
  by (simp add: bg_stamped_def)

lemma desc_size_table: "table_ok sb \<Longrightarrow> desc_size sb = 64"
  by (simp add: table_ok_def desc_size_def raw_desc_size_def)

lemma sees_load_new:
  "jd_inv s \<Longrightarrow> jd_view s = v \<Longrightarrow> table_ok sb \<Longrightarrow> sees (load_new sb (unat g)) s (desc_at v sb g) v"
  by (auto simp: sees_def load_new_eq desc_at_def desc_pos_def)

lemma sees_bg_sync:
  assumes "jd_inv s" and "jd_view s = v" and "table_ok sb" and "length sb = 1024" and "length bg = 64"
  shows "sees (bg_sync_to_disk_with_csum sb (unat g) bg) s (bg_stamped g sb bg)
    (image_write v (desc_pos sb g) (bg_stamped g sb bg))"
proof -
  have "set_block_group_checksum g sb bg = Ok (bg_stamped g sb bg)"
    using get_block_group_checksum_eq [OF assms(4,5), of g] desc_size_table [OF assms(3)]
    by (simp add: set_block_group_checksum_def bg_stamped_def)
  then show ?thesis
    using sync_block_group_eq [OF assms(3,1), of "unat g" "bg_stamped g sb bg"] assms(2)
    by (auto simp: bg_sync_to_disk_with_csum_def sees_def bindS_def desc_pos_def)
qed

text \<open>The checksum in a stamped descriptor is right.\<close>

lemma bg_stamped_csum:
  assumes "table_ok sb" and "length sb = 1024" and "length bg = 64"
  shows "get_block_group_checksum g sb (bg_stamped g sb bg) = Ok (bg_get 2 ''checksum'' (bg_stamped g sb bg))"
proof -
  have "bg_put 2 ''checksum'' (0 :: u16) (bg_stamped g sb bg) = bg_put 2 ''checksum'' (0 :: u16) bg"
    using assms by (simp add: bg_stamped_def bg_put_def le_put_def put_put_same)
  then have "bg_csum g sb (bg_stamped g sb bg) = bg_csum g sb bg" by (simp add: bg_csum_def)
  then show ?thesis
    using get_block_group_checksum_eq [OF assms(2), of "bg_stamped g sb bg" g] assms desc_size_table [OF assms(1)]
    by (simp add: bg_stamped_def bg_get_def bg_put_def)
qed

section \<open>Descriptor fields are independent\<close>

named_theorems bg_frame

lemmas bg_getters = get_free_inodes_count_def get_used_dirs_count_def get_itable_unused_def
  get_inode_bitmap_block_def get_block_bitmap_block_def get_inode_table_blk_num_def get_free_blocks_count_def
  bg_access

lemma free_inodes_frame [bg_frame]:
  assumes "length bg = 64"
  shows "length (set_free_inodes_count sb n bg) = 64"
    and "get_used_dirs_count t (set_free_inodes_count sb n bg) = get_used_dirs_count t bg"
    and "get_itable_unused t (set_free_inodes_count sb n bg) = get_itable_unused t bg"
    and "get_inode_bitmap_block t (set_free_inodes_count sb n bg) = get_inode_bitmap_block t bg"
    and "get_block_bitmap_block t (set_free_inodes_count sb n bg) = get_block_bitmap_block t bg"
    and "get_inode_table_blk_num (set_free_inodes_count sb n bg) = get_inode_table_blk_num bg"
    and "get_free_blocks_count (set_free_inodes_count sb n bg) = get_free_blocks_count bg"
  using assms by (simp_all add: set_free_inodes_count_def bg_getters)

lemma used_dirs_frame [bg_frame]:
  assumes "length bg = 64"
  shows "length (set_used_dirs_count sb n bg) = 64"
    and "get_free_inodes_count (set_used_dirs_count sb n bg) = get_free_inodes_count bg"
    and "get_itable_unused t (set_used_dirs_count sb n bg) = get_itable_unused t bg"
    and "get_inode_bitmap_block t (set_used_dirs_count sb n bg) = get_inode_bitmap_block t bg"
    and "get_block_bitmap_block t (set_used_dirs_count sb n bg) = get_block_bitmap_block t bg"
    and "get_inode_table_blk_num (set_used_dirs_count sb n bg) = get_inode_table_blk_num bg"
    and "get_free_blocks_count (set_used_dirs_count sb n bg) = get_free_blocks_count bg"
  using assms by (simp_all add: set_used_dirs_count_def bg_getters)

lemma itable_unused_frame [bg_frame]:
  assumes "length bg = 64"
  shows "length (set_itable_unused sb n bg) = 64"
    and "get_free_inodes_count (set_itable_unused sb n bg) = get_free_inodes_count bg"
    and "get_used_dirs_count t (set_itable_unused sb n bg) = get_used_dirs_count t bg"
    and "get_inode_bitmap_block t (set_itable_unused sb n bg) = get_inode_bitmap_block t bg"
    and "get_block_bitmap_block t (set_itable_unused sb n bg) = get_block_bitmap_block t bg"
    and "get_inode_table_blk_num (set_itable_unused sb n bg) = get_inode_table_blk_num bg"
    and "get_free_blocks_count (set_itable_unused sb n bg) = get_free_blocks_count bg"
  using assms by (simp_all add: set_itable_unused_def bg_getters)

lemma free_blocks_frame [bg_frame]:
  assumes "length bg = 64"
  shows "length (bg_set_free_blocks_count n bg) = 64"
    and "get_free_inodes_count (bg_set_free_blocks_count n bg) = get_free_inodes_count bg"
    and "get_used_dirs_count t (bg_set_free_blocks_count n bg) = get_used_dirs_count t bg"
    and "get_itable_unused t (bg_set_free_blocks_count n bg) = get_itable_unused t bg"
    and "get_inode_bitmap_block t (bg_set_free_blocks_count n bg) = get_inode_bitmap_block t bg"
    and "get_block_bitmap_block t (bg_set_free_blocks_count n bg) = get_block_bitmap_block t bg"
    and "get_inode_table_blk_num (bg_set_free_blocks_count n bg) = get_inode_table_blk_num bg"
  using assms by (simp_all add: bg_set_free_blocks_count_def bg_getters)

lemma stamp_frame [bg_frame]:
  assumes "length bg = 64"
  shows "length (bg_stamped g sb bg) = 64"
    and "get_free_inodes_count (bg_stamped g sb bg) = get_free_inodes_count bg"
    and "get_used_dirs_count t (bg_stamped g sb bg) = get_used_dirs_count t bg"
    and "get_itable_unused t (bg_stamped g sb bg) = get_itable_unused t bg"
    and "get_inode_bitmap_block t (bg_stamped g sb bg) = get_inode_bitmap_block t bg"
    and "get_block_bitmap_block t (bg_stamped g sb bg) = get_block_bitmap_block t bg"
    and "get_inode_table_blk_num (bg_stamped g sb bg) = get_inode_table_blk_num bg"
    and "get_free_blocks_count (bg_stamped g sb bg) = get_free_blocks_count bg"
  using assms by (simp_all add: bg_stamped_def bg_getters)

section \<open>Regions\<close>

definition apart :: "nat \<times> nat \<Rightarrow> nat \<times> nat \<Rightarrow> bool" where
  "apart r q \<longleftrightarrow> fst r + snd r \<le> fst q \<or> fst q + snd q \<le> fst r"

fun regions_apart :: "(nat \<times> nat) list \<Rightarrow> bool" where
  "regions_apart [] = True"
| "regions_apart (r # rs) = (list_all (apart r) rs \<and> regions_apart rs)"

lemma apart_sym: "apart r q = apart q r"
  by (auto simp: apart_def)

lemma read_written: "length d = n \<Longrightarrow> image_read (image_write v p d) p n = d"
  using image_read_write_same [of v p d] by simp

lemma read_apart: "apart (a, n) (p, length d) \<Longrightarrow> image_read (image_write v p d) a n = image_read v a n"
  by (rule image_read_write_apart) (simp add: apart_def)

section \<open>Geometry\<close>

text \<open>The fields that no operation changes.\<close>

definition same_geometry :: "superblock \<Rightarrow> superblock \<Rightarrow> bool" where
  "same_geometry a b \<longleftrightarrow> length a = length b \<and> raw_desc_size a = raw_desc_size b \<and> block_size a = block_size b
     \<and> first_data_block a = first_data_block b \<and> inodes_per_group a = inodes_per_group b
     \<and> blocks_per_group a = blocks_per_group b \<and> total_inodes a = total_inodes b
     \<and> blocks_count a = blocks_count b \<and> sb_inode_size a = sb_inode_size b
     \<and> (sb_get 4 ''features_read_only'' a :: u32) = sb_get 4 ''features_read_only'' b
     \<and> slice a 104 16 = slice b 104 16"

lemma same_geometry_refl [simp]: "same_geometry a a"
  by (simp add: same_geometry_def)

lemma same_geometry_trans: "same_geometry a b \<Longrightarrow> same_geometry b c \<Longrightarrow> same_geometry a c"
  by (simp add: same_geometry_def)

lemma same_geometry_sym: "same_geometry a b \<Longrightarrow> same_geometry b a"
  by (simp add: same_geometry_def)

lemma geometry_fields:
  assumes "same_geometry a b"
  shows "table_ok a = table_ok b" "desc_pos a g = desc_pos b g" "desc_at v a g = desc_at v b g"
    "get_inode_bitmap_block a bg = get_inode_bitmap_block b bg" "get_block_bitmap_block a bg = get_block_bitmap_block b bg"
    "desc_size a = desc_size b" "wide_descriptors a = wide_descriptors b"
    "get_used_dirs_count a bg = get_used_dirs_count b bg" "get_itable_unused a bg = get_itable_unused b bg"
    "set_used_dirs_count a x bg = set_used_dirs_count b x bg" "set_free_inodes_count a x bg = set_free_inodes_count b x bg"
    "block_group_count a = block_group_count b" "get_inodes_in_group_cnt a g = get_inodes_in_group_cnt b g"
    "get_bgid_of_inode a n = get_bgid_of_inode b n" "inode_to_bgidx a n = inode_to_bgidx b n"
    "get_bgid_of_block a p = get_bgid_of_block b p" "addr_to_idx_bg a p = addr_to_idx_bg b p"
    "bg_csum g a bg = bg_csum g b bg" "bg_stamped g a bg = bg_stamped g b bg"
proof -
  have d: "desc_size a = desc_size b" using assms by (simp add: desc_size_def same_geometry_def flip: raw_desc_size_def)
  have c: "block_group_count a = block_group_count b" using assms by (simp add: block_group_count_def same_geometry_def)
  note g = assms [unfolded same_geometry_def] d c
  show "table_ok a = table_ok b" "desc_pos a g = desc_pos b g" "desc_at v a g = desc_at v b g"
    "get_inode_bitmap_block a bg = get_inode_bitmap_block b bg" "get_block_bitmap_block a bg = get_block_bitmap_block b bg"
    "desc_size a = desc_size b" "wide_descriptors a = wide_descriptors b"
    "get_used_dirs_count a bg = get_used_dirs_count b bg" "get_itable_unused a bg = get_itable_unused b bg"
    "set_used_dirs_count a x bg = set_used_dirs_count b x bg" "set_free_inodes_count a x bg = set_free_inodes_count b x bg"
    "block_group_count a = block_group_count b" "get_inodes_in_group_cnt a g = get_inodes_in_group_cnt b g"
    "get_bgid_of_inode a n = get_bgid_of_inode b n" "inode_to_bgidx a n = inode_to_bgidx b n"
    "get_bgid_of_block a p = get_bgid_of_block b p" "addr_to_idx_bg a p = addr_to_idx_bg b p"
    "bg_csum g a bg = bg_csum g b bg" "bg_stamped g a bg = bg_stamped g b bg"
    by (simp_all add: g table_ok_def desc_pos_def desc_at_def get_inode_bitmap_block_def get_block_bitmap_block_def
        wide_descriptors_def get_used_dirs_count_def get_itable_unused_def set_used_dirs_count_def set_free_inodes_count_def
        get_inodes_in_group_cnt_def get_bgid_of_inode_def inode_to_bgidx_def get_bgid_of_block_def addr_to_idx_bg_def
        shifted_addr_def bg_csum_def bg_stamped_def cong: if_cong)
qed

lemma geometry_kept:
  assumes "length sb = 1024"
  shows "same_geometry (sb_stamped (decrease_free_inodes_count sb)) sb"
    "same_geometry (sb_stamped (increase_free_inodes_count sb)) sb"
    "same_geometry (sb_stamped (set_free_blocks_count n sb)) sb"
    "same_geometry (decrease_free_inodes_count sb) sb" "same_geometry (increase_free_inodes_count sb) sb"
    "same_geometry (set_free_blocks_count n sb) sb"
  using assms by (simp_all add: same_geometry_def sb_stamped_def decrease_free_inodes_count_def
      increase_free_inodes_count_def set_free_blocks_count_def sb_get_def sb_put_def raw_desc_size_def
      block_size_def first_data_block_def inodes_per_group_def blocks_per_group_def total_inodes_def
      blocks_count_def sb_inode_size_def slice_le_put_other)

section \<open>A small filesystem\<close>

text \<open>One group of blocks of 2048 bytes: the superblock at byte 1024, the descriptor in block 1, the
  inode bitmap in block 5 (three inodes in use), the block bitmap in block 6 (nine blocks in use), the
  inode table from block 8 on.\<close>

definition tiny_sb :: superblock where
  "tiny_sb = sb_put 2 ''desc_size'' (64 :: u16) (sb_put 4 ''log_block_size'' (1 :: u32)
     (sb_put 4 ''free_inodes_count'' (13 :: u32) (sb_put 2 ''inode_size'' (256 :: u16) (sb_put 4 ''inodes_per_group'' (16 :: u32)
     (sb_put 4 ''inodes_count'' (16 :: u32) (sb_put 4 ''blocks_per_group'' (16384 :: u32)
     (sb_put 4 ''blocks_count_lo'' (100 :: u32) (replicate 1024 0))))))))"

definition tiny_bg :: block_group where
  "tiny_bg = bg_put 4 ''block_bitmap_lo'' (6 :: u32) (bg_put 4 ''inode_bitmap_lo'' (5 :: u32)
     (bg_put 4 ''inode_table_first_block_lo'' (8 :: u32) (bg_put 2 ''free_blocks_count_lo'' (50 :: u16)
     (bg_put 2 ''free_inodes_count_lo'' (13 :: u16) (replicate 64 0)))))"

definition tiny_image :: "nat \<Rightarrow> u8" where
  "tiny_image = image_write (image_write (image_write (image_write (\<lambda>_. 0) 1024 tiny_sb) 2048 tiny_bg)
     10240 [7]) 12288 [0xFF, 1]"

definition tiny_dev :: jdev where
  "tiny_dev = JournalDevice_new \<lparr> dk_image = tiny_image, dk_events = [] \<rparr> 2048"

definition tiny_fs :: ext4 where
  "tiny_fs = \<lparr> fs_sb = tiny_sb, fs_zones = Some [\<lparr> sz_group = 0, sz_start_blk = 0, sz_end_blk = 9 \<rparr>],
     fs_journal = None \<rparr>"

lemma zeros_get: "a + n \<le> k \<Longrightarrow> le_get a n (replicate k 0) = (0 :: 'a::len word)"
proof -
  have "le_word (replicate n 0) = (0 :: 'a word)" by (induction n) (simp_all add: le_word_Cons)
  then show "a + n \<le> k \<Longrightarrow> ?thesis" by (simp add: le_get_def slice_replicate)
qed

lemma tiny_sb [simp]:
  "length tiny_sb = 1024" "desc_size tiny_sb = 64" "raw_desc_size tiny_sb = 64" "block_size tiny_sb = 2048"
  "first_data_block tiny_sb = 0" "inodes_per_group tiny_sb = 16" "total_inodes tiny_sb = 16"
  "blocks_per_group tiny_sb = 16384" "blocks_count tiny_sb = 100" "sb_inode_size tiny_sb = 256"
  by (simp_all add: tiny_sb_def sb_put_def sb_get_def desc_size_def raw_desc_size_def block_size_def
      first_data_block_def inodes_per_group_def total_inodes_def blocks_per_group_def blocks_count_def
      sb_inode_size_def zeros_get)

lemma tiny_table [simp]: "table_ok tiny_sb"
  by (simp add: table_ok_def)

lemma tiny_bg [simp]:
  "length tiny_bg = 64" "get_free_inodes_count tiny_bg = 13" "get_inode_bitmap_block sb tiny_bg = 5"
  "get_block_bitmap_block sb tiny_bg = 6" "get_inode_table_blk_num tiny_bg = 8" "get_free_blocks_count tiny_bg = 50"
  by (simp_all add: tiny_bg_def bg_getters zeros_get)

lemma tiny_fs [simp]: "fs_sb tiny_fs = tiny_sb" "fs_block_size tiny_fs = 2048"
  by (simp_all add: tiny_fs_def fs_block_size_def)

lemma tiny_dev [simp]: "jd_inv tiny_dev" "jd_view tiny_dev = tiny_image"
  by (simp_all add: tiny_dev_def jd_inv_def jd_view_def JournalDevice_new_def)

lemma tiny_reads [simp]:
  "sb_at tiny_image = tiny_sb" "desc_at tiny_image tiny_sb 0 = tiny_bg"
  by (simp_all add: sb_at_def desc_at_def desc_pos_def tiny_image_def read_apart read_written apart_def)

lemma tiny_groups [simp]: "block_group_count tiny_sb = Ok 1" "get_inodes_in_group_cnt tiny_sb 0 = Ok 16"
  by (simp_all add: get_inodes_in_group_cnt_def block_group_count_def saturating_sub_def)

end
