(* ===== verification/InodeStore.thy ===== *)
theory InodeStore
  imports Views
begin

text \<open>
  Inodes on disk: where an inode lies, what writing it back changes and that it is read back. The
  write covers the 156 bytes of the struct, whatever the size of an inode record is.
\<close>

section \<open>Position\<close>

definition inode_group :: "superblock \<Rightarrow> u32 \<Rightarrow> u32" where
  "inode_group sb ino = saturating_sub ino 1 div inodes_per_group sb"

definition inode_pos :: "ext4 \<Rightarrow> (nat \<Rightarrow> u8) \<Rightarrow> u32 \<Rightarrow> nat" where
  "inode_pos fs v ino =
     unat (get_inode_table_blk_num (desc_at v (fs_sb fs) (inode_group (fs_sb fs) ino))) * fs_block_size fs
     + unat (saturating_sub ino 1 mod inodes_per_group (fs_sb fs)) * unat (sb_inode_size (fs_sb fs))"

definition inode_at :: "ext4 \<Rightarrow> (nat \<Rightarrow> u8) \<Rightarrow> u32 \<Rightarrow> inode" where
  "inode_at fs v ino = inode_of_bytes (image_read v (inode_pos fs v ino) 156)"

text \<open>The cached superblock is one that the inode code can work with.\<close>

definition inodes_ready :: "ext4 \<Rightarrow> bool" where
  "inodes_ready fs \<longleftrightarrow> table_ok (fs_sb fs) \<and> length (fs_sb fs) = 1024 \<and> inodes_per_group (fs_sb fs) \<noteq> 0
     \<and> 156 \<le> fs_block_size fs \<and> 128 \<le> sb_inode_size (fs_sb fs) \<and> sb_inode_size (fs_sb fs) \<le> 256"

lemma sees_inode_pos:
  assumes "jd_inv s" and "jd_view s = v" and "inodes_ready fs"
  shows "sees (inode_disk_pos fs ino) s (inode_pos fs v ino) v"
proof -
  have t: "table_ok (fs_sb fs)" "inodes_per_group (fs_sb fs) \<noteq> 0" using assms(3) by (simp_all add: inodes_ready_def)
  show ?thesis
    unfolding inode_disk_pos_def Let_def inode_group_def [symmetric] if_not_P [OF t(2)]
    by (rule sees_bind [OF sees_load_new [OF assms(1,2) t(1)]]) (simp add: sees_ret inode_pos_def)
qed

section \<open>Writing back\<close>

text \<open>The inode as it is written: with the checksum over its struct and the tail of its record.\<close>

definition record_tail :: "ext4 \<Rightarrow> (nat \<Rightarrow> u8) \<Rightarrow> u32 \<Rightarrow> bytes" where
  "record_tail fs v ino = (let n = unat (sb_inode_size (fs_sb fs)) in
     if 156 < n then image_read v (inode_pos fs v ino + 156) (n - 156) else [])"

definition checksummed :: "ext4 \<Rightarrow> (nat \<Rightarrow> u8) \<Rightarrow> inode_ref \<Rightarrow> inode" where
  "checksummed fs v r = set_inode_checksum_value (fs_sb fs)
     (inode_crc (ir_inode_num r) (fs_sb fs) (record_tail fs v (ir_inode_num r)) (ir_inode r))
     (zero_checksum (ir_inode r))"

lemma checksummed_props:
  assumes "length (i_block (ir_inode r)) = 60"
  shows "zero_checksum (checksummed fs v r) = zero_checksum (ir_inode r)"
    and "length (i_block (checksummed fs v r)) = 60" and "length (inode_bytes (checksummed fs v r)) = 156"
proof -
  show z: "zero_checksum (checksummed fs v r) = zero_checksum (ir_inode r)"
    by (simp add: checksummed_def set_inode_checksum_value_def zero_checksum_def Let_def)
  show b: "length (i_block (checksummed fs v r)) = 60"
    using assms by (simp add: checksummed_def set_inode_checksum_value_def zero_checksum_def Let_def)
  show "length (inode_bytes (checksummed fs v r)) = 156" using b by simp
qed

lemma sees_write_back:
  assumes "jd_inv s" and "jd_view s = v" and ready: "inodes_ready fs" and blk: "length (i_block (ir_inode r)) = 60"
  shows "sees (write_back_inode fs r) s (r\<lparr> ir_inode := checksummed fs v r \<rparr>)
      (image_write v (inode_pos fs v (ir_inode_num r)) (inode_bytes (checksummed fs v r)))"
proof -
  let ?sb = "fs_sb fs" and ?n = "ir_inode_num r"
  let ?sz = "unat (sb_inode_size ?sb)" and ?p = "inode_pos fs v ?n"
  have sz: "length ?sb = 1024" "128 \<le> sb_inode_size ?sb" "\<not> 256 < sb_inode_size ?sb"
    using ready by (simp_all add: inodes_ready_def not_less)
  have set: "set_inode_checksum_with_tail ?sb ?n (record_tail fs v ?n) (ir_inode r) = Ok (checksummed fs v r)"
    using set_inode_checksum_eq [OF sz(1) blk sz(2)] sz(3) by (simp add: checksummed_def)
  have tail: "sees (if 156 < ?sz then jd_read (?p + 156) (?sz - 156) else ret []) t (record_tail fs v ?n) v"
    if "jd_inv t" "jd_view t = v" for t
    by (simp add: record_tail_def sees_read [OF that] sees_ret [OF that])
  show ?thesis
    unfolding write_back_inode_def Let_def
    apply (rule sees_bind [OF sees_inode_pos [OF assms(1,2) ready]])
    apply (rule sees_bind, erule (1) tail)
    apply (simp only: set bindS_simps sync_inode_to_disk_def)
    apply (rule sees_bind, erule (1) sees_write)
    apply (erule (1) sees_ret)
    done
qed

lemma sees_get_inode_ref:
  assumes "jd_inv s" and "jd_view s = v" and "inodes_ready fs"
  shows "sees (get_inode_ref fs ino) s \<lparr> ir_inode_num = ino, ir_inode = inode_at fs v ino \<rparr> v"
  unfolding get_inode_ref_def
proof (rule sees_bind [OF sees_inode_pos [OF assms]])
  fix t
  assume t: "jd_inv t" "jd_view t = v"
  have le: "156 \<le> fs_block_size fs" using assms(3) by (simp add: inodes_ready_def)
  show "sees (bindS (jd_read (inode_pos fs v ino) (fs_block_size fs))
      (\<lambda>block. lift (if 156 \<le> length block
         then Ok \<lparr> ir_inode_num = ino, ir_inode = inode_of_bytes (slice block 0 156) \<rparr> else Undef))) t
      \<lparr> ir_inode_num = ino, ir_inode = inode_at fs v ino \<rparr> v"
    by (rule sees_bind [OF sees_read [OF t]])
       (use le slice_image_read [of 0 156 "fs_block_size fs" v] in \<open>simp add: sees_ret sees_lift inode_at_def\<close>)
qed

section \<open>Properties\<close>

text \<open>C18: an inode that was written back is read back, with its checksum set and no other field
  changed; the write changes exactly the 156 bytes of the struct at the inode's position, so every
  other inode whose descriptor and struct lie apart from them reads as before.\<close>

theorem inode_write_back_roundtrip:
  assumes "jd_inv s" and "inodes_ready fs" and "length (i_block (ir_inode r)) = 60"
    and "apart (desc_pos (fs_sb fs) (inode_group (fs_sb fs) (ir_inode_num r)), 64)
      (inode_pos fs (jd_view s) (ir_inode_num r), 156)"
  shows "\<exists>i t. write_back_inode fs r s = (Ok (r\<lparr> ir_inode := i \<rparr>), t) \<and> jd_inv t
    \<and> zero_checksum i = zero_checksum (ir_inode r)
    \<and> fst (get_inode_ref fs (ir_inode_num r) t) = Ok (r\<lparr> ir_inode := i \<rparr>)
    \<and> (\<exists>d. length d = 156 \<and> jd_view t = image_write (jd_view s) (inode_pos fs (jd_view s) (ir_inode_num r)) d)
    \<and> (\<forall>n. apart (desc_pos (fs_sb fs) (inode_group (fs_sb fs) n), 64) (inode_pos fs (jd_view s) (ir_inode_num r), 156)
          \<and> apart (inode_pos fs (jd_view s) n, 156) (inode_pos fs (jd_view s) (ir_inode_num r), 156)
        \<longrightarrow> fst (get_inode_ref fs n t) = fst (get_inode_ref fs n s))"
proof -
  let ?v = "jd_view s" and ?n = "ir_inode_num r"
  let ?p = "inode_pos fs ?v ?n"
  obtain i where i: "sees (write_back_inode fs r) s (r\<lparr> ir_inode := i \<rparr>) (image_write ?v ?p (inode_bytes i))"
    "zero_checksum i = zero_checksum (ir_inode r)" "length (i_block i) = 60" "length (inode_bytes i) = 156"
    using sees_write_back [OF assms(1) refl assms(2,3)] checksummed_props [OF assms(3)] by blast
  then obtain t where t: "write_back_inode fs r s = (Ok (r\<lparr> ir_inode := i \<rparr>), t)" "jd_inv t"
    "jd_view t = image_write ?v ?p (inode_bytes i)" by (auto simp: sees_def)
  have get: "fst (get_inode_ref fs k u) = Ok \<lparr> ir_inode_num = k, ir_inode = inode_at fs (jd_view u) k \<rparr>"
    if "jd_inv u" for k u
    using sees_get_inode_ref [OF that refl assms(2), of k] by (auto simp: sees_def)
  have pos: "inode_pos fs (jd_view t) k = inode_pos fs ?v k"
    if "apart (desc_pos (fs_sb fs) (inode_group (fs_sb fs) k), 64) (?p, 156)" for k
    using that i(4) by (simp add: inode_pos_def desc_at_def t(3) read_apart)
  have "inode_at fs (jd_view t) ?n = i"
    using pos [OF assms(4)] i(3,4) inode_roundtrip [of i "[]"]
    by (simp add: inode_at_def t(3) read_written)
  moreover have "inode_at fs (jd_view t) k = inode_at fs ?v k"
    if "apart (desc_pos (fs_sb fs) (inode_group (fs_sb fs) k), 64) (?p, 156)" "apart (inode_pos fs ?v k, 156) (?p, 156)" for k
    using pos [OF that(1)] that(2) i(4) by (simp add: inode_at_def t(3) read_apart)
  ultimately show ?thesis
    using t(1,2) i(2,4) get [OF t(2)] get [OF assms(1)] t(3)
    by (intro exI [of _ i] exI [of _ t]) (auto intro!: exI [of _ "inode_bytes i"])
qed

lemma tiny_inodes [simp]: "inodes_ready tiny_fs"
  by (simp add: inodes_ready_def)

lemma tiny_inode_pos: "inode_pos tiny_fs tiny_image 12 = 8 * 2048 + 11 * 256"
  by (simp add: inode_pos_def inode_group_def saturating_sub_def)

theorem inode_write_back_roundtrip_witness:
  "\<exists>i t. write_back_inode tiny_fs \<lparr> ir_inode_num = 12, ir_inode = inode_of_bytes (replicate 156 1) \<rparr> tiny_dev
      = (Ok \<lparr> ir_inode_num = 12, ir_inode = i \<rparr>, t)
    \<and> fst (get_inode_ref tiny_fs 12 t) = Ok \<lparr> ir_inode_num = 12, ir_inode = i \<rparr>"
proof -
  have b: "length (i_block (inode_of_bytes (replicate 156 1))) = 60"
    by (simp add: inode_of_bytes_def)
  have a: "apart (desc_pos tiny_sb (inode_group tiny_sb 12), 64) (inode_pos tiny_fs tiny_image 12, 156)"
    by (simp add: apart_def tiny_inode_pos desc_pos_def inode_group_def saturating_sub_def)
  show ?thesis
    using inode_write_back_roundtrip [of tiny_dev tiny_fs "\<lparr> ir_inode_num = 12, ir_inode = inode_of_bytes (replicate 156 1) \<rparr>"] a b
    by auto
qed

end
