(* ===== verification/InodeAlloc.thy ===== *)
theory InodeAlloc
  imports Views
begin

text \<open>
  Inode allocation: which inode is handed out, and what the disk holds afterwards; freeing is its
  inverse.
\<close>

section \<open>Bitmap checksums\<close>

text \<open>Setting a bitmap checksum touches bytes 24 to 28 and 56 to 60 of the descriptor only.\<close>

definition same_but_csums :: "block_group \<Rightarrow> block_group \<Rightarrow> bool" where
  "same_but_csums b bg \<longleftrightarrow> length b = length bg \<and>
     (\<forall>a n. a + n \<le> 24 \<or> 28 \<le> a \<and> a + n \<le> 56 \<or> 60 \<le> a \<longrightarrow> slice b a n = slice bg a n)"

lemma same_but_csums_getters:
  assumes "same_but_csums b bg"
  shows "get_free_inodes_count b = get_free_inodes_count bg" "get_used_dirs_count sb b = get_used_dirs_count sb bg"
    "get_itable_unused sb b = get_itable_unused sb bg" "get_inode_bitmap_block sb b = get_inode_bitmap_block sb bg"
    "get_block_bitmap_block sb b = get_block_bitmap_block sb bg" "get_inode_table_blk_num b = get_inode_table_blk_num bg"
    "get_free_blocks_count b = get_free_blocks_count bg" "length b = length bg"
  using assms
  by (simp_all add: same_but_csums_def get_free_inodes_count_def get_used_dirs_count_def get_itable_unused_def
      get_inode_bitmap_block_def get_block_bitmap_block_def get_inode_table_blk_num_def get_free_blocks_count_def
      bg_get_def le_get_def Let_def)

lemma put_csums_same:
  assumes "length bg = 64"
  shows "same_but_csums (bg_put 2 ''inode_bitmap_csum_lo'' (x :: u16) bg) bg"
    and "same_but_csums (bg_put 2 ''inode_bitmap_csum_hi'' (y :: u16) (bg_put 2 ''inode_bitmap_csum_lo'' (x :: u16) bg)) bg"
    and "same_but_csums (bg_put 2 ''block_bitmap_csum_lo'' (x :: u16) bg) bg"
    and "same_but_csums (bg_put 2 ''block_bitmap_csum_hi'' (y :: u16) (bg_put 2 ''block_bitmap_csum_lo'' (x :: u16) bg)) bg"
  using assms by (auto simp: same_but_csums_def bg_put_def slice_le_put_other)

lemma ialloc_csum_ok:
  assumes "length sb = 1024" and "length bg = 64"
    and "unat ((inodes_per_group sb + 7) div 8) \<le> length bitmap"
  obtains b where "set_block_group_ialloc_bitmap_csum sb bitmap bg = Ok b" and "same_but_csums b bg"
proof -
  have "ext4_crc32c EXT4_CRC32_INIT (slice sb 104 16) 16 = Ok (crc_ref EXT4_CRC32_INIT (slice sb 104 16))"
    using ext4_crc32c_small [of "slice sb 104 16"] assms(1) by simp
  then obtain c where "ext4_ialloc_bitmap_csum sb bitmap = Ok c"
    using assms(3) by (simp add: ext4_ialloc_bitmap_csum_def ext4_crc32c_def crc32_def crc32_loop_ref)
  then show thesis using that put_csums_same [OF assms(2)]
    by (auto simp: set_block_group_ialloc_bitmap_csum_def Let_def same_but_csums_def)
qed

section \<open>The group that is chosen\<close>

text \<open>The inode bitmap of a group and its first free bit among the first \<open>n\<close>, when the descriptor
  says that there is one.\<close>

definition ibm_pos :: "ext4 \<Rightarrow> superblock \<Rightarrow> block_group \<Rightarrow> nat" where
  "ibm_pos fs sb bg = unat (get_inode_bitmap_block sb bg) * fs_block_size fs"

definition free_index :: "ext4 \<Rightarrow> (nat \<Rightarrow> u8) \<Rightarrow> superblock \<Rightarrow> u32 \<Rightarrow> u32 \<Rightarrow> nat option" where
  "free_index fs v sb g n =
     (if get_free_inodes_count (desc_at v sb g) = 0 then None
      else first_clear (image_read v (ibm_pos fs sb (desc_at v sb g)) (fs_block_size fs)) 0 (unat n))"

text \<open>What taking a bit changes in the descriptor.\<close>

definition ialloc_desc :: "superblock \<Rightarrow> bool \<Rightarrow> block_group \<Rightarrow> block_group \<Rightarrow> bool" where
  "ialloc_desc sb dir bg b \<longleftrightarrow> length b = 64
     \<and> get_free_inodes_count b = get_free_inodes_count bg - 1
     \<and> get_used_dirs_count sb b = (if dir then get_used_dirs_count sb bg + 1 else get_used_dirs_count sb bg)
     \<and> get_inode_bitmap_block sb b = get_inode_bitmap_block sb bg
     \<and> get_block_bitmap_block sb b = get_block_bitmap_block sb bg
     \<and> get_inode_table_blk_num b = get_inode_table_blk_num bg
     \<and> get_free_blocks_count b = get_free_blocks_count bg"

lemma ialloc_desc_ok:
  fixes dir :: bool
  assumes "length b = 64" and "same_but_csums b bg" and "wide_descriptors sb"
  defines "c \<equiv> set_free_inodes_count sb (get_free_inodes_count bg - 1) b"
  defines "d \<equiv> (if dir then set_used_dirs_count sb (get_used_dirs_count sb c + 1) c else c)"
  shows "ialloc_desc sb dir bg (bg_stamped g sb (if p then set_itable_unused sb x d else d))"
proof -
  note same = same_but_csums_getters [OF assms(2)]
  have c: "length c = 64" "get_free_inodes_count c = get_free_inodes_count bg - 1"
    using assms(1) counters_read_back(1) [OF assms(1,3)] by (simp_all add: c_def bg_frame)
  then have d: "length d = 64" "get_free_inodes_count d = get_free_inodes_count bg - 1"
    "get_used_dirs_count sb d = (if dir then get_used_dirs_count sb bg + 1 else get_used_dirs_count sb bg)"
    using assms(1) counters_read_back(2) [OF c(1) assms(3)] same by (simp_all add: d_def c_def bg_frame)
  show ?thesis
    using assms(1) c d same by (simp add: ialloc_desc_def bg_frame) (simp add: d_def c_def bg_frame)
qed

section \<open>One group\<close>

text \<open>The situation: the live superblock has a table of 64-byte descriptors and the block size that
  the filesystem was opened with, and a bitmap block holds the bits of a group.\<close>

definition ialloc_ready :: "ext4 \<Rightarrow> superblock \<Rightarrow> bool" where
  "ialloc_ready fs sb \<longleftrightarrow> table_ok sb \<and> unat (block_size sb) = fs_block_size fs
     \<and> unat ((inodes_per_group sb + 7) div 8) \<le> fs_block_size fs"

lemma ialloc_group_none:
  assumes "jd_inv s" and "ialloc_ready fs sb" and "get_inodes_in_group_cnt sb g = Ok n"
    and "unat n \<le> 8 * fs_block_size fs" and "free_index fs (jd_view s) sb g n = None"
  shows "ialloc_group fs sb dir g s = (Ok None, s)"
proof -
  let ?bg = "desc_at (jd_view s) sb g"
  have t: "table_ok sb" using assms(2) by (simp add: ialloc_ready_def)
  have load: "load_new sb (unat g) s = (Ok ?bg, s)"
    using load_new_eq [OF t assms(1), of "unat g"] by (simp add: desc_at_def desc_pos_def)
  show ?thesis
  proof (cases "get_free_inodes_count ?bg = 0")
    case True
    then show ?thesis by (simp add: ialloc_group_def bindS_def load Let_def)
  next
    case False
    let ?bm = "image_read (jd_view s) (ibm_pos fs sb ?bg) (fs_block_size fs)"
    have "first_clear ?bm 0 (unat n) = None" using assms(5) False by (simp add: free_index_def)
    then have "ext4_bmap_bit_find_clr ?bm 0 n = Ok None"
      using bit_find_clr_eq [of 0 n ?bm] assms(4) by simp
    then show ?thesis
      using False assms(3) jd_read_view [OF assms(1)]
      by (simp add: ialloc_group_def bindS_def load Let_def ibm_pos_def)
  qed
qed

lemma ialloc_group_some:
  assumes inv: "jd_inv s" and ready: "ialloc_ready fs sb" and n: "get_inodes_in_group_cnt sb g = Ok n"
    and len: "length sb = 1024"
    and le: "unat n \<le> 8 * fs_block_size fs" and idx: "free_index fs (jd_view s) sb g n = Some idx"
  defines "bg \<equiv> desc_at (jd_view s) sb g"
  defines "bm \<equiv> image_read (jd_view s) (ibm_pos fs sb bg) (fs_block_size fs)"
  shows "\<exists>m b. sees (ialloc_group fs sb dir g) s (Some (g * inodes_per_group sb + (of_nat idx + 1)))
      (image_write (image_write (image_write (jd_view s) (ibm_pos fs sb bg) m) (desc_pos sb g) b)
         1024 (sb_stamped (decrease_free_inodes_count sb)))
    \<and> length m = fs_block_size fs \<and> (\<forall>i < 8 * fs_block_size fs. bit_at m i = (i = idx \<or> bit_at bm i))
    \<and> ialloc_desc sb dir bg b \<and> get_block_group_checksum g sb b = Ok (bg_get 2 ''checksum'' b)"
proof -
  have t: "table_ok sb" and bits: "unat ((inodes_per_group sb + 7) div 8) \<le> fs_block_size fs"
    using ready by (simp_all add: ialloc_ready_def)
  then have wide: "wide_descriptors sb" by (simp add: wide_descriptors_def desc_size_table)
  have free: "get_free_inodes_count bg \<noteq> 0" and fc: "first_clear bm 0 (unat n) = Some idx"
    using idx by (auto simp: free_index_def bg_def bm_def split: if_splits)
  have lbm: "length bm = fs_block_size fs" by (simp add: bm_def)
  have "idx < unat n" using fc by (simp add: first_clear_Some)
  then have u: "unat (of_nat idx :: u32) = idx" using unat_bound [of n] by (intro unat_of_nat_small) simp
  have find: "ext4_bmap_bit_find_clr bm 0 n = Ok (Some (of_nat idx))"
    using bit_find_clr_eq [of 0 n bm] le lbm fc by simp
  have "unat (of_nat idx :: u32) < 8 * length bm" using u \<open>idx < unat n\<close> le lbm by simp
  then obtain m where m: "ext4_bmap_bit_set bm (of_nat idx) = Ok m" "length m = length bm"
    "\<And>i. i < 8 * length bm \<Longrightarrow> bit_at m i = (i = unat (of_nat idx :: u32) \<or> bit_at bm i)"
    by (rule bit_set_ok) blast
  have lbg: "length bg = 64" by (simp add: bg_def)
  obtain b where b: "set_block_group_ialloc_bitmap_csum sb m bg = Ok b" "same_but_csums b bg"
    by (rule ialloc_csum_ok [OF len lbg, of m]) (use bits m(2) lbm in simp_all)
  then have lb: "length b = 64" using lbg same_but_csums_getters(8) by simp
  obtain x where x: "x = (let c = set_free_inodes_count sb (get_free_inodes_count bg - 1) b;
      d = (if dir then set_used_dirs_count sb (get_used_dirs_count sb c + 1) c else c)
      in if saturating_sub n (get_itable_unused sb d) \<le> of_nat idx
         then set_itable_unused sb (saturating_sub n (of_nat idx + 1)) d else d)" by simp
  have d: "ialloc_desc sb dir bg (bg_stamped g sb x)"
    unfolding x Let_def by (rule ialloc_desc_ok [OF lb b(2) wide])
  have lx: "length x = 64" using d lb by (simp add: x Let_def bg_frame)
  have ls: "length (decrease_free_inodes_count sb) = 1024"
    using len by (simp add: decrease_free_inodes_count_def)
  have ipg: "inodes_per_group (sb_stamped (decrease_free_inodes_count sb)) = inodes_per_group sb"
    using len by (simp add: inodes_per_group_def sb_stamped_def decrease_free_inodes_count_def sb_get_def sb_put_def)
  have "sees (ialloc_group fs sb dir g) s (Some (g * inodes_per_group sb + (of_nat idx + 1)))
      (image_write (image_write (image_write (jd_view s) (ibm_pos fs sb bg) m) (desc_pos sb g) (bg_stamped g sb x))
         1024 (sb_stamped (decrease_free_inodes_count sb)))"
    unfolding ialloc_group_def
    apply (rule sees_bind [OF sees_load_new [OF inv refl t]])
    apply (simp only: bg_def [symmetric] Let_def free if_False ibm_pos_def [symmetric])
    apply (rule sees_bind, erule (1) sees_read)
    apply (simp only: bm_def [symmetric] n bindS_simps find option.case m(1))
    apply (rule sees_bind, erule (1) sees_write)
    apply (simp only: b(1) bindS_simps)
    apply (simp only: x [unfolded Let_def, symmetric])
    apply (rule sees_bind, erule (1) sees_bg_sync [OF _ _ t len lx])
    apply (rule sees_bind, erule (1) sees_sync_super [OF _ _ ls])
    apply (simp only: ipg)
    apply (erule sees_ret, assumption)
    done
  then show ?thesis
    using m(2,3) u lbm d bg_stamped_csum [OF t len lx] by (intro exI [of _ m] exI [of _ "bg_stamped g sb x"]) simp
qed

section \<open>All groups\<close>

lemma ialloc_groups_run:
  assumes inv: "jd_inv s" and ready: "ialloc_ready fs sb" and len: "length sb = 1024"
    and counts: "\<forall>g \<in> set gs. get_inodes_in_group_cnt sb g = Ok (n g) \<and> unat (n g) \<le> 8 * fs_block_size fs"
  shows "ialloc_groups fs sb dir gs s =
    (case List.find (\<lambda>g. free_index fs (jd_view s) sb g (n g) \<noteq> None) gs of
       None \<Rightarrow> (Err ENOSPC, s)
     | Some g \<Rightarrow> (case ialloc_group fs sb dir g s of
         (Ok (Some ino), t) \<Rightarrow> (Ok ino, t) | (Ok None, t) \<Rightarrow> (Err ENOSPC, t)
       | (Err e, t) \<Rightarrow> (Err e, t) | (Panic, t) \<Rightarrow> (Panic, t) | (Undef, t) \<Rightarrow> (Undef, t)))"
  using counts
proof (induction gs)
  case (Cons g gs)
  show ?case
  proof (cases "free_index fs (jd_view s) sb g (n g)")
    case None
    have "ialloc_group fs sb dir g s = (Ok None, s)"
      by (rule ialloc_group_none [OF inv ready _ _ None]) (use Cons.prems in simp_all)
    then show ?thesis using Cons None by (simp add: bindS_def)
  next
    case (Some idx)
    have "\<exists>ino t. ialloc_group fs sb dir g s = (Ok (Some ino), t)"
      using ialloc_group_some [OF inv ready _ len _ Some, of dir] Cons.prems by (fastforce simp: sees_def)
    then show ?thesis using Some by (auto simp: bindS_def split: prod.split res.split option.split)
  qed
qed simp

text \<open>What a successful allocation leaves in the view \<open>w\<close>, from the view \<open>v\<close>.\<close>

definition inode_taken ::
  "ext4 \<Rightarrow> superblock \<Rightarrow> bool \<Rightarrow> u32 \<Rightarrow> nat \<Rightarrow> (nat \<Rightarrow> u8) \<Rightarrow> (nat \<Rightarrow> u8) \<Rightarrow> bool" where
  "inode_taken fs sb dir g idx v w \<longleftrightarrow>
     (let bg = desc_at v sb g; pos = ibm_pos fs sb bg; bs = fs_block_size fs in
      (\<forall>i < 8 * bs. bit_at (image_read w pos bs) i = (i = idx \<or> bit_at (image_read v pos bs) i))
      \<and> ialloc_desc sb dir bg (desc_at w sb g)
      \<and> get_block_group_checksum g sb (desc_at w sb g) = Ok (bg_get 2 ''checksum'' (desc_at w sb g))
      \<and> sb_at w = sb_stamped (decrease_free_inodes_count sb)
      \<and> (\<forall>a n. apart (a, n) (pos, bs) \<and> apart (a, n) (desc_pos sb g, 64) \<and> apart (a, n) (1024, 1024)
           \<longrightarrow> image_read w a n = image_read v a n))"

lemma ialloc_alloc_inode_run:
  assumes inv: "jd_inv s" and sb: "sb = sb_at (jd_view s)" and ready: "ialloc_ready fs sb"
    and cnt: "block_group_count (fs_sb fs) = Ok count"
    and counts: "\<forall>g < count. get_inodes_in_group_cnt sb g = Ok (n g) \<and> unat (n g) \<le> 8 * fs_block_size fs"
  shows "case List.find (\<lambda>g. free_index fs (jd_view s) sb g (n g) \<noteq> None) (map of_nat [0..<unat count]) of
      None \<Rightarrow> ialloc_alloc_inode fs dir s = (Err ENOSPC, s)
    | Some g \<Rightarrow> (\<exists>idx t. free_index fs (jd_view s) sb g (n g) = Some idx
        \<and> ialloc_alloc_inode fs dir s = (Ok (g * inodes_per_group sb + (of_nat idx + 1)), t) \<and> jd_inv t
        \<and> (regions_apart [(ibm_pos fs sb (desc_at (jd_view s) sb g), fs_block_size fs), (desc_pos sb g, 64), (1024, 1024)]
            \<longrightarrow> inode_taken fs sb dir g idx (jd_view s) (jd_view t)))"
proof -
  let ?v = "jd_view s" and ?gs = "map of_nat [0..<unat count] :: u32 list"
  have len: "length sb = 1024" by (simp add: sb)
  have lt: "g < count" if "g \<in> set ?gs" for g
    using that unat_bound [of count] by (auto simp: word_less_nat_alt unat_of_nat_small)
  have "read_super_block s = (Ok sb, s)"
    using jd_read_view [OF inv] by (simp add: read_super_block_def sb sb_at_def SUPERBLOCK_OFFSET_def)
  then have run: "ialloc_alloc_inode fs dir s = ialloc_groups fs sb dir ?gs s"
    by (simp add: ialloc_alloc_inode_def cnt) (simp add: bindS_def)
  have g: "ialloc_groups fs sb dir ?gs s =
    (case List.find (\<lambda>g. free_index fs ?v sb g (n g) \<noteq> None) ?gs of
       None \<Rightarrow> (Err ENOSPC, s)
     | Some g \<Rightarrow> (case ialloc_group fs sb dir g s of
         (Ok (Some ino), t) \<Rightarrow> (Ok ino, t) | (Ok None, t) \<Rightarrow> (Err ENOSPC, t)
       | (Err e, t) \<Rightarrow> (Err e, t) | (Panic, t) \<Rightarrow> (Panic, t) | (Undef, t) \<Rightarrow> (Undef, t)))"
    by (rule ialloc_groups_run [OF inv ready len]) (use counts lt in blast)
  show ?thesis
  proof (cases "List.find (\<lambda>g. free_index fs ?v sb g (n g) \<noteq> None) ?gs")
    case None
    then show ?thesis unfolding run g by simp
  next
    case (Some g')
    then obtain idx where f: "g' \<in> set ?gs" "free_index fs ?v sb g' (n g') = Some idx"
      by (auto simp: find_Some_iff in_set_conv_nth)
    let ?bg = "desc_at ?v sb g'"
    obtain m b where mb: "sees (ialloc_group fs sb dir g') s (Some (g' * inodes_per_group sb + (of_nat idx + 1)))
      (image_write (image_write (image_write ?v (ibm_pos fs sb ?bg) m) (desc_pos sb g') b)
         1024 (sb_stamped (decrease_free_inodes_count sb)))"
      "length m = fs_block_size fs"
      "\<forall>i < 8 * fs_block_size fs. bit_at m i = (i = idx \<or> bit_at (image_read ?v (ibm_pos fs sb ?bg) (fs_block_size fs)) i)"
      "ialloc_desc sb dir ?bg b" "get_block_group_checksum g' sb b = Ok (bg_get 2 ''checksum'' b)"
      using ialloc_group_some [OF inv ready _ len _ f(2), of dir] counts lt [OF f(1)] by blast
    then obtain t where t: "ialloc_group fs sb dir g' s = (Ok (Some (g' * inodes_per_group sb + (of_nat idx + 1))), t)"
      "jd_inv t" "jd_view t = image_write (image_write (image_write ?v (ibm_pos fs sb ?bg) m) (desc_pos sb g') b)
         1024 (sb_stamped (decrease_free_inodes_count sb))" by (auto simp: sees_def)
    have lb: "length b = 64" using mb(4) by (simp add: ialloc_desc_def)
    have ls: "length (sb_stamped (decrease_free_inodes_count sb)) = 1024"
      using len by (simp add: decrease_free_inodes_count_def)
    have "inode_taken fs sb dir g' idx ?v (jd_view t)"
      if "regions_apart [(ibm_pos fs sb ?bg, fs_block_size fs), (desc_pos sb g', 64), (1024, 1024)]"
    proof -
      have ap: "apart (ibm_pos fs sb ?bg, fs_block_size fs) (desc_pos sb g', 64)"
        "apart (ibm_pos fs sb ?bg, fs_block_size fs) (1024, 1024)" "apart (desc_pos sb g', 64) (1024, 1024)"
        using that by simp_all
      have "image_read (jd_view t) (ibm_pos fs sb ?bg) (fs_block_size fs) = m"
        "image_read (jd_view t) (desc_pos sb g') 64 = b"
        "image_read (jd_view t) 1024 1024 = sb_stamped (decrease_free_inodes_count sb)"
        unfolding t(3) using ap mb(2) lb ls
        by (simp_all add: read_apart read_written)
      then have "image_read (jd_view t) (ibm_pos fs sb ?bg) (fs_block_size fs) = m"
        "desc_at (jd_view t) sb g' = b" "sb_at (jd_view t) = sb_stamped (decrease_free_inodes_count sb)"
        by (simp_all add: desc_at_def [of "jd_view t"] sb_at_def)
      moreover have "image_read (jd_view t) a k = image_read ?v a k"
        if "apart (a, k) (ibm_pos fs sb ?bg, fs_block_size fs)" "apart (a, k) (desc_pos sb g', 64)"
          "apart (a, k) (1024, 1024)" for a k
        unfolding t(3) using that mb(2) lb ls by (simp add: read_apart)
      ultimately show ?thesis using mb(3-5) unfolding inode_taken_def Let_def by simp
    qed
    then show ?thesis using Some f(2) t(1,2) unfolding run g by auto
  qed
qed

section \<open>Freeing\<close>

definition ifree_desc :: "superblock \<Rightarrow> bool \<Rightarrow> block_group \<Rightarrow> block_group \<Rightarrow> bool" where
  "ifree_desc sb dir bg b \<longleftrightarrow> length b = 64
     \<and> get_free_inodes_count b = get_free_inodes_count bg + 1
     \<and> get_used_dirs_count sb b = (if dir then saturating_sub (get_used_dirs_count sb bg) 1 else get_used_dirs_count sb bg)
     \<and> get_inode_bitmap_block sb b = get_inode_bitmap_block sb bg
     \<and> get_block_bitmap_block sb b = get_block_bitmap_block sb bg
     \<and> get_inode_table_blk_num b = get_inode_table_blk_num bg
     \<and> get_free_blocks_count b = get_free_blocks_count bg"

lemma ifree_desc_ok:
  fixes dir :: bool
  assumes "length b = 64" and "same_but_csums b bg" and "wide_descriptors sb"
  defines "c \<equiv> set_free_inodes_count sb (get_free_inodes_count b + 1) b"
  defines "d \<equiv> (if dir then set_used_dirs_count sb (saturating_sub (get_used_dirs_count sb c) 1) c else c)"
  shows "ifree_desc sb dir bg (bg_stamped g sb d)" and "length d = 64"
proof -
  note same = same_but_csums_getters [OF assms(2)]
  have c: "length c = 64" "get_free_inodes_count c = get_free_inodes_count bg + 1"
    using assms(1) counters_read_back(1) [OF assms(1,3)] same by (simp_all add: c_def bg_frame)
  then have d: "length d = 64" "get_free_inodes_count d = get_free_inodes_count bg + 1"
    "get_used_dirs_count sb d = (if dir then saturating_sub (get_used_dirs_count sb bg) 1 else get_used_dirs_count sb bg)"
    using assms(1) counters_read_back(2) [OF c(1) assms(3)] same by (simp_all add: d_def c_def bg_frame)
  show "ifree_desc sb dir bg (bg_stamped g sb d)"
    using assms(1) c d same by (simp add: ifree_desc_def bg_frame) (simp add: d_def c_def bg_frame)
  show "length d = 64" by (rule d(1))
qed

lemma ialloc_free_inode_sees:
  assumes inv: "jd_inv s" and sb: "sb = sb_at (jd_view s)" and ready: "ialloc_ready fs sb"
    and geo: "same_geometry (fs_sb fs) sb"
    and pos: "get_bgid_of_inode (fs_sb fs) ino = Ok g" "inode_to_bgidx (fs_sb fs) ino = Ok idx"
    and idx: "unat idx < 8 * fs_block_size fs"
  defines "bg \<equiv> desc_at (jd_view s) sb g"
  defines "bm \<equiv> image_read (jd_view s) (ibm_pos fs sb bg) (fs_block_size fs)"
  shows "\<exists>m b. sees (ialloc_free_inode fs ino dir) s ()
      (image_write (image_write (image_write (jd_view s) (ibm_pos fs sb bg) m) (desc_pos sb g) b)
         1024 (sb_stamped (increase_free_inodes_count sb)))
    \<and> length m = fs_block_size fs \<and> (\<forall>i < 8 * fs_block_size fs. bit_at m i = (i \<noteq> unat idx \<and> bit_at bm i))
    \<and> ifree_desc sb dir bg b \<and> get_block_group_checksum g sb b = Ok (bg_get 2 ''checksum'' b)"
proof -
  have t: "table_ok sb" and bits: "unat ((inodes_per_group sb + 7) div 8) \<le> fs_block_size fs"
    using ready by (simp_all add: ialloc_ready_def)
  then have wide: "wide_descriptors sb" by (simp add: wide_descriptors_def desc_size_table)
  have len: "length sb = 1024" by (simp add: sb)
  have lbm: "length bm = fs_block_size fs" and lbg: "length bg = 64" by (simp_all add: bm_def bg_def)
  obtain m where m: "ext4_bmap_bit_clr bm idx = Ok m" "length m = length bm"
    "\<And>i. i < 8 * length bm \<Longrightarrow> bit_at m i = (i \<noteq> unat idx \<and> bit_at bm i)"
    by (rule bit_clr_ok [of idx bm]) (use idx lbm in auto)
  obtain b where b: "set_block_group_ialloc_bitmap_csum sb m bg = Ok b" "same_but_csums b bg"
    by (rule ialloc_csum_ok [OF len lbg, of m]) (use bits m(2) lbm in simp_all)
  have lb: "length b = 64" using lbg b(2) same_but_csums_getters(8) by simp
  obtain x where x: "x = (let c = set_free_inodes_count sb (get_free_inodes_count b + 1) b
      in if dir then set_used_dirs_count sb (saturating_sub (get_used_dirs_count sb c) 1) c else c)" by simp
  have d: "ifree_desc sb dir bg (bg_stamped g sb x)" "length x = 64"
    unfolding x Let_def by (rule ifree_desc_ok [OF lb b(2) wide])+
  have ls: "length (increase_free_inodes_count sb) = 1024"
    using len by (simp add: increase_free_inodes_count_def)
  have "sees (ialloc_free_inode fs ino dir) s ()
      (image_write (image_write (image_write (jd_view s) (ibm_pos fs sb bg) m) (desc_pos sb g) (bg_stamped g sb x))
         1024 (sb_stamped (increase_free_inodes_count sb)))"
    unfolding ialloc_free_inode_def
    apply (simp only: geometry_fields [OF geo] pos [unfolded geometry_fields [OF geo]] bindS_simps)
    apply (rule sees_bind [OF sees_super [OF inv refl, folded sb]])
    apply (rule sees_bind, erule (1) sees_load_new [OF _ _ t])
    apply (simp only: bg_def [symmetric] Let_def ibm_pos_def [symmetric])
    apply (rule sees_bind, erule (1) sees_read)
    apply (simp only: bm_def [symmetric] bindS_simps m(1))
    apply (rule sees_bind, erule (1) sees_write)
    apply (simp only: b(1) bindS_simps x [unfolded Let_def, symmetric])
    apply (rule sees_bind, erule (1) sees_bg_sync [OF _ _ t len d(2)])
    apply (rule sees_bind, erule (1) sees_sync_super [OF _ _ ls])
    apply (erule sees_ret, assumption)
    done
  then show ?thesis
    using m(2,3) lbm d bg_stamped_csum [OF t len d(2)] by (intro exI [of _ m] exI [of _ "bg_stamped g sb x"]) simp
qed

section \<open>Allocating and freeing\<close>

lemma inode_position:
  assumes "idx < unat (inodes_per_group sb)" and "unat g * unat (inodes_per_group sb) + idx + 1 < 2 ^ 32"
  shows "get_bgid_of_inode sb (g * inodes_per_group sb + (of_nat idx + 1)) = Ok g"
    and "inode_to_bgidx sb (g * inodes_per_group sb + (of_nat idx + 1)) = Ok (of_nat idx)"
proof -
  let ?n = "inodes_per_group sb"
  have u: "unat (of_nat idx :: u32) = idx" using assms(1) unat_bound [of ?n] by (intro unat_of_nat_small) simp
  have "unat (g * ?n + (of_nat idx + 1)) = unat g * unat ?n + idx + 1"
    using assms(2) u by (simp add: unat_word_ariths)
  then have s: "unat (saturating_sub (g * ?n + (of_nat idx + 1)) 1) = idx + unat g * unat ?n"
    by (simp add: unat_saturating_sub)
  have nz: "?n \<noteq> 0" using assms(1) by auto
  show "get_bgid_of_inode sb (g * ?n + (of_nat idx + 1)) = Ok g"
    "inode_to_bgidx sb (g * ?n + (of_nat idx + 1)) = Ok (of_nat idx)"
    using nz assms(1) by (simp_all add: get_bgid_of_inode_def inode_to_bgidx_def word_unat_eq_iff unat_div unat_mod s u)
qed

lemma free_inodes_restored:
  assumes "length sb = 1024" and "free_inodes_count sb \<noteq> 0"
  shows "free_inodes_count (sb_stamped (increase_free_inodes_count (sb_stamped (decrease_free_inodes_count sb)))) = free_inodes_count sb"
proof -
  have "saturating_add (saturating_sub x 1) 1 = x" if "x \<noteq> 0" for x :: u32
  proof -
    have "0 < unat x" using that by (simp add: unat_gt_0)
    then show ?thesis using unat_bound [of x]
      by (simp add: word_unat_eq_iff unat_saturating_add unat_saturating_sub)
  qed
  then show ?thesis using assms
    by (simp add: free_inodes_count_def increase_free_inodes_count_def decrease_free_inodes_count_def
        sb_stamped_def sb_get_def sb_put_def)
qed

lemma ialloc_then_free:
  assumes inv: "jd_inv s" and sb: "sb = sb_at (jd_view s)" and ready: "ialloc_ready fs sb"
    and geo: "same_geometry (fs_sb fs) sb" and cnt: "block_group_count sb = Ok count"
    and counts: "\<forall>g < count. get_inodes_in_group_cnt sb g = Ok (n g) \<and> unat (n g) \<le> 8 * fs_block_size fs
      \<and> unat (n g) \<le> unat (inodes_per_group sb)
      \<and> get_used_dirs_count sb (desc_at (jd_view s) sb g) \<noteq> - 1
      \<and> regions_apart [(ibm_pos fs sb (desc_at (jd_view s) sb g), fs_block_size fs), (desc_pos sb g, 64), (1024, 1024)]"
    and fit: "unat count * unat (inodes_per_group sb) < 2 ^ 32" and nz: "free_inodes_count sb \<noteq> 0"
    and alloc: "ialloc_alloc_inode fs dir s = (Ok ino, t)"
  shows "\<exists>u g. ialloc_free_inode fs ino dir t = (Ok (), u) \<and> get_bgid_of_inode (fs_sb fs) ino = Ok g
    \<and> (\<forall>i < 8 * fs_block_size fs.
         bit_at (image_read (jd_view u) (ibm_pos fs sb (desc_at (jd_view u) sb g)) (fs_block_size fs)) i
         = bit_at (image_read (jd_view s) (ibm_pos fs sb (desc_at (jd_view s) sb g)) (fs_block_size fs)) i)
    \<and> get_free_inodes_count (desc_at (jd_view u) sb g) = get_free_inodes_count (desc_at (jd_view s) sb g)
    \<and> get_used_dirs_count sb (desc_at (jd_view u) sb g) = get_used_dirs_count sb (desc_at (jd_view s) sb g)
    \<and> free_inodes_count (sb_at (jd_view u)) = free_inodes_count sb"
proof -
  let ?v = "jd_view s" and ?bs = "fs_block_size fs"
  have len: "length sb = 1024" by (simp add: sb)
  have cnt': "block_group_count (fs_sb fs) = Ok count" using cnt geometry_fields(12) [OF geo] by simp
  have counts': "\<forall>g < count. get_inodes_in_group_cnt sb g = Ok (n g) \<and> unat (n g) \<le> 8 * ?bs" using counts by blast
  note run = ialloc_alloc_inode_run [OF inv sb ready cnt' counts', of dir, unfolded alloc]
  obtain g where find: "List.find (\<lambda>g. free_index fs ?v sb g (n g) \<noteq> None) (map of_nat [0..<unat count]) = Some g"
    using run by (auto split: option.splits)
  then have "g \<in> set (map of_nat [0..<unat count])" by (auto simp: find_Some_iff in_set_conv_nth)
  then have g: "g < count" using unat_bound [of count] by (auto simp: word_less_nat_alt unat_of_nat_small)
  let ?bg = "desc_at ?v sb g"
  let ?pos = "ibm_pos fs sb ?bg"
  have ap: "apart (?pos, ?bs) (desc_pos sb g, 64)" "apart (?pos, ?bs) (1024, 1024)" "apart (desc_pos sb g, 64) (1024, 1024)"
    and ap': "regions_apart [(?pos, ?bs), (desc_pos sb g, 64), (1024, 1024)]"
    using counts g by auto
  obtain idx where idx: "free_index fs ?v sb g (n g) = Some idx"
    and ino: "ino = g * inodes_per_group sb + (of_nat idx + 1)" and t: "jd_inv t"
    and taken: "inode_taken fs sb dir g idx ?v (jd_view t)"
    using run [unfolded find option.case] ap' by auto
  have "idx < unat (n g)" "\<not> bit_at (image_read ?v ?pos ?bs) idx"
    using idx by (auto simp: free_index_def first_clear_Some split: if_splits)
  then have lt: "idx < unat (inodes_per_group sb)" "idx < 8 * ?bs" and clr: "\<not> bit_at (image_read ?v ?pos ?bs) idx"
    using counts g by fastforce+
  have "Suc (unat g) * unat (inodes_per_group sb) \<le> unat count * unat (inodes_per_group sb)"
    using g by (intro mult_le_mono1) (simp add: word_less_nat_alt)
  then have "unat g * unat (inodes_per_group sb) + idx + 1 < 2 ^ 32" using lt(1) fit by simp
  note place = inode_position [OF lt(1) this, folded ino]
  let ?sb = "sb_stamped (decrease_free_inodes_count sb)"
  have geo': "same_geometry ?sb sb" by (rule geometry_kept(1) [OF len])
  have geo2: "same_geometry (fs_sb fs) ?sb" by (rule same_geometry_trans [OF geo same_geometry_sym [OF geo']])
  note same = geometry_fields [OF geo']
  let ?w = "jd_view t"
  have sbt: "?sb = sb_at ?w" and desc: "ialloc_desc sb dir ?bg (desc_at ?w sb g)"
    and bits: "\<forall>i < 8 * ?bs. bit_at (image_read ?w ?pos ?bs) i = (i = idx \<or> bit_at (image_read ?v ?pos ?bs) i)"
    using taken by (auto simp: inode_taken_def Let_def)
  have ready': "ialloc_ready fs ?sb"
    using ready same(1) geo' by (simp add: ialloc_ready_def same_geometry_def)
  have pos: "ibm_pos fs ?sb (desc_at ?w sb g) = ?pos"
    using desc by (simp add: ibm_pos_def same ialloc_desc_def)
  have u: "unat (of_nat idx :: u32) = idx"
    using lt(1) unat_bound [of "inodes_per_group sb"] by (intro unat_of_nat_small) simp
  have "\<exists>m b. sees (ialloc_free_inode fs ino dir) t ()
      (image_write (image_write (image_write ?w (ibm_pos fs ?sb (desc_at ?w ?sb g)) m) (desc_pos ?sb g) b)
         1024 (sb_stamped (increase_free_inodes_count ?sb)))
    \<and> length m = ?bs \<and> (\<forall>i < 8 * ?bs. bit_at m i = (i \<noteq> unat (of_nat idx :: u32)
        \<and> bit_at (image_read ?w (ibm_pos fs ?sb (desc_at ?w ?sb g)) ?bs) i))
    \<and> ifree_desc ?sb dir (desc_at ?w ?sb g) b \<and> get_block_group_checksum g ?sb b = Ok (bg_get 2 ''checksum'' b)"
    by (rule ialloc_free_inode_sees [OF t sbt ready' geo2]) (use place lt(2) u geometry_fields [OF geo] in simp_all)
  then obtain m b where mb: "sees (ialloc_free_inode fs ino dir) t ()
      (image_write (image_write (image_write ?w ?pos m) (desc_pos sb g) b)
         1024 (sb_stamped (increase_free_inodes_count ?sb)))"
    "length m = ?bs" "\<forall>i < 8 * ?bs. bit_at m i = (i \<noteq> idx \<and> bit_at (image_read ?w ?pos ?bs) i)"
    "ifree_desc ?sb dir (desc_at ?w sb g) b"
    unfolding same pos u by blast
  then obtain z where z: "ialloc_free_inode fs ino dir t = (Ok (), z)"
    "jd_view z = image_write (image_write (image_write ?w ?pos m) (desc_pos sb g) b)
         1024 (sb_stamped (increase_free_inodes_count ?sb))" by (auto simp: sees_def)
  have lb: "length b = 64" using mb(4) by (simp add: ifree_desc_def)
  have ls: "length (sb_stamped (increase_free_inodes_count ?sb)) = 1024"
    using len by (simp add: increase_free_inodes_count_def decrease_free_inodes_count_def)
  have "image_read (jd_view z) ?pos ?bs = m" "image_read (jd_view z) (desc_pos sb g) 64 = b"
    "image_read (jd_view z) 1024 1024 = sb_stamped (increase_free_inodes_count ?sb)"
    unfolding z(2) using ap mb(2) lb ls by (simp_all add: read_apart read_written)
  then have r: "image_read (jd_view z) ?pos ?bs = m" "desc_at (jd_view z) sb g = b"
    "sb_at (jd_view z) = sb_stamped (increase_free_inodes_count ?sb)"
    by (simp_all add: desc_at_def [of "jd_view z"] sb_at_def [of "jd_view z"])
  have d: "get_free_inodes_count b = get_free_inodes_count ?bg" "get_used_dirs_count sb b = get_used_dirs_count sb ?bg"
    "ibm_pos fs sb b = ?pos"
  proof -
    have ud: "get_used_dirs_count sb ?bg \<noteq> - 1" using counts g by blast
    have "saturating_sub (x + 1) 1 = x" if "x \<noteq> - 1" for x :: u32
    proof -
      have "x + 1 \<noteq> 0" using that by (metis add.commute add_eq_0_iff)
      then show ?thesis by (simp add: saturating_sub_def word_le_nat_alt unat_gt_0 Suc_le_eq)
    qed
    then show "get_used_dirs_count sb b = get_used_dirs_count sb ?bg"
      using mb(4) desc ud by (simp add: ifree_desc_def ialloc_desc_def same)
    show "get_free_inodes_count b = get_free_inodes_count ?bg" "ibm_pos fs sb b = ?pos"
      using mb(4) desc by (simp_all add: ifree_desc_def ialloc_desc_def same ibm_pos_def)
  qed
  have "bit_at m i = bit_at (image_read ?v ?pos ?bs) i" if "i < 8 * ?bs" for i
    using mb(3) bits clr that by auto
  moreover have "get_bgid_of_inode (fs_sb fs) ino = Ok g" using place(1) geometry_fields(14) [OF geo] by simp
  ultimately show ?thesis
    using z(1) r d free_inodes_restored [OF len nz] by (intro exI [of _ z] exI [of _ g]) simp
qed

section \<open>Properties\<close>

text \<open>C8: inode allocation is first fit. It takes the first group whose descriptor counts a free inode
  and whose bitmap has one, and in it the first clear bit; the number returned is the one of that
  position. Afterwards exactly that bit is set, the descriptor's counters are updated and its checksum
  is right, the superblock counts one inode less, and nothing else changed. When no group has a free
  inode the result is \<open>ENOSPC\<close> and nothing was written.\<close>

theorem ialloc_alloc_inode_correct:
  assumes "jd_inv s" and "sb = sb_at (jd_view s)" and "ialloc_ready fs sb"
    and "block_group_count (fs_sb fs) = Ok count"
    and "\<forall>g < count. get_inodes_in_group_cnt sb g = Ok (n g) \<and> unat (n g) \<le> 8 * fs_block_size fs"
  shows "case List.find (\<lambda>g. free_index fs (jd_view s) sb g (n g) \<noteq> None) (map of_nat [0..<unat count]) of
      None \<Rightarrow> ialloc_alloc_inode fs dir s = (Err ENOSPC, s)
    | Some g \<Rightarrow> (\<exists>idx t. free_index fs (jd_view s) sb g (n g) = Some idx
        \<and> ialloc_alloc_inode fs dir s = (Ok (g * inodes_per_group sb + (of_nat idx + 1)), t) \<and> jd_inv t
        \<and> (regions_apart [(ibm_pos fs sb (desc_at (jd_view s) sb g), fs_block_size fs), (desc_pos sb g, 64), (1024, 1024)]
            \<longrightarrow> inode_taken fs sb dir g idx (jd_view s) (jd_view t)))"
  by (rule ialloc_alloc_inode_run [OF assms])

lemma tiny_free_index: "free_index tiny_fs tiny_image tiny_sb 0 16 = Some 3"
proof -
  have "bit_at (image_read tiny_image 10240 2048) i = (i < 3)" if "i < 4" for i
  proof -
    have "image_read tiny_image 10240 2048 ! 0 = 7"
      by (simp add: nth_image_read tiny_image_def image_write_def)
    moreover have "i = 0 \<or> i = 1 \<or> i = 2 \<or> i = 3" using that by linarith
    ultimately show ?thesis by (elim disjE) (simp_all add: bit_at_def bit_numeral_rec)
  qed
  then have "first_clear (image_read tiny_image 10240 2048) 0 16 = Some 3"
    by (auto simp: first_clear_Some)
  then show ?thesis by (simp add: free_index_def ibm_pos_def)
qed

theorem ialloc_alloc_inode_correct_witness:
  "\<exists>t. ialloc_alloc_inode tiny_fs True tiny_dev = (Ok 4, t)
    \<and> inode_taken tiny_fs tiny_sb True 0 3 tiny_image (jd_view t)"
proof -
  have r: "ialloc_ready tiny_fs tiny_sb" by (simp add: ialloc_ready_def)
  have c: "\<forall>g < 1. get_inodes_in_group_cnt tiny_sb g = Ok 16 \<and> unat (16 :: u32) \<le> 8 * fs_block_size tiny_fs"
    by (simp add: word_less_1)
  have g: "map of_nat [0..<unat (1 :: u32)] = [0 :: u32]" by simp
  have a: "regions_apart [(ibm_pos tiny_fs tiny_sb tiny_bg, 2048), (desc_pos tiny_sb 0, 64), (1024, 1024)]"
    by (simp add: apart_def ibm_pos_def desc_pos_def)
  show ?thesis
    using ialloc_alloc_inode_correct [of tiny_dev tiny_sb tiny_fs 1 "\<lambda>_. 16" True] r c a
    unfolding g by (simp add: tiny_free_index) blast
qed

text \<open>Freeing undoes allocation: with the inode that an allocation returned, freeing succeeds and
  puts back the group's inode bitmap bit for bit, the group's counts of free inodes and of
  directories, and the superblock's count.\<close>

theorem ialloc_free_roundtrip:
  assumes "jd_inv s" and "sb = sb_at (jd_view s)" and "ialloc_ready fs sb"
    and "same_geometry (fs_sb fs) sb" and "block_group_count sb = Ok count"
    and "\<forall>g < count. get_inodes_in_group_cnt sb g = Ok (n g) \<and> unat (n g) \<le> 8 * fs_block_size fs
      \<and> unat (n g) \<le> unat (inodes_per_group sb)
      \<and> get_used_dirs_count sb (desc_at (jd_view s) sb g) \<noteq> - 1
      \<and> regions_apart [(ibm_pos fs sb (desc_at (jd_view s) sb g), fs_block_size fs), (desc_pos sb g, 64), (1024, 1024)]"
    and "unat count * unat (inodes_per_group sb) < 2 ^ 32" and "free_inodes_count sb \<noteq> 0"
    and "ialloc_alloc_inode fs dir s = (Ok ino, t)"
  shows "\<exists>u g. ialloc_free_inode fs ino dir t = (Ok (), u) \<and> get_bgid_of_inode (fs_sb fs) ino = Ok g
    \<and> (\<forall>i < 8 * fs_block_size fs.
         bit_at (image_read (jd_view u) (ibm_pos fs sb (desc_at (jd_view u) sb g)) (fs_block_size fs)) i
         = bit_at (image_read (jd_view s) (ibm_pos fs sb (desc_at (jd_view s) sb g)) (fs_block_size fs)) i)
    \<and> get_free_inodes_count (desc_at (jd_view u) sb g) = get_free_inodes_count (desc_at (jd_view s) sb g)
    \<and> get_used_dirs_count sb (desc_at (jd_view u) sb g) = get_used_dirs_count sb (desc_at (jd_view s) sb g)
    \<and> free_inodes_count (sb_at (jd_view u)) = free_inodes_count sb"
  by (rule ialloc_then_free [OF assms])

theorem ialloc_free_roundtrip_witness:
  "\<exists>ino t u. ialloc_alloc_inode tiny_fs True tiny_dev = (Ok ino, t)
    \<and> ialloc_free_inode tiny_fs ino True t = (Ok (), u) \<and> free_inodes_count (sb_at (jd_view u)) = 13"
proof -
  have r: "ialloc_ready tiny_fs tiny_sb" by (simp add: ialloc_ready_def)
  have a: "regions_apart [(ibm_pos tiny_fs tiny_sb tiny_bg, 2048), (desc_pos tiny_sb 0, 64), (1024, 1024)]"
    by (simp add: apart_def ibm_pos_def desc_pos_def)
  have f: "free_inodes_count tiny_sb = 13" "get_used_dirs_count tiny_sb tiny_bg = 0"
    by (simp_all add: tiny_sb_def free_inodes_count_def sb_put_def sb_get_def zeros_get tiny_bg_def bg_getters)
  have c: "\<forall>g < 1. get_inodes_in_group_cnt tiny_sb g = Ok 16 \<and> unat (16 :: u32) \<le> 8 * fs_block_size tiny_fs"
    by (simp add: word_less_1)
  have g: "map of_nat [0..<unat (1 :: u32)] = [0 :: u32]" by simp
  obtain t where t: "ialloc_alloc_inode tiny_fs True tiny_dev = (Ok 4, t)"
    using ialloc_alloc_inode_run [of tiny_dev tiny_sb tiny_fs 1 "\<lambda>_. 16" True] r c
    unfolding g by (auto simp: tiny_free_index)
  show ?thesis
    using ialloc_free_roundtrip [of tiny_dev tiny_sb tiny_fs 1 "\<lambda>_. 16" True 4 t] t r a f
    by (auto simp: word_less_1)
qed

end
