(* ===== verification/BlockAlloc.thy ===== *)
theory BlockAlloc
  imports InodeStore InodeAlloc
begin

text \<open>
  Block allocation: the search in a group, the effect of taking a block, and the loop over the
  groups; freeing a range of one group.
\<close>

section \<open>The search in one group\<close>

lemma find_SomeD: "List.find P xs = Some x \<Longrightarrow> x \<in> set xs \<and> P x"
  by (induction xs) (auto split: if_splits)

definition reserved :: "ext4 \<Rightarrow> u32 \<Rightarrow> u32 \<Rightarrow> bool" where
  "reserved fs g i = is_system_reserved_block fs (bg_idx_to_addr (fs_sb fs) i g)"

lemma near_clear_find:
  "\<forall>i \<in> set is. unat i < 8 * length bm \<Longrightarrow>
   near_clear fs g bm is = Ok (List.find (\<lambda>i. \<not> bit_at bm (unat i) \<and> \<not> reserved fs g i) is)"
  by (induction "is") (simp_all add: is_bit_clr_eq reserved_def)

text \<open>The search returns a clear bit of the group at or after the start, which no system zone covers
  (the start itself is only checked when \<open>check_goal\<close> is set); it gives up only when there is no clear
  bit or the first one is reserved.\<close>

lemma search_group_spec:
  assumes "idx < blocks_per_group (fs_sb fs)" and "unat (blocks_per_group (fs_sb fs)) \<le> 8 * length bm"
  obtains res where "search_group fs chk g bm idx = Ok res"
    and "\<And>i. res = Some i \<Longrightarrow> idx \<le> i \<and> i < blocks_per_group (fs_sb fs) \<and> \<not> bit_at bm (unat i)
        \<and> (chk \<or> i \<noteq> idx \<longrightarrow> \<not> reserved fs g i)"
    and "res = None \<Longrightarrow> (case first_clear bm (unat idx) (unat (blocks_per_group (fs_sb fs))) of
        None \<Rightarrow> True | Some j \<Rightarrow> reserved fs g (of_nat j))"
proof -
  let ?n = "blocks_per_group (fs_sb fs)"
  have idx: "unat idx < unat ?n" using assms(1) by (simp add: word_less_nat_alt)
  then have s: "unat (idx + 1) = Suc (unat idx)" by (rule unat_Suc_less)
  have clr: "ext4_bmap_is_bit_clr bm idx = Ok (\<not> bit_at bm (unat idx))"
    using idx assms(2) by (intro is_bit_clr_eq) simp
  obtain e where e: "e = min ((idx + 63) AND NOT 63) ?n" by simp
  have le: "unat e \<le> unat ?n" by (simp add: e min_def word_le_nat_alt)
  let ?near = "map of_nat [unat (idx + 1)..<unat e] :: u32 list"
  have u: "unat (of_nat k :: u32) = k" if "k < unat ?n" for k
    using that unat_bound [of ?n] by (intro unat_of_nat_small) simp
  have near_in: "unat idx < unat i \<and> unat i < unat ?n" if "i \<in> set ?near" for i
    using that le u s by auto
  then have near: "near_clear fs g bm ?near =
      Ok (List.find (\<lambda>i. \<not> bit_at bm (unat i) \<and> \<not> reserved fs g i) ?near)"
    using assms(2) by (intro near_clear_find) fastforce
  have find: "ext4_bmap_bit_find_clr bm idx ?n = Ok (map_option of_nat (first_clear bm (unat idx) (unat ?n)))"
    using assms by (intro bit_find_clr_eq) simp_all
  let ?r = "if \<not> bit_at bm (unat idx) \<and> \<not> (chk \<and> reserved fs g idx) then Some idx
    else case List.find (\<lambda>i. \<not> bit_at bm (unat i) \<and> \<not> reserved fs g i) ?near of Some i \<Rightarrow> Some i
    | None \<Rightarrow> (case first_clear bm (unat idx) (unat ?n) of
        Some j \<Rightarrow> if reserved fs g (of_nat j) then None else Some (of_nat j) | None \<Rightarrow> None)"
  have run: "search_group fs chk g bm idx = Ok ?r"
    unfolding search_group_def Let_def reserved_def [symmetric] e [symmetric] clr bind_simps near find
    by (simp split: option.split)
  have found: "idx \<le> i \<and> i < ?n \<and> \<not> bit_at bm (unat i) \<and> (chk \<or> i \<noteq> idx \<longrightarrow> \<not> reserved fs g i)"
    if r: "?r = Some i" for i
  proof (cases "\<not> bit_at bm (unat idx) \<and> \<not> (chk \<and> reserved fs g idx)")
    case True
    then show ?thesis using r assms(1) by auto
  next
    case f: False
    show ?thesis
    proof (cases "List.find (\<lambda>i. \<not> bit_at bm (unat i) \<and> \<not> reserved fs g i) ?near")
      case None
      then obtain j where j: "first_clear bm (unat idx) (unat ?n) = Some j" "\<not> reserved fs g (of_nat j)" "i = of_nat j"
        using r unfolding if_not_P [OF f] None by (auto split: option.splits if_splits)
      then have "unat idx \<le> j \<and> j < unat ?n \<and> \<not> bit_at bm j" by (simp add: first_clear_Some)
      then show ?thesis using j u by (simp add: word_le_nat_alt word_less_nat_alt)
    next
      case (Some k)
      then have "k \<in> set ?near" "\<not> bit_at bm (unat k) \<and> \<not> reserved fs g k" by (auto dest: find_SomeD)
      then show ?thesis using r near_in [of k] unfolding if_not_P [OF f] Some
        by (auto simp: word_le_nat_alt word_less_nat_alt)
    qed
  qed
  have none: "case first_clear bm (unat idx) (unat ?n) of None \<Rightarrow> True | Some j \<Rightarrow> reserved fs g (of_nat j)"
    if r: "?r = None"
    using r by (auto split: option.splits if_splits)
  show thesis by (rule that [OF run found none])
qed

section \<open>Taking a block\<close>

definition bbm_pos :: "ext4 \<Rightarrow> block_group \<Rightarrow> nat" where
  "bbm_pos fs bg = unat (get_block_bitmap_block (fs_sb fs) bg) * fs_block_size fs"

definition balloc_ready :: "ext4 \<Rightarrow> (nat \<Rightarrow> u8) \<Rightarrow> bool" where
  "balloc_ready fs v \<longleftrightarrow> inodes_ready fs \<and> same_geometry (fs_sb fs) (sb_at v)
     \<and> 0 < blocks_per_group (fs_sb fs) \<and> unat (blocks_per_group (fs_sb fs)) \<le> 8 * fs_block_size fs"

text \<open>The bitmap of group \<open>g\<close> and the descriptor of the inode's group lie apart from each other and
  from the superblock: the inode is looked up after the bitmap and the superblock were written.\<close>

definition lookup_apart :: "ext4 \<Rightarrow> (nat \<Rightarrow> u8) \<Rightarrow> u32 \<Rightarrow> u32 \<Rightarrow> bool" where
  "lookup_apart fs v g ino \<longleftrightarrow>
     regions_apart [(bbm_pos fs (desc_at v (fs_sb fs) g), fs_block_size fs), (1024, 1024),
       (desc_pos (fs_sb fs) (inode_group (fs_sb fs) ino), 64)]"

lemma balloc_csum_ok:
  assumes "length sb = 1024" and "length bg = 64" and "unat (blocks_per_group sb div 8) \<le> length bitmap"
  obtains b where "set_block_group_balloc_bitmap_csum sb bitmap bg = Ok b" and "same_but_csums b bg"
proof -
  have "ext4_crc32c EXT4_CRC32_INIT (slice sb 104 16) 16 = Ok (crc_ref EXT4_CRC32_INIT (slice sb 104 16))"
    using ext4_crc32c_small [of "slice sb 104 16"] assms(1) by simp
  then obtain c where "ext4_balloc_bitmap_csum sb bitmap = Ok c"
    using assms(3) by (simp add: ext4_balloc_bitmap_csum_def ext4_crc32c_def crc32_def crc32_loop_ref)
  then show thesis using that put_csums_same [OF assms(2)]
    by (auto simp: set_block_group_balloc_bitmap_csum_def Let_def same_but_csums_def)
qed

lemma free_blocks_fit:
  assumes "get_free_blocks_count bg \<noteq> 0"
  shows "ucast (ucast (get_free_blocks_count bg - 1) :: u32) = get_free_blocks_count bg - 1"
proof -
  let ?lo = "bg_get 2 ''free_blocks_count_lo'' bg :: u16" and ?hi = "bg_get 2 ''free_blocks_count_hi'' bg :: u16"
  let ?w = "ucast ?lo OR push_bit 16 (ucast ?hi) :: u32"
  have "get_free_blocks_count bg = ucast ?w"
    unfolding get_free_blocks_count_def by (rule bit_word_eqI) (auto simp: bit_simps dest: bit_imp_le_length)
  then have "unat (get_free_blocks_count bg - 1) < 2 ^ 32"
    using assms unat_bound [of ?w] by (simp add: unat_minus_one)
  then have "unat (ucast (ucast (get_free_blocks_count bg - 1) :: u32) :: u64) = unat (get_free_blocks_count bg - 1)"
    by (simp only: unat_ucast32) (simp add: unsigned_ucast_eq take_bit_eq_mod)
  then show ?thesis by (simp only: word_unat_eq_iff)
qed

text \<open>What taking a block changes in the descriptor.\<close>

definition balloc_desc :: "u64 \<Rightarrow> superblock \<Rightarrow> block_group \<Rightarrow> block_group \<Rightarrow> bool" where
  "balloc_desc n sb bg b \<longleftrightarrow> length b = 64 \<and> get_free_blocks_count b = n
     \<and> get_free_inodes_count b = get_free_inodes_count bg \<and> get_used_dirs_count sb b = get_used_dirs_count sb bg
     \<and> get_inode_bitmap_block sb b = get_inode_bitmap_block sb bg
     \<and> get_block_bitmap_block sb b = get_block_bitmap_block sb bg
     \<and> get_inode_table_blk_num b = get_inode_table_blk_num bg"

lemma balloc_desc_ok:
  assumes "length b = 64" and "same_but_csums b bg"
  shows "balloc_desc (ucast n) sb bg (bg_stamped g sb' (bg_set_free_blocks_count n b))"
  using assms counters_read_back(4) [OF assms(1)] same_but_csums_getters [OF assms(2)]
  by (simp add: balloc_desc_def bg_frame)

definition charged :: "ext4 \<Rightarrow> inode \<Rightarrow> inode" where
  "charged fs i = set_inode_blocks_count (inode_blocks_count i + of_nat (fs_block_size fs div EXT4_INODE_BLOCK_SIZE)) i"

lemma sees_take_block:
  assumes inv: "jd_inv s" and v: "jd_view s = v" and ready: "balloc_ready fs v"
    and i: "unat i < 8 * fs_block_size fs" and blk: "length (i_block (ir_inode r)) = 60"
    and ap: "lookup_apart fs v g (ir_inode_num r)"
  defines "bg \<equiv> desc_at v (fs_sb fs) g"
  defines "bm \<equiv> image_read v (bbm_pos fs bg) (fs_block_size fs)"
  assumes free: "get_free_blocks_count bg \<noteq> 0"
  shows "\<exists>m b x. sees (take_block fs r bg g bm (bbm_pos fs bg) i) s
      (bg_idx_to_addr (fs_sb fs) i g, r\<lparr> ir_inode := x \<rparr>)
      (image_write (image_write (image_write (image_write v (bbm_pos fs bg) m)
          1024 (sb_stamped (set_free_blocks_count (free_blocks_count (sb_at v) - 1) (sb_at v))))
        (inode_pos fs v (ir_inode_num r)) (inode_bytes x)) (desc_pos (fs_sb fs) g) b)
    \<and> length m = fs_block_size fs \<and> (\<forall>k < 8 * fs_block_size fs. bit_at m k = (k = unat i \<or> bit_at bm k))
    \<and> balloc_desc (get_free_blocks_count bg - 1) (fs_sb fs) bg b
    \<and> zero_checksum x = zero_checksum (charged fs (ir_inode r)) \<and> length (inode_bytes x) = 156"
proof -
  let ?sb = "fs_sb fs" and ?bs = "fs_block_size fs" and ?n = "ir_inode_num r"
  have ir: "inodes_ready fs" and t: "table_ok ?sb" and len: "length ?sb = 1024"
    and geo: "same_geometry ?sb (sb_at v)" and bits: "unat (blocks_per_group ?sb) \<le> 8 * ?bs"
    using ready by (auto simp: balloc_ready_def inodes_ready_def)
  have lbm: "length bm = ?bs" and lbg: "length bg = 64" by (simp_all add: bm_def bg_def)
  obtain m where m: "ext4_bmap_bit_set bm i = Ok m" "length m = length bm"
    "\<And>k. k < 8 * length bm \<Longrightarrow> bit_at m k = (k = unat i \<or> bit_at bm k)"
    by (rule bit_set_ok [of i bm]) (use i lbm in auto)
  have "unat (blocks_per_group ?sb div 8) \<le> length m" using bits m(2) lbm by (simp add: unat_div)
  then obtain b where b: "set_block_group_balloc_bitmap_csum ?sb m bg = Ok b" "same_but_csums b bg"
    by (rule balloc_csum_ok [OF len lbg])
  have lb: "length b = 64" and fb: "get_free_blocks_count b = get_free_blocks_count bg"
    using lbg b(2) same_but_csums_getters [OF b(2)] by simp_all
  let ?lsb = "set_free_blocks_count (free_blocks_count (sb_at v) - 1) (sb_at v)"
  let ?v1 = "image_write v (bbm_pos fs bg) m"
  let ?v2 = "image_write ?v1 1024 (sb_stamped ?lsb)"
  have lsb: "length ?lsb = 1024" by (simp add: set_free_blocks_count_def)
  have ap': "apart (bbm_pos fs bg, ?bs) (1024, 1024)"
    "apart (bbm_pos fs bg, ?bs) (desc_pos ?sb (inode_group ?sb ?n), 64)"
    "apart (1024, 1024) (desc_pos ?sb (inode_group ?sb ?n), 64)"
    using ap by (simp_all add: lookup_apart_def bg_def)
  have sb1: "sb_at ?v1 = sb_at v"
    unfolding sb_at_def using ap'(1) m(2) lbm by (intro read_apart) (simp add: apart_sym)
  have pos2: "inode_pos fs ?v2 ?n = inode_pos fs v ?n"
    using ap' m(2) lbm lsb by (simp add: inode_pos_def desc_at_def read_apart apart_sym)
  let ?r = "r\<lparr> ir_inode := charged fs (ir_inode r) \<rparr>"
  have blk': "length (i_block (ir_inode ?r)) = 60"
    using blk by (simp add: charged_def set_inode_blocks_count_def)
  let ?b = "bg_set_free_blocks_count (ucast (get_free_blocks_count bg - 1)) b"
  have lb2: "length ?b = 64" using lb by (simp add: bg_frame)
  let ?st = "bg_stamped g ?sb ?b"
  have stl: "same_geometry (sb_stamped ?lsb) ?sb"
    by (rule same_geometry_trans [OF geometry_kept(3) same_geometry_sym [OF geo]]) simp
  note gf = geometry_fields [OF stl]
  have t2: "table_ok (sb_stamped ?lsb)" using t gf(1) by simp
  have lst: "length (sb_stamped ?lsb) = 1024" using lsb by simp
  let ?x = "checksummed fs ?v2 ?r"
  have upd: "(r\<lparr> ir_inode := a \<rparr>)\<lparr> ir_inode := c \<rparr> = r\<lparr> ir_inode := c \<rparr>"
    "ir_inode_num (r\<lparr> ir_inode := a \<rparr>) = ?n" for a c :: inode by simp_all
  note wb = sees_write_back [OF _ _ ir blk', where v = ?v2, unfolded upd pos2]
  have "sees (take_block fs r bg g bm (bbm_pos fs bg) i) s (bg_idx_to_addr ?sb i g, r\<lparr> ir_inode := ?x \<rparr>)
      (image_write (image_write ?v2 (inode_pos fs v ?n) (inode_bytes ?x)) (desc_pos ?sb g) ?st)"
    unfolding take_block_def
    apply (simp only: m(1) b(1) bindS_simps)
    apply (rule sees_bind [OF sees_write [OF inv v]])
    apply (rule sees_bind)
    apply (simp only: update_free_block_counts_def)
    apply (rule sees_bind, erule (1) sees_super)
    apply (simp only: sb1)
    apply (rule sees_bind, erule (1) sees_sync_super [OF _ _ lsb])
    apply (simp only: Let_def charged_def [symmetric] fb)
    apply (rule sees_bind, erule (1) wb)
    apply (rule sees_bind, erule (1) sees_bg_sync [OF _ _ t2 lst lb2])
    apply (erule (1) sees_ret)
    apply (simp only: gf)
    apply (erule (1) sees_ret)
    done
  moreover have "balloc_desc (get_free_blocks_count bg - 1) ?sb bg ?st"
    using balloc_desc_ok [OF lb b(2), of "ucast (get_free_blocks_count bg - 1)" ?sb g ?sb] free_blocks_fit [OF free]
    by simp
  moreover have "zero_checksum ?x = zero_checksum (charged fs (ir_inode r))" "length (inode_bytes ?x) = 156"
    using checksummed_props [OF blk', of fs ?v2] by simp_all
  ultimately show ?thesis
    using m(2,3) lbm by (intro exI [of _ m] exI [of _ ?st] exI [of _ ?x]) simp
qed

section \<open>The loop over the groups\<close>

definition block_taken :: "ext4 \<Rightarrow> u32 \<Rightarrow> u32 \<Rightarrow> u32 \<Rightarrow> (nat \<Rightarrow> u8) \<Rightarrow> (nat \<Rightarrow> u8) \<Rightarrow> bool" where
  "block_taken fs ino g i v w \<longleftrightarrow>
     (let sb = fs_sb fs; bg = desc_at v sb g; pos = bbm_pos fs bg; bs = fs_block_size fs in
      \<not> bit_at (image_read v pos bs) (unat i)
      \<and> (\<forall>k < 8 * bs. bit_at (image_read w pos bs) k = (k = unat i \<or> bit_at (image_read v pos bs) k))
      \<and> balloc_desc (get_free_blocks_count bg - 1) sb bg (desc_at w sb g)
      \<and> sb_at w = sb_stamped (set_free_blocks_count (free_blocks_count (sb_at v) - 1) (sb_at v))
      \<and> (\<forall>a n. apart (a, n) (pos, bs) \<and> apart (a, n) (1024, 1024) \<and> apart (a, n) (inode_pos fs v ino, 156)
           \<and> apart (a, n) (desc_pos sb g, 64) \<longrightarrow> image_read w a n = image_read v a n))"

definition write_apart :: "ext4 \<Rightarrow> (nat \<Rightarrow> u8) \<Rightarrow> u32 \<Rightarrow> u32 \<Rightarrow> bool" where
  "write_apart fs v g ino \<longleftrightarrow>
     regions_apart [(bbm_pos fs (desc_at v (fs_sb fs) g), fs_block_size fs), (1024, 1024),
       (inode_pos fs v ino, 156), (desc_pos (fs_sb fs) g, 64)]"

text \<open>A group that the search passes over: it counts no free block, has no clear bit from \<open>idx\<close> on,
  or its first clear bit is reserved.\<close>

definition passed_over :: "ext4 \<Rightarrow> (nat \<Rightarrow> u8) \<Rightarrow> u32 \<Rightarrow> u32 \<Rightarrow> bool" where
  "passed_over fs v idx g \<longleftrightarrow>
     (let bg = desc_at v (fs_sb fs) g in get_free_blocks_count bg = 0
      \<or> (case first_clear (image_read v (bbm_pos fs bg) (fs_block_size fs)) (unat idx) (unat (blocks_per_group (fs_sb fs))) of
           None \<Rightarrow> True | Some j \<Rightarrow> reserved fs g (of_nat j)))"

lemma take_block_taken:
  assumes inv: "jd_inv s" and ready: "balloc_ready fs (jd_view s)"
    and i: "i < blocks_per_group (fs_sb fs)" and blk: "length (i_block (ir_inode r)) = 60"
    and ap: "lookup_apart fs (jd_view s) g (ir_inode_num r)" and wr: "write_apart fs (jd_view s) g (ir_inode_num r)"
  defines "bg \<equiv> desc_at (jd_view s) (fs_sb fs) g"
  defines "bm \<equiv> image_read (jd_view s) (bbm_pos fs bg) (fs_block_size fs)"
  assumes free: "get_free_blocks_count bg \<noteq> 0" and clr: "\<not> bit_at bm (unat i)"
  shows "\<exists>x t. take_block fs r bg g bm (bbm_pos fs bg) i s = (Ok (bg_idx_to_addr (fs_sb fs) i g, r\<lparr> ir_inode := x \<rparr>), t)
    \<and> jd_inv t \<and> block_taken fs (ir_inode_num r) g i (jd_view s) (jd_view t)
    \<and> zero_checksum x = zero_checksum (charged fs (ir_inode r))"
proof -
  let ?sb = "fs_sb fs" and ?bs = "fs_block_size fs" and ?v = "jd_view s"
  let ?ip = "inode_pos fs ?v (ir_inode_num r)"
  let ?st = "sb_stamped (set_free_blocks_count (free_blocks_count (sb_at ?v) - 1) (sb_at ?v))"
  have i8: "unat i < 8 * ?bs" using i ready by (simp add: balloc_ready_def word_less_nat_alt)
  obtain m b x t where t: "take_block fs r bg g bm (bbm_pos fs bg) i s = (Ok (bg_idx_to_addr ?sb i g, r\<lparr> ir_inode := x \<rparr>), t)"
    "jd_inv t" "jd_view t = image_write (image_write (image_write (image_write ?v (bbm_pos fs bg) m) 1024 ?st)
        ?ip (inode_bytes x)) (desc_pos ?sb g) b"
    and m: "length m = ?bs" "\<forall>k < 8 * ?bs. bit_at m k = (k = unat i \<or> bit_at bm k)"
    and b: "balloc_desc (get_free_blocks_count bg - 1) ?sb bg b"
    and x: "zero_checksum x = zero_checksum (charged fs (ir_inode r))" "length (inode_bytes x) = 156"
    using sees_take_block [OF inv refl ready i8 blk ap] free unfolding bg_def bm_def sees_def by blast
  have lb: "length b = 64" and ls: "length ?st = 1024"
    using b by (simp_all add: balloc_desc_def set_free_blocks_count_def)
  have ap': "apart (bbm_pos fs bg, ?bs) (1024, 1024)" "apart (bbm_pos fs bg, ?bs) (?ip, 156)"
    "apart (bbm_pos fs bg, ?bs) (desc_pos ?sb g, 64)" "apart (1024, 1024) (?ip, 156)"
    "apart (1024, 1024) (desc_pos ?sb g, 64)" "apart (?ip, 156) (desc_pos ?sb g, 64)"
    using wr by (simp_all add: write_apart_def bg_def)
  have "image_read (jd_view t) (bbm_pos fs bg) ?bs = m" "image_read (jd_view t) 1024 1024 = ?st"
    "image_read (jd_view t) (desc_pos ?sb g) 64 = b"
    unfolding t(3) using ap' m(1) lb ls x(2) by (simp_all add: read_apart read_written)
  then have rd: "image_read (jd_view t) (bbm_pos fs bg) ?bs = m" "sb_at (jd_view t) = ?st"
    "desc_at (jd_view t) ?sb g = b"
    by (simp_all add: desc_at_def [of "jd_view t"] sb_at_def [of "jd_view t"])
  have "image_read (jd_view t) a k = image_read ?v a k"
    if "apart (a, k) (bbm_pos fs bg, ?bs)" "apart (a, k) (1024, 1024)" "apart (a, k) (?ip, 156)" "apart (a, k) (desc_pos ?sb g, 64)" for a k
    unfolding t(3) using that m(1) lb ls x(2) by (simp add: read_apart)
  then have "block_taken fs (ir_inode_num r) g i ?v (jd_view t)"
    using rd m(2) b clr unfolding block_taken_def Let_def bg_def [symmetric] bm_def [symmetric] by simp
  then show ?thesis using t(1,2) x(1) by blast
qed

lemma first_index: "0 < blocks_per_group sb \<Longrightarrow> addr_to_idx_bg sb (get_block_of_bgid sb g) = Ok 0"
proof -
  assume n: "0 < blocks_per_group sb"
  have "get_block_of_bgid sb g = bg_idx_to_addr sb 0 g"
    using bg_idx_to_addr_eq [of 0 sb g] n by (simp add: get_block_of_bgid_def mult.commute)
  then show ?thesis
    using n div_mod_packed(2) [OF n refl, of g] by (simp add: addr_to_idx_bg_def shifted_addr_eq)
qed

lemma unat_next_group:
  fixes g n :: u32
  assumes "g < n"
  shows "unat ((g + 1) mod n) = Suc (unat g) mod unat n" and "(g + 1) mod n < n"
proof -
  have "unat g < unat n" using assms by (simp add: word_less_nat_alt)
  then have "unat (g + 1) = Suc (unat g)" by (rule unat_Suc_less)
  then show "unat ((g + 1) mod n) = Suc (unat g) mod unat n" by (simp add: unat_mod)
  then show "(g + 1) mod n < n" using assms by (simp add: word_less_nat_alt)
qed

text \<open>A result of the allocator that starts searching at index \<open>idx\<close>.\<close>

definition good_alloc ::
  "ext4 \<Rightarrow> inode_ref \<Rightarrow> u32 \<Rightarrow> u32 \<Rightarrow> jdev \<Rightarrow> (u64 \<times> inode_ref) res \<times> jdev \<Rightarrow> bool" where
  "good_alloc fs r groups idx s out \<longleftrightarrow>
     (\<exists>g i x t. g < groups \<and> out = (Ok (bg_idx_to_addr (fs_sb fs) i g, r\<lparr> ir_inode := x \<rparr>), t) \<and> jd_inv t
        \<and> idx \<le> i \<and> i < blocks_per_group (fs_sb fs) \<and> \<not> reserved fs g i
        \<and> block_taken fs (ir_inode_num r) g i (jd_view s) (jd_view t)
        \<and> zero_checksum x = zero_checksum (charged fs (ir_inode r)))"

lemma alloc_loop_good:
  assumes inv: "jd_inv s" and ready: "balloc_ready fs (jd_view s)"
    and blk: "length (i_block (ir_inode r)) = 60" and idx: "idx < blocks_per_group (fs_sb fs)"
    and ap: "\<forall>g < groups. lookup_apart fs (jd_view s) g (ir_inode_num r) \<and> write_apart fs (jd_view s) g (ir_inode_num r)"
    and "bgid < groups"
  shows "good_alloc fs r groups idx s (alloc_loop fs r groups n bgid idx s)
    \<or> alloc_loop fs r groups n bgid idx s = (Err ENOSPC, s)
      \<and> (\<forall>k < n. passed_over fs (jd_view s) idx (of_nat ((unat bgid + k) mod unat groups)))"
  using \<open>bgid < groups\<close>
proof (induction n arbitrary: bgid)
  case (Suc n)
  let ?sb = "fs_sb fs" and ?v = "jd_view s" and ?bs = "fs_block_size fs"
  let ?bg = "desc_at ?v ?sb bgid"
  let ?bm = "image_read ?v (bbm_pos fs ?bg) ?bs"
  let ?next = "(bgid + 1) mod groups"
  have t: "table_ok ?sb" and bpg: "0 < blocks_per_group ?sb" "unat (blocks_per_group ?sb) \<le> 8 * ?bs"
    using ready by (auto simp: balloc_ready_def inodes_ready_def)
  have load: "load_new ?sb (unat bgid) s = (Ok ?bg, s)"
    using load_new_eq [OF t inv, of "unat bgid"] by (simp add: desc_at_def desc_pos_def)
  have lt: "unat bgid < unat groups" using Suc.prems by (simp add: word_less_nat_alt)
  have rest: "good_alloc fs r groups idx s (alloc_loop fs r groups n ?next idx s)
    \<or> alloc_loop fs r groups n ?next idx s = (Err ENOSPC, s)
      \<and> (\<forall>k < Suc n. passed_over fs ?v idx (of_nat ((unat bgid + k) mod unat groups)))"
    if p: "passed_over fs ?v idx bgid"
  proof -
    have "passed_over fs ?v idx (of_nat ((unat bgid + k) mod unat groups))"
      if k: "k < Suc n" and r: "\<forall>k < n. passed_over fs ?v idx (of_nat ((unat ?next + k) mod unat groups))" for k
    proof (cases k)
      case 0
      then show ?thesis using p lt by simp
    next
      case (Suc l)
      have "(unat ?next + l) mod unat groups = (unat bgid + k) mod unat groups"
        unfolding unat_next_group(1) [OF Suc.prems] Suc by (simp add: mod_simps)
      then show ?thesis using r k Suc by (metis Suc_less_eq)
    qed
    then show ?thesis using Suc.IH [OF unat_next_group(2) [OF Suc.prems]] by blast
  qed
  show ?case
  proof (cases "get_free_blocks_count ?bg = 0")
    case True
    then have "passed_over fs ?v idx bgid" by (simp add: passed_over_def)
    moreover have "alloc_loop fs r groups (Suc n) bgid idx s = alloc_loop fs r groups n ?next idx s"
      using True by (simp add: bindS_def load)
    ultimately show ?thesis using rest by simp
  next
    case free: False
    obtain res where found: "search_group fs True bgid ?bm idx = Ok res"
      and some: "\<And>i. res = Some i \<Longrightarrow> idx \<le> i \<and> i < blocks_per_group ?sb \<and> \<not> bit_at ?bm (unat i)
        \<and> (True \<or> i \<noteq> idx \<longrightarrow> \<not> reserved fs bgid i)"
      and none: "res = None \<Longrightarrow> (case first_clear ?bm (unat idx) (unat (blocks_per_group ?sb)) of
        None \<Rightarrow> True | Some j \<Rightarrow> reserved fs bgid (of_nat j))"
      by (rule search_group_spec [of idx fs ?bm True bgid]) (use idx bpg in simp_all)
    have step: "alloc_loop fs r groups (Suc n) bgid idx s = (case res of
        Some i \<Rightarrow> take_block fs r ?bg bgid ?bm (bbm_pos fs ?bg) i s
      | None \<Rightarrow> alloc_loop fs r groups n ?next idx s)"
      using free found by (simp add: load bindS_def first_index [OF bpg(1)] Let_def jd_read_view [OF inv]
          bbm_pos_def split: option.split)
    show ?thesis
    proof (cases res)
      case None
      then have "passed_over fs ?v idx bgid" using none by (simp add: passed_over_def Let_def)
      then show ?thesis using rest step None by simp
    next
      case (Some i)
      have "good_alloc fs r groups idx s (take_block fs r ?bg bgid ?bm (bbm_pos fs ?bg) i s)"
        using take_block_taken [OF inv ready _ blk _ _ free, of i] some [OF Some] ap Suc.prems
        unfolding good_alloc_def by blast
      then show ?thesis using step Some by simp
    qed
  qed
qed simp

lemma below_modulus:
  fixes n :: u32 and a :: u64
  assumes "0 < n"
  shows "(ucast (a mod ucast n) :: u32) < n"
proof -
  have "unat a mod unat n < unat n" using assms by (simp add: word_less_nat_alt)
  then show ?thesis
    using unat_bound [of n] by (simp add: word_less_nat_alt unsigned_ucast_eq take_bit_eq_mod unat_mod)
qed

lemma balloc_alloc_block_run:
  assumes inv: "jd_inv s" and ready: "balloc_ready fs (jd_view s)"
    and blk: "length (i_block (ir_inode r)) = 60"
    and groups: "block_group_count (fs_sb fs) = Ok groups" "0 < groups"
    and ap: "\<forall>g < groups. lookup_apart fs (jd_view s) g (ir_inode_num r) \<and> write_apart fs (jd_view s) g (ir_inode_num r)"
    and goal: "case goal of None \<Rightarrow> idx = 0
      | Some b \<Rightarrow> addr_to_idx_bg (fs_sb fs) b = Ok idx \<and> (\<exists>g < groups. get_bgid_of_block (fs_sb fs) b = Ok g)"
  shows "good_alloc fs r groups idx s (balloc_alloc_block fs r goal s)
    \<or> balloc_alloc_block fs r goal s = (Err ENOSPC, s) \<and> (\<forall>g < groups. passed_over fs (jd_view s) idx g)"
proof -
  have bpg: "0 < blocks_per_group (fs_sb fs)" using ready by (simp add: balloc_ready_def)
  obtain bgid where b: "bgid < groups" and idx: "idx < blocks_per_group (fs_sb fs)"
    and run: "balloc_alloc_block fs r goal s = alloc_loop fs r groups (unat groups) bgid idx s"
  proof (cases goal)
    case None
    then show thesis using goal groups bpg by (intro that [of 0]) (simp_all add: balloc_alloc_block_def)
  next
    case (Some a)
    then obtain g where g: "addr_to_idx_bg (fs_sb fs) a = Ok idx" "g < groups" "get_bgid_of_block (fs_sb fs) a = Ok g"
      using goal by auto
    then have "idx < blocks_per_group (fs_sb fs)"
      using bpg below_modulus [OF bpg, of "shifted_addr (fs_sb fs) a"] by (auto simp: addr_to_idx_bg_def word_gt_0)
    then show thesis using g Some groups by (intro that [of g]) (simp_all add: balloc_alloc_block_def)
  qed
  have all: "passed_over fs (jd_view s) idx g"
    if p: "\<forall>k < unat groups. passed_over fs (jd_view s) idx (of_nat ((unat bgid + k) mod unat groups))" and g: "g < groups" for g
  proof -
    have lt: "unat g < unat groups" "unat bgid < unat groups" using g b by (simp_all add: word_less_nat_alt)
    let ?k = "(unat g + (unat groups - unat bgid)) mod unat groups"
    have "(unat bgid + ?k) mod unat groups = (unat bgid + (unat g + (unat groups - unat bgid))) mod unat groups"
      by (simp add: mod_simps)
    also have "unat bgid + (unat g + (unat groups - unat bgid)) = unat g + unat groups" using lt by simp
    finally have "(unat bgid + ?k) mod unat groups = unat g" using lt by simp
    moreover have "?k < unat groups" using lt by simp
    ultimately show ?thesis using p by (metis of_nat_unat ucast_id)
  qed
  show ?thesis
    unfolding run using alloc_loop_good [OF inv ready blk idx ap b, of "unat groups"] all by blast
qed

section \<open>Freeing a range of one group\<close>

definition uncharged :: "ext4 \<Rightarrow> nat \<Rightarrow> inode \<Rightarrow> inode" where
  "uncharged fs n i =
     set_inode_blocks_count (inode_blocks_count i - of_nat (n * (fs_block_size fs div EXT4_INODE_BLOCK_SIZE))) i"

definition blocks_freed :: "ext4 \<Rightarrow> u32 \<Rightarrow> u32 \<Rightarrow> nat \<Rightarrow> nat \<Rightarrow> (nat \<Rightarrow> u8) \<Rightarrow> (nat \<Rightarrow> u8) \<Rightarrow> bool" where
  "blocks_freed fs ino g i n v w \<longleftrightarrow>
     (let sb = fs_sb fs; bg = desc_at v sb g; pos = bbm_pos fs bg; bs = fs_block_size fs in
      (\<forall>k < 8 * bs. bit_at (image_read w pos bs) k = (bit_at (image_read v pos bs) k \<and> \<not> (i \<le> k \<and> k < i + n)))
      \<and> balloc_desc (ucast (ucast (get_free_blocks_count bg + of_nat n) :: u32)) sb bg (desc_at w sb g)
      \<and> sb_at w = sb_stamped (set_free_blocks_count (free_blocks_count (sb_at v) + of_nat n) (sb_at v))
      \<and> (\<forall>a n. apart (a, n) (pos, bs) \<and> apart (a, n) (1024, 1024) \<and> apart (a, n) (inode_pos fs v ino, 156)
           \<and> apart (a, n) (desc_pos sb g, 64) \<longrightarrow> image_read w a n = image_read v a n))"

lemma free_one_group:
  assumes inv: "jd_inv s" and v: "jd_view s = v" and ready: "balloc_ready fs v"
    and blk: "length (i_block (ir_inode r)) = 60"
    and place: "get_bgid_of_block (fs_sb fs) start = Ok g" "addr_to_idx_bg (fs_sb fs) start = Ok i"
    and n: "0 < n" "unat i + n \<le> unat (blocks_per_group (fs_sb fs))"
    and ap: "lookup_apart fs v g (ir_inode_num r)"
  defines "bg \<equiv> desc_at v (fs_sb fs) g"
  defines "bm \<equiv> image_read v (bbm_pos fs bg) (fs_block_size fs)"
  shows "\<exists>m b x. sees (free_loop fs (sb_at v) r start n 1) s (r\<lparr> ir_inode := x \<rparr>)
      (image_write (image_write (image_write (image_write v (bbm_pos fs bg) m)
          1024 (sb_stamped (set_free_blocks_count (free_blocks_count (sb_at v) + of_nat n) (sb_at v))))
        (inode_pos fs v (ir_inode_num r)) (inode_bytes x)) (desc_pos (fs_sb fs) g) b)
    \<and> length m = fs_block_size fs
    \<and> (\<forall>k < 8 * fs_block_size fs. bit_at m k = (bit_at bm k \<and> \<not> (unat i \<le> k \<and> k < unat i + n)))
    \<and> balloc_desc (ucast (ucast (get_free_blocks_count bg + of_nat n) :: u32)) (fs_sb fs) bg b
    \<and> zero_checksum x = zero_checksum (uncharged fs n (ir_inode r)) \<and> length (inode_bytes x) = 156"
proof -
  let ?sb = "fs_sb fs" and ?bs = "fs_block_size fs" and ?n = "ir_inode_num r" and ?lv = "sb_at v"
  have ir: "inodes_ready fs" and t: "table_ok ?sb" and len: "length ?sb = 1024"
    and geo: "same_geometry ?sb ?lv" and bits: "unat (blocks_per_group ?sb) \<le> 8 * ?bs"
    using ready by (auto simp: balloc_ready_def inodes_ready_def)
  have bpg: "blocks_per_group ?lv = blocks_per_group ?sb" using geo by (simp add: same_geometry_def)
  note gs = geometry_fields [OF same_geometry_sym [OF geo]]
  have tl: "table_ok ?lv" using t gs(1) by simp
  have lbm: "length bm = ?bs" and lbg: "length bg = 64" by (simp_all add: bm_def bg_def)
  have cnt: "min n (unat (blocks_per_group ?lv) - unat i) = n" using n bpg by simp
  have "unat i + n < 2 ^ 32" using n unat_bound [of "blocks_per_group ?sb"] by simp
  then have sum: "unat (i + of_nat n) = unat i + n"
    by (simp add: unat_word_ariths unat_of_nat_small)
  then have "i + of_nat n \<noteq> 0" using n(1) by auto
  then have e: "unat (i + of_nat n - 1) = unat i + n - 1"
    using sum by (simp add: unat_minus_one)
  have last: "unat (i + of_nat n - 1) < 8 * length bm" using e n bits lbm by simp
  obtain m where m: "ext4_bmap_bits_free bm i (i + of_nat n - 1) = Ok m" "length m = length bm"
    "\<forall>k < 8 * length bm. bit_at m k \<longleftrightarrow> bit_at bm k \<and> \<not> (unat i \<le> k \<and> k \<le> unat (i + of_nat n - 1))"
    using bits_free_ok [OF last, of i] by blast
  have m3: "\<forall>k < 8 * ?bs. bit_at m k = (bit_at bm k \<and> \<not> (unat i \<le> k \<and> k < unat i + n))"
    using m(3) n(1) lbm e by auto
  have "unat (blocks_per_group ?lv div 8) \<le> length m" using bits m(2) lbm bpg by (simp add: unat_div)
  then obtain b where b: "set_block_group_balloc_bitmap_csum ?lv m bg = Ok b" "same_but_csums b bg"
    by (rule balloc_csum_ok [OF length_sb_at lbg])
  have lb: "length b = 64" and fb: "get_free_blocks_count b = get_free_blocks_count bg"
    using lbg b(2) same_but_csums_getters [OF b(2)] by simp_all
  let ?lsb = "set_free_blocks_count (free_blocks_count ?lv + of_nat n) ?lv"
  let ?v1 = "image_write v (bbm_pos fs bg) m"
  let ?v2 = "image_write ?v1 1024 (sb_stamped ?lsb)"
  have lsb: "length ?lsb = 1024" by (simp add: set_free_blocks_count_def)
  have ap': "apart (bbm_pos fs bg, ?bs) (1024, 1024)"
    "apart (bbm_pos fs bg, ?bs) (desc_pos ?sb (inode_group ?sb ?n), 64)"
    "apart (1024, 1024) (desc_pos ?sb (inode_group ?sb ?n), 64)"
    using ap by (simp_all add: lookup_apart_def bg_def)
  have pos2: "inode_pos fs ?v2 ?n = inode_pos fs v ?n"
    using ap' m(2) lbm lsb by (simp add: inode_pos_def desc_at_def read_apart apart_sym)
  let ?r = "r\<lparr> ir_inode := uncharged fs n (ir_inode r) \<rparr>"
  have blk': "length (i_block (ir_inode ?r)) = 60"
    using blk by (simp add: uncharged_def set_inode_blocks_count_def)
  let ?b = "bg_set_free_blocks_count (ucast (get_free_blocks_count bg + of_nat n)) b"
  have lb2: "length ?b = 64" using lb by (simp add: bg_frame)
  let ?st = "bg_stamped g ?sb ?b"
  have stl: "same_geometry (sb_stamped ?lsb) ?sb"
    by (rule same_geometry_trans [OF geometry_kept(3) same_geometry_sym [OF geo]]) simp
  note gf = geometry_fields [OF stl]
  have t2: "table_ok (sb_stamped ?lsb)" using t gf(1) by simp
  have lst: "length (sb_stamped ?lsb) = 1024" using lsb by simp
  let ?x = "checksummed fs ?v2 ?r"
  have upd: "(r\<lparr> ir_inode := a \<rparr>)\<lparr> ir_inode := c \<rparr> = r\<lparr> ir_inode := c \<rparr>"
    "ir_inode_num (r\<lparr> ir_inode := a \<rparr>) = ?n" for a c :: inode by simp_all
  note wb = sees_write_back [OF _ _ ir blk', where v = ?v2, unfolded upd pos2]
  have "sees (free_loop fs ?lv r start n 1) s (r\<lparr> ir_inode := ?x \<rparr>)
      (image_write (image_write ?v2 (inode_pos fs v ?n) (inode_bytes ?x)) (desc_pos ?sb g) ?st)"
    unfolding One_nat_def free_loop.simps
    apply (simp only: place bindS_simps)
    apply (rule sees_bind [OF sees_load_new [OF inv v tl]])
    apply (simp only: gs bg_def [symmetric] Let_def bbm_pos_def [symmetric])
    apply (rule sees_bind, erule (1) sees_read)
    apply (simp only: bm_def [symmetric] cnt m(1) b(1) bindS_simps)
    apply (rule sees_bind, erule (1) sees_write)
    apply (rule sees_bind, erule (1) sees_sync_super [OF _ _ lsb])
    apply (simp only: uncharged_def [symmetric] fb)
    apply (rule sees_bind, erule (1) wb)
    apply (rule sees_bind, erule (1) sees_bg_sync [OF _ _ t2 lst lb2])
    apply (simp only: gf)
    apply (erule (1) sees_ret)
    done
  moreover have "balloc_desc (ucast (ucast (get_free_blocks_count bg + of_nat n) :: u32)) ?sb bg ?st"
    by (rule balloc_desc_ok [OF lb b(2)])
  moreover have "zero_checksum ?x = zero_checksum (uncharged fs n (ir_inode r))" "length (inode_bytes ?x) = 156"
    using checksummed_props [OF blk', of fs ?v2] by simp_all
  ultimately show ?thesis
    using m(2) m3 lbm by (intro exI [of _ m] exI [of _ ?st] exI [of _ ?x]) simp
qed

lemma balloc_free_blocks_run:
  assumes inv: "jd_inv s" and ready: "balloc_ready fs (jd_view s)"
    and blk: "length (i_block (ir_inode r)) = 60"
    and place: "get_bgid_of_block (fs_sb fs) start = Ok g" "addr_to_idx_bg (fs_sb fs) start = Ok i"
    and last: "get_bgid_of_block (fs_sb fs) (start + ucast cnt - 1) = Ok g"
    and n: "0 < cnt" "unat i + unat cnt \<le> unat (blocks_per_group (fs_sb fs))"
    and ap: "lookup_apart fs (jd_view s) g (ir_inode_num r)" and wr: "write_apart fs (jd_view s) g (ir_inode_num r)"
  shows "\<exists>x t. balloc_free_blocks fs r start cnt s = (Ok (r\<lparr> ir_inode := x \<rparr>), t) \<and> jd_inv t
    \<and> blocks_freed fs (ir_inode_num r) g (unat i) (unat cnt) (jd_view s) (jd_view t)
    \<and> zero_checksum x = zero_checksum (uncharged fs (unat cnt) (ir_inode r))"
proof -
  let ?sb = "fs_sb fs" and ?bs = "fs_block_size fs" and ?v = "jd_view s"
  let ?bg = "desc_at ?v ?sb g" and ?ip = "inode_pos fs ?v (ir_inode_num r)"
  let ?pos = "bbm_pos fs ?bg"
  let ?st = "sb_stamped (set_free_blocks_count (free_blocks_count (sb_at ?v) + of_nat (unat cnt)) (sb_at ?v))"
  have c: "0 < unat cnt" using n(1) by (simp add: word_less_nat_alt)
  obtain m b x t where t: "free_loop fs (sb_at ?v) r start (unat cnt) 1 s = (Ok (r\<lparr> ir_inode := x \<rparr>), t)"
    "jd_inv t" "jd_view t = image_write (image_write (image_write (image_write ?v ?pos m) 1024 ?st)
        ?ip (inode_bytes x)) (desc_pos ?sb g) b"
    and m: "length m = ?bs"
      "\<forall>k < 8 * ?bs. bit_at m k = (bit_at (image_read ?v ?pos ?bs) k \<and> \<not> (unat i \<le> k \<and> k < unat i + unat cnt))"
    and b: "balloc_desc (ucast (ucast (get_free_blocks_count ?bg + of_nat (unat cnt)) :: u32)) ?sb ?bg b"
    and x: "zero_checksum x = zero_checksum (uncharged fs (unat cnt) (ir_inode r))" "length (inode_bytes x) = 156"
    using free_one_group [OF inv refl ready blk place c n(2) ap] unfolding sees_def by blast
  have lb: "length b = 64" and ls: "length ?st = 1024"
    using b by (simp_all add: balloc_desc_def set_free_blocks_count_def)
  have ap': "apart (?pos, ?bs) (1024, 1024)" "apart (?pos, ?bs) (?ip, 156)"
    "apart (?pos, ?bs) (desc_pos ?sb g, 64)" "apart (1024, 1024) (?ip, 156)"
    "apart (1024, 1024) (desc_pos ?sb g, 64)" "apart (?ip, 156) (desc_pos ?sb g, 64)"
    using wr by (simp_all add: write_apart_def)
  have "image_read (jd_view t) ?pos ?bs = m" "image_read (jd_view t) 1024 1024 = ?st"
    "image_read (jd_view t) (desc_pos ?sb g) 64 = b"
    unfolding t(3) using ap' m(1) lb ls x(2) by (simp_all add: read_apart read_written)
  then have rd: "image_read (jd_view t) ?pos ?bs = m" "sb_at (jd_view t) = ?st" "desc_at (jd_view t) ?sb g = b"
    by (simp_all add: desc_at_def [of "jd_view t"] sb_at_def [of "jd_view t"])
  have "image_read (jd_view t) a k = image_read ?v a k"
    if "apart (a, k) (?pos, ?bs)" "apart (a, k) (1024, 1024)" "apart (a, k) (?ip, 156)" "apart (a, k) (desc_pos ?sb g, 64)" for a k
    unfolding t(3) using that m(1) lb ls x(2) by (simp add: read_apart)
  then have freed: "blocks_freed fs (ir_inode_num r) g (unat i) (unat cnt) ?v (jd_view t)"
    using rd m(2) b unfolding blocks_freed_def Let_def by simp
  have "read_super_block s = (Ok (sb_at ?v), s)"
    using jd_read_view [OF inv] by (simp add: read_super_block_def sb_at_def SUPERBLOCK_OFFSET_def)
  then have "balloc_free_blocks fs r start cnt s = free_loop fs (sb_at ?v) r start (unat cnt) 1 s"
    by (simp add: balloc_free_blocks_def place last) (simp add: bindS_def)
  then show ?thesis using t(1,2) freed x(1) by auto
qed

section \<open>Properties\<close>

text \<open>C7: block allocation returns a free block or reports \<open>ENOSPC\<close> with nothing written. The block
  returned lies at or after the goal's index in some group, its bit was clear, and no system zone
  covers it; afterwards exactly that bit is set, the counts of free blocks of the group and of the
  superblock are one less, the descriptor is otherwise unchanged, the inode is charged with the block,
  and nothing else on the disk changed. \<open>ENOSPC\<close> is returned only when every group counts no free block, has
  no clear bit from that index on, or has a reserved block as the first one.\<close>

theorem balloc_alloc_block_correct:
  assumes "jd_inv s" and "balloc_ready fs (jd_view s)" and "length (i_block (ir_inode r)) = 60"
    and "block_group_count (fs_sb fs) = Ok groups" and "0 < groups"
    and "\<forall>g < groups. lookup_apart fs (jd_view s) g (ir_inode_num r) \<and> write_apart fs (jd_view s) g (ir_inode_num r)"
    and "case goal of None \<Rightarrow> idx = 0
      | Some b \<Rightarrow> addr_to_idx_bg (fs_sb fs) b = Ok idx \<and> (\<exists>g < groups. get_bgid_of_block (fs_sb fs) b = Ok g)"
  shows "good_alloc fs r groups idx s (balloc_alloc_block fs r goal s)
    \<or> balloc_alloc_block fs r goal s = (Err ENOSPC, s) \<and> (\<forall>g < groups. passed_over fs (jd_view s) idx g)"
  by (rule balloc_alloc_block_run [OF assms])

definition tiny_ref :: inode_ref where
  "tiny_ref = \<lparr> ir_inode_num = 12, ir_inode = inode_of_bytes (replicate 156 0) \<rparr>"

lemma tiny_ref [simp]: "length (i_block (ir_inode tiny_ref)) = 60" "ir_inode_num tiny_ref = 12"
  by (simp_all add: tiny_ref_def inode_of_bytes_def)

lemma tiny_balloc_ready [simp]: "balloc_ready tiny_fs tiny_image"
  by (simp add: balloc_ready_def)

lemma tiny_apart: "lookup_apart tiny_fs tiny_image 0 12 \<and> write_apart tiny_fs tiny_image 0 12"
  by (simp add: lookup_apart_def write_apart_def apart_def bbm_pos_def desc_pos_def tiny_inode_pos
      inode_group_def saturating_sub_def)

lemma tiny_bit: "k < 16384 \<Longrightarrow> bit_at (image_read tiny_image 12288 2048) k \<longleftrightarrow> k < 9"
proof -
  assume k: "k < 16384"
  let ?b = "image_read tiny_image 12288 2048"
  have byte: "?b ! j = (if j = 0 then - 1 else if j = 1 then 1 else 0)" if "j < 2048" for j
    using that by (simp add: nth_image_read tiny_image_def image_write_def)
  have "k div 8 < 2048" using k by simp
  then have b: "bit_at ?b k = (k div 8 = 0 \<and> bit (- 1 :: u8) (k mod 8) \<or> k div 8 = 1 \<and> bit (1 :: u8) (k mod 8))"
    unfolding bit_at_def by (subst byte) auto
  consider "k < 8" | "k = 8" | "9 \<le> k" "k < 16" | "16 \<le> k" by linarith
  then show ?thesis
  proof cases
    case 2
    then show ?thesis unfolding b by simp
  next
    case 3
    then have "k div 8 = 1" "k mod 8 \<noteq> 0" by (simp_all add: mod_eq_0_iff_dvd, presburger+)
    then show ?thesis using 3 by (simp add: b bit_1_iff)
  next
    case 4
    then have "2 \<le> k div 8" using div_le_mono [of 16 k 8] by simp
    then show ?thesis using 4 by (simp add: b)
  qed (simp_all add: b bit_1_iff)
qed

theorem balloc_alloc_block_correct_witness:
  "good_alloc tiny_fs tiny_ref 1 10 tiny_dev (balloc_alloc_block tiny_fs tiny_ref (Some 10) tiny_dev)"
proof -
  have g: "addr_to_idx_bg tiny_sb 10 = Ok 10" "get_bgid_of_block tiny_sb 10 = Ok 0"
    by (simp_all add: addr_to_idx_bg_def get_bgid_of_block_def shifted_addr_def)
  have "first_clear (image_read tiny_image 12288 2048) 10 16384 = Some 10"
    by (simp add: first_clear_Some tiny_bit)
  moreover have "\<not> reserved tiny_fs 0 10"
    by (simp add: reserved_def is_system_reserved_block_def tiny_fs_def bg_idx_to_addr_def)
  ultimately have "\<not> passed_over tiny_fs tiny_image 10 0"
    by (simp add: passed_over_def bbm_pos_def)
  then show ?thesis
    using g balloc_alloc_block_correct [where s = tiny_dev and fs = tiny_fs and r = tiny_ref and groups = 1
        and goal = "Some 10" and idx = 10] tiny_apart
    by (auto simp: word_less_1)
qed

text \<open>C16: freeing a range of blocks that lies in one group clears exactly its bits, adds its length to
  the free counts of the group and of the superblock, takes it off the inode's block count, and changes
  nothing else.\<close>

theorem balloc_free_blocks_correct:
  assumes "jd_inv s" and "balloc_ready fs (jd_view s)" and "length (i_block (ir_inode r)) = 60"
    and "get_bgid_of_block (fs_sb fs) start = Ok g" and "addr_to_idx_bg (fs_sb fs) start = Ok i"
    and "get_bgid_of_block (fs_sb fs) (start + ucast cnt - 1) = Ok g"
    and "0 < cnt" and "unat i + unat cnt \<le> unat (blocks_per_group (fs_sb fs))"
    and "lookup_apart fs (jd_view s) g (ir_inode_num r)" and "write_apart fs (jd_view s) g (ir_inode_num r)"
  shows "\<exists>x t. balloc_free_blocks fs r start cnt s = (Ok (r\<lparr> ir_inode := x \<rparr>), t) \<and> jd_inv t
    \<and> blocks_freed fs (ir_inode_num r) g (unat i) (unat cnt) (jd_view s) (jd_view t)
    \<and> zero_checksum x = zero_checksum (uncharged fs (unat cnt) (ir_inode r))"
  by (rule balloc_free_blocks_run [OF assms])

theorem balloc_free_blocks_correct_witness:
  "\<exists>x t. balloc_free_blocks tiny_fs tiny_ref 3 4 tiny_dev = (Ok (tiny_ref\<lparr> ir_inode := x \<rparr>), t)
    \<and> blocks_freed tiny_fs 12 0 3 4 tiny_image (jd_view t)"
proof -
  have g: "addr_to_idx_bg tiny_sb 3 = Ok 3" "get_bgid_of_block tiny_sb 3 = Ok 0" "get_bgid_of_block tiny_sb (3 + ucast (4 :: u32) - 1) = Ok 0"
    by (simp_all add: addr_to_idx_bg_def get_bgid_of_block_def shifted_addr_def)
  show ?thesis
    using balloc_free_blocks_correct [of tiny_dev tiny_fs tiny_ref 3 0 3 4] g tiny_apart by auto
qed

end
