(* ===== verification/BatchAlloc.thy ===== *)
theory BatchAlloc
  imports BlockAlloc
begin

text \<open>
  Batch allocation: what the two searches of \<open>balloc_alloc_block_batch\<close> take from one group.
\<close>

text \<open>The bits that may be taken, among \<open>is\<close>.\<close>

definition available :: "ext4 \<Rightarrow> u32 \<Rightarrow> bytes \<Rightarrow> u32 list \<Rightarrow> u32 list" where
  "available fs g bm is = filter (\<lambda>i. \<not> bit_at bm (unat i) \<and> \<not> reserved fs g i) is"

definition bits_set :: "bytes \<Rightarrow> u32 list \<Rightarrow> bytes \<Rightarrow> bool" where
  "bits_set bm is m \<longleftrightarrow> length m = length bm
     \<and> (\<forall>k < 8 * length bm. bit_at m k = (k \<in> unat ` set is \<or> bit_at bm k))"

lemma available_cong:
  assumes "bits_set bm js m" and "\<forall>i \<in> set is. unat i < 8 * length bm \<and> i \<notin> set js"
  shows "available fs g m is = available fs g bm is"
proof -
  have "unat i \<notin> unat ` set js" if "i \<in> set is" for i
    using assms(2) that by (auto dest!: unsigned_word_eqI)
  then have "bit_at m (unat i) = bit_at bm (unat i)" if "i \<in> set is" for i
    using assms that by (auto simp: bits_set_def)
  then show ?thesis by (simp add: available_def cong: filter_cong)
qed

lemma batch_scan_takes:
  assumes "distinct is" and "\<forall>i \<in> set is. unat i < 8 * length bm"
  obtains j m where "batch_scan fs g want e is bm acc =
      Ok (j, m, acc @ map (\<lambda>i. bg_idx_to_addr (fs_sb fs) i g) (take (want - length acc) (available fs g bm is)))"
    and "bits_set bm (take (want - length acc) (available fs g bm is)) m"
    and "length acc + length (available fs g bm is) < want \<Longrightarrow> j = e"
  using assms
proof (induction "is" arbitrary: bm acc thesis)
  case Nil
  show ?case by (rule Nil.prems(1) [of e bm]) (simp_all add: available_def bits_set_def)
next
  case (Cons i "is")
  have i: "unat i < 8 * length bm" using Cons.prems(3) by simp
  show ?case
  proof (cases "want \<le> length acc")
    case True
    then show ?thesis by (intro Cons.prems(1) [of i bm]) (simp_all add: bits_set_def)
  next
    case False
    show ?thesis
    proof (cases "\<not> bit_at bm (unat i) \<and> \<not> reserved fs g i")
      case taken: True
      obtain b where b: "ext4_bmap_bit_set bm i = Ok b" "length b = length bm"
        "\<And>k. k < 8 * length bm \<Longrightarrow> bit_at b k = (k = unat i \<or> bit_at bm k)"
        by (rule bit_set_ok [OF i]) blast
      then have set: "bits_set bm [i] b" by (simp add: bits_set_def)
      have same: "available fs g b is = available fs g bm is"
        by (rule available_cong [OF set]) (use Cons.prems in auto)
      let ?a = "bg_idx_to_addr (fs_sb fs) i g"
      have step: "batch_scan fs g want e (i # is) bm acc = batch_scan fs g want e is b (acc @ [?a])"
        using False taken b(1) by (simp add: is_bit_clr_eq [OF i] reserved_def)
      have n: "want - length acc = Suc (want - length (acc @ [?a]))" using False by simp
      have av: "available fs g bm (i # is) = i # available fs g bm is" using taken by (simp add: available_def)
      obtain j m where m: "batch_scan fs g want e is b (acc @ [?a]) = Ok (j, m, (acc @ [?a]) @
          map (\<lambda>i. bg_idx_to_addr (fs_sb fs) i g) (take (want - length (acc @ [?a])) (available fs g b is)))"
        "bits_set b (take (want - length (acc @ [?a])) (available fs g b is)) m"
        "length (acc @ [?a]) + length (available fs g b is) < want \<Longrightarrow> j = e"
        by (rule Cons.IH [of b "acc @ [?a]"]) (use Cons.prems b(2) in auto)
      show ?thesis
      proof (rule Cons.prems(1) [of j m])
        show "batch_scan fs g want e (i # is) bm acc = Ok (j, m, acc @ map (\<lambda>i. bg_idx_to_addr (fs_sb fs) i g)
            (take (want - length acc) (available fs g bm (i # is))))"
          unfolding step m(1) n av same by simp
        show "bits_set bm (take (want - length acc) (available fs g bm (i # is))) m"
          unfolding n av using m(2) b(2,3) by (auto simp: bits_set_def same)
        show "length acc + length (available fs g bm (i # is)) < want \<Longrightarrow> j = e"
          using m(3) by (simp add: av same)
      qed
    next
      case skip: False
      have step: "batch_scan fs g want e (i # is) bm acc = batch_scan fs g want e is bm acc"
        using False skip by (auto simp: is_bit_clr_eq [OF i] reserved_def Let_def)
      have av: "available fs g bm (i # is) = available fs g bm is" using skip by (auto simp: available_def)
      show ?thesis unfolding step av
        by (rule Cons.IH [of bm acc]) (use Cons.prems step av in auto)
    qed
  qed
qed

lemma batch_pick_takes:
  fixes first g :: u32 and want :: nat
  assumes e: "e = min (blocks_per_group (fs_sb fs)) (of_nat (fs_block_size fs) * 8)"
    and fit: "unat e \<le> 8 * length bm"
  defines "free \<equiv> take want (available fs g bm (map of_nat [unat first..<unat e]))"
  shows "\<exists>m. batch_pick fs g want first bm = Ok (m, map (\<lambda>i. bg_idx_to_addr (fs_sb fs) i g) free) \<and> bits_set bm free m"
proof -
  let ?is = "map of_nat [unat first..<unat e] :: u32 list"
  have u: "unat (of_nat k :: u32) = k" if "k < unat e" for k
    using that unat_bound [of e] by (intro unat_of_nat_small) simp
  have "inj_on (of_nat :: nat \<Rightarrow> u32) {unat first..<unat e}"
  proof (rule inj_onI)
    fix a b
    assume ab: "a \<in> {unat first..<unat e}" "b \<in> {unat first..<unat e}" and eq: "(of_nat a :: u32) = of_nat b"
    have "a < unat e" "b < unat e" using ab by simp_all
    then show "a = b" using u arg_cong [OF eq, of unat] by metis
  qed
  then have d: "distinct ?is" by (simp add: distinct_map)
  have "unat i < unat e" if "i \<in> set ?is" for i
  proof -
    have "i \<in> of_nat ` {unat first..<unat e}" using that by (simp only: set_map set_upt)
    then obtain k where "i = of_nat k" "k \<in> {unat first..<unat e}" by (rule imageE)
    then have k: "k < unat e" "i = of_nat k" by simp_all
    show ?thesis using u [OF k(1)] by (simp only: k)
  qed
  then have r: "\<forall>i \<in> set ?is. unat i < 8 * length bm" using fit by fastforce
  obtain j m where m: "batch_scan fs g want e ?is bm [] = Ok (j, m, map (\<lambda>i. bg_idx_to_addr (fs_sb fs) i g) free)"
    "bits_set bm free m" "length (available fs g bm ?is) < want \<Longrightarrow> j = e"
    by (rule batch_scan_takes [OF d r, of fs g want e "[]"]) (simp_all add: free_def)
  have "batch_search fs g want e (Suc (want + unat e)) j m (map (\<lambda>i. bg_idx_to_addr (fs_sb fs) i g) free)
      = Ok (m, map (\<lambda>i. bg_idx_to_addr (fs_sb fs) i g) free)"
  proof (cases "length (available fs g bm ?is) < want")
    case True
    have "ext4_bmap_bit_find_clr m e e = Ok None"
      using bit_find_clr_eq [of e e m] fit m(2) by (simp add: bits_set_def)
    then show ?thesis using m(3) [OF True] by simp
  next
    case False
    then show ?thesis by (simp add: free_def)
  qed
  then show ?thesis using m(1,2) unfolding batch_pick_def Let_def e [symmetric] by simp
qed

text \<open>C19: batch allocation takes from a group the first \<open>want\<close> indexes whose bit is clear and whose
  block is not reserved (all of them when there are fewer), and sets exactly their bits. The scan ends
  at the end of the group, so the bitmap search after it, a loop with no bound of its own, stops at
  once: both loops terminate.\<close>

theorem batch_pick_correct:
  fixes first :: u32
  assumes "e = min (blocks_per_group (fs_sb fs)) (of_nat (fs_block_size fs) * 8)"
    and "unat e \<le> 8 * length bm"
    and "free = take want (available fs g bm (map of_nat [unat first..<unat e]))"
  shows "\<exists>m. batch_pick fs g want first bm = Ok (m, map (\<lambda>i. bg_idx_to_addr (fs_sb fs) i g) free) \<and> bits_set bm free m"
  using batch_pick_takes [OF assms(1,2)] unfolding assms(3) by blast

lemma tiny_reserved:
  assumes "k < 16384"
  shows "reserved tiny_fs 0 (of_nat k) \<longleftrightarrow> k \<le> 9"
proof -
  have "unat (of_nat k :: u32) = k" using assms by (intro unat_of_nat_small) simp
  then have "unat (ucast (of_nat k :: u32) :: u64) = k" by simp
  then show ?thesis
    by (simp add: reserved_def is_system_reserved_block_def tiny_fs_def bg_idx_to_addr_def word_le_nat_alt)
qed

theorem batch_pick_correct_witness:
  "\<exists>m. batch_pick tiny_fs 0 2 0 (image_read tiny_image 12288 2048) = Ok (m, [10, 11])
    \<and> bits_set (image_read tiny_image 12288 2048) [10, 11] m"
proof -
  let ?bm = "image_read tiny_image 12288 2048"
  have av: "available tiny_fs 0 ?bm (map of_nat ks) = map of_nat (filter (\<lambda>k. 10 \<le> k) ks)"
    if "\<forall>k \<in> set ks. k < 16384" for ks
  proof -
    have "(\<not> bit_at ?bm (unat (of_nat k :: u32)) \<and> \<not> reserved tiny_fs 0 (of_nat k)) = (10 \<le> k)" if "k < 16384" for k
    proof -
      have "unat (of_nat k :: u32) = k" using that by (intro unat_of_nat_small) simp
      then show ?thesis using tiny_bit [OF that] tiny_reserved [OF that] by auto
    qed
    then show ?thesis using that by (simp add: available_def filter_map o_def cong: filter_cong)
  qed
  have take: "take 2 (filter (\<lambda>k. 10 \<le> k) [0..<n]) = [10, 11 :: nat]" if "12 \<le> n" for n
  proof -
    have "[0..<n] = [0..<10] @ [10..<n]" using that upt_add_eq_append [of 0 10 "n - 10"] by simp
    then have "filter (\<lambda>k. 10 \<le> k) [0..<n] = [10..<n]" by simp
    then show ?thesis using that by (simp add: upt_conv_Cons numeral_2_eq_2)
  qed
  obtain n where n: "n = unat (16384 :: u32)" by simp
  have "take 2 (available tiny_fs 0 ?bm (map of_nat [0..<n])) = map of_nat (take 2 (filter (\<lambda>k. 10 \<le> k) [0..<n]))"
    using n by (subst av) (simp_all add: take_map)
  also have "\<dots> = [10, 11]" using n by (subst take) simp_all
  finally have eq: "[10, 11] = take 2 (available tiny_fs 0 ?bm (map of_nat [unat (0 :: u32)..<unat (16384 :: u32)]))"
    by (simp only: n unat_0)
  have addr: "map (\<lambda>i. bg_idx_to_addr (fs_sb tiny_fs) i 0) [10, 11] = [10, 11]"
    by (simp add: bg_idx_to_addr_def)
  show ?thesis
    by (rule batch_pick_correct [OF _ _ eq, unfolded addr]) simp_all
qed

end
