(* ===== verification/ExtentInsert.thy ===== *)
theory ExtentInsert
  imports BlockAlloc
begin

text \<open>
  Insertion into the extent tree (\<open>src/src/ext4_impls/extents.rs\<close>): merging with the extent found,
  insertion in the root and in leaf blocks, splitting of full nodes, growing in depth, and the
  checksum of extent blocks.

  The root lies in the inode: four 12-byte records after the header. An extent and an index are both
  12-byte records that begin with their first logical block, and the code treats the entries of
  node blocks as raw slots; so does the model for the root, where the code has the same loop once
  for extents and once for indices. The \<open>&mut\<close> inode reference is passed and returned.

  \<open>insert_extent\<close> calls itself once more after the root has grown. The model bounds the nesting of
  these calls (deeper nesting is \<open>Panic\<close>, the stack being finite) and shows that one is enough.
\<close>

definition unwrap :: "'a res \<Rightarrow> 'a res" where
  "unwrap r = (case r of Err _ \<Rightarrow> Panic | _ \<Rightarrow> r)"

section \<open>Checksums of extent blocks\<close>

definition has_metadata_checksums :: "superblock \<Rightarrow> bool" where
  "has_metadata_checksums sb \<longleftrightarrow> (sb_get 4 ''features_read_only'' sb :: u32) AND 0x400 \<noteq> 0"

definition ext4_extent_tail_offset :: "extent_header \<Rightarrow> nat" where
  "ext4_extent_tail_offset hdr = 12 + unat (eh_max_entries_count hdr) * 12"

definition calculate_extent_block_checksum :: "ext4 \<Rightarrow> inode_ref \<Rightarrow> bytes \<Rightarrow> u32 res" where
  "calculate_extent_block_checksum fs r data =
     (if \<not> has_metadata_checksums (fs_sb fs) then Ok 0
      else bind (ext4_crc32c EXT4_CRC32_INIT (slice (fs_sb fs) (offset_of superblock_layout ''uuid'') 16) 16) (\<lambda>c.
           bind (ext4_crc32c c (le_bytes 4 (ir_inode_num r)) 4) (\<lambda>c.
           bind (ext4_crc32c c (le_bytes 4 (i_generation (ir_inode r))) 4) (\<lambda>c.
           ext4_crc32c c data (of_nat (length data))))))"

definition set_extent_block_checksum :: "ext4 \<Rightarrow> inode_ref \<Rightarrow> nat \<Rightarrow> (jdev, unit) io" where
  "set_extent_block_checksum fs r block_addr =
     (if \<not> has_metadata_checksums (fs_sb fs) then ret ()
      else let pos = block_addr * fs_block_size fs in
        bindS (jd_read pos (fs_block_size fs)) (\<lambda>data.
        if length data < 12 then lift Undef
        else let hdr = header_of_bytes (slice data 0 12) in
        if eh_magic hdr \<noteq> EXT4_EXTENT_MAGIC then lift (Err EINVAL)
        else let tail_offset = ext4_extent_tail_offset hdr in
        bindS (lift (get_at data 0 tail_offset)) (\<lambda>d.
        bindS (lift (calculate_extent_block_checksum fs r d)) (\<lambda>checksum.
        if tail_offset + 4 \<le> length data
        then jd_write pos (put data tail_offset (le_bytes 4 checksum))
        else lift Undef))))"

section \<open>The root\<close>

definition root_slot_at :: "inode \<Rightarrow> nat \<Rightarrow> bytes res" where
  "root_slot_at i pos =
     (if 12 + pos * 12 + 12 \<le> length (i_block i) then Ok (slice (i_block i) (12 + pos * 12) 12) else Undef)"

definition root_slot_put :: "inode \<Rightarrow> nat \<Rightarrow> bytes \<Rightarrow> inode res" where
  "root_slot_put i pos slot =
     (if 12 + pos * 12 + 12 \<le> length (i_block i)
      then Ok (i\<lparr> i_block := put (i_block i) (12 + pos * 12) slot \<rparr>) else Undef)"

definition slot_first_block :: "bytes \<Rightarrow> u32" where
  "slot_first_block slot = le_get 0 4 slot"

definition root_header_put :: "inode \<Rightarrow> extent_header \<Rightarrow> inode" where
  "root_header_put i h = i\<lparr> i_block := put (i_block i) 0 (header_bytes h) \<rparr>"

text \<open>The position of the first entry that begins past \<open>nk\<close>, the shift of the entries from there
  on, and the insertion itself.\<close>

fun root_position :: "inode \<Rightarrow> u32 \<Rightarrow> nat \<Rightarrow> nat list \<Rightarrow> nat res" where
  "root_position i nk count [] = Ok count"
| "root_position i nk count (k # ks) =
     bind (root_slot_at i k) (\<lambda>s. if nk < slot_first_block s then Ok k else root_position i nk count ks)"

fun root_shift :: "inode \<Rightarrow> nat list \<Rightarrow> inode res" where
  "root_shift i [] = Ok i"
| "root_shift i (k # ks) =
     bind (root_slot_at i k) (\<lambda>cur. bind (root_slot_put i (k + 1) cur) (\<lambda>i. root_shift i ks))"

definition root_insert :: "inode \<Rightarrow> u32 \<Rightarrow> bytes \<Rightarrow> nat \<Rightarrow> inode res" where
  "root_insert i nk slot count =
     bind (root_position i nk count [0..<count]) (\<lambda>pos.
     bind (root_shift i (rev [pos..<count])) (\<lambda>i.
     bind (root_slot_put i pos slot) (\<lambda>i.
     let h = root_extent_header i in
     Ok (root_header_put i (h\<lparr> eh_entries_count := eh_entries_count h + 1 \<rparr>)))))"

section \<open>Node blocks as slots\<close>

definition node_max_entries :: "ext4 \<Rightarrow> nat" where
  "node_max_entries fs = (fs_block_size fs - 12) div 12"

definition read_node_slots :: "ext4 \<Rightarrow> nat \<Rightarrow> (jdev, extent_header \<times> bytes list) io" where
  "read_node_slots fs pblk =
     bindS (jd_read (pblk * fs_block_size fs) (fs_block_size fs)) (\<lambda>data.
     if length data < 12 then lift Undef
     else let hdr = header_of_bytes (slice data 0 12) in
       bindS (lift (map_each (\<lambda>i. get_at data (12 + i * 12) 12) [0..<unat (eh_entries_count hdr)]))
         (\<lambda>slots. ret (hdr, slots)))"

fun put_slots :: "bytes \<Rightarrow> nat \<Rightarrow> bytes list \<Rightarrow> bytes res" where
  "put_slots data i [] = Ok data"
| "put_slots data i (s # ss) = bind (put_at data (12 + i * 12) s) (\<lambda>data. put_slots data (i + 1) ss)"

definition node_block :: "nat \<Rightarrow> u16 \<Rightarrow> u16 \<Rightarrow> bytes list \<Rightarrow> bytes res" where
  "node_block n max_entries depth slots =
     bind (put_at (replicate n 0) 0 (header_bytes \<lparr> eh_magic = EXT4_EXTENT_MAGIC,
        eh_entries_count = of_nat (length slots), eh_max_entries_count = max_entries, eh_depth = depth,
        eh_generation = 0 \<rparr>)) (\<lambda>data. put_slots data 0 slots)"

definition write_node_slots :: "ext4 \<Rightarrow> inode_ref \<Rightarrow> nat \<Rightarrow> u16 \<Rightarrow> bytes list \<Rightarrow> (jdev, unit) io" where
  "write_node_slots fs r pblk depth slots =
     (let pos = pblk * fs_block_size fs in
      bindS (jd_read pos (fs_block_size fs)) (\<lambda>data.
      bindS (lift (node_block (length data) (of_nat (node_max_entries fs)) depth slots)) (\<lambda>data.
      bindS (jd_write pos data) (\<lambda>_. set_extent_block_checksum fs r pblk))))"

definition make_index_slot :: "u32 \<Rightarrow> nat \<Rightarrow> bytes" where
  "make_index_slot first_block child_pblk =
     index_bytes (ei_store_pblock (of_nat child_pblk)
       \<lparr> ei_first_block = first_block, ei_leaf_lo = 0, ei_leaf_hi = 0, ei_padding = 0 \<rparr>)"

definition slot_position :: "u32 \<Rightarrow> bytes list \<Rightarrow> nat" where
  "slot_position nk slots = length (takeWhile (\<lambda>s. \<not> nk < slot_first_block s) slots)"

definition insert_slot :: "u32 \<Rightarrow> bytes \<Rightarrow> bytes list \<Rightarrow> bytes list" where
  "insert_slot nk slot slots = take (slot_position nk slots) slots @ slot # drop (slot_position nk slots) slots"

section \<open>Growing in depth\<close>

text \<open>The entries of the root move to a new block, of which the root keeps one index. A failure to
  set the checksum of the new block is only logged.\<close>

definition ignore_err :: "('s, unit) io \<Rightarrow> ('s, unit) io" where
  "ignore_err m s = (case m s of (Err _, t) \<Rightarrow> (Ok (), t) | (r, t) \<Rightarrow> (r, t))"

definition grown_root :: "inode \<Rightarrow> u64 \<Rightarrow> u32 \<Rightarrow> inode" where
  "grown_root i new_block first_block =
     (let h = root_extent_header i;
          i = root_header_put i (h\<lparr> eh_magic := EXT4_EXTENT_MAGIC, eh_entries_count := 1,
                eh_max_entries_count := 4, eh_depth := eh_depth h + 1 \<rparr>);
          i = i\<lparr> i_block := put (i_block i) 12 (replicate 48 0) \<rparr> in
      i\<lparr> i_block := put (i_block i) 12 (make_index_slot first_block (unat new_block)) \<rparr>)"

definition ext_grow_indepth :: "ext4 \<Rightarrow> inode_ref \<Rightarrow> (jdev, inode_ref) io" where
  "ext_grow_indepth fs r =
     bindS (balloc_alloc_block fs r None) (\<lambda>(new_block, r).
     let pos = unat new_block * fs_block_size fs in
     bindS (jd_read pos (fs_block_size fs)) (\<lambda>data.
     let data = replicate (length data) 0; i = ir_inode r; old = root_extent_header i;
         old_entries = unat (eh_entries_count old) in
     bindS (lift (if 0 < old_entries then map_res slot_first_block (root_slot_at i 0) else Ok 0)) (\<lambda>first_block.
     bindS (lift (put_at data 0 (header_bytes \<lparr> eh_magic = EXT4_EXTENT_MAGIC,
        eh_entries_count = eh_entries_count old, eh_max_entries_count = of_nat (node_max_entries fs),
        eh_depth = eh_depth old, eh_generation = 0 \<rparr>))) (\<lambda>data.
     bindS (lift (if 0 < old_entries
              then bind (get_at (i_block i) 12 (old_entries * 12)) (\<lambda>d. put_at data 12 d) else Ok data)) (\<lambda>data.
     bindS (jd_write pos data) (\<lambda>_.
     bindS (ignore_err (set_extent_block_checksum fs r (unat new_block))) (\<lambda>_.
     write_back_inode fs (r\<lparr> ir_inode := grown_root i new_block first_block \<rparr>))))))))"

section \<open>Index count\<close>

text \<open>The nodes of the search path; an index past its end panics.\<close>

definition path_node :: "search_path \<Rightarrow> nat \<Rightarrow> extent_path_node res" where
  "path_node sp i = (if i < length (sp_path sp) then Ok (sp_path sp ! i) else Panic)"

fun correct_parent_index ::
  "ext4 \<Rightarrow> inode_ref \<Rightarrow> search_path \<Rightarrow> u32 \<Rightarrow> nat \<Rightarrow> (jdev, inode_ref) io" where
  "correct_parent_index fs r sp new_first level =
     bindS (lift (path_node sp level)) (\<lambda>node.
     let node_pblk = pn_pblock_of_node node; ipos = pn_position node in
     if node_pblk = 0
     then bindS (lift (bind (root_slot_at (ir_inode r) ipos) (\<lambda>s.
              root_slot_put (ir_inode r) ipos (put s 0 (le_bytes 4 new_first))))) (\<lambda>i.
            write_back_inode fs (r\<lparr> ir_inode := i \<rparr>))
     else let pos = node_pblk * fs_block_size fs in
       bindS (jd_read pos (fs_block_size fs)) (\<lambda>data.
       bindS (lift (put_at data (12 + ipos * 12) (le_bytes 4 new_first))) (\<lambda>data.
       bindS (jd_write pos data) (\<lambda>_.
       bindS (set_extent_block_checksum fs r node_pblk) (\<lambda>_.
       if ipos = 0 then (case level of 0 \<Rightarrow> lift Panic | Suc l \<Rightarrow> correct_parent_index fs r sp new_first l)
       else ret r)))))"

declare correct_parent_index.simps [simp del]

definition add_index_to_root :: "ext4 \<Rightarrow> inode_ref \<Rightarrow> u32 \<Rightarrow> nat \<Rightarrow> (jdev, inode_ref) io" where
  "add_index_to_root fs r sep child_pblk =
     (let h = root_extent_header (ir_inode r) in
      if eh_entries_count h < eh_max_entries_count h
      then bindS (lift (root_insert (ir_inode r) sep (make_index_slot sep child_pblk) (unat (eh_entries_count h)))) (\<lambda>i.
           write_back_inode fs (r\<lparr> ir_inode := i \<rparr>))
      else bindS (ext_grow_indepth fs r) (\<lambda>r.
           bindS (lift (root_index_at (ir_inode r) 0)) (\<lambda>ix.
           let node = unat (ei_get_pblock ix) in
           bindS (read_node_slots fs node) (\<lambda>(hdr, slots).
           bindS (write_node_slots fs r node (eh_depth hdr)
                    (insert_slot sep (make_index_slot sep child_pblk) slots)) (\<lambda>_. ret r)))))"

fun insert_index_at_level ::
  "ext4 \<Rightarrow> inode_ref \<Rightarrow> search_path \<Rightarrow> u32 \<Rightarrow> nat \<Rightarrow> nat \<Rightarrow> (jdev, inode_ref) io" where
  "insert_index_at_level fs r sp sep child_pblk level =
     bindS (lift (path_node sp level)) (\<lambda>node.
     let node_pblk = pn_pblock_of_node node in
     if node_pblk = 0 then add_index_to_root fs r sep child_pblk
     else bindS (read_node_slots fs node_pblk) (\<lambda>(hdr, slots).
       let slots = insert_slot sep (make_index_slot sep child_pblk) slots in
       if length slots \<le> node_max_entries fs
       then bindS (write_node_slots fs r node_pblk (eh_depth hdr) slots) (\<lambda>_. ret r)
       else let split = length slots div 2; up_sep = slot_first_block (slots ! split) in
         bindS (balloc_alloc_block fs r None) (\<lambda>(new_pblk, r).
         bindS (write_node_slots fs r node_pblk (eh_depth hdr) (take split slots)) (\<lambda>_.
         bindS (write_node_slots fs r (unat new_pblk) (eh_depth hdr) (drop split slots)) (\<lambda>_.
         case level of 0 \<Rightarrow> lift Panic
         | Suc l \<Rightarrow> insert_index_at_level fs r sp up_sep (unat new_pblk) l)))))"

declare insert_index_at_level.simps [simp del]

section \<open>Leaves\<close>

definition split_leaf :: "ext4 \<Rightarrow> inode_ref \<Rightarrow> search_path \<Rightarrow> extent \<Rightarrow> (jdev, inode_ref) io" where
  "split_leaf fs r sp new_extent =
     (let depth = unat (sp_depth sp); nk = ee_first_block new_extent in
      bindS (lift (path_node sp depth)) (\<lambda>node.
      let leaf_pblk = pn_pblock_of_node node in
      bindS (read_node_slots fs leaf_pblk) (\<lambda>(_, slots).
      if slots = [] then lift Panic
      else let orig_first = slot_first_block (slots ! 0);
               slots = insert_slot nk (extent_bytes new_extent) slots;
               split = length slots div 2; sep = slot_first_block (slots ! split);
               left_first = slot_first_block (slots ! 0) in
        bindS (balloc_alloc_block fs r None) (\<lambda>(new_pblk, r).
        bindS (write_node_slots fs r leaf_pblk 0 (take split slots)) (\<lambda>_.
        bindS (write_node_slots fs r (unat new_pblk) 0 (drop split slots)) (\<lambda>_.
        bindS (if left_first < orig_first
               then (case depth of 0 \<Rightarrow> lift Panic | Suc l \<Rightarrow> correct_parent_index fs r sp left_first l)
               else ret r) (\<lambda>r.
        case depth of 0 \<Rightarrow> lift Panic
        | Suc l \<Rightarrow> insert_index_at_level fs r sp sep (unat new_pblk) l)))))))"

text \<open>\<open>again\<close> stands for the nested call of \<open>insert_extent\<close>.\<close>

definition create_new_leaf ::
  "(inode_ref \<Rightarrow> (jdev, inode_ref) io) \<Rightarrow> ext4 \<Rightarrow> inode_ref \<Rightarrow> search_path \<Rightarrow> extent \<Rightarrow> (jdev, inode_ref) io" where
  "create_new_leaf again fs r sp new_extent =
     (if sp_depth sp = 0 then bindS (ext_grow_indepth fs r) again else split_leaf fs r sp new_extent)"

definition insert_new_extent ::
  "(inode_ref \<Rightarrow> (jdev, inode_ref) io) \<Rightarrow> ext4 \<Rightarrow> inode_ref \<Rightarrow> search_path \<Rightarrow> extent \<Rightarrow> (jdev, inode_ref) io" where
  "insert_new_extent again fs r sp new_extent =
     (let depth = unat (sp_depth sp); nk = ee_first_block new_extent in
      bindS (lift (path_node sp depth)) (\<lambda>node.
      let hdr = pn_header node in
      if depth = 0
      then if eh_entries_count hdr = eh_max_entries_count hdr then bindS (ext_grow_indepth fs r) again
        else bindS (lift (root_insert (ir_inode r) nk (extent_bytes new_extent) (unat (eh_entries_count hdr)))) (\<lambda>i.
             write_back_inode fs (r\<lparr> ir_inode := i \<rparr>))
      else let leaf_pblk = pn_pblock_of_node node in
        bindS (read_node_slots fs leaf_pblk) (\<lambda>(_, slots).
        let orig_first = (case slots of [] \<Rightarrow> nk | s # _ \<Rightarrow> slot_first_block s) in
        bindS (write_node_slots fs r leaf_pblk 0 (insert_slot nk (extent_bytes new_extent) slots)) (\<lambda>_.
        if slot_position nk slots = 0 \<and> nk < orig_first
        then correct_parent_index fs r sp nk (depth - 1) else ret r))))"

section \<open>Merging\<close>

definition can_merge :: "extent \<Rightarrow> extent \<Rightarrow> bool" where
  "can_merge ex1 ex2 \<longleftrightarrow>
     (let ext1_ee_len = unat (get_actual_len ex1); ext2_ee_len = unat (get_actual_len ex2) in
      is_unwritten ex1 = is_unwritten ex2
      \<and> ee_first_block ex1 + of_nat ext1_ee_len = ee_first_block ex2
      \<and> ext1_ee_len + ext2_ee_len \<le> unat EXT_INIT_MAX_LEN
      \<and> get_pblock ex1 + of_nat ext1_ee_len = get_pblock ex2)"

text \<open>The left extent with the length of the right one added; the flag is put back.\<close>

definition extend_by :: "extent \<Rightarrow> extent \<Rightarrow> extent" where
  "extend_by left right =
     (let e = left\<lparr> ee_block_count := get_actual_len left + get_actual_len right \<rparr> in
      if is_unwritten left then mark_unwritten e else e)"

text \<open>A node with more than four entries is a block: the extent at the position of the path is
  extended there too.\<close>

definition merge_extent :: "ext4 \<Rightarrow> search_path \<Rightarrow> extent \<Rightarrow> extent \<Rightarrow> (jdev, extent) io" where
  "merge_extent fs sp left_ext right_ext =
     bindS (lift (path_node sp (unat (sp_depth sp)))) (\<lambda>node.
     if 4 < eh_max_entries_count (pn_header node)
     then let pos = pn_pblock_of_node node * fs_block_size fs; off = 12 + 12 * pn_position node in
       bindS (jd_read pos (fs_block_size fs)) (\<lambda>data.
       if off + 12 \<le> length data
       then bindS (jd_write pos (put data off (extent_bytes (extend_by (extent_of_bytes (slice data off 12)) right_ext))))
              (\<lambda>_. ret (extend_by left_ext right_ext))
       else lift Undef)
     else ret (extend_by left_ext right_ext))"

text \<open>\<open>get_extent_from_node\<close> reads the block that the path node maps to (\<open>pblock\<close>), not the block of
  the node.\<close>

definition get_extent_from_node :: "ext4 \<Rightarrow> extent_path_node \<Rightarrow> nat \<Rightarrow> (jdev, extent) io" where
  "get_extent_from_node fs node pos =
     bindS (jd_read (unat (pn_pblock node) * fs_block_size fs) (fs_block_size fs)) (\<lambda>data.
     bindS (lift (unwrap (load_from_data data False))) (\<lambda>extent_node. lift (get_extent extent_node pos)))"

definition get_index_from_node :: "ext4 \<Rightarrow> extent_path_node \<Rightarrow> nat \<Rightarrow> (jdev, extent_index) io" where
  "get_index_from_node fs node pos =
     bindS (jd_read (unat (pn_pblock node) * fs_block_size fs) (fs_block_size fs)) (\<lambda>data.
     bindS (lift (unwrap (load_from_data data False))) (\<lambda>extent_node. lift (get_index extent_node pos)))"

text \<open>The three attempts to merge; \<open>None\<close> when none applies.\<close>

definition try_merge ::
  "ext4 \<Rightarrow> inode_ref \<Rightarrow> search_path \<Rightarrow> extent_path_node \<Rightarrow> extent \<Rightarrow> extent \<Rightarrow> (jdev, inode_ref option) io" where
  "try_merge fs r sp node ex newex =
     (let pos = pn_position node; last_extent_pos = unat (eh_entries_count (pn_header node)) - 1 in
      if can_merge ex newex
      then bindS (merge_extent fs sp ex newex) (\<lambda>ex.
           if pn_pblock_of_node node = 0
           then bindS (lift (root_slot_put (ir_inode r) pos (extent_bytes ex))) (\<lambda>i. ret (Some (r\<lparr> ir_inode := i \<rparr>)))
           else ret (Some r))
      else
      bindS (if pos < last_extent_pos \<and> ee_first_block ex + ucast (get_actual_len ex) < ee_first_block newex
             then bindS (get_extent_from_node fs node (pos + 1)) (\<lambda>next_extent.
                  if can_merge next_extent newex
                  then bindS (merge_extent fs sp newex next_extent) (\<lambda>_. ret True) else ret False)
             else ret False) (\<lambda>merged.
      if merged then ret (Some r)
      else if 0 < pos \<and> ee_first_block newex + ucast (get_actual_len newex) < ee_first_block ex
      then bindS (get_extent_from_node fs node (pos - 1)) (\<lambda>prev_extent.
           if can_merge prev_extent newex
           then bindS (merge_extent fs sp prev_extent newex) (\<lambda>_. ret (Some r)) else ret None)
      else ret None))"

section \<open>Insertion\<close>

definition insert_extent_step ::
  "(inode_ref \<Rightarrow> (jdev, inode_ref) io) \<Rightarrow> ext4 \<Rightarrow> inode_ref \<Rightarrow> extent \<Rightarrow> (jdev, inode_ref) io" where
  "insert_extent_step again fs r newex =
     bindS (find_extent (fs_block_size fs) r (ee_first_block newex)) (\<lambda>sp.
     bindS (lift (path_node sp (unat (sp_depth sp)))) (\<lambda>node.
     let hdr = pn_header node in
     if eh_entries_count hdr = 0 then insert_new_extent again fs r sp newex
     else bindS (case pn_extent node of None \<Rightarrow> ret None | Some ex \<Rightarrow> try_merge fs r sp node ex newex) (\<lambda>merged.
       case merged of Some r \<Rightarrow> ret r
       | None \<Rightarrow> if eh_entries_count hdr < eh_max_entries_count hdr then insert_new_extent again fs r sp newex
                 else create_new_leaf again fs r sp newex)))"

fun insert_extent_nested :: "nat \<Rightarrow> ext4 \<Rightarrow> extent \<Rightarrow> inode_ref \<Rightarrow> (jdev, inode_ref) io" where
  "insert_extent_nested 0 fs newex r = lift Panic"
| "insert_extent_nested (Suc n) fs newex r = insert_extent_step (insert_extent_nested n fs newex) fs r newex"

definition insert_extent :: "ext4 \<Rightarrow> inode_ref \<Rightarrow> extent \<Rightarrow> (jdev, inode_ref) io" where
  "insert_extent fs r newex = insert_extent_nested 2 fs newex r"

section \<open>The nesting of insertions\<close>

text \<open>A search path found by \<open>find_extent\<close> is as deep as the tree, so that \<open>insert_extent\<close> at depth 0
  is only reached again when the root did not grow.\<close>

lemma descend_depth:
  "descend bs lblock d node pon sp s = (Ok (node', pon', sp'), t) \<Longrightarrow> sp_depth sp' = sp_depth sp + of_nat d"
proof (induction d arbitrary: node pon sp s)
  case 0
  then show ?case by simp
next
  case (Suc d)
  then show ?case
    by (fastforce simp: Let_def bindS_eq_Ok push_path_def split: option.splits)
qed

lemma find_extent_depth:
  assumes "find_extent bs r lblock s = (Ok sp, t)"
  shows "sp_depth sp = root_header_depth (ir_inode r)"
proof -
  obtain node where node: "load_from_data (i_block (ir_inode r)) True = Ok node"
    using assms by (auto simp: find_extent_def split: res.splits)
  then have h: "eh_depth (en_header node) = root_header_depth (ir_inode r)"
    by (auto simp: load_from_data_def root_header_depth_def root_extent_header_def split: if_splits)
  obtain node' pon' sp' u where d: "descend bs lblock (unat (eh_depth (en_header node))) node 0 SearchPath_new s = (Ok (node', pon', sp'), u)"
    "sp_depth sp = sp_depth sp'"
    using assms node by (fastforce simp: find_extent_def bindS_eq_Ok push_path_def split: option.splits prod.splits)
  show ?thesis using descend_depth [OF d(1)] d(2) h by (simp add: SearchPath_new_def)
qed

lemma bind_io_cong: "m = m' \<Longrightarrow> (\<And>s a t. m' s = (Ok a, t) \<Longrightarrow> f a t = g a t) \<Longrightarrow> bindS m f = bindS m' g"
  by (auto simp: bindS_def fun_eq_iff split: prod.splits res.splits)

lemma insert_extent_step_cong:
  assumes "\<And>sp s t. find_extent (fs_block_size fs) r (ee_first_block e) s = (Ok sp, t) \<Longrightarrow>
    insert_new_extent a fs r sp e = insert_new_extent b fs r sp e
    \<and> create_new_leaf a fs r sp e = create_new_leaf b fs r sp e"
  shows "insert_extent_step a fs r e = insert_extent_step b fs r e"
  unfolding insert_extent_step_def
proof (rule bind_io_cong [OF refl])
  fix s sp t
  assume "find_extent (fs_block_size fs) r (ee_first_block e) s = (Ok sp, t)"
  from assms [OF this] have eq: "insert_new_extent a fs r sp e = insert_new_extent b fs r sp e"
    "create_new_leaf a fs r sp e = create_new_leaf b fs r sp e" by simp_all
  show "bindS (lift (path_node sp (unat (sp_depth sp)))) (\<lambda>node. let hdr = pn_header node
      in if eh_entries_count hdr = 0 then insert_new_extent a fs r sp e
         else bindS (case pn_extent node of None \<Rightarrow> ret None | Some ex \<Rightarrow> try_merge fs r sp node ex e)
           (case_option (if eh_entries_count hdr < eh_max_entries_count hdr then insert_new_extent a fs r sp e
              else create_new_leaf a fs r sp e) ret)) t
    = bindS (lift (path_node sp (unat (sp_depth sp)))) (\<lambda>node. let hdr = pn_header node
      in if eh_entries_count hdr = 0 then insert_new_extent b fs r sp e
         else bindS (case pn_extent node of None \<Rightarrow> ret None | Some ex \<Rightarrow> try_merge fs r sp node ex e)
           (case_option (if eh_entries_count hdr < eh_max_entries_count hdr then insert_new_extent b fs r sp e
              else create_new_leaf b fs r sp e) ret)) t"
    unfolding eq ..
qed

lemma insert_extent_step_deep:
  assumes "root_header_depth (ir_inode r) \<noteq> 0"
  shows "insert_extent_step a fs r e = insert_extent_step b fs r e"
proof -
  have "insert_new_extent a fs r sp e = insert_new_extent b fs r sp e
      \<and> create_new_leaf a fs r sp e = create_new_leaf b fs r sp e"
    if "find_extent (fs_block_size fs) r (ee_first_block e) s = (Ok sp, t)" for s t sp
    using assms find_extent_depth [OF that] by (simp add: insert_new_extent_def create_new_leaf_def unat_eq_0)
  then show ?thesis by (rule insert_extent_step_cong)
qed

text \<open>\<open>yields m P\<close>: whatever state \<open>m\<close> runs from, a value it returns satisfies \<open>P\<close>.\<close>

definition yields :: "('s, 'a) io \<Rightarrow> ('a \<Rightarrow> bool) \<Rightarrow> bool" where
  "yields m P \<longleftrightarrow> (\<forall>s a t. m s = (Ok a, t) \<longrightarrow> P a)"

lemma yieldsD: "yields m P \<Longrightarrow> m s = (Ok a, t) \<Longrightarrow> P a"
  by (auto simp: yields_def)

lemma yields_any [intro]: "yields m (\<lambda>_. True)"
  by (simp add: yields_def)

lemma yields_bind: "yields m Q \<Longrightarrow> (\<And>a. Q a \<Longrightarrow> yields (f a) P) \<Longrightarrow> yields (bindS m f) P"
  by (fastforce simp: yields_def bindS_eq_Ok)

lemma yields_then: "(\<And>a. yields (f a) P) \<Longrightarrow> yields (bindS m f) P"
  by (rule yields_bind [OF yields_any])

lemma yields_ret [simp]: "yields (ret a) P \<longleftrightarrow> P a" "yields (lift (Err e)) P" "yields (lift Panic) P" "yields (lift Undef) P"
  by (simp_all add: yields_def)

lemma yields_lift: "(\<And>a. x = Ok a \<Longrightarrow> P a) \<Longrightarrow> yields (lift x) P"
  by (simp add: yields_def)

text \<open>Writing an inode back and allocating a block leave its root alone.\<close>

abbreviation same_root :: "inode_ref \<Rightarrow> inode_ref \<Rightarrow> bool" where
  "same_root r r' \<equiv> i_block (ir_inode r') = i_block (ir_inode r)"

lemma bind_OkE: "bind x f = Ok b \<Longrightarrow> (\<And>a. x = Ok a \<Longrightarrow> f a = Ok b \<Longrightarrow> P) \<Longrightarrow> P"
  by (auto simp: bind_eq_Ok)

lemma set_checksum_root:
  assumes "set_inode_checksum_with_tail sb n tail i = Ok i'"
  shows "i_block i' = i_block i"
proof -
  obtain csum i1 where g: "get_inode_checksum_with_tail n sb tail i = Ok (csum, i1)" and i': "i_block i' = i_block i1"
    using assms unfolding set_inode_checksum_with_tail_def by (elim bind_OkE) (auto simp: Let_def split: if_splits)
  obtain c where "Ok (if sb_inode_size sb = 128 then c AND 0xFFFF else c,
      set_inode_checksum_value sb c (zero_checksum i)) = Ok (csum, i1)"
    using g unfolding get_inode_checksum_with_tail_def Let_def by (elim bind_OkE) blast
  then have "i1 = set_inode_checksum_value sb c (zero_checksum i)" by simp
  then show ?thesis using i' by (simp add: set_inode_checksum_value_def zero_checksum_def Let_def)
qed

lemma write_back_root: "yields (write_back_inode fs r) (same_root r)"
  unfolding write_back_inode_def Let_def
  by (rule yields_then, rule yields_then,
      rule yields_bind [OF yields_lift [of _ "\<lambda>i'. i_block i' = i_block (ir_inode r)"]],
      erule set_checksum_root, rule yields_then, simp)

lemma update_counts_root: "yields (update_free_block_counts fs r bg n) (same_root r)"
  unfolding update_free_block_counts_def Let_def
  by (rule yields_then, rule yields_then, rule yields_bind [OF write_back_root], rule yields_then)
     (simp add: set_inode_blocks_count_def Let_def)

lemma take_block_root: "yields (take_block fs r bg bgid bitmap pos idx) (\<lambda>(b, r'). same_root r r')"
  unfolding take_block_def Let_def
  by (rule yields_then, rule yields_then, rule yields_then, rule yields_bind [OF update_counts_root]) simp

lemma alloc_loop_root: "yields (alloc_loop fs r groups n bgid idx) (\<lambda>(b, r'). same_root r r')"
proof (induction n arbitrary: bgid idx)
  case (Suc n)
  show ?case
    unfolding alloc_loop.simps Let_def
    by (rule yields_then, rule if_split [THEN iffD2], intro conjI impI)
       (auto intro!: Suc.IH yields_then take_block_root split: option.split)
qed simp

lemma alloc_block_root: "yields (balloc_alloc_block fs r goal) (\<lambda>(b, r'). same_root r r')"
  unfolding balloc_alloc_block_def by (auto intro!: yields_then alloc_loop_root)

lemma grown_root_depth:
  assumes "length (i_block i) = 60"
  shows "length (i_block (grown_root i b first)) = 60"
    and "root_extent_header (grown_root i b first) = (root_extent_header i)\<lparr> eh_magic := EXT4_EXTENT_MAGIC,
      eh_entries_count := 1, eh_max_entries_count := 4, eh_depth := eh_depth (root_extent_header i) + 1 \<rparr>"
  using assms by (simp_all add: grown_root_def root_header_put_def Let_def root_extent_header_def length_put
      make_index_slot_def slice_put_below slice_put_same)

lemma grown_root_written:
  assumes "same_root r r1" and "length (i_block (ir_inode r)) = 60"
  shows "yields (write_back_inode fs (r1\<lparr> ir_inode := grown_root (ir_inode r1) b first \<rparr>))
      (\<lambda>r'. root_header_depth (ir_inode r') = root_header_depth (ir_inode r) + 1)"
  using write_back_root [of fs "r1\<lparr> ir_inode := grown_root (ir_inode r1) b first \<rparr>"]
    grown_root_depth(2) [of "ir_inode r1" b first] assms
  by (auto simp: yields_def root_header_depth_def root_extent_header_def)

lemma ext_grow_depth:
  assumes "length (i_block (ir_inode r)) = 60"
  shows "yields (ext_grow_indepth fs r) (\<lambda>r'. root_header_depth (ir_inode r') = root_header_depth (ir_inode r) + 1)"
  unfolding ext_grow_indepth_def Let_def
  by (rule yields_bind [OF alloc_block_root]) (auto intro!: yields_then grown_root_written [OF _ assms])

lemma insert_extent_step_again:
  assumes "\<And>r'. root_header_depth (ir_inode r') \<noteq> 0 \<Longrightarrow> a r' = b r'"
  shows "insert_extent_step a fs r e = insert_extent_step b fs r e"
proof (cases "root_header_depth (ir_inode r) = 0")
  case False
  then show ?thesis by (rule insert_extent_step_deep)
next
  case True
  have grow: "bindS (ext_grow_indepth fs r) a = bindS (ext_grow_indepth fs r) b" if "length (i_block (ir_inode r)) = 60"
    by (rule bind_io_cong [OF refl]) (use assms yieldsD [OF ext_grow_depth [OF that]] True in simp)
  have "insert_new_extent a fs r sp e = insert_new_extent b fs r sp e
      \<and> create_new_leaf a fs r sp e = create_new_leaf b fs r sp e"
    if "find_extent (fs_block_size fs) r (ee_first_block e) s = (Ok sp, t)" for s t sp
  proof -
    have "length (i_block (ir_inode r)) = 60"
      using that by (auto simp: find_extent_def load_from_data_def split: if_splits)
    from grow [OF this] show ?thesis by (simp add: insert_new_extent_def create_new_leaf_def cong: if_cong)
  qed
  then show ?thesis by (rule insert_extent_step_cong)
qed

lemma insert_extent_nested_enough: "insert_extent_nested (Suc (Suc n)) fs e r = insert_extent fs r e"
proof -
  have "insert_extent_nested (Suc n) fs e r' = insert_extent_nested 1 fs e r'"
    if "root_header_depth (ir_inode r') \<noteq> 0" for r'
    using insert_extent_step_deep [OF that] by simp
  then show ?thesis unfolding insert_extent_def numeral_2_eq_2
    by (simp only: insert_extent_nested.simps(2) [of "Suc _"]) (rule insert_extent_step_again, simp)
qed

text \<open>C24: insertion of an extent satisfies the recursion of the source, in which a grown root calls
  \<open>insert_extent\<close> again, and the recursion ends: however deep the nesting of the calls is allowed to
  be, a single nested call is all that happens, because a tree that grew has depth 1 or more and a
  tree of such depth is never grown by a leaf insertion.\<close>

theorem insert_extent_recursion:
  "insert_extent fs r e = insert_extent_step (\<lambda>r. insert_extent fs r e) fs r e
   \<and> insert_extent_nested (Suc (Suc n)) fs e r = insert_extent fs r e"
proof -
  have "insert_extent_nested 2 fs e = (\<lambda>r. insert_extent fs r e)" by (simp add: insert_extent_def fun_eq_iff)
  moreover have "insert_extent fs r e = insert_extent_nested (Suc 2) fs e r"
    unfolding insert_extent_nested_enough [of 1 fs e r, symmetric] by (simp only: numeral_2_eq_2 One_nat_def)
  ultimately have "insert_extent fs r e = insert_extent_step (\<lambda>r. insert_extent fs r e) fs r e"
    by (simp only: insert_extent_nested.simps(2))
  then show ?thesis using insert_extent_nested_enough by simp
qed

end
