(* ===== verification/FileRead.thy ===== *)
theory FileRead
  imports InodeStore
begin

text \<open>
  Reading a file: \<open>read_at\<close> of \<open>src/src/ext4_impls/file.rs\<close>. The buffer that the code fills in place is
  passed and returned; \<open>cursor\<close> and \<open>total_bytes_read\<close>, which are always equal, are one argument.

  The specification is the file as a function from byte positions to bytes (\<open>file_byte\<close>): positions in
  holes and in unwritten extents hold zeros, the others what the device holds at the mapped block.
\<close>

section \<open>The code\<close>

definition usize_add :: "nat \<Rightarrow> nat \<Rightarrow> nat" where
  "usize_add a b = (a + b) mod 2 ^ 64"

text \<open>One block of the file, from byte \<open>skip\<close> of it on.\<close>

definition read_part :: "nat \<Rightarrow> inode_ref \<Rightarrow> nat \<Rightarrow> nat \<Rightarrow> nat \<Rightarrow> bytes \<Rightarrow> nat \<Rightarrow> (jdev, bytes) io" where
  "read_part bs r iblock skip n buf cursor =
     bindS (get_pblock_state bs r (of_nat iblock)) (\<lambda>(pblock_idx, unwritten).
     if pblock_idx = 0 \<or> unwritten then lift (put_at buf cursor (replicate n 0))
     else bindS (jd_read (unat pblock_idx * bs) bs) (\<lambda>data.
          lift (bind (get_at data skip n) (put_at buf cursor))))"

function read_loop ::
  "nat \<Rightarrow> inode_ref \<Rightarrow> u64 \<Rightarrow> nat \<Rightarrow> nat \<Rightarrow> nat \<Rightarrow> nat \<Rightarrow> bytes \<Rightarrow> (jdev, nat \<times> bytes) io" where
  "read_loop bs r total_blocks len iblock_last iblock cursor buf =
     (if cursor < len \<and> iblock < iblock_last
      then let read_length = min bs (len - cursor);
               read_length = (if total_blocks - 1 \<le> of_nat iblock
                 then min read_length (unat (inode_size (ir_inode r)) - iblock * bs) else read_length) in
        bindS (read_part bs r iblock 0 read_length buf cursor) (\<lambda>buf.
        read_loop bs r total_blocks len iblock_last (iblock + 1) (cursor + read_length) buf)
      else ret (cursor, buf))"
  by pat_completeness auto
termination
  by (relation "measure (\<lambda>(bs, r, tb, len, lst, iblock, cursor, buf). lst - iblock)") auto

declare read_loop.simps [simp del]

definition read_at :: "ext4 \<Rightarrow> u32 \<Rightarrow> nat \<Rightarrow> bytes \<Rightarrow> (jdev, nat \<times> bytes) io" where
  "read_at fs ino offset buf =
     (let len = length buf; bs = fs_block_size fs in
      if len = 0 then ret (0, buf)
      else bindS (get_inode_ref fs ino) (\<lambda>r.
        let file_size = inode_size (ir_inode r) in
        if bs = 0 then lift Panic
        else let total_blocks = (file_size + of_nat bs - 1) div of_nat bs in
        if unat file_size \<le> offset then ret (0, buf)
        else let len = (if unat file_size < usize_add offset len then unat file_size - offset else len);
                 iblock_start = offset div bs;
                 iblock_last = min (usize_add (usize_add offset len) (bs - 1) div bs) (unat total_blocks);
                 unaligned_start_offset = offset mod bs in
        if 0 < unaligned_start_offset
        then let adjust_read_size = min (bs - unaligned_start_offset) len in
          bindS (read_part bs r iblock_start unaligned_start_offset adjust_read_size buf 0) (\<lambda>buf.
          read_loop bs r total_blocks len iblock_last (iblock_start + 1) adjust_read_size buf)
        else read_loop bs r total_blocks len iblock_last iblock_start 0 buf))"

section \<open>The file as bytes\<close>

definition file_byte :: "(nat \<Rightarrow> u8) \<Rightarrow> nat \<Rightarrow> extent list \<Rightarrow> nat \<Rightarrow> u8" where
  "file_byte v bs es k = (case lookup es (of_nat (k div bs)) of (p, unwritten) \<Rightarrow>
     if p = 0 \<or> unwritten then 0 else v (unat p * bs + k mod bs))"

definition file_bytes :: "(nat \<Rightarrow> u8) \<Rightarrow> nat \<Rightarrow> extent list \<Rightarrow> nat \<Rightarrow> nat \<Rightarrow> bytes" where
  "file_bytes v bs es off n = map (\<lambda>k. file_byte v bs es (off + k)) [0..<n]"

lemma length_file_bytes [simp]: "length (file_bytes v bs es off n) = n"
  by (simp add: file_bytes_def)

lemma file_bytes_append: "file_bytes v bs es off m @ file_bytes v bs es (off + m) n = file_bytes v bs es off (m + n)"
  by (rule nth_equalityI) (auto simp: file_bytes_def nth_append)

text \<open>An inode whose extent tree represents \<open>es\<close>.\<close>

definition maps_blocks :: "(nat \<Rightarrow> u8) \<Rightarrow> nat \<Rightarrow> inode \<Rightarrow> extent list \<Rightarrow> bool" where
  "maps_blocks v bs i es \<longleftrightarrow> (\<exists>root lo hi. load_from_data (i_block i) True = Ok root
     \<and> tree_of v bs (unat (eh_depth (en_header root))) root lo hi es)"

lemma get_pblock_state_maps:
  assumes "jd_inv s" and "maps_blocks (jd_view s) bs (ir_inode r) es"
  obtains u where "get_pblock_state bs r lblock s = (Ok (fst (lookup es lblock), u), s)"
    and "fst (lookup es lblock) \<noteq> 0 \<Longrightarrow> u = snd (lookup es lblock)"
  using assms(2) get_pblock_state_lookup [OF reads_view [OF assms(1)], of r _ bs _ _ es lblock]
  unfolding maps_blocks_def by metis

lemma get_inode_ref_eq:
  "jd_inv s \<Longrightarrow> inodes_ready fs \<Longrightarrow>
   get_inode_ref fs ino s = (Ok \<lparr> ir_inode_num = ino, ir_inode = inode_at fs (jd_view s) ino \<rparr>, s)"
  by (simp add: get_inode_ref_def inode_disk_pos_def inodes_ready_def bindS_def load_new_eq jd_read_view
      Let_def inode_at_def inode_pos_def inode_group_def desc_at_def desc_pos_def slice_image_read [where a = 0, simplified])

lemma read_part_ok:
  assumes "jd_inv s" and "maps_blocks (jd_view s) bs (ir_inode r) es"
    and "skip + n \<le> bs" and "cursor + n \<le> length buf"
  shows "read_part bs r iblock skip n buf cursor s =
    (Ok (put buf cursor (file_bytes (jd_view s) bs es (iblock * bs + skip) n)), s)"
proof -
  obtain u where u: "get_pblock_state bs r (of_nat iblock) s = (Ok (fst (lookup es (of_nat iblock)), u), s)"
    "fst (lookup es (of_nat iblock)) \<noteq> 0 \<Longrightarrow> u = snd (lookup es (of_nat iblock))"
    using get_pblock_state_maps [OF assms(1,2), of "of_nat iblock"] by blast
  let ?p = "fst (lookup es (of_nat iblock))"
  have pos: "(iblock * bs + skip + k) div bs = iblock" "(iblock * bs + skip + k) mod bs = skip + k" if "k < n" for k
    using that assms(3) by (simp_all add: add.assoc)
  have content: "file_bytes (jd_view s) bs es (iblock * bs + skip) n =
      (if ?p = 0 \<or> u then replicate n 0 else slice (image_read (jd_view s) (unat ?p * bs) bs) skip n)"
  proof (rule nth_equalityI)
    fix k assume "k < length (file_bytes (jd_view s) bs es (iblock * bs + skip) n)"
    then have k: "k < n" by simp
    then show "file_bytes (jd_view s) bs es (iblock * bs + skip) n ! k =
      (if ?p = 0 \<or> u then replicate n 0 else slice (image_read (jd_view s) (unat ?p * bs) bs) skip n) ! k"
      using assms(3) u(2) pos [OF k]
      by (simp add: file_bytes_def file_byte_def nth_slice nth_image_read add.assoc split: prod.split)
  qed (use assms(3) in simp)
  show ?thesis
    using assms(1,3,4) unfolding content
    by (simp add: read_part_def bindS_def u(1) jd_read_view get_at_Ok put_at_Ok)
qed

text \<open>A block lies before the last one exactly when its first byte lies before the end.\<close>

lemma block_before: "0 < bs \<Longrightarrow> i < (x + bs - 1) div bs \<longleftrightarrow> i * bs < (x :: nat)"
proof -
  assume bs: "0 < bs"
  have "i < (x + bs - 1) div bs \<longleftrightarrow> Suc i * bs \<le> x + bs - 1"
    using bs less_eq_div_iff_mult_less_eq [of bs "Suc i" "x + bs - 1"] by (simp add: Suc_le_eq)
  also have "\<dots> \<longleftrightarrow> i * bs < x" using bs by auto
  finally show ?thesis .
qed

lemma read_loop_ok:
  assumes "jd_inv s" and "maps_blocks (jd_view s) bs (ir_inode r) es" and "0 < bs"
    and size: "off + len \<le> unat (inode_size (ir_inode r))" "unat (inode_size (ir_inode r)) \<le> 2 ^ 32 * bs"
    and last: "\<And>i. i * bs < off + len \<Longrightarrow> i < lst"
    and "len \<le> length buf"
  shows "cursor = len \<or> cursor \<le> len \<and> off + cursor = iblock * bs \<Longrightarrow>
    read_loop bs r tb len lst iblock cursor (file_bytes (jd_view s) bs es off cursor @ drop cursor buf) s
      = (Ok (len, file_bytes (jd_view s) bs es off len @ drop len buf), s)"
proof (induction "lst - iblock" arbitrary: iblock cursor rule: less_induct)
  case less
  show ?case
  proof (cases "cursor < len")
    case False
    then have "cursor = len" using less.prems by auto
    then show ?thesis by (subst read_loop.simps) simp
  next
    case True
    let ?size = "unat (inode_size (ir_inode r))" and ?v = "jd_view s"
    have at: "off + cursor = iblock * bs" using less.prems True by simp
    have before: "iblock < lst" by (rule last) (use at True in simp)
    let ?n = "min bs (len - cursor)"
    let ?buf = "file_bytes ?v bs es off cursor @ drop cursor buf"
    have n: "(if tb - 1 \<le> of_nat iblock then min ?n (?size - iblock * bs) else ?n) = ?n"
      using at size(1) True by auto
    have part: "read_part bs r iblock 0 ?n ?buf cursor s =
        (Ok (put ?buf cursor (file_bytes ?v bs es (iblock * bs) ?n)), s)"
      using read_part_ok [OF assms(1,2), of 0 ?n cursor ?buf iblock] assms(7) True by simp
    have buf: "put ?buf cursor (file_bytes ?v bs es (iblock * bs) ?n)
        = file_bytes ?v bs es off (cursor + ?n) @ drop (cursor + ?n) buf"
      by (simp add: put_def at [symmetric] add.commute flip: file_bytes_append)
    have step: "read_loop bs r tb len lst iblock cursor ?buf s =
        read_loop bs r tb len lst (iblock + 1) (cursor + ?n)
          (file_bytes ?v bs es off (cursor + ?n) @ drop (cursor + ?n) buf) s"
      unfolding read_loop.simps [of bs r tb len lst iblock] Let_def n
      using True before by (simp add: bindS_def part buf)
    show ?thesis
      unfolding step by (rule less.hyps, use before in simp) (use at True in \<open>cases "bs \<le> len - cursor"; force\<close>)
  qed
qed

lemma ceil_blocks:
  assumes "0 < bs" and "bs \<le> 2 ^ 16" and "unat (sz :: u64) \<le> 2 ^ 48"
  shows "unat ((sz + of_nat bs - 1) div of_nat bs) = (unat sz + bs - 1) div bs"
proof -
  have eq: "sz + of_nat bs - 1 = of_nat (unat sz + bs - 1)" using assms(1) by (simp add: of_nat_diff)
  have "unat (sz + of_nat bs - 1) = unat sz + bs - 1"
    unfolding eq by (rule unat_of_nat_small) (use assms in simp)
  moreover have "unat (of_nat bs :: u64) = bs" using assms(2) by (simp add: unat_of_nat_small)
  ultimately show ?thesis by (simp add: unat_div)
qed

lemma read_at_bytes:
  fixes fs :: ext4 and s :: jdev and ino :: u32 and off :: nat and buf :: bytes
  defines "v \<equiv> jd_view s" and "bs \<equiv> fs_block_size fs"
  defines "i \<equiv> inode_at fs v ino"
  defines "n \<equiv> min (length buf) (unat (inode_size i) - off)"
  assumes "jd_inv s" and "inodes_ready fs" and maps: "maps_blocks v bs i es"
    and bs16: "bs \<le> 2 ^ 16" and size: "unat (inode_size i) \<le> 2 ^ 32 * bs" and buf: "length buf < 2 ^ 63"
  shows "read_at fs ino off buf s = (Ok (n, file_bytes v bs es off n @ drop n buf), s)"
proof (cases "buf = [] \<or> unat (inode_size i) \<le> off")
  case True
  have "bs \<noteq> 0" using \<open>inodes_ready fs\<close> by (auto simp: inodes_ready_def bs_def)
  then show ?thesis
    using True get_inode_ref_eq [OF assms(5,6), of ino]
    by (auto simp: read_at_def n_def bindS_def Let_def v_def i_def bs_def file_bytes_def)
next
  case False
  let ?r = "\<lparr> ir_inode_num = ino, ir_inode = i \<rparr>" and ?size = "unat (inode_size i)"
  have bs: "0 < bs" using assms(6) by (auto simp: inodes_ready_def bs_def)
  have off: "off < ?size" "0 < length buf" using False by auto
  have small: "?size \<le> 2 ^ 48" using size bs16 by simp
  have n: "(if ?size < usize_add off (length buf) then ?size - off else length buf) = n"
    "off + n \<le> ?size" "0 < n" "n \<le> length buf"
    using off small buf by (auto simp: usize_add_def n_def)
  have lst: "usize_add (usize_add off n) (bs - 1) = off + n + bs - 1"
    using n(2) small bs bs16 by (simp add: usize_add_def)
  let ?lst = "min ((off + n + bs - 1) div bs) ((?size + bs - 1) div bs)"
  have before: "k < ?lst" if "k * bs < off + n" for k
    using that n(2) block_before [OF bs, of k] by auto
  have tb: "unat ((inode_size i + of_nat bs - 1) div of_nat bs) = (?size + bs - 1) div bs"
    by (rule ceil_blocks [OF bs bs16 small])
  have loop: "read_loop bs ?r t n ?lst k c (file_bytes v bs es off c @ drop c buf) s
      = (Ok (n, file_bytes v bs es off n @ drop n buf), s)" if "c = n \<or> c \<le> n \<and> off + c = k * bs" for t k c
    unfolding v_def
    by (rule read_loop_ok [OF assms(5) _ bs]) (use maps n(2,4) size before that in \<open>auto simp: v_def\<close>)
  have get: "get_inode_ref fs ino s = (Ok ?r, s)"
    using get_inode_ref_eq [OF assms(5,6), of ino] by (simp flip: v_def i_def)
  have c: "(length buf = 0) = False" "(bs = 0) = False" "(?size \<le> off) = False" using bs off by auto
  have start: "read_at fs ino off buf s = (if 0 < off mod bs
      then bindS (read_part bs ?r (off div bs) (off mod bs) (min (bs - off mod bs) n) buf 0)
        (\<lambda>buf. read_loop bs ?r ((inode_size i + of_nat bs - 1) div of_nat bs) n ?lst (off div bs + 1) (min (bs - off mod bs) n) buf)
      else read_loop bs ?r ((inode_size i + of_nat bs - 1) div of_nat bs) n ?lst (off div bs) 0 buf) s"
    unfolding read_at_def Let_def bs_def [symmetric]
    by (simp only: bindS_Ok [of "get_inode_ref fs ino", OF get] inode_ref.select_convs c if_False n(1) lst tb)
  show ?thesis
  proof (cases "off mod bs = 0")
    case True
    then have "off = off div bs * bs" by (metis add_0 mod_div_mult_eq add.commute)
    then show ?thesis
      unfolding start using True loop [of 0 "off div bs"]
      by (simp add: file_bytes_def)
  next
    case False
    let ?m = "min (bs - off mod bs) n"
    have part: "read_part bs ?r (off div bs) (off mod bs) ?m buf 0 s =
        (Ok (put buf 0 (file_bytes v bs es (off div bs * bs + off mod bs) ?m)), s)"
      unfolding v_def by (rule read_part_ok [OF assms(5)]) (use maps n(4) mod_less_divisor [OF bs, of off] in \<open>auto simp: v_def min_def\<close>)
    have "put buf 0 (file_bytes v bs es (off div bs * bs + off mod bs) ?m) = file_bytes v bs es off ?m @ drop ?m buf"
      by (simp add: put_def)
    moreover have "?m = n \<or> ?m \<le> n \<and> off + ?m = (off div bs + 1) * bs"
    proof (cases "bs - off mod bs \<le> n")
      case True
      then have "?m = bs - off mod bs" by simp
      then have "off + ?m = off div bs * bs + bs"
        using mod_less_divisor [OF bs, of off] div_mult_mod_eq [of off bs] by linarith
      then show ?thesis by simp
    qed simp
    ultimately show ?thesis
      unfolding start using False part loop [of ?m "off div bs + 1"] by (simp add: bindS_def)
  qed
qed

section \<open>Reads\<close>

text \<open>C10: a read returns the bytes of the file. For every offset and every buffer, aligned or not, it
  returns the number of bytes between the offset and the end of the file, at most the length of the
  buffer; that part of the buffer holds the bytes of the file, where holes and preallocated blocks
  read as zeros, and the rest of the buffer is as before. Nothing is written, no error is returned,
  and nothing panics. The extent tree may have any depth, and an open transaction's writes are seen.\<close>

theorem read_at_correct:
  fixes fs :: ext4 and s :: jdev and ino :: u32 and off :: nat and buf :: bytes
  defines "v \<equiv> jd_view s" and "bs \<equiv> fs_block_size fs"
  defines "i \<equiv> inode_at fs v ino"
  defines "n \<equiv> min (length buf) (unat (inode_size i) - off)"
  assumes "jd_inv s" and "inodes_ready fs" and "maps_blocks v bs i es" and "bs \<le> 2 ^ 16"
    and "unat (inode_size i) \<le> 2 ^ 32 * bs" and "length buf < 2 ^ 63"
  shows "read_at fs ino off buf s = (Ok (n, file_bytes v bs es off n @ drop n buf), s)"
  using assms(5-) unfolding assms(1-4) by (rule read_at_bytes)

text \<open>A file of 10000 bytes in \<open>tiny\<close>: blocks 0 and 1 are a hole, block 2 is at 100 and begins with
  abc.\<close>

definition sample_file :: inode where
  "sample_file = (inode_of_bytes (replicate 156 0))\<lparr> i_block := sample_root, i_size_lo := 10000, i_size_hi := 0 \<rparr>"

definition file_image :: "nat \<Rightarrow> u8" where
  "file_image = image_write (image_write tiny_image 204800 [97, 98, 99]) 19200 (inode_bytes sample_file)"

definition file_dev :: jdev where
  "file_dev = JournalDevice_new \<lparr> dk_image = file_image, dk_events = [] \<rparr> 2048"

lemma file_dev [simp]: "jd_inv file_dev" "jd_view file_dev = file_image"
  by (simp_all add: file_dev_def jd_inv_def jd_view_def JournalDevice_new_def)

lemma length_sample_file [simp]: "length (i_block sample_file) = 60"
  by (simp add: sample_file_def)

lemma file_inode: "inode_at tiny_fs file_image 12 = sample_file"
proof -
  have "desc_at file_image tiny_sb 0 = desc_at tiny_image tiny_sb 0"
    by (simp add: file_image_def desc_at_def desc_pos_def read_apart apart_def)
  then have "inode_pos tiny_fs file_image 12 = 19200"
    by (simp add: inode_pos_def inode_group_def saturating_sub_def)
  then show ?thesis
    using inode_roundtrip [of sample_file "[]"] by (simp add: inode_at_def file_image_def read_written)
qed

lemma file_maps: "maps_blocks v bs sample_file [sample_extent]"
  unfolding maps_blocks_def
  using sample_root_load sample_tree [of v bs]
  by (intro exI [of _ sample_node] exI) (simp_all add: sample_ref_def sample_file_def sample_node_def)

theorem read_at_correct_witness:
  "fst (read_at tiny_fs 12 4094 (replicate 5 1) file_dev) = Ok (5, [0, 0, 97, 98, 99])"
proof -
  have size: "inode_size sample_file = 10000" by (simp add: inode_size_def sample_file_def)
  have "read_at tiny_fs 12 4094 (replicate 5 1) file_dev =
      (Ok (5, file_bytes file_image 2048 [sample_extent] 4094 5), file_dev)"
    using read_at_correct [of file_dev tiny_fs 12 "[sample_extent]" "replicate 5 1" 4094]
    by (simp add: file_inode file_maps size)
  moreover have "file_bytes file_image 2048 [sample_extent] 4094 5 = [0, 0, 97, 98, 99]"
    by (simp add: file_bytes_def file_byte_def lookup_def covers_def sample_extent_def get_actual_len_def
        is_unwritten_def EXT_INIT_MAX_LEN_def get_pblock_def upt_rec file_image_def image_write_def)
  ultimately show ?thesis by simp
qed

end
