(* ===== verification/MapBlocks.thy ===== *)
theory MapBlocks
  imports ExtentInsert FileRead
begin

text \<open>
  Allocating and mapping blocks of a file (the rest of \<open>src/src/ext4_impls/inode.rs\<close>): the allocation of a
  block near an inode, appending one block or a batch, and \<open>map_inode_pblk_batch\<close>, which cuts the
  allocated blocks into runs and inserts an extent for each.

  \<open>batch_extents\<close> is the specification of the batch: the extents it inserts map the new logical
  blocks, one after the other, to the allocated blocks in their order.
\<close>

section \<open>Allocation near an inode\<close>

definition allocate_new_block :: "ext4 \<Rightarrow> inode_ref \<Rightarrow> (jdev, u64 \<times> inode_ref) io" where
  "allocate_new_block fs r =
     bindS read_super_block (\<lambda>sb.
     let ipg = inodes_per_group sb in
     if ipg = 0 then lift Panic
     else let bgid = (ir_inode_num r - 1) div ipg; index = (ir_inode_num r - 1) mod ipg in
     bindS (load_new sb (unat bgid)) (\<lambda>bg.
     let pos = unat (get_block_bitmap_block sb bg) * fs_block_size fs in
     bindS (jd_read pos (fs_block_size fs)) (\<lambda>data.
     bindS (lift (ext4_bmap_bit_find_clr data index (blocks_per_group sb))) (\<lambda>found.
     let rel_blk_idx = (case found of Some i \<Rightarrow> i | None \<Rightarrow> 0) in
     bindS (lift (ext4_bmap_bit_set data rel_blk_idx)) (\<lambda>data.
     bindS (lift (set_block_group_balloc_bitmap_csum sb data bg)) (\<lambda>bg.
     bindS (jd_write pos data) (\<lambda>_.
     bindS (sync_to_disk_with_csum (set_free_blocks_count (free_blocks_count sb - 1) sb)) (\<lambda>sb.
     let inode_blocks = inode_blocks_count (ir_inode r) + of_nat (fs_block_size fs div EXT4_INODE_BLOCK_SIZE) in
     bindS (write_back_inode fs (r\<lparr> ir_inode := set_inode_blocks_count inode_blocks (ir_inode r) \<rparr>)) (\<lambda>r.
     let bg = bg_set_free_blocks_count (ucast (get_free_blocks_count bg - 1)) bg in
     bindS (bg_sync_to_disk_with_csum sb (unat bgid) bg) (\<lambda>_.
     ret (ucast rel_blk_idx, r)))))))))))"

section \<open>Appending a block\<close>

definition EXT_MAX_BLOCKS :: u32 where "EXT_MAX_BLOCKS = 0xFFFFFFFF"

text \<open>The number of blocks that the size of the inode takes, as a logical block number.\<close>

definition size_in_blocks :: "nat \<Rightarrow> inode \<Rightarrow> u32 res" where
  "size_in_blocks bs i =
     (if bs = 0 then Panic else Ok (of_nat (usize_add (unat (inode_size i)) (bs - 1) div bs)))"

definition new_extent_at :: "u32 \<Rightarrow> u64 \<Rightarrow> u16 \<Rightarrow> extent" where
  "new_extent_at iblock pblock n = store_pblock pblock
     \<lparr> ee_first_block = iblock, ee_block_count = n, ee_start_hi = 0, ee_start_lo = 0 \<rparr>"

text \<open>What both versions do once they have a block.\<close>

definition append_block :: "ext4 \<Rightarrow> u32 \<Rightarrow> u64 \<Rightarrow> inode_ref \<Rightarrow> (jdev, u64 \<times> inode_ref) io" where
  "append_block fs iblock new_block r =
     bindS (insert_extent fs r (new_extent_at iblock new_block (ucast (min 1 (EXT_MAX_BLOCKS - iblock))))) (\<lambda>r.
     bindS (write_back_inode fs (r\<lparr> ir_inode := set_size (inode_size (ir_inode r) + of_nat (fs_block_size fs)) (ir_inode r) \<rparr>)) (\<lambda>r.
     ret (new_block, r)))"

definition append_inode_pblk :: "ext4 \<Rightarrow> inode_ref \<Rightarrow> (jdev, u64 \<times> inode_ref) io" where
  "append_inode_pblk fs r =
     bindS (lift (size_in_blocks (fs_block_size fs) (ir_inode r))) (\<lambda>iblock.
     bindS (balloc_alloc_block fs r None) (\<lambda>(new_block, r). append_block fs iblock new_block r))"

definition append_inode_pblk_from :: "ext4 \<Rightarrow> inode_ref \<Rightarrow> u32 \<Rightarrow> (jdev, u64 \<times> inode_ref \<times> u32) io" where
  "append_inode_pblk_from fs r start_bgid =
     bindS (lift (size_in_blocks (fs_block_size fs) (ir_inode r))) (\<lambda>iblock.
     bindS (balloc_alloc_block_from fs r start_bgid) (\<lambda>(new_block, r, start_bgid).
     bindS (append_block fs iblock new_block r) (\<lambda>(b, r). ret (b, r, start_bgid))))"

section \<open>Inode formats\<close>

text \<open>\<open>DirEntryType::from_bits\<close> accepts the bits of the constants 0 to 7.\<close>

definition correspond_inode_mode :: "u8 \<Rightarrow> u16 res" where
  "correspond_inode_mode filetype =
     (if filetype AND NOT 7 \<noteq> 0 then Panic
      else Ok (if filetype = 1 then S_IFREG else if filetype = 2 then S_IFDIR
        else if filetype = 7 then S_IFLNK else if filetype = 3 then 0x2000
        else if filetype = 4 then 0x6000 else if filetype = 5 then 0x1000
        else if filetype = 6 then 0xC000 else S_IFREG))"

section \<open>Batches\<close>

definition is_valid_extent :: "extent \<Rightarrow> bool" where
  "is_valid_extent e \<longleftrightarrow> ee_first_block e < EXT_MAX_BLOCKS
     \<and> ee_block_count e \<noteq> 0 \<and> ee_block_count e \<le> EXT_INIT_MAX_LEN
     \<and> unat (ee_first_block e) + unat (ee_block_count e) < 2 ^ 32
     \<and> ee_first_block e + ucast (ee_block_count e) \<le> EXT_MAX_BLOCKS
     \<and> get_pblock e \<noteq> 0"

text \<open>Runs of consecutive blocks: the segment being built, the block before, the blocks left.\<close>

fun segments :: "u64 list \<Rightarrow> u64 \<Rightarrow> u64 list \<Rightarrow> u64 list list" where
  "segments current prev [] = (if current = [] then [] else [current])"
| "segments current prev (b # bs) =
     (if b = prev + 1 then segments (current @ [b]) b bs else current # segments [b] b bs)"

definition contiguous_segments :: "u64 list \<Rightarrow> u64 list list" where
  "contiguous_segments blocks = (case blocks of [] \<Rightarrow> [] | b # bs \<Rightarrow> segments [b] b bs)"

definition max_extent_length :: "bool \<Rightarrow> nat" where
  "max_extent_length unwritten = (if unwritten then unat EXT_INIT_MAX_LEN - 1 else unat EXT_INIT_MAX_LEN)"

function map_segment ::
  "ext4 \<Rightarrow> bool \<Rightarrow> u64 list \<Rightarrow> nat \<Rightarrow> u32 \<Rightarrow> inode_ref \<Rightarrow> (jdev, u32 \<times> inode_ref) io" where
  "map_segment fs unwritten segment segment_start current_iblk r =
     (if segment_start < length segment
      then let n = min (max_extent_length unwritten) (length segment - segment_start);
               newex = new_extent_at current_iblk (segment ! segment_start) (of_nat n) in
        if \<not> is_valid_extent newex then lift (Err EINVAL)
        else bindS (insert_extent fs r (if unwritten then mark_unwritten newex else newex)) (\<lambda>r.
          if 2 ^ 32 \<le> unat current_iblk + n then lift (Err EINVAL)
          else map_segment fs unwritten segment (segment_start + n) (current_iblk + of_nat n) r)
      else ret (current_iblk, r))"
  by pat_completeness auto
termination
  by (relation "measure (\<lambda>(fs, u, segment, segment_start, iblk, r). length segment - segment_start)")
     (auto simp: max_extent_length_def EXT_INIT_MAX_LEN_def)

declare map_segment.simps [simp del]

fun map_segments :: "ext4 \<Rightarrow> bool \<Rightarrow> u64 list list \<Rightarrow> u32 \<Rightarrow> inode_ref \<Rightarrow> (jdev, inode_ref) io" where
  "map_segments fs unwritten [] iblk r = ret r"
| "map_segments fs unwritten (segment # rest) iblk r =
     bindS (map_segment fs unwritten segment 0 iblk r) (\<lambda>(iblk, r). map_segments fs unwritten rest iblk r)"

definition map_inode_pblk_batch ::
  "ext4 \<Rightarrow> inode_ref \<Rightarrow> u32 \<Rightarrow> u32 \<Rightarrow> nat \<Rightarrow> bool \<Rightarrow> (jdev, u64 list \<times> inode_ref \<times> u32) io" where
  "map_inode_pblk_batch fs r start_bgid start_lblock block_count unwritten =
     bindS (balloc_alloc_block_batch fs r start_bgid block_count) (\<lambda>(blocks, r, start_bgid).
     if blocks = [] then ret ([], r, start_bgid)
     else bindS (map_segments fs unwritten (contiguous_segments blocks) start_lblock r) (\<lambda>r.
       ret (blocks, r, start_bgid)))"

text \<open>The last extent of the tree. At depth 0 the code takes the first eight bytes of the root, its
  header, for the number of the block with the extents.\<close>

definition root_extent_block :: "inode \<Rightarrow> u64" where
  "root_extent_block i = le_get 0 8 (i_block i)"

definition load_node :: "ext4 \<Rightarrow> u64 \<Rightarrow> (jdev, extent_header \<times> bytes) io" where
  "load_node fs b = bindS (jd_read (unat b * fs_block_size fs) (fs_block_size fs)) (\<lambda>data.
     if length data < 12 then lift Undef else ret (header_of_bytes (slice data 0 12), data))"

fun last_leaf :: "ext4 \<Rightarrow> nat \<Rightarrow> u64 \<Rightarrow> (jdev, u64) io" where
  "last_leaf fs 0 b = ret b"
| "last_leaf fs (Suc depth) b =
     bindS (load_node fs b) (\<lambda>(h, data).
     if eh_entries_count h = 0 then lift (Err ENOENT)
     else bindS (lift (load_index (Internal data) (unat (eh_entries_count h - 1)))) (\<lambda>ix.
       last_leaf fs depth (ucast (ei_leaf_lo ix) OR push_bit 32 (ucast (ei_leaf_hi ix)))))"

definition get_last_extent :: "ext4 \<Rightarrow> inode_ref \<Rightarrow> (jdev, extent) io" where
  "get_last_extent fs r =
     (let root = root_extent_header (ir_inode r) in
      if eh_entries_count root = 0 then lift (Err ENOENT)
      else bindS (last_leaf fs (unat (eh_depth root)) (root_extent_block (ir_inode r))) (\<lambda>b.
        bindS (load_node fs b) (\<lambda>(h, data).
        if eh_entries_count h = 0 then lift (Err ENOENT)
        else lift (load_extent (Internal data) (unat (eh_entries_count h - 1))))))"

definition or_value :: "('s, 'a) io \<Rightarrow> 'a \<Rightarrow> ('s, 'a) io" where
  "or_value m a s = (case m s of (Err _, t) \<Rightarrow> (Ok a, t) | (r, t) \<Rightarrow> (r, t))"

definition append_inode_pblk_batch ::
  "ext4 \<Rightarrow> inode_ref \<Rightarrow> u32 \<Rightarrow> nat \<Rightarrow> (jdev, u64 list \<times> inode_ref \<times> u32) io" where
  "append_inode_pblk_batch fs r start_bgid block_count =
     (let inode_sz = inode_size (ir_inode r) in
      bindS (lift (size_in_blocks (fs_block_size fs) (ir_inode r))) (\<lambda>iblock.
      bindS (if 0 < eh_entries_count (root_extent_header (ir_inode r))
             then or_value (bindS (get_last_extent fs r) (\<lambda>e. ret (ee_first_block e + ucast (ee_block_count e)))) iblock
             else ret 0) (\<lambda>last_extent_end.
      bindS (map_inode_pblk_batch fs r start_bgid (max iblock last_extent_end) block_count False) (\<lambda>(blocks, r, start_bgid).
      if blocks = [] then ret ([], r, start_bgid)
      else if 2 ^ 64 \<le> unat inode_sz + length blocks * fs_block_size fs then lift (Err EINVAL)
      else bindS (write_back_inode fs (r\<lparr> ir_inode :=
               set_size (inode_sz + of_nat (length blocks * fs_block_size fs)) (ir_inode r) \<rparr>)) (\<lambda>r.
           ret (blocks, r, start_bgid))))))"


section \<open>The extents of a batch\<close>

definition run_extent :: "bool \<Rightarrow> u32 \<Rightarrow> u64 list \<Rightarrow> extent" where
  "run_extent unwritten iblk blocks =
     (let e = new_extent_at iblk (hd blocks) (of_nat (length blocks)) in
      if unwritten then mark_unwritten e else e)"

function chunk_extents :: "bool \<Rightarrow> u32 \<Rightarrow> u64 list \<Rightarrow> extent list" where
  "chunk_extents unwritten iblk blocks =
     (if blocks = [] then []
      else let n = min (max_extent_length unwritten) (length blocks) in
        run_extent unwritten iblk (take n blocks) # chunk_extents unwritten (iblk + of_nat n) (drop n blocks))"
  by pat_completeness auto
termination
  by (relation "measure (\<lambda>(u, iblk, blocks). length blocks)") (auto simp: max_extent_length_def EXT_INIT_MAX_LEN_def)

declare chunk_extents.simps [simp del]

fun segment_extents :: "bool \<Rightarrow> u32 \<Rightarrow> u64 list list \<Rightarrow> extent list" where
  "segment_extents unwritten iblk [] = []"
| "segment_extents unwritten iblk (s # ss) =
     chunk_extents unwritten iblk s @ segment_extents unwritten (iblk + of_nat (length s)) ss"

definition batch_extents :: "bool \<Rightarrow> u32 \<Rightarrow> u64 list \<Rightarrow> extent list" where
  "batch_extents unwritten start blocks = segment_extents unwritten start (contiguous_segments blocks)"

definition consecutive :: "u64 list \<Rightarrow> bool" where
  "consecutive blocks \<longleftrightarrow> (\<forall>k < length blocks. blocks ! k = hd blocks + of_nat k)"

lemma consecutive_snoc:
  "consecutive (xs @ [y]) \<longleftrightarrow> consecutive xs \<and> (xs \<noteq> [] \<longrightarrow> y = last xs + 1)"
proof (cases "xs = []")
  case False
  then have l: "last xs = xs ! (length xs - 1)" "hd (xs @ [y]) = hd xs" "0 < length xs" by (simp_all add: last_conv_nth)
  have "consecutive (xs @ [y]) \<longleftrightarrow> consecutive xs \<and> y = hd xs + of_nat (length xs)"
    unfolding consecutive_def l(2) by (auto simp: less_Suc_eq nth_append)
  moreover have "consecutive xs \<Longrightarrow> last xs + 1 = hd xs + of_nat (length xs)"
    using l(3) unfolding consecutive_def l(1) by (cases "length xs") (auto simp: add.assoc)
  ultimately show ?thesis using False by auto
qed (simp add: consecutive_def)

lemma segments_props:
  "current \<noteq> [] \<Longrightarrow> prev = last current \<Longrightarrow> consecutive current \<Longrightarrow>
   concat (segments current prev bs) = current @ bs
   \<and> (\<forall>s \<in> set (segments current prev bs). s \<noteq> [] \<and> consecutive s)"
  by (induction current prev bs rule: segments.induct)
     (auto simp: consecutive_snoc, auto simp: consecutive_def)

lemma contiguous_segments_props:
  "concat (contiguous_segments blocks) = blocks"
  "s \<in> set (contiguous_segments blocks) \<Longrightarrow> s \<noteq> [] \<and> consecutive s"
proof -
  have one: "consecutive [b]" for b by (simp add: consecutive_def)
  show "concat (contiguous_segments blocks) = blocks"
    using segments_props [OF _ _ one] by (simp add: contiguous_segments_def split: list.split)
  show "s \<in> set (contiguous_segments blocks) \<Longrightarrow> s \<noteq> [] \<and> consecutive s"
    using segments_props [OF _ _ one] by (auto simp: contiguous_segments_def split: list.splits)
qed

lemma consecutive_take: "consecutive xs \<Longrightarrow> consecutive (take n xs)"
  by (cases xs) (auto simp: consecutive_def hd_take)

lemma consecutive_drop: "consecutive xs \<Longrightarrow> consecutive (drop n xs)"
proof (cases "n < length xs")
  case True
  assume "consecutive xs"
  then show ?thesis using True by (auto simp: consecutive_def hd_drop_conv_nth)
qed (simp add: consecutive_def)

lemma get_store_pblock: "b < 2 ^ 48 \<Longrightarrow> get_pblock (store_pblock b e) = b"
proof -
  assume "b < 2 ^ 48"
  then have "take_bit 48 b = b"
    by (intro unsigned_word_eqI [where 'a = nat]) (simp add: unsigned_take_bit_eq take_bit_nat_eq_self word_less_nat_alt)
  then show ?thesis using low48 [of b] by (simp add: get_pblock_def store_pblock_def or.commute)
qed

text \<open>The length field of an extent of \<open>n\<close> blocks, initialised or not.\<close>

lemma marked_fields:
  fixes n u e
  defines "e' \<equiv> if u then mark_unwritten e else e"
  assumes raw: "ee_block_count e = of_nat n" and n: "0 < n" "n \<le> 32768" "u \<Longrightarrow> n < 32768"
  shows "is_unwritten e' = u" and "get_actual_len e' = of_nat n" and "unat (get_actual_len e') = n"
    and "ee_first_block e' = ee_first_block e" and "get_pblock e' = get_pblock e"
proof -
  let ?n = "of_nat n :: u16"
  have un: "unat ?n = n" using n by (simp add: unat_of_nat_small)
  have raw': "ee_block_count e' = (if u then ?n OR 0x8000 else ?n)"
    by (simp add: e'_def raw mark_unwritten_def EXT_INIT_MAX_LEN_def)
  have sum: "?n OR 0x8000 = ?n + 0x8000" if u
  proof (rule disjunctive_add [symmetric])
    fix k
    have "?n < 2 ^ 15" using n(3) [OF that] un by (simp add: word_less_nat_alt)
    then have "\<not> bit ?n 15" by (simp add: bit_iff_odd div_word_less)
    moreover have "bit (0x8000 :: u16) k \<longleftrightarrow> k = 15" using bit_exp_iff [of 15 k, where 'a = "16 word"] by auto
    ultimately show "\<not> bit ?n k \<or> \<not> bit (0x8000 :: u16) k" by blast
  qed
  show iu: "is_unwritten e' = u"
    unfolding is_unwritten_def raw' EXT_INIT_MAX_LEN_def
    using sum un n by (auto simp: word_less_nat_alt unat_word_ariths)
  show al: "get_actual_len e' = ?n"
    unfolding get_actual_len_def iu raw' EXT_INIT_MAX_LEN_def using sum by simp
  show "unat (get_actual_len e') = n" using al un by simp
  show "ee_first_block e' = ee_first_block e" "get_pblock e' = get_pblock e"
    by (simp_all add: e'_def mark_unwritten_def get_pblock_def)
qed

text \<open>A run of blocks as one extent.\<close>

lemma run_extent_fields:
  assumes "blocks \<noteq> []" and "length blocks \<le> max_extent_length unwritten" and "hd blocks < 2 ^ 48"
  shows "ee_first_block (run_extent unwritten iblk blocks) = iblk"
    and "is_unwritten (run_extent unwritten iblk blocks) = unwritten"
    and "get_actual_len (run_extent unwritten iblk blocks) = of_nat (length blocks)"
    and "get_pblock (run_extent unwritten iblk blocks) = hd blocks"
    and "unat (get_actual_len (run_extent unwritten iblk blocks)) = length blocks"
proof -
  let ?e = "new_extent_at iblk (hd blocks) (of_nat (length blocks))"
  have len: "0 < length blocks" "length blocks \<le> 32768" "unwritten \<Longrightarrow> length blocks < 32768"
    using assms(1,2) by (auto simp: max_extent_length_def EXT_INIT_MAX_LEN_def split: if_splits)
  have "ee_block_count ?e = of_nat (length blocks)" by (simp add: new_extent_at_def store_pblock_def Let_def)
  note f = marked_fields [OF this len]
  have "ee_first_block ?e = iblk" "get_pblock ?e = hd blocks"
    using get_store_pblock [OF assms(3)] by (simp_all add: new_extent_at_def get_pblock_def store_pblock_def Let_def)
  then show "ee_first_block (run_extent unwritten iblk blocks) = iblk"
    "is_unwritten (run_extent unwritten iblk blocks) = unwritten"
    "get_actual_len (run_extent unwritten iblk blocks) = of_nat (length blocks)"
    "get_pblock (run_extent unwritten iblk blocks) = hd blocks"
    "unat (get_actual_len (run_extent unwritten iblk blocks)) = length blocks"
    using f unfolding run_extent_def Let_def by simp_all
qed

text \<open>\<open>maps_run es a xs u\<close>: the extents \<open>es\<close> map exactly the blocks from \<open>a\<close> on, to the blocks \<open>xs\<close>.\<close>

definition maps_run :: "extent list \<Rightarrow> u32 \<Rightarrow> u64 list \<Rightarrow> bool \<Rightarrow> bool" where
  "maps_run es a xs u \<longleftrightarrow> (\<forall>l.
     (\<exists>e \<in> set es. covers e l) = (unat a \<le> unat l \<and> unat l < unat a + length xs)
     \<and> (unat a \<le> unat l \<and> unat l < unat a + length xs \<longrightarrow> lookup es l = (xs ! (unat l - unat a), u)))"

lemma lookup_append: "lookup (es @ fs) l = (if \<exists>e \<in> set es. covers e l then lookup es l else lookup fs l)"
proof -
  have "find P (es @ fs) = (if \<exists>e \<in> set es. P e then find P es else find P fs)" for P
    by (induction es) auto
  then show ?thesis by (simp add: lookup_def)
qed

lemma maps_run_append:
  assumes "maps_run es a xs u" and "maps_run fs (a + of_nat (length xs)) ys u" and "unat a + length xs < 2 ^ 32"
  shows "maps_run (es @ fs) a (xs @ ys) u"
proof -
  have b: "unat (a + of_nat (length xs)) = unat a + length xs"
    using assms(3) by (simp add: unat_add_less unat_of_nat_small)
  show ?thesis
    unfolding maps_run_def
  proof (intro allI conjI impI)
    fix l
    note x = assms(1) [unfolded maps_run_def, rule_format, of l]
    note y = assms(2) [unfolded maps_run_def, rule_format, of l, unfolded b]
    show "(\<exists>e \<in> set (es @ fs). covers e l) = (unat a \<le> unat l \<and> unat l < unat a + length (xs @ ys))"
      unfolding set_append bex_Un conjunct1 [OF x] conjunct1 [OF y] by auto
    assume "unat a \<le> unat l \<and> unat l < unat a + length (xs @ ys)"
    then show "lookup (es @ fs) l = ((xs @ ys) ! (unat l - unat a), u)"
      unfolding lookup_append conjunct1 [OF x] using conjunct2 [OF x] conjunct2 [OF y]
      by (auto simp: nth_append not_less)
  qed
qed

lemma maps_run_one:
  assumes "blocks \<noteq> []" and "consecutive blocks" and "length blocks \<le> max_extent_length u"
    and "hd blocks < 2 ^ 48" and "unat a + length blocks < 2 ^ 32"
  shows "maps_run [run_extent u a blocks] a blocks u"
proof -
  note f = run_extent_fields [OF assms(1,3,4), of a]
  have c: "covers (run_extent u a blocks) l = (unat a \<le> unat l \<and> unat l < unat a + length blocks)" for l
    by (simp add: covers_def f(1,5))
  have "get_pblock (run_extent u a blocks) + ucast (l - a) = blocks ! (unat l - unat a)"
    if "unat a \<le> unat l" "unat l < unat a + length blocks" for l
  proof -
    have "(ucast (l - a) :: u64) = of_nat (unat (l - a))" by simp
    moreover have "unat (l - a) = unat l - unat a" using that(1) by (simp add: unat_sub word_le_nat_alt)
    moreover have "blocks ! (unat l - unat a) = hd blocks + of_nat (unat l - unat a)"
      using assms(2) that unfolding consecutive_def by simp
    ultimately show ?thesis by (simp add: f(4))
  qed
  then show ?thesis by (simp add: maps_run_def c lookup_def f(1,2))
qed

lemma maps_run_chunks:
  "consecutive blocks \<Longrightarrow> \<forall>b \<in> set blocks. b < 2 ^ 48 \<Longrightarrow> unat a + length blocks < 2 ^ 32 \<Longrightarrow>
   maps_run (chunk_extents u a blocks) a blocks u"
proof (induction u a blocks rule: chunk_extents.induct)
  case (1 u a blocks)
  show ?case
  proof (cases "blocks = []")
    case True
    then show ?thesis by (subst chunk_extents.simps) (auto simp: maps_run_def)
  next
    case False
    let ?n = "min (max_extent_length u) (length blocks)"
    have pos: "0 < ?n" using False by (auto simp: max_extent_length_def EXT_INIT_MAX_LEN_def)
    have hd: "hd (take ?n blocks) < 2 ^ 48" using "1.prems"(2) False pos by (simp add: hd_take)
    have one: "maps_run [run_extent u a (take ?n blocks)] a (take ?n blocks) u"
      by (rule maps_run_one) (use pos False hd "1.prems" consecutive_take in auto)
    have b: "unat (a + of_nat ?n) = unat a + ?n" using "1.prems"(3) by (simp add: unat_add_less unat_of_nat_small)
    have rest: "maps_run (chunk_extents u (a + of_nat ?n) (drop ?n blocks)) (a + of_nat ?n) (drop ?n blocks) u"
      by (rule "1.IH" [OF False refl]) (use b "1.prems" consecutive_drop in \<open>auto dest: in_set_dropD\<close>)
    have "maps_run ([run_extent u a (take ?n blocks)] @ chunk_extents u (a + of_nat ?n) (drop ?n blocks)) a
        (take ?n blocks @ drop ?n blocks) u"
      by (rule maps_run_append [OF one]) (use rest "1.prems"(3) in simp_all)
    then show ?thesis using False by (subst chunk_extents.simps) (simp add: Let_def)
  qed
qed

lemma maps_run_segments:
  "(\<And>s. s \<in> set ss \<Longrightarrow> consecutive s) \<Longrightarrow> \<forall>b \<in> set (concat ss). b < 2 ^ 48 \<Longrightarrow>
   unat a + length (concat ss) < 2 ^ 32 \<Longrightarrow> maps_run (segment_extents u a ss) a (concat ss) u"
proof (induction ss arbitrary: a)
  case Nil
  then show ?case by (auto simp: maps_run_def)
next
  case (Cons s ss)
  have b: "unat (a + of_nat (length s)) = unat a + length s"
    using Cons.prems(3) by (simp add: unat_add_less unat_of_nat_small)
  have "maps_run (segment_extents u (a + of_nat (length s)) ss) (a + of_nat (length s)) (concat ss) u"
    by (rule Cons.IH) (use Cons.prems b in auto)
  then show ?case
    using maps_run_append [OF maps_run_chunks [of s a u]] Cons.prems by simp
qed

section \<open>The batch inserts these extents\<close>

fun insert_all :: "ext4 \<Rightarrow> extent list \<Rightarrow> inode_ref \<Rightarrow> (jdev, inode_ref) io" where
  "insert_all fs [] r = ret r"
| "insert_all fs (e # es) r = bindS (insert_extent fs r e) (insert_all fs es)"

lemma bindS_assoc: "bindS (bindS m f) g = bindS m (\<lambda>a. bindS (f a) g)"
  by (auto simp: bindS_def fun_eq_iff split: prod.splits res.splits)

lemma insert_all_append: "insert_all fs (es @ fs') r = bindS (insert_all fs es r) (insert_all fs fs')"
proof (induction es arbitrary: r)
  case (Cons e es)
  then have "insert_all fs (es @ fs') = (\<lambda>r. bindS (insert_all fs es r) (insert_all fs fs'))" by (rule ext)
  then show ?case by (simp add: bindS_assoc)
qed simp

lemma map_segment_chunks:
  "\<forall>b \<in> set segment. b \<noteq> 0 \<and> b < 2 ^ 48 \<Longrightarrow> unat iblk + (length segment - k) < 2 ^ 32 \<Longrightarrow>
   k \<le> length segment \<Longrightarrow>
   map_segment fs u segment k iblk r = bindS (insert_all fs (chunk_extents u iblk (drop k segment)) r)
     (\<lambda>r. ret (iblk + of_nat (length segment - k), r))"
proof (induction "length segment - k" arbitrary: k iblk r rule: less_induct)
  case less
  show ?case
  proof (cases "k < length segment")
    case False
    then show ?thesis using less.prems(3) by (simp add: map_segment.simps chunk_extents.simps fun_eq_iff)
  next
    case True
    let ?n = "min (max_extent_length u) (length segment - k)"
    let ?e = "new_extent_at iblk (segment ! k) (of_nat ?n)"
    have n: "0 < ?n" "?n \<le> 32768" using True by (auto simp: max_extent_length_def EXT_INIT_MAX_LEN_def)
    have un: "unat (of_nat ?n :: u16) = ?n" using n(2) by (simp add: unat_of_nat_small)
    have blk: "segment ! k \<noteq> 0" "segment ! k < 2 ^ 48" using less.prems(1) True by simp_all
    have end_: "unat iblk + ?n < 2 ^ 32" using less.prems(2) by linarith
    have max: "x \<le> EXT_MAX_BLOCKS" for x
      using unat_bound [of x] by (simp add: EXT_MAX_BLOCKS_def word_le_nat_alt)
    have first: "iblk < EXT_MAX_BLOCKS"
      using end_ n(1) by (simp add: EXT_MAX_BLOCKS_def word_less_nat_alt del: min_less_iff_conj)
    have f: "ee_first_block ?e = iblk" "ee_block_count ?e = of_nat ?n" "get_pblock ?e = segment ! k"
      using get_store_pblock [OF blk(2)] by (simp_all add: new_extent_at_def) (simp add: store_pblock_def)+
    have "(of_nat ?n :: u16) \<noteq> 0" "(of_nat ?n :: u16) \<le> EXT_INIT_MAX_LEN"
      using un n by (auto simp only: word_le_nat_alt EXT_INIT_MAX_LEN_def) simp_all
    then have "is_valid_extent ?e"
      unfolding is_valid_extent_def f un using first blk(1) end_ max by blast
    moreover have "drop k segment \<noteq> []" using True by simp
    moreover have "hd (take ?n (drop k segment)) = segment ! k" "length (take ?n (drop k segment)) = ?n"
      using True n(1) by (simp_all add: hd_take hd_drop_conv_nth)
    ultimately have step: "map_segment fs u segment k iblk r =
        bindS (insert_extent fs r (run_extent u iblk (take ?n (drop k segment))))
          (\<lambda>r. map_segment fs u segment (k + ?n) (iblk + of_nat ?n) r)"
      using True end_ by (subst map_segment.simps) (simp add: Let_def run_extent_def)
    have b: "unat (iblk + of_nat ?n) = unat iblk + ?n" using end_ by (simp add: unat_add_less unat_of_nat_small)
    have "?n + (length segment - (k + ?n)) = length segment - k" using True by simp
    then have "of_nat ?n + of_nat (length segment - (k + ?n)) = (of_nat (length segment - k) :: u32)"
      by (metis of_nat_add)
    then have sum: "iblk + of_nat ?n + of_nat (length segment - (k + ?n)) = iblk + of_nat (length segment - k)"
      by (simp only: add.assoc)
    have rest: "map_segment fs u segment (k + ?n) (iblk + of_nat ?n) r =
        bindS (insert_all fs (chunk_extents u (iblk + of_nat ?n) (drop (k + ?n) segment)) r)
          (\<lambda>r. ret (iblk + of_nat (length segment - k), r))" for r
      unfolding sum [symmetric]
    proof (rule less.hyps)
      show "length segment - (k + ?n) < length segment - k" "k + ?n \<le> length segment" using n(1) True by linarith+
      show "unat (iblk + of_nat ?n) + (length segment - (k + ?n)) < 2 ^ 32"
        unfolding b using less.prems(2) n(1) True by linarith
    qed (rule less.prems(1))
    have "chunk_extents u iblk (drop k segment) =
        run_extent u iblk (take ?n (drop k segment)) # chunk_extents u (iblk + of_nat ?n) (drop (k + ?n) segment)"
      using True by (subst chunk_extents.simps) (simp add: Let_def add.commute)
    then show ?thesis unfolding step rest by (simp add: bindS_assoc)
  qed
qed

lemma map_segments_extents:
  "(\<And>s. s \<in> set ss \<Longrightarrow> \<forall>b \<in> set s. b \<noteq> 0 \<and> b < 2 ^ 48) \<Longrightarrow> unat iblk + length (concat ss) < 2 ^ 32 \<Longrightarrow>
   map_segments fs u ss iblk r = insert_all fs (segment_extents u iblk ss) r"
proof (induction ss arbitrary: iblk r)
  case (Cons s ss)
  have b: "unat (iblk + of_nat (length s)) = unat iblk + length s"
    using Cons.prems(2) by (simp add: unat_add_less unat_of_nat_small)
  have one: "map_segment fs u s 0 iblk r = bindS (insert_all fs (chunk_extents u iblk s) r) (\<lambda>r. ret (iblk + of_nat (length s), r))"
    using map_segment_chunks [of s iblk 0 fs u r] Cons.prems(1) [of s] Cons.prems(2) by simp
  have rest: "map_segments fs u ss (iblk + of_nat (length s)) r = insert_all fs (segment_extents u (iblk + of_nat (length s)) ss) r" for r
    by (rule Cons.IH) (use Cons.prems b in auto)
  show ?case by (simp add: one rest bindS_assoc insert_all_append)
qed simp

section \<open>Properties\<close>

text \<open>C25: mapping a batch of allocated blocks. The code cuts the blocks into physically contiguous runs
  and those into extents of at most 32768 blocks, 32767 for preallocated ones, whose length field
  carries a flag; it inserts exactly the extents of \<open>batch_extents\<close>, in order, and together these map
  the logical block \<open>start + k\<close> to the \<open>k\<close>-th allocated block, with the flag asked for, and no other
  block. It is the insertion of these extents that \<open>map_inode_pblk_batch\<close> returns, with its error if
  one fails; the validity check of the code rejects none of them.\<close>

theorem map_batch_correct:
  assumes "\<forall>b \<in> set blocks. b \<noteq> 0 \<and> b < 2 ^ 48" and "unat start + length blocks < 2 ^ 32"
  shows "map_segments fs u (contiguous_segments blocks) start r = insert_all fs (batch_extents u start blocks) r
    \<and> (\<forall>l. lookup (batch_extents u start blocks) l =
        (if unat start \<le> unat l \<and> unat l < unat start + length blocks
         then (blocks ! (unat l - unat start), u) else (0, False)))"
proof
  note c = contiguous_segments_props(1) [of blocks] contiguous_segments_props(2) [of _ blocks]
  have sub: "\<forall>b \<in> set s. b \<noteq> 0 \<and> b < 2 ^ 48" if "s \<in> set (contiguous_segments blocks)" for s
    using assms(1) that contiguous_segments_props(1) [of blocks] by (metis UN_I set_concat)
  show "map_segments fs u (contiguous_segments blocks) start r = insert_all fs (batch_extents u start blocks) r"
    unfolding batch_extents_def by (rule map_segments_extents [OF sub]) (use assms(2) c(1) in simp_all)
  have "maps_run (batch_extents u start blocks) start (concat (contiguous_segments blocks)) u"
    unfolding batch_extents_def by (rule maps_run_segments) (use c assms in auto)
  then have m: "maps_run (batch_extents u start blocks) start blocks u" by (simp add: c(1))
  have out: "lookup es l = (0, False)" if "\<not> (\<exists>e \<in> set es. covers e l)" for es l
    using that by (simp add: lookup_def find_None_iff [THEN iffD2])
  show "\<forall>l. lookup (batch_extents u start blocks) l =
        (if unat start \<le> unat l \<and> unat l < unat start + length blocks
         then (blocks ! (unat l - unat start), u) else (0, False))"
  proof
    fix l
    note x = m [unfolded maps_run_def, rule_format, of l]
    show "lookup (batch_extents u start blocks) l =
        (if unat start \<le> unat l \<and> unat l < unat start + length blocks
         then (blocks ! (unat l - unat start), u) else (0, False))"
      using conjunct2 [OF x] out [of "batch_extents u start blocks" l] unfolding conjunct1 [OF x] by simp
  qed
qed

theorem map_batch_correct_witness:
  "lookup (batch_extents True 5 [100, 101, 102, 200]) 8 = (200, True)
   \<and> map_segments tiny_fs True (contiguous_segments [100, 101, 102, 200]) 5 sample_ref
      = insert_all tiny_fs (batch_extents True 5 [100, 101, 102, 200]) sample_ref"
  using map_batch_correct [of "[100, 101, 102, 200]" 5 tiny_fs True sample_ref] by simp

end
