(* ===== verification/ExtentRemove.thy ===== *)
theory ExtentRemove
  imports MapBlocks
begin

text \<open>
  Removal from the extent tree (\<open>extent_remove_space\<close> and what it calls in
  \<open>src/src/ext4_impls/extents.rs\<close>): punching inside one extent, cutting and dropping the extents of a
  leaf, and dropping the index of an emptied leaf. The search path is changed in place by the code and
  is passed and returned here.

  The loop of \<open>extent_remove_space\<close> walks up and down the path and need not end; it is bounded by
  fuel, and \<open>None\<close> says that it was still running. The result of freeing blocks is discarded by the
  code (\<open>or_value\<close>).
\<close>

section \<open>Blocks\<close>

definition free_ignoring :: "ext4 \<Rightarrow> inode_ref \<Rightarrow> u64 \<Rightarrow> u32 \<Rightarrow> (jdev, inode_ref) io" where
  "free_ignoring fs r start len = or_value (balloc_free_blocks fs r start len) r"

definition ext_remove_blocks :: "ext4 \<Rightarrow> inode_ref \<Rightarrow> extent \<Rightarrow> u32 \<Rightarrow> u32 \<Rightarrow> (jdev, inode_ref) io" where
  "ext_remove_blocks fs r ex from to =
     (let len = to - from + 1; num = from - ee_first_block ex;
          start = ucast (get_pblock ex) + num :: u32 in
      free_ignoring fs r (ucast start) len)"

definition ext_remove_index_block :: "ext4 \<Rightarrow> inode_ref \<Rightarrow> extent_index \<Rightarrow> (jdev, inode_ref) io" where
  "ext_remove_index_block fs r index = free_ignoring fs r (ei_get_pblock index) 1"

section \<open>Nodes\<close>

text \<open>The bytes of a node: the root in the inode, or a block. Storing them writes the inode back, or the
  block with its checksum, whose failure is only logged.\<close>

definition load_node_bytes :: "ext4 \<Rightarrow> inode_ref \<Rightarrow> nat \<Rightarrow> (jdev, bytes) io" where
  "load_node_bytes fs r node_pblock =
     (let node_disk_pos = node_pblock * fs_block_size fs in
      if node_disk_pos = 0 then ret (i_block (ir_inode r)) else jd_read node_disk_pos (fs_block_size fs))"

definition store_node_bytes :: "ext4 \<Rightarrow> inode_ref \<Rightarrow> nat \<Rightarrow> bytes \<Rightarrow> (jdev, inode_ref) io" where
  "store_node_bytes fs r node_pblock data =
     (let node_disk_pos = node_pblock * fs_block_size fs in
      if node_disk_pos = 0
      then write_back_inode fs (r\<lparr> ir_inode := (ir_inode r)\<lparr> i_block := take 60 data \<rparr> \<rparr>)
      else bindS (jd_write node_disk_pos data) (\<lambda>_.
           bindS (ignore_err (set_extent_block_checksum fs r node_pblock)) (\<lambda>_. ret r)))"

definition set_entries_count :: "u16 \<Rightarrow> bytes \<Rightarrow> bytes res" where
  "set_entries_count n data = (if 12 \<le> length data then Ok (put data 2 (le_bytes 2 n)) else Undef)"

definition record_at :: "bytes \<Rightarrow> nat \<Rightarrow> bytes res" where
  "record_at data i = (if 12 + i * 12 + 12 \<le> length data then Ok (slice data (12 + i * 12) 12) else Undef)"

text \<open>\<open>&data[a..b]\<close>.\<close>

definition get_range :: "bytes \<Rightarrow> nat \<Rightarrow> nat \<Rightarrow> bytes res" where
  "get_range data a b = (if a \<le> b \<and> b \<le> length data then Ok (slice data a (b - a)) else Panic)"

section \<open>Dropping an index\<close>

definition shift_indexes :: "nat \<Rightarrow> nat \<Rightarrow> bytes \<Rightarrow> bytes res" where
  "shift_indexes position count data =
     (if position + 1 = count then Ok data
      else let start_pos = 12 + position * 12; end_pos = 12 + count * 12 in
        bind (get_range data (start_pos + 12) end_pos) (\<lambda>remaining.
        bind (put_at data start_pos remaining) (\<lambda>data.
        let empty_start = start_pos + length remaining in
        put_at data empty_start (replicate (end_pos - empty_start) 0))))"

text \<open>The parent's index is corrected in a copy (\<open>unwrap\<close> of a \<open>Copy\<close> option), so all that remains is
  that the inode is written back once for each level.\<close>

fun update_parents :: "ext4 \<Rightarrow> search_path \<Rightarrow> nat \<Rightarrow> inode_ref \<Rightarrow> (jdev, inode_ref) io" where
  "update_parents fs path 0 r = ret r"
| "update_parents fs path (Suc parent) r =
     bindS (lift (path_node path (Suc parent))) (\<lambda>node.
     if pn_position node \<noteq> 0 then ret r
     else bindS (lift (path_node path parent)) (\<lambda>pnode.
       if pn_index pnode = None \<or> pn_index node = None then lift Panic
       else bindS (write_back_inode fs r) (update_parents fs path parent)))"

definition ext_remove_idx :: "ext4 \<Rightarrow> inode_ref \<Rightarrow> search_path \<Rightarrow> nat \<Rightarrow> (jdev, inode_ref) io" where
  "ext_remove_idx fs r path i =
     bindS (lift (path_node path i)) (\<lambda>node.
     case pn_index node of None \<Rightarrow> lift Panic
     | Some index \<Rightarrow>
       bindS (load_node_bytes fs r (pn_pblock_of_node node)) (\<lambda>data.
       bindS (lift (shift_indexes (pn_position node) (unat (eh_entries_count (pn_header node))) data)) (\<lambda>data.
       bindS (lift (set_entries_count (eh_entries_count (pn_header node) - 1) data)) (\<lambda>data.
       bindS (store_node_bytes fs r (pn_pblock_of_node node) data) (\<lambda>r.
       bindS (ext_remove_index_block fs r index) (\<lambda>r.
       update_parents fs path i r))))))"

text \<open>\<open>ext_correct_indexes\<close> sets, in the search path only, the keys of the indices above a leaf.\<close>

definition correct_index :: "nat \<Rightarrow> search_path \<Rightarrow> search_path res" where
  "correct_index depth path =
     bind (path_node path (Suc depth)) (\<lambda>node.
     case pn_extent node of None \<Rightarrow> Ok path
     | Some e \<Rightarrow> bind (path_node path depth) (\<lambda>parent.
         Ok (path\<lparr> sp_path := (sp_path path)[depth := parent\<lparr> pn_index :=
               map_option (\<lambda>ix. ix\<lparr> ei_first_block := ee_first_block e \<rparr>) (pn_index parent) \<rparr>] \<rparr>)))"

fun correct_levels :: "nat \<Rightarrow> search_path \<Rightarrow> search_path res" where
  "correct_levels 0 path = Ok path"
| "correct_levels (Suc depth) path = bind (correct_index depth path) (correct_levels depth)"

definition ext_correct_indexes :: "search_path \<Rightarrow> search_path res" where
  "ext_correct_indexes path = correct_levels (unat (sp_depth path)) path"

section \<open>Leaves\<close>

text \<open>What removing the blocks \<open>[from, to]\<close> does to one extent: the range to free, and what stays of the
  extent, when something does.\<close>

record cut =
  cut_start :: u32
  cut_len :: u16
  cut_new_len :: u32
  cut_new_start :: u32
  cut_new_block :: u64
  cut_tail :: bool

definition cut_extent :: "extent \<Rightarrow> u32 \<Rightarrow> u32 \<Rightarrow> cut" where
  "cut_extent ex from to =
     (let start = ee_first_block ex; len = get_actual_len ex; last = start + ucast len - 1 in
      if start < from
      then \<lparr> cut_start = from, cut_len = len - ucast (from - start), cut_new_len = from - start,
             cut_new_start = start, cut_new_block = get_pblock ex, cut_tail = False \<rparr>
      else if to < last
      then \<lparr> cut_start = start, cut_len = len - ucast (last - to), cut_new_len = last - to,
             cut_new_start = to + 1, cut_new_block = get_pblock ex + ucast (to + 1 - start), cut_tail = True \<rparr>
      else \<lparr> cut_start = start, cut_len = len, cut_new_len = 0, cut_new_start = start,
             cut_new_block = get_pblock ex, cut_tail = False \<rparr>)"

definition kept_extent :: "extent \<Rightarrow> cut \<Rightarrow> extent" where
  "kept_extent ex c =
     (let ex' = ex\<lparr> ee_first_block := cut_new_start c \<rparr> in
      if cut_new_len c = 0 then ex'
      else let ex'' = (store_pblock (cut_new_block c) ex')\<lparr> ee_block_count := ucast (cut_new_len c) \<rparr> in
        if is_unwritten ex' then mark_unwritten ex'' else ex'')"

text \<open>The loop over the extents from the position of the path on; \<open>ex2\<close> is the first block of the last
  extent that lost its head.\<close>

fun leaf_loop ::
  "ext4 \<Rightarrow> u32 \<Rightarrow> u32 \<Rightarrow> nat list \<Rightarrow> bytes \<Rightarrow> u16 \<Rightarrow> u32 \<Rightarrow> inode_ref
    \<Rightarrow> (jdev, bytes \<times> u16 \<times> u32 \<times> inode_ref) io" where
  "leaf_loop fs from to [] data count ex2 r = ret (data, count, ex2, r)"
| "leaf_loop fs from to (i # is) data count ex2 r =
     bindS (lift (record_at data i)) (\<lambda>b.
     let ex = extent_of_bytes b in
     if to < ee_first_block ex then ret (data, count, ex2, r)
     else if ee_first_block ex + ucast (get_actual_len ex) - 1 < from
     then leaf_loop fs from to is data count ex2 r
     else let c = cut_extent ex from to in
       bindS (ext_remove_blocks fs r ex (cut_start c) (cut_start c + ucast (cut_len c) - 1)) (\<lambda>r.
       leaf_loop fs from to is (put data (12 + i * 12) (extent_bytes (kept_extent ex c)))
         (if cut_new_len c = 0 then count - 1 else count)
         (if cut_tail c then ee_first_block ex else ex2) r))"

definition move_to_front :: "nat \<Rightarrow> nat \<Rightarrow> bytes \<Rightarrow> bytes res" where
  "move_to_front pos count data =
     bind (get_range data (12 + pos * 12) (12 + count * 12)) (\<lambda>remaining. put_at data 12 remaining)"

definition ext_remove_leaf ::
  "ext4 \<Rightarrow> inode_ref \<Rightarrow> search_path \<Rightarrow> u32 \<Rightarrow> u32 \<Rightarrow> (jdev, inode_ref \<times> search_path) io" where
  "ext_remove_leaf fs r path from to =
     (let depth = unat (root_header_depth (ir_inode r)) in
      bindS (lift (path_node path depth)) (\<lambda>node.
      let pos = pn_position node; entry_count = eh_entries_count (pn_header node) in
      bindS (load_node_bytes fs r (pn_pblock_of_node node)) (\<lambda>data.
      bindS (leaf_loop fs from to [pos..<unat entry_count] data entry_count 0 r) (\<lambda>(data, new_count, ex2, r).
      bindS (lift (if 0 < ex2 then move_to_front pos (unat entry_count) data else Ok data)) (\<lambda>data.
      bindS (lift (set_entries_count new_count data)) (\<lambda>data.
      bindS (store_node_bytes fs r (pn_pblock_of_node node) data) (\<lambda>r.
      bindS (lift (if pos = 0 \<and> 0 < new_count then ext_correct_indexes path else Ok path)) (\<lambda>path.
      if new_count = 0
      then if pn_pblock_of_node node = 0 then ret (r, path)
        else (case depth of 0 \<Rightarrow> lift Panic
              | Suc d \<Rightarrow> bindS (ext_remove_idx fs r path d) (\<lambda>r. ret (r, path)))
      else (case depth of 0 \<Rightarrow> ret (r, path)
            | Suc d \<Rightarrow> bindS (lift (path_node path d)) (\<lambda>n.
                ret (r, path\<lparr> sp_path := (sp_path path)[d := n\<lparr> pn_position := pn_position n + 1 \<rparr>] \<rparr>)))))))))))"

section \<open>The walk\<close>

text \<open>Entry numbers are \<open>usize\<close>: the entry before the first of an empty node is number \<open>2 ^ 64 - 1\<close>.\<close>

definition last_entry :: "u16 \<Rightarrow> nat" where
  "last_entry count = usize_add (unat count) (2 ^ 64 - 1)"

text \<open>The last index is read from the block with the number of the node, which for the root is block 0
  of the device.\<close>

definition more_to_rm :: "ext4 \<Rightarrow> extent_path_node \<Rightarrow> u32 \<Rightarrow> (jdev, bool) io" where
  "more_to_rm fs node to =
     (let count = eh_entries_count (pn_header node) in
      if count = 1 then ret False
      else if last_entry count < pn_position node then ret False
      else case pn_index node of None \<Rightarrow> ret True
        | Some index \<Rightarrow>
          bindS (jd_read (pn_pblock_of_node node * fs_block_size fs) (fs_block_size fs)) (\<lambda>data.
          bindS (lift (record_at data (last_entry count))) (\<lambda>b.
          let last_index = index_of_bytes b in
          ret (\<not> (last_entry count < pn_position node \<or> ei_first_block last_index < ei_first_block index)
               \<and> \<not> to < ei_first_block index))))"

text \<open>The ends of a leaf: its first block, and the last block of its last extent.\<close>

definition leaf_ends :: "ext4 \<Rightarrow> inode_ref \<Rightarrow> extent_path_node \<Rightarrow> (jdev, u32 \<times> u32) io" where
  "leaf_ends fs r node =
     (let count = eh_entries_count (pn_header node); node_pblock = pn_pblock_of_node node in
      bindS (if node_pblock = 0
             then bindS (lift (root_extent_at (ir_inode r) 0)) (\<lambda>a.
                  bindS (lift (root_extent_at (ir_inode r) (last_entry count))) (\<lambda>b. ret (a, b)))
             else bindS (jd_read (node_pblock * fs_block_size fs) (fs_block_size fs)) (\<lambda>data.
                  bindS (lift (record_at data 0)) (\<lambda>a.
                  bindS (lift (record_at data (unat (count - 1)))) (\<lambda>b.
                  ret (extent_of_bytes a, extent_of_bytes b))))) (\<lambda>(first_ex, last_ex).
      ret (ee_first_block first_ex, ee_first_block last_ex + ucast (get_actual_len last_ex) - 1)))"

fun remove_walk ::
  "nat \<Rightarrow> ext4 \<Rightarrow> u32 \<Rightarrow> u32 \<Rightarrow> nat \<Rightarrow> nat \<Rightarrow> inode_ref \<Rightarrow> search_path \<Rightarrow> (jdev, inode_ref option) io" where
  "remove_walk 0 fs from to depth i r path = ret None"
| "remove_walk (Suc fuel) fs from to depth i r path =
     bindS (lift (path_node path i)) (\<lambda>node.
     let up = (\<lambda>r path. case i of 0 \<Rightarrow> ret (Some r) | Suc j \<Rightarrow> remove_walk fuel fs from to depth j r path) in
     if i = depth
     then bindS (leaf_ends fs r node) (\<lambda>(leaf_from, leaf_to).
          bindS (ext_remove_leaf fs r path (max leaf_from from) (min leaf_to to)) (\<lambda>(r, path). up r path))
     else bindS (more_to_rm fs node to) (\<lambda>more.
       if more then remove_walk fuel fs from to depth (i + 1) r path
       else bindS (if 0 < i \<and> eh_entries_count (pn_header node) = 0
                   then ext_remove_idx fs r path (i - 1) else ret r) (\<lambda>r. up r path)))"

section \<open>Removing a range\<close>

definition part_extent :: "u32 \<Rightarrow> u64 \<Rightarrow> u16 \<Rightarrow> bool \<Rightarrow> extent" where
  "part_extent first pblock len unwritten =
     (let e = (store_pblock pblock \<lparr> ee_first_block = first, ee_block_count = 0, ee_start_hi = 0,
                 ee_start_lo = 0 \<rparr>)\<lparr> ee_block_count := len \<rparr> in
      if unwritten then mark_unwritten e else e)"

definition punch_extent ::
  "ext4 \<Rightarrow> inode_ref \<Rightarrow> extent_path_node \<Rightarrow> extent \<Rightarrow> u32 \<Rightarrow> u32 \<Rightarrow> (jdev, inode_ref) io" where
  "punch_extent fs r node ex from to =
     (let ee_block = ee_first_block ex; ee_end = ee_block + ucast (get_actual_len ex) - 1;
          pblock = get_pblock ex; unwritten = is_unwritten ex;
          head = part_extent ee_block pblock (ucast (from - ee_block)) unwritten;
          tail = part_extent (to + 1) (pblock + ucast (to + 1 - ee_block)) (ucast (ee_end - to)) unwritten in
      bindS (ext_remove_blocks fs r ex from to) (\<lambda>r.
      bindS (if pn_pblock_of_node node = 0
             then bindS (lift (root_slot_put (ir_inode r) (pn_position node) (extent_bytes head))) (\<lambda>i.
                  ret (r\<lparr> ir_inode := i \<rparr>))
             else let pos = pn_pblock_of_node node * fs_block_size fs in
                  bindS (jd_read pos (fs_block_size fs)) (\<lambda>data.
                  bindS (lift (record_at data (pn_position node))) (\<lambda>_.
                  bindS (jd_write pos (put data (12 + pn_position node * 12) (extent_bytes head))) (\<lambda>_. ret r)))) (\<lambda>r.
      bindS (insert_extent fs r tail) (write_back_inode fs))))"

definition extent_remove_space ::
  "nat \<Rightarrow> ext4 \<Rightarrow> inode_ref \<Rightarrow> u32 \<Rightarrow> u32 \<Rightarrow> (jdev, inode_ref option) io" where
  "extent_remove_space fuel fs r from to =
     bindS (find_extent (fs_block_size fs) r from) (\<lambda>path.
     let depth = unat (sp_depth path) in
     bindS (lift (path_node path depth)) (\<lambda>node.
     case pn_extent node of None \<Rightarrow> lift Panic
     | Some ex \<Rightarrow>
       if ee_first_block ex < from \<and> to < ee_first_block ex + ucast (get_actual_len ex) - 1
       then bindS (punch_extent fs r node ex from to) (\<lambda>r. ret (Some r))
       else remove_walk fuel fs from to depth depth r path))"

section \<open>What a cut leaves\<close>

text \<open>An extent of the size the format allows, inside the file and inside the device.\<close>

definition extent_ok :: "extent \<Rightarrow> bool" where
  "extent_ok e \<longleftrightarrow> 0 < unat (get_actual_len e) \<and> unat (ee_first_block e) + unat (get_actual_len e) \<le> 2 ^ 32
     \<and> unat (get_pblock e) + unat (get_actual_len e) \<le> 2 ^ 48"

lemma actual_len_bounds: "unat (get_actual_len e) \<le> 32768" "is_unwritten e \<Longrightarrow> unat (get_actual_len e) < 32768"
proof -
  have "unat (ee_block_count e) < 65536" using unat_bound [of "ee_block_count e"] by simp
  then show "unat (get_actual_len e) \<le> 32768" "is_unwritten e \<Longrightarrow> unat (get_actual_len e) < 32768"
    by (auto simp: get_actual_len_def is_unwritten_def EXT_INIT_MAX_LEN_def word_less_nat_alt unat_sub word_le_nat_alt)
qed

lemma ucast_len: "unat (ucast (n :: u16) :: u32) = unat n"
proof -
  have "unat n < 2 ^ 32" using unat_bound [of n] by simp
  then show ?thesis by (simp add: unsigned_ucast_eq take_bit_nat_eq_self)
qed

lemma last_block:
  assumes "extent_ok e"
  shows "unat (ee_first_block e + ucast (get_actual_len e) - 1) = unat (ee_first_block e) + unat (get_actual_len e) - 1"
proof -
  let ?F = "ee_first_block e" and ?L = "get_actual_len e"
  have l: "0 < unat ?L" "unat ?F + unat ?L \<le> 2 ^ 32" using assms by (simp_all add: extent_ok_def)
  have "?L \<noteq> 0" using l(1) by auto
  then have "unat (ucast ?L - 1 :: u32) = unat ?L - 1" by (simp add: unat_sub ucast_len word_le_nat_alt l Suc_leI)
  then have "unat (?F + (ucast ?L - 1)) = unat ?F + (unat ?L - 1)" using l by (subst unat_add_less) auto
  then show ?thesis using l by (simp add: algebra_simps)
qed

lemma kept_fields:
  assumes "0 < unat (cut_new_len c)" and "unat (cut_new_len c) \<le> 32768" and "is_unwritten ex \<Longrightarrow> unat (cut_new_len c) < 32768"
    and "cut_new_block c < 2 ^ 48"
  shows "ee_first_block (kept_extent ex c) = cut_new_start c" "is_unwritten (kept_extent ex c) = is_unwritten ex"
    "unat (get_actual_len (kept_extent ex c)) = unat (cut_new_len c)" "get_pblock (kept_extent ex c) = cut_new_block c"
proof -
  let ?e = "(store_pblock (cut_new_block c) (ex\<lparr> ee_first_block := cut_new_start c \<rparr>))\<lparr> ee_block_count := ucast (cut_new_len c) \<rparr>"
  have "ee_block_count ?e = of_nat (unat (cut_new_len c))" by simp
  note f = marked_fields [OF this assms(1-3)]
  have e: "ee_first_block ?e = cut_new_start c" "get_pblock ?e = cut_new_block c"
    using get_store_pblock [OF assms(4)] by (simp_all add: get_pblock_def store_pblock_def)
  have "kept_extent ex c = (if is_unwritten ex then mark_unwritten ?e else ?e)"
    using assms(1) by (auto simp: kept_extent_def Let_def is_unwritten_def)
  then show "ee_first_block (kept_extent ex c) = cut_new_start c" "is_unwritten (kept_extent ex c) = is_unwritten ex"
    "unat (get_actual_len (kept_extent ex c)) = unat (cut_new_len c)" "get_pblock (kept_extent ex c) = cut_new_block c"
    using f e by simp_all
qed

lemma lookup_one: "lookup [e] l = (if covers e l then (get_pblock e + ucast (l - ee_first_block e), is_unwritten e) else (0, False))"
  by (simp add: lookup_def)

lemma cut_cases:
  fixes ex lo hi
  defines "F \<equiv> unat (ee_first_block ex)" and "L \<equiv> unat (get_actual_len ex)" and "c \<equiv> cut_extent ex lo hi"
  assumes ok: "extent_ok ex" and meets: "ee_first_block ex \<le> hi" "unat lo < F + L" and order: "lo \<le> hi"
    and notin: "\<not> (F < unat lo \<and> unat hi + 1 < F + L)"
  shows "(F < unat lo \<and> unat (cut_start c) = unat lo \<and> unat (cut_len c) = F + L - unat lo
            \<and> unat (cut_new_len c) = unat lo - F \<and> cut_new_start c = ee_first_block ex \<and> cut_new_block c = get_pblock ex)
    \<or> (unat lo \<le> F \<and> unat hi + 1 < F + L \<and> unat (cut_start c) = F \<and> unat (cut_len c) = unat hi + 1 - F
            \<and> unat (cut_new_len c) = F + L - (unat hi + 1) \<and> unat (cut_new_start c) = unat hi + 1
            \<and> cut_new_block c = get_pblock ex + of_nat (unat hi + 1 - F))
    \<or> (unat lo \<le> F \<and> F + L \<le> unat hi + 1 \<and> unat (cut_start c) = F \<and> unat (cut_len c) = L \<and> cut_new_len c = 0)"
proof -
  let ?last = "ee_first_block ex + ucast (get_actual_len ex) - 1"
  have l: "unat ?last = F + L - 1" "0 < L" "F + L \<le> 2 ^ 32" "L \<le> 32768"
    using last_block [OF ok] ok actual_len_bounds(1) [of ex] by (simp_all add: F_def L_def extent_ok_def)
  show ?thesis
  proof (cases "ee_first_block ex < lo")
    case True
    have d: "unat (lo - ee_first_block ex) = unat lo - F" using True by (simp add: unat_sub F_def)
    then have n: "unat (ucast (lo - ee_first_block ex) :: u16) = unat lo - F"
      using l(4) meets(2) by (simp add: unsigned_ucast_eq take_bit_nat_eq_self)
    have "(ucast (lo - ee_first_block ex) :: u16) \<le> get_actual_len ex"
      using n meets(2) by (simp add: word_le_nat_alt L_def)
    then have "unat (get_actual_len ex - ucast (lo - ee_first_block ex)) = L - (unat lo - F)"
      using n by (simp add: unat_sub L_def)
    then show ?thesis using True d meets(2) by (simp add: c_def cut_extent_def Let_def word_less_nat_alt F_def)
  next
    case False
    then have f: "unat lo \<le> F" by (simp add: word_less_nat_alt F_def)
    show ?thesis
    proof (cases "hi < ?last")
      case True
      then have t: "unat hi + 1 < F + L" using l by (simp add: word_less_nat_alt)
      have d: "unat (?last - hi) = F + L - (unat hi + 1)" using True l(1) by (simp add: unat_sub)
      have F: "F \<le> unat hi" using meets(1) by (simp add: word_le_nat_alt F_def)
      have n: "unat (ucast (?last - hi) :: u16) = F + L - (unat hi + 1)"
        using l(4) d F by (simp add: unsigned_ucast_eq take_bit_nat_eq_self)
      then have "ucast (?last - hi) \<le> get_actual_len ex" using F by (simp add: word_le_nat_alt L_def)
      then have len: "unat (get_actual_len ex - ucast (?last - hi)) = unat hi + 1 - F"
        using n F t by (simp add: unat_sub L_def)
      have s: "unat (hi + 1) = unat hi + 1" using t l(3) by (subst unat_add_less) auto
      have "unat (hi + 1 - ee_first_block ex) = unat hi + 1 - F"
        using s F by (subst unat_sub) (simp_all add: word_le_nat_alt F_def)
      moreover have "(ucast (hi + 1 - ee_first_block ex) :: u64) = of_nat (unat (hi + 1 - ee_first_block ex))" by simp
      ultimately have "(ucast (hi + 1 - ee_first_block ex) :: u64) = of_nat (unat hi + 1 - F)" by metis
      then show ?thesis using False True f t d len s by (simp add: c_def cut_extent_def Let_def F_def)
    next
      case False2: False
      then have "F + L \<le> unat hi + 1" using l by (simp add: word_less_nat_alt)
      then show ?thesis using False False2 f by (simp add: c_def cut_extent_def Let_def F_def L_def)
    qed
  qed
qed

lemma narrow_sum:
  fixes p :: u64 and k :: u32
  assumes "unat p + unat k < 2 ^ 32"
  shows "(ucast (ucast p + k :: u32) :: u64) = p + ucast k"
proof (rule unsigned_word_eqI [where 'a = nat])
  have p: "unat (ucast p :: u32) = unat p" using assms by (simp add: unsigned_ucast_eq take_bit_nat_eq_self)
  have up: "unat (ucast w :: u64) = unat w" for w :: u32
    using unat_bound [of w] by (simp add: unsigned_ucast_eq take_bit_nat_eq_self)
  have "unat (ucast p + k) = unat p + unat k" by (subst unat_add_less) (use p assms in simp_all)
  moreover have "unat (p + ucast k) = unat p + unat k" by (subst unat_add_less) (use up assms in simp_all)
  ultimately show "unat (ucast (ucast p + k :: u32) :: u64) = unat (p + ucast k)" using up by simp
qed

text \<open>C26: Removing the blocks \<open>[lo, hi]\<close> from an extent of a leaf that meets the range and does not contain
  it strictly: the range to free holds exactly the blocks of the extent in \<open>[lo, hi]\<close>, what is freed of the
  device are the blocks they map to (on a device below block \<open>2 ^ 32\<close>), and what stays of the extent maps
  every other block as before, in the same state, and none of the removed.\<close>

theorem leaf_cut_correct:
  assumes ok: "extent_ok ex" and meets: "ee_first_block ex \<le> hi" "unat lo < unat (ee_first_block ex) + unat (get_actual_len ex)"
    and order: "lo \<le> hi"
    and notin: "\<not> (ee_first_block ex < lo \<and> unat hi + 1 < unat (ee_first_block ex) + unat (get_actual_len ex))"
    and dev: "unat (get_pblock ex) + unat (get_actual_len ex) \<le> 2 ^ 32"
    and c: "c = cut_extent ex lo hi"
  shows "(\<forall>l. (unat (cut_start c) \<le> unat l \<and> unat l < unat (cut_start c) + unat (cut_len c))
            = (covers ex l \<and> lo \<le> l \<and> l \<le> hi))
    \<and> ext_remove_blocks fs r ex (cut_start c) (cut_start c + ucast (cut_len c) - 1)
        = free_ignoring fs r (fst (lookup [ex] (cut_start c))) (ucast (cut_len c))
    \<and> (\<forall>l. lookup (if cut_new_len c = 0 then [] else [kept_extent ex c]) l
          = (if covers ex l \<and> \<not> (lo \<le> l \<and> l \<le> hi) then lookup [ex] l else (0, False)))"
proof -
  define F L where "F = unat (ee_first_block ex)" and "L = unat (get_actual_len ex)"
  have l: "0 < L" "F + L \<le> 2 ^ 32" "L \<le> 32768" "is_unwritten ex \<Longrightarrow> L < 32768" "unat (get_pblock ex) + L \<le> 2 ^ 48"
    using ok actual_len_bounds [of ex] by (simp_all add: F_def L_def extent_ok_def)
  have m: "F \<le> unat hi" "unat lo < F + L" "unat lo \<le> unat hi"
    using meets order by (simp_all add: F_def L_def word_le_nat_alt)
  note cases = cut_cases [OF ok meets order, folded F_def L_def, folded c]
  have notin': "\<not> (F < unat lo \<and> unat hi + 1 < F + L)" using notin by (simp add: F_def L_def word_less_nat_alt)
  have freed: "(unat (cut_start c) \<le> unat l \<and> unat l < unat (cut_start c) + unat (cut_len c))
      = (covers ex l \<and> lo \<le> l \<and> l \<le> hi)" for l
    using cases [OF notin'] m notin' by (auto simp: covers_def F_def [symmetric] L_def [symmetric] word_le_nat_alt)
  have kept: "lookup (if cut_new_len c = 0 then [] else [kept_extent ex c]) l
          = (if covers ex l \<and> \<not> (lo \<le> l \<and> l \<le> hi) then lookup [ex] l else (0, False))" for l
    using cases [OF notin']
  proof (elim disjE conjE)
    assume h: "F < unat lo" "unat (cut_new_len c) = unat lo - F" "cut_new_start c = ee_first_block ex" "cut_new_block c = get_pblock ex"
    have n: "0 < unat (cut_new_len c)" "unat (cut_new_len c) \<le> 32768" "is_unwritten ex \<Longrightarrow> unat (cut_new_len c) < 32768"
      "cut_new_block c < 2 ^ 48"
      using h l m by (auto simp: word_less_nat_alt)
    have "covers (kept_extent ex c) l \<longleftrightarrow> covers ex l \<and> \<not> (lo \<le> l \<and> l \<le> hi)"
      using kept_fields [OF n] h m notin' by (auto simp: covers_def F_def [symmetric] L_def [symmetric] word_le_nat_alt)
    then show ?thesis using kept_fields [OF n] n(1) h by (auto simp: lookup_one lookup_def)
  next
    assume h: "unat lo \<le> F" "unat hi + 1 < F + L" "unat (cut_new_len c) = F + L - (unat hi + 1)"
      "unat (cut_new_start c) = unat hi + 1" "cut_new_block c = get_pblock ex + of_nat (unat hi + 1 - F)"
    have k1: "unat hi + 1 - F < L" using h(2) m(1) by simp
    have "unat hi + 1 - F < 2 ^ LENGTH(64)" using k1 l(3) by simp
    note k = k1 unat_of_nat_small [OF this]
    have "unat (cut_new_block c) = unat (get_pblock ex) + (unat hi + 1 - F)"
      unfolding h(5) by (subst unat_add_less) (use k l(5) in auto)
    then have n: "0 < unat (cut_new_len c)" "unat (cut_new_len c) \<le> 32768" "is_unwritten ex \<Longrightarrow> unat (cut_new_len c) < 32768"
      "cut_new_block c < 2 ^ 48"
      using h l m k by (auto simp: word_less_nat_alt)
    have cov: "covers (kept_extent ex c) l \<longleftrightarrow> covers ex l \<and> \<not> (lo \<le> l \<and> l \<le> hi)"
      using kept_fields [OF n] h m by (auto simp: covers_def F_def [symmetric] L_def [symmetric] word_le_nat_alt)
    have "cut_new_block c + ucast (l - cut_new_start c) = get_pblock ex + ucast (l - ee_first_block ex)"
      if "covers (kept_extent ex c) l"
    proof -
      have le: "unat hi + 1 \<le> unat l" using that kept_fields(1) [OF n] h(4) by (simp add: covers_def)
      then have "unat (l - cut_new_start c) = unat l - (unat hi + 1)" "unat (l - ee_first_block ex) = unat l - F"
        using h(4) m(1) by (simp_all add: unat_sub word_le_nat_alt F_def)
      moreover have "(ucast w :: u64) = of_nat (unat w)" for w :: u32 by simp
      ultimately have "(ucast (l - cut_new_start c) :: u64) = of_nat (unat l - (unat hi + 1))"
        "(ucast (l - ee_first_block ex) :: u64) = of_nat (unat l - F)"
        by metis+
      moreover have "(of_nat (unat hi + 1 - F) :: u64) + of_nat (unat l - (unat hi + 1)) = of_nat (unat l - F)"
        unfolding of_nat_add [symmetric] by (rule arg_cong [of _ _ of_nat]) (use le m(1) in simp)
      ultimately show ?thesis unfolding h(5) add.assoc by metis
    qed
    then show ?thesis using kept_fields [OF n] n(1) cov by (auto simp: lookup_one lookup_def)
  next
    assume "unat lo \<le> F" "F + L \<le> unat hi + 1" "cut_new_len c = 0"
    then show ?thesis by (auto simp: covers_def F_def [symmetric] L_def [symmetric] word_le_nat_alt lookup_def)
  qed
  have start: "covers ex (cut_start c)"
    using cases [OF notin'] m l(1) by (auto simp: covers_def F_def [symmetric] L_def [symmetric])
  have "(ucast (ucast (get_pblock ex) + (cut_start c - ee_first_block ex) :: u32) :: u64)
      = get_pblock ex + ucast (cut_start c - ee_first_block ex)"
    by (rule narrow_sum) (use start dev in \<open>auto simp: covers_def unat_sub word_le_nat_alt\<close>)
  then have "ext_remove_blocks fs r ex (cut_start c) (cut_start c + ucast (cut_len c) - 1)
        = free_ignoring fs r (fst (lookup [ex] (cut_start c))) (ucast (cut_len c))"
    using start by (simp add: ext_remove_blocks_def lookup_one Let_def)
  then show ?thesis using freed kept by blast
qed

theorem leaf_cut_correct_witness:
  "lookup [kept_extent sample_extent (cut_extent sample_extent 4 9)] 3 = lookup [sample_extent] 3
    \<and> lookup [kept_extent sample_extent (cut_extent sample_extent 4 9)] 4 = (0, False)"
proof -
  let ?c = "cut_extent sample_extent 4 9"
  have h: "extent_ok sample_extent" "ee_first_block sample_extent \<le> 9"
    "unat (4 :: u32) < unat (ee_first_block sample_extent) + unat (get_actual_len sample_extent)" "(4 :: u32) \<le> 9"
    "\<not> (ee_first_block sample_extent < 4
        \<and> unat (9 :: u32) + 1 < unat (ee_first_block sample_extent) + unat (get_actual_len sample_extent))"
    "unat (get_pblock sample_extent) + unat (get_actual_len sample_extent) \<le> 2 ^ 32"
    "cut_new_len ?c \<noteq> 0" "covers sample_extent 3"
    by (simp_all add: extent_ok_def sample_extent_def get_actual_len_def is_unwritten_def EXT_INIT_MAX_LEN_def
        get_pblock_def cut_extent_def covers_def Let_def)
  note keeps = conjunct2 [OF conjunct2 [OF leaf_cut_correct [OF h(1-6) refl]], THEN spec]
  show ?thesis using keeps [of 3] keeps [of 4] h(7,8) by simp
qed

end
