(* ===== verification/FileWrite.thy ===== *)
theory FileWrite
  imports ExtentRemove
begin

text \<open>
  Writing and truncating files (\<open>src/src/ext4_impls/file.rs\<close>). Both may remove a range of blocks,
  which need not end in the code: the result is an option, \<open>None\<close> when the walk of
  \<open>extent_remove_space\<close> is still running after \<open>fuel\<close> steps.

  The property is the one a user of a file relies on: a write inside the file changes exactly the bytes
  it covers, and reading them back returns what was written.
\<close>

section \<open>Operations that may still be running\<close>

definition bindO :: "('s, 'a option) io \<Rightarrow> ('a \<Rightarrow> ('s, 'b option) io) \<Rightarrow> ('s, 'b option) io" where
  "bindO m f = bindS m (\<lambda>x. case x of None \<Rightarrow> ret None | Some a \<Rightarrow> f a)"

text \<open>\<open>journaled\<close> around such an operation: while it is running its transaction stays open.\<close>

definition journaled_fuel :: "ext4 \<Rightarrow> (jdev, 'a option) io \<Rightarrow> (jdev, 'a option) io" where
  "journaled_fuel fs op =
     bindS (journal_begin fs) (\<lambda>_ s. case op s of
       (Ok None, s) \<Rightarrow> (Ok None, s)
     | (Ok (Some a), s) \<Rightarrow> bindS (journal_end fs True) (\<lambda>_. ret (Some a)) s
     | (Err e, s) \<Rightarrow> bindS (journal_end fs False) (\<lambda>_. lift (Err e)) s
     | (Panic, s) \<Rightarrow> (Panic, s)
     | (Undef, s) \<Rightarrow> (Undef, s))"

section \<open>Preparing the blocks\<close>

text \<open>How many of the \<open>n\<close> blocks from \<open>lb\<close> on satisfy \<open>P\<close> without a gap.\<close>

fun run_length :: "(nat \<Rightarrow> (jdev, bool) io) \<Rightarrow> nat \<Rightarrow> nat \<Rightarrow> (jdev, nat) io" where
  "run_length P lb 0 = ret 0"
| "run_length P lb (Suc n) = bindS (P lb) (\<lambda>b.
     if b then bindS (run_length P (lb + 1) n) (\<lambda>k. ret (k + 1)) else ret 0)"

definition unwritten_at :: "ext4 \<Rightarrow> inode_ref \<Rightarrow> nat \<Rightarrow> (jdev, bool) io" where
  "unwritten_at fs r b = bindS (get_pblock_state (fs_block_size fs) r (of_nat b)) (\<lambda>(_, unwritten). ret unwritten)"

text \<open>Preallocated blocks become holes; \<open>n\<close> blocks from \<open>lb\<close> on are left to look at.\<close>

fun punch_unwritten :: "nat \<Rightarrow> ext4 \<Rightarrow> nat \<Rightarrow> nat \<Rightarrow> inode_ref \<Rightarrow> (jdev, inode_ref option) io" where
  "punch_unwritten fuel fs 0 lb r = ret (Some r)"
| "punch_unwritten fuel fs (Suc n) lb r =
     bindS (unwritten_at fs r lb) (\<lambda>unwritten.
     if \<not> unwritten then punch_unwritten fuel fs n (lb + 1) r
     else bindS (run_length (unwritten_at fs r) (lb + 1) n) (\<lambda>k.
       let run_end = lb + 1 + k in
       bindO (extent_remove_space fuel fs r (of_nat lb) (of_nat (run_end - 1))) (\<lambda>r.
       punch_unwritten fuel fs (n - k) run_end r)))"

definition is_hole :: "ext4 \<Rightarrow> nat \<Rightarrow> inode_ref \<Rightarrow> nat \<Rightarrow> (jdev, bool) io" where
  "is_hole fs ifile_blocks r b =
     (if ifile_blocks \<le> b then ret True
      else bindS (or_value (get_pblock_idx (fs_block_size fs) r (of_nat b)) 0) (\<lambda>p. ret (p = 0)))"

text \<open>Every run of holes gets blocks; the second result is the first block left without one.\<close>

fun fill_holes ::
  "ext4 \<Rightarrow> nat \<Rightarrow> nat \<Rightarrow> nat \<Rightarrow> inode_ref \<Rightarrow> u32 \<Rightarrow> (jdev, inode_ref \<times> nat option) io" where
  "fill_holes fs ifile_blocks 0 lb r start_bgid = ret (r, None)"
| "fill_holes fs ifile_blocks (Suc n) lb r start_bgid =
     bindS (is_hole fs ifile_blocks r lb) (\<lambda>hole.
     if \<not> hole then fill_holes fs ifile_blocks n (lb + 1) r start_bgid
     else bindS (run_length (is_hole fs ifile_blocks r) (lb + 1) n) (\<lambda>k.
       let run_end = lb + 1 + k; count = run_end - lb in
       bindS (map_inode_pblk_batch fs r start_bgid (of_nat lb) count False) (\<lambda>(allocated, r, start_bgid).
       if length allocated < count then ret (r, Some (lb + length allocated))
       else fill_holes fs ifile_blocks (n - k) run_end r start_bgid)))"

definition backed_length :: "nat \<Rightarrow> nat \<Rightarrow> nat \<Rightarrow> nat option \<Rightarrow> nat res" where
  "backed_length bs offset len first_unmapped = (case first_unmapped of
     None \<Rightarrow> Ok len
   | Some f \<Rightarrow> if f \<le> offset div bs then Err ENOSPC else Ok (min len (f * bs - offset)))"

section \<open>Writing\<close>

text \<open>One block: load it, change it from byte \<open>skip\<close> on, write it and read it again.\<close>

definition write_part :: "nat \<Rightarrow> inode_ref \<Rightarrow> nat \<Rightarrow> nat \<Rightarrow> bytes \<Rightarrow> (jdev, unit) io" where
  "write_part bs r iblk_idx skip data =
     bindS (get_pblock_idx bs r (of_nat iblk_idx)) (\<lambda>pblock_idx.
     let pos = unat pblock_idx * bs in
     bindS (jd_read pos bs) (\<lambda>block.
     bindS (if 0 < skip \<or> length data < bs
            then bindS (jd_read pos bs) (\<lambda>existing_data. lift (put_at block 0 existing_data)) else ret block) (\<lambda>block.
     bindS (lift (put_at block skip data)) (\<lambda>block.
     bindS (jd_write pos block) (\<lambda>_.
     bindS (jd_read pos bs) (\<lambda>verify_block.
     bindS (lift (get_at verify_block skip (length data))) (\<lambda>w.
     if w \<noteq> data then lift (Err EIO) else ret ())))))))"

function write_blocks :: "nat \<Rightarrow> inode_ref \<Rightarrow> nat \<Rightarrow> bytes \<Rightarrow> (jdev, unit) io" where
  "write_blocks bs r iblk_idx data =
     (if data = [] \<or> bs = 0 then ret ()
      else bindS (write_part bs r iblk_idx 0 (take bs data)) (\<lambda>_.
        write_blocks bs r (iblk_idx + 1) (drop bs data)))"
  by pat_completeness auto
termination by (relation "measure (\<lambda>(_, _, _, data). length data)") auto

declare write_blocks.simps [simp del]

definition write_data :: "nat \<Rightarrow> inode_ref \<Rightarrow> nat \<Rightarrow> bytes \<Rightarrow> (jdev, unit) io" where
  "write_data bs r offset data =
     (let unaligned = offset mod bs; iblk_idx = offset div bs in
      if 0 < unaligned \<and> data \<noteq> []
      then let len = min (length data) (bs - unaligned) in
        bindS (write_part bs r iblk_idx unaligned (take len data)) (\<lambda>_.
        write_blocks bs r (iblk_idx + 1) (drop len data))
      else write_blocks bs r iblk_idx data)"

definition EXT4_MAX_FILE_SIZE :: nat where "EXT4_MAX_FILE_SIZE = 16 * 1024 * 1024 * 1024"

definition update_file_size :: "ext4 \<Rightarrow> u32 \<Rightarrow> inode_ref \<Rightarrow> u64 \<Rightarrow> nat \<Rightarrow> (jdev, unit) io" where
  "update_file_size fs ino r file_size new_size =
     (if \<not> unat file_size < new_size then ret ()
      else if EXT4_MAX_FILE_SIZE < new_size then lift (Err EFBIG)
      else bindS (write_back_inode fs (r\<lparr> ir_inode := set_size (of_nat new_size) (ir_inode r) \<rparr>)) (\<lambda>_.
        bindS (get_inode_ref fs ino) (\<lambda>verify_inode.
        if inode_size (ir_inode verify_inode) \<noteq> of_nat new_size then lift (Err EIO) else ret ())))"

definition write_at_impl :: "nat \<Rightarrow> ext4 \<Rightarrow> u32 \<Rightarrow> nat \<Rightarrow> bytes \<Rightarrow> (jdev, nat option) io" where
  "write_at_impl fuel fs ino offset write_buf =
     (if write_buf = [] then ret (Some 0)
      else bindS (get_inode_ref fs ino) (\<lambda>r.
        let file_size = inode_size (ir_inode r); bs = fs_block_size fs in
        if bs = 0 then lift Panic
        else let iblock_start = offset div bs;
                 iblock_last = usize_add (usize_add offset (length write_buf)) (bs - 1) div bs;
                 ifile_blocks = unat ((file_size + of_nat bs - 1) div of_nat bs) in
        bindO (punch_unwritten fuel fs (iblock_last - iblock_start) iblock_start r) (\<lambda>r.
        bindS (fill_holes fs ifile_blocks (iblock_last - iblock_start) iblock_start r 0) (\<lambda>(r, first_unmapped).
        bindS (lift (backed_length bs offset (length write_buf) first_unmapped)) (\<lambda>n.
        let data = take n write_buf in
        bindS (write_data bs r offset data) (\<lambda>_.
        bindS (update_file_size fs ino r file_size (usize_add offset (length data))) (\<lambda>_.
        ret (Some (length data)))))))))"

definition write_at :: "nat \<Rightarrow> ext4 \<Rightarrow> u32 \<Rightarrow> nat \<Rightarrow> bytes \<Rightarrow> (jdev, nat option) io" where
  "write_at fuel fs ino offset write_buf = journaled_fuel fs (write_at_impl fuel fs ino offset write_buf)"

section \<open>Truncating\<close>

definition truncate_inode_impl :: "nat \<Rightarrow> ext4 \<Rightarrow> inode_ref \<Rightarrow> u64 \<Rightarrow> (jdev, inode_ref option) io" where
  "truncate_inode_impl fuel fs r new_size =
     (let old_size = inode_size (ir_inode r) in
      if old_size < new_size then lift (Err EINVAL)
      else if old_size = new_size then ret (Some r)
      else if fs_block_size fs = 0 then lift Panic
      else let bs = of_nat (fs_block_size fs) :: u64;
               new_blocks_cnt = ucast ((new_size + bs - 1) div bs) :: u32;
               old_blocks_cnt = ucast ((old_size + bs - 1) div bs) :: u32;
               diff_blocks_cnt = old_blocks_cnt - new_blocks_cnt in
        bindO (if 0 < diff_blocks_cnt then extent_remove_space fuel fs r new_blocks_cnt EXT_MAX_BLOCKS
               else ret (Some r)) (\<lambda>r.
        bindS (write_back_inode fs (r\<lparr> ir_inode := set_size new_size (ir_inode r) \<rparr>)) (\<lambda>r. ret (Some r))))"

definition truncate_inode :: "nat \<Rightarrow> ext4 \<Rightarrow> inode_ref \<Rightarrow> u64 \<Rightarrow> (jdev, inode_ref option) io" where
  "truncate_inode fuel fs r new_size = journaled_fuel fs (truncate_inode_impl fuel fs r new_size)"

section \<open>The blocks of a file\<close>

definition data_pos :: "nat \<Rightarrow> extent list \<Rightarrow> nat \<Rightarrow> nat" where
  "data_pos bs es k = unat (fst (lookup es (of_nat k))) * bs"

definition file_blocks :: "nat \<Rightarrow> inode \<Rightarrow> nat" where
  "file_blocks bs i = (unat (inode_size i) + bs - 1) div bs"

definition has_block :: "extent list \<Rightarrow> nat \<Rightarrow> bool" where
  "has_block es k \<longleftrightarrow> fst (lookup es (of_nat k)) \<noteq> 0"

text \<open>The file has the inode \<open>i\<close> and the extents \<open>es\<close>, its blocks are different blocks, and neither the
  inode nor the extent tree lies in them: whatever they hold, inode and map stay.\<close>

definition own_data :: "ext4 \<Rightarrow> (nat \<Rightarrow> u8) \<Rightarrow> u32 \<Rightarrow> inode \<Rightarrow> extent list \<Rightarrow> bool" where
  "own_data fs v ino i es \<longleftrightarrow>
     (let bs = fs_block_size fs; n = file_blocks bs i in
      (\<forall>k < n. \<forall>j < n. has_block es k \<longrightarrow> fst (lookup es (of_nat k)) = fst (lookup es (of_nat j)) \<longrightarrow> k = j)
      \<and> (\<forall>w. (\<forall>p. (\<forall>k < n. has_block es k \<longrightarrow> p < data_pos bs es k \<or> data_pos bs es k + bs \<le> p) \<longrightarrow> w p = v p)
           \<longrightarrow> inode_at fs w ino = i \<and> maps_blocks w bs i es))"

lemma own_data_inode: "own_data fs v ino i es \<Longrightarrow> inode_at fs v ino = i \<and> maps_blocks v (fs_block_size fs) i es"
  by (simp add: own_data_def Let_def)

lemma own_data_distinct:
  "own_data fs v ino i es \<Longrightarrow> k < file_blocks (fs_block_size fs) i \<Longrightarrow> j < file_blocks (fs_block_size fs) i \<Longrightarrow>
   has_block es k \<Longrightarrow> fst (lookup es (of_nat k)) = fst (lookup es (of_nat j)) \<Longrightarrow> k = j"
  by (simp add: own_data_def Let_def)

lemma own_data_write:
  assumes own: "own_data fs v ino i es" and k: "k < file_blocks (fs_block_size fs) i" "has_block es k"
    and d: "skip + length d \<le> fs_block_size fs"
  shows "own_data fs (image_write v (data_pos (fs_block_size fs) es k + skip) d) ino i es"
proof -
  have out: "image_write v (data_pos (fs_block_size fs) es k + skip) d p = v p"
    if "\<forall>k < file_blocks (fs_block_size fs) i. has_block es k \<longrightarrow>
      p < data_pos (fs_block_size fs) es k \<or> data_pos (fs_block_size fs) es k + fs_block_size fs \<le> p" for p
    using that k d by (auto simp: image_write_def)
  show ?thesis using own out unfolding own_data_def Let_def by metis
qed

text \<open>Bytes \<open>d\<close> written into block \<open>k\<close> from byte \<open>skip\<close> on are the bytes of the file from
  \<open>k * bs + skip\<close> on; the other bytes of the file stay.\<close>

lemma block_apart:
  fixes p q :: nat
  shows "p \<noteq> q \<Longrightarrow> a < bs \<Longrightarrow> b \<le> bs \<Longrightarrow> \<not> (p * bs + c \<le> q * bs + a \<and> q * bs + a < p * bs + b)"
proof (cases "p < q")
  case True
  assume "b \<le> bs"
  then show ?thesis using mult_le_mono1 [of "Suc p" q bs] True by simp
next
  case False
  assume "p \<noteq> q" "a < bs"
  then show ?thesis using mult_le_mono1 [of "Suc q" p bs] False by simp
qed

lemma file_byte_write:
  assumes own: "own_data fs v ino i es" and bs: "bs = fs_block_size fs" "0 < bs"
    and k: "k < file_blocks bs i" "lookup es (of_nat k) = (pb, False)" "pb \<noteq> 0"
    and d: "skip + length d \<le> bs" and x: "x < unat (inode_size i)"
  shows "file_byte (image_write v (data_pos bs es k + skip) d) bs es x =
    (if k * bs + skip \<le> x \<and> x < k * bs + skip + length d then d ! (x - (k * bs + skip)) else file_byte v bs es x)"
proof -
  let ?j = "x div bs" and ?a = "x mod bs"
  have xa: "x = ?j * bs + ?a" by simp
  have a: "?a < bs" using bs(2) by simp
  have j: "?j < file_blocks bs i"
    unfolding file_blocks_def using block_before [OF bs(2), of ?j "unat (inode_size i)"] x
    by (meson div_times_less_eq_dividend le_less_trans)
  show ?thesis
  proof (cases "?j = k")
    case True
    then obtain a where a: "x = k * bs + a" "x div bs = k" "x mod bs = a" using xa by metis
    have "data_pos bs es k = unat pb * bs" using k(2) by (simp add: data_pos_def)
    then show ?thesis
      using k(2,3) by (simp add: file_byte_def image_write_def a(2,3)) (auto simp: a(1))
  next
    case False
    obtain q u where q: "lookup es (of_nat ?j) = (q, u)" by (cases "lookup es (of_nat ?j)")
    have "pb \<noteq> q" using own_data_distinct [OF own, of k ?j] k j q False by (auto simp: bs has_block_def)
    then have "unat pb \<noteq> unat q" by (rule contrapos_nn) (rule unsigned_word_eqI)
    from block_apart [OF this a d, of skip]
    have "image_write v (data_pos bs es k + skip) d (unat q * bs + ?a) = v (unat q * bs + ?a)"
      using k(2) by (auto simp: image_write_def data_pos_def add.assoc)
    moreover have "\<not> (k * bs + skip \<le> x \<and> x < k * bs + skip + length d)"
      using block_apart [of k ?j ?a bs "skip + length d" skip] False a d xa by (simp add: add.assoc)
    ultimately show ?thesis using q by (auto simp: file_byte_def)
  qed
qed

section \<open>What a write does to the file\<close>

text \<open>From \<open>v\<close> to \<open>w\<close> the bytes \<open>d\<close> of the file from \<open>off\<close> on have been replaced.\<close>

definition replaced :: "ext4 \<Rightarrow> u32 \<Rightarrow> inode \<Rightarrow> extent list \<Rightarrow> (nat \<Rightarrow> u8) \<Rightarrow> (nat \<Rightarrow> u8) \<Rightarrow> nat \<Rightarrow> bytes \<Rightarrow> bool" where
  "replaced fs ino i es v w off d \<longleftrightarrow> own_data fs w ino i es
     \<and> (\<forall>x < unat (inode_size i). file_byte w (fs_block_size fs) es x =
          (if off \<le> x \<and> x < off + length d then d ! (x - off) else file_byte v (fs_block_size fs) es x))"

lemma replaced_Nil: "own_data fs v ino i es \<Longrightarrow> replaced fs ino i es v v off []"
  by (auto simp: replaced_def)

lemma replaced_append:
  assumes "replaced fs ino i es v w off d" and "replaced fs ino i es w u (off + length d) e"
  shows "replaced fs ino i es v u off (d @ e)"
  using assms unfolding replaced_def by (auto simp: nth_append)

lemma write_part_sees:
  assumes "jd_inv s" and "jd_view s = v" and maps: "maps_blocks v bs (ir_inode r) es" and d: "skip + length d \<le> bs"
  shows "sees (write_part bs r k skip d) s () (image_write v (data_pos bs es k + skip) d)"
proof -
  let ?p = "fst (lookup es (of_nat k))"
  let ?pos = "unat ?p * bs"
  let ?b = "image_read v ?pos bs"
  have get: "sees (get_pblock_idx bs r (of_nat k)) s ?p v"
    using maps get_pblock_idx_lookup [OF reads_view [OF assms(1)], of r _ bs] assms(1,2)
    unfolding maps_blocks_def by (auto simp: sees_def)
  have w: "image_write v ?pos (put ?b skip d) = image_write v (?pos + skip) d"
    using d by (auto simp: image_write_def fun_eq_iff nth_put length_put nth_image_read diff_diff_left)
  have len: "length (put ?b skip d) = bs" using d by (simp add: length_put)
  have verify: "slice (put ?b skip d) skip (length d) = d"
    using d by (simp add: slice_put_same)
  have existing: "sees (if 0 < skip \<or> length d < bs
      then bindS (jd_read ?pos bs) (\<lambda>e. lift (put_at ?b 0 e)) else ret ?b) t ?b v"
    if "jd_inv t" "jd_view t = v" for t
    using that by (auto simp: sees_def bindS_def jd_read_view put_at_def put_def)
  show ?thesis
    unfolding write_part_def Let_def data_pos_def w [symmetric]
    apply (rule sees_bind [OF get])
    apply (rule sees_bind [OF sees_read], assumption+)
    apply (rule sees_bind [OF existing], assumption+)
    apply (rule sees_bind [OF sees_lift], assumption+)
     apply (simp add: put_at_Ok d)
    apply (rule sees_bind [OF sees_write], assumption+)
    apply (rule sees_bind [OF sees_read], assumption+)
    apply (rule sees_bind [OF sees_lift], assumption+)
     apply (simp add: get_at_Ok read_written [OF len] d len)
    apply (simp add: verify sees_ret)
    done
qed


text \<open>A file in place: what the theorems on writing assume of it.\<close>

definition file_ready :: "ext4 \<Rightarrow> (nat \<Rightarrow> u8) \<Rightarrow> u32 \<Rightarrow> inode \<Rightarrow> extent list \<Rightarrow> bool" where
  "file_ready fs v ino i es \<longleftrightarrow> inodes_ready fs \<and> own_data fs v ino i es
     \<and> fs_block_size fs \<le> 2 ^ 16 \<and> unat (inode_size i) \<le> 2 ^ 32 * fs_block_size fs"

definition written_block :: "extent list \<Rightarrow> nat \<Rightarrow> bool" where
  "written_block es k \<longleftrightarrow> fst (lookup es (of_nat k)) \<noteq> 0 \<and> \<not> snd (lookup es (of_nat k))"

lemma write_part_replaces:
  assumes "jd_inv s" and own: "own_data fs (jd_view s) ino i es" and bs: "bs = fs_block_size fs" "0 < bs" "ir_inode r = i"
    and k: "written_block es k" and d: "skip + length d \<le> bs"
    and size: "k * bs + skip + length d \<le> unat (inode_size i)" "d \<noteq> []"
  obtains w where "sees (write_part bs r k skip d) s () w" and "replaced fs ino i es (jd_view s) w (k * bs + skip) d"
proof -
  let ?w = "image_write (jd_view s) (data_pos bs es k + skip) d"
  obtain pb where pb: "lookup es (of_nat k) = (pb, False)" "pb \<noteq> 0"
    using k by (cases "lookup es (of_nat k)") (auto simp: written_block_def)
  have "k * bs < unat (inode_size i)" using size by (cases d) auto
  then have n: "k < file_blocks bs i" using block_before [OF bs(2), of k] by (simp add: file_blocks_def)
  have "own_data fs ?w ino i es"
    using own_data_write [OF own _ _ d [unfolded bs(1)]] n pb by (simp add: bs(1) has_block_def)
  then have "replaced fs ino i es (jd_view s) ?w (k * bs + skip) d"
    using file_byte_write [OF own bs(1,2) n pb d] unfolding replaced_def by (simp add: bs(1))
  moreover have "sees (write_part bs r k skip d) s () ?w"
    using write_part_sees [OF assms(1) refl _ d, of r es k] own_data_inode [OF own] by (simp add: bs)
  ultimately show thesis using that by blast
qed

lemma write_blocks_replaces:
  assumes bs: "bs = fs_block_size fs" "0 < bs" and i: "ir_inode r = i"
  shows "jd_inv s \<Longrightarrow> own_data fs (jd_view s) ino i es \<Longrightarrow> k * bs + length d \<le> unat (inode_size i) \<Longrightarrow>
    (\<And>j. k \<le> j \<Longrightarrow> j * bs < k * bs + length d \<Longrightarrow> written_block es j) \<Longrightarrow>
    \<exists>w. sees (write_blocks bs r k d) s () w \<and> replaced fs ino i es (jd_view s) w (k * bs) d"
proof (induction "length d" arbitrary: d k s rule: less_induct)
  case less
  show ?case
  proof (cases "d = []")
    case True
    then show ?thesis
      using less.prems(1,2) by (subst write_blocks.simps) (auto simp: sees_def replaced_Nil)
  next
    case False
    let ?d = "take bs d"
    have part: "0 + length ?d \<le> bs" "k * bs + 0 + length ?d \<le> unat (inode_size i)" "?d \<noteq> []"
      using less.prems(3) False bs(2) by auto
    have "written_block es k" using less.prems(4) [of k] False by simp
    from write_part_replaces [OF less.prems(1,2) bs i this part]
    obtain w where w: "sees (write_part bs r k 0 ?d) s () w" "replaced fs ino i es (jd_view s) w (k * bs) ?d"
      by auto
    obtain t where t: "write_part bs r k 0 ?d s = (Ok (), t)" "jd_inv t" "jd_view t = w"
      using w(1) by (auto simp: sees_def)
    show ?thesis
    proof (cases "length d \<le> bs")
      case True
      then show ?thesis using False w bs(2)
        by (subst write_blocks.simps) (subst write_blocks.simps, auto simp: sees_def bindS_def)
    next
      case long: False
      have next_off: "(k + 1) * bs + length (drop bs d) = k * bs + length d" using long by simp
      have "\<exists>u. sees (write_blocks bs r (k + 1) (drop bs d)) t () u
          \<and> replaced fs ino i es (jd_view t) u ((k + 1) * bs) (drop bs d)"
        by (rule less.hyps) (use False bs(2) t(2,3) w(2) less.prems(3,4) next_off in \<open>auto simp: replaced_def\<close>)
      then obtain u where u: "sees (write_blocks bs r (k + 1) (drop bs d)) t () u"
        "replaced fs ino i es w u (k * bs + length ?d) (drop bs d)"
        using long t(3) by (auto simp: add.commute)
      have "sees (write_blocks bs r k d) s () u"
        using u(1) t(1) False bs(2) by (subst write_blocks.simps) (auto simp: sees_def bindS_def)
      then show ?thesis using replaced_append [OF w(2) u(2)] by auto
    qed
  qed
qed


lemma write_data_replaces:
  assumes bs: "bs = fs_block_size fs" "0 < bs" and i: "ir_inode r = i"
    and "jd_inv s" and own: "own_data fs (jd_view s) ino i es" and size: "off + length d \<le> unat (inode_size i)"
    and written: "\<And>k. off div bs \<le> k \<Longrightarrow> k * bs < off + length d \<Longrightarrow> written_block es k"
  shows "\<exists>w. sees (write_data bs r off d) s () w \<and> replaced fs ino i es (jd_view s) w off d"
proof (cases "0 < off mod bs \<and> d \<noteq> []")
  case False
  let ?k = "off div bs"
  have run: "write_data bs r off d = write_blocks bs r ?k d" using False by (auto simp: write_data_def)
  show ?thesis
  proof (cases "d = []")
    case True
    then show ?thesis
      using assms(4) own unfolding run by (subst write_blocks.simps) (auto simp: sees_def replaced_Nil)
  next
    case nonempty: False
    then have at: "?k * bs = off" using False by auto
    have "\<exists>w. sees (write_blocks bs r ?k d) s () w \<and> replaced fs ino i es (jd_view s) w (?k * bs) d"
      by (rule write_blocks_replaces [OF bs i assms(4) own]) (use size written in \<open>simp_all only: at\<close>)
    then show ?thesis by (simp only: run at)
  qed
next
  case True
  let ?k = "off div bs" and ?skip = "off mod bs" and ?n = "min (length d) (bs - off mod bs)"
  let ?d = "take ?n d"
  have off: "?k * bs + ?skip = off" by simp
  have skip: "?skip < bs" using bs(2) by simp
  have part: "?skip + length ?d \<le> bs" "?k * bs + ?skip + length ?d \<le> unat (inode_size i)" "?d \<noteq> []"
    using size True skip by (auto simp: min_def)
  have "?k * bs \<le> off" "0 < length d" using True by (auto simp: div_times_less_eq_dividend)
  then have "?k * bs < off + length d" by linarith
  then have "written_block es ?k" using written [of ?k] by simp
  from write_part_replaces [OF assms(4) own bs i this part] off
  obtain w where w: "sees (write_part bs r ?k ?skip ?d) s () w" "replaced fs ino i es (jd_view s) w off ?d" by auto
  obtain t where t: "write_part bs r ?k ?skip ?d s = (Ok (), t)" "jd_inv t" "jd_view t = w"
    using w(1) by (auto simp: sees_def)
  have own_w: "own_data fs (jd_view t) ino i es" using w(2) t(3) by (simp add: replaced_def)
  have "\<exists>u. sees (write_blocks bs r (?k + 1) (drop ?n d)) t () u \<and> replaced fs ino i es w u (off + length ?d) (drop ?n d)"
  proof (cases "length d \<le> bs - ?skip")
    case short: True
    then show ?thesis
      using t(2,3) own_w by (subst write_blocks.simps) (auto simp: sees_def replaced_Nil)
  next
    case False
    then have n: "?n = bs - ?skip" by simp
    have "(?k + 1) * bs = ?k * bs + bs" by simp
    then have next_off: "(?k + 1) * bs = off + ?n" using off skip n by linarith
    have "\<exists>u. sees (write_blocks bs r (?k + 1) (drop ?n d)) t () u
        \<and> replaced fs ino i es (jd_view t) u ((?k + 1) * bs) (drop ?n d)"
    proof (rule write_blocks_replaces [OF bs i t(2) own_w])
      have rest: "(?k + 1) * bs + length (drop ?n d) = off + length d" using next_off False n by simp
      show "(?k + 1) * bs + length (drop ?n d) \<le> unat (inode_size i)" using size by (simp only: rest)
      show "written_block es j" if "?k + 1 \<le> j" "j * bs < (?k + 1) * bs + length (drop ?n d)" for j
        using written [of j] that by (simp only: rest)
    qed
    moreover have "length ?d = ?n" by simp
    ultimately show ?thesis by (simp only: next_off t(3))
  qed
  then obtain u where u: "sees (write_blocks bs r (?k + 1) (drop ?n d)) t () u"
    "replaced fs ino i es w u (off + length ?d) (drop ?n d)" by blast
  have "sees (write_data bs r off d) s () u"
    using u(1) t(1) True by (auto simp: write_data_def Let_def sees_def bindS_def)
  then show ?thesis using replaced_append [OF w(2) u(2)] by auto
qed

text \<open>Where every block is in place there is nothing to punch and nothing to allocate.\<close>

lemma no_unwritten:
  "(\<And>k. lb \<le> k \<Longrightarrow> k < lb + n \<Longrightarrow> unwritten_at fs r k s = (Ok False, s)) \<Longrightarrow>
   punch_unwritten fuel fs n lb r s = (Ok (Some r), s)"
proof (induction n arbitrary: lb)
  case (Suc n)
  have "unwritten_at fs r lb s = (Ok False, s)" using Suc.prems by simp
  then show ?case using Suc.IH [of "lb + 1"] Suc.prems by (simp add: bindS_def)
qed simp

lemma no_holes:
  "(\<And>k. lb \<le> k \<Longrightarrow> k < lb + n \<Longrightarrow> is_hole fs m r k s = (Ok False, s)) \<Longrightarrow>
   fill_holes fs m n lb r bgid s = (Ok (r, None), s)"
proof (induction n arbitrary: lb)
  case (Suc n)
  have "is_hole fs m r lb s = (Ok False, s)" using Suc.prems by simp
  then show ?case using Suc.IH [of "lb + 1"] Suc.prems by (simp add: bindS_def)
qed simp

lemma written_block_state:
  assumes "jd_inv s" and "maps_blocks (jd_view s) (fs_block_size fs) (ir_inode r) es" and "written_block es k"
  shows "unwritten_at fs r k s = (Ok False, s)" and "k < m \<Longrightarrow> is_hole fs m r k s = (Ok False, s)"
proof -
  obtain u where "get_pblock_state (fs_block_size fs) r (of_nat k) s = (Ok (fst (lookup es (of_nat k)), u), s)"
    "fst (lookup es (of_nat k)) \<noteq> 0 \<Longrightarrow> u = snd (lookup es (of_nat k))"
    using get_pblock_state_maps [OF assms(1,2), of "of_nat k"] by blast
  then show "unwritten_at fs r k s = (Ok False, s)"
    using assms(3) by (auto simp: unwritten_at_def bindS_def written_block_def)
  have "get_pblock_idx (fs_block_size fs) r (of_nat k) s = (Ok (fst (lookup es (of_nat k))), s)"
    using assms(2) get_pblock_idx_lookup [OF reads_view [OF assms(1)], of r] unfolding maps_blocks_def by blast
  then show "is_hole fs m r k s = (Ok False, s)" if "k < m"
    using that assms(3) by (simp add: is_hole_def or_value_def bindS_def written_block_def)
qed


section \<open>Reading back what was written\<close>

lemma write_at_replaces:
  fixes fs s ino i es off d fuel
  defines "v \<equiv> jd_view s" and "bs \<equiv> fs_block_size fs"
  assumes "jd_inv s" and ready: "file_ready fs v ino i es"
    and range: "off + length d \<le> unat (inode_size i)"
    and written: "\<forall>k. off div bs \<le> k \<and> k * bs < off + length d \<longrightarrow> written_block es k"
  shows "\<exists>t. write_at_impl fuel fs ino off d s = (Ok (Some (length d)), t) \<and> jd_inv t
    \<and> file_ready fs (jd_view t) ino i es
    \<and> (\<forall>x < unat (inode_size i). file_byte (jd_view t) bs es x =
         (if off \<le> x \<and> x < off + length d then d ! (x - off) else file_byte v bs es x))
    \<and> (\<forall>buf. length buf = length d \<longrightarrow> read_at fs ino off buf t = (Ok (length d, d), t))"
proof -
  let ?r = "\<lparr> ir_inode_num = ino, ir_inode = i \<rparr>" and ?size = "unat (inode_size i)"
  have fsr: "inodes_ready fs" and own: "own_data fs v ino i es" and bs16: "bs \<le> 2 ^ 16" and small: "?size \<le> 2 ^ 32 * bs"
    using ready by (simp_all add: file_ready_def bs_def)
  have bs: "bs = fs_block_size fs" "0 < bs" using fsr by (auto simp: inodes_ready_def bs_def)
  have len: "length d < 2 ^ 63" and size48: "?size \<le> 2 ^ 48" using range small bs16 by auto
  have get: "get_inode_ref fs ino s = (Ok ?r, s)"
    using get_inode_ref_eq [OF assms(3) fsr, of ino] own_data_inode [OF own] by (simp add: v_def)
  obtain w where w: "sees (write_data bs ?r off d) s () w" "replaced fs ino i es v w off d"
    using write_data_replaces [OF bs _ assms(3) own [unfolded v_def] range, of ?r] written unfolding v_def by auto
  then obtain t where t: "write_data bs ?r off d s = (Ok (), t)" "jd_inv t" "jd_view t = w" by (auto simp: sees_def)
  have run: "write_at_impl fuel fs ino off d s = (Ok (Some (length d)), t)" if "d \<noteq> []"
  proof -
    have ends: "usize_add (off + length d) (bs - Suc 0) = off + length d + bs - 1"
      "usize_add off (length d) = off + length d"
      using range size48 bs bs16 by (simp_all add: usize_add_def)
    let ?last = "(off + length d + bs - 1) div bs" and ?first = "off div bs"
    have block: "written_block es k \<and> k < (?size + bs - 1) div bs" if "?first \<le> k" "k < ?first + (?last - ?first)" for k
      using that written block_before [OF bs(2), of k "off + length d"] block_before [OF bs(2), of k ?size] range
      by auto
    note st = written_block_state [OF assms(3), of fs ?r es, folded v_def bs_def]
    have "punch_unwritten fuel fs (?last - ?first) ?first ?r s = (Ok (Some ?r), s)"
      by (rule no_unwritten, rule st(1)) (use own_data_inode [OF own] block in \<open>auto simp: bs\<close>)
    moreover have "fill_holes fs ((?size + bs - 1) div bs) (?last - ?first) ?first ?r 0 s = (Ok (?r, None), s)"
      by (rule no_holes, rule st(2)) (use own_data_inode [OF own] block in \<open>auto simp: bs\<close>)
    moreover have "unat ((inode_size i + of_nat bs - 1) div of_nat bs) = (?size + bs - 1) div bs"
      by (rule ceil_blocks [OF bs(2) bs16 size48])
    ultimately show ?thesis
      using that bs(2) range t(1) get
      by (simp add: write_at_impl_def Let_def bindS_def bindO_def backed_length_def update_file_size_def ends flip: bs_def)
  qed
  have "\<exists>t. write_at_impl fuel fs ino off d s = (Ok (Some (length d)), t) \<and> jd_inv t
      \<and> replaced fs ino i es v (jd_view t) off d"
  proof (cases "d = []")
    case True
    then show ?thesis using assms(3) replaced_Nil [OF own] by (auto simp: write_at_impl_def v_def)
  next
    case False
    then show ?thesis using run t w(2) by blast
  qed
  then obtain t where t: "write_at_impl fuel fs ino off d s = (Ok (Some (length d)), t)" "jd_inv t"
    "replaced fs ino i es v (jd_view t) off d" by blast
  have reread: "file_bytes (jd_view t) bs es off (length d) = d"
    using t(3) range by (intro nth_equalityI) (auto simp: replaced_def file_bytes_def bs_def)
  have ino: "inode_at fs (jd_view t) ino = i" "maps_blocks (jd_view t) bs i es"
    using t(3) own_data_inode by (auto simp: replaced_def bs_def)
  have "read_at fs ino off buf t = (Ok (length d, d), t)" if "length buf = length d" for buf
    using read_at_bytes [OF t(2) fsr, of ino es buf off] ino reread range bs16 small len that by (simp flip: bs_def)
  then show ?thesis
    using t ready unfolding replaced_def file_ready_def bs_def by blast
qed

text \<open>C4: Overwriting inside a file whose blocks are in place. The write reports that all bytes were
  written; afterwards the file holds the written bytes at the offset and every other byte as before,
  its inode and its extents are the same, and reading the range back returns what was written,
  whatever the buffer held that the bytes are read into. Offset and length need not be aligned, the
  extent tree may have any depth, and no fuel is needed. (Blocks that are holes or preallocated get
  their place before the data is written; here there are none in the range.)\<close>

theorem write_at_correct:
  fixes fs s ino i es off d fuel
  defines "v \<equiv> jd_view s" and "bs \<equiv> fs_block_size fs"
  assumes "jd_inv s" and ready: "file_ready fs v ino i es"
    and range: "off + length d \<le> unat (inode_size i)"
    and written: "\<forall>k. off div bs \<le> k \<and> k * bs < off + length d \<longrightarrow> written_block es k"
  shows "\<exists>t. write_at_impl fuel fs ino off d s = (Ok (Some (length d)), t) \<and> jd_inv t
    \<and> file_ready fs (jd_view t) ino i es
    \<and> (\<forall>x < unat (inode_size i). file_byte (jd_view t) bs es x =
         (if off \<le> x \<and> x < off + length d then d ! (x - off) else file_byte v bs es x))
    \<and> (\<forall>buf. length buf = length d \<longrightarrow> read_at fs ino off buf t = (Ok (length d, d), t))"
  by (rule write_at_replaces [OF assms(3-6) [unfolded v_def bs_def], folded v_def bs_def])

lemma file_image_inode:
  assumes "\<And>p. p < 204800 \<Longrightarrow> w p = file_image p"
  shows "inode_at tiny_fs w 12 = sample_file"
proof -
  have "desc_at w tiny_sb 0 = desc_at file_image tiny_sb 0"
    unfolding desc_at_def by (rule image_read_cong) (use assms in \<open>simp add: desc_pos_def\<close>)
  also have "\<dots> = desc_at tiny_image tiny_sb 0"
    by (simp add: file_image_def desc_at_def desc_pos_def read_apart apart_def)
  finally have "inode_pos tiny_fs w 12 = 19200"
    by (simp add: inode_pos_def inode_group_def saturating_sub_def)
  moreover have "image_read w 19200 156 = image_read file_image 19200 156"
    by (rule image_read_cong) (use assms in simp)
  ultimately show ?thesis
    using inode_roundtrip [of sample_file "[]"] by (simp add: inode_at_def file_image_def read_written)
qed

lemma sample_blocks:
  "fst (lookup [sample_extent] (of_nat k)) = (if 2 \<le> k \<and> k < 6 then of_nat (98 + k) else 0)"
  "2 \<le> k \<Longrightarrow> k < 6 \<Longrightarrow> written_block [sample_extent] k" if "k < 10"
proof -
  have "k \<in> {0, 1, 2, 3, 4, 5, 6, 7, 8, 9}" using that by auto
  then show "fst (lookup [sample_extent] (of_nat k)) = (if 2 \<le> k \<and> k < 6 then of_nat (98 + k) else 0)"
    "2 \<le> k \<Longrightarrow> k < 6 \<Longrightarrow> written_block [sample_extent] k"
    by (auto simp: lookup_def covers_def sample_extent_def get_actual_len_def is_unwritten_def EXT_INIT_MAX_LEN_def
        get_pblock_def written_block_def)
qed

lemma sample_file_size: "inode_size sample_file = 10000"
  by (simp add: inode_size_def sample_file_def)

lemma sample_block:
  assumes "k < 10" and "has_block [sample_extent] k"
  shows "2 \<le> k" and "unat (fst (lookup [sample_extent] (of_nat k))) = 98 + k"
proof -
  show "2 \<le> k" using assms sample_blocks(1) [OF assms(1)] by (auto simp: has_block_def split: if_splits)
  have "fst (lookup [sample_extent] (of_nat k)) = of_nat (98 + k)"
    using assms sample_blocks(1) [OF assms(1)] by (auto simp: has_block_def split: if_splits)
  then show "unat (fst (lookup [sample_extent] (of_nat k))) = 98 + k"
    using assms(1) unat_of_nat_small [of "98 + k", where 'a = 64] by simp
qed

lemma sample_ready: "file_ready tiny_fs file_image 12 sample_file [sample_extent]"
proof -
  have n: "file_blocks 2048 sample_file = 5" by (simp add: file_blocks_def sample_file_size)
  have "inode_at tiny_fs w 12 = sample_file"
    if "\<forall>p. (\<forall>k < 5. has_block [sample_extent] k \<longrightarrow>
        p < data_pos 2048 [sample_extent] k \<or> data_pos 2048 [sample_extent] k + 2048 \<le> p) \<longrightarrow> w p = file_image p" for w
  proof (rule file_image_inode, rule that [rule_format])
    fix p k :: nat
    assume p: "p < 204800" and k: "k < 5" "has_block [sample_extent] k"
    then show "p < data_pos 2048 [sample_extent] k \<or> data_pos 2048 [sample_extent] k + 2048 \<le> p"
      using sample_block [of k] by (simp add: data_pos_def)
  qed
  moreover have "k = j" if "k < 5" "j < 5" "has_block [sample_extent] k"
    "fst (lookup [sample_extent] (of_nat k)) = fst (lookup [sample_extent] (of_nat j))" for k j
    using sample_block [of k] sample_block [of j] that by (simp add: has_block_def)
  ultimately have "own_data tiny_fs file_image 12 sample_file [sample_extent]"
    unfolding own_data_def using file_maps n by (simp add: Let_def)
  then show ?thesis using sample_file_size by (simp add: file_ready_def inodes_ready_def)
qed

theorem write_at_correct_witness:
  "\<exists>t. write_at_impl 0 tiny_fs 12 6142 [7, 8, 9] file_dev = (Ok (Some 3), t)
    \<and> read_at tiny_fs 12 6142 [0, 0, 0] t = (Ok (3, [7, 8, 9]), t)"
proof -
  have "\<forall>k. 6142 div 2048 \<le> k \<and> k * 2048 < 6145 \<longrightarrow> written_block [sample_extent] k"
    using sample_blocks(2) by auto
  then show ?thesis
    using write_at_correct [of file_dev tiny_fs 12 sample_file "[sample_extent]" 6142 "[7, 8, 9]" 0] sample_ready
    by (auto simp: sample_file_size)
qed

end
