(* ===== verification/DirHash.thy ===== *)
theory DirHash
  imports Errors
begin

text \<open>
  The directory hash of \<open>src/src/ext4_impls/htree.rs\<close>: the legacy hash, half MD4 and TEA over a name packed
  into words, each for signed and unsigned characters. Names are their UTF-8 bytes; the four words of
  a buffer are a tuple, the eight words of input a list.
\<close>


section \<open>Half MD4\<close>

definition rol32 :: "u32 \<Rightarrow> nat \<Rightarrow> u32" where
  "rol32 x s = word_rotl s x"

definition round_f :: "u32 \<Rightarrow> u32 \<Rightarrow> u32 \<Rightarrow> u32" where
  "round_f b c d = d XOR (b AND (c XOR d))"

definition round_g :: "u32 \<Rightarrow> u32 \<Rightarrow> u32 \<Rightarrow> u32" where
  "round_g b c d = (b AND c) + ((b XOR c) AND d)"

definition round_h :: "u32 \<Rightarrow> u32 \<Rightarrow> u32 \<Rightarrow> u32" where
  "round_h b c d = b XOR c XOR d"

text \<open>A round assigns to one of the four variables, and the next round has them in turned roles: after
  \<open>a\<close> comes \<open>d\<close>, then \<open>c\<close>, then \<open>b\<close>.\<close>

type_synonym quad = "u32 \<times> u32 \<times> u32 \<times> u32"

definition md4_step :: "(u32 \<Rightarrow> u32 \<Rightarrow> u32 \<Rightarrow> u32) \<Rightarrow> u32 \<Rightarrow> nat \<Rightarrow> quad \<Rightarrow> quad" where
  "md4_step f x s q = (case q of (a, b, c, d) \<Rightarrow> (d, rol32 (a + f b c d + x) s, b, c))"

fun md4_steps :: "(u32 \<Rightarrow> u32 \<Rightarrow> u32 \<Rightarrow> u32) \<Rightarrow> u32 \<Rightarrow> u32 list \<Rightarrow> (nat \<times> nat) list \<Rightarrow> quad \<Rightarrow> quad" where
  "md4_steps f k inb [] q = q"
| "md4_steps f k inb ((i, s) # rest) q = md4_steps f k inb rest (md4_step f (inb ! i + k) s q)"

definition half_md4_transform :: "quad \<Rightarrow> u32 list \<Rightarrow> quad" where
  "half_md4_transform buf inb =
     (let q = md4_steps round_f 0 inb [(0, 3), (1, 7), (2, 11), (3, 19), (4, 3), (5, 7), (6, 11), (7, 19)] buf;
          q = md4_steps round_g 0x5A827999 inb [(1, 3), (3, 5), (5, 9), (7, 13), (0, 3), (2, 5), (4, 9), (6, 13)] q;
          q = md4_steps round_h 0x6ED9EBA1 inb [(3, 3), (7, 9), (2, 11), (6, 15), (1, 3), (5, 9), (0, 11), (4, 15)] q
      in case (buf, q) of ((a0, b0, c0, d0), (a, b, c, d)) \<Rightarrow> (a0 + a, b0 + b, c0 + c, d0 + d))"

section \<open>TEA\<close>

definition TEA_DELTA :: u32 where "TEA_DELTA = 0x9E3779B9"

fun tea_rounds :: "nat \<Rightarrow> u32 \<Rightarrow> quad \<Rightarrow> u32 \<Rightarrow> u32 \<Rightarrow> u32 \<times> u32" where
  "tea_rounds 0 acc inb b0 b1 = (b0, b1)"
| "tea_rounds (Suc n) acc inb b0 b1 =
     (case inb of (a, b, c, d) \<Rightarrow>
      let acc = acc + TEA_DELTA;
          b0 = b0 + ((push_bit 4 b1 + a) XOR (b1 + acc) XOR (drop_bit 5 b1 + b));
          b1 = b1 + ((push_bit 4 b0 + c) XOR (b0 + acc) XOR (drop_bit 5 b0 + d))
      in tea_rounds n acc inb b0 b1)"

definition tea_transform :: "quad \<Rightarrow> quad \<Rightarrow> quad" where
  "tea_transform buf inb =
     (case buf of (x0, x1, x2, x3) \<Rightarrow> case tea_rounds 16 0 inb x0 x1 of (b0, b1) \<Rightarrow> (x0 + b0, x1 + b1, x2, x3))"

section \<open>The legacy hash\<close>

text \<open>A byte as a C character: sign-extended or not.\<close>

definition char32 :: "bool \<Rightarrow> u8 \<Rightarrow> u32" where
  "char32 is_signed c = (if is_signed then scast c else ucast c)"

fun hack_loop :: "bool \<Rightarrow> bytes \<Rightarrow> u32 \<Rightarrow> u32 \<Rightarrow> u32" where
  "hack_loop is_signed [] hash0 hash1 = hash0"
| "hack_loop is_signed (ch # name) hash0 hash1 =
     (let hash = hash1 + (hash0 XOR (char32 is_signed ch * 7152373));
          hash = (if hash AND 0x80000000 \<noteq> 0 then hash - 0x7FFFFFFF else hash)
      in hack_loop is_signed name hash hash0)"

definition dx_hack_hash :: "bytes \<Rightarrow> bool \<Rightarrow> u32" where
  "dx_hack_hash name is_signed = push_bit 1 (hack_loop is_signed name 0x12A3FE2D 0x37ABE8F9)"

section \<open>Packing\<close>

definition hash_pad :: "nat \<Rightarrow> u32" where
  "hash_pad len = (let p = of_nat len OR push_bit 8 (of_nat len) in p OR push_bit 16 p)"

text \<open>The loop over the characters: the index, the word being packed and the words done.\<close>

fun pack_loop :: "bool \<Rightarrow> u32 \<Rightarrow> bytes \<Rightarrow> nat \<Rightarrow> u32 \<Rightarrow> u32 list \<Rightarrow> u32 \<times> u32 list" where
  "pack_loop is_signed pad [] i val words = (val, words)"
| "pack_loop is_signed pad (c # cs) i val words =
     (let val = char32 is_signed c + push_bit 8 val in
      if i mod 4 = 3 then pack_loop is_signed pad cs (i + 1) pad (words @ [val])
      else pack_loop is_signed pad cs (i + 1) val words)"

text \<open>The array of eight words is all padding at first, so the words that are not written are.\<close>

definition str2hashbuf :: "bytes \<Rightarrow> nat \<Rightarrow> bool \<Rightarrow> u32 list" where
  "str2hashbuf msg num is_signed =
     (let pad = hash_pad (length msg);
          (val, words) = pack_loop is_signed pad (take (min (length msg) (num * 4)) msg) 0 pad [];
          words = (if length words < num then words @ [val] else words)
      in words @ replicate (8 - length words) pad)"

section \<open>The directory hash\<close>

function md4_loop :: "bool \<Rightarrow> bytes \<Rightarrow> quad \<Rightarrow> quad" where
  "md4_loop is_signed p buf =
     (let buf = half_md4_transform buf (str2hashbuf p 8 is_signed) in
      if length p \<le> 32 then buf else md4_loop is_signed (drop 32 p) buf)"
  by pat_completeness auto
termination by (relation "measure (\<lambda>(s, p, b). length p)") auto

function tea_loop :: "bool \<Rightarrow> bytes \<Rightarrow> quad \<Rightarrow> quad" where
  "tea_loop is_signed p buf =
     (let full = str2hashbuf p 4 is_signed;
          buf = tea_transform buf (full ! 0, full ! 1, full ! 2, full ! 3) in
      if length p \<le> 16 then buf else tea_loop is_signed (drop 16 p) buf)"
  by pat_completeness auto
termination by (relation "measure (\<lambda>(s, p, b). length p)") auto

declare md4_loop.simps [simp del] tea_loop.simps [simp del]

definition EXT4_HTREE_EOF_32BIT :: u32 where "EXT4_HTREE_EOF_32BIT = 0x7FFFFFFF"

definition reserve_hash :: "u32 \<Rightarrow> u32" where
  "reserve_hash major =
     (let hash = major AND NOT 1 in
      if hash = push_bit 1 EXT4_HTREE_EOF_32BIT then push_bit 1 (EXT4_HTREE_EOF_32BIT - 1) else hash)"

definition ext4_dir_hash :: "bytes \<Rightarrow> u8 \<Rightarrow> quad \<Rightarrow> u32 \<times> u32" where
  "ext4_dir_hash name hash_version seed =
     (let buf = (if seed = (0, 0, 0, 0) then (0x67452301, 0xEFCDAB89, 0x98BADCFE, 0x10325476) else seed) in
      if hash_version = 0 \<or> hash_version = 3 then (reserve_hash (dx_hack_hash name (hash_version = 0)), 0)
      else if hash_version = 1 \<or> hash_version = 4
        then (case md4_loop (hash_version = 1) name buf of (h0, h1, h2, h3) \<Rightarrow> (reserve_hash h1, h2))
      else if hash_version = 2 \<or> hash_version = 5
        then (case tea_loop (hash_version = 2) name buf of (h0, h1, h2, h3) \<Rightarrow> (reserve_hash h0, h1))
      else (0, 0))"

section \<open>Properties\<close>

definition ascii :: "bytes \<Rightarrow> bool" where
  "ascii name \<longleftrightarrow> (\<forall>c \<in> set name. c < 128)"

lemma char32_ascii: "c < 128 \<Longrightarrow> char32 s c = ucast c"
proof -
  assume "c < 128"
  then have b: "\<not> bit c 7"
    using bit_take_bit_iff [of 7 c 7] by (simp add: take_bit_eq_mod word_less_nat_alt word_mod_less_divisor bit_iff_odd div_word_less)
  have "(scast c :: u32) = ucast c"
  proof (rule bit_word_eqI)
    fix n
    show "bit (scast c :: u32) n \<longleftrightarrow> bit (ucast c :: u32) n" if "n < LENGTH(32)"
      using b bit_imp_le_length [of c n] that by (cases "n \<le> 7") (auto simp: bit_simps min_def)
  qed
  then show ?thesis by (simp add: char32_def)
qed

lemma pack_loop_ascii:
  "ascii cs \<Longrightarrow> pack_loop True pad cs i val words = pack_loop False pad cs i val words"
proof (induction cs arbitrary: i val words)
  case (Cons c cs)
  then have "ascii cs" "c < 128" by (simp_all add: ascii_def)
  then show ?case using Cons.IH by (simp add: Let_def char32_ascii)
qed simp

lemma str2hashbuf_ascii: "ascii msg \<Longrightarrow> str2hashbuf msg num True = str2hashbuf msg num False"
proof -
  assume "ascii msg"
  then have "ascii (take n msg)" for n by (auto simp: ascii_def dest: in_set_takeD)
  from pack_loop_ascii [OF this] show ?thesis by (simp only: str2hashbuf_def Let_def)
qed

lemma ascii_drop: "ascii msg \<Longrightarrow> ascii (drop k msg)"
  by (auto simp: ascii_def dest: in_set_dropD)

lemma md4_loop_ascii: "ascii p \<Longrightarrow> md4_loop True p buf = md4_loop False p buf"
proof (induction "length p" arbitrary: p buf rule: less_induct)
  case less
  have "md4_loop True (drop 32 p) b = md4_loop False (drop 32 p) b" if "32 < length p" for b
    by (rule less.hyps) (use that less.prems ascii_drop in auto)
  then show ?case
    using str2hashbuf_ascii [OF less.prems] by (simp add: md4_loop.simps [of _ p] Let_def)
qed

lemma tea_loop_ascii: "ascii p \<Longrightarrow> tea_loop True p buf = tea_loop False p buf"
proof (induction "length p" arbitrary: p buf rule: less_induct)
  case less
  have "tea_loop True (drop 16 p) b = tea_loop False (drop 16 p) b" if "16 < length p" for b
    by (rule less.hyps) (use that less.prems ascii_drop in auto)
  then show ?case
    using str2hashbuf_ascii [OF less.prems] by (simp add: tea_loop.simps [of _ p] Let_def)
qed

lemma hack_loop_ascii: "ascii p \<Longrightarrow> hack_loop True p a b = hack_loop False p a b"
proof (induction p arbitrary: a b)
  case (Cons c p)
  then have "ascii p" "c < 128" by (simp_all add: ascii_def)
  then show ?case using Cons.IH by (simp add: Let_def char32_ascii)
qed simp

lemma reserve_hash_free: "\<not> bit (reserve_hash m) 0 \<and> reserve_hash m \<noteq> push_bit 1 EXT4_HTREE_EOF_32BIT"
  by (auto simp: reserve_hash_def Let_def EXT4_HTREE_EOF_32BIT_def bit_simps)

lemma length_pack_loop:
  "length (snd (pack_loop s pad cs i val words)) = length words + ((i + length cs) div 4 - i div 4)"
proof (induction cs arbitrary: i val words)
  case (Cons c cs)
  show ?case
  proof (cases "i mod 4 = 3")
    case True
    then have "(i + 1) div 4 = i div 4 + 1" by presburger
    moreover have "i div 4 + 1 \<le> (i + 1 + length cs) div 4"
      using calculation by (metis div_le_mono le_add1)
    ultimately show ?thesis using True by (simp add: Cons.IH Let_def) arith
  next
    case False
    then have "(i + 1) div 4 = i div 4" by presburger
    then show ?thesis using False by (simp add: Cons.IH Let_def)
  qed
qed simp

lemma length_str2hashbuf: "num \<le> 8 \<Longrightarrow> length (str2hashbuf msg num s) = 8"
proof -
  assume n: "num \<le> 8"
  let ?p = "pack_loop s (hash_pad (length msg)) (take (min (length msg) (num * 4)) msg) 0 (hash_pad (length msg)) []"
  have "length (snd ?p) = min (length msg) (num * 4) div 4" by (simp add: length_pack_loop)
  also have "\<dots> \<le> num * 4 div 4" by (rule div_le_mono) simp
  finally have "length (snd ?p) \<le> num" by simp
  then show ?thesis using n by (auto simp: str2hashbuf_def Let_def split: prod.split)
qed

text \<open>The directory hash never gives a value that the index reserves: bit 0 is clear and the
  end-of-tree value does not occur, whatever the name, the version byte of the directory and the
  seed; an unknown version gives 0. The signed and the unsigned variant of each algorithm agree on
  names of ASCII characters, so a directory of such names is found whichever variant wrote it.\<close>

theorem dir_hash_reserved:
  "\<not> bit (fst (ext4_dir_hash name version seed)) 0
   \<and> fst (ext4_dir_hash name version seed) \<noteq> push_bit 1 EXT4_HTREE_EOF_32BIT
   \<and> (5 < version \<longrightarrow> ext4_dir_hash name version seed = (0, 0))
   \<and> (ascii name \<and> version \<le> 2 \<longrightarrow> ext4_dir_hash name version seed = ext4_dir_hash name (version + 3) seed)"
proof -
  have "version = 0 \<or> version = 1 \<or> version = 2" if "version \<le> 2"
    using that by (auto simp: word_le_nat_alt word_unat_eq_iff)
  then have "ascii name \<and> version \<le> 2 \<longrightarrow> ext4_dir_hash name version seed = ext4_dir_hash name (version + 3) seed"
    by (auto simp: ext4_dir_hash_def Let_def md4_loop_ascii tea_loop_ascii hack_loop_ascii dx_hack_hash_def)
  moreover have "5 < version \<longrightarrow> ext4_dir_hash name version seed = (0, 0)"
    by (auto simp: ext4_dir_hash_def)
  moreover have "\<not> bit (fst (ext4_dir_hash name version seed)) 0
      \<and> fst (ext4_dir_hash name version seed) \<noteq> push_bit 1 EXT4_HTREE_EOF_32BIT"
    using reserve_hash_free by (simp add: ext4_dir_hash_def Let_def EXT4_HTREE_EOF_32BIT_def split: prod.split)
  ultimately show ?thesis by blast
qed

theorem dir_hash_reserved_witness:
  "ext4_dir_hash [0x66, 0x6F, 0x6F] 1 (0, 0, 0, 0) = ext4_dir_hash [0x66, 0x6F, 0x6F] 4 (0, 0, 0, 0)
   \<and> ext4_dir_hash [0xE9] 7 (1, 2, 3, 4) = (0, 0)"
  using dir_hash_reserved [of "[0x66, 0x6F, 0x6F]" 1 "(0, 0, 0, 0)"] dir_hash_reserved [of "[0xE9]" 7 "(1, 2, 3, 4)"]
  by (simp add: ascii_def)

end
