(* ===== verification/DirEntry.thy ===== *)
theory DirEntry
  imports Views
begin

text \<open>
  Directory entries (\<open>src/src/ext4_defs/direntry.rs\<close>): the struct and its accessors, and the tail of
  a directory block with its checksum.

  \<open>Ext4DirEntry\<close> is a 264-byte struct (8 bytes of header, 255 of name, one of padding) that is cast
  from and copied to the block at the offset of an entry, however short the entry is. A cast that reaches
  past the buffer is \<open>Undef\<close>. An on-disk entry is shorter than the struct, so the casts
  overlap the entries that follow. Strings are their UTF-8 bytes.
\<close>

section \<open>The structs\<close>

definition dir_entry_layout :: layout where
  "dir_entry_layout = [(''inode'', 4, 1), (''entry_len'', 2, 1), (''name_len'', 1, 1), (''inner'', 1, 1),
     (''name'', 1, 255)]"

definition fake_dir_entry_layout :: layout where
  "fake_dir_entry_layout = [(''inode'', 4, 1), (''entry_length'', 2, 1), (''name_length'', 1, 1),
     (''inode_type'', 1, 1)]"

definition dir_entry_tail_layout :: layout where
  "dir_entry_tail_layout = [(''reserved_zero1'', 4, 1), (''rec_len'', 2, 1), (''reserved_zero2'', 1, 1),
     (''reserved_ft'', 1, 1), (''checksum'', 4, 1)]"

lemma dir_layouts:
  "size_of dir_entry_layout = 264" "size_of fake_dir_entry_layout = 8" "size_of dir_entry_tail_layout = 12"
  "offset_of dir_entry_layout ''inode'' = 0" "offset_of dir_entry_layout ''entry_len'' = 4"
  "offset_of dir_entry_layout ''name_len'' = 6" "offset_of dir_entry_layout ''inner'' = 7"
  "offset_of dir_entry_layout ''name'' = 8" "offset_of dir_entry_tail_layout ''checksum'' = 8"
  by code_simp+

type_synonym dir_entry = bytes

definition de_inode :: "dir_entry \<Rightarrow> u32" where "de_inode de = le_get 0 4 de"
definition de_entry_len :: "dir_entry \<Rightarrow> u16" where "de_entry_len de = le_get 4 2 de"
definition de_name_len :: "dir_entry \<Rightarrow> u8" where "de_name_len de = le_get 6 1 de"
definition get_de_type :: "dir_entry \<Rightarrow> u8" where "get_de_type de = le_get 7 1 de"
definition de_name :: "dir_entry \<Rightarrow> bytes" where "de_name de = slice de 8 255"

definition default_dir_entry :: dir_entry where "default_dir_entry = replicate 264 0"

definition de_unused :: "dir_entry \<Rightarrow> bool" where "de_unused de \<longleftrightarrow> de_inode de = 0"
definition set_unused :: "dir_entry \<Rightarrow> dir_entry" where "set_unused de = le_put 0 4 (0 :: u32) de"

definition compare_name :: "dir_entry \<Rightarrow> bytes \<Rightarrow> bool" where
  "compare_name de name \<longleftrightarrow>
     (if unat (de_name_len de) = length name then take (length name) (de_name de) = name else False)"

definition get_name_len :: "dir_entry \<Rightarrow> nat" where "get_name_len de = unat (de_name_len de)"
definition actual_len :: "dir_entry \<Rightarrow> nat" where "actual_len de = 8 + unat (de_name_len de)"

text \<open>\<open>(len + 3) & !3\<close> on lengths.\<close>

definition align4 :: "nat \<Rightarrow> nat" where "align4 n = (n + 3) div 4 * 4"
definition align_len :: "dir_entry \<Rightarrow> nat" where "align_len de = align4 (actual_len de)"

text \<open>\<open>core::str::from_utf8\<close> accepts the well-formed byte sequences of Unicode: no overlong forms, no
  surrogates, nothing above \<open>U+10FFFF\<close>. \<open>get_name\<close> unwraps its result.\<close>

definition utf8_cont :: "u8 \<Rightarrow> bool" where "utf8_cont b \<longleftrightarrow> 0x80 \<le> b \<and> b \<le> 0xBF"

fun utf8_valid :: "bytes \<Rightarrow> bool" where
  "utf8_valid [] = True"
| "utf8_valid (a # bs) =
     (if a < 0x80 then utf8_valid bs
      else if 0xC2 \<le> a \<and> a \<le> 0xDF
        then (case bs of b # bs \<Rightarrow> utf8_cont b \<and> utf8_valid bs | _ \<Rightarrow> False)
      else if 0xE0 \<le> a \<and> a \<le> 0xEF
        then (case bs of b # c # bs \<Rightarrow>
            (if a = 0xE0 then 0xA0 \<le> b \<and> b \<le> 0xBF
             else if a = 0xED then 0x80 \<le> b \<and> b \<le> 0x9F else utf8_cont b)
            \<and> utf8_cont c \<and> utf8_valid bs
          | _ \<Rightarrow> False)
      else if 0xF0 \<le> a \<and> a \<le> 0xF4
        then (case bs of b # c # d # bs \<Rightarrow>
            (if a = 0xF0 then 0x90 \<le> b \<and> b \<le> 0xBF
             else if a = 0xF4 then 0x80 \<le> b \<and> b \<le> 0x8F else utf8_cont b)
            \<and> utf8_cont c \<and> utf8_cont d \<and> utf8_valid bs
          | _ \<Rightarrow> False)
      else False)"

definition get_name :: "dir_entry \<Rightarrow> bytes res" where
  "get_name de =
     (let name = take (unat (de_name_len de)) (de_name de) in if utf8_valid name then Ok name else Panic)"

text \<open>\<open>name.len() as u8\<close> drops the high bits; the copy panics for a name of more than 255 bytes.\<close>

definition write_entry :: "u16 \<Rightarrow> u32 \<Rightarrow> bytes \<Rightarrow> u8 \<Rightarrow> dir_entry \<Rightarrow> dir_entry res" where
  "write_entry entry_len inode name de_type de =
     (let de = le_put 7 1 de_type (le_put 6 1 (of_nat (length name) :: u8)
                 (le_put 4 2 entry_len (le_put 0 4 inode de))) in
      if length name \<le> 255 then Ok (put de 8 name) else Panic)"

text \<open>\<open>read_offset_as\<close>, \<open>try_from(&data[offset..])\<close> and \<open>copy_to_slice\<close>. The slice expression panics
  past the end of the buffer before the cast is made.\<close>

definition read_de :: "bytes \<Rightarrow> nat \<Rightarrow> dir_entry res" where
  "read_de data offset = (if offset + 264 \<le> length data then Ok (slice data offset 264) else Undef)"

definition try_from :: "bytes \<Rightarrow> nat \<Rightarrow> dir_entry res" where
  "try_from data offset = (if length data < offset then Panic else read_de data offset)"

definition de_copy_to_slice :: "dir_entry \<Rightarrow> bytes \<Rightarrow> nat \<Rightarrow> bytes res" where
  "de_copy_to_slice de data offset = (if offset + 264 \<le> length data then Ok (put data offset de) else Undef)"

definition write_de_to_blk :: "dir_entry \<Rightarrow> block \<Rightarrow> nat \<Rightarrow> block res" where
  "write_de_to_blk de blk offset =
     map_res (\<lambda>d. blk\<lparr> blk_data := d \<rparr>) (put_at (blk_data blk) offset de)"

section \<open>The tail\<close>

type_synonym dir_entry_tail = bytes

definition tail_new :: dir_entry_tail where
  "tail_new = le_put 7 1 (0xDE :: u8) (le_put 4 2 (12 :: u16) (replicate 12 0))"

definition tail_checksum :: "dir_entry_tail \<Rightarrow> u32" where "tail_checksum t = le_get 8 4 t"

text \<open>The seed of a directory's checksums, shared by leaf blocks and index blocks.\<close>

definition ext4_dir_block_csum :: "superblock \<Rightarrow> u32 \<Rightarrow> u32 \<Rightarrow> bytes \<Rightarrow> u32 res" where
  "ext4_dir_block_csum sb dir_ino ino_gen data =
     bind (ext4_crc32c EXT4_CRC32_INIT (slice sb (offset_of superblock_layout ''uuid'') 16) 16) (\<lambda>c.
     bind (ext4_crc32c c (le_bytes 4 dir_ino) 4) (\<lambda>c.
     bind (ext4_crc32c c (le_bytes 4 ino_gen) 4) (\<lambda>c.
       let block_data_size = unat (block_size sb) - 12 in
     bind (get_at data 0 block_data_size) (\<lambda>d.
     ext4_crc32c c d (of_nat block_data_size)))))"

definition tail_set_csum :: "superblock \<Rightarrow> u32 \<Rightarrow> u32 \<Rightarrow> bytes \<Rightarrow> dir_entry_tail \<Rightarrow> dir_entry_tail res" where
  "tail_set_csum sb dir_ino ino_gen data t =
     map_res (\<lambda>c. le_put 8 4 c t) (ext4_dir_block_csum sb dir_ino ino_gen data)"

definition tail_copy_to_slice :: "dir_entry_tail \<Rightarrow> bytes \<Rightarrow> bytes res" where
  "tail_copy_to_slice t data = (if 12 \<le> length data then Ok (put data (length data - 12) t) else Undef)"

text \<open>\<open>dir_set_csum\<close> reads the tail at the end of a block of \<open>bs\<close> bytes and stamps it.\<close>

definition dir_set_csum :: "superblock \<Rightarrow> bytes \<Rightarrow> u32 \<Rightarrow> u32 \<Rightarrow> bytes res" where
  "dir_set_csum sb data dir_ino ino_gen =
     (let tail_offset = unat (block_size sb) - 12 in
      if tail_offset + 12 \<le> length data
      then bind (tail_set_csum sb dir_ino ino_gen data (slice data tail_offset 12)) (\<lambda>t.
           tail_copy_to_slice t data)
      else Undef)"

end
