(* ===== verification/DirBlock.thy ===== *)
theory DirBlock
  imports DirEntry
begin

text \<open>
  One block of a directory: the parts of \<open>src/src/ext4_impls/dir.rs\<close> that find a name in a block,
  insert an entry, unlink one, retarget one and list them, and the leaf blocks of the hash tree
  (\<open>src/src/ext4_impls/htree.rs\<close>).

  The specification is a list of entries: \<open>holds data off es lim\<close> says that the entries \<open>es\<close> lie in
  the block one after the other from \<open>off\<close> and end at \<open>lim\<close>, each at least 264 bytes before the end
  of the buffer, so that the casts stay inside. \<open>names es\<close> is the map from names to inode numbers
  that they make.
\<close>

section \<open>The code\<close>

text \<open>\<open>usize\<close> subtraction wraps.\<close>

definition usize_sub :: "nat \<Rightarrow> nat \<Rightarrow> nat" where
  "usize_sub a b = (2 ^ 64 + a - b) mod 2 ^ 64"

record dir_search =
  ds_dentry :: dir_entry
  ds_pblock_id :: nat
  ds_offset :: nat
  ds_prev_offset :: nat

function find_loop :: "nat \<Rightarrow> bytes \<Rightarrow> bytes \<Rightarrow> nat \<Rightarrow> nat \<Rightarrow> dir_search res" where
  "find_loop lim data name offset prev_de_offset =
     (if offset < lim
      then bind (read_de data offset) (\<lambda>de.
        if \<not> de_unused de \<and> compare_name de name
        then Ok \<lparr> ds_dentry = de, ds_pblock_id = 0, ds_offset = offset, ds_prev_offset = prev_de_offset \<rparr>
        else let de_len = unat (de_entry_len de) in
          if de_len = 0 then Err ENOENT
          else find_loop lim data name (offset + de_len) offset)
      else Err ENOENT)"
  by pat_completeness auto
termination
  by (relation "measure (\<lambda>(lim, data, name, offset, prev). lim - offset)") auto

declare find_loop.simps [simp del]

definition dir_find_in_block :: "nat \<Rightarrow> bytes \<Rightarrow> bytes \<Rightarrow> dir_search res" where
  "dir_find_in_block bs data name = find_loop (bs - 12) data name 0 0"

text \<open>The entries of one block, each with the position after it; \<open>base\<close> is the position of the block
  in the directory file.\<close>

function entries_loop :: "nat \<Rightarrow> bytes \<Rightarrow> u64 \<Rightarrow> u64 \<Rightarrow> nat \<Rightarrow> (dir_entry \<times> u64) list res" where
  "entries_loop lim data base start offset =
     (if offset < lim
      then bind (read_de data offset) (\<lambda>de.
        let pos = base + of_nat offset; de_len = unat (de_entry_len de) in
        if de_len = 0 then Ok []
        else map_res (\<lambda>rest. if \<not> de_unused de \<and> start \<le> pos then (de, pos + of_nat de_len) # rest else rest)
               (entries_loop lim data base start (offset + de_len)))
      else Ok [])"
  by pat_completeness auto
termination
  by (relation "measure (\<lambda>(lim, data, base, start, offset). lim - offset)") auto

declare entries_loop.simps [simp del]

function has_entry_loop :: "nat \<Rightarrow> bytes \<Rightarrow> nat \<Rightarrow> bool res" where
  "has_entry_loop lim data offset =
     (if offset < lim
      then bind (read_de data offset) (\<lambda>de. let de_len = unat (de_entry_len de) in
        if de_len = 0 then Ok False
        else if de_inode de = 0 then has_entry_loop lim data (offset + de_len)
        else bind (get_name de) (\<lambda>name.
          if name = [0x2E] \<or> name = [0x2E, 0x2E] then has_entry_loop lim data (offset + de_len) else Ok True))
      else Ok False)"
  by pat_completeness auto
termination
  by (relation "measure (\<lambda>(lim, data, offset). lim - offset)") auto

declare has_entry_loop.simps [simp del]

text \<open>The length an insertion asks for counts the whole struct: it must be writable after the entry
  that gives up its slack. \<open>used_size\<close> is what an entry with a name of \<open>n\<close> bytes needs on disk.\<close>

definition required_len :: "nat \<Rightarrow> nat" where
  "required_len n = (let len = 264 + n in if len mod 4 \<noteq> 0 then len + (4 - len mod 4) else len)"

definition used_size :: "nat \<Rightarrow> nat" where
  "used_size n = (if n mod 4 \<noteq> 0 then 8 + n + (4 - n mod 4) else 8 + n)"

function insert_loop :: "nat \<Rightarrow> bytes \<Rightarrow> bytes \<Rightarrow> u32 \<Rightarrow> u8 \<Rightarrow> nat \<Rightarrow> bytes res" where
  "insert_loop lim data name child_inode de_type offset =
     (if offset < lim
      then bind (try_from data offset) (\<lambda>de.
        let entry_rec_len = unat (de_entry_len de) in
        if entry_rec_len = 0 then Err ENOSPC
        else if de_unused de then insert_loop lim data name child_inode de_type (offset + entry_rec_len)
        else let sz = used_size (unat (de_name_len de)); free_space = usize_sub entry_rec_len sz in
          if required_len (length name) \<le> free_space
          then bind (write_entry (of_nat free_space) child_inode name de_type default_dir_entry) (\<lambda>new_entry.
            bind (de_copy_to_slice (le_put 4 2 (of_nat sz :: u16) de) data offset) (\<lambda>data.
            de_copy_to_slice new_entry data (offset + sz)))
          else insert_loop lim data name child_inode de_type (offset + entry_rec_len))
      else Err ENOSPC)"
  by pat_completeness auto
termination
  by (relation "measure (\<lambda>(lim, data, name, child, ty, offset). lim - offset)") auto

declare insert_loop.simps [simp del]

definition insert_to_block :: "nat \<Rightarrow> bytes \<Rightarrow> bytes \<Rightarrow> u32 \<Rightarrow> u8 \<Rightarrow> bytes res" where
  "insert_to_block bs data name child_inode de_type = insert_loop (bs - 12) data name child_inode de_type 0"

text \<open>\<open>insert_to_new_block\<close> copies the entry twice.\<close>

definition insert_to_new_block :: "nat \<Rightarrow> bytes \<Rightarrow> u32 \<Rightarrow> bytes \<Rightarrow> u8 \<Rightarrow> bytes res" where
  "insert_to_new_block bs data inode name de_type =
     bind (write_entry (of_nat (bs - 12)) inode name de_type default_dir_entry) (\<lambda>new_entry.
     bind (de_copy_to_slice new_entry data 0) (\<lambda>data.
     bind (de_copy_to_slice new_entry data 0) (\<lambda>data.
     tail_copy_to_slice tail_new data)))"

text \<open>Unlinking: \<open>pred_loop\<close> finds the entry before \<open>pos\<close>, which takes over the length of the
  removed one; the first entry of a block is only marked unused.\<close>

function pred_loop :: "bytes \<Rightarrow> nat \<Rightarrow> nat \<Rightarrow> nat \<Rightarrow> (nat \<times> nat) res" where
  "pred_loop data pos offset de_len =
     (if offset + de_len < pos
      then if de_len = 0 then Err EINVAL
           else bind (read_de data (offset + de_len)) (\<lambda>tmp_de.
                pred_loop data pos (offset + de_len) (unat (de_entry_len tmp_de)))
      else Ok (offset, de_len))"
  by pat_completeness auto
termination
  by (relation "measure (\<lambda>(data, pos, offset, de_len). pos - offset)") auto

declare pred_loop.simps [simp del]

definition remove_from_block :: "bytes \<Rightarrow> nat \<Rightarrow> dir_entry \<Rightarrow> bytes res" where
  "remove_from_block data pos dentry =
     bind (read_de data pos) (\<lambda>_.
     let data = le_put pos 4 (0 :: u32) data in
     if pos \<noteq> 0
     then bind (read_de data 0) (\<lambda>tmp_de.
       bind (pred_loop data pos 0 (unat (de_entry_len tmp_de))) (\<lambda>(offset, de_len).
       if de_len + offset \<noteq> pos then Err EINVAL
       else bind (read_de data offset) (\<lambda>_.
         Ok (le_put (offset + 4) 2 (of_nat de_len + de_entry_len dentry) data))))
     else Ok data)"

definition retarget_in_block :: "bytes \<Rightarrow> nat \<Rightarrow> u32 \<Rightarrow> u8 \<Rightarrow> bytes res" where
  "retarget_in_block data pos target_ino de_type =
     bind (read_de data pos) (\<lambda>_. Ok (le_put (pos + 7) 1 de_type (le_put pos 4 target_ino data)))"

section \<open>What a block holds\<close>

record dirent =
  e_ino :: u32
  e_rec :: nat
  e_type :: u8
  e_name :: bytes

definition entry_at :: "bytes \<Rightarrow> nat \<Rightarrow> dirent \<Rightarrow> bool" where
  "entry_at data off e \<longleftrightarrow> off + 264 \<le> length data \<and> le_get off 4 data = e_ino e
     \<and> unat (le_get (off + 4) 2 data :: u16) = e_rec e \<and> unat (le_get (off + 6) 1 data :: u8) = length (e_name e)
     \<and> le_get (off + 7) 1 data = e_type e \<and> slice data (off + 8) (length (e_name e)) = e_name e
     \<and> 8 + length (e_name e) \<le> e_rec e \<and> e_rec e mod 4 = 0"

fun holds :: "bytes \<Rightarrow> nat \<Rightarrow> dirent list \<Rightarrow> nat \<Rightarrow> bool" where
  "holds data off [] lim = (off = lim)"
| "holds data off (e # es) lim = (entry_at data off e \<and> holds data (off + e_rec e) es lim)"

definition recs :: "dirent list \<Rightarrow> nat" where "recs es = sum_list (map e_rec es)"

definition used :: "dirent \<Rightarrow> bool" where "used e \<longleftrightarrow> e_ino e \<noteq> 0"

definition carries :: "bytes \<Rightarrow> dirent \<Rightarrow> bool" where
  "carries name e \<longleftrightarrow> used e \<and> e_name e = name"

definition names :: "dirent list \<Rightarrow> bytes \<rightharpoonup> u32" where
  "names es = map_of (map (\<lambda>e. (e_name e, e_ino e)) (filter used es))"

lemma recs_simps [simp]: "recs [] = 0" "recs (e # es) = e_rec e + recs es" "recs (es @ fs) = recs es + recs fs"
  by (simp_all add: recs_def)

lemma holds_append: "holds data off (es @ fs) lim \<longleftrightarrow> holds data off es (off + recs es) \<and> holds data (off + recs es) fs lim"
  by (induction es arbitrary: off) (auto simp: add.assoc)

lemma holds_end: "holds data off es lim \<Longrightarrow> lim = off + recs es"
proof (induction es arbitrary: off)
  case (Cons e es)
  then have "lim = off + e_rec e + recs es" by simp
  then show ?case by simp
qed simp

lemma entry_rec_pos: "entry_at data off e \<Longrightarrow> 8 \<le> e_rec e"
  by (simp add: entry_at_def)

lemma slice_get: "off + a + n \<le> length data \<Longrightarrow> a + n \<le> m \<Longrightarrow> le_get a n (slice data off m) = le_get (off + a) n data"
  by (simp add: le_get_def slice_slice)

text \<open>The accessors of the struct read at an entry.\<close>

lemma read_entry:
  assumes "entry_at data off e"
  shows "read_de data off = Ok (slice data off 264)" "try_from data off = Ok (slice data off 264)"
    "de_inode (slice data off 264) = e_ino e" "unat (de_entry_len (slice data off 264)) = e_rec e"
    "unat (de_name_len (slice data off 264)) = length (e_name e)" "get_de_type (slice data off 264) = e_type e"
    "take (length (e_name e)) (de_name (slice data off 264)) = e_name e"
    "de_unused (slice data off 264) \<longleftrightarrow> \<not> used e" "length (e_name e) < 256"
proof -
  have l: "off + 264 \<le> length data" using assms by (simp add: entry_at_def)
  have n: "length (e_name e) < 256"
    using assms unat_bound [of "le_get (off + 6) 1 data :: u8"] by (simp add: entry_at_def)
  show "read_de data off = Ok (slice data off 264)" "try_from data off = Ok (slice data off 264)"
    "de_inode (slice data off 264) = e_ino e" "unat (de_entry_len (slice data off 264)) = e_rec e"
    "unat (de_name_len (slice data off 264)) = length (e_name e)" "get_de_type (slice data off 264) = e_type e"
    "de_unused (slice data off 264) \<longleftrightarrow> \<not> used e"
    using assms l by (simp_all add: entry_at_def read_de_def try_from_def de_inode_def de_entry_len_def
        de_name_len_def get_de_type_def de_unused_def used_def slice_get)
  have "take (length (e_name e)) (de_name (slice data off 264)) = slice data (off + 8) (length (e_name e))"
    using n by (simp add: de_name_def slice_slice) (simp add: slice_def min_def)
  then show "take (length (e_name e)) (de_name (slice data off 264)) = e_name e" using assms by (simp add: entry_at_def)
  show "length (e_name e) < 256" by (rule n)
qed

lemma compare_entry:
  assumes "entry_at data off e"
  shows "compare_name (slice data off 264) name \<longleftrightarrow> e_name e = name"
  using read_entry(5,7) [OF assms] by (auto simp: compare_name_def)

text \<open>An entry depends on its own bytes only.\<close>

lemma le_get_cong: "(\<And>i. i < n \<Longrightarrow> off + i < length a \<Longrightarrow> a ! (off + i) = b ! (off + i)) \<Longrightarrow> length a = length b
    \<Longrightarrow> le_get off n a = le_get off n b"
  unfolding le_get_def by (rule arg_cong [of _ _ le_word]) (auto intro!: nth_equalityI simp: nth_slice)

lemma entry_at_cong:
  assumes "length a = length b" and "\<And>i. off \<le> i \<Longrightarrow> i < off + e_rec e \<Longrightarrow> a ! i = b ! i" and "entry_at a off e"
  shows "entry_at b off e"
proof -
  have r: "8 + length (e_name e) \<le> e_rec e" "off + 264 \<le> length a" "length (e_name e) < 256"
    using assms(3) read_entry(9) [OF assms(3)] by (simp_all add: entry_at_def)
  have "slice b (off + 8) (length (e_name e)) = slice a (off + 8) (length (e_name e))"
    using r assms(1,2) by (intro nth_equalityI) (simp_all add: nth_slice)
  moreover have "le_get off 4 b = (le_get off 4 a :: u32)" "le_get (off + 4) 2 b = (le_get (off + 4) 2 a :: u16)"
    "le_get (off + 6) 1 b = (le_get (off + 6) 1 a :: u8)" "le_get (off + 7) 1 b = (le_get (off + 7) 1 a :: u8)"
    by (rule le_get_cong; use r assms(1,2) in simp)+
  ultimately show ?thesis using assms(1,3) by (simp add: entry_at_def)
qed

lemma holds_cong:
  "holds a off es lim \<Longrightarrow> length a = length b \<Longrightarrow> (\<And>i. off \<le> i \<Longrightarrow> i < lim \<Longrightarrow> a ! i = b ! i) \<Longrightarrow> holds b off es lim"
proof (induction es arbitrary: off)
  case (Cons e es)
  have "off + e_rec e \<le> lim" using Cons.prems(1) holds_end [of a "off + e_rec e" es lim] by auto
  then have "entry_at b off e" using entry_at_cong [of a b off e] Cons.prems by simp
  moreover have "holds b (off + e_rec e) es lim" by (rule Cons.IH) (use Cons.prems in auto)
  ultimately show ?case by simp
qed simp

section \<open>Finding a name\<close>

lemma find_loop_found:
  "holds data off (as @ e # bs) lim \<Longrightarrow> \<forall>a \<in> set as. \<not> carries name a \<Longrightarrow> carries name e \<Longrightarrow>
   \<exists>p. find_loop lim data name off prev
     = Ok \<lparr> ds_dentry = slice data (off + recs as) 264, ds_pblock_id = 0, ds_offset = off + recs as,
           ds_prev_offset = p \<rparr>"
proof (induction as arbitrary: off prev)
  case Nil
  then have "off < lim" using holds_end [of data "off + e_rec e" bs lim] entry_rec_pos [of data off e] by auto
  then show ?case using Nil read_entry [of data off e] compare_entry [of data off e name]
    by (subst find_loop.simps) (auto simp: carries_def)
next
  case (Cons a as)
  have a: "entry_at data off a" using Cons.prems by simp
  have "off < lim" using holds_end [OF Cons.prems(1)] entry_rec_pos [OF a] by simp
  then have "find_loop lim data name off prev = find_loop lim data name (off + e_rec a) off"
    using Cons.prems(2) read_entry [OF a] compare_entry [OF a, of name] entry_rec_pos [OF a]
    by (subst find_loop.simps) (auto simp: carries_def)
  then show ?case using Cons.IH [of "off + e_rec a" off] Cons.prems by (simp add: add.assoc)
qed

lemma find_loop_absent:
  "holds data off es lim \<Longrightarrow> \<forall>a \<in> set es. \<not> carries name a \<Longrightarrow> find_loop lim data name off prev = Err ENOENT"
proof (induction es arbitrary: off prev)
  case Nil
  then show ?case by (simp add: find_loop.simps)
next
  case (Cons a as)
  have a: "entry_at data off a" using Cons.prems by simp
  have "off < lim" using holds_end [OF Cons.prems(1)] entry_rec_pos [OF a] by simp
  then have "find_loop lim data name off prev = find_loop lim data name (off + e_rec a) off"
    using Cons.prems(2) read_entry [OF a] compare_entry [OF a, of name] entry_rec_pos [OF a]
    by (subst find_loop.simps) (auto simp: carries_def)
  then show ?case using Cons by simp
qed

lemma split_carries:
  obtains "\<forall>a \<in> set es. \<not> carries name a" | as e bs where "es = as @ e # bs" "\<forall>a \<in> set as. \<not> carries name a" "carries name e"
  using split_list_first_prop [of es "carries name"] by metis

lemma names_absent: "\<forall>a \<in> set es. \<not> carries name a \<Longrightarrow> names es name = None"
  by (auto simp: names_def map_of_eq_None_iff carries_def)

lemma names_found:
  "\<forall>a \<in> set as. \<not> carries name a \<Longrightarrow> carries name e \<Longrightarrow> names (as @ e # bs) name = Some (e_ino e)"
  using names_absent [of as name] by (simp add: names_def carries_def map_add_def)

lemma dir_find_in_block_names:
  assumes "holds data 0 es (bs - 12)"
  shows "case names es name of None \<Rightarrow> dir_find_in_block bs data name = Err ENOENT
    | Some ino \<Rightarrow> \<exists>as e rest. es = as @ e # rest \<and> carries name e \<and> e_ino e = ino
        \<and> (\<exists>r. dir_find_in_block bs data name = Ok r \<and> ds_offset r = recs as \<and> ds_dentry r = slice data (recs as) 264)"
proof (rule split_carries [of es name])
  assume "\<forall>a \<in> set es. \<not> carries name a"
  then show ?thesis using find_loop_absent [OF assms] names_absent [of es name] by (simp add: dir_find_in_block_def)
next
  fix as e rest
  assume e: "es = as @ e # rest" "\<forall>a \<in> set as. \<not> carries name a" "carries name e"
  obtain r where "find_loop (bs - 12) data name 0 0 = Ok r" "ds_offset r = recs as" "ds_dentry r = slice data (recs as) 264"
    using find_loop_found [of data 0 as e rest "bs - 12" name 0] assms e by auto
  then show ?thesis
    using e names_found [OF e(2,3), of rest] unfolding dir_find_in_block_def
    by (simp, intro exI conjI) (rule refl | assumption)+
qed

section \<open>Inserting\<close>

definition slack :: "dirent \<Rightarrow> nat" where
  "slack e = e_rec e - used_size (length (e_name e))"

definition has_room :: "nat \<Rightarrow> dirent \<Rightarrow> bool" where
  "has_room n e \<longleftrightarrow> used e \<and> required_len n \<le> slack e"

definition shrunk :: "dirent \<Rightarrow> dirent" where
  "shrunk e = e\<lparr> e_rec := used_size (length (e_name e)) \<rparr>"

definition fresh_entry :: "bytes \<Rightarrow> u32 \<Rightarrow> u8 \<Rightarrow> nat \<Rightarrow> dirent" where
  "fresh_entry name ino ty n = \<lparr> e_ino = ino, e_rec = n, e_type = ty, e_name = name \<rparr>"

lemma used_size_bounds: "8 + n \<le> used_size n" "used_size n mod 4 = 0" "used_size n < 12 + n"
proof -
  show "8 + n \<le> used_size n" "used_size n < 12 + n" by (simp_all add: used_size_def) linarith+
  have "(8 + n + (4 - n mod 4)) mod 4 = 0 \<or> n mod 4 = 0" by presburger
  then show "used_size n mod 4 = 0" by (auto simp: used_size_def)
qed

lemma used_size_fits: "8 + n \<le> r \<Longrightarrow> r mod 4 = 0 \<Longrightarrow> used_size n \<le> r"
  using used_size_bounds [of n] by presburger

lemma required_ge: "264 + n \<le> required_len n"
proof -
  have "264 + n + (4 - (264 + n) mod 4) \<ge> 264 + n" by linarith
  then show ?thesis by (auto simp: required_len_def Let_def)
qed

lemma usize_sub_le: "b \<le> a \<Longrightarrow> a < 2 ^ 64 \<Longrightarrow> usize_sub a b = a - b"
proof -
  assume ab: "b \<le> a" "a < 2 ^ 64"
  then have "2 ^ 64 + a - b = 2 ^ 64 + (a - b)" by linarith
  moreover have "(2 ^ 64 + (a - b)) mod 2 ^ 64 = a - b"
    using ab by (simp only: mod_add_self1) simp
  ultimately show ?thesis by (simp only: usize_sub_def)
qed

lemma entry_slack:
  assumes "entry_at data off e"
  shows "usize_sub (e_rec e) (used_size (length (e_name e))) = slack e"
    "e_rec (shrunk e) + slack e = e_rec e" "e_rec e < 2 ^ 16"
proof -
  have u16: "e_rec e < 2 ^ 16"
    using unat_bound [of "le_get (off + 4) 2 data :: u16"] assms by (simp add: entry_at_def)
  moreover have "used_size (length (e_name e)) \<le> e_rec e"
    using used_size_fits [of "length (e_name e)" "e_rec e"] assms by (simp add: entry_at_def)
  ultimately show "usize_sub (e_rec e) (used_size (length (e_name e))) = slack e"
    "e_rec (shrunk e) + slack e = e_rec e" "e_rec e < 2 ^ 16"
    by (simp_all add: usize_sub_le slack_def shrunk_def)
qed

lemma le_get_put_below:
  "a + n \<le> off \<Longrightarrow> off + length d \<le> length buf \<Longrightarrow> le_get a n (put buf off d) = le_get a n buf"
  by (simp add: le_get_def slice_put_below)

lemma entry_at_slice:
  "off + 264 \<le> length data \<Longrightarrow> length (e_name e) < 256 \<Longrightarrow> entry_at (slice data off 264) 0 e \<longleftrightarrow> entry_at data off e"
  by (simp add: entry_at_def slice_get slice_slice)

lemma entry_at_put:
  "off + 264 \<le> length data \<Longrightarrow> length w = 264 \<Longrightarrow> length (e_name e) < 256 \<Longrightarrow> entry_at w 0 e \<Longrightarrow> entry_at (put data off w) off e"
  using entry_at_slice [of off "put data off w" e] by (simp add: length_put slice_put_same)

lemma entry_at_resized:
  assumes "entry_at w 0 e" and "length w = 264" and "8 + length (e_name e) \<le> n" and "n mod 4 = 0" and "n < 2 ^ 16"
  shows "entry_at (le_put 4 2 (of_nat n :: u16) w) 0 (e\<lparr> e_rec := n \<rparr>)"
  using assms by (simp add: entry_at_def slice_le_put_other unat_of_nat_small)

lemma write_entry_default:
  assumes "length name \<le> 255" and "8 + length name \<le> n" and "n mod 4 = 0" and "n < 2 ^ 16"
  obtains w where "write_entry (of_nat n) ino name ty default_dir_entry = Ok w" "length w = 264"
    "entry_at w 0 (fresh_entry name ino ty n)"
proof -
  let ?d = "le_put 7 1 ty (le_put 6 1 (of_nat (length name) :: u8) (le_put 4 2 (of_nat n :: u16) (le_put 0 4 ino default_dir_entry)))"
  have l: "length default_dir_entry = 264" by (simp add: default_dir_entry_def)
  then have d: "length ?d = 264" by simp
  have "entry_at (put ?d 8 name) 0 (fresh_entry name ino ty n)"
    using assms l d by (simp add: entry_at_def fresh_entry_def le_get_put_below length_put slice_put_same unat_of_nat_small)
  then show ?thesis using that [of "put ?d 8 name"] assms(1) d by (simp add: write_entry_def length_put)
qed

lemma insert_at:
  assumes e: "entry_at data off e" and room: "has_room (length name) e" and l: "length name \<le> 255"
    and lim: "off + e_rec e \<le> lim" "lim \<le> length data"
  obtains d where "insert_loop lim data name ino ty off = Ok d" "length d = length data"
    "entry_at d off (shrunk e)"
    "entry_at d (off + e_rec (shrunk e)) (fresh_entry name ino ty (slack e))"
    "\<And>i. i < off \<or> off + e_rec e \<le> i \<Longrightarrow> i < length data \<Longrightarrow> d ! i = data ! i"
proof -
  let ?sz = "used_size (length (e_name e))" and ?w = "slice data off 264"
  have r: "8 + length (e_name e) \<le> e_rec e" "e_rec e mod 4 = 0" "length (e_name e) < 256" "off + 264 \<le> length data"
    using e read_entry(9) [OF e] by (simp_all add: entry_at_def)
  have sz: "?sz \<le> e_rec e" "8 + length (e_name e) \<le> ?sz" "?sz mod 4 = 0" "?sz < 2 ^ 16"
    using used_size_fits [OF r(1,2)] used_size_bounds [of "length (e_name e)"] r(3) by simp_all
  note u16 = entry_slack(3) [OF e] and free = entry_slack(1) [OF e]
  have need: "264 + length name \<le> slack e" using room required_ge [of "length name"] by (simp add: has_room_def)
  have s: "slack e + ?sz = e_rec e" "slack e mod 4 = 0" "slack e < 2 ^ 16"
    using sz(1,3) r(2) u16 by (simp_all add: slack_def) presburger
  obtain w where w: "write_entry (of_nat (slack e)) ino name ty default_dir_entry = Ok w" "length w = 264"
    "entry_at w 0 (fresh_entry name ino ty (slack e))"
    using write_entry_default [OF l _ s(2,3), where ino = ino and ty = ty] need by auto
  let ?v = "le_put 4 2 (of_nat ?sz :: u16) ?w" and ?off2 = "off + ?sz"
  let ?d1 = "put data off ?v" let ?d = "put ?d1 ?off2 w"
  have v: "length ?v = 264" "entry_at ?v 0 (shrunk e)"
    using entry_at_resized [of ?w e ?sz] entry_at_slice [OF r(4,3)] e r(4) sz by (simp_all add: shrunk_def)
  have fit: "?off2 + 264 \<le> length data" using need s(1) lim by linarith
  have d1: "length ?d1 = length data" using r(4) v(1) by (simp add: length_put)
  have ld: "length ?d = length data" using fit w(2) d1 by (simp add: length_put)
  have "insert_loop lim data name ino ty off = Ok ?d"
    using read_entry [OF e] room need free r(1) lim fit w(1) d1 v(1)
    by (subst insert_loop.simps)
       (simp add: has_room_def Let_def de_copy_to_slice_def)
  moreover have "?d ! i = data ! i" if "i < off \<or> off + e_rec e \<le> i" "i < length data" for i
  proof -
    have "?off2 + 264 \<le> off + e_rec e" "off + 264 \<le> off + e_rec e" using need s(1) by linarith+
    then show ?thesis using that w(2) v(1) fit r(4) d1 by (simp add: nth_put) linarith
  qed
  moreover have "entry_at ?d (off + e_rec (shrunk e)) (fresh_entry name ino ty (slack e))"
    using entry_at_put [of ?off2 ?d1 w "fresh_entry name ino ty (slack e)"] fit d1 w l
    by (simp add: shrunk_def fresh_entry_def)
  moreover have "entry_at ?d off (shrunk e)"
    by (rule entry_at_cong [of ?d1])
       (use d1 ld entry_at_put [of off data ?v "shrunk e"] v r(3,4) fit w(2) in \<open>auto simp: shrunk_def nth_put\<close>)
  ultimately show ?thesis using that ld by blast
qed

lemma insert_loop_room:
  "holds data off (as @ e # bs) lim \<Longrightarrow> lim \<le> length data \<Longrightarrow> length name \<le> 255 \<Longrightarrow>
   \<forall>a \<in> set as. \<not> has_room (length name) a \<Longrightarrow> has_room (length name) e \<Longrightarrow>
   \<exists>d. insert_loop lim data name ino ty off = Ok d \<and> length d = length data
     \<and> holds d off (as @ shrunk e # fresh_entry name ino ty (slack e) # bs) lim
     \<and> (\<forall>i. (i < off \<or> lim \<le> i) \<and> i < length data \<longrightarrow> d ! i = data ! i)"
proof (induction as arbitrary: off)
  case Nil
  then have e: "entry_at data off e" "holds data (off + e_rec e) bs lim" "off + e_rec e \<le> lim"
    using holds_end [of data "off + e_rec e" bs lim] by auto
  note s = entry_slack(2) [OF e(1)]
  obtain d where d: "insert_loop lim data name ino ty off = Ok d" "length d = length data" "entry_at d off (shrunk e)"
    "entry_at d (off + e_rec (shrunk e)) (fresh_entry name ino ty (slack e))"
    "\<And>i. i < off \<or> off + e_rec e \<le> i \<Longrightarrow> i < length data \<Longrightarrow> d ! i = data ! i"
    using insert_at [OF e(1) Nil.prems(5,3) e(3) Nil.prems(2), of ino ty] by blast
  have "holds d (off + e_rec e) bs lim" by (rule holds_cong [OF e(2)]) (use d Nil.prems(2) in auto)
  moreover have "\<forall>i. (i < off \<or> lim \<le> i) \<and> i < length data \<longrightarrow> d ! i = data ! i" using d(5) e(3) by auto
  ultimately show ?case using d(1-4) s by (simp add: fresh_entry_def add.assoc)
next
  case (Cons a as)
  have a: "entry_at data off a" using Cons.prems by simp
  have "off < lim" using holds_end [OF Cons.prems(1)] entry_rec_pos [OF a] by simp
  then have step: "insert_loop lim data name ino ty off = insert_loop lim data name ino ty (off + e_rec a)"
    using Cons.prems(4) read_entry [OF a] entry_rec_pos [OF a] Cons.prems(2) entry_slack(1) [OF a]
    by (subst insert_loop.simps) (auto simp: has_room_def Let_def)
  obtain d where d: "insert_loop lim data name ino ty (off + e_rec a) = Ok d" "length d = length data"
    "holds d (off + e_rec a) (as @ shrunk e # fresh_entry name ino ty (slack e) # bs) lim"
    "\<forall>i. (i < off + e_rec a \<or> lim \<le> i) \<and> i < length data \<longrightarrow> d ! i = data ! i"
    using Cons.IH [of "off + e_rec a"] Cons.prems by auto
  have "off + e_rec a \<le> lim" using holds_end [OF Cons.prems(1)] by simp
  then have "entry_at d off a" by (intro entry_at_cong [OF d(2) [symmetric] _ a]) (use d(4) Cons.prems(2) in simp)
  then show ?case using step d by auto
qed

lemma insert_loop_full:
  "holds data off es lim \<Longrightarrow> lim \<le> length data \<Longrightarrow> \<forall>a \<in> set es. \<not> has_room (length name) a \<Longrightarrow>
   insert_loop lim data name ino ty off = Err ENOSPC"
proof (induction es arbitrary: off)
  case Nil
  then show ?case by (simp add: insert_loop.simps)
next
  case (Cons a as)
  have a: "entry_at data off a" using Cons.prems by simp
  have "off < lim" using holds_end [OF Cons.prems(1)] entry_rec_pos [OF a] by simp
  then have "insert_loop lim data name ino ty off = insert_loop lim data name ino ty (off + e_rec a)"
    using Cons.prems(3) read_entry [OF a] entry_rec_pos [OF a] Cons.prems(2) entry_slack(1) [OF a]
    by (subst insert_loop.simps) (auto simp: has_room_def Let_def)
  then show ?case using Cons by simp
qed

section \<open>Unlinking and retargeting\<close>

lemma nth_le_put: "off + n \<le> length data \<Longrightarrow> i < length data \<Longrightarrow> i < off \<or> off + n \<le> i \<Longrightarrow> le_put off n v data ! i = data ! i"
  by (auto simp: le_put_def nth_put)

lemma entry_at_retarget:
  "entry_at data off e \<Longrightarrow> entry_at (le_put off 4 v data) off (e\<lparr> e_ino := v \<rparr>)"
  by (simp add: entry_at_def slice_le_put_other)

lemma entry_at_retype:
  "entry_at data off e \<Longrightarrow> entry_at (le_put (off + 7) 1 v data) off (e\<lparr> e_type := v \<rparr>)"
  by (simp add: entry_at_def slice_le_put_other)

lemma entry_at_rerec:
  "entry_at data off e \<Longrightarrow> 8 + length (e_name e) \<le> n \<Longrightarrow> n mod 4 = 0 \<Longrightarrow> n < 2 ^ 16 \<Longrightarrow> unat v = n \<Longrightarrow>
   entry_at (le_put (off + 4) 2 (v :: u16) data) off (e\<lparr> e_rec := n \<rparr>)"
  by (simp add: entry_at_def slice_le_put_other)

lemma holds_patched:
  assumes "holds data lo es hi" and "off + n \<le> length data" and "hi \<le> length data" and "hi \<le> off \<or> off + n \<le> lo"
  shows "holds (le_put off n v data) lo es hi"
  by (rule holds_cong [OF assms(1)]) (use assms in \<open>auto simp: nth_le_put\<close>)

lemma entry_at_patched:
  assumes "entry_at data lo e" and "off + n \<le> length data" and "lo + e_rec e \<le> length data" and "lo + e_rec e \<le> off \<or> off + n \<le> lo"
  shows "entry_at (le_put off n v data) lo e"
  by (rule entry_at_cong [of data]) (use assms in \<open>auto simp: nth_le_put\<close>)

lemma pred_loop_holds:
  "holds data off (as @ [p]) pos \<Longrightarrow> pred_loop data pos off (e_rec (hd (as @ [p]))) = Ok (off + recs as, e_rec p)"
proof (induction as arbitrary: off)
  case Nil
  then show ?case by (simp add: pred_loop.simps)
next
  case (Cons a as)
  obtain b bs where b: "as @ [p] = b # bs" by (cases "as @ [p]") auto
  have rest: "holds data (off + e_rec a) (b # bs) pos" using Cons.prems b by simp
  have e: "entry_at data (off + e_rec a) b" using rest by simp
  have "off + e_rec a < pos" using holds_end [OF rest] entry_rec_pos [OF e] by simp
  then have "pred_loop data pos off (e_rec a) = pred_loop data pos (off + e_rec a) (e_rec b)"
    using read_entry [OF e] entry_rec_pos [of data off a] Cons.prems by (subst pred_loop.simps) auto
  then show ?case using Cons.IH [of "off + e_rec a"] rest b by (simp add: add.assoc)
qed

fun unlinked :: "dirent list \<Rightarrow> dirent \<Rightarrow> dirent list" where
  "unlinked [] e = [e\<lparr> e_ino := 0 \<rparr>]"
| "unlinked [p] e = [p\<lparr> e_rec := e_rec p + e_rec e \<rparr>]"
| "unlinked (a # as) e = a # unlinked as e"

lemma unlinked_snoc: "unlinked (as @ [p]) e = as @ [p\<lparr> e_rec := e_rec p + e_rec e \<rparr>]"
proof (induction as)
  case (Cons a as)
  then show ?case by (cases "as @ [p]") auto
qed simp

lemma remove_from_block_holds:
  assumes h: "holds data 0 (as @ e # bs) lim" and lim: "lim \<le> length data" "lim < 2 ^ 16"
    and de: "unat (de_entry_len dentry) = e_rec e"
  obtains d where "remove_from_block data (recs as) dentry = Ok d" "length d = length data"
    "holds d 0 (unlinked as e @ bs) lim" "\<And>i. lim \<le> i \<Longrightarrow> i < length data \<Longrightarrow> d ! i = data ! i"
proof (cases as rule: rev_cases)
  case Nil
  have e: "entry_at data 0 e" "holds data (e_rec e) bs lim" "8 \<le> e_rec e"
    using h Nil entry_rec_pos [of data 0 e] by simp_all
  have "e_rec e \<le> lim" using holds_end [OF e(2)] by simp
  moreover have "4 \<le> length data" using e(1) by (simp add: entry_at_def)
  ultimately show ?thesis
    using that [of "le_put 0 4 (0 :: u32) data"] e Nil read_entry(1) [OF e(1)] entry_at_retarget [OF e(1), of 0]
      holds_patched [OF e(2), of 0 4 0] lim
    by (simp add: remove_from_block_def nth_le_put)
next
  case (snoc ps p)
  let ?pos = "recs as" and ?off = "recs ps" and ?n = "e_rec p + e_rec e"
  have e: "entry_at data ?pos e" "holds data (?pos + e_rec e) bs lim" "8 \<le> e_rec e" "holds data 0 (ps @ [p]) ?pos"
    using h entry_rec_pos [of data ?pos e] snoc by (simp_all add: holds_append)
  have p: "entry_at data ?off p" "holds data 0 ps ?off" "8 \<le> e_rec p" "?pos = ?off + e_rec p"
    using e(4) entry_rec_pos [of data ?off p] snoc by (simp_all add: holds_append)
  have le: "?pos + e_rec e \<le> lim" using holds_end [OF e(2)] by simp
  let ?d1 = "le_put ?pos 4 (0 :: u32) data"
  let ?d = "le_put (?off + 4) 2 (of_nat (e_rec p) + de_entry_len dentry) ?d1"
  have pos: "?pos + 264 \<le> length data" "?off + 264 \<le> length data" using e(1) p(1) by (simp_all add: entry_at_def)
  have h1: "holds ?d1 0 (ps @ [p]) ?pos" by (rule holds_patched [OF e(4)]) (use pos in auto)
  obtain b bs' where b: "ps @ [p] = b # bs'" by (cases "ps @ [p]") auto
  have hd: "entry_at ?d1 0 b" using h1 b by simp
  have "pred_loop ?d1 ?pos 0 (e_rec b) = Ok (?off, e_rec p)" using pred_loop_holds [OF h1] b by simp
  then have run: "remove_from_block data ?pos dentry = Ok ?d"
    using read_entry(1) [OF e(1)] read_entry(1,4) [OF hd] p(3,4) pos
    by (simp add: remove_from_block_def read_de_def add.commute)
  have small: "?n < 2 ^ 16" using le p(4) lim(2) by simp
  have v: "unat (of_nat (e_rec p) + de_entry_len dentry) = ?n"
    using small de by (simp add: unat_word_ariths unat_of_nat_small)
  have p1: "entry_at ?d1 ?off p" by (rule entry_at_patched [OF p(1)]) (use pos p(4) in auto)
  have mod4: "8 + length (e_name p) \<le> ?n" "?n mod 4 = 0"
  proof -
    have "e_rec p mod 4 = 0" "e_rec e mod 4 = 0" "8 + length (e_name p) \<le> e_rec p" using p(1) e(1) by (simp_all add: entry_at_def)
    then show "8 + length (e_name p) \<le> ?n" "?n mod 4 = 0" by presburger+
  qed
  have "entry_at ?d ?off (p\<lparr> e_rec := ?n \<rparr>)" by (rule entry_at_rerec [OF p1 mod4 small v])
  moreover have "holds ?d1 0 ps ?off" by (rule holds_patched [OF p(2)]) (use pos p(4) in auto)
  then have "holds ?d 0 ps ?off" by (rule holds_patched) (use pos in auto)
  moreover have "holds ?d1 (?pos + e_rec e) bs lim" by (rule holds_patched [OF e(2)]) (use pos e(3) lim in auto)
  then have "holds ?d (?pos + e_rec e) bs lim" by (rule holds_patched) (use pos p(3,4) lim in auto)
  ultimately have "holds ?d 0 (unlinked as e @ bs) lim"
    using snoc p(4) by (simp add: unlinked_snoc holds_append add.assoc)
  moreover have "length ?d = length data" using pos by simp
  moreover have "?d ! i = data ! i" if "lim \<le> i" "i < length data" for i
    using that pos p(3,4) e(3) le by (simp add: nth_le_put)
  ultimately show ?thesis using that run by blast
qed

lemma retarget_holds:
  assumes h: "holds data 0 (as @ e # bs) lim" and lim: "lim \<le> length data"
  obtains d where "retarget_in_block data (recs as) ino ty = Ok d" "length d = length data"
    "holds d 0 (as @ e\<lparr> e_ino := ino, e_type := ty \<rparr> # bs) lim" "\<And>i. lim \<le> i \<Longrightarrow> i < length data \<Longrightarrow> d ! i = data ! i"
proof -
  let ?pos = "recs as" let ?d1 = "le_put ?pos 4 ino data" let ?d = "le_put (?pos + 7) 1 ty ?d1"
  have e: "entry_at data ?pos e" "holds data (?pos + e_rec e) bs lim" "8 \<le> e_rec e" "holds data 0 as ?pos"
    using h entry_rec_pos [of data ?pos e] by (simp_all add: holds_append)
  have le: "?pos + e_rec e \<le> lim" "?pos + 264 \<le> length data"
    using holds_end [OF e(2)] e(1) by (simp_all add: entry_at_def)
  have "entry_at ?d ?pos (e\<lparr> e_ino := ino, e_type := ty \<rparr>)"
    using entry_at_retype [OF entry_at_retarget [OF e(1), of ino], of ty] by simp
  moreover have "holds ?d1 0 as ?pos" by (rule holds_patched [OF e(4)]) (use le in auto)
  then have "holds ?d 0 as ?pos" by (rule holds_patched) (use le in auto)
  moreover have "holds ?d1 (?pos + e_rec e) bs lim" by (rule holds_patched [OF e(2)]) (use le e(3) lim in auto)
  then have "holds ?d (?pos + e_rec e) bs lim" by (rule holds_patched) (use le e(3) lim in auto)
  moreover have "?d ! i = data ! i" if "lim \<le> i" "i < length data" for i
    using that le e(3) by (simp add: nth_le_put)
  ultimately show ?thesis
    using that [of ?d] read_entry(1) [OF e(1)] le by (simp add: retarget_in_block_def holds_append)
qed

section \<open>The map a block implements\<close>

definition distinct_names :: "dirent list \<Rightarrow> bool" where
  "distinct_names es \<longleftrightarrow> distinct (map e_name (filter used es))"

lemma names_append: "names (as @ bs) = names bs ++ names as"
  by (simp add: names_def)

lemma names_Cons: "names (e # es) = (if used e then (names es)(e_name e \<mapsto> e_ino e) else names es)"
  by (simp add: names_def)

lemma names_Nil [simp]: "names [] = Map.empty"
  by (simp add: names_def)

lemma dom_names: "dom (names es) = e_name ` set (filter used es)"
  by (simp add: names_def dom_map_of_conv_image_fst image_image)

lemma distinct_names_append:
  "distinct_names (as @ bs) \<longleftrightarrow> distinct_names as \<and> distinct_names bs \<and> dom (names as) \<inter> dom (names bs) = {}"
  unfolding dom_names by (simp add: distinct_names_def)

lemma distinct_names_Cons:
  "distinct_names (e # es) \<longleftrightarrow> (used e \<longrightarrow> names es (e_name e) = None) \<and> distinct_names es"
proof -
  have "e_name e \<notin> e_name ` set (filter used es) \<longleftrightarrow> names es (e_name e) = None" using dom_names [of es] by (metis domIff)
  then show ?thesis by (auto simp: distinct_names_def)
qed

lemma entry_fields [simp]:
  "e_name (fresh_entry name ino ty n) = name" "e_ino (fresh_entry name ino ty n) = ino"
  "used (fresh_entry name ino ty n) \<longleftrightarrow> ino \<noteq> 0"
  "e_name (shrunk e) = e_name e" "e_ino (shrunk e) = e_ino e" "used (shrunk e) = used e"
  by (simp_all add: used_def fresh_entry_def shrunk_def)

lemma names_inserted:
  assumes "names (as @ e # bs) name = None" and "ino \<noteq> 0"
  shows "names (as @ shrunk e # fresh_entry name ino ty n # bs) = (names (as @ e # bs))(name \<mapsto> ino)"
    and "distinct_names (as @ e # bs) \<Longrightarrow> distinct_names (as @ shrunk e # fresh_entry name ino ty n # bs)"
proof -
  let ?f = "fresh_entry name ino ty n"
  have none: "names as name = None" "names bs name = None" "used e \<Longrightarrow> e_name e \<noteq> name"
    using assms(1) by (auto simp: names_append names_Cons split: if_splits)
  then show "names (as @ shrunk e # ?f # bs) = (names (as @ e # bs))(name \<mapsto> ino)"
    using assms(2) by (auto simp: names_append names_Cons fun_eq_iff map_add_def split: option.splits)
  show "distinct_names (as @ shrunk e # ?f # bs)" if "distinct_names (as @ e # bs)"
    using that none assms(2) by (auto simp: distinct_names_append distinct_names_Cons names_Cons split: if_splits)
qed

lemma names_unlinked: "names (unlinked as e @ bs) = names (as @ bs)"
  "distinct_names (unlinked as e @ bs) = distinct_names (as @ bs)"
proof -
  have "names (unlinked as e @ bs) = names (as @ bs) \<and> distinct_names (unlinked as e @ bs) = distinct_names (as @ bs)"
  proof (cases as rule: rev_cases)
    case (snoc ps p)
    then show ?thesis
      by (simp add: unlinked_snoc names_append names_Cons distinct_names_append distinct_names_Cons used_def)
  qed (simp add: names_Cons distinct_names_Cons used_def)
  then show "names (unlinked as e @ bs) = names (as @ bs)" "distinct_names (unlinked as e @ bs) = distinct_names (as @ bs)"
    by simp_all
qed

lemma names_removed:
  assumes "distinct_names (as @ e # bs)" and "used e"
  shows "names (as @ bs) = (names (as @ e # bs))(e_name e := None)" "distinct_names (as @ bs)"
proof -
  have d: "names as (e_name e) = None" "names bs (e_name e) = None"
    using assms by (auto simp: distinct_names_append distinct_names_Cons names_Cons disjoint_iff)
  then show "names (as @ bs) = (names (as @ e # bs))(e_name e := None)"
    using assms(2) by (auto simp: names_append names_Cons fun_eq_iff map_add_def split: option.splits)
  show "distinct_names (as @ bs)"
    using assms by (auto simp: distinct_names_append distinct_names_Cons names_Cons)
qed

section \<open>Listing\<close>

text \<open>What a listing from the cookie \<open>start\<close> gives of a block at position \<open>base\<close> of the directory: inode
  number, name and the cookie of the next position.\<close>

fun listing :: "u64 \<Rightarrow> u64 \<Rightarrow> nat \<Rightarrow> dirent list \<Rightarrow> (u32 \<times> bytes \<times> u64) list" where
  "listing base start off [] = []"
| "listing base start off (e # es) =
     (if used e \<and> start \<le> base + of_nat off
      then [(e_ino e, e_name e, base + of_nat off + of_nat (e_rec e))] else [])
     @ listing base start (off + e_rec e) es"

definition listed :: "dir_entry \<times> u64 \<Rightarrow> u32 \<times> bytes \<times> u64" where
  "listed = (\<lambda>(de, next_offset). (de_inode de, take (unat (de_name_len de)) (de_name de), next_offset))"

lemma entries_loop_holds:
  "holds data off es lim \<Longrightarrow> \<exists>l. entries_loop lim data base start off = Ok l \<and> map listed l = listing base start off es"
proof (induction es arbitrary: off)
  case Nil
  then show ?case by (simp add: entries_loop.simps)
next
  case (Cons e es)
  have e: "entry_at data off e" using Cons.prems by simp
  obtain l where l: "entries_loop lim data base start (off + e_rec e) = Ok l"
    "map listed l = listing base start (off + e_rec e) es"
    using Cons.IH [of "off + e_rec e"] Cons.prems by auto
  have "off < lim" using holds_end [OF Cons.prems] entry_rec_pos [OF e] by simp
  then have "entries_loop lim data base start off = Ok (if used e \<and> start \<le> base + of_nat off
      then (slice data off 264, base + of_nat off + of_nat (e_rec e)) # l else l)"
    using read_entry [OF e] entry_rec_pos [OF e] l(1) by (subst entries_loop.simps) (auto simp: Let_def)
  then show ?case using l(2) read_entry [OF e] by (auto simp: listed_def)
qed

lemma has_entry_loop_holds:
  "holds data off es lim \<Longrightarrow> \<forall>e \<in> set es. used e \<longrightarrow> utf8_valid (e_name e) \<Longrightarrow>
   has_entry_loop lim data off = Ok (\<exists>e \<in> set es. used e \<and> e_name e \<noteq> [0x2E] \<and> e_name e \<noteq> [0x2E, 0x2E])"
proof (induction es arbitrary: off)
  case Nil
  then show ?case by (simp add: has_entry_loop.simps)
next
  case (Cons e es)
  have e: "entry_at data off e" using Cons.prems by simp
  have "off < lim" using holds_end [OF Cons.prems(1)] entry_rec_pos [OF e] by simp
  moreover have "get_name (slice data off 264) = Ok (e_name e)" if "used e"
    using that Cons.prems(2) read_entry [OF e] by (simp add: get_name_def)
  ultimately show ?case
    using Cons.IH [of "off + e_rec e"] Cons.prems read_entry [OF e] entry_rec_pos [OF e]
    by (subst has_entry_loop.simps) (auto simp: Let_def used_def)
qed

section \<open>The contract of a block\<close>

text \<open>A store of names: \<open>rel b m\<close> says that \<open>b\<close> represents the map \<open>m\<close>. Insertion may find no
  space; nothing else fails.\<close>

locale name_store =
  fixes rel :: "'b \<Rightarrow> (bytes \<rightharpoonup> u32) \<Rightarrow> bool"
    and find_name :: "'b \<Rightarrow> bytes \<Rightarrow> 'r res"
    and target :: "'r \<Rightarrow> u32"
    and insert_name :: "'b \<Rightarrow> bytes \<Rightarrow> u32 \<Rightarrow> 'b res"
    and remove_name :: "'b \<Rightarrow> 'r \<Rightarrow> 'b res"
  assumes find_some: "rel b m \<Longrightarrow> m n = Some i \<Longrightarrow> \<exists>r. find_name b n = Ok r \<and> target r = i"
    and find_none: "rel b m \<Longrightarrow> m n = None \<Longrightarrow> find_name b n = Err ENOENT"
    and insert_rel: "rel b m \<Longrightarrow> m n = None \<Longrightarrow> i \<noteq> 0 \<Longrightarrow> length n \<le> 255 \<Longrightarrow>
      insert_name b n i = Err ENOSPC \<or> (\<exists>b'. insert_name b n i = Ok b' \<and> rel b' (m(n \<mapsto> i)))"
    and remove_rel: "rel b m \<Longrightarrow> find_name b n = Ok r \<Longrightarrow> \<exists>b'. remove_name b r = Ok b' \<and> rel b' (m(n := None))"
begin

lemma find_iff: "rel b m \<Longrightarrow> (\<exists>r. find_name b n = Ok r \<and> target r = i) \<longleftrightarrow> m n = Some i"
  using find_some [of b m n] find_none [of b m n] by (cases "m n") auto

lemma insert_then_find:
  assumes "rel b m" "m n = None" "i \<noteq> 0" "length n \<le> 255" "insert_name b n i = Ok b'"
  shows "\<exists>r. find_name b' n = Ok r \<and> target r = i"
    and "k \<noteq> n \<Longrightarrow> (\<exists>r. find_name b' k = Ok r \<and> target r = j) \<longleftrightarrow> (\<exists>r. find_name b k = Ok r \<and> target r = j)"
proof -
  have r: "rel b' (m(n \<mapsto> i))" using insert_rel [OF assms(1-4)] assms(5) by auto
  show "\<exists>r. find_name b' n = Ok r \<and> target r = i" by (simp only: find_iff [OF r] fun_upd_same)
  show "(\<exists>r. find_name b' k = Ok r \<and> target r = j) \<longleftrightarrow> (\<exists>r. find_name b k = Ok r \<and> target r = j)" if "k \<noteq> n"
    using that by (simp add: find_iff [OF r] find_iff [OF assms(1)])
qed

lemma insert_then_remove:
  assumes "rel b m" "m n = None" "i \<noteq> 0" "length n \<le> 255" "insert_name b n i = Ok b'" "find_name b' n = Ok r"
  shows "\<exists>b''. remove_name b' r = Ok b'' \<and> rel b'' m"
proof -
  have r: "rel b' (m(n \<mapsto> i))" using insert_rel [OF assms(1-4)] assms(5) by auto
  have "(m(n \<mapsto> i))(n := None) = m" using assms(2) by (simp add: fun_upd_idem)
  then show ?thesis using remove_rel [OF r assms(6)] by simp
qed

lemma remove_then_find:
  assumes "rel b m" "find_name b n = Ok r" "remove_name b r = Ok b'"
  shows "find_name b' n = Err ENOENT"
    and "k \<noteq> n \<Longrightarrow> (\<exists>r. find_name b' k = Ok r \<and> target r = j) \<longleftrightarrow> (\<exists>r. find_name b k = Ok r \<and> target r = j)"
proof -
  have r: "rel b' (m(n := None))" using remove_rel [OF assms(1,2)] assms(3) by auto
  show "find_name b' n = Err ENOENT" using find_none [OF r] by simp
  show "(\<exists>r. find_name b' k = Ok r \<and> target r = j) \<longleftrightarrow> (\<exists>r. find_name b k = Ok r \<and> target r = j)" if "k \<noteq> n"
    using that by (simp add: find_iff [OF r] find_iff [OF assms(1)])
qed

end

definition block_rel :: "nat \<Rightarrow> bytes \<Rightarrow> (bytes \<rightharpoonup> u32) \<Rightarrow> bool" where
  "block_rel bs data m \<longleftrightarrow> length data = bs \<and> bs - 12 < 2 ^ 16
     \<and> (\<exists>es. holds data 0 es (bs - 12) \<and> distinct_names es \<and> m = names es)"

definition remove_found :: "bytes \<Rightarrow> dir_search \<Rightarrow> bytes res" where
  "remove_found data r = remove_from_block data (ds_offset r) (ds_dentry r)"

lemma find_block_some:
  assumes "holds data 0 es (bs - 12)" and "dir_find_in_block bs data name = Ok r"
  obtains as e rest where "es = as @ e # rest" "carries name e" "names es name = Some (e_ino e)"
    "ds_offset r = recs as" "ds_dentry r = slice data (recs as) 264" "entry_at data (recs as) e"
proof -
  obtain ino where "names es name = Some ino"
    using dir_find_in_block_names [OF assms(1), of name] assms(2) by (cases "names es name") auto
  then obtain as e rest where e: "es = as @ e # rest" "carries name e" "e_ino e = ino"
    "ds_offset r = recs as" "ds_dentry r = slice data (recs as) 264"
    using dir_find_in_block_names [OF assms(1), of name] assms(2) by auto
  then show ?thesis using that \<open>names es name = Some ino\<close> assms(1) by (auto simp: holds_append)
qed

interpretation block: name_store "block_rel bs" "dir_find_in_block bs" "\<lambda>r. de_inode (ds_dentry r)"
    "\<lambda>data name ino. insert_to_block bs data name ino ty" remove_found
proof
  fix b m n i
  assume "block_rel bs b m" "m n = Some i"
  then obtain es where es: "holds b 0 es (bs - 12)" "names es n = Some i" by (auto simp: block_rel_def)
  then obtain r where r: "dir_find_in_block bs b n = Ok r" using dir_find_in_block_names [OF es(1), of n] by auto
  then show "\<exists>r. dir_find_in_block bs b n = Ok r \<and> de_inode (ds_dentry r) = i"
    using find_block_some [OF es(1) r] es(2) read_entry(3) by (metis option.inject)
next
  fix b m n
  assume "block_rel bs b m" "m n = None"
  then show "dir_find_in_block bs b n = Err ENOENT"
    using dir_find_in_block_names [of b _ bs n] by (force simp: block_rel_def)
next
  fix b m n and i :: u32
  assume "block_rel bs b m" and none: "m n = None" and i: "i \<noteq> 0" and n: "length n \<le> 255"
  then obtain es where es: "length b = bs" "bs - 12 < 2 ^ 16" "holds b 0 es (bs - 12)" "distinct_names es" "m = names es"
    by (auto simp: block_rel_def)
  show "insert_to_block bs b n i ty = Err ENOSPC
    \<or> (\<exists>b'. insert_to_block bs b n i ty = Ok b' \<and> block_rel bs b' (m(n \<mapsto> i)))"
  proof (cases "\<forall>a \<in> set es. \<not> has_room (length n) a")
    case True
    then show ?thesis using insert_loop_full [OF es(3), of n] es(1) by (simp add: insert_to_block_def)
  next
    case False
    then obtain as e rest where e: "es = as @ e # rest" "has_room (length n) e" "\<forall>a \<in> set as. \<not> has_room (length n) a"
      using split_list_first_prop [of es "has_room (length n)"] by blast
    obtain d where d: "insert_loop (bs - 12) b n i ty 0 = Ok d" "length d = length b"
      "holds d 0 (as @ shrunk e # fresh_entry n i ty (slack e) # rest) (bs - 12)"
      using insert_loop_room [of b 0 as e rest "bs - 12" n i ty] es e n by auto
    have "block_rel bs d (m(n \<mapsto> i))" unfolding block_rel_def
      using names_inserted [of as e rest n i ty "slack e"] es d(2,3) none i unfolding e(1)
      by (intro conjI exI [of _ "as @ shrunk e # fresh_entry n i ty (slack e) # rest"]) simp_all
    then show ?thesis using d(1) by (simp add: insert_to_block_def)
  qed
next
  fix b m n r
  assume "block_rel bs b m" and found: "dir_find_in_block bs b n = Ok r"
  then obtain es where es: "length b = bs" "bs - 12 < 2 ^ 16" "holds b 0 es (bs - 12)" "distinct_names es" "m = names es"
    by (auto simp: block_rel_def)
  obtain as e rest where e: "es = as @ e # rest" "carries n e" "ds_offset r = recs as"
    "ds_dentry r = slice b (recs as) 264" "entry_at b (recs as) e"
    using find_block_some [OF es(3) found] by metis
  obtain d where d: "remove_from_block b (recs as) (ds_dentry r) = Ok d" "length d = length b"
    "holds d 0 (unlinked as e @ rest) (bs - 12)"
    using remove_from_block_holds [of b as e rest "bs - 12" "ds_dentry r"] es e read_entry(4) [OF e(5)] by auto
  have "used e" "e_name e = n" using e(2) by (simp_all add: carries_def)
  then have "block_rel bs d (m(n := None))" unfolding block_rel_def
    using names_removed [of as e rest] names_unlinked [of as e rest] es d(2,3) unfolding e(1)
    by (intro conjI exI [of _ "unlinked as e @ rest"]) simp_all
  then show "\<exists>b'. remove_found b r = Ok b' \<and> block_rel bs b' (m(n := None))"
    using d(1) e(3) by (simp add: remove_found_def)
qed

section \<open>New blocks and the tail\<close>

lemma insert_to_new_block_holds:
  assumes "length data = bs" and "bs mod 4 = 0" and "276 \<le> bs" and "bs - 12 < 2 ^ 16" and "length name \<le> 255"
  obtains d where "insert_to_new_block bs data ino name ty = Ok d" "length d = bs"
    "holds d 0 [fresh_entry name ino ty (bs - 12)] (bs - 12)" "slice d (bs - 12) 12 = tail_new"
proof -
  let ?n = "bs - 12" and ?e = "fresh_entry name ino ty (bs - 12)"
  have n: "8 + length name \<le> ?n" "?n mod 4 = 0" "264 \<le> bs - 12" "12 \<le> bs" using assms(2,3,5) by presburger+
  obtain w where w: "write_entry (of_nat ?n) ino name ty default_dir_entry = Ok w" "length w = 264" "entry_at w 0 ?e"
    using write_entry_default [OF assms(5) n(1,2) assms(4)] by blast
  let ?d = "put data 0 w" let ?t = "put ?d (bs - 12) tail_new"
  have t: "length tail_new = 12" by (simp add: tail_new_def)
  have d: "length ?d = bs" "put ?d 0 w = ?d" using assms(1) w(2) n by (simp_all add: length_put put_put_same)
  have lt: "length ?t = bs" using d(1) t n(4) by (simp add: length_put)
  have "entry_at ?d 0 ?e"
    by (rule entry_at_put [OF _ w(2) _ w(3)]) (use assms(1,5) n in \<open>simp_all add: fresh_entry_def\<close>)
  then have "entry_at ?t 0 ?e"
    by (rule entry_at_cong [rotated 2]) (use d(1) lt t n in \<open>simp_all add: nth_put fresh_entry_def\<close>)
  moreover have "slice ?t (bs - 12) 12 = tail_new" using d(1) t n(4) by (simp add: slice_put_same)
  moreover have "insert_to_new_block bs data ino name ty = Ok ?t"
    using w d assms(1) n by (simp add: insert_to_new_block_def de_copy_to_slice_def tail_copy_to_slice_def)
  ultimately show ?thesis using that lt by (simp add: fresh_entry_def)
qed

definition dir_csum :: "superblock \<Rightarrow> u32 \<Rightarrow> u32 \<Rightarrow> bytes \<Rightarrow> u32" where
  "dir_csum sb ino gen data = crc_ref (crc_ref (crc_ref (crc_ref EXT4_CRC32_INIT
     (slice sb (offset_of superblock_layout ''uuid'') 16)) (le_bytes 4 ino)) (le_bytes 4 gen))
     (slice data 0 (unat (block_size sb) - 12))"

lemma crc_fields:
  "ext4_crc32c c (le_bytes 4 x) 4 = Ok (crc_ref c (le_bytes 4 x))"
  "length u = 16 \<Longrightarrow> ext4_crc32c c u 16 = Ok (crc_ref c u)"
  using ext4_crc32c_small [of "le_bytes 4 x" c] ext4_crc32c_small [of u c] by simp_all

lemma ext4_dir_block_csum_eq:
  assumes "length sb = 1024" and "unat (block_size sb) - 12 \<le> length data"
  shows "ext4_dir_block_csum sb ino gen data = Ok (dir_csum sb ino gen data)"
proof -
  have n: "unat (block_size sb) - 12 < 2 ^ 32" using unat_bound [of "block_size sb"] by simp
  have "length (slice data 0 (unat (block_size sb) - 12)) = unat (block_size sb) - 12" using assms(2) by simp
  then have "ext4_crc32c c (slice data 0 (unat (block_size sb) - 12)) (of_nat (unat (block_size sb) - 12))
      = Ok (crc_ref c (slice data 0 (unat (block_size sb) - 12)))" for c
    using ext4_crc32c_small [of "slice data 0 (unat (block_size sb) - 12)" c] n by simp
  then show ?thesis using assms
    by (simp add: ext4_dir_block_csum_def dir_csum_def get_at_Ok crc_fields Let_def)
qed

lemma dir_set_csum_stamp:
  assumes "length sb = 1024" and "length data = unat (block_size sb)" and "12 \<le> length data"
  obtains d where "dir_set_csum sb data ino gen = Ok d" "length d = length data"
    "\<And>i. i < length data - 12 \<Longrightarrow> d ! i = data ! i"
    "ext4_dir_block_csum sb ino gen d = Ok (tail_checksum (slice d (length d - 12) 12))"
    "\<And>m. block_rel (length data) data m \<Longrightarrow> block_rel (length data) d m"
proof -
  let ?n = "length data - 12"
  let ?t = "le_put 8 4 (dir_csum sb ino gen data) (slice data ?n 12)" let ?d = "put data ?n ?t"
  have t: "length ?t = 12" using assms(3) by simp
  have d: "length ?d = length data" using t assms(3) by (simp add: length_put)
  have same: "?d ! i = data ! i" if "i < ?n" for i using that t assms(3) by (simp add: nth_put)
  have "dir_csum sb ino gen ?d = dir_csum sb ino gen data"
    using t assms(2,3) by (simp add: dir_csum_def slice_put_below)
  then have c: "ext4_dir_block_csum sb ino gen ?d = Ok (tail_checksum (slice ?d (length ?d - 12) 12))"
    using ext4_dir_block_csum_eq [OF assms(1), of ?d ino gen] assms(2,3) t d
    by (simp add: slice_put_same tail_checksum_def)
  have rel: "block_rel (length data) ?d m" if "block_rel (length data) data m" for m
    using that d holds_cong [of data 0 _ "length data - 12" ?d] same unfolding block_rel_def by auto
  have "dir_set_csum sb data ino gen = Ok ?d"
    using ext4_dir_block_csum_eq [OF assms(1), of data ino gen] assms(2,3) t
    by (simp add: dir_set_csum_def tail_set_csum_def tail_copy_to_slice_def Let_def)
  then show ?thesis using that d same c rel by blast
qed

section \<open>Properties\<close>

text \<open>In a block that holds distinct names, inserting a new name (not empty inode, at most 255
  bytes) either reports ENOSPC or gives a block that holds the same names and the new one; looking
  it up gives its inode number, and removing what was found gives a block with the old names
  again. No branch panics or leaves the buffer.\<close>

theorem dir_block_insert_remove:
  assumes "block_rel bs data m" and "m name = None" and "ino \<noteq> 0" and "length name \<le> 255"
  shows "insert_to_block bs data name ino ty = Err ENOSPC
    \<or> (\<exists>data' r data''. insert_to_block bs data name ino ty = Ok data' \<and> block_rel bs data' (m(name \<mapsto> ino))
        \<and> dir_find_in_block bs data' name = Ok r \<and> de_inode (ds_dentry r) = ino
        \<and> remove_from_block data' (ds_offset r) (ds_dentry r) = Ok data'' \<and> block_rel bs data'' m)"
proof (cases "insert_to_block bs data name ino ty = Err ENOSPC")
  case False
  then obtain d where d: "insert_to_block bs data name ino ty = Ok d" "block_rel bs d (m(name \<mapsto> ino))"
    using block.insert_rel [OF assms, of ty] by blast
  obtain r where r: "dir_find_in_block bs d name = Ok r" "de_inode (ds_dentry r) = ino"
    using block.insert_then_find(1) [OF assms d(1)] by blast
  show ?thesis
    using block.insert_then_remove [OF assms d(1) r(1)] d r by (auto simp: remove_found_def)
qed simp

text \<open>The lookup in a block is the map of its names, before and after a removal: it finds a
  name exactly when an entry in use carries it, and a removed name is gone while every other name
  keeps its inode.\<close>

theorem dir_block_lookup:
  assumes "block_rel bs data m"
  shows "(case m name of
      None \<Rightarrow> dir_find_in_block bs data name = Err ENOENT
    | Some ino \<Rightarrow> \<exists>r data'. dir_find_in_block bs data name = Ok r \<and> de_inode (ds_dentry r) = ino
        \<and> remove_from_block data (ds_offset r) (ds_dentry r) = Ok data'
        \<and> dir_find_in_block bs data' name = Err ENOENT
        \<and> (\<forall>k ino'. k \<noteq> name \<longrightarrow> (\<exists>r. dir_find_in_block bs data' k = Ok r \<and> de_inode (ds_dentry r) = ino')
             \<longleftrightarrow> m k = Some ino'))"
proof (cases "m name")
  case None
  then show ?thesis using block.find_none [OF assms] by simp
next
  case (Some ino)
  then obtain r where r: "dir_find_in_block bs data name = Ok r" "de_inode (ds_dentry r) = ino"
    using block.find_some [OF assms] by blast
  obtain d where d: "remove_found data r = Ok d" using block.remove_rel [OF assms r(1)] by blast
  show ?thesis
    using Some r d block.remove_then_find [OF assms r(1) d] block.find_iff [OF assms]
    by (auto simp: remove_found_def)
qed

definition dot_name :: bytes where "dot_name = [0x2E]"

lemma small_block:
  obtains d where "insert_to_new_block 1024 (replicate 1024 0) 12 dot_name 2 = Ok d" "block_rel 1024 d [dot_name \<mapsto> 12]"
proof -
  obtain d where d: "insert_to_new_block 1024 (replicate 1024 0) 12 dot_name 2 = Ok d" "length d = 1024"
    "holds d 0 [fresh_entry dot_name 12 2 (1024 - 12)] (1024 - 12)"
    using insert_to_new_block_holds [of "replicate 1024 0" 1024 dot_name 12 2] by (auto simp: dot_name_def)
  have "block_rel 1024 d [dot_name \<mapsto> 12]" unfolding block_rel_def
    using d(2,3) by (intro conjI exI [of _ "[fresh_entry dot_name 12 2 (1024 - 12)]"])
      (simp_all add: distinct_names_def names_Cons)
  then show ?thesis using that d(1) by blast
qed

theorem dir_block_insert_remove_witness:
  "\<exists>data. insert_to_new_block 1024 (replicate 1024 0) 12 dot_name 2 = Ok data
    \<and> (insert_to_block 1024 data [0x61] 15 1 = Err ENOSPC \<or> is_ok (insert_to_block 1024 data [0x61] 15 1))"
proof -
  obtain d where d: "insert_to_new_block 1024 (replicate 1024 0) 12 dot_name 2 = Ok d" "block_rel 1024 d [dot_name \<mapsto> 12]"
    by (rule small_block)
  have "([dot_name \<mapsto> 12] :: bytes \<rightharpoonup> u32) [0x61] = None" by (simp add: dot_name_def)
  then show ?thesis using dir_block_insert_remove [OF d(2), of "[0x61]" 15 1] d(1) by auto
qed

theorem dir_block_lookup_witness:
  "\<exists>data r. insert_to_new_block 1024 (replicate 1024 0) 12 dot_name 2 = Ok data
    \<and> dir_find_in_block 1024 data dot_name = Ok r \<and> de_inode (ds_dentry r) = 12"
proof -
  obtain d where d: "insert_to_new_block 1024 (replicate 1024 0) 12 dot_name 2 = Ok d" "block_rel 1024 d [dot_name \<mapsto> 12]"
    by (rule small_block)
  then show ?thesis using dir_block_lookup [OF d(2), of dot_name] by auto
qed

text \<open>A new directory block holds exactly the entry it was made for; stamping the tail keeps the
  entries, and the checksum in the tail is the one of the stamped block.\<close>

theorem dir_new_block:
  assumes "length sb = 1024" and "length data = unat (block_size sb)" and "unat (block_size sb) = bs"
    and "bs mod 4 = 0" and "276 \<le> bs" and "bs - 12 < 2 ^ 16" and "length name \<le> 255" and "child_ino \<noteq> 0"
  shows "\<exists>d d'. insert_to_new_block bs data child_ino name ty = Ok d \<and> dir_set_csum sb d ino gen = Ok d'
    \<and> block_rel bs d' [name \<mapsto> child_ino]
    \<and> ext4_dir_block_csum sb ino gen d' = Ok (tail_checksum (slice d' (bs - 12) 12))"
proof -
  obtain d where d: "insert_to_new_block bs data child_ino name ty = Ok d" "length d = bs"
    "holds d 0 [fresh_entry name child_ino ty (bs - 12)] (bs - 12)"
    using insert_to_new_block_holds [of data bs name child_ino ty] assms by metis
  have rel: "block_rel (length d) d [name \<mapsto> child_ino]" unfolding block_rel_def
    using d(2,3) assms(6,8) by (intro conjI exI [of _ "[fresh_entry name child_ino ty (bs - 12)]"])
      (simp_all add: distinct_names_def names_Cons)
  obtain d' where d': "dir_set_csum sb d ino gen = Ok d'" "length d' = length d"
    "ext4_dir_block_csum sb ino gen d' = Ok (tail_checksum (slice d' (length d' - 12) 12))"
    "\<And>m. block_rel (length d) d m \<Longrightarrow> block_rel (length d) d' m"
    by (rule dir_set_csum_stamp [OF assms(1), of d ino gen]) (use d(2) assms(3,5) in auto)
  show ?thesis using d(1,2) d' rel by auto
qed

theorem dir_new_block_witness:
  "\<exists>d d'. insert_to_new_block 2048 (replicate 2048 0) 12 dot_name 2 = Ok d \<and> dir_set_csum wide_sb d 2 0 = Ok d'
    \<and> block_rel 2048 d' [dot_name \<mapsto> 12]"
  using dir_new_block [of wide_sb "replicate 2048 0" 2048 dot_name 12 2 2 0] by (auto simp: dot_name_def)

end
