(* ===== verification/HTree.thy ===== *)
theory HTree
  imports DirHash DirBlock MapBlocks
begin

text \<open>
  Hashed directories (\<open>src/src/ext4_impls/htree.rs\<close>): the index blocks, the descent from a hash to the
  leaf block, lookup, conversion of a full directory, splitting of leaves and index nodes, growth in
  depth. An index block is its bytes; its entries begin at \<open>eo\<close>, and entry 0 has the limit and the count
  of the block in place of a hash.

  \<open>dx_add_to_index\<close> calls itself on the new tree once the root has grown. The level count of the root
  bounds how often that can happen, and the model bounds the nesting (deeper nesting is \<open>Panic\<close>).
\<close>

section \<open>Index blocks\<close>

definition DX_ROOT_ENTRIES_OFFSET :: nat where "DX_ROOT_ENTRIES_OFFSET = 0x20"
definition DX_NODE_ENTRIES_OFFSET :: nat where "DX_NODE_ENTRIES_OFFSET = 8"

definition byte_at :: "bytes \<Rightarrow> nat \<Rightarrow> u8 res" where
  "byte_at d k = (if k < length d then Ok (d ! k) else Panic)"

definition dx_limit :: "bytes \<Rightarrow> nat \<Rightarrow> u16 res" where
  "dx_limit d eo = map_res le_word (get_at d eo 2)"

definition dx_count :: "bytes \<Rightarrow> nat \<Rightarrow> u16 res" where
  "dx_count d eo = map_res le_word (get_at d (eo + 2) 2)"

definition dx_set_limit :: "bytes \<Rightarrow> nat \<Rightarrow> u16 \<Rightarrow> bytes res" where
  "dx_set_limit d eo l = put_at d eo (le_bytes 2 l)"

definition dx_set_count :: "bytes \<Rightarrow> nat \<Rightarrow> u16 \<Rightarrow> bytes res" where
  "dx_set_count d eo c = put_at d (eo + 2) (le_bytes 2 c)"

definition dx_get_entry :: "bytes \<Rightarrow> nat \<Rightarrow> nat \<Rightarrow> (u32 \<times> u32) res" where
  "dx_get_entry d eo i =
     map_res (\<lambda>e. (le_get 0 4 e, le_get 4 4 e)) (get_at d (eo + i * 8) 8)"

definition dx_set_entry :: "bytes \<Rightarrow> nat \<Rightarrow> nat \<Rightarrow> u32 \<Rightarrow> u32 \<Rightarrow> bytes res" where
  "dx_set_entry d eo i hash blk = put_at d (eo + i * 8) (le_bytes 4 hash @ le_bytes 4 blk)"

text \<open>The block of the last entry whose hash is not above the target; entry 0 covers the lowest range.\<close>

fun dx_scan :: "bytes \<Rightarrow> nat \<Rightarrow> u32 \<Rightarrow> nat list \<Rightarrow> u32 \<Rightarrow> u32 res" where
  "dx_scan d eo target [] blk = Ok blk"
| "dx_scan d eo target (i # is) blk =
     bind (dx_get_entry d eo i) (\<lambda>(h, b). if target < h then Ok blk else dx_scan d eo target is b)"

definition dx_lookup :: "bytes \<Rightarrow> nat \<Rightarrow> u16 \<Rightarrow> u32 \<Rightarrow> u32 res" where
  "dx_lookup d eo count target =
     bind (dx_get_entry d eo 0) (\<lambda>(_, b). dx_scan d eo target [1..<unat count] b)"

section \<open>Descending\<close>

definition load_lblock :: "ext4 \<Rightarrow> inode_ref \<Rightarrow> u32 \<Rightarrow> (jdev, u64 \<times> bytes) io" where
  "load_lblock fs dir lblock =
     bindS (get_pblock_idx (fs_block_size fs) dir lblock) (\<lambda>pblock.
     bindS (jd_read (unat pblock * fs_block_size fs) (fs_block_size fs)) (\<lambda>d. ret (pblock, d)))"

definition dx_load_block :: "ext4 \<Rightarrow> inode_ref \<Rightarrow> u32 \<Rightarrow> nat \<Rightarrow> (jdev, bytes \<times> u16) io" where
  "dx_load_block fs dir lblock eo =
     bindS (load_lblock fs dir lblock) (\<lambda>(_, d).
     bindS (lift (dx_count d eo)) (\<lambda>count.
     bindS (lift (dx_limit d eo)) (\<lambda>limit.
     if count = 0 \<or> limit < count then lift (Err EIO) else ret (d, count))))"

fun dx_descend :: "ext4 \<Rightarrow> inode_ref \<Rightarrow> u32 \<Rightarrow> nat \<Rightarrow> bytes \<Rightarrow> nat \<Rightarrow> u16 \<Rightarrow> (jdev, u32) io" where
  "dx_descend fs dir hash 0 d eo count = lift (dx_lookup d eo count hash)"
| "dx_descend fs dir hash (Suc levels) d eo count =
     bindS (lift (dx_lookup d eo count hash)) (\<lambda>blk.
     bindS (dx_load_block fs dir blk DX_NODE_ENTRIES_OFFSET) (\<lambda>(d, count).
     dx_descend fs dir hash levels d DX_NODE_ENTRIES_OFFSET count))"

definition seed_quad :: "superblock \<Rightarrow> quad" where
  "seed_quad sb = (case hash_seed sb of [a, b, c, d] \<Rightarrow> (a, b, c, d) | _ \<Rightarrow> (0, 0, 0, 0))"

definition dx_probe :: "ext4 \<Rightarrow> inode_ref \<Rightarrow> bytes \<Rightarrow> (jdev, u32) io" where
  "dx_probe fs dir name =
     bindS (dx_load_block fs dir 0 DX_ROOT_ENTRIES_OFFSET) (\<lambda>(d, count).
     bindS (lift (byte_at d 0x1d)) (\<lambda>info_length.
     bindS (lift (byte_at d 0x1e)) (\<lambda>indirect_levels.
     if info_length \<noteq> 8 then lift (Err ENOTSUP)
     else bindS (lift (byte_at d 0x1c)) (\<lambda>hash_version.
       dx_descend fs dir (fst (ext4_dir_hash name hash_version (seed_quad (fs_sb fs))))
         (unat indirect_levels) d DX_ROOT_ENTRIES_OFFSET count))))"

definition dx_find_entry :: "ext4 \<Rightarrow> u32 \<Rightarrow> bytes \<Rightarrow> (jdev, dir_search) io" where
  "dx_find_entry fs parent_inode name =
     bindS (get_inode_ref fs parent_inode) (\<lambda>dir.
     if \<not> is_index (ir_inode dir) then lift (Err ENOTSUP)
     else bindS (dx_probe fs dir name) (\<lambda>leaf.
       bindS (load_lblock fs dir leaf) (\<lambda>(pblock, d).
       bindS (lift (dir_find_in_block (fs_block_size fs) d name)) (\<lambda>r.
       ret (r\<lparr> ds_pblock_id := unat pblock \<rparr>)))))"

section \<open>Building blocks\<close>

definition aligned_de_len :: "nat \<Rightarrow> nat" where
  "aligned_de_len n = (let l = 8 + n in if l mod 4 \<noteq> 0 then l + (4 - l mod 4) else l)"

definition dx_block_limit :: "ext4 \<Rightarrow> nat \<Rightarrow> u16" where
  "dx_block_limit fs eo = of_nat (usize_sub (usize_sub (fs_block_size fs) eo) 8 div 8)"

definition dx_set_csum :: "ext4 \<Rightarrow> bytes \<Rightarrow> u32 \<Rightarrow> u32 \<Rightarrow> nat \<Rightarrow> bytes res" where
  "dx_set_csum fs d dir_ino ino_gen eo =
     bind (dx_count d eo) (\<lambda>count.
     bind (dx_limit d eo) (\<lambda>limit.
     let tail_off = eo + unat limit * 8; sz = eo + unat count * 8 in
     bind (ext4_crc32c EXT4_CRC32_INIT (slice (fs_sb fs) (offset_of superblock_layout ''uuid'') 16) 16) (\<lambda>seed.
     bind (ext4_crc32c seed (le_bytes 4 dir_ino) 4) (\<lambda>seed.
     bind (ext4_crc32c seed (le_bytes 4 ino_gen) 4) (\<lambda>seed.
     bind (get_at d 0 sz) (\<lambda>b.
     bind (ext4_crc32c seed b (of_nat sz)) (\<lambda>csum.
     bind (ext4_crc32c csum (replicate 8 0) 8) (\<lambda>csum.
     bind (put_at d tail_off (le_bytes 4 (0 :: u32))) (\<lambda>d.
     put_at d (tail_off + 4) (le_bytes 4 csum))))))))))"

definition dx_hash_params :: "ext4 \<Rightarrow> inode_ref \<Rightarrow> (jdev, u8 \<times> quad) io" where
  "dx_hash_params fs dir =
     bindS (load_lblock fs dir 0) (\<lambda>(_, d).
     bindS (lift (byte_at d 0x1c)) (\<lambda>v. ret (v, seed_quad (fs_sb fs))))"

type_synonym dx_item = "bytes \<times> u32 \<times> u8"

function read_items :: "nat \<Rightarrow> bytes \<Rightarrow> nat \<Rightarrow> dx_item list res" where
  "read_items limit data off =
     (if off < limit
      then bind (try_from data off) (\<lambda>de.
        let rl = unat (de_entry_len de) in
        if rl = 0 then Ok []
        else if \<not> de_unused de \<and> 0 < de_name_len de
        then bind (get_name de) (\<lambda>name.
          if name \<noteq> [0x2E] \<and> name \<noteq> [0x2E, 0x2E]
          then map_res ((#) (name, de_inode de, get_de_type de)) (read_items limit data (off + rl))
          else read_items limit data (off + rl))
        else read_items limit data (off + rl))
      else Ok [])"
  by pat_completeness auto
termination
  by (relation "measure (\<lambda>(limit, data, off). limit - off)") auto

declare read_items.simps [simp del]

definition dx_read_leaf_entries :: "nat \<Rightarrow> bytes \<Rightarrow> dx_item list res" where
  "dx_read_leaf_entries bs data = read_items (bs - 12) data 0"

fun write_items :: "nat \<Rightarrow> bytes \<Rightarrow> nat \<Rightarrow> dx_item list \<Rightarrow> bytes res" where
  "write_items tail_start data off [] = Ok data"
| "write_items tail_start data off ((name, ino, ty) # rest) =
     (let minlen = aligned_de_len (length name);
          rec_len = (if rest = [] then usize_sub tail_start off else minlen) in
      bind (write_entry (of_nat rec_len) ino name (ty AND 7) default_dir_entry) (\<lambda>de.
      bind (de_copy_to_slice de data off) (\<lambda>data. write_items tail_start data (off + minlen) rest)))"

definition dx_write_leaf :: "ext4 \<Rightarrow> bytes \<Rightarrow> dx_item list \<Rightarrow> u32 \<Rightarrow> u32 \<Rightarrow> bytes res" where
  "dx_write_leaf fs data items dir_ino ino_gen =
     (let data = replicate (length data) 0; tail_start = fs_block_size fs - 12 in
      bind (if items = []
            then bind (write_entry (of_nat tail_start) 0 [] 0 default_dir_entry) (\<lambda>de. de_copy_to_slice de data 0)
            else write_items tail_start data 0 items) (\<lambda>data.
      bind (tail_copy_to_slice tail_new data) (\<lambda>data.
      dir_set_csum (fs_sb fs) data dir_ino ino_gen)))"

definition dx_format_root :: "ext4 \<Rightarrow> bytes \<Rightarrow> u32 \<Rightarrow> u32 \<Rightarrow> u8 \<Rightarrow> u32 \<Rightarrow> bytes res" where
  "dx_format_root fs data dir_ino dotdot_ino hash_version first_leaf =
     (let data = replicate (length data) 0; eo = DX_ROOT_ENTRIES_OFFSET in
      bind (write_entry 12 dir_ino [0x2E] 2 default_dir_entry) (\<lambda>dot.
      bind (de_copy_to_slice dot data 0) (\<lambda>data.
      bind (write_entry (of_nat (fs_block_size fs - 12)) dotdot_ino [0x2E, 0x2E] 2 default_dir_entry) (\<lambda>dotdot.
      bind (de_copy_to_slice dotdot data 12) (\<lambda>data.
      bind (put_at data 0x1c [hash_version, 8, 0, 0]) (\<lambda>data.
      bind (dx_set_limit data eo (dx_block_limit fs eo)) (\<lambda>data.
      bind (dx_set_count data eo 1) (\<lambda>data.
      put_at data (eo + 4) (le_bytes 4 first_leaf)))))))))"

fun write_node_entries :: "bytes \<Rightarrow> nat \<Rightarrow> nat \<Rightarrow> (u32 \<times> u32) list \<Rightarrow> bytes res" where
  "write_node_entries d eo i [] = Ok d"
| "write_node_entries d eo i ((h, b) # ents) =
     bind (if i = 0 then put_at d (eo + 4) (le_bytes 4 b) else dx_set_entry d eo i h b)
       (\<lambda>d. write_node_entries d eo (i + 1) ents)"

definition dx_write_node :: "ext4 \<Rightarrow> bytes \<Rightarrow> (u32 \<times> u32) list \<Rightarrow> u32 \<Rightarrow> u32 \<Rightarrow> bytes res" where
  "dx_write_node fs data ents dir_ino ino_gen =
     (let eo = DX_NODE_ENTRIES_OFFSET; d = replicate (length data) 0 in
      bind (put_at d 4 (le_bytes 2 (of_nat (fs_block_size fs) :: u16))) (\<lambda>d.
      bind (dx_set_limit d eo (dx_block_limit fs eo)) (\<lambda>d.
      bind (dx_set_count d eo (of_nat (length ents))) (\<lambda>d.
      bind (write_node_entries d eo 0 ents) (\<lambda>d.
      dx_set_csum fs d dir_ino ino_gen eo)))))"

section \<open>Conversion\<close>

function dotdot_loop :: "nat \<Rightarrow> bytes \<Rightarrow> nat \<Rightarrow> u32 \<Rightarrow> u32 res" where
  "dotdot_loop limit data off dotdot =
     (if off < limit
      then bind (try_from data off) (\<lambda>de.
        let rl = unat (de_entry_len de) in
        if rl = 0 then Ok dotdot
        else if \<not> de_unused de
        then bind (get_name de) (\<lambda>name.
          dotdot_loop limit data (off + rl) (if name = [0x2E, 0x2E] then de_inode de else dotdot))
        else dotdot_loop limit data (off + rl) dotdot)
      else Ok dotdot)"
  by pat_completeness auto
termination
  by (relation "measure (\<lambda>(limit, data, off, dotdot). limit - off)") auto

declare dotdot_loop.simps [simp del]

text \<open>The logical block that an append to the directory creates.\<close>

definition next_lblock :: "ext4 \<Rightarrow> inode_ref \<Rightarrow> u32 res" where
  "next_lblock fs r =
     (if fs_block_size fs = 0 then Panic else Ok (ucast (inode_size (ir_inode r) div of_nat (fs_block_size fs))))"

definition write_fs_block :: "ext4 \<Rightarrow> u64 \<Rightarrow> (bytes \<Rightarrow> bytes res) \<Rightarrow> (jdev, unit) io" where
  "write_fs_block fs pblk change =
     bindS (jd_read (unat pblk * fs_block_size fs) (fs_block_size fs)) (\<lambda>d.
     bindS (lift (change d)) (\<lambda>d. jd_write (unat pblk * fs_block_size fs) d))"

definition EXT4_INODE_FLAG_INDEX :: u32 where "EXT4_INODE_FLAG_INDEX = 0x1000"

definition dx_convert_to_htree :: "ext4 \<Rightarrow> inode_ref \<Rightarrow> (jdev, inode_ref) io" where
  "dx_convert_to_htree fs parent =
     (let gen = i_generation (ir_inode parent); dir_ino = ir_inode_num parent; bs = fs_block_size fs in
      bindS (load_lblock fs parent 0) (\<lambda>(p0, block0).
      bindS (lift (dotdot_loop (bs - 12) block0 0 0)) (\<lambda>dotdot.
      bindS (lift (dx_read_leaf_entries bs block0)) (\<lambda>items.
      bindS (lift (next_lblock fs parent)) (\<lambda>leaf_lblk.
      bindS (append_inode_pblk fs parent) (\<lambda>(leaf_pblk, parent).
      bindS (write_fs_block fs leaf_pblk (\<lambda>d. dx_write_leaf fs d items dir_ino gen)) (\<lambda>_.
      bindS (write_fs_block fs p0 (\<lambda>d.
              bind (dx_format_root fs d dir_ino dotdot (default_hash_version (fs_sb fs)) leaf_lblk) (\<lambda>d.
              dx_set_csum fs d dir_ino gen DX_ROOT_ENTRIES_OFFSET))) (\<lambda>_.
      let i = ir_inode parent in
      write_back_inode fs (parent\<lparr> ir_inode := i\<lparr> i_flags := i_flags i OR EXT4_INODE_FLAG_INDEX \<rparr> \<rparr>)))))))))"

section \<open>Splitting\<close>

text \<open>The first position from the middle on, or else down from it, where the keys change. One key alone
  makes the code read the key before the first.\<close>

function split_up :: "u32 list \<Rightarrow> nat \<Rightarrow> nat" where
  "split_up keys mid =
     (if mid < length keys \<and> keys ! mid = keys ! (mid - 1) then split_up keys (mid + 1) else mid)"
  by pat_completeness auto
termination by (relation "measure (\<lambda>(keys, mid). length keys - mid)") auto

declare split_up.simps [simp del]

fun split_down :: "u32 list \<Rightarrow> nat \<Rightarrow> nat" where
  "split_down keys 0 = 0"
| "split_down keys (Suc mid) = (if keys ! Suc mid = keys ! mid then split_down keys mid else Suc mid)"

definition split_point :: "u32 list \<Rightarrow> nat res" where
  "split_point keys =
     (if length keys = 1 then Panic
      else let n = length keys; mid = split_up keys (n div 2);
               mid = (if n \<le> mid then split_down keys (n div 2) else mid) in
        if mid = 0 \<or> n \<le> mid then Err ENOSPC else Ok mid)"

text \<open>The entries of an index block, entry 0 with hash 0.\<close>

definition index_entries :: "bytes \<Rightarrow> nat \<Rightarrow> u16 \<Rightarrow> (u32 \<times> u32) list res" where
  "index_entries d eo count =
     map_each (\<lambda>i. map_res (\<lambda>(h, b). (if i = 0 then 0 else h, b)) (dx_get_entry d eo i)) [0..<unat count]"

fun insert_pos :: "u32 \<Rightarrow> (u32 \<times> u32) list \<Rightarrow> nat list \<Rightarrow> nat" where
  "insert_pos hash ents [] = length ents"
| "insert_pos hash ents (i # is) = (if hash < fst (ents ! i) then i else insert_pos hash ents is)"

definition insert_entry :: "u32 \<Rightarrow> u32 \<Rightarrow> (u32 \<times> u32) list \<Rightarrow> (u32 \<times> u32) list" where
  "insert_entry hash blk ents =
     (let pos = insert_pos hash ents [1..<length ents] in take pos ents @ (hash, blk) # drop pos ents)"

definition dx_split_node ::
  "ext4 \<Rightarrow> inode_ref \<Rightarrow> u32 \<Rightarrow> u32 \<Rightarrow> u32 \<Rightarrow> (jdev, u32 \<times> u32 \<times> inode_ref) io" where
  "dx_split_node fs parent node_lblk ins_hash ins_blk =
     (let gen = i_generation (ir_inode parent); dir_ino = ir_inode_num parent; eo = DX_NODE_ENTRIES_OFFSET in
      bindS (load_lblock fs parent node_lblk) (\<lambda>(node_pblk, nb).
      bindS (lift (dx_count nb eo)) (\<lambda>count.
      bindS (lift (index_entries nb eo count)) (\<lambda>ents.
      let ents = insert_entry ins_hash ins_blk ents in
      bindS (lift (split_point (map fst ents))) (\<lambda>mid.
      bindS (lift (next_lblock fs parent)) (\<lambda>new_lblk.
      bindS (append_inode_pblk fs parent) (\<lambda>(new_pblk, parent).
      bindS (write_fs_block fs node_pblk (\<lambda>d. dx_write_node fs d (take mid ents) dir_ino gen)) (\<lambda>_.
      bindS (write_fs_block fs new_pblk (\<lambda>d. dx_write_node fs d (drop mid ents) dir_ino gen)) (\<lambda>_.
      ret (fst (ents ! mid), new_lblk, parent))))))))))"

definition dx_grow_depth :: "ext4 \<Rightarrow> inode_ref \<Rightarrow> (jdev, inode_ref) io" where
  "dx_grow_depth fs parent =
     (let gen = i_generation (ir_inode parent); dir_ino = ir_inode_num parent; eo = DX_ROOT_ENTRIES_OFFSET in
      bindS (load_lblock fs parent 0) (\<lambda>(p0, root).
      bindS (lift (dx_count root eo)) (\<lambda>count.
      bindS (lift (byte_at root 0x1e)) (\<lambda>levels.
      let max_levels = (if incompat_features (fs_sb fs) AND 0x4000 \<noteq> 0 then 2 else 1) in
      if max_levels \<le> levels then lift (Err ENOSPC)
      else bindS (lift (index_entries root eo count)) (\<lambda>ents.
        bindS (lift (next_lblock fs parent)) (\<lambda>node_lblk.
        bindS (append_inode_pblk fs parent) (\<lambda>(node_pblk, parent).
        bindS (write_fs_block fs node_pblk (\<lambda>d. dx_write_node fs d ents dir_ino gen)) (\<lambda>_.
        bindS (write_fs_block fs p0 (\<lambda>d.
                bind (dx_set_count d eo 1) (\<lambda>d.
                bind (put_at d (eo + 4) (le_bytes 4 node_lblk)) (\<lambda>d.
                bind (put_at d 0x1e [levels + 1]) (\<lambda>d.
                dx_set_csum fs d dir_ino gen eo))))) (\<lambda>_. ret parent)))))))))"

definition dx_split_leaf :: "ext4 \<Rightarrow> inode_ref \<Rightarrow> u32 \<Rightarrow> (jdev, u32 \<times> u32 \<times> inode_ref) io" where
  "dx_split_leaf fs parent leaf_lblk =
     (let gen = i_generation (ir_inode parent); dir_ino = ir_inode_num parent; bs = fs_block_size fs in
      bindS (dx_hash_params fs parent) (\<lambda>(hv, seed).
      bindS (load_lblock fs parent leaf_lblk) (\<lambda>(leaf_pblk, leaf).
      bindS (lift (dx_read_leaf_entries bs leaf)) (\<lambda>entries.
      let items = map (\<lambda>e. (fst (ext4_dir_hash (fst e) hv seed), e)) entries in
      if length items < 2 then lift (Err ENOSPC)
      else let items = sort_key fst items in
        bindS (lift (split_point (map fst items))) (\<lambda>mid.
        bindS (lift (next_lblock fs parent)) (\<lambda>new_lblk.
        bindS (append_inode_pblk fs parent) (\<lambda>(new_pblk, parent).
        bindS (write_fs_block fs leaf_pblk (\<lambda>d. dx_write_leaf fs d (map snd (take mid items)) dir_ino gen)) (\<lambda>_.
        bindS (write_fs_block fs new_pblk (\<lambda>d. dx_write_leaf fs d (map snd (drop mid items)) dir_ino gen)) (\<lambda>_.
        ret (fst (items ! mid), new_lblk, parent))))))))))"

section \<open>Insertion\<close>

text \<open>The index blocks from the root to the parent of the leaf, and the leaf.\<close>

fun probe_frames :: "ext4 \<Rightarrow> inode_ref \<Rightarrow> u32 \<Rightarrow> nat \<Rightarrow> bytes \<Rightarrow> u32 \<Rightarrow> nat \<Rightarrow> (u32 \<times> nat) list
    \<Rightarrow> (jdev, (u32 \<times> nat) list \<times> u32) io" where
  "probe_frames fs dir hash levels d lblk eo frames =
     bindS (lift (dx_count d eo)) (\<lambda>count.
     bindS (lift (dx_lookup d eo count hash)) (\<lambda>blk.
     let frames = frames @ [(lblk, eo)] in
     case levels of 0 \<Rightarrow> ret (frames, blk)
     | Suc l \<Rightarrow> bindS (load_lblock fs dir blk) (\<lambda>(_, d).
         probe_frames fs dir hash l d blk DX_NODE_ENTRIES_OFFSET frames)))"

declare probe_frames.simps [simp del]

definition dx_probe_frames_hash :: "ext4 \<Rightarrow> inode_ref \<Rightarrow> u32 \<Rightarrow> (jdev, (u32 \<times> nat) list \<times> u32) io" where
  "dx_probe_frames_hash fs dir hash =
     bindS (load_lblock fs dir 0) (\<lambda>(_, d).
     bindS (lift (byte_at d 0x1e)) (\<lambda>levels.
     probe_frames fs dir hash (unat levels) d 0 DX_ROOT_ENTRIES_OFFSET []))"

fun position_in_index :: "bytes \<Rightarrow> nat \<Rightarrow> u32 \<Rightarrow> nat \<Rightarrow> nat list \<Rightarrow> nat res" where
  "position_in_index d eo hash count [] = Ok count"
| "position_in_index d eo hash count (i # is) =
     bind (dx_get_entry d eo i) (\<lambda>(h, _). if hash < h then Ok i else position_in_index d eo hash count is)"

fun shift_entries :: "bytes \<Rightarrow> nat \<Rightarrow> nat list \<Rightarrow> bytes res" where
  "shift_entries d eo [] = Ok d"
| "shift_entries d eo (i # is) =
     bind (dx_get_entry d eo i) (\<lambda>(h, b). bind (dx_set_entry d eo (i + 1) h b) (\<lambda>d. shift_entries d eo is))"

definition insert_in_index :: "bytes \<Rightarrow> nat \<Rightarrow> nat \<Rightarrow> u32 \<Rightarrow> u32 \<Rightarrow> bytes res" where
  "insert_in_index d eo count hash blk =
     bind (position_in_index d eo hash count [1..<count]) (\<lambda>pos.
     bind (shift_entries d eo (rev [pos..<count])) (\<lambda>d.
     bind (dx_set_entry d eo pos hash blk) (\<lambda>d.
     dx_set_count d eo (of_nat (count + 1)))))"

fun add_to_index_at ::
  "(u32 \<Rightarrow> u32 \<Rightarrow> inode_ref \<Rightarrow> (jdev, inode_ref) io) \<Rightarrow> ext4 \<Rightarrow> (u32 \<times> nat) list \<Rightarrow> nat \<Rightarrow> u32 \<Rightarrow> u32
    \<Rightarrow> inode_ref \<Rightarrow> (jdev, inode_ref) io" where
  "add_to_index_at again fs frames level hash blk parent =
     (if length frames \<le> level then lift Panic
      else let (lblk, eo) = frames ! level in
        bindS (load_lblock fs parent lblk) (\<lambda>(pblk, d).
        bindS (lift (dx_count d eo)) (\<lambda>count.
        bindS (lift (dx_limit d eo)) (\<lambda>limit.
        if count < limit
        then bindS (lift (bind (insert_in_index d eo (unat count) hash blk) (\<lambda>d.
                 dx_set_csum fs d (ir_inode_num parent) (i_generation (ir_inode parent)) eo))) (\<lambda>d.
             bindS (jd_write (unat pblk * fs_block_size fs) d) (\<lambda>_. ret parent))
        else case level of
          0 \<Rightarrow> bindS (dx_grow_depth fs parent) (again hash blk)
        | Suc l \<Rightarrow> bindS (dx_split_node fs parent lblk hash blk) (\<lambda>(median, new_node, parent).
            add_to_index_at again fs frames l median new_node parent)))))"

declare add_to_index_at.simps [simp del]

fun add_to_index_nested :: "nat \<Rightarrow> ext4 \<Rightarrow> u32 \<Rightarrow> u32 \<Rightarrow> inode_ref \<Rightarrow> (jdev, inode_ref) io" where
  "add_to_index_nested 0 fs hash blk parent = lift Panic"
| "add_to_index_nested (Suc n) fs hash blk parent =
     bindS (dx_probe_frames_hash fs parent hash) (\<lambda>(frames, _).
     add_to_index_at (add_to_index_nested n fs) fs frames (length frames - 1) hash blk parent)"

definition dx_add_to_index ::
  "ext4 \<Rightarrow> inode_ref \<Rightarrow> (u32 \<times> nat) list \<Rightarrow> nat \<Rightarrow> u32 \<Rightarrow> u32 \<Rightarrow> (jdev, inode_ref) io" where
  "dx_add_to_index fs parent frames level hash blk =
     add_to_index_at (add_to_index_nested 3 fs) fs frames level hash blk parent"

definition dx_name_hash :: "ext4 \<Rightarrow> inode_ref \<Rightarrow> bytes \<Rightarrow> (jdev, u32) io" where
  "dx_name_hash fs dir name =
     bindS (dx_hash_params fs dir) (\<lambda>(hv, seed). ret (fst (ext4_dir_hash name hv seed)))"

text \<open>Insertion into a block: \<open>try_insert_to_existing_block\<close> writes the block, the caller stamps its tail and
  writes it again.\<close>

definition insert_stamped ::
  "ext4 \<Rightarrow> inode_ref \<Rightarrow> u64 \<Rightarrow> bytes \<Rightarrow> bytes \<Rightarrow> u32 \<Rightarrow> u8 \<Rightarrow> (jdev, unit) io" where
  "insert_stamped fs parent pblk d name child_inode de_type =
     (let pos = unat pblk * fs_block_size fs in
      bindS (lift (insert_to_block (fs_block_size fs) d name child_inode de_type)) (\<lambda>d.
      bindS (jd_write pos d) (\<lambda>_.
      bindS (lift (dir_set_csum (fs_sb fs) d (ir_inode_num parent) (i_generation (ir_inode parent)))) (\<lambda>d.
      jd_write pos d))))"

definition dx_add_entry :: "ext4 \<Rightarrow> inode_ref \<Rightarrow> u32 \<Rightarrow> bytes \<Rightarrow> u8 \<Rightarrow> (jdev, inode_ref) io" where
  "dx_add_entry fs parent child_inode name de_type =
     bindS (dx_name_hash fs parent name) (\<lambda>hash.
     bindS (dx_probe_frames_hash fs parent hash) (\<lambda>(frames, leaf_lblk).
     bindS (load_lblock fs parent leaf_lblk) (\<lambda>(leaf_pblk, leaf).
     case insert_to_block (fs_block_size fs) leaf name child_inode de_type of
       Err _ \<Rightarrow>
         bindS (dx_split_leaf fs parent leaf_lblk) (\<lambda>(split_hash, new_leaf, parent).
         bindS (dx_add_to_index fs parent frames (length frames - 1) split_hash new_leaf) (\<lambda>parent.
         bindS (dx_probe fs parent name) (\<lambda>leaf_lblk2.
         bindS (load_lblock fs parent leaf_lblk2) (\<lambda>(leaf_pblk2, leaf2).
         bindS (insert_stamped fs parent leaf_pblk2 leaf2 name child_inode de_type) (\<lambda>_. ret parent)))))
     | _ \<Rightarrow> bindS (insert_stamped fs parent leaf_pblk leaf name child_inode de_type) (\<lambda>_. ret parent))))"

end
