(* ===== verification/Dir.thy ===== *)
theory Dir
  imports HTree
begin

text \<open>
  Directories over several blocks (\<open>src/src/ext4_impls/dir.rs\<close>): finding, listing, adding, removing and
  retargeting an entry. The blocks of a directory are walked in order; a hashed directory goes through
  its index (\<open>HTree\<close>) first.
\<close>

text \<open>\<open>match\<close> on a result: the continuation for \<open>Ok\<close>, the one for an error. A panic passes through.\<close>

definition on_result :: "('s, 'a) io \<Rightarrow> ('a \<Rightarrow> ('s, 'b) io) \<Rightarrow> (errno \<Rightarrow> ('s, 'b) io) \<Rightarrow> ('s, 'b) io" where
  "on_result m f h s = (case m s of
     (Ok a, t) \<Rightarrow> f a t
   | (Err e, t) \<Rightarrow> h e t
   | (Panic, t) \<Rightarrow> (Panic, t)
   | (Undef, t) \<Rightarrow> (Undef, t))"

section \<open>Blocks\<close>

definition de_type_from_inode :: "inode \<Rightarrow> u8" where
  "de_type_from_inode i =
     (let t = file_type i in
      if t = S_IFREG then 1 else if t = S_IFDIR then 2 else if t = S_IFLNK then 7 else if t = 0x2000 then 3
      else if t = 0x6000 then 4 else if t = 0x1000 then 5 else if t = 0xC000 then 6 else 0)"

definition dir_total_blocks :: "ext4 \<Rightarrow> inode_ref \<Rightarrow> u64 res" where
  "dir_total_blocks fs r =
     (if fs_block_size fs = 0 then Panic else Ok (inode_size (ir_inode r) div of_nat (fs_block_size fs)))"

text \<open>The last node of the path to a block has the number of the block, 0 in a hole.\<close>

definition last_pblock :: "search_path \<Rightarrow> u64 res" where
  "last_pblock path = (case sp_path path of [] \<Rightarrow> Panic | ns \<Rightarrow> Ok (pn_pblock (last ns)))"

definition load_path_block :: "ext4 \<Rightarrow> search_path \<Rightarrow> (jdev, u64 \<times> bytes) io" where
  "load_path_block fs path =
     bindS (lift (last_pblock path)) (\<lambda>fblock.
     bindS (jd_read (unat fblock * fs_block_size fs) (fs_block_size fs)) (\<lambda>d. ret (fblock, d)))"

section \<open>Finding\<close>

fun find_in_blocks :: "ext4 \<Rightarrow> inode_ref \<Rightarrow> bytes \<Rightarrow> nat list \<Rightarrow> (jdev, dir_search) io" where
  "find_in_blocks fs parent name [] = lift (Err ENOENT)"
| "find_in_blocks fs parent name (iblock # rest) =
     on_result (find_extent (fs_block_size fs) parent (of_nat iblock))
       (\<lambda>path. bindS (load_path_block fs path) (\<lambda>(fblock, d).
          on_result (lift (dir_find_in_block (fs_block_size fs) d name))
            (\<lambda>r. ret (r\<lparr> ds_pblock_id := unat fblock \<rparr>))
            (\<lambda>_. find_in_blocks fs parent name rest)))
       (\<lambda>_. lift (Err ENOENT))"

definition dir_find_entry :: "ext4 \<Rightarrow> u32 \<Rightarrow> bytes \<Rightarrow> (jdev, dir_search) io" where
  "dir_find_entry fs parent_inode name =
     bindS (get_inode_ref fs parent_inode) (\<lambda>parent.
     if \<not> is_dir (ir_inode parent) then lift (Err ENOTDIR)
     else let linear = bindS (lift (dir_total_blocks fs parent)) (\<lambda>total.
                find_in_blocks fs parent name [0..<unat total]) in
       if is_index (ir_inode parent)
       then on_result (dx_find_entry fs parent_inode name) ret
              (\<lambda>e. if e = ENOENT then lift (Err ENOENT) else linear)
       else linear)"

section \<open>Listing\<close>

fun list_blocks :: "ext4 \<Rightarrow> inode_ref \<Rightarrow> u64 \<Rightarrow> nat list \<Rightarrow> (jdev, (dir_entry \<times> u64) list) io" where
  "list_blocks fs r start [] = ret []"
| "list_blocks fs r start (iblock # rest) =
     on_result (find_extent (fs_block_size fs) r (of_nat iblock))
       (\<lambda>path. bindS (load_path_block fs path) (\<lambda>(_, d).
          bindS (lift (entries_loop (fs_block_size fs - 12) d (of_nat iblock * of_nat (fs_block_size fs)) start 0)) (\<lambda>es.
          bindS (list_blocks fs r start rest) (\<lambda>more. ret (es @ more)))))
       (\<lambda>_. list_blocks fs r start rest)"

definition dir_entries_with_offset_from :: "ext4 \<Rightarrow> u32 \<Rightarrow> u64 \<Rightarrow> (jdev, (dir_entry \<times> u64) list) io" where
  "dir_entries_with_offset_from fs inode start =
     bindS (get_inode_ref fs inode) (\<lambda>r.
     if \<not> is_dir (ir_inode r) then ret []
     else bindS (lift (dir_total_blocks fs r)) (\<lambda>total.
       list_blocks fs r start [0..<unat (min total (blocks_count (fs_sb fs)))]))"

definition dir_get_entries :: "ext4 \<Rightarrow> u32 \<Rightarrow> (jdev, dir_entry list) io" where
  "dir_get_entries fs inode = bindS (dir_entries_with_offset_from fs inode 0) (\<lambda>es. ret (map fst es))"

fun has_entry_blocks :: "ext4 \<Rightarrow> inode_ref \<Rightarrow> nat list \<Rightarrow> (jdev, bool) io" where
  "has_entry_blocks fs r [] = ret False"
| "has_entry_blocks fs r (iblock # rest) =
     on_result (find_extent (fs_block_size fs) r (of_nat iblock))
       (\<lambda>path. bindS (load_path_block fs path) (\<lambda>(_, d).
          bindS (lift (has_entry_loop (fs_block_size fs - 12) d 0)) (\<lambda>found.
          if found then ret True else has_entry_blocks fs r rest)))
       (\<lambda>_. has_entry_blocks fs r rest)"

definition dir_has_entry :: "ext4 \<Rightarrow> u32 \<Rightarrow> (jdev, bool) io" where
  "dir_has_entry fs dir_inode =
     bindS (get_inode_ref fs dir_inode) (\<lambda>parent.
     if \<not> is_dir (ir_inode parent) then ret False
     else bindS (lift (dir_total_blocks fs parent)) (\<lambda>total. has_entry_blocks fs parent [0..<unat total]))"

section \<open>Adding\<close>

text \<open>Every block in turn; \<open>False\<close> when none has room.\<close>

fun insert_in_blocks :: "ext4 \<Rightarrow> inode_ref \<Rightarrow> u32 \<Rightarrow> bytes \<Rightarrow> u8 \<Rightarrow> nat list \<Rightarrow> (jdev, bool) io" where
  "insert_in_blocks fs parent child_inode name de_type [] = ret False"
| "insert_in_blocks fs parent child_inode name de_type (iblock # rest) =
     bindS (load_lblock fs parent (of_nat iblock)) (\<lambda>(pblock, d).
     case insert_to_block (fs_block_size fs) d name child_inode de_type of
       Err _ \<Rightarrow> insert_in_blocks fs parent child_inode name de_type rest
     | _ \<Rightarrow> bindS (insert_stamped fs parent pblock d name child_inode de_type) (\<lambda>_. ret True))"

definition append_dir_block :: "ext4 \<Rightarrow> inode_ref \<Rightarrow> u32 \<Rightarrow> bytes \<Rightarrow> u8 \<Rightarrow> (jdev, inode_ref) io" where
  "append_dir_block fs parent child_inode name de_type =
     bindS (append_inode_pblk fs parent) (\<lambda>(new_block, parent).
     bindS (write_fs_block fs new_block (\<lambda>d.
       bind (insert_to_new_block (fs_block_size fs) d child_inode name de_type) (\<lambda>d.
       dir_set_csum (fs_sb fs) d (ir_inode_num parent) (i_generation (ir_inode parent))))) (\<lambda>_.
     ret parent))"

definition dir_add_entry :: "ext4 \<Rightarrow> inode_ref \<Rightarrow> inode_ref \<Rightarrow> bytes \<Rightarrow> (jdev, inode_ref) io" where
  "dir_add_entry fs parent child_ref name =
     (let de_type = de_type_from_inode (ir_inode child_ref); ino = ir_inode_num child_ref in
      if is_index (ir_inode parent) then dx_add_entry fs parent ino name de_type
      else bindS (lift (dir_total_blocks fs parent)) (\<lambda>total_blocks.
        bindS (insert_in_blocks fs parent ino name de_type [0..<unat total_blocks]) (\<lambda>done.
        if done then ret parent
        else if total_blocks = 1 \<and> has_feature_dir_index (fs_sb fs)
        then bindS (dx_convert_to_htree fs parent) (\<lambda>parent. dx_add_entry fs parent ino name de_type)
        else append_dir_block fs parent ino name de_type)))"

section \<open>Removing and retargeting\<close>

definition dir_remove_entry :: "ext4 \<Rightarrow> inode_ref \<Rightarrow> bytes \<Rightarrow> (jdev, unit) io" where
  "dir_remove_entry fs parent path =
     bindS (dir_find_entry fs (ir_inode_num parent) path) (\<lambda>result.
     write_fs_block fs (of_nat (ds_pblock_id result)) (\<lambda>d.
       bind (remove_from_block d (ds_offset result) (ds_dentry result)) (\<lambda>d.
       dir_set_csum (fs_sb fs) d (ir_inode_num parent) (i_generation (ir_inode parent)))))"

definition dir_set_entry_target :: "ext4 \<Rightarrow> u32 \<Rightarrow> bytes \<Rightarrow> u32 \<Rightarrow> (jdev, unit) io" where
  "dir_set_entry_target fs parent_ino name target_ino =
     bindS (dir_find_entry fs parent_ino name) (\<lambda>res.
     bindS (get_inode_ref fs target_ino) (\<lambda>target.
     bindS (jd_read (ds_pblock_id res * fs_block_size fs) (fs_block_size fs)) (\<lambda>d.
     bindS (lift (retarget_in_block d (ds_offset res) target_ino (de_type_from_inode (ir_inode target)))) (\<lambda>d.
     bindS (get_inode_ref fs parent_ino) (\<lambda>parent.
     bindS (lift (dir_set_csum (fs_sb fs) d parent_ino (i_generation (ir_inode parent)))) (\<lambda>d.
     jd_write (ds_pblock_id res * fs_block_size fs) d))))))"

end
