(* ===== verification/DirWalk.thy ===== *)
theory DirWalk
  imports Dir FileRead
begin

text \<open>
  A directory as a map: every block of a directory without an index is a map of names (\<open>DirBlock\<close>), and
  the directory is their union, the first block taking precedence. Finding a name is looking it up in
  that map; adding and removing an entry change one block and update the map.
\<close>

definition dir_pos :: "ext4 \<Rightarrow> extent list \<Rightarrow> nat \<Rightarrow> nat" where
  "dir_pos fs es k = unat (fst (lookup es (of_nat k))) * fs_block_size fs"

definition dir_block :: "ext4 \<Rightarrow> (nat \<Rightarrow> u8) \<Rightarrow> extent list \<Rightarrow> nat \<Rightarrow> bytes" where
  "dir_block fs v es k = image_read v (dir_pos fs es k) (fs_block_size fs)"

definition names_in :: "(nat \<Rightarrow> bytes \<rightharpoonup> u32) \<Rightarrow> nat list \<Rightarrow> bytes \<rightharpoonup> u32" where
  "names_in ms ks = foldr (\<lambda>k m. m ++ ms k) ks Map.empty"

definition linear_dir :: "ext4 \<Rightarrow> (nat \<Rightarrow> u8) \<Rightarrow> u32 \<Rightarrow> inode \<Rightarrow> extent list \<Rightarrow> (nat \<Rightarrow> bytes \<rightharpoonup> u32) \<Rightarrow> bool" where
  "linear_dir fs v ino i es ms \<longleftrightarrow> inode_at fs v ino = i \<and> is_dir i \<and> \<not> is_index i \<and> maps_blocks v (fs_block_size fs) i es
     \<and> (\<forall>k < unat (inode_size i div of_nat (fs_block_size fs)). block_rel (fs_block_size fs) (dir_block fs v es k) (ms k))"

abbreviation dir_blocks :: "ext4 \<Rightarrow> inode \<Rightarrow> nat" where
  "dir_blocks fs i \<equiv> unat (inode_size i div of_nat (fs_block_size fs))"

definition dir_names :: "ext4 \<Rightarrow> inode \<Rightarrow> (nat \<Rightarrow> bytes \<rightharpoonup> u32) \<Rightarrow> bytes \<rightharpoonup> u32" where
  "dir_names fs i ms = names_in ms [0..<dir_blocks fs i]"

lemma names_in_simps [simp]:
  "names_in ms [] = Map.empty"
  "names_in ms (k # ks) n = (case ms k n of None \<Rightarrow> names_in ms ks n | Some c \<Rightarrow> Some c)"
  unfolding names_in_def foldr.simps o_apply id_apply by (rule refl, rule fun_cong [OF map_add_def])

section \<open>Finding\<close>

lemma find_extent_maps:
  assumes "jd_inv s" and "maps_blocks (jd_view s) bs (ir_inode r) es"
  obtains sp where "find_extent bs r l s = (Ok sp, s)" and "last_pblock sp = Ok (fst (lookup es l))"
proof -
  obtain root lo hi where root: "load_from_data (i_block (ir_inode r)) True = Ok root"
    "tree_of (jd_view s) bs (unat (eh_depth (en_header root))) root lo hi es"
    using assms(2) by (auto simp: maps_blocks_def)
  obtain sp where sp: "find_extent bs r l s = (Ok sp, s)" "sp_path sp \<noteq> []"
    "pn_pblock (last (sp_path sp)) = fst (lookup es l)"
    by (rule find_extent_result [OF reads_view [OF assms(1)] root, of l]) blast
  then have "last_pblock sp = Ok (fst (lookup es l))" by (auto simp: last_pblock_def split: list.split)
  then show thesis using that sp(1) by blast
qed

lemma load_path_block_view:
  "jd_inv s \<Longrightarrow> last_pblock sp = Ok (fst (lookup es (of_nat k))) \<Longrightarrow>
   load_path_block fs sp s = (Ok (fst (lookup es (of_nat k)), dir_block fs (jd_view s) es k), s)"
  by (simp add: load_path_block_def bindS_def jd_read_view dir_block_def dir_pos_def)

lemma find_in_blocks_names:
  assumes "jd_inv s" and "maps_blocks (jd_view s) (fs_block_size fs) (ir_inode r) es"
  shows "\<forall>k \<in> set ks. block_rel (fs_block_size fs) (dir_block fs (jd_view s) es k) (ms k) \<Longrightarrow>
    (case names_in ms ks name of
       None \<Rightarrow> find_in_blocks fs r name ks s = (Err ENOENT, s)
     | Some c \<Rightarrow> \<exists>k \<in> set ks. \<exists>d. ms k name = Some c \<and> dir_find_in_block (fs_block_size fs) (dir_block fs (jd_view s) es k) name = Ok d
         \<and> de_inode (ds_dentry d) = c
         \<and> find_in_blocks fs r name ks s = (Ok (d\<lparr> ds_pblock_id := unat (fst (lookup es (of_nat k))) \<rparr>), s))"
proof (induction ks)
  case (Cons k ks)
  obtain sp where sp: "find_extent (fs_block_size fs) r (of_nat k) s = (Ok sp, s)"
    "last_pblock sp = Ok (fst (lookup es (of_nat k)))"
    by (rule find_extent_maps [OF assms])
  note load = load_path_block_view [OF assms(1) sp(2), of fs]
  have rel: "block_rel (fs_block_size fs) (dir_block fs (jd_view s) es k) (ms k)" using Cons.prems by simp
  have step: "find_in_blocks fs r name (k # ks) s =
      (case dir_find_in_block (fs_block_size fs) (dir_block fs (jd_view s) es k) name of
         Ok d \<Rightarrow> (Ok (d\<lparr> ds_pblock_id := unat (fst (lookup es (of_nat k))) \<rparr>), s)
       | Err _ \<Rightarrow> find_in_blocks fs r name ks s | Panic \<Rightarrow> (Panic, s) | Undef \<Rightarrow> (Undef, s))"
    by (simp add: on_result_def bindS_def sp(1) load split: res.split)
  show ?case
  proof (cases "ms k name")
    case None
    then show ?thesis using Cons.IH Cons.prems block.find_none [OF rel None] unfolding step
      by (auto split: option.splits)
  next
    case (Some c)
    then show ?thesis using block.find_some [OF rel Some] unfolding step by auto
  qed
qed simp

lemma dir_find_entry_names:
  fixes s fs ino i es ms name
  assumes "jd_inv s" and "inodes_ready fs" and dir: "linear_dir fs (jd_view s) ino i es ms"
  shows "case dir_names fs i ms name of
       None \<Rightarrow> dir_find_entry fs ino name s = (Err ENOENT, s)
     | Some c \<Rightarrow> \<exists>k < dir_blocks fs i. \<exists>d. ms k name = Some c
         \<and> dir_find_in_block (fs_block_size fs) (dir_block fs (jd_view s) es k) name = Ok d
         \<and> de_inode (ds_dentry d) = c
         \<and> dir_find_entry fs ino name s = (Ok (d\<lparr> ds_pblock_id := unat (fst (lookup es (of_nat k))) \<rparr>), s)"
proof -
  let ?r = "\<lparr> ir_inode_num = ino, ir_inode = i \<rparr>"
  have get: "get_inode_ref fs ino s = (Ok ?r, s)"
    using get_inode_ref_eq [OF assms(1,2), of ino] dir by (simp add: linear_dir_def)
  have bs: "fs_block_size fs \<noteq> 0" using assms(2) by (auto simp: inodes_ready_def)
  have run: "dir_find_entry fs ino name s = find_in_blocks fs ?r name [0..<dir_blocks fs i] s"
    using dir bs by (simp add: dir_find_entry_def bindS_def get linear_dir_def dir_total_blocks_def)
  show ?thesis
    using find_in_blocks_names [OF assms(1), of fs ?r es "[0..<dir_blocks fs i]" ms name] dir
    unfolding run dir_names_def linear_dir_def by (auto split: option.splits)
qed


section \<open>Changing a block\<close>

text \<open>The blocks of the directory are different blocks, and neither its inode nor its extent tree lies in
  them: whatever they hold, inode and map stay.\<close>

definition own_blocks :: "ext4 \<Rightarrow> (nat \<Rightarrow> u8) \<Rightarrow> u32 \<Rightarrow> inode \<Rightarrow> extent list \<Rightarrow> bool" where
  "own_blocks fs v ino i es \<longleftrightarrow>
     (\<forall>k < dir_blocks fs i. \<forall>j < dir_blocks fs i. fst (lookup es (of_nat k)) = fst (lookup es (of_nat j)) \<longrightarrow> k = j)
     \<and> (\<forall>w. (\<forall>p. (\<forall>k < dir_blocks fs i. p < dir_pos fs es k \<or> dir_pos fs es k + fs_block_size fs \<le> p) \<longrightarrow> w p = v p)
          \<longrightarrow> inode_at fs w ino = i \<and> maps_blocks w (fs_block_size fs) i es)"

definition disjoint_names :: "ext4 \<Rightarrow> inode \<Rightarrow> (nat \<Rightarrow> bytes \<rightharpoonup> u32) \<Rightarrow> bool" where
  "disjoint_names fs i ms \<longleftrightarrow>
     (\<forall>k < dir_blocks fs i. \<forall>j < dir_blocks fs i. \<forall>name. k \<noteq> j \<longrightarrow> ms k name = None \<or> ms j name = None)"

lemma own_block_write:
  assumes own: "own_blocks fs v ino i es" and k: "k < dir_blocks fs i" and d: "length d = fs_block_size fs"
  shows "own_blocks fs (image_write v (dir_pos fs es k) d) ino i es"
    and "inode_at fs (image_write v (dir_pos fs es k) d) ino = i"
    and "maps_blocks (image_write v (dir_pos fs es k) d) (fs_block_size fs) i es"
proof -
  let ?v = "image_write v (dir_pos fs es k) d"
  have out: "?v p = v p" if "\<forall>k < dir_blocks fs i. p < dir_pos fs es k \<or> dir_pos fs es k + fs_block_size fs \<le> p" for p
    using that k d by (auto simp: image_write_def)
  show "own_blocks fs ?v ino i es" using own out unfolding own_blocks_def by metis
  show "inode_at fs ?v ino = i" "maps_blocks ?v (fs_block_size fs) i es"
    using own out unfolding own_blocks_def by blast+
qed

lemma linear_dir_write:
  assumes own: "own_blocks fs v ino i es" and dir: "linear_dir fs v ino i es ms" and k: "k < dir_blocks fs i"
    and d: "block_rel (fs_block_size fs) d m"
  shows "linear_dir fs (image_write v (dir_pos fs es k) d) ino i es (ms(k := m))"
proof -
  have len: "length d = fs_block_size fs" using d by (simp add: block_rel_def)
  have "dir_block fs (image_write v (dir_pos fs es k) d) es j = (if j = k then d else dir_block fs v es j)"
    if "j < dir_blocks fs i" for j
  proof (cases "j = k")
    case True
    then show ?thesis using len by (simp add: dir_block_def read_written)
  next
    case False
    then have "fst (lookup es (of_nat j)) \<noteq> fst (lookup es (of_nat k))" using own that k by (auto simp: own_blocks_def)
    then have "unat (fst (lookup es (of_nat j))) \<noteq> unat (fst (lookup es (of_nat k)))"
      by (rule contrapos_nn) (rule unsigned_word_eqI)
    then consider "Suc (unat (fst (lookup es (of_nat j)))) \<le> unat (fst (lookup es (of_nat k)))"
      | "Suc (unat (fst (lookup es (of_nat k)))) \<le> unat (fst (lookup es (of_nat j)))" by linarith
    then have "apart (dir_pos fs es j, fs_block_size fs) (dir_pos fs es k, length d)"
      by cases (drule mult_le_mono1 [of _ _ "fs_block_size fs"], simp add: apart_def dir_pos_def len)+
    then show ?thesis using False by (simp add: dir_block_def read_apart)
  qed
  then show ?thesis using dir d own_block_write [OF own k len] by (simp add: linear_dir_def)
qed

lemma names_in_Some:
  "(\<And>j k. j \<in> set ks \<Longrightarrow> k \<in> set ks \<Longrightarrow> k \<noteq> j \<Longrightarrow> ms k n = None \<or> ms j n = None) \<Longrightarrow>
   names_in ms ks n = Some c \<longleftrightarrow> (\<exists>k \<in> set ks. ms k n = Some c)"
proof (induction ks)
  case (Cons k ks)
  then show ?case by (cases "ms k n") (fastforce split: option.splits)+
qed simp

lemma dir_names_Some:
  "disjoint_names fs i ms \<Longrightarrow> dir_names fs i ms n = Some c \<longleftrightarrow> (\<exists>k < dir_blocks fs i. ms k n = Some c)"
  unfolding dir_names_def by (subst names_in_Some) (auto simp: disjoint_names_def)

lemma dir_names_None: "dir_names fs i ms n = None \<longleftrightarrow> (\<forall>k < dir_blocks fs i. ms k n = None)"
proof -
  have "names_in ms ks n = None \<longleftrightarrow> (\<forall>k \<in> set ks. ms k n = None)" for ks
    by (induction ks) (auto split: option.splits)
  then show ?thesis by (auto simp: dir_names_def)
qed

lemma option_map_eqI: "(\<And>n c. f n = Some c \<longleftrightarrow> g n = Some c) \<Longrightarrow> f = g"
  by (rule ext) (metis not_None_eq)

lemma dir_names_update:
  assumes dis: "disjoint_names fs i ms" and k: "k < dir_blocks fs i"
    and only: "\<And>j. j < dir_blocks fs i \<Longrightarrow> j \<noteq> k \<Longrightarrow> ms j n = None"
  shows "disjoint_names fs i (ms(k := (ms k)(n := x)))"
    and "dir_names fs i (ms(k := (ms k)(n := x))) = (dir_names fs i ms)(n := x)"
proof -
  show dis': "disjoint_names fs i (ms(k := (ms k)(n := x)))"
    using dis only unfolding disjoint_names_def by (auto split: if_splits)
  show "dir_names fs i (ms(k := (ms k)(n := x))) = (dir_names fs i ms)(n := x)"
  proof (rule option_map_eqI)
    fix a c
    show "(dir_names fs i (ms(k := (ms k)(n := x))) a = Some c) = (((dir_names fs i ms)(n := x)) a = Some c)"
    proof (cases "a = n")
      case False
      then have "(ms(k := (ms k)(n := x))) j a = ms j a" for j by simp
      then show ?thesis using False by (simp add: dir_names_Some [OF dis'] dir_names_Some [OF dis])
    next
      case True
      then show ?thesis using k only by (auto simp: dir_names_Some [OF dis'])
    qed
  qed
qed

section \<open>Properties\<close>

text \<open>What a lookup reports: the inode number, or the error.\<close>

definition dir_lookup :: "ext4 \<Rightarrow> u32 \<Rightarrow> bytes \<Rightarrow> jdev \<Rightarrow> u32 res" where
  "dir_lookup fs ino name s = map_res (\<lambda>r. de_inode (ds_dentry r)) (fst (dir_find_entry fs ino name s))"

definition in_map :: "(bytes \<rightharpoonup> u32) \<Rightarrow> bytes \<Rightarrow> u32 res" where
  "in_map m name = (case m name of None \<Rightarrow> Err ENOENT | Some c \<Rightarrow> Ok c)"

lemma dir_lookup_names:
  "jd_inv s \<Longrightarrow> inodes_ready fs \<Longrightarrow> linear_dir fs (jd_view s) ino i es ms \<Longrightarrow>
   dir_lookup fs ino name s = in_map (dir_names fs i ms) name"
  using dir_find_entry_names [of s fs ino i es ms name]
  by (auto simp: dir_lookup_def in_map_def split: option.splits)

lemma stamped_block:
  assumes "length (fs_sb fs) = 1024" and "block_rel (fs_block_size fs) d m" and "12 \<le> fs_block_size fs"
  obtains d' where "dir_set_csum (fs_sb fs) d ino gen = Ok d'" "block_rel (fs_block_size fs) d' m" "length d' = length d"
proof -
  have "length d = unat (block_size (fs_sb fs))" "12 \<le> length d" "length d = fs_block_size fs"
    using assms by (simp_all add: block_rel_def fs_block_size_def)
  then show thesis using dir_set_csum_stamp [OF assms(1), of d ino gen] assms(2) that by metis
qed


text \<open>The directory with inode \<open>i\<close> and extents \<open>es\<close> holds the names \<open>m\<close>.\<close>

definition dir_holds :: "ext4 \<Rightarrow> (nat \<Rightarrow> u8) \<Rightarrow> u32 \<Rightarrow> inode \<Rightarrow> extent list \<Rightarrow> (bytes \<rightharpoonup> u32) \<Rightarrow> bool" where
  "dir_holds fs v ino i es m \<longleftrightarrow> (\<exists>ms. linear_dir fs v ino i es ms \<and> own_blocks fs v ino i es
     \<and> disjoint_names fs i ms \<and> m = dir_names fs i ms)"

lemma dir_holds_lookup:
  "jd_inv s \<Longrightarrow> inodes_ready fs \<Longrightarrow> dir_holds fs (jd_view s) ino i es m \<Longrightarrow> dir_lookup fs ino name s = in_map m name"
  using dir_lookup_names by (auto simp: dir_holds_def)

lemma dir_holds_write:
  assumes "linear_dir fs v ino i es ms" and own: "own_blocks fs v ino i es" and "disjoint_names fs i ms"
    and k: "k < dir_blocks fs i" and d: "block_rel (fs_block_size fs) d ((ms k)(name := x))"
    and only: "\<And>j. j < dir_blocks fs i \<Longrightarrow> j \<noteq> k \<Longrightarrow> ms j name = None"
  shows "dir_holds fs (image_write v (dir_pos fs es k) d) ino i es ((dir_names fs i ms)(name := x))"
proof -
  have "length d = fs_block_size fs" using d by (simp add: block_rel_def)
  then show ?thesis
    using linear_dir_write [OF own assms(1) k d] own_block_write(1) [OF own k] dir_names_update [OF assms(3) k only, where x = x]
    unfolding dir_holds_def by metis
qed

lemma sees_write_fs_block:
  assumes "jd_inv s" and "jd_view s = v" and "change (image_read v (unat p * fs_block_size fs) (fs_block_size fs)) = Ok d"
  shows "sees (write_fs_block fs p change) s () (image_write v (unat p * fs_block_size fs) d)"
  unfolding write_fs_block_def
  by (rule sees_bind [OF sees_read [OF assms(1,2)]], rule sees_bind [OF sees_lift], assumption+, rule assms(3))
    (rule sees_write)

lemma dir_remove_entry_writes:
  assumes "jd_inv s" and "inodes_ready fs" and "dir_holds fs (jd_view s) ino i es m"
  shows "case m name of
      None \<Rightarrow> dir_remove_entry fs \<lparr> ir_inode_num = ino, ir_inode = i \<rparr> name s = (Err ENOENT, s)
    | Some _ \<Rightarrow> \<exists>t. dir_remove_entry fs \<lparr> ir_inode_num = ino, ir_inode = i \<rparr> name s = (Ok (), t) \<and> jd_inv t
        \<and> dir_holds fs (jd_view t) ino i es (m(name := None))
        \<and> (\<exists>k < dir_blocks fs i. \<exists>d. length d = fs_block_size fs \<and> jd_view t = image_write (jd_view s) (dir_pos fs es k) d)"
proof -
  let ?r = "\<lparr> ir_inode_num = ino, ir_inode = i \<rparr>" and ?v = "jd_view s" and ?bs = "fs_block_size fs"
  obtain ms where ms: "linear_dir fs ?v ino i es ms" "own_blocks fs ?v ino i es" "disjoint_names fs i ms" "m = dir_names fs i ms"
    using assms(3) by (auto simp: dir_holds_def)
  have sb: "length (fs_sb fs) = 1024" "12 \<le> ?bs" using assms(2) by (simp_all add: inodes_ready_def)
  note find = dir_find_entry_names [OF assms(1,2) ms(1), of name]
  show ?thesis
  proof (cases "m name")
    case None
    then show ?thesis using find ms(4) by (simp add: dir_remove_entry_def bindS_def)
  next
    case (Some c)
    then obtain k d where k: "k < dir_blocks fs i" "ms k name = Some c"
      "dir_find_in_block ?bs (dir_block fs ?v es k) name = Ok d"
      "dir_find_entry fs ino name s = (Ok (d\<lparr> ds_pblock_id := unat (fst (lookup es (of_nat k))) \<rparr>), s)"
      using find ms(4) by auto
    have rel: "block_rel ?bs (dir_block fs ?v es k) (ms k)" using ms(1) k(1) by (simp add: linear_dir_def)
    obtain b where b: "remove_from_block (dir_block fs ?v es k) (ds_offset d) (ds_dentry d) = Ok b"
      "block_rel ?bs b ((ms k)(name := None))"
      using block.remove_rel [OF rel k(3)] by (auto simp: remove_found_def)
    obtain b' where b': "dir_set_csum (fs_sb fs) b ino (i_generation i) = Ok b'" "block_rel ?bs b' ((ms k)(name := None))"
      by (rule stamped_block [OF sb(1) b(2) sb(2)])
    let ?w = "image_write ?v (dir_pos fs es k) b'"
    have "sees (dir_remove_entry fs ?r name) s () ?w"
      unfolding dir_remove_entry_def
      by (rule sees_bind [where a = "d\<lparr> ds_pblock_id := unat (fst (lookup es (of_nat k))) \<rparr>" and v = ?v])
        (use k(4) assms(1) sees_write_fs_block [of _ ?v _ "fst (lookup es (of_nat k))" fs b'] b(1) b'(1)
          in \<open>auto simp: sees_def dir_block_def dir_pos_def\<close>)
    then obtain t where t: "dir_remove_entry fs ?r name s = (Ok (), t)" "jd_inv t" "jd_view t = ?w"
      by (auto simp: sees_def)
    have "dir_holds fs ?w ino i es (m(name := None))"
      unfolding ms(4)
    proof (rule dir_holds_write [OF ms(1-3) k(1) b'(2)])
      fix j
      assume "j < dir_blocks fs i" "j \<noteq> k"
      then show "ms j name = None" using ms(3) k(1,2) unfolding disjoint_names_def by (metis option.distinct(1))
    qed
    moreover have "length b' = ?bs" using b'(2) by (simp add: block_rel_def)
    ultimately show ?thesis using Some t k(1) by auto
  qed
qed

text \<open>C12: Removing an entry of a directory without an index. A name that the directory does not hold is
  reported as \<open>ENOENT\<close> and nothing changes; otherwise afterwards the directory holds every name but the
  removed one: looking up any name gives the inode it had, and \<open>ENOENT\<close> for the removed name. The names
  may be spread over any number of blocks, and an open transaction's writes are seen.\<close>

theorem dir_remove_entry_correct:
  assumes "jd_inv s" and "inodes_ready fs" and "dir_holds fs (jd_view s) ino i es m"
  shows "case m name of
      None \<Rightarrow> dir_remove_entry fs \<lparr> ir_inode_num = ino, ir_inode = i \<rparr> name s = (Err ENOENT, s)
    | Some _ \<Rightarrow> \<exists>t. dir_remove_entry fs \<lparr> ir_inode_num = ino, ir_inode = i \<rparr> name s = (Ok (), t) \<and> jd_inv t
        \<and> dir_holds fs (jd_view t) ino i es (m(name := None))
        \<and> (\<forall>n. dir_lookup fs ino n t = in_map (m(name := None)) n)"
  using dir_remove_entry_writes [OF assms, of name] dir_holds_lookup [OF _ assms(2)]
  by (cases "m name") fastforce+

lemma insert_in_blocks_names:
  fixes s fs i es ms name ino cino ty
  defines "r \<equiv> \<lparr> ir_inode_num = ino, ir_inode = i \<rparr>" and "bs \<equiv> fs_block_size fs" and "v \<equiv> jd_view s"
  assumes "jd_inv s" and maps: "maps_blocks v bs i es" and "length (fs_sb fs) = 1024" and "12 \<le> bs"
    and new: "cino \<noteq> 0" "length name \<le> 255"
  shows "\<forall>k \<in> set ks. block_rel bs (dir_block fs v es k) (ms k) \<and> ms k name = None \<Longrightarrow>
    \<exists>k \<in> set ks. insert_to_block bs (dir_block fs v es k) name cino ty \<noteq> Err ENOSPC \<Longrightarrow>
    \<exists>k \<in> set ks. \<exists>d. block_rel bs d ((ms k)(name \<mapsto> cino))
      \<and> sees (insert_in_blocks fs r cino name ty ks) s True (image_write v (dir_pos fs es k) d)"
proof (induction ks)
  case (Cons k ks)
  let ?b = "dir_block fs v es k"
  have v: "jd_view s = v" by (simp add: v_def)
  have get: "get_pblock_idx bs r (of_nat k) s = (Ok (fst (lookup es (of_nat k))), s)"
    using maps get_pblock_idx_lookup [OF reads_view [OF assms(4)], of r _ bs] unfolding maps_blocks_def v_def
    by (auto simp: r_def)
  have load: "load_lblock fs r (of_nat k) s = (Ok (fst (lookup es (of_nat k)), ?b), s)"
    using get assms(4) by (simp add: load_lblock_def bindS_def jd_read_view dir_block_def dir_pos_def v_def bs_def)
  have rel: "block_rel bs ?b (ms k)" "ms k name = None" using Cons.prems by auto
  consider "insert_to_block bs ?b name cino ty = Err ENOSPC"
    | d where "insert_to_block bs ?b name cino ty = Ok d" "block_rel bs d ((ms k)(name \<mapsto> cino))"
    using block.insert_rel [OF rel new, of ty] by blast
  then show ?case
  proof cases
    case 1
    then have "insert_in_blocks fs r cino name ty (k # ks) s = insert_in_blocks fs r cino name ty ks s"
      by (simp add: bindS_def load bs_def)
    then show ?thesis using Cons 1 by (simp add: sees_def)
  next
    case 2
    obtain d' where d': "dir_set_csum (fs_sb fs) d ino (i_generation i) = Ok d'" "block_rel bs d' ((ms k)(name \<mapsto> cino))" "length d' = length d"
      unfolding bs_def by (rule stamped_block [OF assms(6) 2(2) [unfolded bs_def] assms(7) [unfolded bs_def]]) (auto simp: bs_def)
    have same: "image_write (image_write v p d) p d' = image_write v p d'" for p
      using d'(3) by (auto simp: image_write_def fun_eq_iff)
    have "sees (insert_stamped fs r (fst (lookup es (of_nat k))) ?b name cino ty) s () (image_write v (dir_pos fs es k) d')"
      unfolding insert_stamped_def Let_def dir_pos_def [symmetric] same [of "dir_pos fs es k", symmetric]
      by (rule sees_bind [OF sees_lift [OF assms(4) v]], rule 2(1) [unfolded bs_def],
          rule sees_bind [OF sees_write], assumption+,
          rule sees_bind [OF sees_lift], assumption+, simp add: d'(1) r_def, rule sees_write)
    then have "sees (insert_in_blocks fs r cino name ty (k # ks)) s True (image_write v (dir_pos fs es k) d')"
      using 2(1) by (auto simp: sees_def bindS_def load bs_def)
    with d'(2) show ?thesis by (intro bexI [of _ k] exI [of _ d'] conjI) (assumption | rule list.set_intros)+
  qed
qed simp


lemma dir_add_entry_writes:
  fixes fs s ino i es m name cref
  defines "r \<equiv> \<lparr> ir_inode_num = ino, ir_inode = i \<rparr>"
  assumes "jd_inv s" and "inodes_ready fs" and "dir_holds fs (jd_view s) ino i es m"
    and new: "m name = None" "ir_inode_num cref \<noteq> 0" "length name \<le> 255"
    and room: "\<exists>k < dir_blocks fs i. insert_to_block (fs_block_size fs) (dir_block fs (jd_view s) es k) name
      (ir_inode_num cref) (de_type_from_inode (ir_inode cref)) \<noteq> Err ENOSPC"
  shows "\<exists>t. dir_add_entry fs r cref name s = (Ok r, t) \<and> jd_inv t
    \<and> dir_holds fs (jd_view t) ino i es (m(name \<mapsto> ir_inode_num cref))
    \<and> (\<exists>k < dir_blocks fs i. \<exists>d. length d = fs_block_size fs \<and> jd_view t = image_write (jd_view s) (dir_pos fs es k) d)"
proof -
  let ?v = "jd_view s" and ?c = "ir_inode_num cref" and ?ty = "de_type_from_inode (ir_inode cref)"
  obtain ms where ms: "linear_dir fs ?v ino i es ms" "own_blocks fs ?v ino i es" "disjoint_names fs i ms" "m = dir_names fs i ms"
    using assms(4) by (auto simp: dir_holds_def)
  have sb: "length (fs_sb fs) = 1024" "12 \<le> fs_block_size fs" using assms(3) by (simp_all add: inodes_ready_def)
  have none: "\<forall>k < dir_blocks fs i. ms k name = None" using new(1) unfolding ms(4) dir_names_None .
  have "\<exists>k \<in> set [0..<dir_blocks fs i]. \<exists>d. block_rel (fs_block_size fs) d ((ms k)(name \<mapsto> ?c))
      \<and> sees (insert_in_blocks fs r ?c name ?ty [0..<dir_blocks fs i]) s True (image_write ?v (dir_pos fs es k) d)"
    unfolding r_def
    by (rule insert_in_blocks_names [OF assms(2) _ sb new(2,3)])
      (use ms(1) none room in \<open>auto simp: linear_dir_def\<close>)
  then obtain k d where k: "k < dir_blocks fs i" "block_rel (fs_block_size fs) d ((ms k)(name \<mapsto> ?c))"
    "sees (insert_in_blocks fs r ?c name ?ty [0..<dir_blocks fs i]) s True (image_write ?v (dir_pos fs es k) d)"
    by auto
  then obtain t where t: "insert_in_blocks fs r ?c name ?ty [0..<dir_blocks fs i] s = (Ok True, t)" "jd_inv t"
    "jd_view t = image_write ?v (dir_pos fs es k) d"
    by (auto simp: sees_def)
  have "fs_block_size fs \<noteq> 0" using sb(2) by simp
  then have "dir_add_entry fs r cref name s = (Ok r, t)"
    using t(1) ms(1) by (simp add: dir_add_entry_def dir_total_blocks_def bindS_def linear_dir_def r_def Let_def)
  moreover have holds: "dir_holds fs (jd_view t) ino i es (m(name \<mapsto> ?c))"
    unfolding ms(4) t(3) by (rule dir_holds_write [OF ms(1-3) k(1,2)]) (use none in simp)
  moreover have "length d = fs_block_size fs" using k(2) by (simp add: block_rel_def)
  ultimately show ?thesis using t(2,3) k(1) by blast
qed

text \<open>C11: Adding an entry to a directory without an index, when the name is new and some block has room:
  afterwards the directory holds the new name with the inode of the entry and every other name as
  before, and looking up any name says so. The directory's inode is unchanged.\<close>

theorem dir_add_entry_correct:
  fixes fs s ino i es m name cref
  defines "r \<equiv> \<lparr> ir_inode_num = ino, ir_inode = i \<rparr>"
  assumes "jd_inv s" and "inodes_ready fs" and "dir_holds fs (jd_view s) ino i es m"
    and new: "m name = None" "ir_inode_num cref \<noteq> 0" "length name \<le> 255"
    and room: "\<exists>k < dir_blocks fs i. insert_to_block (fs_block_size fs) (dir_block fs (jd_view s) es k) name
      (ir_inode_num cref) (de_type_from_inode (ir_inode cref)) \<noteq> Err ENOSPC"
  shows "\<exists>t. dir_add_entry fs r cref name s = (Ok r, t) \<and> jd_inv t
    \<and> dir_holds fs (jd_view t) ino i es (m(name \<mapsto> ir_inode_num cref))
    \<and> (\<forall>n. dir_lookup fs ino n t = in_map (m(name \<mapsto> ir_inode_num cref)) n)"
proof -
  note w = dir_add_entry_writes [OF assms(2-)]
  then show ?thesis unfolding r_def using dir_holds_lookup [OF _ assms(3)] by blast
qed

section \<open>A directory of one block\<close>

definition dir_extent :: extent where
  "dir_extent = \<lparr> ee_first_block = 0, ee_block_count = 1, ee_start_hi = 0, ee_start_lo = 100 \<rparr>"

definition dir_root :: bytes where
  "dir_root = header_bytes \<lparr> eh_magic = 0xF30A, eh_entries_count = 1, eh_max_entries_count = 4,
     eh_depth = 0, eh_generation = 0 \<rparr> @ extent_bytes dir_extent @ replicate 36 0"

definition dir_inode :: inode where
  "dir_inode = (inode_of_bytes (replicate 156 0))\<lparr> i_mode := 0x41ED, i_block := dir_root, i_size_lo := 2048, i_size_hi := 0, i_flags := 0 \<rparr>"

lemma length_dir_inode [simp]: "length (i_block dir_inode) = 60"
  by (simp add: dir_inode_def dir_root_def)

definition dir_image :: "bytes \<Rightarrow> nat \<Rightarrow> u8" where
  "dir_image d = image_write (image_write tiny_image 204800 d) 19200 (inode_bytes dir_inode)"

lemma dir_root_load: "load_from_data (i_block dir_inode) True = Ok \<lparr> en_header = \<lparr> eh_magic = 0xF30A, eh_entries_count = 1,
     eh_max_entries_count = 4, eh_depth = 0, eh_generation = 0 \<rparr>, en_data = Root dir_root, en_is_root = True \<rparr>"
  by (simp add: load_from_data_def dir_inode_def) (simp add: dir_root_def slice_def)

lemma dir_maps: "maps_blocks v bs dir_inode [dir_extent]"
proof -
  let ?n = "\<lparr> en_header = \<lparr> eh_magic = 0xF30A, eh_entries_count = 1, eh_max_entries_count = 4, eh_depth = 0,
    eh_generation = 0 \<rparr>, en_data = Root dir_root, en_is_root = True \<rparr>"
  have n: "entries ?n = 1" by (simp add: entries_def)
  have "tree_of v bs 0 ?n 0 (2 ^ 32) [dir_extent]"
  proof (rule tree_of.leaf)
    show "node_ok ?n" using n by (simp add: node_ok_def fits_def dir_root_def)
    have "extent_at (en_data ?n) 0 = dir_extent" by (simp add: extent_at_def dir_root_def slice_def)
    then show "[dir_extent] = map (extent_at (en_data ?n)) [0..<entries ?n]" unfolding n by simp
  qed (simp_all add: dir_extent_def get_actual_len_def is_unwritten_def EXT_INIT_MAX_LEN_def)
  then show ?thesis unfolding maps_blocks_def using dir_root_load by (intro exI conjI) (assumption | simp)+
qed

lemma dir_image_inode:
  assumes "\<And>p. p < 204800 \<Longrightarrow> w p = dir_image d p" and "length d = 2048"
  shows "inode_at tiny_fs w 12 = dir_inode"
proof -
  have "desc_at w tiny_sb 0 = desc_at (dir_image d) tiny_sb 0"
    unfolding desc_at_def by (rule image_read_cong) (use assms in \<open>simp add: desc_pos_def\<close>)
  also have "\<dots> = desc_at tiny_image tiny_sb 0"
    using assms(2) by (simp add: dir_image_def desc_at_def desc_pos_def read_apart apart_def)
  finally have "inode_pos tiny_fs w 12 = 19200"
    by (simp add: inode_pos_def inode_group_def saturating_sub_def)
  moreover have "image_read w 19200 156 = image_read (dir_image d) 19200 156"
    by (rule image_read_cong) (use assms in simp)
  ultimately show ?thesis
    using inode_roundtrip [of dir_inode "[]"]
    by (simp add: inode_at_def dir_image_def read_written dir_inode_def dir_root_def)
qed

lemma dir_sample:
  assumes "block_rel 2048 d m"
  shows "dir_holds tiny_fs (dir_image d) 12 dir_inode [dir_extent] m"
    and "dir_blocks tiny_fs dir_inode = 1" and "dir_block tiny_fs (dir_image d) [dir_extent] 0 = d"
proof -
  have d: "length d = 2048" using assms by (simp add: block_rel_def)
  show n: "dir_blocks tiny_fs dir_inode = 1" by (simp add: inode_size_def dir_inode_def)
  have pos: "dir_pos tiny_fs [dir_extent] 0 = 204800"
    by (simp add: dir_pos_def lookup_def covers_def dir_extent_def get_actual_len_def is_unwritten_def EXT_INIT_MAX_LEN_def get_pblock_def)
  show blk: "dir_block tiny_fs (dir_image d) [dir_extent] 0 = d"
    using d by (simp add: dir_block_def pos dir_image_def read_apart read_written apart_def)
  have ino: "inode_at tiny_fs (dir_image d) 12 = dir_inode" by (rule dir_image_inode [OF refl d])
  have "own_blocks tiny_fs (dir_image d) 12 dir_inode [dir_extent]"
    unfolding own_blocks_def using n pos dir_image_inode [OF _ d] dir_maps by auto
  moreover have "linear_dir tiny_fs (dir_image d) 12 dir_inode [dir_extent] (\<lambda>_. m)"
    unfolding linear_dir_def using n ino blk assms dir_maps
    by (simp add: is_dir_def file_type_def is_index_def S_IFDIR_def EXT4_INODE_MODE_TYPE_MASK_def) (simp add: dir_inode_def)
  moreover have "disjoint_names tiny_fs dir_inode (\<lambda>_. m)" using n by (simp add: disjoint_names_def)
  moreover have "m = dir_names tiny_fs dir_inode (\<lambda>_. m)"
    unfolding dir_names_def n by (rule ext) (simp split: option.split)
  ultimately show "dir_holds tiny_fs (dir_image d) 12 dir_inode [dir_extent] m" unfolding dir_holds_def by blast
qed

definition dir_dev :: "bytes \<Rightarrow> jdev" where
  "dir_dev d = JournalDevice_new \<lparr> dk_image = dir_image d, dk_events = [] \<rparr> 2048"

lemma dir_dev [simp]: "jd_inv (dir_dev d)" "jd_view (dir_dev d) = dir_image d"
  by (simp_all add: dir_dev_def jd_inv_def jd_view_def JournalDevice_new_def)

lemma tiny_ready: "inodes_ready tiny_fs"
  by (simp add: inodes_ready_def)

lemma dot_block:
  obtains d where "block_rel 2048 d [dot_name \<mapsto> 12]" "holds d 0 [fresh_entry dot_name 12 2 2036] 2036"
proof -
  obtain d where d: "length d = 2048" "holds d 0 [fresh_entry dot_name 12 2 (2048 - 12)] (2048 - 12)"
    using insert_to_new_block_holds [of "replicate 2048 0" 2048 dot_name 12 2] by (auto simp: dot_name_def)
  then have "block_rel 2048 d [dot_name \<mapsto> 12]" unfolding block_rel_def
    by (intro conjI exI [of _ "[fresh_entry dot_name 12 2 (2048 - 12)]"]) (simp_all add: distinct_names_def names_Cons)
  then show thesis using that d by simp
qed

theorem dir_remove_entry_correct_witness:
  "\<exists>d t. dir_lookup tiny_fs 12 dot_name (dir_dev d) = Ok 12
    \<and> dir_remove_entry tiny_fs \<lparr> ir_inode_num = 12, ir_inode = dir_inode \<rparr> dot_name (dir_dev d) = (Ok (), t)
    \<and> dir_lookup tiny_fs 12 dot_name t = Err ENOENT"
proof -
  obtain d where d: "block_rel 2048 d [dot_name \<mapsto> 12]" by (rule dot_block)
  note holds = dir_sample(1) [OF d, folded dir_dev(2)]
  have "dir_lookup tiny_fs 12 dot_name (dir_dev d) = Ok 12"
    using dir_holds_lookup [OF _ tiny_ready holds, of dot_name] by (simp add: in_map_def)
  moreover obtain t where "dir_remove_entry tiny_fs \<lparr> ir_inode_num = 12, ir_inode = dir_inode \<rparr> dot_name (dir_dev d) = (Ok (), t)"
    "\<forall>n. dir_lookup tiny_fs 12 n t = in_map ([dot_name \<mapsto> 12] (dot_name := None)) n"
    using dir_remove_entry_correct [OF _ tiny_ready holds, of dot_name] by auto
  ultimately show ?thesis by (intro exI [of _ d] exI [of _ t]) (simp add: in_map_def)
qed

theorem dir_add_entry_correct_witness:
  "\<exists>d t. dir_add_entry tiny_fs \<lparr> ir_inode_num = 12, ir_inode = dir_inode \<rparr> sample_ref [0x61] (dir_dev d)
      = (Ok \<lparr> ir_inode_num = 12, ir_inode = dir_inode \<rparr>, t)
    \<and> dir_lookup tiny_fs 12 [0x61] t = Ok 8 \<and> dir_lookup tiny_fs 12 dot_name t = Ok 12"
proof -
  obtain d where d: "block_rel 2048 d [dot_name \<mapsto> 12]" "holds d 0 [fresh_entry dot_name 12 2 2036] 2036" by (rule dot_block)
  note s = dir_sample [OF d(1), folded dir_dev(2)]
  have len: "length d = 2048" using d(1) by (simp add: block_rel_def)
  have "has_room 1 (fresh_entry dot_name 12 2 2036)"
    by (simp add: has_room_def used_def slack_def used_size_def required_len_def fresh_entry_def dot_name_def Let_def)
  then have "insert_loop 2036 d [0x61] ino ty 0 \<noteq> Err ENOSPC" for ino ty
    using insert_loop_room [of d 0 "[]" "fresh_entry dot_name 12 2 2036" "[]" 2036 "[0x61]" ino ty] d(2) len by auto
  then have room: "\<exists>k < dir_blocks tiny_fs dir_inode. insert_to_block (fs_block_size tiny_fs)
      (dir_block tiny_fs (jd_view (dir_dev d)) [dir_extent] k) [0x61] (ir_inode_num sample_ref)
      (de_type_from_inode (ir_inode sample_ref)) \<noteq> Err ENOSPC"
    using s(2,3) by (intro exI [of _ 0]) (auto simp: insert_to_block_def)
  have none: "([dot_name \<mapsto> 12] :: bytes \<rightharpoonup> u32) [0x61] = None" by (simp add: dot_name_def)
  have nz: "ir_inode_num sample_ref \<noteq> 0" "length ([0x61] :: bytes) \<le> 255" by (simp_all add: sample_ref_def)
  obtain t where "dir_add_entry tiny_fs \<lparr> ir_inode_num = 12, ir_inode = dir_inode \<rparr> sample_ref [0x61] (dir_dev d)
      = (Ok \<lparr> ir_inode_num = 12, ir_inode = dir_inode \<rparr>, t)"
    "\<forall>n. dir_lookup tiny_fs 12 n t = in_map ([dot_name \<mapsto> 12] ([0x61] \<mapsto> ir_inode_num sample_ref)) n"
    using dir_add_entry_correct [OF dir_dev(1) tiny_ready s(1) none nz room] by blast
  then show ?thesis by (intro exI [of _ d] exI [of _ t]) (simp add: in_map_def sample_ref_def dot_name_def)
qed

end
