(* ===== verification/FileOps.thy ===== *)
theory FileOps
  imports FileWrite DirWalk
begin

text \<open>
  Names and files: splitting a path (\<open>src/src/utils/path.rs\<close>), resolving it (\<open>generic_open\<close> of
  \<open>ext4_impls/ext4.rs\<close>), and creating, linking, unlinking and removing files and directories
  (\<open>ext4_impls/file.rs\<close>, \<open>ext4.rs\<close>, \<open>dir.rs\<close>). A path is its UTF-8 bytes.
\<close>

section \<open>Splitting a path\<close>

definition continuation :: "u8 \<Rightarrow> bool" where
  "continuation c \<longleftrightarrow> 0x80 \<le> c \<and> c < 0xC0"

text \<open>\<open>path.chars().enumerate()\<close>: \<open>i\<close> counts characters, \<open>n\<close> is the length in bytes.\<close>

fun path_scan :: "nat \<Rightarrow> nat \<Rightarrow> bytes \<Rightarrow> nat \<times> bool" where
  "path_scan n i [] = (n, True)"
| "path_scan n i (c # cs) =
     (if continuation c then path_scan n i cs
      else if 255 \<le> i then (n, True)
      else if c = 0x2F then (i, False)
      else if c = 0 then (i, True)
      else path_scan n (i + 1) cs)"

definition path_check :: "bytes \<Rightarrow> nat \<times> bool" where
  "path_check path = path_scan (length path) 0 path"

text \<open>\<open>&path[..n]\<close> and \<open>&path[n..]\<close> of a \<open>str\<close> panic inside a character.\<close>

definition char_boundary :: "bytes \<Rightarrow> nat \<Rightarrow> bool" where
  "char_boundary path n \<longleftrightarrow> n = 0 \<or> n = length path \<or> (n < length path \<and> \<not> continuation (path ! n))"

definition str_split :: "bytes \<Rightarrow> nat \<Rightarrow> (bytes \<times> bytes) res" where
  "str_split path n = (if char_boundary path n then Ok (take n path, drop n path) else Panic)"

section \<open>Links\<close>

definition link_impl :: "ext4 \<Rightarrow> inode_ref \<Rightarrow> inode_ref \<Rightarrow> bytes \<Rightarrow> (jdev, inode_ref \<times> inode_ref) io" where
  "link_impl fs parent chld name =
     bindS (dir_add_entry fs parent chld name) (\<lambda>parent.
     bindS (write_back_inode_without_csum fs parent) (\<lambda>_.
     if is_dir (ir_inode chld)
     then let new_child_ref = chld in
       bindS (dir_add_entry fs chld new_child_ref [0x2E]) (\<lambda>chld.
       bindS (dir_add_entry fs chld parent [0x2E, 0x2E]) (\<lambda>chld.
       ret (parent\<lparr> ir_inode := (ir_inode parent)\<lparr> i_links_count := i_links_count (ir_inode parent) + 1 \<rparr> \<rparr>,
            chld\<lparr> ir_inode := (ir_inode chld)\<lparr> i_links_count := 2 \<rparr> \<rparr>)))
     else ret (parent, chld\<lparr> ir_inode := (ir_inode chld)\<lparr> i_links_count := i_links_count (ir_inode chld) + 1 \<rparr> \<rparr>)))"

definition link :: "ext4 \<Rightarrow> inode_ref \<Rightarrow> inode_ref \<Rightarrow> bytes \<Rightarrow> (jdev, inode_ref \<times> inode_ref) io" where
  "link fs parent chld name = journaled_op fs (link_impl fs parent chld name)"

definition default_inode :: inode where
  "default_inode = inode_of_bytes (replicate 156 0)"

definition unlink_impl :: "ext4 \<Rightarrow> inode_ref \<Rightarrow> inode_ref \<Rightarrow> bytes \<Rightarrow> (jdev, inode_ref) io" where
  "unlink_impl fs parent chld name =
     bindS (dir_remove_entry fs parent name) (\<lambda>_.
     let links = saturating_sub (i_links_count (ir_inode chld)) 1;
         chld = chld\<lparr> ir_inode := (ir_inode chld)\<lparr> i_links_count := links \<rparr> \<rparr> in
     if links = 0
     then let dir = is_dir (ir_inode chld); chld = chld\<lparr> ir_inode := default_inode \<rparr> in
       bindS (write_back_inode_without_csum fs chld) (\<lambda>_.
       bindS (ialloc_free_inode fs (ir_inode_num chld) dir) (\<lambda>_. ret chld))
     else write_back_inode fs chld)"

definition unlink :: "ext4 \<Rightarrow> inode_ref \<Rightarrow> inode_ref \<Rightarrow> bytes \<Rightarrow> (jdev, inode_ref) io" where
  "unlink fs parent chld name = journaled_op fs (unlink_impl fs parent chld name)"

section \<open>Creating\<close>

definition inode_type_of_mode :: "u16 \<Rightarrow> u16" where
  "inode_type_of_mode inode_mode =
     (let type_bits = inode_mode AND EXT4_INODE_MODE_TYPE_MASK in
      if type_bits \<noteq> 0 then type_bits AND 0xF000 else S_IFREG)"

text \<open>The inode that \<open>create_inode_with_rdev\<close> fills in, for the type \<open>t\<close>.\<close>

definition new_inode :: "superblock \<Rightarrow> u16 \<Rightarrow> u32 \<Rightarrow> inode" where
  "new_inode sb inode_mode rdev =
     (let t = inode_type_of_mode inode_mode;
          perm = inode_mode AND EXT4_INODE_MODE_PERM_MASK;
          perm = (if perm = 0 then (if t = S_IFDIR then 0x1ED else 0x1A4) else perm);
          i = default_inode\<lparr> i_mode := t OR perm \<rparr>;
          i = (if 128 < sb_inode_size sb then i\<lparr> i_extra_isize := sb_get 2 ''want_extra_isize'' sb \<rparr> else i)
      in if t = 0x2000 \<or> t = 0x6000 then set_device rdev i
         else if t = 0x1000 \<or> t = 0xC000 then i
         else extent_tree_init (i\<lparr> i_flags := 0x80000 \<rparr>))"

definition create_inode_with_rdev :: "ext4 \<Rightarrow> u16 \<Rightarrow> u32 \<Rightarrow> (jdev, inode_ref) io" where
  "create_inode_with_rdev fs inode_mode rdev =
     bindS (alloc_inode fs (inode_type_of_mode inode_mode = S_IFDIR)) (\<lambda>inode_num.
     ret \<lparr> ir_inode_num = inode_num, ir_inode = new_inode (fs_sb fs) inode_mode rdev \<rparr>)"

definition create_inode :: "ext4 \<Rightarrow> u16 \<Rightarrow> (jdev, inode_ref) io" where
  "create_inode fs inode_mode = create_inode_with_rdev fs inode_mode 0"

text \<open>The three creators store the new inode, read it again, link it and write both inodes back.\<close>

definition store_and_link :: "ext4 \<Rightarrow> inode_ref \<Rightarrow> bytes \<Rightarrow> inode_ref \<Rightarrow> (jdev, inode_ref) io" where
  "store_and_link fs parent_inode_ref name init_child_ref =
     bindS (write_back_inode_without_csum fs init_child_ref) (\<lambda>_.
     bindS (get_inode_ref fs (ir_inode_num init_child_ref)) (\<lambda>child_inode_ref.
     bindS (link fs parent_inode_ref child_inode_ref name) (\<lambda>(parent_inode_ref, child_inode_ref).
     bindS (write_back_inode fs parent_inode_ref) (\<lambda>_.
     write_back_inode fs child_inode_ref))))"

definition create_impl :: "ext4 \<Rightarrow> u32 \<Rightarrow> bytes \<Rightarrow> u16 \<Rightarrow> (jdev, inode_ref) io" where
  "create_impl fs parent name inode_mode =
     bindS (get_inode_ref fs parent) (\<lambda>parent_inode_ref.
     bindS (create_inode fs inode_mode) (store_and_link fs parent_inode_ref name))"

definition create :: "ext4 \<Rightarrow> u32 \<Rightarrow> bytes \<Rightarrow> u16 \<Rightarrow> (jdev, inode_ref) io" where
  "create fs parent name inode_mode = journaled_op fs (create_impl fs parent name inode_mode)"

definition owned_by :: "u16 \<Rightarrow> u16 \<Rightarrow> inode_ref \<Rightarrow> inode_ref" where
  "owned_by uid gid r = r\<lparr> ir_inode := (ir_inode r)\<lparr> i_uid := uid, i_gid := gid \<rparr> \<rparr>"

definition create_with_attr_impl :: "ext4 \<Rightarrow> u32 \<Rightarrow> bytes \<Rightarrow> u16 \<Rightarrow> u16 \<Rightarrow> u16 \<Rightarrow> (jdev, inode_ref) io" where
  "create_with_attr_impl fs parent name inode_mode uid gid =
     bindS (get_inode_ref fs parent) (\<lambda>parent_inode_ref.
     bindS (create_inode fs inode_mode) (\<lambda>r. store_and_link fs parent_inode_ref name (owned_by uid gid r)))"

definition create_with_attr :: "ext4 \<Rightarrow> u32 \<Rightarrow> bytes \<Rightarrow> u16 \<Rightarrow> u16 \<Rightarrow> u16 \<Rightarrow> (jdev, inode_ref) io" where
  "create_with_attr fs parent name inode_mode uid gid =
     journaled_op fs (create_with_attr_impl fs parent name inode_mode uid gid)"

definition create_special_with_attr_impl ::
  "ext4 \<Rightarrow> u32 \<Rightarrow> bytes \<Rightarrow> u16 \<Rightarrow> u32 \<Rightarrow> u16 \<Rightarrow> u16 \<Rightarrow> (jdev, inode_ref) io" where
  "create_special_with_attr_impl fs parent name inode_mode rdev uid gid =
     bindS (get_inode_ref fs parent) (\<lambda>parent_inode_ref.
     bindS (create_inode_with_rdev fs inode_mode rdev) (\<lambda>r.
     store_and_link fs parent_inode_ref name (owned_by uid gid r)))"

definition create_special_with_attr ::
  "ext4 \<Rightarrow> u32 \<Rightarrow> bytes \<Rightarrow> u16 \<Rightarrow> u32 \<Rightarrow> u16 \<Rightarrow> u16 \<Rightarrow> (jdev, inode_ref) io" where
  "create_special_with_attr fs parent name inode_mode rdev uid gid =
     journaled_op fs (create_special_with_attr_impl fs parent name inode_mode rdev uid gid)"

section \<open>Resolving a path\<close>

text \<open>The loop of \<open>generic_open\<close>: \<open>found\<close> is the inode of the last entry found, 0 at the start. The results
  are the last inode, the directory it was looked up in, and the offset of its name.\<close>

lemma drop_shorter: "0 < n \<Longrightarrow> x \<in> set path \<Longrightarrow> length (dropWhile P path) - n < length path"
  using length_dropWhile_le [of P path] by (cases path) auto

function open_loop ::
  "ext4 \<Rightarrow> bool \<Rightarrow> u16 \<Rightarrow> bytes \<Rightarrow> u32 \<Rightarrow> u32 \<Rightarrow> u32 \<Rightarrow> (jdev, u32 \<times> u32 \<times> u32) io" where
  "open_loop fs create_missing ftype path parent found name_off =
     (let name_off = name_off + of_nat (length (takeWhile (\<lambda>c. c = 0x2F) path));
          search_path = dropWhile (\<lambda>c. c = 0x2F) path;
          (len, is_goal) = path_check search_path in
      bindS (lift (str_split search_path len)) (\<lambda>(current_path, rest).
      if len = 0 \<or> search_path = [] then ret (found, parent, name_off)
      else let rest = drop len search_path in
        on_result (dir_find_entry fs parent current_path)
          (\<lambda>r. let found = de_inode (ds_dentry r) in
             if is_goal then ret (found, parent, name_off)
             else open_loop fs create_missing ftype rest found found (name_off + of_nat len))
          (\<lambda>e. if e \<noteq> ENOENT \<or> \<not> create_missing then lift (Err ENOENT)
             else bindS (create fs parent current_path (if is_goal then ftype else S_IFDIR)) (\<lambda>new_inode_ref.
               let n = ir_inode_num new_inode_ref in
               open_loop fs create_missing ftype rest n n name_off))))"
  by pat_completeness auto
termination
  by (relation "measure (\<lambda>(_, _, _, path, _). length path)") (auto intro: drop_shorter)

declare open_loop.simps [simp del]

definition generic_open :: "ext4 \<Rightarrow> bytes \<Rightarrow> u32 \<Rightarrow> bool \<Rightarrow> u16 \<Rightarrow> u32 \<Rightarrow> (jdev, u32 \<times> u32 \<times> u32) io" where
  "generic_open fs path parent create_missing ftype name_off =
     bindS (open_loop fs create_missing ftype path parent 0 name_off) (\<lambda>(resolved, parent, name_off).
     ret (if resolved = 0 then parent else resolved, parent, name_off))"

definition ROOT_INODE :: u32 where "ROOT_INODE = 2"

text \<open>\<open>dir_mk\<close> drops the result of the walk, and with it every error.\<close>

definition dir_mk :: "ext4 \<Rightarrow> bytes \<Rightarrow> (jdev, unit) io" where
  "dir_mk fs path = on_result (generic_open fs path ROOT_INODE True S_IFDIR 0) (\<lambda>_. ret ()) (\<lambda>_. ret ())"

section \<open>Removing\<close>

definition file_remove :: "nat \<Rightarrow> ext4 \<Rightarrow> bytes \<Rightarrow> (jdev, unit option) io" where
  "file_remove fuel fs path =
     bindS (generic_open fs path ROOT_INODE False 0 0) (\<lambda>(child_inode, parent_inode_num, nameoff).
     bindS (get_inode_ref fs child_inode) (\<lambda>child_inode_ref.
     bindO (if i_links_count (ir_inode child_inode_ref) = 1 then truncate_inode fuel fs child_inode_ref 0
            else ret (Some child_inode_ref)) (\<lambda>child_inode_ref.
     bindS (if length path < unat nameoff then lift Panic else lift (str_split path (unat nameoff))) (\<lambda>(_, p).
     bindS (get_inode_ref fs parent_inode_num) (\<lambda>parent_inode_ref.
     bindS (lift (str_split p (fst (path_check p)))) (\<lambda>(name, _).
     bindS (unlink fs parent_inode_ref child_inode_ref name) (\<lambda>_. ret (Some ()))))))))"

definition dir_remove :: "nat \<Rightarrow> ext4 \<Rightarrow> u32 \<Rightarrow> bytes \<Rightarrow> (jdev, unit option) io" where
  "dir_remove fuel fs parent path =
     bindS (dir_find_entry fs parent path) (\<lambda>search_result.
     bindS (get_inode_ref fs parent) (\<lambda>parent_inode_ref.
     bindS (get_inode_ref fs (de_inode (ds_dentry search_result))) (\<lambda>child_inode_ref.
     bindS (dir_has_entry fs (ir_inode_num child_inode_ref)) (\<lambda>has_entry.
     if has_entry then lift (Err ENOTEMPTY)
     else bindS (dir_remove_entry fs parent_inode_ref path) (\<lambda>_.
       bindO (truncate_inode fuel fs child_inode_ref 0) (\<lambda>child_inode_ref.
       let child_inode_ref = child_inode_ref\<lparr> ir_inode := default_inode \<rparr> in
       bindS (write_back_inode_without_csum fs child_inode_ref) (\<lambda>_.
       bindS (ialloc_free_inode fs (ir_inode_num child_inode_ref) True) (\<lambda>_.
       let parent_links = saturating_sub (i_links_count (ir_inode parent_inode_ref)) 1 in
       bindS (write_back_inode fs (parent_inode_ref\<lparr> ir_inode :=
           (ir_inode parent_inode_ref)\<lparr> i_links_count := parent_links \<rparr> \<rparr>)) (\<lambda>_.
       ret (Some ()))))))))))"

end
