(* ===== verification/Atomic.thy ===== *)
theory Atomic
  imports Alloc
begin

text \<open>
  Atomicity of journaled operations. A contract on the steps of the device (\<open>device_contract\<close>) is
  respected by every operation that is made of its reads and writes. The contract \<open>captured\<close> says that an
  operation that runs while a transaction is open leaves the disk alone. With it, a journaled operation that fails
  changes nothing, and one that succeeds is, after any injected crash and the recovery at the next
  mount, in place as a whole.
\<close>

section \<open>Step contracts\<close>

text \<open>A contract on operations is a relation between the device before and after, reflexive and
  transitive; an operation respects it when its every run does, whatever it returns. The combinators
  respect every contract.\<close>

definition obeys :: "(jdev \<Rightarrow> jdev \<Rightarrow> bool) \<Rightarrow> (jdev, 'a) io \<Rightarrow> bool" where
  "obeys R m \<longleftrightarrow> (\<forall>s. R s (snd (m s)))"

named_theorems obeys_intros

locale step_contract =
  fixes R :: "jdev \<Rightarrow> jdev \<Rightarrow> bool"
  assumes refl_step: "R s s" and trans_step: "R s t \<Longrightarrow> R t u \<Longrightarrow> R s u"
begin

lemma obeys_pure [obeys_intros]:
  "obeys R (ret a)" "obeys R (lift r)" "obeys R (asks f)"
  by (simp_all add: obeys_def refl_step)

lemma obeys_bind [obeys_intros]:
  assumes "obeys R m" and "\<And>a. obeys R (f a)"
  shows "obeys R (bindS m f)"
  unfolding obeys_def
proof
  fix s :: jdev
  obtain r t where m: "m s = (r, t)" by (cases "m s")
  then have t: "R s t" using assms(1) unfolding obeys_def by (metis snd_conv)
  show "R s (snd (bindS m f s))"
  proof (cases r)
    case (Ok a)
    then show ?thesis using trans_step [OF t] assms(2) [of a] m by (simp add: bindS_def obeys_def)
  qed (use t m in \<open>simp_all add: bindS_def\<close>)
qed

lemma obeys_if [obeys_intros]: "obeys R a \<Longrightarrow> obeys R b \<Longrightarrow> obeys R (if c then a else b)"
  by simp

lemma obeys_let [obeys_intros]: "(\<And>x. obeys R (f x)) \<Longrightarrow> obeys R (Let a f)"
  by (simp add: Let_def)

lemma obeys_option [obeys_intros]:
  "obeys R a \<Longrightarrow> (\<And>x. obeys R (f x)) \<Longrightarrow> obeys R (case z of None \<Rightarrow> a | Some x \<Rightarrow> f x)"
  by (cases z) simp_all

lemma obeys_prod [obeys_intros]: "(\<And>a b. obeys R (f a b)) \<Longrightarrow> obeys R (case p of (a, b) \<Rightarrow> f a b)"
  by (cases p) simp

lemma obeys_res [obeys_intros]:
  "(\<And>a. obeys R (f a)) \<Longrightarrow> (\<And>e. obeys R (g e)) \<Longrightarrow> obeys R b \<Longrightarrow> obeys R c \<Longrightarrow>
   obeys R (case z of Ok a \<Rightarrow> f a | Err e \<Rightarrow> g e | Panic \<Rightarrow> b | Undef \<Rightarrow> c)"
  by (cases z) simp_all

end

text \<open>A read contract is one that reading the device respects, and with it every operation that only
  reads; a device contract is one that its writes respect too, and with them every operation of the
  filesystem.\<close>

locale read_contract = step_contract +
  assumes device_read [obeys_intros]: "obeys R (jd_read off n)"
begin

lemma obeys_loads [obeys_intros]:
  "obeys R read_super_block" "obeys R (load_new sb g)" "obeys R (inode_disk_pos fs n)" "obeys R (get_inode_ref fs n)"
  unfolding read_super_block_def load_new_def get_inode_ref_def inode_disk_pos_def
  by (intro obeys_intros)+

lemma obeys_find_extent [obeys_intros]: "obeys R (find_extent bs ir lblock)"
proof -
  have "obeys R (descend bs lblock d node pon sp)" for d node pon sp
    by (induction d arbitrary: node pon sp)
       (simp_all only: descend.simps, (intro obeys_intros | assumption)+)
  then show ?thesis unfolding find_extent_def by (intro obeys_intros)
qed

lemma obeys_match:
  assumes "obeys R m" and "\<And>s. snd (f s) = snd (m s)"
  shows "obeys R f"
  using assms by (simp add: obeys_def)

lemma obeys_pblock [obeys_intros]: "obeys R (get_pblock_idx bs ir lblock)" "obeys R (get_pblock_state bs ir lblock)"
  by (rule obeys_match [OF obeys_find_extent [of bs ir lblock]],
      simp add: get_pblock_idx_def get_pblock_state_def split: prod.split res.split)+

end

locale device_contract = read_contract +
  assumes device_write [obeys_intros]: "obeys R (jd_write off d)"
begin

lemma obeys_superblock [obeys_intros]: "obeys R (sync_to_disk_with_csum sb)"
  unfolding sync_to_disk_with_csum_def sync_to_disk_def
  by (intro obeys_intros)

lemma obeys_group [obeys_intros]: "obeys R (bg_sync_to_disk_with_csum sb g bg)"
  unfolding bg_sync_to_disk_with_csum_def sync_block_group_to_disk_def
  by (intro obeys_intros)

lemma obeys_inode [obeys_intros]:
  "obeys R (write_back_inode fs r)" "obeys R (write_back_inode_without_csum fs r)"
  unfolding write_back_inode_def write_back_inode_without_csum_def sync_inode_to_disk_def
  by (intro obeys_intros)+

lemma obeys_ialloc [obeys_intros]:
  "obeys R (ialloc_alloc_inode fs dir)" "obeys R (ialloc_free_inode fs n dir)"
proof -
  have "obeys R (ialloc_groups fs sb dir gs)" for sb gs
    by (induction gs) (simp_all only: ialloc_groups.simps ialloc_group_def, (intro obeys_intros | assumption)+)
  then show "obeys R (ialloc_alloc_inode fs dir)"
    unfolding ialloc_alloc_inode_def by (intro obeys_intros)
  show "obeys R (ialloc_free_inode fs n dir)"
    unfolding ialloc_free_inode_def by (intro obeys_intros)
qed

lemma obeys_take [obeys_intros]: "obeys R (take_block fs r bg bgid bitmap pos idx)"
  unfolding take_block_def update_free_block_counts_def by (intro obeys_intros)

lemma obeys_balloc [obeys_intros]:
  "obeys R (balloc_alloc_block fs r goal)" "obeys R (balloc_alloc_block_from fs r start)"
  "obeys R (balloc_alloc_block_batch fs r start n)" "obeys R (balloc_free_blocks fs r b cnt)"
proof -
  have "obeys R (alloc_loop fs r g n bgid idx)" for g n bgid idx
    by (induction n arbitrary: bgid idx) (simp_all only: alloc_loop.simps, (intro obeys_intros | assumption)+)
  then show "obeys R (balloc_alloc_block fs r goal)"
    unfolding balloc_alloc_block_def by (intro obeys_intros)
  have "obeys R (alloc_from_loop fs r g n bgid idx)" for g n bgid idx
    by (induction n arbitrary: bgid idx) (simp_all only: alloc_from_loop.simps, (intro obeys_intros | assumption)+)
  then show "obeys R (balloc_alloc_block_from fs r start)"
    unfolding balloc_alloc_block_from_def by (intro obeys_intros)
  have "obeys R (batch_loop fs g k r bgid m acc)" for g k r bgid m acc
    by (induction k arbitrary: r bgid m acc)
       (simp_all only: batch_loop.simps batch_group_def, (intro obeys_intros | assumption)+)
  then show "obeys R (balloc_alloc_block_batch fs r start n)"
    unfolding balloc_alloc_block_batch_def by (intro obeys_intros)
  have "obeys R (free_loop fs sb r b c n)" for sb r b c n
    by (induction n arbitrary: sb r b c) (simp_all only: free_loop.simps, (intro obeys_intros | assumption)+)
  then show "obeys R (balloc_free_blocks fs r b cnt)"
    unfolding balloc_free_blocks_def by (intro obeys_intros)
qed

end

section \<open>The contracts\<close>

text \<open>While a transaction is open (the nesting depth is not 0), the disk, the depth and the crash point stay as they are, and
  the transaction stays open.\<close>

definition capture_step :: "jdev \<Rightarrow> jdev \<Rightarrow> bool" where
  "capture_step s t \<longleftrightarrow> (jd_txn s \<noteq> None \<and> 0 < jd_depth s \<longrightarrow>
     jd_txn t \<noteq> None \<and> jd_image t = jd_image s \<and> jd_depth t = jd_depth s \<and> jd_crash t = jd_crash s)"

interpretation capture: device_contract capture_step
proof
  fix off n d
  show "obeys capture_step (jd_read off n)"
    by (simp add: obeys_def capture_step_def jd_read_def Let_def)
  show "obeys capture_step (jd_write off d)"
    by (auto simp: obeys_def capture_step_def jd_write_def jd_image_def split: option.splits res.split)
qed (auto simp: capture_step_def)

text \<open>An operation is captured up to the depth \<open>n\<close> when it does not reach the disk while a transaction
  nested at most \<open>n\<close> deep is open; only a panic may leave the depth changed.\<close>

definition still_open :: "jdev \<Rightarrow> 'a res \<Rightarrow> jdev \<Rightarrow> bool" where
  "still_open s r t \<longleftrightarrow> jd_txn t \<noteq> None \<and> jd_image t = jd_image s \<and> jd_crash t = jd_crash s
     \<and> (r = Panic \<or> r = Undef \<or> jd_depth t = jd_depth s)"

definition captured :: "nat \<Rightarrow> (jdev, 'a) io \<Rightarrow> bool" where
  "captured n m \<longleftrightarrow> (\<forall>s. jd_txn s \<noteq> None \<and> 0 < jd_depth s \<and> unat (jd_depth s) \<le> n \<longrightarrow>
     (case m s of (r, t) \<Rightarrow> still_open s r t))"

lemma capturedI: "obeys capture_step m \<Longrightarrow> captured n m"
  unfolding captured_def obeys_def capture_step_def still_open_def
  by (auto split: prod.split)

lemma capturedD:
  "captured n m \<Longrightarrow> m s = (r, t) \<Longrightarrow> jd_txn s \<noteq> None \<Longrightarrow> 0 < jd_depth s \<Longrightarrow> unat (jd_depth s) \<le> n \<Longrightarrow> still_open s r t"
  unfolding captured_def by (drule spec [of _ s]) simp

lemma captured_bind:
  assumes "captured n m" and "\<And>a. captured n (f a)"
  shows "captured n (bindS m f)"
  unfolding captured_def
proof (intro allI impI)
  fix s :: jdev
  assume s: "jd_txn s \<noteq> None \<and> 0 < jd_depth s \<and> unat (jd_depth s) \<le> n"
  obtain r t where m: "m s = (r, t)" by (cases "m s")
  have t: "still_open s r t" using capturedD [OF assms(1) m] s by blast
  show "case bindS m f s of (r, t) \<Rightarrow> still_open s r t"
  proof (cases r)
    case (Ok a)
    obtain q u where u: "f a t = (q, u)" by (cases "f a t")
    show ?thesis
      using capturedD [OF assms(2) u] s t m u Ok by (simp add: bindS_def still_open_def)
  qed (use t m in \<open>simp_all add: bindS_def still_open_def\<close>)
qed

text \<open>The staged blocks stay whole blocks, in order, and the block size is never changed.\<close>

definition inv_step :: "jdev \<Rightarrow> jdev \<Rightarrow> bool" where
  "inv_step s t \<longleftrightarrow> (jd_inv s \<longrightarrow> jd_inv t) \<and> jd_block_size t = jd_block_size s"

interpretation typed: device_contract inv_step
proof
  fix off n d
  show "obeys inv_step (jd_read off n)"
    by (simp add: obeys_def inv_step_def jd_read_def Let_def)
  have "jd_block_size (snd (jd_write off d s)) = jd_block_size s" for s
    by (simp add: jd_write_def disk_write_def split: option.split res.split)
  moreover have "jd_inv (snd (jd_write off d s))" if "jd_inv s" for s
    using jd_write_view [OF that, of off d] by auto
  ultimately show "obeys inv_step (jd_write off d)" by (simp add: obeys_def inv_step_def)
qed (auto simp: inv_step_def)

text \<open>Nothing changes at all.\<close>

interpretation reads: read_contract "(=)"
  by unfold_locales (simp_all add: obeys_def jd_read_def Let_def)

definition reads_only :: "(jdev, 'a) io \<Rightarrow> bool" where
  "reads_only m \<longleftrightarrow> obeys (=) m"

lemma reads_sequence: "reads_only (live_sequence bs j)"
  unfolding reads_only_def live_sequence_def live_sb_def read_log_block_def map_log_block_def
  by (intro obeys_intros)

text \<open>A journaled operation inside another one is captured: only the outermost end commits.\<close>

lemma captured_nested:
  assumes "captured (n + 1) op" and "n < 2 ^ 16"
  shows "captured n (journaled_op fs op)"
  unfolding captured_def
proof (intro allI impI)
  fix s :: jdev
  assume s: "jd_txn s \<noteq> None \<and> 0 < jd_depth s \<and> unat (jd_depth s) \<le> n"
  have up: "unat (jd_depth s + 1) = unat (jd_depth s) + 1"
    using s assms(2) by (simp add: unat_word_ariths)
  then have pos: "0 < jd_depth s + 1" by (simp add: word_less_nat_alt)
  show "case journaled_op fs op s of (r, t) \<Rightarrow> still_open s r t"
  proof (cases "fs_journal fs")
    case None
    obtain r t where op: "op s = (r, t)" by (cases "op s")
    show ?thesis
      using capturedD [OF assms(1) op] s None op
      by (cases r) (simp_all add: journaled_op_def journal_begin_def journal_end_def bindS_def still_open_def)
  next
    case (Some j)
    obtain q where q: "live_sequence (fs_block_size fs) j s = (q, s)"
      using reads_sequence by (metis prod.collapse reads_only_def obeys_def)
    show ?thesis
    proof (cases q)
      case (Ok seq)
      have b: "journal_begin fs s = (Ok (), jd_begin seq s)" using q Ok by (simp add: journal_begin_def Some bindS_def)
      have begun: "jd_txn (jd_begin seq s) \<noteq> None" "jd_depth (jd_begin seq s) = jd_depth s + 1"
        "jd_image (jd_begin seq s) = jd_image s" "jd_crash (jd_begin seq s) = jd_crash s"
        using s by (simp_all add: jd_begin_def jd_image_def)
      obtain r t where op: "op (jd_begin seq s) = (r, t)" by (cases "op (jd_begin seq s)")
      have t: "still_open (jd_begin seq s) r t"
        using capturedD [OF assms(1) op begun(1)] begun s up pos by simp
      have "journal_end fs ok t = (Ok (), t\<lparr> jd_depth := jd_depth s \<rparr>)" if "jd_depth t = jd_depth s + 1" for ok
        using s pos that by (auto simp: journal_end_def Some jd_end_def Let_def)
      then show ?thesis
        using op b t s begun by (cases r) (simp_all add: journaled_op_def bindS_def jd_image_def still_open_def)
    qed (use q s in \<open>simp_all add: journaled_op_def journal_begin_def Some bindS_def still_open_def\<close>)
  qed
qed

section \<open>Failure\<close>

lemma begin_open:
  assumes "closed s" and "jd_depth s = 0"
  shows "jd_txn (jd_begin seq s) = Some (Transaction_new seq)" "jd_depth (jd_begin seq s) = 1"
    "jd_image (jd_begin seq s) = jd_image s" "jd_crash (jd_begin seq s) = jd_crash s"
    "jd_block_size (jd_begin seq s) = jd_block_size s"
  using assms by (simp_all add: jd_begin_def jd_image_def)

lemma captured_from_begin:
  assumes "captured 1 op" and "closed s" and "jd_depth s = 0" and "op (jd_begin seq s) = (r, t)"
  shows "jd_txn t \<noteq> None" "jd_image t = jd_image s" "jd_crash t = jd_crash s"
    "r = Panic \<or> r = Undef \<or> jd_depth t = 1"
  using capturedD [OF assms(1,4)] begin_open [OF assms(2,3), of seq] by (simp_all add: still_open_def)

lemma end_closes:
  assumes "jd_depth t = 1"
  shows "jd_end t = (jd_txn t, t\<lparr> jd_depth := 0, jd_txn := None \<rparr>)"
  using assms by (simp add: jd_end_def Let_def)

lemma journaled_op_fails:
  assumes "fs_journal fs = Some j" and "captured 1 op" and "closed s" and "jd_depth s = 0"
  shows "case fst (live_sequence (fs_block_size fs) j s) of
      Ok seq \<Rightarrow> (case fst (op (jd_begin seq s)) of
          Ok a \<Rightarrow> True
        | Err e \<Rightarrow> \<exists>t. journaled_op fs op s = (Err e, t) \<and> closed t \<and> jd_depth t = 0 \<and> jd_image t = jd_image s
        | _ \<Rightarrow> jd_image (snd (journaled_op fs op s)) = jd_image s)
    | Err e \<Rightarrow> journaled_op fs op s = (Err e, s)
    | _ \<Rightarrow> snd (journaled_op fs op s) = s"
proof -
  have "snd (live_sequence (fs_block_size fs) j s) = s" using reads_sequence by (simp add: reads_only_def obeys_def)
  then obtain q where q: "live_sequence (fs_block_size fs) j s = (q, s)" by (metis prod.collapse)
  show ?thesis
  proof (cases q)
    case (Ok seq)
    obtain r t where op: "op (jd_begin seq s) = (r, t)" by (cases "op (jd_begin seq s)")
    note t = captured_from_begin [OF assms(2-4) op]
    obtain txn where txn: "jd_txn t = Some txn" using t(1) by blast
    have b: "journal_begin fs s = (Ok (), jd_begin seq s)"
      using q Ok by (simp add: journal_begin_def assms(1) bindS_def)
    show ?thesis
    proof (cases r)
      case (Err e)
      then have d: "jd_depth t = 1" using t(4) by simp
      have "journal_end fs False t = (Ok (), t\<lparr> jd_depth := 0, jd_txn := None \<rparr>)"
        by (simp add: journal_end_def assms(1) end_closes [OF d] txn)
      then have "journaled_op fs op s = (Err e, t\<lparr> jd_depth := 0, jd_txn := None \<rparr>)"
        using b op Err by (simp add: journaled_op_def bindS_def)
      then show ?thesis using q Ok op Err t(2) by (simp add: closed_def jd_image_def)
    qed (use q Ok op b t(2) in \<open>simp_all add: journaled_op_def bindS_def\<close>)
  qed (use q in \<open>simp_all add: journaled_op_def journal_begin_def assms(1) bindS_def\<close>)
qed

section \<open>Success\<close>

text \<open>What a reader sees at the end of an operation, block by block, is what its transaction stages
  over the disk.\<close>

lemma block_of_view:
  assumes "jd_txn t = Some txn" and "0 < jd_block_size t" and "whole_blocks (jd_block_size t) (txn_blocks txn)"
  shows "block_of (jd_block_size t) (jd_view t) b =
    (case map_of (txn_blocks txn) b of Some st \<Rightarrow> sb_data st | None \<Rightarrow> block_of (jd_block_size t) (jd_image t) b)"
  unfolding block_of_def jd_view_def assms(1) jd_image_def option.case
  by (rule staged_block_view [OF assms(2,3), symmetric])

lemma commit_setup_image:
  "commit_setup bs j P ls txn s \<Longrightarrow> closed t \<Longrightarrow> jd_image t = jd_image s \<Longrightarrow> commit_setup bs j P ls txn t"
  by (simp add: commit_setup_def)

lemma live_sequence_setup:
  assumes "commit_setup bs j P ls txn s"
  shows "live_sequence bs j s = (Ok (jsb_sequence (ls_sb ls)), s)"
proof -
  have "runs (live_sb bs j) s ls (jd_image s)"
    using assms runs_live by (auto simp: commit_setup_def)
  then obtain t where "live_sb bs j s = (Ok ls, t)" by (auto simp: runs_def)
  then have "fst (live_sequence bs j s) = Ok (jsb_sequence (ls_sb ls))"
    by (simp add: live_sequence_def bindS_def)
  then show ?thesis using reads_sequence [of bs j] by (metis prod.collapse reads_only_def obeys_def)
qed

lemma journaled_op_commits:
  assumes "fs_journal fs = Some j" and "captured 1 op" and "closed s" and "jd_depth s = 0"
    and "op (jd_begin (jsb_sequence (ls_sb ls)) s) = (Ok a, t)" and "jd_txn t = Some txn" and "jd_block_size t = fs_block_size fs"
    and ready: "commit_setup (fs_block_size fs) j P ls txn s" and apart: "log_apart (fs_block_size fs) P ls txn"
    and csum: "ls_has_csum ls = (has_incompat (j_sb j) JBD2_FEATURE_INCOMPAT_CSUM_V2
      \<or> has_incompat (j_sb j) JBD2_FEATURE_INCOMPAT_CSUM_V3)"
    and ends: "\<not> continues (block_of (fs_block_size fs) (jd_image s)
       (P (unat (jsb_first (ls_sb ls)) + card (txn_keys (fs_block_size fs) txn) + 2))) (txn_sequence txn + 1)"
  shows "\<exists>u v. journaled_op fs op s = (Ok a, u) \<and> recover (fs_block_size fs) j u = (Ok (), v)
    \<and> block_of (fs_block_size fs) (jd_image v) (sb_idx (fs_block_size fs))
        = sb_block False (fs_block_size fs) (block_of (fs_block_size fs) (jd_view t) (sb_idx (fs_block_size fs)))
    \<and> (\<forall>b. b \<noteq> sb_idx (fs_block_size fs)
          \<and> b \<notin> P ` insert 0 {unat (jsb_first (ls_sb ls))..
                unat (jsb_first (ls_sb ls)) + card (txn_keys (fs_block_size fs) txn) + 1}
        \<longrightarrow> block_of (fs_block_size fs) (jd_image v) b = block_of (fs_block_size fs) (jd_view t) b)"
proof -
  let ?bs = "fs_block_size fs"
  note c = captured_from_begin [OF assms(2-4,5)]
  have d: "jd_depth t = 1" using c(4) by simp
  let ?e = "t\<lparr> jd_depth := 0, jd_txn := None \<rparr>"
  let ?s = "?e\<lparr> jd_crash := NoCrash \<rparr>"
  have s: "closed ?s" "jd_image ?s = jd_image s" using c(2) by (simp_all add: closed_def jd_image_def)
  note ready' = commit_setup_image [OF ready s]
  obtain u v w where r: "commit_with_crash ?bs j txn (jd_crash t) ?s = (Ok (), u)" "recover ?bs j u = (Ok (), v)"
    "commit ?bs j txn ?s = (Ok (), w)" "jd_image v = jd_image w"
    using crash_recovers [OF ready' apart csum, of "jd_crash t"] ends unfolding s(2) by blast
  obtain w' where w': "commit ?bs j txn ?s = (Ok (), w')"
    and data: "\<forall>b st. (b, st) \<in> set (txn_blocks txn) \<and> b \<noteq> sb_idx ?bs \<longrightarrow> block_of ?bs (jd_image w') b = sb_data st"
    and sb: "block_of ?bs (jd_image w') (sb_idx ?bs) = sb_block False ?bs (sb_base ?bs txn (jd_image ?s))"
    and other: "\<forall>b. b \<notin> txn_keys ?bs txn
          \<union> P ` insert 0 {unat (jsb_first (ls_sb ls))..unat (jsb_first (ls_sb ls)) + card (txn_keys ?bs txn) + 1}
        \<longrightarrow> block_of ?bs (jd_image w') b = block_of ?bs (jd_image ?s) b"
    using commit_result [OF ready' apart] by blast
  have img: "jd_image v = jd_image w'" using r(3,4) w' by simp
  have "journal_end fs True t = (Ok (), u)"
    using r(1) by (simp add: journal_end_def assms(1,6) end_closes [OF d] take_crash_def)
  moreover have "live_sequence ?bs j s = (Ok (jsb_sequence (ls_sb ls)), s)"
    by (rule live_sequence_setup [OF ready])
  ultimately have run: "journaled_op fs op s = (Ok a, u)"
    using assms(5) by (simp add: journaled_op_def journal_begin_def assms(1) bindS_def)
  have bs: "0 < ?bs" and whole: "whole_blocks ?bs (txn_blocks txn)"
    using ready by (auto simp: commit_setup_def)
  have view: "block_of ?bs (jd_view t) b =
      (case map_of (txn_blocks txn) b of Some st \<Rightarrow> sb_data st | None \<Rightarrow> block_of ?bs (jd_image s) b)" for b
    by (rule block_of_view [OF assms(6), unfolded assms(7) c(2), OF bs whole])
  have "block_of ?bs (jd_image w') b = block_of ?bs (jd_view t) b"
    if "b \<noteq> sb_idx ?bs" "b \<notin> P ` insert 0 {unat (jsb_first (ls_sb ls))..
                unat (jsb_first (ls_sb ls)) + card (txn_keys ?bs txn) + 1}" for b
  proof (cases "map_of (txn_blocks txn) b")
    case None
    then have "b \<notin> txn_keys ?bs txn" using that(1) by (simp add: txn_keys_def map_of_eq_None_iff)
    then show ?thesis using other that(2) None view [of b] s(2) by simp
  next
    case (Some st)
    then show ?thesis using data that(1) map_of_SomeD [OF Some] view [of b] by simp
  qed
  moreover have "block_of ?bs (jd_image w') (sb_idx ?bs) = sb_block False ?bs (block_of ?bs (jd_view t) (sb_idx ?bs))"
    unfolding sb view sb_base_def s(2) ..
  ultimately show ?thesis using run r(2) img by metis
qed

section \<open>Properties\<close>

text \<open>C2: a journaled operation that succeeds is atomic. When its transaction fits the journal, then
  whatever the injected crash (the crash point of the device), after recovery at the next mount every
  block outside the log reads as the operation saw it at its end, the superblock's block with the
  recovery flag cleared and its checksum redone.\<close>

theorem journaled_op_atomic:
  assumes "fs_journal fs = Some j" and "captured 1 op" and "closed s" and "jd_depth s = 0"
    and "op (jd_begin (jsb_sequence (ls_sb ls)) s) = (Ok a, t)" and "jd_txn t = Some txn"
    and "jd_block_size t = fs_block_size fs"
    and "commit_setup (fs_block_size fs) j P ls txn s" and "log_apart (fs_block_size fs) P ls txn"
    and "ls_has_csum ls = (has_incompat (j_sb j) JBD2_FEATURE_INCOMPAT_CSUM_V2
      \<or> has_incompat (j_sb j) JBD2_FEATURE_INCOMPAT_CSUM_V3)"
    and "\<not> continues (block_of (fs_block_size fs) (jd_image s)
       (P (unat (jsb_first (ls_sb ls)) + card (txn_keys (fs_block_size fs) txn) + 2))) (txn_sequence txn + 1)"
  shows "\<exists>u v. journaled_op fs op s = (Ok a, u) \<and> recover (fs_block_size fs) j u = (Ok (), v)
    \<and> block_of (fs_block_size fs) (jd_image v) (sb_idx (fs_block_size fs))
        = sb_block False (fs_block_size fs) (block_of (fs_block_size fs) (jd_view t) (sb_idx (fs_block_size fs)))
    \<and> (\<forall>b. b \<noteq> sb_idx (fs_block_size fs)
          \<and> b \<notin> P ` insert 0 {unat (jsb_first (ls_sb ls))..
                unat (jsb_first (ls_sb ls)) + card (txn_keys (fs_block_size fs) txn) + 1}
        \<longrightarrow> block_of (fs_block_size fs) (jd_image v) b = block_of (fs_block_size fs) (jd_view t) b)"
  by (rule journaled_op_commits [OF assms])

text \<open>The sample journal under a filesystem, and an operation that overwrites block 7.\<close>

definition small_fs :: ext4 where
  "small_fs = \<lparr> fs_sb = wide_sb, fs_zones = None, fs_journal = Some small_journal \<rparr>"

definition small_open :: jdev where
  "small_open = (jd_begin 7 small_dev)\<lparr> jd_txn := Some small_txn \<rparr>"

lemma small_fs [simp]: "fs_journal small_fs = Some small_journal" "fs_block_size small_fs = 2048"
  by (simp_all add: small_fs_def fs_block_size_def)

lemma small_closed: "closed small_dev" "jd_depth small_dev = 0" "jd_block_size small_dev = 2048"
  by (simp_all add: small_dev_def closed_def JournalDevice_new_def)

lemma small_write: "jd_write 14336 (replicate 2048 9) (jd_begin 7 small_dev) = (Ok (), small_open)"
proof -
  let ?s = "jd_begin 7 small_dev"
  have whole: "put_at (image_read img 14336 2048) 0 (replicate 2048 9) = Ok (replicate 2048 9)" for img
    by (simp add: put_at_Ok put_def)
  have "capture img 2048 (replicate 2048 9) 14336 0 (Transaction_new 7) = Ok small_txn" for img
    by (subst capture.simps)
       (simp add: Transaction_new_def whole slice_all capture.simps small_txn_def)
  then show ?thesis
    using begin_open [OF small_closed(1,2), of 7] by (simp add: jd_write_def small_closed(3) small_open_def)
qed

lemma small_seq: "jsb_sequence (ls_sb small_ls) = 7"
  by (simp add: small_ls_def small_sb_def)

theorem journaled_op_atomic_witness:
  "\<exists>u v. journaled_op small_fs (jd_write 14336 (replicate 2048 9)) small_dev = (Ok (), u)
    \<and> recover 2048 small_journal u = (Ok (), v)"
proof -
  have "jd_txn small_open = Some small_txn" "jd_block_size small_open = 2048"
    using begin_open [OF small_closed(1,2), of 7] by (simp_all add: small_open_def small_closed(3))
  moreover have "ls_has_csum small_ls = (has_incompat (j_sb small_journal) JBD2_FEATURE_INCOMPAT_CSUM_V2
      \<or> has_incompat (j_sb small_journal) JBD2_FEATURE_INCOMPAT_CSUM_V3)"
    by (simp add: small_ls_def small_journal_def small_sb_def has_incompat_def
        JBD2_FEATURE_INCOMPAT_CSUM_V3_def JBD2_FEATURE_INCOMPAT_CSUM_V2_def)
  ultimately show ?thesis
    using journaled_op_atomic [OF small_fs(1) capturedI [OF capture.device_write] small_closed(1,2), unfolded small_fs(2),
        OF small_write [folded small_seq] _ _ small_ready small_apart _ small_ends] by blast
qed

text \<open>C6: a journaled operation that fails changes nothing: when it returns an error, every write it
  made is dropped, the disk is as before and the transaction is closed; when it panics the disk is as
  before too; and when the journal cannot be read the operation does not run.\<close>

theorem journaled_op_abort:
  assumes "fs_journal fs = Some j" and "captured 1 op" and "closed s" and "jd_depth s = 0"
  shows "case fst (live_sequence (fs_block_size fs) j s) of
      Ok seq \<Rightarrow> (case fst (op (jd_begin seq s)) of
          Ok a \<Rightarrow> True
        | Err e \<Rightarrow> \<exists>t. journaled_op fs op s = (Err e, t) \<and> closed t \<and> jd_depth t = 0 \<and> jd_image t = jd_image s
        | _ \<Rightarrow> jd_image (snd (journaled_op fs op s)) = jd_image s)
    | Err e \<Rightarrow> journaled_op fs op s = (Err e, s)
    | _ \<Rightarrow> snd (journaled_op fs op s) = s"
  by (rule journaled_op_fails [OF assms])

definition small_failing :: "(jdev, unit) io" where
  "small_failing = bindS (jd_write 14336 (replicate 2048 9)) (\<lambda>_. lift (Err EIO))"

theorem journaled_op_abort_witness:
  "\<exists>t. journaled_op small_fs small_failing small_dev = (Err EIO, t) \<and> jd_image t = jd_image small_dev"
proof -
  have "captured 1 small_failing" unfolding small_failing_def by (intro capturedI obeys_intros)
  note a = journaled_op_abort [OF small_fs(1) this small_closed(1,2), unfolded small_fs(2)
      live_sequence_setup [OF small_ready] fst_conv res.case small_seq]
  have "fst (small_failing (jd_begin 7 small_dev)) = Err EIO"
    by (simp add: small_failing_def bindS_def small_write)
  then show ?thesis using a by auto
qed

end
