(* ===== verification/FileAtomic.thy ===== *)
theory FileAtomic
  imports FileOps Atomic
begin

text \<open>
  Atomicity of the file operations. Every operation on extents, directories and files is made of reads
  and writes of the device, so it respects every contract on them (\<open>Atomic\<close>): while a transaction is
  open it only stages blocks. With that, an operation that fails in the middle leaves the disk as it
  was, and one that succeeds is in place as a whole after any crash.
\<close>

section \<open>Combinators\<close>

context step_contract
begin

lemma obeys_nat [obeys_intros]:
  "obeys R a \<Longrightarrow> (\<And>n. obeys R (f n)) \<Longrightarrow> obeys R (case k of 0 \<Rightarrow> a | Suc n \<Rightarrow> f n)"
  by (cases k) simp_all

lemma obeys_keep:
  assumes "obeys R m" and "\<And>s. snd (f s) = snd (m s)"
  shows "obeys R f"
  using assms by (simp add: obeys_def)

lemma obeys_ignore [obeys_intros]:
  fixes m :: "(jdev, unit) io"
  shows "obeys R m \<Longrightarrow> obeys R (ignore_err m)"
  by (erule obeys_keep) (simp add: ignore_err_def split: prod.split res.split)

lemma obeys_or_value [obeys_intros]: "obeys R m \<Longrightarrow> obeys R (or_value m a)"
  by (erule obeys_keep) (simp add: or_value_def split: prod.split res.split)

lemma obeys_on_result [obeys_intros]:
  assumes "obeys R m" and "\<And>a. obeys R (f a)" and "\<And>e. obeys R (h e)"
  shows "obeys R (on_result m f h)"
  unfolding obeys_def
proof
  fix s :: jdev
  obtain r t where m: "m s = (r, t)" by (cases "m s")
  then have t: "R s t" using assms(1) unfolding obeys_def by (metis snd_conv)
  show "R s (snd (on_result m f h s))"
    using trans_step [OF t] assms(2,3) m t by (cases r) (simp_all add: on_result_def obeys_def)
qed

lemma obeys_bindO [obeys_intros]:
  "obeys R m \<Longrightarrow> (\<And>a. obeys R (f a)) \<Longrightarrow> obeys R (bindO m f)"
  unfolding bindO_def by (intro obeys_intros)

end

section \<open>Operations that read\<close>

context read_contract
begin

lemma obeys_node_reads [obeys_intros]:
  "obeys R (read_node_slots fs p)" "obeys R (get_extent_from_node fs node pos)"
  "obeys R (get_index_from_node fs node pos)" "obeys R (load_node_bytes fs r n)"
  "obeys R (more_to_rm fs node u)" "obeys R (leaf_ends fs r node)"
  unfolding read_node_slots_def get_extent_from_node_def get_index_from_node_def load_node_bytes_def
    more_to_rm_def leaf_ends_def
  by (intro obeys_intros)+

lemma obeys_htree_reads [obeys_intros]:
  "obeys R (load_lblock fs r l)" "obeys R (dx_load_block fs r l eo)" "obeys R (dx_hash_params fs r)"
  "obeys R (dx_name_hash fs r name)"
  unfolding dx_name_hash_def dx_hash_params_def dx_load_block_def load_lblock_def
  by (intro obeys_intros)+

lemma obeys_htree_find [obeys_intros]:
  "obeys R (dx_probe fs r name)" "obeys R (dx_find_entry fs p name)" "obeys R (dx_probe_frames_hash fs r hash)"
proof -
  have descend: "obeys R (dx_descend fs r h n d eo c)" for r h n d eo c
    by (induction n arbitrary: d eo c) (simp_all only: dx_descend.simps, (intro obeys_intros | assumption)+)
  show probe: "obeys R (dx_probe fs r name)" for r name
    unfolding dx_probe_def by (intro obeys_intros descend)
  show "obeys R (dx_find_entry fs p name)"
    unfolding dx_find_entry_def by (intro obeys_intros probe)
  have frames: "obeys R (probe_frames fs r h n d l eo fr)" for h n d l eo fr
    by (induction n arbitrary: d l eo fr)
      (subst probe_frames.simps, simp only: nat.case, (intro obeys_intros | assumption)+)+
  show "obeys R (dx_probe_frames_hash fs r hash)"
    unfolding dx_probe_frames_hash_def by (intro obeys_intros frames)
qed

lemma obeys_dir_reads [obeys_intros]:
  "obeys R (dir_find_entry fs p name)" "obeys R (dir_has_entry fs p)" "obeys R (dir_get_entries fs p)"
proof -
  have load: "obeys R (load_path_block fs sp)" for sp
    unfolding load_path_block_def by (intro obeys_intros)
  have find: "obeys R (find_in_blocks fs r name ks)" for r ks
    by (induction ks) (simp_all only: find_in_blocks.simps, (intro obeys_intros load | assumption)+)
  show "obeys R (dir_find_entry fs p name)"
    unfolding dir_find_entry_def Let_def by (intro obeys_intros find)
  have has: "obeys R (has_entry_blocks fs r ks)" for r ks
    by (induction ks) (simp_all only: has_entry_blocks.simps, (intro obeys_intros load | assumption)+)
  show "obeys R (dir_has_entry fs p)"
    unfolding dir_has_entry_def Let_def by (intro obeys_intros has)
  have lst: "obeys R (list_blocks fs r start ks)" for r start ks
    by (induction ks) (simp_all only: list_blocks.simps, (intro obeys_intros load | assumption)+)
  show "obeys R (dir_get_entries fs p)"
    unfolding dir_get_entries_def dir_entries_with_offset_from_def Let_def by (intro obeys_intros lst)
qed

end


section \<open>Operations that write\<close>

context device_contract
begin

lemma obeys_slots [obeys_intros]:
  "obeys R (set_extent_block_checksum fs r b)" "obeys R (write_node_slots fs r p depth slots)"
  "obeys R (ext_grow_indepth fs r)"
  unfolding set_extent_block_checksum_def write_node_slots_def ext_grow_indepth_def
  by (intro obeys_intros)+

lemma obeys_indexes [obeys_intros]:
  "obeys R (add_index_to_root fs r sep p)" "obeys R (correct_parent_index fs r sp first level)"
  "obeys R (insert_index_at_level fs r sp sep p level)" "obeys R (split_leaf fs r sp e)"
proof -
  show root: "obeys R (add_index_to_root fs r sep p)" for r sep p
    unfolding add_index_to_root_def by (intro obeys_intros)
  show parent: "obeys R (correct_parent_index fs r sp first level)" for r level first
    by (induction level arbitrary: r)
      (subst correct_parent_index.simps, simp only: nat.case, (intro obeys_intros | assumption)+)+
  show level: "obeys R (insert_index_at_level fs r sp sep p level)" for r sep p level
    by (induction level arbitrary: r sep p)
      (subst insert_index_at_level.simps, simp only: nat.case, (intro obeys_intros root | assumption)+)+
  show "obeys R (split_leaf fs r sp e)"
    unfolding split_leaf_def by (intro obeys_intros parent level)
qed

lemma obeys_insert_extent [obeys_intros]: "obeys R (insert_extent fs r e)"
proof -
  have merge: "obeys R (try_merge fs r sp node ex newex)" for r sp node ex newex
    unfolding try_merge_def merge_extent_def by (intro obeys_intros)
  have step: "obeys R (insert_extent_step again fs r e)" if "\<And>r. obeys R (again r)" for again r
    unfolding insert_extent_step_def insert_new_extent_def create_new_leaf_def
    by (intro obeys_intros merge that)
  have "obeys R (insert_extent_nested n fs e r)" for n r
    by (induction n arbitrary: r) (simp_all only: insert_extent_nested.simps, (intro obeys_intros step | assumption)+)
  then show ?thesis unfolding insert_extent_def .
qed

lemma obeys_map_blocks [obeys_intros]:
  "obeys R (append_inode_pblk fs r)" "obeys R (map_inode_pblk_batch fs r bgid l n unwritten)"
proof -
  show "obeys R (append_inode_pblk fs r)"
    unfolding append_inode_pblk_def append_block_def by (intro obeys_intros)
  have seg: "obeys R (map_segment fs u segment k iblk r)" for u segment k iblk r
  proof (induction "length segment - k" arbitrary: k iblk r rule: less_induct)
    case less
    show ?case
      by (subst map_segment.simps)
        (auto intro!: obeys_intros less simp: Let_def max_extent_length_def EXT_INIT_MAX_LEN_def)
  qed
  have "obeys R (map_segments fs u segs iblk r)" for u segs iblk r
    by (induction segs arbitrary: iblk r) (simp_all only: map_segments.simps, (intro obeys_intros seg | assumption)+)
  then show "obeys R (map_inode_pblk_batch fs r bgid l n unwritten)"
    unfolding map_inode_pblk_batch_def by (intro obeys_intros)
qed

lemma obeys_remove_leaf [obeys_intros]:
  "obeys R (ext_remove_blocks fs r ex u v)" "obeys R (ext_remove_idx fs r sp i)" "obeys R (ext_remove_leaf fs r sp u v)"
proof -
  show blocks: "obeys R (ext_remove_blocks fs r ex u v)" for r ex u v
    unfolding ext_remove_blocks_def free_ignoring_def by (intro obeys_intros)
  have store: "obeys R (store_node_bytes fs r n d)" for r n d
    unfolding store_node_bytes_def by (intro obeys_intros)
  have parents: "obeys R (update_parents fs sp i r)" for sp i r
    by (induction i arbitrary: r) (simp_all only: update_parents.simps, (intro obeys_intros | assumption)+)
  show idx: "obeys R (ext_remove_idx fs r sp i)" for r sp i
    unfolding ext_remove_idx_def ext_remove_index_block_def free_ignoring_def
    by (intro obeys_intros store parents)
  have loop: "obeys R (leaf_loop fs u v ks d c e r)" for u v ks d c e r
    by (induction ks arbitrary: d c e r) (simp_all only: leaf_loop.simps, (intro obeys_intros blocks | assumption)+)
  show "obeys R (ext_remove_leaf fs r sp u v)"
    unfolding ext_remove_leaf_def by (intro obeys_intros store idx loop)
qed

lemma obeys_remove_space [obeys_intros]: "obeys R (extent_remove_space fuel fs r u v)"
proof -
  have walk: "obeys R (remove_walk fuel fs u v depth i r sp)" for depth i r sp
  proof (induction fuel arbitrary: i r sp)
    case (Suc fuel)
    show ?case
      by (subst remove_walk.simps, cases i) (simp_all only: nat.case Let_def, (intro obeys_intros Suc)+)
  qed (simp add: obeys_intros)
  show ?thesis
    unfolding extent_remove_space_def punch_extent_def by (intro obeys_intros walk)
qed


lemma obeys_htree_writes [obeys_intros]:
  "obeys R (write_fs_block fs b f)" "obeys R (dx_convert_to_htree fs r)" "obeys R (dx_split_leaf fs r l)"
  "obeys R (dx_split_node fs r l h b')" "obeys R (dx_grow_depth fs r)" "obeys R (insert_stamped fs r b d name ino ty)"
proof -
  show w: "obeys R (write_fs_block fs b f)" for b f
    unfolding write_fs_block_def by (intro obeys_intros)
  show "obeys R (dx_convert_to_htree fs r)" "obeys R (dx_split_leaf fs r l)" "obeys R (dx_split_node fs r l h b')"
    "obeys R (dx_grow_depth fs r)" "obeys R (insert_stamped fs r b d name ino ty)"
    unfolding dx_convert_to_htree_def dx_split_leaf_def dx_split_node_def dx_grow_depth_def insert_stamped_def
    by (intro obeys_intros w)+
qed

lemma obeys_htree_add [obeys_intros]: "obeys R (dx_add_entry fs r ino name ty)"
proof -
  have at: "obeys R (add_to_index_at again fs frames level h b r)" if "\<And>h b r. obeys R (again h b r)"
    for again frames level h b r
    by (induction level arbitrary: h b r)
      (subst add_to_index_at.simps, simp only: nat.case, (intro obeys_intros that | assumption)+)+
  have nested: "obeys R (add_to_index_nested n fs h b r)" for n h b r
    by (induction n arbitrary: h b r) (simp_all only: add_to_index_nested.simps, (intro obeys_intros at | assumption)+)
  show ?thesis
    unfolding dx_add_entry_def dx_add_to_index_def by (intro obeys_intros at nested)
qed

lemma obeys_dir_writes [obeys_intros]:
  "obeys R (dir_add_entry fs r c name)" "obeys R (dir_remove_entry fs r name)" "obeys R (dir_set_entry_target fs p name t)"
proof -
  have blocks: "obeys R (insert_in_blocks fs r ino name ty ks)" for r ino ty ks
    by (induction ks) (simp_all only: insert_in_blocks.simps, (intro obeys_intros | assumption)+)
  show "obeys R (dir_add_entry fs r c name)"
    unfolding dir_add_entry_def append_dir_block_def by (intro obeys_intros blocks)
  show "obeys R (dir_remove_entry fs r name)" "obeys R (dir_set_entry_target fs p name t)"
    unfolding dir_remove_entry_def dir_set_entry_target_def by (intro obeys_intros)+
qed

lemma obeys_links [obeys_intros]:
  "obeys R (link_impl fs p c name)" "obeys R (unlink_impl fs p c name)" "obeys R (create_inode_with_rdev fs m rdev)"
  unfolding link_impl_def unlink_impl_def create_inode_with_rdev_def alloc_inode_def by (intro obeys_intros)+

lemma obeys_files [obeys_intros]:
  "obeys R (write_at_impl fuel fs ino off d)" "obeys R (truncate_inode_impl fuel fs r sz)"
proof -
  have run: "obeys R (run_length P k n)" if "\<And>k. obeys R (P k)" for P k n
    by (induction n arbitrary: k) (simp_all only: run_length.simps, (intro obeys_intros that | assumption)+)
  have test: "obeys R (unwritten_at fs r k)" "obeys R (is_hole fs m r k)" for r k m
    unfolding unwritten_at_def is_hole_def by (intro obeys_intros)+
  have punch: "obeys R (punch_unwritten fuel fs n k r)" for n k r
  proof (induction n arbitrary: k r rule: less_induct)
    case (less n)
    show ?case
      by (cases n) (simp_all only: punch_unwritten.simps Let_def,
        (intro obeys_intros run test less | simp)+)
  qed
  have fill: "obeys R (fill_holes fs m n k r bgid)" for m n k r bgid
  proof (induction n arbitrary: k r bgid rule: less_induct)
    case (less n)
    show ?case
      by (cases n) (simp_all only: fill_holes.simps Let_def,
        (intro obeys_intros run test less | simp)+)
  qed
  have part: "obeys R (write_part bs r k skip d)" for bs r k skip d
    unfolding write_part_def by (intro obeys_intros)
  have blocks: "obeys R (write_blocks bs r k d)" for bs r k d
  proof (induction "length d" arbitrary: k d rule: less_induct)
    case less
    show ?case by (subst write_blocks.simps) (auto intro!: obeys_intros part less)
  qed
  show "obeys R (write_at_impl fuel fs ino off d)"
    unfolding write_at_impl_def write_data_def update_file_size_def
    by (intro obeys_intros punch fill part blocks)
  show "obeys R (truncate_inode_impl fuel fs r sz)"
    unfolding truncate_inode_impl_def by (intro obeys_intros)
qed

end


section \<open>Creating\<close>

text \<open>\<open>create\<close> and its variants run \<open>link\<close>, which is journaled itself, inside their own transaction.\<close>

lemma captured_store_and_link:
  assumes "n < 2 ^ 16"
  shows "captured n (store_and_link fs p name c)"
  unfolding store_and_link_def link_def
  by (intro captured_bind captured_nested assms)
    (auto split: prod.split intro!: capturedI captured_bind obeys_intros)

lemma captured_creators:
  assumes "n < 2 ^ 16"
  shows "captured n (create_impl fs p name mode)" "captured n (create_with_attr_impl fs p name mode uid gid)"
    "captured n (create_special_with_attr_impl fs p name mode rdev uid gid)"
  unfolding create_impl_def create_with_attr_impl_def create_special_with_attr_impl_def create_inode_def
  by (intro captured_bind captured_store_and_link assms capturedI obeys_intros)+

section \<open>Properties\<close>

text \<open>C15: The write-ahead rule: while a transaction is open, no operation of the allocators, the extent
  trees, the directories or the files changes the disk or consumes the crash point, and none closes the
  transaction; operations that nest a transaction leave the depth as they found it unless they panic.
  So each of them may be the operation of the atomicity theorems.\<close>

theorem operations_captured:
  assumes "n < 2 ^ 16"
  shows "captured n (ialloc_alloc_inode fs dir) \<and> captured n (ialloc_free_inode fs k dir)
    \<and> captured n (balloc_alloc_block fs r goal) \<and> captured n (balloc_alloc_block_batch fs r start cnt)
    \<and> captured n (balloc_free_blocks fs r b len) \<and> captured n (write_back_inode fs r)
    \<and> captured n (insert_extent fs r e) \<and> captured n (extent_remove_space fuel fs r u v)
    \<and> captured n (append_inode_pblk fs r) \<and> captured n (map_inode_pblk_batch fs r start l cnt unwritten)
    \<and> captured n (dir_add_entry fs r c name) \<and> captured n (dir_remove_entry fs r name)
    \<and> captured n (dir_set_entry_target fs k name l) \<and> captured n (dx_add_entry fs r k name ty)
    \<and> captured n (link_impl fs r c name) \<and> captured n (unlink_impl fs r c name)
    \<and> captured n (create_impl fs k name mode) \<and> captured n (create_with_attr_impl fs k name mode uid gid)
    \<and> captured n (create_special_with_attr_impl fs k name mode rdev uid gid)
    \<and> captured n (write_at_impl fuel fs k off d) \<and> captured n (truncate_inode_impl fuel fs r sz)"
  using captured_creators [OF assms] by (intro conjI) (simp_all add: capturedI obeys_intros)

theorem operations_captured_witness:
  "captured 1 (create_impl tiny_fs 2 [0x61] 0x81A4) \<and> captured 1 (write_at_impl 9 tiny_fs 12 5 [1])"
  using operations_captured [of 1 tiny_fs] by simp

end
