(* ===== verification/Slots.thy ===== *)
theory Slots
  imports Prelude
begin

text \<open>
  Arrays of fixed-size records in a buffer: record \<open>k\<close> of width \<open>w\<close> lies \<open>k * w\<close> bytes past \<open>base\<close>. Both
  trees of the crate keep their entries so and insert by moving the records from a position on up by
  one, from the last one down; \<open>shift_slots\<close> is that loop, and \<open>slots_inserted\<close> says what it is for.
\<close>

definition slot :: "nat \<Rightarrow> nat \<Rightarrow> 'a list \<Rightarrow> nat \<Rightarrow> 'a list" where
  "slot w base d k = slice d (base + k * w) w"

definition slots :: "nat \<Rightarrow> nat \<Rightarrow> 'a list \<Rightarrow> nat \<Rightarrow> 'a list list" where
  "slots w base d n = map (slot w base d) [0..<n]"

definition insert_nth :: "nat \<Rightarrow> 'a \<Rightarrow> 'a list \<Rightarrow> 'a list" where
  "insert_nth pos x xs = take pos xs @ x # drop pos xs"

fun shift_slots :: "nat \<Rightarrow> nat \<Rightarrow> nat list \<Rightarrow> 'a list \<Rightarrow> 'a list" where
  "shift_slots w base [] d = d"
| "shift_slots w base (k # ks) d = shift_slots w base ks (put d (base + (k + 1) * w) (slot w base d k))"

lemma length_slots [simp]: "length (slots w base d n) = n"
  by (simp add: slots_def)

lemma nth_slots [simp]: "k < n \<Longrightarrow> slots w base d n ! k = slot w base d k"
  by (simp add: slots_def)

lemma length_slot: "base + (k + 1) * w \<le> length d \<Longrightarrow> length (slot w base d k) = w"
  by (simp add: slot_def)

lemma slot_put:
  assumes "base + (k + 1) * w \<le> length d" and "base + (j + 1) * w \<le> length d" and "length x = w"
  shows "slot w base (put d (base + k * w) x) j = (if j = k then x else slot w base d j)"
proof (cases j k rule: linorder_cases)
  case less
  then have "Suc j * w \<le> k * w" by (intro mult_le_mono1) simp
  then show ?thesis using less assms by (simp add: slot_def slice_put_below)
next
  case equal
  then show ?thesis using assms by (simp add: slot_def slice_put_same)
next
  case greater
  then have "Suc k * w \<le> j * w" by (intro mult_le_mono1) simp
  then show ?thesis using greater assms by (simp add: slot_def slice_put_above)
qed

lemma length_put_slot: "base + (k + 1) * w \<le> length d \<Longrightarrow> length x = w \<Longrightarrow> length (put d (base + k * w) x) = length d"
  by (simp add: length_put)

lemma slice_put_slot:
  "a + n \<le> base \<Longrightarrow> base + (k + 1) * w \<le> length d \<Longrightarrow> length x = w \<Longrightarrow> slice (put d (base + k * w) x) a n = slice d a n"
  by (simp add: slice_put_below)

lemma shift_slots_spec:
  "pos \<le> c \<Longrightarrow> base + (c + 1) * w \<le> length d \<Longrightarrow>
   length (shift_slots w base (rev [pos..<c]) d) = length d
   \<and> (\<forall>k. base + (k + 1) * w \<le> length d \<longrightarrow> slot w base (shift_slots w base (rev [pos..<c]) d) k =
        (if pos < k \<and> k \<le> c then slot w base d (k - 1) else slot w base d k))
   \<and> (\<forall>a n. a + n \<le> base \<longrightarrow> slice (shift_slots w base (rev [pos..<c]) d) a n = slice d a n)"
proof (induction "c - pos" arbitrary: c d)
  case 0
  then show ?case by auto
next
  case (Suc m)
  then obtain e where c: "c = Suc e" "pos \<le> e" by (cases c) auto
  let ?d = "put d (base + c * w) (slot w base d e)"
  have fit: "base + (e + 1) * w \<le> length d" using Suc.prems(2) c by simp
  have l: "length (slot w base d e) = w" by (rule length_slot [OF fit])
  have d: "length ?d = length d" by (rule length_put_slot [OF Suc.prems(2) l])
  note IH = Suc.hyps(1) [of e ?d, unfolded d]
  have sp: "slot w base ?d k = (if k = c then slot w base d e else slot w base d k)"
    if "base + (k + 1) * w \<le> length d" for k
    by (rule slot_put [OF Suc.prems(2) that l])
  have below: "slot w base ?d (k - 1) = slot w base d (k - 1)" if "pos < k" "k \<le> e" for k
  proof -
    have "base + (k - 1 + 1) * w \<le> base + (e + 1) * w" using that by (intro add_left_mono mult_le_mono1) simp
    from sp [OF order_trans [OF this fit]] show ?thesis using that c by auto
  qed
  show ?case
    using IH Suc.hyps(2) c fit sp below slice_put_slot [OF _ Suc.prems(2) l]
    by (auto simp: le_Suc_eq)
qed

lemma slots_inserted:
  assumes "pos \<le> c" and fit: "base + (c + 1) * w \<le> length d" and x: "length x = w"
  defines "d' \<equiv> put (shift_slots w base (rev [pos..<c]) d) (base + pos * w) x"
  shows "length d' = length d" and "slots w base d' (c + 1) = insert_nth pos x (slots w base d c)"
    and "a + n \<le> base \<Longrightarrow> slice d' a n = slice d a n"
proof -
  let ?s = "shift_slots w base (rev [pos..<c]) d"
  note s = shift_slots_spec [OF assms(1,2)]
  have "(pos + 1) * w \<le> (c + 1) * w" using assms(1) by (intro mult_le_mono1) simp
  then have p: "base + (pos + 1) * w \<le> length ?s" using s fit by linarith
  have le: "base + (k + 1) * w \<le> length d" if "k \<le> c" for k
    by (rule order_trans [OF add_left_mono [OF mult_le_mono1] fit]) (use that in simp)
  show l: "length d' = length d" using length_put_slot [OF p x] s unfolding d'_def by simp
  show "a + n \<le> base \<Longrightarrow> slice d' a n = slice d a n" using slice_put_slot [OF _ p x] s unfolding d'_def by simp
  show "slots w base d' (c + 1) = insert_nth pos x (slots w base d c)"
  proof (rule nth_equalityI)
    fix k
    assume "k < length (slots w base d' (c + 1))"
    then have k: "k \<le> c" by simp
    have "slot w base d' k = (if k = pos then x else slot w base ?s k)"
      unfolding d'_def by (rule slot_put [OF p _ x]) (use le [OF k] s in simp)
    then show "slots w base d' (c + 1) ! k = insert_nth pos x (slots w base d c) ! k"
      using s le [OF k] k assms(1) by (auto simp: insert_nth_def nth_append nth_Cons' min_def)
  qed (use assms(1) in \<open>simp add: insert_nth_def\<close>)
qed

end
