(* ===== verification/HTreeIndex.thy ===== *)
theory HTreeIndex
  imports HTree Slots
begin

text \<open>
  What the index of a hashed directory means. The entries of an index block are a list of hashes and
  blocks (\<open>index_list\<close>); \<open>route\<close> is the block a hash belongs to. The search of a block is \<open>route\<close>, an
  insertion sends exactly the hashes from the new one to the next to the new block, and a split
  divides the keys so that equal ones stay together.
\<close>

section \<open>The entries of a block\<close>

definition entry_of :: "bytes \<Rightarrow> u32 \<times> u32" where
  "entry_of e = (le_get 0 4 e, le_get 4 4 e)"

definition index_list :: "bytes \<Rightarrow> nat \<Rightarrow> nat \<Rightarrow> (u32 \<times> u32) list" where
  "index_list d eo n = map entry_of (slots 8 eo d n)"

fun scan_from :: "u32 \<Rightarrow> u32 \<Rightarrow> (u32 \<times> u32) list \<Rightarrow> u32" where
  "scan_from t blk [] = blk"
| "scan_from t blk ((h, b) # es) = (if t < h then blk else scan_from t b es)"

definition route :: "(u32 \<times> u32) list \<Rightarrow> u32 \<Rightarrow> u32" where
  "route es t = scan_from t (snd (hd es)) (tl es)"

lemma length_index_list [simp]: "length (index_list d eo n) = n"
  by (simp add: index_list_def)

lemma nth_index_list: "k < n \<Longrightarrow> index_list d eo n ! k = entry_of (slot 8 eo d k)"
  by (simp add: index_list_def)

lemma index_list_Cons:
  "index_list d eo (n + 1) = entry_of (slot 8 eo d 0) # map (\<lambda>k. entry_of (slot 8 eo d k)) [1..<n + 1]"
  by (simp add: index_list_def slots_def upt_conv_Cons del: upt_Suc)

lemma dx_get_entry_Ok:
  "eo + (i + 1) * 8 \<le> length d \<Longrightarrow> dx_get_entry d eo i = Ok (entry_of (slot 8 eo d i))"
  by (simp add: dx_get_entry_def get_at_Ok entry_of_def slot_def)

lemma dx_get_entry_list:
  "eo + n * 8 \<le> length d \<Longrightarrow> i < n \<Longrightarrow> dx_get_entry d eo i = Ok (index_list d eo n ! i)"
  by (subst dx_get_entry_Ok) (simp_all add: nth_index_list)

lemma dx_scan_list:
  "eo + n * 8 \<le> length d \<Longrightarrow> i \<le> n \<Longrightarrow>
   dx_scan d eo t [i..<n] blk = Ok (scan_from t blk (drop i (index_list d eo n)))"
proof (induction "n - i" arbitrary: i blk)
  case (Suc m)
  then have i: "i < n" by simp
  then have "drop i (index_list d eo n) = index_list d eo n ! i # drop (Suc i) (index_list d eo n)"
    by (simp add: Cons_nth_drop_Suc)
  moreover have "[i..<n] = i # [Suc i..<n]" using i by (simp add: upt_rec)
  ultimately show ?case
    using Suc dx_get_entry_list [OF Suc.prems(1) i] by (cases "index_list d eo n ! i") simp
qed simp

lemma dx_lookup_route:
  assumes "0 < unat c" and "eo + unat c * 8 \<le> length d"
  shows "dx_lookup d eo c t = Ok (route (index_list d eo (unat c)) t)"
proof -
  have "index_list d eo (unat c) \<noteq> []" using assms(1) by (metis length_index_list list.size(3) less_irrefl)
  then have "hd (index_list d eo (unat c)) = index_list d eo (unat c) ! 0" by (rule hd_conv_nth)
  then show ?thesis
    using dx_get_entry_list [OF assms(2,1)] dx_scan_list [OF assms(2), of 1 t] assms(1)
    by (cases "index_list d eo (unat c) ! 0") (simp add: dx_lookup_def route_def drop_Suc)
qed

section \<open>Insertion\<close>

fun ins :: "u32 \<Rightarrow> u32 \<Rightarrow> (u32 \<times> u32) list \<Rightarrow> (u32 \<times> u32) list" where
  "ins h b [] = [(h, b)]"
| "ins h b (e # es) = (if h < fst e then (h, b) # e # es else e # ins h b es)"

lemma insert_pos_ge: "i \<le> length es \<Longrightarrow> i \<le> insert_pos h es [i..<length es] \<and> insert_pos h es [i..<length es] \<le> length es"
proof (induction "length es - i" arbitrary: i)
  case (Suc m)
  then have "m = length es - Suc i" "Suc i \<le> length es" and e: "[i..<length es] = i # [Suc i..<length es]"
    by (simp_all add: upt_rec)
  from Suc.hyps(1) [OF this(1,2)] show ?case using Suc.prems unfolding e by (cases "h < fst (es ! i)") auto
qed simp

lemma insert_nth_ins:
  "i \<le> length es \<Longrightarrow> insert_nth (insert_pos h es [i..<length es]) (h, b) es = take i es @ ins h b (drop i es)"
proof (induction "length es - i" arbitrary: i)
  case 0
  then show ?case by (simp add: insert_nth_def)
next
  case (Suc m)
  then have i: "i < length es" and e: "[i..<length es] = i # [Suc i..<length es]" by (simp_all add: upt_rec)
  have "drop i es = es ! i # drop (Suc i) es" by (rule Cons_nth_drop_Suc [symmetric, OF i])
  then show ?case
    using Suc.hyps(1) [of "Suc i"] Suc.hyps(2) i e by (auto simp: insert_nth_def take_Suc_conv_app_nth)
qed

lemma insert_entry_ins: "es \<noteq> [] \<Longrightarrow> insert_entry h b es = hd es # ins h b (tl es)"
  using insert_nth_ins [of 1 es h b]
  by (cases es) (simp_all add: insert_entry_def insert_nth_def Let_def)

lemma set_ins: "set (ins h b es) = insert (h, b) (set es)"
  by (induction es) auto

lemma sorted_ins: "sorted (map fst es) \<Longrightarrow> sorted (map fst (ins h b es))"
  by (induction es) (auto simp: set_ins)

lemma scan_ins:
  "sorted (map fst es) \<Longrightarrow>
   scan_from t blk (ins h b es) = (if h \<le> t \<and> (\<forall>e \<in> set es. \<not> (h < fst e \<and> fst e \<le> t)) then b else scan_from t blk es)"
proof (induction es arbitrary: blk)
  case (Cons e es)
  then show ?case by (cases e) (auto split: if_splits)
qed auto

lemma route_insert_entry:
  "es \<noteq> [] \<Longrightarrow> sorted (map fst (tl es)) \<Longrightarrow>
   route (insert_entry h b es) t =
     (if h \<le> t \<and> (\<forall>e \<in> set (tl es). \<not> (h < fst e \<and> fst e \<le> t)) then b else route es t)"
  by (auto simp: insert_entry_ins route_def scan_ins)

lemma position_in_index_list:
  assumes "eo + n * 8 \<le> length d" and "set ks \<subseteq> {..<n}"
  shows "position_in_index d eo h n ks = Ok (insert_pos h (index_list d eo n) ks)"
  using assms(2)
proof (induction ks)
  case (Cons i ks)
  then show ?case
    using dx_get_entry_list [OF assms(1), of i] by (cases "index_list d eo n ! i") simp
qed simp

lemma entry_bytes:
  "length e = 8 \<Longrightarrow> le_bytes 4 (fst (entry_of e)) @ le_bytes 4 (snd (entry_of e)) = e"
  by (simp add: entry_of_def le_get_def endian_simps slice_def)

lemma shift_entries_slots:
  "(\<And>k. k \<in> set ks \<Longrightarrow> eo + (k + 2) * 8 \<le> length d) \<Longrightarrow> shift_entries d eo ks = Ok (shift_slots 8 eo ks d)"
proof (induction ks arbitrary: d)
  case (Cons i ks)
  have fit: "eo + (i + 1 + 1) * 8 \<le> length d" using Cons.prems [of i] by simp
  let ?e = "slot 8 eo d i"
  have l: "length ?e = 8" using fit by (simp add: slot_def)
  have d: "length (put d (eo + (i + 1) * 8) ?e) = length d" by (rule length_put_slot [OF fit l])
  have "dx_get_entry d eo i = Ok (entry_of ?e)" by (rule dx_get_entry_Ok) (use fit in simp)
  moreover have "dx_set_entry d eo (i + 1) (fst (entry_of ?e)) (snd (entry_of ?e)) = Ok (put d (eo + (i + 1) * 8) ?e)"
    using fit by (simp add: dx_set_entry_def entry_bytes [OF l] put_at_def l)
  ultimately show ?case
    using Cons.IH [of "put d (eo + (i + 1) * 8) ?e", unfolded d] Cons.prems by (simp add: case_prod_beta)
qed simp

lemma insert_in_index_list:
  fixes d eo n h b
  defines "es \<equiv> index_list d eo n"
  assumes n: "0 < n" and fit: "eo + (n + 1) * 8 \<le> length d"
  shows "\<exists>d'. insert_in_index d eo n h b = Ok d' \<and> length d' = length d
    \<and> route (index_list d' eo (n + 1)) = route (insert_entry h b es)
    \<and> tl (index_list d' eo (n + 1)) = tl (insert_entry h b es)
    \<and> dx_count d' eo = Ok (of_nat (n + 1)) \<and> dx_limit d' eo = dx_limit d eo"
proof -
  define p where "p = insert_pos h es [1..<n]"
  have len: "length es = n" by (simp add: es_def)
  have p: "1 \<le> p" "p \<le> n" using insert_pos_ge [of 1 es h] len n by (auto simp: p_def)
  let ?x = "le_bytes 4 h @ le_bytes 4 b"
  let ?s = "shift_slots 8 eo (rev [p..<n]) d"
  let ?d = "put ?s (eo + p * 8) ?x"
  let ?d' = "put ?d (eo + 2) (le_bytes 2 (of_nat (n + 1) :: u16))"
  have x: "length ?x = 8" "entry_of ?x = (h, b)"
    by (simp_all add: entry_of_def le_get_def slice_append_left slice_append_right slice_all le_word_le_bytes)
  have ls: "length ?s = length d" using shift_slots_spec [OF p(2) fit] by simp
  have pfit: "eo + (p + 1) * 8 \<le> length d" using p fit by simp
  note ins = slots_inserted [OF p(2) fit x(1)]
  have ld: "length ?d = length d" by (rule ins(1))
  have entries: "index_list ?d eo (n + 1) = insert_entry h b es"
    unfolding index_list_def ins(2)
    by (simp add: es_def index_list_def insert_entry_def insert_nth_def p_def take_map drop_map x Let_def)
  have "slot 8 eo ?d 0 = slots 8 eo ?d (n + 1) ! 0" by simp
  also have "\<dots> = slot 8 eo d 0" using p n unfolding ins(2) by (simp add: insert_nth_def nth_append)
  finally have slot0: "slice ?d eo 8 = slice d eo 8" by (simp add: slot_def)
  have fit': "eo + 4 \<le> length ?d" "eo + 2 + length (le_bytes 2 (of_nat (n + 1) :: u16)) \<le> length ?d"
    using fit unfolding ld by simp_all
  have above: "slot 8 eo ?d' k = slot 8 eo ?d k" if "0 < k" for k
    unfolding slot_def by (rule slice_put_above) (use that fit' in simp_all)
  have low: "le_get 4 4 (slot 8 eo ?d' 0) = le_get 4 4 (slot 8 eo ?d 0)"
    using fit' by (simp add: le_get_def slot_def slice_slice slice_put_above)
  have "map (\<lambda>k. entry_of (slot 8 eo ?d' k)) [1..<n + 1] = map (\<lambda>k. entry_of (slot 8 eo ?d k)) [1..<n + 1]"
    by (rule map_cong) (use above in auto)
  then have tl: "tl (index_list ?d' eo (n + 1)) = tl (index_list ?d eo (n + 1))"
    and hd: "snd (hd (index_list ?d' eo (n + 1))) = snd (hd (index_list ?d eo (n + 1)))"
    using low unfolding index_list_Cons by (simp_all add: entry_of_def del: upt_Suc)
  have cl: "dx_count ?d' eo = Ok (of_nat (n + 1))" "dx_limit ?d' eo = dx_limit d eo"
    using fit' ld arg_cong [OF slot0, of "\<lambda>z. slice z 0 2"] fit
    by (simp_all add: dx_count_def dx_limit_def get_at_def slice_put_same slice_put_below length_put le_word_le_bytes slice_slice)
  have run: "insert_in_index d eo n h b = Ok ?d'"
    using position_in_index_list [of eo n d "[1..<n]" h] shift_entries_slots [of "rev [p..<n]" eo d] fit pfit ls ld p x
    by (simp add: insert_in_index_def dx_set_entry_def dx_set_count_def put_at_def es_def atLeastLessThan_def len p_def)
  moreover have "length ?d' = length d" using fit' ld by (simp add: length_put)
  moreover have "route (index_list ?d' eo (n + 1)) = route (insert_entry h b es)"
    using tl hd entries by (simp add: route_def fun_eq_iff)
  ultimately show ?thesis using tl entries cl by auto
qed


text \<open>C40: Entering a block in an index block that has room and whose hashes are in order keeps the order,
  raises the count by one, keeps the limit and reroutes exactly the hashes from the new one up to the
  next entry to the new block; every other hash goes where it went.\<close>

theorem insert_in_index_routes:
  fixes d eo c l h b
  defines "later \<equiv> tl (index_list d eo (unat c))"
  assumes count: "dx_count d eo = Ok c" and limit: "dx_limit d eo = Ok l" and room: "0 < c" "c < l"
    and fit: "eo + unat l * 8 \<le> length d" and sorted: "sorted (map fst later)"
  shows "\<exists>d'. insert_in_index d eo (unat c) h b = Ok d'
    \<and> dx_count d' eo = Ok (c + 1) \<and> dx_limit d' eo = Ok l
    \<and> sorted (map fst (tl (index_list d' eo (unat (c + 1)))))
    \<and> (\<forall>t. dx_lookup d' eo (c + 1) t =
          (if h \<le> t \<and> (\<forall>(k, _) \<in> set later. \<not> (h < k \<and> k \<le> t)) then Ok b else dx_lookup d eo c t))"
proof -
  have c: "0 < unat c" "unat c < unat l" using room by (simp_all add: word_less_nat_alt)
  have c1: "unat (c + 1) = unat c + 1" using unat_Suc_less [OF c(2)] by simp
  have "(unat c + 1) * 8 \<le> unat l * 8" using c by (intro mult_le_mono1) simp
  then have f1: "eo + (unat c + 1) * 8 \<le> length d" using fit by linarith
  then have f0: "eo + unat c * 8 \<le> length d" by simp
  have ne: "index_list d eo (unat c) \<noteq> []" using c(1) by (metis length_index_list list.size(3) less_irrefl)
  obtain d' where d': "insert_in_index d eo (unat c) h b = Ok d'" "length d' = length d"
    "route (index_list d' eo (unat c + 1)) = route (insert_entry h b (index_list d eo (unat c)))"
    "tl (index_list d' eo (unat c + 1)) = ins h b later"
    "dx_count d' eo = Ok (of_nat (unat c + 1))" "dx_limit d' eo = dx_limit d eo"
    using insert_in_index_list [OF c(1) f1, of h b] insert_entry_ins [OF ne] by (auto simp: later_def)
  have "dx_lookup d' eo (c + 1) t =
      (if h \<le> t \<and> (\<forall>(k, _) \<in> set later. \<not> (h < k \<and> k \<le> t)) then Ok b else dx_lookup d eo c t)" for t
    using dx_lookup_route [OF c(1) f0, of t] dx_lookup_route [of "c + 1" eo d' t] c1 f1 d'(2,3)
      route_insert_entry [OF ne, of h b t] sorted
    by (auto simp: later_def case_prod_beta)
  then show ?thesis using d' limit c1 sorted_ins [OF sorted] by auto
qed

text \<open>A node with three entries out of at most five: hashes from 0x50 on go to block 9.\<close>

definition sample_index :: bytes where
  "sample_index = replicate 8 0 @ [5, 0, 3, 0, 7, 0, 0, 0] @ [0x40, 0, 0, 0, 8, 0, 0, 0] @ [0x80, 0, 0, 0, 9, 0, 0, 0]
     @ replicate 16 0"

theorem insert_in_index_routes_witness:
  "\<exists>d'. insert_in_index sample_index 8 3 0x50 4 = Ok d' \<and> dx_lookup d' 8 4 0x50 = Ok 4 \<and> dx_lookup d' 8 4 0x4F = Ok 8
    \<and> dx_lookup d' 8 4 0x80 = Ok 9"
proof -
  have h: "dx_count sample_index 8 = Ok 3" "dx_limit sample_index 8 = Ok 5" "(0 :: u16) < 3" "(3 :: u16) < 5"
    "8 + unat (5 :: u16) * 8 \<le> length sample_index" "sorted (map fst (tl (index_list sample_index 8 (unat (3 :: u16)))))"
    by code_simp+
  have old: "dx_lookup sample_index 8 3 0x4F = Ok 8" "dx_lookup sample_index 8 3 0x80 = Ok 9"
    "tl (index_list sample_index 8 (unat (3 :: u16))) = [(0x40, 8), (0x80, 9)]"
    by code_simp+
  show ?thesis using insert_in_index_routes [OF h, of "0x50" 4] old by auto
qed

section \<open>Splitting\<close>

definition joined :: "u32 list \<Rightarrow> nat \<Rightarrow> bool" where
  "joined keys k \<longleftrightarrow> keys ! k = keys ! (k - 1)"

lemma split_joined:
  "split_up keys mid = (if mid < length keys \<and> joined keys mid then split_up keys (mid + 1) else mid)"
  "split_down keys (Suc mid) = (if joined keys (Suc mid) then split_down keys mid else Suc mid)"
  by (subst split_up.simps) (simp_all add: joined_def)

lemma split_up_spec:
  "mid \<le> length keys \<Longrightarrow>
   mid \<le> split_up keys mid \<and> split_up keys mid \<le> length keys
   \<and> (\<forall>k. mid \<le> k \<and> k < split_up keys mid \<longrightarrow> joined keys k)
   \<and> (split_up keys mid < length keys \<longrightarrow> \<not> joined keys (split_up keys mid))"
proof (induction keys mid rule: split_up.induct)
  case (1 keys mid)
  show ?case
  proof (cases "mid < length keys \<and> joined keys mid")
    case True
    then have up: "split_up keys mid = split_up keys (mid + 1)" by (simp add: split_joined(1) [of keys mid])
    have "mid < length keys \<and> keys ! mid = keys ! (mid - 1)" using True by (simp add: joined_def)
    from "1.IH" [OF this] True show ?thesis unfolding up by (auto simp: le_eq_less_or_eq [of mid])
  next
    case False
    then have "split_up keys mid = mid" by (auto simp: split_joined(1) [of keys mid])
    then show ?thesis using 1 False by auto
  qed
qed

lemma split_down_spec:
  "split_down keys mid \<le> mid \<and> (\<forall>k. split_down keys mid < k \<and> k \<le> mid \<longrightarrow> joined keys k)
   \<and> (0 < split_down keys mid \<longrightarrow> \<not> joined keys (split_down keys mid))"
proof (induction mid)
  case (Suc mid)
  then show ?case unfolding split_joined(2) by (auto simp: le_Suc_eq)
qed simp

lemma joined_run:
  "(\<And>k. lo < k \<Longrightarrow> k < hi \<Longrightarrow> joined keys k) \<Longrightarrow> lo \<le> k \<Longrightarrow> k < hi \<Longrightarrow> keys ! k = keys ! lo"
proof (induction "k - lo" arbitrary: k)
  case (Suc n)
  then have "lo < k" by simp
  then have "keys ! (k - 1) = keys ! lo" using Suc.hyps(2) Suc.prems by (intro Suc.hyps(1)) auto
  then show ?case using Suc.prems(1) [OF \<open>lo < k\<close> Suc.prems(3)] by (simp add: joined_def)
qed simp

lemma not_joined_split:
  assumes "sorted keys" and "0 < m" "m < length keys" and "\<not> joined keys m" and "i < m" and "m \<le> j" "j < length keys"
  shows "keys ! i < keys ! j"
proof -
  have "keys ! i \<le> keys ! (m - 1)" "keys ! (m - 1) \<le> keys ! m" "keys ! m \<le> keys ! j"
    using assms by (auto intro!: sorted_nth_mono)
  then show ?thesis using assms(4) by (simp add: joined_def)
qed

text \<open>C27: The point at which a full leaf or index node is split. For keys in order, two or more, it lies
  inside and every key below it is smaller than every key from it on, so the halves cover separate
  ranges of hashes and equal hashes stay together; it fails with \<open>ENOSPC\<close> exactly when all keys are
  equal, and never reads out of range.\<close>

theorem split_point_correct:
  assumes "sorted keys" and n: "2 \<le> length keys"
  shows "(\<exists>m. split_point keys = Ok m \<and> 0 < m \<and> m < length keys
      \<and> (\<forall>i < m. \<forall>j. m \<le> j \<and> j < length keys \<longrightarrow> keys ! i < keys ! j))
    \<or> (split_point keys = Err ENOSPC \<and> (\<forall>i < length keys. keys ! i = keys ! 0))"
proof -
  let ?h = "length keys div 2"
  let ?u = "split_up keys ?h" let ?d = "split_down keys ?h"
  have h: "0 < ?h" "?h < length keys" using n by auto
  note u = split_up_spec [OF less_imp_le [OF h(2)]] and d = split_down_spec [of keys ?h]
  consider "?u < length keys" | "\<not> ?u < length keys" "0 < ?d" | "\<not> ?u < length keys" "?d = 0" by blast
  then show ?thesis
  proof cases
    case 1
    then show ?thesis using u h not_joined_split [OF assms(1), of ?u]
      by (intro disjI1 exI [of _ ?u]) (auto simp: split_point_def Let_def)
  next
    case 2
    then show ?thesis using d h not_joined_split [OF assms(1), of ?d]
      by (intro disjI1 exI [of _ ?d]) (auto simp: split_point_def Let_def)
  next
    case 3
    then have "joined keys k" if "0 < k" "k < length keys" for k
      using that u d by (cases "k \<le> ?h") auto
    then have "\<forall>i < length keys. keys ! i = keys ! 0" using joined_run [of 0 "length keys" keys] by blast
    then show ?thesis using 3 n by (intro disjI2) (simp add: split_point_def Let_def)
  qed
qed

theorem split_point_correct_witness:
  "\<exists>m. split_point [1, 4, 4, 4, 9] = Ok m
    \<and> (\<forall>i < m. \<forall>j. m \<le> j \<and> j < 5 \<longrightarrow> [1, 4, 4, 4, 9] ! i < ([1, 4, 4, 4, 9] :: u32 list) ! j)"
proof -
  let ?k = "[1, 4, 4, 4, 9] :: u32 list"
  have "sorted ?k" "2 \<le> length ?k" "?k ! 1 \<noteq> ?k ! 0" "1 < length ?k" by simp_all
  then show ?thesis using split_point_correct [of ?k] by (auto dest: spec [of _ 1])
qed

end
