(* ===== verification/HTreeLeaf.thy ===== *)
theory HTreeLeaf
  imports HTreeIndex
begin

text \<open>
  The leaves of a hashed directory: \<open>dx_write_leaf\<close> lays entries out so that \<open>dx_read_leaf_entries\<close> gives
  them back, and what lies in the block maps their names to their inodes.
\<close>

text \<open>What \<open>dx_write_leaf\<close> lays out: every entry at its aligned length, the last one up to the tail.\<close>

fun leaf_entries :: "nat \<Rightarrow> nat \<Rightarrow> dx_item list \<Rightarrow> dirent list" where
  "leaf_entries lim off [] = []"
| "leaf_entries lim off ((name, ino, ty) # rest) =
     fresh_entry name ino (ty AND 7) (if rest = [] then lim - off else aligned_de_len (length name))
     # leaf_entries lim (off + aligned_de_len (length name)) rest"

definition leaf_size :: "dx_item list \<Rightarrow> nat" where
  "leaf_size items = sum_list (map (\<lambda>(name, _). aligned_de_len (length name)) items)"

definition leaf_item :: "dx_item \<Rightarrow> bool" where
  "leaf_item = (\<lambda>(name, ino, ty). name \<noteq> [] \<and> length name \<le> 255 \<and> utf8_valid name
     \<and> name \<noteq> [0x2E] \<and> name \<noteq> [0x2E, 0x2E] \<and> ino \<noteq> 0 \<and> ty AND 7 = ty)"

lemma leaf_size_simps [simp]:
  "leaf_size [] = 0" "leaf_size ((name, x) # items) = aligned_de_len (length name) + leaf_size items"
  by (simp_all add: leaf_size_def)

lemma aligned_de_len_bounds: "8 + n \<le> aligned_de_len n" "aligned_de_len n mod 4 = 0" "aligned_de_len n \<le> 11 + n"
  unfolding aligned_de_len_def Let_def by presburger+

lemma write_items_holds:
  "items \<noteq> [] \<Longrightarrow> \<forall>it \<in> set items. leaf_item it \<Longrightarrow> off mod 4 = 0 \<Longrightarrow> lim mod 4 = 0 \<Longrightarrow> lim < 2 ^ 16 \<Longrightarrow>
   off + leaf_size items \<le> lim \<Longrightarrow> off + leaf_size (butlast items) + 264 \<le> length data \<Longrightarrow>
   \<exists>d. write_items lim data off items = Ok d \<and> length d = length data \<and> (\<forall>i < off. d ! i = data ! i)
     \<and> holds d off (leaf_entries lim off items) lim"
proof (induction items arbitrary: off data)
  case (Cons it rest)
  obtain name ino ty where it: "it = (name, ino, ty)" by (cases it)
  let ?m = "aligned_de_len (length name)"
  let ?r = "if rest = [] then lim - off else ?m"
  let ?e = "fresh_entry name ino (ty AND 7) ?r"
  note al = aligned_de_len_bounds [of "length name"]
  have name: "length name \<le> 255" using Cons.prems(2) it by (simp add: leaf_item_def)
  have r: "8 + length name \<le> ?r" "?r mod 4 = 0" "?r < 2 ^ 16" "usize_sub lim off = lim - off"
    using al name Cons.prems it by (auto simp: usize_sub_le)
  obtain w where w: "write_entry (of_nat ?r) ino name (ty AND 7) default_dir_entry = Ok w" "length w = 264" "entry_at w 0 ?e"
    by (rule write_entry_default [OF name r(1-3)])
  have fit: "off + 264 \<le> length data" using Cons.prems(7) by simp
  let ?d = "put data off w"
  have d: "length ?d = length data" using fit w(2) by (simp add: length_put)
  have e: "entry_at ?d off ?e" by (rule entry_at_put [OF fit w(2) _ w(3)]) (use name in \<open>simp add: fresh_entry_def\<close>)
  have low: "?d ! i = data ! i" if "i < off" for i using that fit w(2) by (simp add: nth_put)
  have step: "write_items lim data off (it # rest) = write_items lim ?d (off + ?m) rest"
    using w fit r(4) by (simp add: it de_copy_to_slice_def Let_def split: if_splits)
  show ?case
  proof (cases "rest = []")
    case True
    then show ?thesis using step d low e Cons.prems(6) it by (simp add: fresh_entry_def)
  next
    case False
    have "\<exists>d'. write_items lim ?d (off + ?m) rest = Ok d' \<and> length d' = length ?d
        \<and> (\<forall>i < off + ?m. d' ! i = ?d ! i) \<and> holds d' (off + ?m) (leaf_entries lim (off + ?m) rest) lim"
      by (rule Cons.IH [OF False]) (use Cons.prems al False it d in \<open>simp_all add: mod_add_eq [symmetric]\<close>)
    then obtain d' where d': "write_items lim ?d (off + ?m) rest = Ok d'" "length d' = length ?d"
        "\<forall>i < off + ?m. d' ! i = ?d ! i" "holds d' (off + ?m) (leaf_entries lim (off + ?m) rest) lim" by blast
    have "entry_at d' off ?e"
      by (rule entry_at_cong [OF d'(2) [symmetric] _ e]) (use False d'(3) in \<open>simp add: fresh_entry_def\<close>)
    then show ?thesis using False step d d' low al(1) it by (simp add: fresh_entry_def)
  qed
qed simp

text \<open>Reading a block gives its entries but those of the directory itself and its parent.\<close>

definition item_of :: "dirent \<Rightarrow> dx_item" where
  "item_of e = (e_name e, e_ino e, e_type e)"

definition listed_item :: "dirent \<Rightarrow> bool" where
  "listed_item e \<longleftrightarrow> used e \<and> e_name e \<noteq> [] \<and> e_name e \<noteq> [0x2E] \<and> e_name e \<noteq> [0x2E, 0x2E]"

lemma read_items_holds:
  "holds data off es lim \<Longrightarrow> \<forall>e \<in> set es. used e \<longrightarrow> utf8_valid (e_name e) \<Longrightarrow>
   read_items lim data off = Ok (map item_of (filter listed_item es))"
proof (induction es arbitrary: off)
  case Nil
  then show ?case by (simp add: read_items.simps)
next
  case (Cons e es)
  have e: "entry_at data off e" using Cons.prems by simp
  have "off < lim" using holds_end [OF Cons.prems(1)] entry_rec_pos [OF e] by simp
  moreover have "get_name (slice data off 264) = Ok (e_name e)" if "used e"
    using that Cons.prems(2) read_entry [OF e] by (simp add: get_name_def)
  moreover have "0 < de_name_len (slice data off 264) \<longleftrightarrow> e_name e \<noteq> []"
    using read_entry(5) [OF e] by (simp add: word_less_nat_alt)
  ultimately show ?case
    using Cons.IH [of "off + e_rec e"] Cons.prems read_entry [OF e] entry_rec_pos [OF e]
    by (subst read_items.simps) (auto simp: Let_def listed_item_def [of e] item_of_def [of e])
qed

lemma leaf_entries_items: "\<forall>it \<in> set items. leaf_item it \<Longrightarrow> map item_of (filter listed_item (leaf_entries lim off items)) = items"
  by (induction lim off items rule: leaf_entries.induct)
    (auto simp: leaf_item_def listed_item_def item_of_def fresh_entry_def used_def)

lemma leaf_entries_used: "\<forall>it \<in> set items. leaf_item it \<Longrightarrow> e \<in> set (leaf_entries lim off items) \<Longrightarrow> used e \<and> utf8_valid (e_name e)"
  by (induction lim off items rule: leaf_entries.induct) (auto simp: leaf_item_def fresh_entry_def used_def)

lemma names_leaf_entries:
  "\<forall>it \<in> set items. leaf_item it \<Longrightarrow> names (leaf_entries lim off items) = map_of (map (\<lambda>(name, ino, _). (name, ino)) items)"
  by (induction lim off items rule: leaf_entries.induct)
    (auto simp: names_Cons leaf_item_def fresh_entry_def used_def)

lemma distinct_leaf_entries:
  "\<forall>it \<in> set items. leaf_item it \<Longrightarrow> map e_name (filter used (leaf_entries lim off items)) = map fst items"
  by (induction lim off items rule: leaf_entries.induct) (auto simp: leaf_item_def fresh_entry_def used_def)

lemma write_items_block:
  assumes "length data = bs" and "bs mod 4 = 0" and "276 \<le> bs" and "bs - 12 < 2 ^ 16"
    and items: "\<forall>it \<in> set items. leaf_item it" and fits: "leaf_size items \<le> bs - 12" "leaf_size (butlast items) + 264 \<le> bs"
  obtains d es where "(if items = []
            then bind (write_entry (of_nat (bs - 12)) 0 [] 0 default_dir_entry) (\<lambda>de. de_copy_to_slice de data 0)
            else write_items (bs - 12) data 0 items) = Ok d"
    "length d = bs" "holds d 0 es (bs - 12)" "map item_of (filter listed_item es) = items"
    "\<forall>e \<in> set es. used e \<longrightarrow> utf8_valid (e_name e)"
    "map e_name (filter used es) = map fst items" "names es = map_of (map (\<lambda>(name, ino, _). (name, ino)) items)"
proof (cases "items = []")
  case True
  let ?e = "fresh_entry [] 0 0 (bs - 12)"
  have n: "8 + length ([] :: bytes) \<le> bs - 12" "(bs - 12) mod 4 = 0" using assms(2,3) by (simp, presburger)
  obtain w where w: "write_entry (of_nat (bs - 12)) 0 [] 0 default_dir_entry = Ok w" "length w = 264" "entry_at w 0 ?e"
    by (rule write_entry_default [OF _ n assms(4)]) simp
  have "entry_at (put data 0 w) 0 ?e"
    by (rule entry_at_put [OF _ w(2) _ w(3)]) (use assms(1,3) in \<open>simp_all add: fresh_entry_def\<close>)
  then show ?thesis
    using True w assms(1,3) by (intro that [of "put data 0 w" "[?e]"])
      (simp_all add: de_copy_to_slice_def length_put fresh_entry_def names_Cons used_def listed_item_def)
next
  case False
  have m: "(bs - 12) mod 4 = 0" using assms(2,3) by presburger
  obtain d where d: "write_items (bs - 12) data 0 items = Ok d" "length d = length data"
      "holds d 0 (leaf_entries (bs - 12) 0 items) (bs - 12)"
    using write_items_holds [OF False items, of 0 "bs - 12" data] assms(1,4) fits m by auto
  show ?thesis
    by (rule that [of d "leaf_entries (bs - 12) 0 items"])
      (use False d assms(1) items leaf_entries_items leaf_entries_used distinct_leaf_entries names_leaf_entries in auto)
qed

text \<open>C28: A leaf of a hashed directory, written with entries that fit (names of 1 to 255 bytes, not the
  two dots, distinct), reads back as exactly these entries; the block maps every name to its inode and
  its tail has the checksum of the block.\<close>

theorem dx_leaf_roundtrip:
  fixes fs data items ino gen bs
  assumes "length (fs_sb fs) = 1024" and bs: "fs_block_size fs = bs"
    and "length data = bs" and "bs mod 4 = 0" and "276 \<le> bs" and "bs - 12 < 2 ^ 16"
    and items: "\<forall>it \<in> set items. leaf_item it" and "distinct (map fst items)"
    and "leaf_size items \<le> bs - 12" and "leaf_size (butlast items) + 264 \<le> bs"
  shows "\<exists>d. dx_write_leaf fs data items ino gen = Ok d
    \<and> dx_read_leaf_entries bs d = Ok items
    \<and> block_rel bs d (map_of (map (\<lambda>(name, ino, _). (name, ino)) items))
    \<and> ext4_dir_block_csum (fs_sb fs) ino gen d = Ok (tail_checksum (slice d (bs - 12) 12))"
proof -
  let ?z = "replicate (length data) 0 :: bytes"
  obtain d es where d: "(if items = []
            then bind (write_entry (of_nat (bs - 12)) 0 [] 0 default_dir_entry) (\<lambda>de. de_copy_to_slice de ?z 0)
            else write_items (bs - 12) ?z 0 items) = Ok d"
    "length d = bs" "holds d 0 es (bs - 12)" "map item_of (filter listed_item es) = items"
    "\<forall>e \<in> set es. used e \<longrightarrow> utf8_valid (e_name e)"
    "map e_name (filter used es) = map fst items" "names es = map_of (map (\<lambda>(name, ino, _). (name, ino)) items)"
    by (rule write_items_block [of ?z bs items]) (use assms in auto)
  let ?t = "put d (bs - 12) tail_new"
  have t: "length tail_new = 12" by (simp add: tail_new_def)
  have lt: "length ?t = bs" using d(2) t assms(5) by (simp add: length_put)
  have same: "?t ! i = d ! i" if "i < bs - 12" for i using that d(2) t assms(5) by (simp add: nth_put)
  obtain u where u: "dir_set_csum (fs_sb fs) ?t ino gen = Ok u" "length u = length ?t"
    "\<And>i. i < length ?t - 12 \<Longrightarrow> u ! i = ?t ! i"
    "ext4_dir_block_csum (fs_sb fs) ino gen u = Ok (tail_checksum (slice u (length u - 12) 12))"
    by (rule dir_set_csum_stamp [OF assms(1), of ?t ino gen]) (use lt assms(5) bs in \<open>auto simp: fs_block_size_def\<close>)
  have h: "holds u 0 es (bs - 12)"
    by (rule holds_cong [OF d(3)]) (use u(2,3) lt d(2) same in auto)
  have "tail_copy_to_slice tail_new d = Ok ?t" using d(2) assms(5) by (simp add: tail_copy_to_slice_def)
  then have "dx_write_leaf fs data items ino gen = Ok u"
    using d(1) u(1) assms(2) by (simp add: dx_write_leaf_def Let_def)
  moreover have "dx_read_leaf_entries bs u = Ok items"
    using read_items_holds [OF h d(5)] d(4) by (simp add: dx_read_leaf_entries_def)
  moreover have "block_rel bs u (map_of (map (\<lambda>(name, ino, _). (name, ino)) items))"
    unfolding block_rel_def distinct_names_def using u(2) lt assms(6,8) h d(6,7) by metis
  ultimately show ?thesis using u lt by auto
qed

theorem dx_leaf_roundtrip_witness:
  "\<exists>d. dx_write_leaf \<lparr> fs_sb = wide_sb, fs_zones = None, fs_journal = None \<rparr> (replicate 2048 7)
        [([0x61], 11, 1), ([0x62, 0x63], 12, 2)] 2 0 = Ok d
    \<and> dx_read_leaf_entries 2048 d = Ok [([0x61], 11, 1), ([0x62, 0x63], 12, 2)]"
proof -
  let ?fs = "\<lparr> fs_sb = wide_sb, fs_zones = None, fs_journal = None \<rparr>"
  let ?it = "[([0x61], 11, 1), ([0x62, 0x63], 12, 2)] :: dx_item list"
  have "\<forall>it \<in> set ?it. leaf_item it" "distinct (map fst ?it)" "leaf_size ?it \<le> 2048 - 12" "leaf_size (butlast ?it) + 264 \<le> 2048"
    by code_simp+
  then show ?thesis using dx_leaf_roundtrip [of ?fs 2048 "replicate 2048 7" ?it 2 0] by (auto simp: fs_block_size_def)
qed

end
