(* ===== verification/Xattr.thy ===== *)
theory Xattr
  imports DirEntry "HOL-Library.Multiset"
begin

text \<open>
  The format of extended attributes (\<open>src/src/ext4_impls/xattr.rs\<close>): names and name spaces, the region
  of entries and values that an inode body or a block holds, its writer and its parser. The operations on
  the device are in \<open>XattrOps\<close>.

  \<open>serialize_region\<close> and \<open>serialize_block\<close> lay entries out in one loop of the same shape; they share
  \<open>lay_entries\<close>, whose arguments \<open>inum_of\<close> and \<open>hash_of\<close> are the value inode and the hash that an entry
  gets. A region has neither: both fields keep the zeros that the region is made of.
\<close>

unbundle bit_operations_syntax

section \<open>The code\<close>

definition EXT4_XATTR_MAGIC :: u32 where "EXT4_XATTR_MAGIC = 0xEA020000"
definition ENTRY_FIXED :: nat where "ENTRY_FIXED = 16"
definition XATTR_PAD :: nat where "XATTR_PAD = 4"
definition BLOCK_HDR :: nat where "BLOCK_HDR = 32"

record parsed_xattr =
  px_index :: u8
  px_name :: bytes
  px_value :: bytes
  px_inum :: u32
  px_size :: nat

definition entry_len :: "nat \<Rightarrow> nat" where
  "entry_len name_len = (ENTRY_FIXED + name_len + XATTR_PAD - 1) div XATTR_PAD * XATTR_PAD"

definition value_pad :: "nat \<Rightarrow> nat" where
  "value_pad n = (n + XATTR_PAD - 1) div XATTR_PAD * XATTR_PAD"

text \<open>The order of entries: by name space, then by the bytes of the name. The sort is stable.\<close>

fun name_le :: "bytes \<Rightarrow> bytes \<Rightarrow> bool" where
  "name_le [] ys = True"
| "name_le (x # xs) [] = False"
| "name_le (x # xs) (y # ys) = (x < y \<or> x = y \<and> name_le xs ys)"

definition attr_le :: "parsed_xattr \<Rightarrow> parsed_xattr \<Rightarrow> bool" where
  "attr_le a b \<longleftrightarrow> px_index a < px_index b \<or> px_index a = px_index b \<and> name_le (px_name a) (px_name b)"

fun insert_attr :: "parsed_xattr \<Rightarrow> parsed_xattr list \<Rightarrow> parsed_xattr list" where
  "insert_attr a [] = [a]"
| "insert_attr a (b # bs) = (if attr_le a b then a # b # bs else b # insert_attr a bs)"

definition sort_attrs :: "parsed_xattr list \<Rightarrow> parsed_xattr list" where
  "sort_attrs attrs = foldr insert_attr attrs []"

text \<open>The record of an entry.\<close>

definition xattr_entry_bytes :: "parsed_xattr \<Rightarrow> u16 \<Rightarrow> u32 \<Rightarrow> u32 \<Rightarrow> bytes" where
  "xattr_entry_bytes a value_offs inum hash =
     [of_nat (length (px_name a)), px_index a] @ le_bytes 2 value_offs @ le_bytes 4 inum
     @ le_bytes 4 (of_nat (length (px_value a)) :: u32) @ le_bytes 4 hash @ px_name a"

fun lay_entries ::
  "(parsed_xattr \<Rightarrow> u32) \<Rightarrow> (parsed_xattr \<Rightarrow> u32) \<Rightarrow> bytes \<Rightarrow> nat \<Rightarrow> nat \<Rightarrow> parsed_xattr list \<Rightarrow> bytes option" where
  "lay_entries inum_of hash_of region entry_off value_end [] = Some region"
| "lay_entries inum_of hash_of region entry_off value_end (a # attrs) =
     (let elen = entry_len (length (px_name a));
          in_inode = inum_of a \<noteq> 0;
          vpad = (if in_inode then 0 else value_pad (length (px_value a))) in
      if value_end - vpad < entry_off + elen + 4 then None
      else let inline = (\<not> in_inode \<and> px_value a \<noteq> []);
               voff = value_end - vpad;
               region = (if inline then put region voff (px_value a) else region);
               region = put region entry_off (xattr_entry_bytes a (if inline then of_nat voff else 0) (inum_of a) (hash_of a))
        in lay_entries inum_of hash_of region (entry_off + elen) (if inline then voff else value_end) attrs)"

definition serialize_region :: "parsed_xattr list \<Rightarrow> nat \<Rightarrow> bytes option" where
  "serialize_region attrs region_len =
     lay_entries (\<lambda>_. 0) (\<lambda>_. 0) (replicate region_len 0) 0 region_len (sort_attrs attrs)"

fun words4 :: "bytes \<Rightarrow> u32 list" where
  "words4 (a # b # c # d # rest) = le_word [a, b, c, d] # words4 rest"
| "words4 _ = []"

definition fold_hash :: "nat \<Rightarrow> u32 \<Rightarrow> u32 \<Rightarrow> u32" where
  "fold_hash shift hash w = (push_bit shift hash XOR drop_bit (32 - shift) hash) XOR w"

definition hash_entry :: "bytes \<Rightarrow> bytes \<Rightarrow> u32" where
  "hash_entry name value =
     (let hash = foldl (\<lambda>hash c. fold_hash 5 hash (ucast c)) 0 name in
      if value = [] then hash
      else foldl (fold_hash 16) hash (words4 (value @ replicate ((4 - length value mod 4) mod 4) 0)))"

definition block_entry_hash :: "parsed_xattr \<Rightarrow> u32" where
  "block_entry_hash a =
     (if px_inum a \<noteq> 0
      then let vhash = hash_entry [] (px_value a); h = hash_entry (px_name a) []
           in (push_bit 16 h XOR drop_bit 16 h) XOR vhash
      else hash_entry (px_name a) (px_value a))"

definition serialize_block :: "parsed_xattr list \<Rightarrow> nat \<Rightarrow> bytes option res" where
  "serialize_block attrs bsize =
     (if bsize < 12 then Panic
      else Ok (lay_entries px_inum block_entry_hash
        (put (replicate bsize 0) 0 (le_bytes 4 EXT4_XATTR_MAGIC @ le_bytes 4 (1 :: u32) @ le_bytes 4 (1 :: u32)))
        BLOCK_HDR bsize (sort_attrs attrs)))"

subsection \<open>Names\<close>

text \<open>Strings are the bytes of their UTF-8 encoding.\<close>

definition str_bytes :: "string \<Rightarrow> bytes" where
  "str_bytes cs = map of_char cs"

definition strip_prefix :: "bytes \<Rightarrow> bytes \<Rightarrow> bytes option" where
  "strip_prefix prefix full = (if take (length prefix) full = prefix then Some (drop (length prefix) full) else None)"

fun first_prefix :: "(u8 \<times> bytes) list \<Rightarrow> bytes \<Rightarrow> (u8 \<times> bytes) option" where
  "first_prefix [] full = None"
| "first_prefix ((idx, prefix) # rest) full = (case strip_prefix prefix full of
     Some suffix \<Rightarrow> Some (idx, suffix)
   | None \<Rightarrow> first_prefix rest full)"

definition split_name :: "bytes \<Rightarrow> (u8 \<times> bytes) option" where
  "split_name full =
     (if full = str_bytes ''system.posix_acl_access'' then Some (2, [])
      else if full = str_bytes ''system.posix_acl_default'' then Some (3, [])
      else first_prefix [(1, str_bytes ''user.''), (4, str_bytes ''trusted.''), (6, str_bytes ''security.''), (7, str_bytes ''system.'')] full)"

definition name_prefix :: "u8 \<Rightarrow> bytes option" where
  "name_prefix name_index =
     (if name_index = 1 then Some (str_bytes ''user.'')
      else if name_index = 2 then Some (str_bytes ''system.posix_acl_access'')
      else if name_index = 3 then Some (str_bytes ''system.posix_acl_default'')
      else if name_index = 4 then Some (str_bytes ''trusted.'')
      else if name_index = 6 then Some (str_bytes ''security.'')
      else if name_index = 7 then Some (str_bytes ''system.'') else None)"

definition join_name :: "u8 \<Rightarrow> bytes \<Rightarrow> bytes option" where
  "join_name name_index suffix = (case name_prefix name_index of
     None \<Rightarrow> None
   | Some prefix \<Rightarrow> if utf8_valid suffix then Some (prefix @ suffix) else None)"

subsection \<open>Parsing\<close>

function parse_loop :: "bytes \<Rightarrow> bytes \<Rightarrow> nat \<Rightarrow> parsed_xattr list" where
  "parse_loop area value_base off =
     (if length area < off + 4 then []
      else let name_len = unat (area ! off); name_index = area ! (off + 1) in
        if name_len = 0 \<and> name_index = 0 then []
        else if length area < off + ENTRY_FIXED + name_len then []
        else let value_offs = unat (le_word (slice area (off + 2) 2) :: u16);
                 value_inum = le_word (slice area (off + 4) 4);
                 value_size = unat (le_word (slice area (off + 8) 4) :: u32)
          in \<lparr> px_index = name_index, px_name = slice area (off + ENTRY_FIXED) name_len,
               px_value = (if value_inum = 0 \<and> value_offs + value_size \<le> length value_base
                 then slice value_base value_offs value_size else []),
               px_inum = value_inum, px_size = value_size \<rparr>
             # parse_loop area value_base (off + entry_len name_len))"
  by pat_completeness auto
termination
  by (relation "measure (\<lambda>(area, _, off). length area - off)") (auto simp: entry_len_def ENTRY_FIXED_def XATTR_PAD_def)

declare parse_loop.simps [simp del]

definition parse_entries :: "bytes \<Rightarrow> bytes \<Rightarrow> parsed_xattr list" where
  "parse_entries es value_base = parse_loop es value_base 0"

section \<open>Sorting\<close>

lemma mset_sort_attrs: "mset (sort_attrs attrs) = mset attrs"
proof -
  have "mset (insert_attr a bs) = add_mset a (mset bs)" for a bs by (induction bs) auto
  then show ?thesis by (induction attrs) (simp_all add: sort_attrs_def)
qed

lemma set_sort_attrs [simp]: "set (sort_attrs attrs) = set attrs"
  using mset_sort_attrs [of attrs] by (metis set_mset_mset)

lemma sort_attrs_Nil [simp]: "sort_attrs attrs = [] \<longleftrightarrow> attrs = []"
  using set_sort_attrs [of attrs] by (metis set_empty)

section \<open>What is written is read\<close>

lemma entry_len_bounds: "16 + n \<le> entry_len n" "entry_len n < 20 + n" "entry_len n mod 4 = 0"
  unfolding entry_len_def ENTRY_FIXED_def XATTR_PAD_def by (linarith | simp)+

lemma value_pad_bounds: "n \<le> value_pad n" "value_pad n < n + 4" "value_pad 0 = 0"
  unfolding value_pad_def XATTR_PAD_def by (linarith | simp)+

text \<open>An attribute that an entry can represent, and what is read back of it: a value in an inode of its
  own is not part of the region.\<close>

definition storable :: "(parsed_xattr \<Rightarrow> u32) \<Rightarrow> parsed_xattr \<Rightarrow> bool" where
  "storable inum_of a \<longleftrightarrow> length (px_name a) \<le> 255 \<and> (px_name a \<noteq> [] \<or> px_index a \<noteq> 0) \<and> length (px_value a) < 2 ^ 32"

definition stored :: "(parsed_xattr \<Rightarrow> u32) \<Rightarrow> parsed_xattr \<Rightarrow> parsed_xattr" where
  "stored inum_of a = \<lparr> px_index = px_index a, px_name = px_name a,
     px_value = (if inum_of a = 0 then px_value a else []), px_inum = inum_of a, px_size = length (px_value a) \<rparr>"

lemma length_xattr_entry_bytes [simp]: "length (xattr_entry_bytes a offs inum hash) = 16 + length (px_name a)"
  by (simp add: xattr_entry_bytes_def)

lemma xattr_entry_fields:
  "xattr_entry_bytes a offs inum hash ! 0 = of_nat (length (px_name a))"
  "xattr_entry_bytes a offs inum hash ! Suc 0 = px_index a"
  "slice (xattr_entry_bytes a offs inum hash) 2 2 = le_bytes 2 offs"
  "slice (xattr_entry_bytes a offs inum hash) 4 4 = le_bytes 4 inum"
  "slice (xattr_entry_bytes a offs inum hash) 8 4 = le_bytes 4 (of_nat (length (px_value a)) :: u32)"
  "slice (xattr_entry_bytes a offs inum hash) 16 (length (px_name a)) = px_name a"
  by (simp_all add: xattr_entry_bytes_def slice_def)

text \<open>One step of the parser on a region that holds an entry.\<close>

lemma parse_entry:
  assumes at: "slice base (hdr + off) (16 + length (px_name a)) = xattr_entry_bytes a offs (inum_of a) hash"
    and fits: "hdr + off + 16 + length (px_name a) \<le> length base"
    and ok: "storable inum_of a"
    and val: "inum_of a = 0 \<Longrightarrow> unat offs + length (px_value a) \<le> length base \<and> slice base (unat offs) (length (px_value a)) = px_value a"
  shows "parse_loop (drop hdr base) base off = stored inum_of a # parse_loop (drop hdr base) base (off + entry_len (length (px_name a)))"
proof -
  define es where "es = drop hdr base"
  let ?e = "xattr_entry_bytes a offs (inum_of a) hash"
  have ok: "length (px_name a) \<le> 255" "px_name a \<noteq> [] \<or> px_index a \<noteq> 0" "length (px_value a) < 2 ^ 32"
    using assms(3) by (simp_all add: storable_def)
  have sub: "slice es (off + k) m = slice ?e k m" if "k + m \<le> 16 + length (px_name a)" for k m
    using that at [symmetric] by (simp add: es_def slice_drop slice_slice add.assoc)
  have nth: "es ! (off + k) = ?e ! k" if "k < 16" for k
    using that fits at [symmetric] by (simp add: es_def nth_slice add.assoc)
  have head: "es ! off = of_nat (length (px_name a))" "es ! (off + 1) = px_index a"
    using nth [of 0] nth [of 1] by (simp_all add: xattr_entry_fields)
  have len: "unat (of_nat (length (px_name a)) :: u8) = length (px_name a)" using ok(1) by (simp add: unat_of_nat_small)
  have fields: "le_word (slice es (off + 2) 2) = offs" "le_word (slice es (off + 4) 4) = inum_of a"
    "le_word (slice es (off + 8) 4) = (of_nat (length (px_value a)) :: u32)"
    "slice es (off + 16) (length (px_name a)) = px_name a"
    by (subst sub; simp add: xattr_entry_fields le_word_le_bytes)+
  have len2: "unat (of_nat (length (px_value a)) :: u32) = length (px_value a)" using ok(3) by (simp add: unat_of_nat_small)
  have guards: "\<not> length es < off + 4" "\<not> (length (px_name a) = 0 \<and> px_index a = 0)"
    "\<not> length es < off + 16 + length (px_name a)"
    using fits ok(2) by (auto simp: es_def)
  show ?thesis
    unfolding es_def [symmetric]
    by (subst parse_loop.simps)
      (use guards val in \<open>simp add: Let_def head len fields len2 ENTRY_FIXED_def stored_def del: One_nat_def add_2_eq_Suc'\<close>)
qed

lemma parse_end:
  assumes "hdr + off + 4 \<le> length base" and "base ! (hdr + off) = 0" and "base ! (hdr + off + 1) = 0"
  shows "parse_loop (drop hdr base) base off = []"
  by (subst parse_loop.simps) (use assms in \<open>simp add: Let_def add.assoc\<close>)

lemma lay_entries_parse:
  assumes "lay_entries inum_of hash_of b eo ve attrs = Some b'"
    and "\<forall>a \<in> set attrs. storable inum_of a" and "hdr \<le> eo" and "ve \<le> length b" and "length b \<le> 65536"
    and "attrs = [] \<Longrightarrow> eo + 4 \<le> ve" and "\<And>i. eo \<le> i \<Longrightarrow> i < ve \<Longrightarrow> b ! i = 0"
  shows "length b' = length b \<and> (\<forall>i < length b. i < eo \<or> ve \<le> i \<longrightarrow> b' ! i = b ! i)
    \<and> parse_loop (drop hdr b') b' (eo - hdr) = map (stored inum_of) attrs"
  using assms
proof (induction attrs arbitrary: b eo ve)
  case Nil
  then show ?case using parse_end [of hdr "eo - hdr" b'] by simp
next
  case (Cons a attrs)
  let ?n = "length (px_name a)" and ?m = "length (px_value a)"
  define vpad where "vpad = (if inum_of a \<noteq> 0 then 0 else value_pad ?m)"
  define inline where "inline = (inum_of a = 0 \<and> px_value a \<noteq> [])"
  define voff where "voff = ve - vpad"
  define ve' where "ve' = (if inline then voff else ve)"
  define offs :: u16 where "offs = (if inline then of_nat voff else 0)"
  define b1 where "b1 = (if inline then put b voff (px_value a) else b)"
  define b2 where "b2 = put b1 eo (xattr_entry_bytes a offs (inum_of a) (hash_of a))"
  have fit: "eo + entry_len ?n + 4 \<le> voff"
    and rest: "lay_entries inum_of hash_of b2 (eo + entry_len ?n) ve' attrs = Some b'"
    using Cons.prems(1)
    by (auto simp: Let_def vpad_def inline_def voff_def ve'_def offs_def b1_def b2_def not_less split: if_splits)
  have ve': "eo + entry_len ?n + 4 \<le> ve'" "ve' \<le> ve" "inline \<Longrightarrow> ve' + ?m \<le> ve" "\<not> inline \<Longrightarrow> ve' = ve"
    using fit value_pad_bounds(1) [of ?m] by (auto simp: ve'_def voff_def vpad_def inline_def split: if_splits)
  have len: "length b1 = length b" "length b2 = length b"
    using ve' fit Cons.prems(4) entry_len_bounds(1) [of ?n] by (auto simp: b1_def b2_def ve'_def length_put)
  have b1: "b1 ! i = b ! i" if "i < length b" "i < ve' \<or> ve \<le> i" for i
    using that ve' Cons.prems(4) by (auto simp: b1_def ve'_def nth_put)
  have b2: "b2 ! i = b1 ! i" if "i < length b" "i < eo \<or> eo + 16 + ?n \<le> i" for i
    using that ve' len(1) Cons.prems(4) entry_len_bounds(1) [of ?n] by (auto simp: b2_def nth_put)
  have ih: "length b' = length b2" "\<And>i. i < length b2 \<Longrightarrow> i < eo + entry_len ?n \<or> ve' \<le> i \<Longrightarrow> b' ! i = b2 ! i"
    "parse_loop (drop hdr b') b' (eo + entry_len ?n - hdr) = map (stored inum_of) attrs"
  proof -
    have zero: "b2 ! i = 0" if "eo + entry_len ?n \<le> i" "i < ve'" for i
      using that b1 [of i] b2 [of i] Cons.prems(4) Cons.prems(7) [of i] ve'(2) entry_len_bounds(1) [of ?n] by simp
    have "length b' = length b2 \<and> (\<forall>i < length b2. i < eo + entry_len ?n \<or> ve' \<le> i \<longrightarrow> b' ! i = b2 ! i)
      \<and> parse_loop (drop hdr b') b' (eo + entry_len ?n - hdr) = map (stored inum_of) attrs"
      by (rule Cons.IH [OF rest]) (use Cons.prems(2-5) ve'(1,2) len(2) zero in auto)
    then show "length b' = length b2" "\<And>i. i < length b2 \<Longrightarrow> i < eo + entry_len ?n \<or> ve' \<le> i \<Longrightarrow> b' ! i = b2 ! i"
      "parse_loop (drop hdr b') b' (eo + entry_len ?n - hdr) = map (stored inum_of) attrs" by blast+
  qed
  have keep: "b' ! i = b ! i" if "i < length b" "i < eo \<or> ve \<le> i" for i
    using that ih(2) [of i] b1 [of i] b2 [of i] ve' len entry_len_bounds(1) [of ?n] by auto
  have entry: "slice b' eo (16 + ?n) = xattr_entry_bytes a offs (inum_of a) (hash_of a)"
  proof -
    have "slice b' eo (16 + ?n) = slice b2 eo (16 + ?n)"
      using ih(1,2) len ve' Cons.prems(4) entry_len_bounds(1) [of ?n]
      by (intro nth_equalityI) (auto simp: nth_slice)
    also have "\<dots> = xattr_entry_bytes a offs (inum_of a) (hash_of a)"
      unfolding b2_def using len(1) ve' Cons.prems(4) entry_len_bounds(1) [of ?n] by (intro slice_put_same) auto
    finally show ?thesis .
  qed
  have val: "unat offs + ?m \<le> length b' \<and> slice b' (unat offs) ?m = px_value a" if "inum_of a = 0"
  proof (cases inline)
    case True
    have "1 \<le> ?m" using True by (cases "px_value a") (auto simp: inline_def)
    then have "voff < 65536" using ve'(3) True Cons.prems(4,5) by (auto simp: ve'_def)
    then have o: "unat offs = voff" using True by (simp add: offs_def unat_of_nat_small)
    have v: "ve' = voff" "voff + ?m \<le> length b" using True ve'(3) Cons.prems(4) by (auto simp: ve'_def)
    have "slice b' voff ?m = slice b1 voff ?m"
      using ih(1,2) len v b2 ve'(1) entry_len_bounds(1) [of ?n] by (intro nth_equalityI) (auto simp: nth_slice)
    also have "\<dots> = px_value a" using True v by (simp add: b1_def slice_put_same)
    finally show ?thesis using o v ih(1) len by simp
  next
    case False
    then show ?thesis using that by (simp add: inline_def offs_def slice_def)
  qed
  have e: "hdr + (eo - hdr) = eo" "eo + entry_len ?n - hdr = eo - hdr + entry_len ?n" using Cons.prems(3) by simp_all
  have in_range: "eo + 16 + ?n \<le> length b'" using ih(1) len(2) ve'(1,2) Cons.prems(4) entry_len_bounds(1) [of ?n] by linarith
  have "storable inum_of a" using Cons.prems(2) by simp
  from parse_entry [of b' hdr "eo - hdr" a offs inum_of "hash_of a", unfolded e, OF entry in_range this val]
  have "parse_loop (drop hdr b') b' (eo - hdr) = map (stored inum_of) (a # attrs)"
    unfolding ih(3) [unfolded e] by simp
  then show ?case using ih(1) len(2) keep by simp
qed

text \<open>Bytes before the entries do not matter to the layout: the checksum of a block can be set afterwards.\<close>

lemma lay_entries_put:
  assumes "ve \<le> length b" and "k + length d \<le> eo"
  shows "lay_entries inum_of hash_of (put b k d) eo ve attrs = map_option (\<lambda>b'. put b' k d) (lay_entries inum_of hash_of b eo ve attrs)"
  using assms
proof (induction attrs arbitrary: b eo ve)
  case (Cons a attrs)
  note pads = entry_len_bounds(1) [of "length (px_name a)"] value_pad_bounds(1) [of "length (px_value a)"]
  have swap: "put (put b k d) i x = put (put b i x) k d" if "k + length d \<le> i" "i + length x \<le> length b" for b i and x :: bytes
    using that by (rule put_commute [symmetric])
  show ?case
    using Cons.prems pads
    by (auto simp: Let_def swap length_put Cons.IH)
qed simp

lemma region_parse:
  assumes "serialize_region attrs n = Some region" and "attrs \<noteq> []" and "n \<le> 65536"
    and "\<forall>a \<in> set attrs. storable (\<lambda>_. 0) a"
  shows "length region = n \<and> parse_entries region region = map (stored (\<lambda>_. 0)) (sort_attrs attrs)"
  using lay_entries_parse [OF assms(1) [unfolded serialize_region_def], of 0] assms(2-4)
  by (simp add: parse_entries_def)

lemma block_parse:
  assumes ser: "serialize_block attrs n = Ok (Some block)" and stamped: "stamped = put block 16 (le_bytes 4 (csum :: u32))"
    and "attrs \<noteq> []" and "n \<le> 65536" and "\<forall>a \<in> set attrs. storable px_inum a"
  shows "length stamped = n \<and> le_word (slice stamped 0 4) = EXT4_XATTR_MAGIC
      \<and> parse_entries (drop BLOCK_HDR stamped) stamped = map (stored px_inum) (sort_attrs attrs)"
proof -
  have st: "\<forall>a \<in> set (sort_attrs attrs). storable px_inum a" using assms(5) by simp
  have ne: "sort_attrs attrs \<noteq> []" using assms(3) by simp
  let ?hdr = "le_bytes 4 EXT4_XATTR_MAGIC @ le_bytes 4 (1 :: u32) @ le_bytes 4 (1 :: u32)"
  define b where "b = put (replicate n 0) 0 ?hdr"
  have lay: "lay_entries px_inum block_entry_hash b 32 n (sort_attrs attrs) = Some block"
    using ser by (simp add: serialize_block_def b_def BLOCK_HDR_def split: if_splits)
  have n: "36 \<le> n" using lay ne by (cases "sort_attrs attrs") (auto simp: Let_def split: if_splits)
  have b: "length b = n" using n by (simp add: b_def length_put)
  have "\<And>i. 12 \<le> i \<Longrightarrow> i < n \<Longrightarrow> b ! i = 0" using n by (simp add: b_def nth_put)
  then have zero: "put b 16 (le_bytes 4 csum) ! i = 0" if "32 \<le> i" "i < n" for i
    using that b by (simp add: nth_put)
  have "lay_entries px_inum block_entry_hash (put b 16 (le_bytes 4 csum)) 32 n (sort_attrs attrs) = Some stamped"
    using lay_entries_put [of n b 16 "le_bytes 4 csum" 32] lay b stamped by simp
  from lay_entries_parse [OF this st, of 32] ne assms(4) n b zero
  have all: "length stamped = n" "\<forall>i < n. i < 32 \<longrightarrow> stamped ! i = put b 16 (le_bytes 4 csum) ! i"
    "parse_loop (drop 32 stamped) stamped 0 = map (stored px_inum) (sort_attrs attrs)"
    by (simp_all add: length_put)
  have "slice stamped 0 4 = slice (put b 16 (le_bytes 4 csum)) 0 4"
    using all(1,2) n b by (intro nth_equalityI) (auto simp: nth_slice length_put)
  also have "\<dots> = le_bytes 4 EXT4_XATTR_MAGIC"
    using n b by (simp add: slice_put_below b_def) (simp add: put_def slice_def)
  finally show "length stamped = n \<and> le_word (slice stamped 0 4) = EXT4_XATTR_MAGIC
      \<and> parse_entries (drop BLOCK_HDR stamped) stamped = map (stored px_inum) (sort_attrs attrs)"
    using all by (simp add: le_word_le_bytes parse_entries_def BLOCK_HDR_def)
qed

text \<open>C34: What the attribute writer stores, the parser reads, wherever the attributes live. For any list
  of attributes (names of at most 255 bytes, values below 4 GiB) and any size up to 64 KiB: if the writer
  finds room, in the body of an inode or in a block (then with any checksum stamped into its header), the
  parser returns exactly the attributes, sorted by name space and name, each with its value, its size and
  its value inode; a value kept in an inode of its own leaves no bytes in the block.\<close>

theorem attributes_roundtrip:
  assumes "attrs \<noteq> []" and "n \<le> 65536" and "\<forall>a \<in> set attrs. storable px_inum a"
  shows "(serialize_region attrs n = Some region \<longrightarrow>
      length region = n \<and> parse_entries region region = map (stored (\<lambda>_. 0)) (sort_attrs attrs))
    \<and> (serialize_block attrs n = Ok (Some block) \<and> stamped = put block 16 (le_bytes 4 (csum :: u32)) \<longrightarrow>
      length stamped = n \<and> le_word (slice stamped 0 4) = EXT4_XATTR_MAGIC
      \<and> parse_entries (drop BLOCK_HDR stamped) stamped = map (stored px_inum) (sort_attrs attrs))"
proof -
  have region: "length region = n \<and> parse_entries region region = map (stored (\<lambda>_. 0)) (sort_attrs attrs)"
    if "serialize_region attrs n = Some region"
    by (rule region_parse) (use that assms in \<open>simp_all add: storable_def\<close>)
  have "length stamped = n \<and> le_word (slice stamped 0 4) = EXT4_XATTR_MAGIC
      \<and> parse_entries (drop BLOCK_HDR stamped) stamped = map (stored px_inum) (sort_attrs attrs)"
    if ser: "serialize_block attrs n = Ok (Some block)" and stamped: "stamped = put block 16 (le_bytes 4 csum)"
    by (rule block_parse [OF ser stamped]) (use assms in simp_all)
  with region show ?thesis by blast
qed

theorem attributes_roundtrip_witness:
  "let attrs = [\<lparr> px_index = 1, px_name = [98], px_value = [1, 2, 3], px_inum = 0, px_size = 3 \<rparr>,
       \<lparr> px_index = 1, px_name = [97, 99], px_value = [], px_inum = 0, px_size = 0 \<rparr>]
   in \<exists>region. serialize_region attrs 64 = Some region \<and> parse_entries region region = [attrs ! 1, attrs ! 0]"
proof -
  let ?attrs = "[\<lparr> px_index = 1, px_name = [98], px_value = [1, 2, 3], px_inum = 0, px_size = 3 \<rparr>,
       \<lparr> px_index = 1, px_name = [97, 99], px_value = [], px_inum = 0, px_size = 0 \<rparr>] :: parsed_xattr list"
  have sorted: "sort_attrs ?attrs = [?attrs ! 1, ?attrs ! 0]" by (simp add: sort_attrs_def attr_le_def)
  obtain region where r: "serialize_region ?attrs 64 = Some region"
    by (simp add: serialize_region_def sorted Let_def entry_len_def value_pad_def ENTRY_FIXED_def XATTR_PAD_def)
  have "parse_entries region region = map (stored (\<lambda>_. 0)) (sort_attrs ?attrs)"
    using attributes_roundtrip [of ?attrs 64 region] r by (simp add: storable_def)
  then show ?thesis using r by (simp add: sorted stored_def Let_def)
qed

section \<open>Names\<close>

lemma utf8_ascii_prefix: "\<forall>c \<in> set p. c < 0x80 \<Longrightarrow> utf8_valid (p @ xs) = utf8_valid xs"
  by (induction p) auto

lemma name_prefix_ascii: "name_prefix idx = Some p \<Longrightarrow> \<forall>c \<in> set p. c < 0x80"
  by (auto simp: name_prefix_def str_bytes_def split: if_splits)

lemma strip_prefix_Some: "strip_prefix p full = Some rest \<longleftrightarrow> full = p @ rest"
  by (auto simp: strip_prefix_def) (metis append_take_drop_id)

text \<open>Attribute names. A name splits into a name space and a suffix exactly when it lies in one of the
  name spaces, and joining the two gives the name again; joining any name space with a valid suffix and
  splitting the result gives them back, except for names that are stored under two forms: a suffix after
  one of the two whole names, and the names of the two access lists in the space \<open>system.\<close>\<close>

theorem names_roundtrip:
  "(split_name full = Some (idx, suffix) \<and> utf8_valid full \<longrightarrow> join_name idx suffix = Some full)
   \<and> (join_name idx suffix = Some full \<and> (idx \<in> {2, 3} \<longrightarrow> suffix = [])
      \<and> (idx = 7 \<longrightarrow> suffix \<notin> {str_bytes ''posix_acl_access'', str_bytes ''posix_acl_default''})
      \<longrightarrow> split_name full = Some (idx, suffix))"
proof (intro conjI impI; elim conjE)
  assume sp: "split_name full = Some (idx, suffix)" and utf: "utf8_valid full"
  then obtain p where p: "name_prefix idx = Some p" "full = p @ suffix"
    by (auto simp: split_name_def name_prefix_def strip_prefix_Some split: if_splits option.splits)
  then show "join_name idx suffix = Some full"
    using utf utf8_ascii_prefix [OF name_prefix_ascii [OF p(1)]] by (simp add: join_name_def)
next
  assume j: "join_name idx suffix = Some full" and n: "idx \<in> {2, 3} \<longrightarrow> suffix = []"
    "idx = 7 \<longrightarrow> suffix \<notin> {str_bytes ''posix_acl_access'', str_bytes ''posix_acl_default''}"
  from j obtain p where p: "name_prefix idx = Some p" "full = p @ suffix"
    by (auto simp: join_name_def split: option.splits if_splits)
  then consider "idx = 1" "p = str_bytes ''user.''" | "idx \<in> {2, 3}" | "idx = 4" "p = str_bytes ''trusted.''"
    | "idx = 6" "p = str_bytes ''security.''" | "idx = 7" "p = str_bytes ''system.''"
    by (auto simp: name_prefix_def split: if_splits)
  then show "split_name full = Some (idx, suffix)"
  proof cases
    case 2
    have "str_bytes ''system.posix_acl_default'' \<noteq> str_bytes ''system.posix_acl_access''" by (simp add: str_bytes_def)
    then show ?thesis using 2 n(1) p by (auto simp: name_prefix_def split_name_def)
  next
    case 5
    have "str_bytes ''system.posix_acl_access'' = p @ str_bytes ''posix_acl_access''"
      "str_bytes ''system.posix_acl_default'' = p @ str_bytes ''posix_acl_default''"
      by (simp_all add: 5(2) str_bytes_def)
    then have "full \<noteq> str_bytes ''system.posix_acl_access''" "full \<noteq> str_bytes ''system.posix_acl_default''"
      using n(2) 5(1) p(2) by auto
    moreover have "strip_prefix (str_bytes q) full = None" if "q \<in> {''user.'', ''trusted.'', ''security.''}" for q
      using that p(2) by (auto simp: 5(2) strip_prefix_def str_bytes_def)
    ultimately show ?thesis using 5 p(2) by (simp add: split_name_def strip_prefix_def)
  qed (use p(2) in \<open>simp add: split_name_def strip_prefix_def str_bytes_def\<close>)+
qed

end
