(* ===== verification/Acl.thy ===== *)
theory Acl
  imports BlockDev
begin

text \<open>
  POSIX access control lists (\<open>src/src/ext4_impls/acl.rs\<close>): the format of the attribute value, the
  permission check and the clamping of an inherited list. The operations that fetch and store the
  attribute are in \<open>XattrOps\<close>.

  The specifications are those of POSIX 1003.1e: a list in its canonical order decides by the first class
  that the requester falls into, and creation intersects the mode with the list.
\<close>

unbundle bit_operations_syntax

section \<open>The code\<close>

definition POSIX_ACL_XATTR_VERSION :: u32 where "POSIX_ACL_XATTR_VERSION = 2"

definition ACL_USER_OBJ :: u16 where "ACL_USER_OBJ = 0x01"
definition ACL_USER :: u16 where "ACL_USER = 0x02"
definition ACL_GROUP_OBJ :: u16 where "ACL_GROUP_OBJ = 0x04"
definition ACL_GROUP :: u16 where "ACL_GROUP = 0x08"
definition ACL_MASK :: u16 where "ACL_MASK = 0x10"
definition ACL_OTHER :: u16 where "ACL_OTHER = 0x20"

lemmas acl_tags = ACL_USER_OBJ_def ACL_USER_def ACL_GROUP_OBJ_def ACL_GROUP_def ACL_MASK_def ACL_OTHER_def

record acl_entry =
  ae_tag :: u16
  ae_perm :: u16
  ae_id :: u32

definition acl_entry_bytes :: "acl_entry \<Rightarrow> bytes" where
  "acl_entry_bytes e = le_bytes 2 (ae_tag e) @ le_bytes 2 (ae_perm e) @ le_bytes 4 (ae_id e)"

definition acl_entry_of_bytes :: "bytes \<Rightarrow> acl_entry" where
  "acl_entry_of_bytes b = \<lparr> ae_tag = le_word (slice b 0 2), ae_perm = le_word (slice b 2 2), ae_id = le_word (slice b 4 4) \<rparr>"

text \<open>\<open>chunks_exact(8)\<close>.\<close>

fun chunks8 :: "bytes \<Rightarrow> bytes list" where
  "chunks8 b = (if length b < 8 then [] else take 8 b # chunks8 (drop 8 b))"

declare chunks8.simps [simp del]

definition parse_acl :: "bytes \<Rightarrow> acl_entry list option" where
  "parse_acl v =
     (if length v < 4 then None
      else if (le_word (slice v 0 4) :: u32) \<noteq> POSIX_ACL_XATTR_VERSION then None
      else let body = drop 4 v in
        if length body mod 8 \<noteq> 0 then None else Some (map acl_entry_of_bytes (chunks8 body)))"

definition serialize_acl :: "acl_entry list \<Rightarrow> bytes" where
  "serialize_acl es = le_bytes 4 POSIX_ACL_XATTR_VERSION @ concat (map acl_entry_bytes es)"

text \<open>An entry clamped to the mode bits of its class (shifted by \<open>k\<close>), and the mode clamped to the entry.\<close>

definition clamp_perm :: "nat \<Rightarrow> u16 \<Rightarrow> u16 \<Rightarrow> u16" where
  "clamp_perm k m p = p AND (drop_bit k m OR NOT 7)"

definition clamp_mode :: "nat \<Rightarrow> u16 \<Rightarrow> u16 \<Rightarrow> u16" where
  "clamp_mode k m p = m AND (push_bit k p OR NOT (push_bit k 7))"

text \<open>The loop of \<open>posix_acl_create_masq\<close>: the entries with owner and others clamped, the mode bits left,
  whether the list says more than a mode, and the positions of the group and mask entries.\<close>

fun masq_loop ::
  "nat \<Rightarrow> acl_entry list \<Rightarrow> u16 \<Rightarrow> bool \<Rightarrow> nat option \<Rightarrow> nat option
    \<Rightarrow> acl_entry list \<times> u16 \<times> bool \<times> nat option \<times> nat option" where
  "masq_loop i [] m not_equiv group_obj mask_obj = ([], m, not_equiv, group_obj, mask_obj)"
| "masq_loop i (e # es) m not_equiv group_obj mask_obj =
     (let tag = ae_tag e;
          p = (if tag = ACL_USER_OBJ then clamp_perm 6 m (ae_perm e)
               else if tag = ACL_OTHER then clamp_perm 0 m (ae_perm e) else ae_perm e);
          m = (if tag = ACL_USER_OBJ then clamp_mode 6 m p
               else if tag = ACL_OTHER then clamp_mode 0 m p else m);
          not_equiv = (not_equiv \<or> tag = ACL_USER \<or> tag = ACL_GROUP \<or> tag = ACL_MASK);
          group_obj = (if tag = ACL_GROUP_OBJ then Some i else group_obj);
          mask_obj = (if tag = ACL_MASK then Some i else mask_obj);
          (es, rest) = masq_loop (i + 1) es m not_equiv group_obj mask_obj
      in (e\<lparr> ae_perm := p \<rparr> # es, rest))"

definition clamp_group :: "nat \<Rightarrow> acl_entry list \<Rightarrow> u16 \<Rightarrow> acl_entry list \<times> u16" where
  "clamp_group i es m =
     (let p = clamp_perm 3 m (ae_perm (es ! i))
      in (es[i := (es ! i)\<lparr> ae_perm := p \<rparr>], clamp_mode 3 m p))"

definition posix_acl_create_masq :: "acl_entry list \<Rightarrow> u16 \<Rightarrow> acl_entry list \<times> u16 \<times> bool" where
  "posix_acl_create_masq es mode =
     (let (es, m, not_equiv, group_obj, mask_obj) = masq_loop 0 es (mode AND 0x1FF) False None None;
          (es, m) = (case mask_obj of Some i \<Rightarrow> clamp_group i es m
            | None \<Rightarrow> (case group_obj of Some i \<Rightarrow> clamp_group i es m | None \<Rightarrow> (es, m)))
      in (es, (mode AND NOT 0x1FF) OR (m AND 0x1FF), not_equiv))"

definition acl_mask :: "acl_entry list \<Rightarrow> u16 option" where
  "acl_mask es = map_option ae_perm (find (\<lambda>e. ae_tag e = ACL_MASK) es)"

definition effective :: "u16 option \<Rightarrow> acl_entry \<Rightarrow> u16" where
  "effective msk e = (case msk of None \<Rightarrow> ae_perm e | Some m \<Rightarrow> ae_perm e AND m)"

definition grants :: "u16 \<Rightarrow> u16 \<Rightarrow> bool" where
  "grants p want \<longleftrightarrow> p AND want = want"

fun permission_loop ::
  "u16 option \<Rightarrow> u16 \<Rightarrow> u16 \<Rightarrow> u16 \<Rightarrow> u16 \<Rightarrow> u16 \<Rightarrow> acl_entry list \<Rightarrow> bool \<Rightarrow> bool" where
  "permission_loop msk file_uid file_gid req_uid req_gid want [] found_group = False"
| "permission_loop msk file_uid file_gid req_uid req_gid want (e # es) found_group =
     (let next = permission_loop msk file_uid file_gid req_uid req_gid want es; tag = ae_tag e in
      if tag = ACL_USER_OBJ
      then if req_uid = file_uid then grants (ae_perm e) want else next found_group
      else if tag = ACL_USER
      then if ae_id e = ucast req_uid then grants (effective msk e) want else next found_group
      else if tag = ACL_GROUP_OBJ
      then if req_gid = file_gid
           then if grants (effective msk e) want then True else next True
           else next found_group
      else if tag = ACL_GROUP
      then if ae_id e = ucast req_gid
           then if grants (effective msk e) want then True else next True
           else next found_group
      else if tag = ACL_OTHER
      then if found_group then False else grants (ae_perm e) want
      else next found_group)"

definition acl_permission :: "acl_entry list \<Rightarrow> u16 \<Rightarrow> u16 \<Rightarrow> u16 \<Rightarrow> u16 \<Rightarrow> u16 \<Rightarrow> bool" where
  "acl_permission es file_uid file_gid req_uid req_gid want =
     permission_loop (acl_mask es) file_uid file_gid req_uid req_gid (want AND 7) es False"


section \<open>The format\<close>

lemma length_acl_entry_bytes [simp]: "length (acl_entry_bytes e) = 8"
  by (simp add: acl_entry_bytes_def)

lemma slice_join: "j = i + n \<Longrightarrow> k = n + m \<Longrightarrow> slice b i n @ slice b j m = slice b i k"
  by (simp add: slice_def take_add add.commute [of i n])

lemma acl_entry_roundtrip:
  "acl_entry_of_bytes (acl_entry_bytes e) = e"
  "length b = 8 \<Longrightarrow> acl_entry_bytes (acl_entry_of_bytes b) = b"
proof -
  show "acl_entry_of_bytes (acl_entry_bytes e) = e"
    by (simp add: acl_entry_of_bytes_def acl_entry_bytes_def slice_append_right slice_append_left slice_all le_word_le_bytes)
  assume b: "length b = 8"
  have "le_bytes 2 (le_word (slice b 0 2) :: u16) = slice b 0 2" "le_bytes 2 (le_word (slice b 2 2) :: u16) = slice b 2 2"
    "le_bytes 4 (le_word (slice b 4 4) :: u32) = slice b 4 4"
    using b by (simp_all add: le_bytes_le_word)
  then have "acl_entry_bytes (acl_entry_of_bytes b) = slice b 0 2 @ slice b 2 2 @ slice b 4 4"
    by (simp add: acl_entry_bytes_def acl_entry_of_bytes_def)
  also have "\<dots> = slice b 0 8" by (simp add: slice_join)
  also have "\<dots> = b" using b by (simp add: slice_def)
  finally show "acl_entry_bytes (acl_entry_of_bytes b) = b" .
qed

lemma chunks8_unfold:
  "length b < 8 \<Longrightarrow> chunks8 b = []"
  "8 \<le> length b \<Longrightarrow> chunks8 b = take 8 b # chunks8 (drop 8 b)"
  by (subst chunks8.simps, simp)+

lemma chunks8_entries: "chunks8 (concat (map acl_entry_bytes es)) = map acl_entry_bytes es"
  by (induction es) (simp_all add: chunks8_unfold)

lemma chunks8_all: "length b mod 8 = 0 \<Longrightarrow> concat (chunks8 b) = b \<and> (\<forall>c \<in> set (chunks8 b). length c = 8)"
proof (induction b rule: chunks8.induct)
  case (1 b)
  show ?case
  proof (cases "length b < 8")
    case True
    then have "b = []" using 1(2) by auto
    then show ?thesis by (simp add: chunks8_unfold)
  next
    case False
    then have "length (drop 8 b) mod 8 = 0" using 1(2) by (simp add: mod_eq_0_iff_dvd)
    note ih = 1(1) [OF False this]
    have step: "chunks8 b = take 8 b # chunks8 (drop 8 b)" using False by (intro chunks8_unfold(2)) simp
    have "concat (chunks8 b) = take 8 b @ drop 8 b" unfolding step using ih by (simp only: concat.simps)
    moreover have "set (chunks8 b) = insert (take 8 b) (set (chunks8 (drop 8 b)))" unfolding step by (rule list.set)
    moreover have "length (take 8 b) = 8" using False by (simp add: min_def)
    ultimately show ?thesis using ih by (metis append_take_drop_id insert_iff)
  qed
qed

text \<open>The attribute value of an access list: the values that parse are exactly the serialized
  lists, and each parses to its list, for lists of any length. Everything else (a short value, another
  version, a last entry cut off) is rejected.\<close>

theorem acl_format: "parse_acl v = Some es \<longleftrightarrow> v = serialize_acl es"
proof
  assume v: "v = serialize_acl es"
  have "length (concat (map acl_entry_bytes es)) = 8 * length es" by (induction es) simp_all
  moreover have "map acl_entry_of_bytes (chunks8 (concat (map acl_entry_bytes es))) = es"
    unfolding chunks8_entries list.map_comp by (intro map_idI) (simp add: acl_entry_roundtrip(1))
  moreover have "take 4 v = le_bytes 4 POSIX_ACL_XATTR_VERSION" "drop 4 v = concat (map acl_entry_bytes es)"
    by (simp_all add: v serialize_acl_def)
  moreover have "4 \<le> length v" by (simp add: v serialize_acl_def)
  ultimately show "parse_acl v = Some es"
    by (simp add: parse_acl_def Let_def slice_def le_word_le_bytes)
next
  assume p: "parse_acl v = Some es"
  then have v: "4 \<le> length v" "le_word (slice v 0 4) = POSIX_ACL_XATTR_VERSION" "length (drop 4 v) mod 8 = 0"
    "es = map acl_entry_of_bytes (chunks8 (drop 4 v))"
    by (auto simp: parse_acl_def Let_def split: if_splits)
  note c = chunks8_all [OF v(3)]
  have "map acl_entry_bytes es = chunks8 (drop 4 v)"
    unfolding v(4) list.map_comp using c by (intro map_idI) (simp add: acl_entry_roundtrip(2))
  then have "concat (map acl_entry_bytes es) = drop 4 v" using c by simp
  moreover have "le_bytes 4 POSIX_ACL_XATTR_VERSION = take 4 v"
    using v(1) by (simp flip: v(2) add: le_bytes_le_word slice_def)
  ultimately show "v = serialize_acl es" by (simp add: serialize_acl_def)
qed

section \<open>The permission check\<close>

text \<open>A list in canonical order: owner, named users, owning group, named groups, at most one mask, others.\<close>

definition canonical_acl ::
  "acl_entry list \<Rightarrow> acl_entry \<Rightarrow> acl_entry list \<Rightarrow> acl_entry \<Rightarrow> acl_entry list \<Rightarrow> acl_entry list \<Rightarrow> acl_entry \<Rightarrow> bool" where
  "canonical_acl es owner users group_obj groups msk others \<longleftrightarrow>
     es = owner # users @ group_obj # groups @ msk @ [others]
     \<and> ae_tag owner = ACL_USER_OBJ \<and> (\<forall>e \<in> set users. ae_tag e = ACL_USER) \<and> ae_tag group_obj = ACL_GROUP_OBJ
     \<and> (\<forall>e \<in> set groups. ae_tag e = ACL_GROUP) \<and> length msk \<le> 1 \<and> (\<forall>e \<in> set msk. ae_tag e = ACL_MASK)
     \<and> ae_tag others = ACL_OTHER \<and> distinct (map ae_id users)"

text \<open>The access check of POSIX: the first class that fits decides.\<close>

definition posix_access ::
  "acl_entry \<Rightarrow> acl_entry list \<Rightarrow> acl_entry \<Rightarrow> acl_entry list \<Rightarrow> acl_entry list \<Rightarrow> acl_entry
    \<Rightarrow> u16 \<Rightarrow> u16 \<Rightarrow> u16 \<Rightarrow> u16 \<Rightarrow> u16 \<Rightarrow> bool" where
  "posix_access owner users group_obj groups msk others file_uid file_gid req_uid req_gid want =
     (let limit = (case msk of [] \<Rightarrow> NOT 0 | m # _ \<Rightarrow> ae_perm m);
          in_groups = filter (\<lambda>e. ae_id e = ucast req_gid) groups;
          classes = (if req_gid = file_gid then group_obj # in_groups else in_groups) in
      if req_uid = file_uid then grants (ae_perm owner) want
      else if \<exists>e \<in> set users. ae_id e = ucast req_uid
      then \<exists>e \<in> set users. ae_id e = ucast req_uid \<and> grants (ae_perm e AND limit) want
      else if classes \<noteq> [] then \<exists>e \<in> set classes. grants (ae_perm e AND limit) want
      else grants (ae_perm others) want)"

lemma loop_users:
  "\<forall>e \<in> set users. ae_tag e = ACL_USER \<Longrightarrow> distinct (map ae_id users) \<Longrightarrow>
   permission_loop m fu fg ru rg want (users @ es) False =
     (if \<exists>e \<in> set users. ae_id e = ucast ru
      then \<exists>e \<in> set users. ae_id e = ucast ru \<and> grants (effective m e) want
      else permission_loop m fu fg ru rg want es False)"
proof (induction users)
  case (Cons e users)
  show ?case
  proof (cases "ae_id e = ucast ru")
    case True
    then have "\<forall>x \<in> set users. ae_id x \<noteq> ucast ru" using Cons.prems(2) by force
    then show ?thesis using True Cons.prems(1) by (simp add: acl_tags Let_def)
  next
    case False
    then show ?thesis using Cons by (simp add: acl_tags Let_def)
  qed
qed simp

lemma loop_groups:
  "\<forall>e \<in> set groups. ae_tag e = ACL_GROUP \<Longrightarrow>
   permission_loop m fu fg ru rg want (groups @ es) found =
     ((\<exists>e \<in> set groups. ae_id e = ucast rg \<and> grants (effective m e) want)
      \<or> permission_loop m fu fg ru rg want es (found \<or> (\<exists>e \<in> set groups. ae_id e = ucast rg)))"
proof (induction groups arbitrary: found)
  case (Cons e groups)
  then show ?case by (auto simp: acl_tags Let_def)
qed simp

lemma loop_masks:
  "\<forall>e \<in> set msk. ae_tag e = ACL_MASK \<Longrightarrow>
   permission_loop m fu fg ru rg want (msk @ es) found = permission_loop m fu fg ru rg want es found"
  by (induction msk) (auto simp: acl_tags Let_def)

text \<open>C29: The permission check is the access check of POSIX: for every list in canonical order, with any
  named users and groups and with or without a mask, and for every requester, owner first, then the
  named user, then all groups the requester is in, then others, each but owner and others limited by
  the mask; only the three permission bits of the request count.\<close>

theorem acl_permission_posix:
  assumes "canonical_acl es owner users group_obj groups msk others"
  shows "acl_permission es file_uid file_gid req_uid req_gid want =
    posix_access owner users group_obj groups msk others file_uid file_gid req_uid req_gid (want AND 7)"
proof -
  have c: "es = owner # users @ group_obj # groups @ msk @ [others]" "ae_tag owner = ACL_USER_OBJ"
    "\<forall>e \<in> set users. ae_tag e = ACL_USER" "ae_tag group_obj = ACL_GROUP_OBJ" "\<forall>e \<in> set groups. ae_tag e = ACL_GROUP"
    "length msk \<le> 1" "\<forall>e \<in> set msk. ae_tag e = ACL_MASK" "ae_tag others = ACL_OTHER" "distinct (map ae_id users)"
    using assms by (auto simp: canonical_acl_def)
  have absent: "\<forall>e \<in> set us. ae_tag e \<noteq> ACL_MASK \<Longrightarrow> find (\<lambda>e. ae_tag e = ACL_MASK) (us @ xs) = find (\<lambda>e. ae_tag e = ACL_MASK) xs" for us xs
    by (induction us) auto
  have "find (\<lambda>e. ae_tag e = ACL_MASK) es = (case msk of [] \<Rightarrow> None | m # _ \<Rightarrow> Some m)"
    unfolding c(1) using c(2-5,7,8) absent [of users] absent [of groups] by (cases msk) (auto simp: acl_tags)
  then have eff: "effective (acl_mask es) e = ae_perm e AND (case msk of [] \<Rightarrow> NOT 0 | m # _ \<Rightarrow> ae_perm m)" for e
    by (simp add: acl_mask_def effective_def split: list.split)
  show ?thesis
    unfolding acl_permission_def posix_access_def Let_def eff [symmetric]
    unfolding c(1) append.simps permission_loop.simps
    by (auto simp: Let_def c(2,4,8) loop_users [OF c(3,9)] loop_groups [OF c(5)] loop_masks [OF c(7)] acl_tags filter_empty_conv)
qed

theorem acl_permission_posix_witness:
  "let owner = \<lparr> ae_tag = 1, ae_perm = 7, ae_id = 0 \<rparr>; user = \<lparr> ae_tag = 2, ae_perm = 6, ae_id = 5 \<rparr>;
       grp = \<lparr> ae_tag = 4, ae_perm = 7, ae_id = 0 \<rparr>; msk = \<lparr> ae_tag = 16, ae_perm = 4, ae_id = 0 \<rparr>;
       others = \<lparr> ae_tag = 32, ae_perm = 1, ae_id = 0 \<rparr>; es = [owner, user, grp, msk, others]
   in acl_permission es 1 1 5 9 4 \<and> \<not> acl_permission es 1 1 5 9 6 \<and> \<not> acl_permission es 1 1 8 1 1 \<and> acl_permission es 1 1 8 9 1"
proof -
  have c: "canonical_acl [\<lparr> ae_tag = 1, ae_perm = 7, ae_id = 0 \<rparr>, \<lparr> ae_tag = 2, ae_perm = 6, ae_id = 5 \<rparr>,
      \<lparr> ae_tag = 4, ae_perm = 7, ae_id = 0 \<rparr>, \<lparr> ae_tag = 16, ae_perm = 4, ae_id = 0 \<rparr>, \<lparr> ae_tag = 32, ae_perm = 1, ae_id = 0 \<rparr>]
    \<lparr> ae_tag = 1, ae_perm = 7, ae_id = 0 \<rparr> [\<lparr> ae_tag = 2, ae_perm = 6, ae_id = 5 \<rparr>] \<lparr> ae_tag = 4, ae_perm = 7, ae_id = 0 \<rparr> []
    [\<lparr> ae_tag = 16, ae_perm = 4, ae_id = 0 \<rparr>] \<lparr> ae_tag = 32, ae_perm = 1, ae_id = 0 \<rparr>"
    by (simp add: canonical_acl_def acl_tags)
  show ?thesis
    by (simp add: Let_def acl_permission_posix [OF c] posix_access_def grants_def)
qed

section \<open>Creation\<close>

definition clamp :: "nat \<Rightarrow> u16 \<Rightarrow> acl_entry \<Rightarrow> acl_entry" where
  "clamp k mode e = e\<lparr> ae_perm := clamp_perm k mode (ae_perm e) \<rparr>"

definition limited_mode :: "u16 \<Rightarrow> u16 \<Rightarrow> u16 \<Rightarrow> u16 \<Rightarrow> u16" where
  "limited_mode mode own grp oth = mode AND (NOT 0x1FF OR push_bit 6 (own AND 7) OR push_bit 3 (grp AND 7) OR (oth AND 7))"

lemma masq_loop_named:
  "\<forall>e \<in> set us. ae_tag e = ACL_USER \<or> ae_tag e = ACL_GROUP \<Longrightarrow>
   masq_loop i (us @ es) m ne g k =
     (case masq_loop (i + length us) es m (ne \<or> us \<noteq> []) g k of (es', rest) \<Rightarrow> (us @ es', rest))"
proof (induction us arbitrary: i ne)
  case (Cons e us)
  then show ?case by (auto simp: acl_tags Let_def split: prod.split)
qed (auto split: prod.split)

text \<open>Two masks are compared bit by bit.\<close>

lemma u16_eqI: "list_all (\<lambda>n. bit a n = bit b n) (0 # 1 # [2..<16]) \<Longrightarrow> a = (b :: u16)"
proof (rule bit_word_eqI)
  fix n :: nat
  assume "list_all (\<lambda>n. bit a n = bit b n) (0 # 1 # [2..<16])" "n < LENGTH(16)"
  then have "bit a 0 = bit b 0" "bit a 1 = bit b 1" "2 \<le> n \<Longrightarrow> bit a n = bit b n"
    by (simp_all add: list_all_iff del: upt_rec_numeral)
  then show "bit a n = bit b n"
    using less_2_cases [of n] by fastforce
qed

text \<open>The nine permission bits as the loop leaves them, after the owner entry, the other entry and the
  group.\<close>

lemma masq_words:
  fixes mode own oth grp p :: u16
  defines "m1 \<equiv> clamp_mode 6 (mode AND 0x1FF) (clamp_perm 6 mode own)"
  defines "m2 \<equiv> clamp_mode 0 m1 (clamp_perm 0 mode oth)"
  defines "m3 \<equiv> clamp_mode 3 m2 (clamp_perm 3 mode grp)"
  shows "clamp_perm 6 (mode AND 0x1FF) p = clamp_perm 6 mode p"
    and "clamp_perm 0 m1 p = clamp_perm 0 mode p"
    and "clamp_perm 3 m2 p = clamp_perm 3 mode p"
    and "mode AND - 512 OR m3 AND 0x1FF = limited_mode mode own grp oth"
  unfolding limited_mode_def m1_def m2_def m3_def clamp_mode_def clamp_perm_def
  by (rule u16_eqI; simp add: upt_rec_numeral bit_simps bit_numeral_word_iff; blast?)+

text \<open>C30: Creation under a default list: for every list in canonical order, the owner and other entries
  and the mask (the owning group, when there is no mask) keep those permissions that the requested mode has,
  the new mode keeps of each of its three classes what the list gives, its other bits stay, and the list is
  reported as more than a mode exactly when it names a user or a group or has a mask.\<close>

theorem create_masq_canonical:
  assumes "canonical_acl es owner users group_obj groups msk others"
  shows "posix_acl_create_masq es mode =
    (clamp 6 mode owner # users @ (if msk = [] then clamp 3 mode group_obj else group_obj) # groups
       @ map (clamp 3 mode) msk @ [clamp 0 mode others],
     limited_mode mode (ae_perm owner) (ae_perm (hd (msk @ [group_obj]))) (ae_perm others),
     users @ groups @ msk \<noteq> [])"
proof -
  have c: "es = owner # users @ group_obj # groups @ msk @ [others]" "ae_tag owner = ACL_USER_OBJ"
    "\<forall>e \<in> set users. ae_tag e = ACL_USER \<or> ae_tag e = ACL_GROUP" "ae_tag group_obj = ACL_GROUP_OBJ"
    "\<forall>e \<in> set groups. ae_tag e = ACL_USER \<or> ae_tag e = ACL_GROUP"
    "length msk \<le> 1" "\<forall>e \<in> set msk. ae_tag e = ACL_MASK" "ae_tag others = ACL_OTHER"
    using assms by (auto simp: canonical_acl_def)
  show ?thesis
  proof (cases msk)
    case Nil
    show ?thesis
      unfolding posix_acl_create_masq_def c(1) append.simps masq_loop.simps
      by (simp add: Let_def c(2,4,8) Nil masq_loop_named [OF c(3)] masq_loop_named [OF c(5)] acl_tags clamp_group_def clamp_def
          masq_words) blast?
  next
    case (Cons k ks)
    then have k: "msk = [k]" "ae_tag k = ACL_MASK" using c(6,7) by auto
    have at: "(us @ g # gs @ x # xs) ! Suc (length us + length gs) = x"
      "(us @ g # gs @ x # xs)[Suc (length us + length gs) := y] = us @ g # gs @ y # xs"
      for us gs xs :: "acl_entry list" and g x y
      by (simp_all add: nth_append list_update_append)
    show ?thesis
      unfolding posix_acl_create_masq_def c(1) append.simps masq_loop.simps
      by (simp add: Let_def c(2,4,8) k masq_loop_named [OF c(3)] masq_loop_named [OF c(5)] acl_tags clamp_group_def clamp_def
          masq_words at)
  qed
qed

theorem create_masq_canonical_witness:
  "posix_acl_create_masq [\<lparr> ae_tag = 1, ae_perm = 7, ae_id = 0 \<rparr>, \<lparr> ae_tag = 4, ae_perm = 5, ae_id = 0 \<rparr>,
      \<lparr> ae_tag = 8, ae_perm = 7, ae_id = 9 \<rparr>, \<lparr> ae_tag = 16, ae_perm = 7, ae_id = 0 \<rparr>, \<lparr> ae_tag = 32, ae_perm = 4, ae_id = 0 \<rparr>] 0x1E6 =
    ([\<lparr> ae_tag = 1, ae_perm = 7, ae_id = 0 \<rparr>, \<lparr> ae_tag = 4, ae_perm = 5, ae_id = 0 \<rparr>,
      \<lparr> ae_tag = 8, ae_perm = 7, ae_id = 9 \<rparr>, \<lparr> ae_tag = 16, ae_perm = 4, ae_id = 0 \<rparr>, \<lparr> ae_tag = 32, ae_perm = 4, ae_id = 0 \<rparr>],
     0x1E4, True)"
proof -
  have c: "canonical_acl [\<lparr> ae_tag = 1, ae_perm = 7, ae_id = 0 \<rparr>, \<lparr> ae_tag = 4, ae_perm = 5, ae_id = 0 \<rparr>,
      \<lparr> ae_tag = 8, ae_perm = 7, ae_id = 9 \<rparr>, \<lparr> ae_tag = 16, ae_perm = 7, ae_id = 0 \<rparr>, \<lparr> ae_tag = 32, ae_perm = 4, ae_id = 0 \<rparr>]
    \<lparr> ae_tag = 1, ae_perm = 7, ae_id = 0 \<rparr> [] \<lparr> ae_tag = 4, ae_perm = 5, ae_id = 0 \<rparr> [\<lparr> ae_tag = 8, ae_perm = 7, ae_id = 9 \<rparr>]
    [\<lparr> ae_tag = 16, ae_perm = 7, ae_id = 0 \<rparr>] \<lparr> ae_tag = 32, ae_perm = 4, ae_id = 0 \<rparr>"
    by (simp add: canonical_acl_def acl_tags)
  show ?thesis
    by (subst create_masq_canonical [OF c]) (simp add: clamp_def clamp_perm_def limited_mode_def)
qed

end
