(* ===== verification/XattrOps.thy ===== *)
theory XattrOps
  imports FileOps Xattr Acl
begin

text \<open>
  Extended attributes on the device (\<open>src/src/ext4_impls/xattr.rs\<close>) and the operations of access lists
  that are made of them (\<open>src/src/ext4_impls/acl.rs\<close>). Storing attributes may write and truncate the
  inodes of large values, so the operations that do take the fuel of \<open>FileWrite\<close>.

  The property states the contract of an attribute store for attributes in the inode body: what was set is
  what a later lookup returns, other attributes and everything outside the inode record stay.
\<close>

unbundle bit_operations_syntax

section \<open>Reading\<close>

definition xattr_block_of :: "inode \<Rightarrow> u64" where
  "xattr_block_of i = ucast (i_file_acl i) OR push_bit 32 (ucast (l_i_file_acl_high (i_osd2 i)))"

definition ibody_off :: "inode \<Rightarrow> nat" where
  "ibody_off i = 128 + unat (i_extra_isize i)"

text \<open>The attributes in the inode record of \<open>ino\<close>, from \<open>off\<close> on.\<close>

definition ibody_attrs_at :: "ext4 \<Rightarrow> u32 \<Rightarrow> nat \<Rightarrow> nat \<Rightarrow> (jdev, parsed_xattr list) io" where
  "ibody_attrs_at fs ino off isize =
     bindS (inode_disk_pos fs ino) (\<lambda>pos.
     bindS (jd_read pos isize) (\<lambda>record.
     if (le_word (slice record off 4) :: u32) \<noteq> EXT4_XATTR_MAGIC then ret []
     else let region = slice record (off + 4) (isize - (off + 4)) in ret (parse_entries region region)))"

definition block_attrs :: "ext4 \<Rightarrow> u64 \<Rightarrow> (jdev, parsed_xattr list) io" where
  "block_attrs fs blk =
     (let bs = fs_block_size fs in
      bindS (jd_read (unat blk * bs) bs) (\<lambda>data.
      bindS (lift (get_at data 0 4)) (\<lambda>magic.
      if (le_word magic :: u32) \<noteq> EXT4_XATTR_MAGIC then ret []
      else if length data < BLOCK_HDR then lift Panic
      else ret (parse_entries (drop BLOCK_HDR data) data))))"

fun resolve_values :: "ext4 \<Rightarrow> parsed_xattr list \<Rightarrow> (jdev, parsed_xattr list) io" where
  "resolve_values fs [] = ret []"
| "resolve_values fs (a # attrs) =
     bindS (if px_inum a = 0 then ret a
            else or_value (bindS (read_at fs (px_inum a) 0 (replicate (px_size a) 0)) (\<lambda>(_, buf).
                   ret (a\<lparr> px_value := buf, px_inum := 0 \<rparr>))) (a\<lparr> px_inum := 0 \<rparr>)) (\<lambda>a.
     bindS (resolve_values fs attrs) (\<lambda>attrs. ret (a # attrs)))"

definition xattr_collect :: "ext4 \<Rightarrow> u32 \<Rightarrow> (jdev, parsed_xattr list) io" where
  "xattr_collect fs ino =
     bindS (get_inode_ref fs ino) (\<lambda>r.
     let isize = unat (sb_inode_size (fs_sb fs)); i = ir_inode r; off = ibody_off i in
     bindS (if 0 < i_extra_isize i \<and> off + 4 \<le> isize then ibody_attrs_at fs ino off isize else ret []) (\<lambda>inline.
     bindS (if xattr_block_of i \<noteq> 0 then block_attrs fs (xattr_block_of i) else ret []) (\<lambda>external.
     resolve_values fs (inline @ external))))"

definition has_key :: "u8 \<Rightarrow> bytes \<Rightarrow> parsed_xattr \<Rightarrow> bool" where
  "has_key idx suffix a \<longleftrightarrow> px_index a = idx \<and> px_name a = suffix"

definition xattr_get :: "ext4 \<Rightarrow> u32 \<Rightarrow> bytes \<Rightarrow> (jdev, bytes) io" where
  "xattr_get fs ino name = (case split_name name of
     None \<Rightarrow> lift (Err ENODATA)
   | Some (idx, suffix) \<Rightarrow>
       bindS (xattr_collect fs ino) (\<lambda>attrs.
       lift (case find (has_key idx suffix) attrs of Some a \<Rightarrow> Ok (px_value a) | None \<Rightarrow> Err ENODATA)))"

definition xattr_list :: "ext4 \<Rightarrow> u32 \<Rightarrow> (jdev, bytes list) io" where
  "xattr_list fs ino =
     bindS (xattr_collect fs ino) (\<lambda>attrs.
     ret (List.map_filter (\<lambda>a. join_name (px_index a) (px_name a)) attrs))"

section \<open>The inode body\<close>

definition ibody_geometry :: "ext4 \<Rightarrow> inode \<Rightarrow> (nat \<times> nat) option" where
  "ibody_geometry fs i =
     (let isize = unat (sb_inode_size (fs_sb fs)); off = ibody_off i in
      if 0 < i_extra_isize i \<and> off + 4 < isize then Some (off, isize) else None)"

definition read_ibody_attrs :: "ext4 \<Rightarrow> u32 \<Rightarrow> inode \<Rightarrow> (jdev, parsed_xattr list) io" where
  "read_ibody_attrs fs ino i = (case ibody_geometry fs i of
     None \<Rightarrow> ret []
   | Some (off, isize) \<Rightarrow> ibody_attrs_at fs ino off isize)"

definition write_ibody_attrs :: "ext4 \<Rightarrow> u32 \<Rightarrow> parsed_xattr list \<Rightarrow> (jdev, unit) io" where
  "write_ibody_attrs fs ino attrs =
     bindS (get_inode_ref fs ino) (\<lambda>r.
     case ibody_geometry fs (ir_inode r) of
       None \<Rightarrow> if attrs = [] then ret () else lift (Err ENOSPC)
     | Some (off, isize) \<Rightarrow>
         bindS (inode_disk_pos fs ino) (\<lambda>inode_pos.
         if attrs = [] then
           bindS (jd_write (inode_pos + off) (replicate (isize - off) 0)) (\<lambda>_.
           bindS (write_back_inode fs r) (\<lambda>_. ret ()))
         else case serialize_region attrs (isize - off - 4) of
           None \<Rightarrow> lift (Err ENOSPC)
         | Some region \<Rightarrow>
             bindS (jd_write (inode_pos + off) (le_bytes 4 EXT4_XATTR_MAGIC @ region)) (\<lambda>_.
             bindS (write_back_inode fs r) (\<lambda>_. ret ()))))"

section \<open>Inodes that hold values\<close>

definition EXT4_EA_INODE_FL :: u32 where "EXT4_EA_INODE_FL = 0x200000"
definition EXT4_FEATURE_INCOMPAT_EA_INODE :: u32 where "EXT4_FEATURE_INCOMPAT_EA_INODE = 0x400"

definition ea_inode :: "superblock \<Rightarrow> inode" where
  "ea_inode sb =
     (let i = default_inode\<lparr> i_mode := S_IFREG OR 0x180, i_links_count := 1 \<rparr>;
          i = (if 128 < sb_inode_size sb then i\<lparr> i_extra_isize := sb_get 2 ''want_extra_isize'' sb \<rparr> else i)
      in extent_tree_init (i\<lparr> i_flags := 0x80000 OR EXT4_EA_INODE_FL \<rparr>))"

definition create_ea_inode :: "nat \<Rightarrow> ext4 \<Rightarrow> u32 \<Rightarrow> bytes \<Rightarrow> (jdev, (u32 \<times> u64) option) io" where
  "create_ea_inode fuel fs parent value =
     bindS (ialloc_alloc_inode fs False) (\<lambda>ino.
     bindS (get_inode_ref fs ino) (\<lambda>iref.
     bindS (write_back_inode_without_csum fs (iref\<lparr> ir_inode := ea_inode (fs_sb fs) \<rparr>)) (\<lambda>_.
     bindO (write_at fuel fs ino 0 value) (\<lambda>_.
     bindS (get_inode_ref fs ino) (\<lambda>iref.
     let i = ir_inode iref;
         iref = iref\<lparr> ir_inode := i\<lparr> i_atime := hash_entry [] value, i_ctime := 0, i_osd1 := 1, i_mtime := parent,
           i_links_count := 1, i_flags := i_flags i OR EXT4_EA_INODE_FL \<rparr> \<rparr> in
     bindS (write_back_inode fs iref) (\<lambda>iref. ret (Some (ino, inode_blocks_count (ir_inode iref)))))))))"

definition free_ea_inode :: "nat \<Rightarrow> ext4 \<Rightarrow> u32 \<Rightarrow> (jdev, unit option) io" where
  "free_ea_inode fuel fs inum =
     bindS (get_inode_ref fs inum) (\<lambda>iref.
     bindO (truncate_inode fuel fs iref 0) (\<lambda>iref.
     bindS (write_back_inode_without_csum fs (iref\<lparr> ir_inode := default_inode \<rparr>)) (\<lambda>_.
     bindS (ialloc_free_inode fs inum False) (\<lambda>_. ret (Some ())))))"

fun free_values :: "nat \<Rightarrow> ext4 \<Rightarrow> u64 \<Rightarrow> parsed_xattr list \<Rightarrow> (jdev, u64 option) io" where
  "free_values fuel fs units [] = ret (Some units)"
| "free_values fuel fs units (e # es) =
     (if px_inum e = 0 then free_values fuel fs units es
      else bindS (get_inode_ref fs (px_inum e)) (\<lambda>r.
        bindO (free_ea_inode fuel fs (px_inum e)) (\<lambda>_.
        free_values fuel fs (units + inode_blocks_count (ir_inode r)) es)))"

definition free_block_ea_inodes :: "nat \<Rightarrow> ext4 \<Rightarrow> u32 \<Rightarrow> (jdev, u64 option) io" where
  "free_block_ea_inodes fuel fs ino =
     bindS (get_inode_ref fs ino) (\<lambda>r.
     let blk = xattr_block_of (ir_inode r) in
     if blk = 0 then ret (Some 0) else bindS (block_attrs fs blk) (free_values fuel fs 0))"

section \<open>The block\<close>

definition xattr_block_checksum :: "superblock \<Rightarrow> u64 \<Rightarrow> bytes \<Rightarrow> u32 res" where
  "xattr_block_checksum sb block_nr block =
     (if (sb_get 4 ''features_read_only'' sb :: u32) AND 0x400 = 0 then Ok 0
      else bind (ext4_crc32c EXT4_CRC32_INIT (slice sb (offset_of superblock_layout ''uuid'') 16) 16) (\<lambda>seed.
           bind (ext4_crc32c seed (le_bytes 8 block_nr) 8) (\<lambda>c.
           bind (get_at block 0 16) (\<lambda>head.
           bind (ext4_crc32c c head 16) (\<lambda>c.
           bind (ext4_crc32c c (replicate 4 0) 4) (\<lambda>c.
           if length block < 20 then Panic
           else ext4_crc32c c (drop 20 block) (of_nat (length block - 20))))))))"

definition set_xattr_block :: "u64 \<Rightarrow> inode \<Rightarrow> inode" where
  "set_xattr_block blk i = i\<lparr> i_file_acl := ucast blk,
     i_osd2 := (i_osd2 i)\<lparr> l_i_file_acl_high := ucast (drop_bit 32 blk) \<rparr> \<rparr>"

text \<open>The attributes as the block will hold them, large values stored in inodes, and the blocks charged.\<close>

fun prepare_values :: "nat \<Rightarrow> ext4 \<Rightarrow> u32 \<Rightarrow> parsed_xattr list \<Rightarrow> (jdev, (parsed_xattr list \<times> u64) option) io" where
  "prepare_values fuel fs ino [] = ret (Some ([], 0))"
| "prepare_values fuel fs ino (a # attrs) =
     (let p = a\<lparr> px_inum := 0, px_size := length (px_value a) \<rparr> in
      bindO (if incompat_features (fs_sb fs) AND EXT4_FEATURE_INCOMPAT_EA_INODE \<noteq> 0 \<and> fs_block_size fs \<le> length (px_value a)
             then create_ea_inode fuel fs ino (px_value a) else ret (Some (0, 0))) (\<lambda>(inum, units).
      bindO (prepare_values fuel fs ino attrs) (\<lambda>(prepared, new_units).
      ret (Some (p\<lparr> px_inum := inum \<rparr> # prepared, units + new_units)))))"

definition write_block_attrs :: "nat \<Rightarrow> ext4 \<Rightarrow> u32 \<Rightarrow> parsed_xattr list \<Rightarrow> (jdev, unit option) io" where
  "write_block_attrs fuel fs ino attrs =
     bindO (free_block_ea_inodes fuel fs ino) (\<lambda>old_ea_units.
     let bs = fs_block_size fs in
     bindO (prepare_values fuel fs ino attrs) (\<lambda>(prepared, new_ea_units).
     bindS (lift (serialize_block prepared bs)) (\<lambda>serialized.
     case serialized of None \<Rightarrow> lift (Err ENOSPC) | Some block \<Rightarrow>
     bindS (get_inode_ref fs ino) (\<lambda>r.
     let blk = xattr_block_of (ir_inode r) in
     bindS (if blk = 0
            then bindS (balloc_alloc_block fs r None) (\<lambda>(blk, r).
                 ret (blk, r\<lparr> ir_inode := set_xattr_block blk (ir_inode r) \<rparr>))
            else ret (blk, r)) (\<lambda>(blk, r).
     let charged = inode_blocks_count (ir_inode r) + new_ea_units - old_ea_units;
         r = r\<lparr> ir_inode := set_inode_blocks_count charged (ir_inode r) \<rparr> in
     bindS (lift (xattr_block_checksum (fs_sb fs) blk block)) (\<lambda>csum.
     bindS (lift (put_at block 16 (le_bytes 4 csum))) (\<lambda>block.
     bindS (jd_write (unat blk * bs) block) (\<lambda>_.
     bindS (write_back_inode fs r) (\<lambda>_. ret (Some ()))))))))))"

definition free_xattr_block :: "nat \<Rightarrow> ext4 \<Rightarrow> u32 \<Rightarrow> (jdev, unit option) io" where
  "free_xattr_block fuel fs ino =
     bindO (free_block_ea_inodes fuel fs ino) (\<lambda>old_ea_units.
     bindS (get_inode_ref fs ino) (\<lambda>r.
     let blk = xattr_block_of (ir_inode r) in
     if blk = 0 then ret (Some ())
     else let i = set_xattr_block 0 (ir_inode r);
              charged = saturating_sub (inode_blocks_count i) old_ea_units in
       bindS (write_back_inode fs (r\<lparr> ir_inode := set_inode_blocks_count charged i \<rparr>)) (\<lambda>r.
       bindS (balloc_free_blocks fs r blk 1) (\<lambda>_. ret (Some ())))))"

section \<open>Setting and removing\<close>

definition xattr_store :: "nat \<Rightarrow> ext4 \<Rightarrow> u32 \<Rightarrow> parsed_xattr list \<Rightarrow> (jdev, unit option) io" where
  "xattr_store fuel fs ino attrs =
     bindS (get_inode_ref fs ino) (\<lambda>r.
     let i = ir_inode r; has_block = (xattr_block_of i \<noteq> 0);
         fits_ibody = (\<not> has_block \<and> (case ibody_geometry fs i of
           Some (off, isize) \<Rightarrow> serialize_region attrs (isize - off - 4) \<noteq> None | None \<Rightarrow> False)) in
     if attrs = [] then
       bindS (write_ibody_attrs fs ino []) (\<lambda>_. if has_block then free_xattr_block fuel fs ino else ret (Some ()))
     else if fits_ibody then bindS (write_ibody_attrs fs ino attrs) (\<lambda>_. ret (Some ()))
     else bindS (write_ibody_attrs fs ino []) (\<lambda>_. write_block_attrs fuel fs ino attrs))"

definition XATTR_CREATE :: u32 where "XATTR_CREATE = 1"
definition XATTR_REPLACE :: u32 where "XATTR_REPLACE = 2"

definition set_attr :: "u8 \<Rightarrow> bytes \<Rightarrow> bytes \<Rightarrow> parsed_xattr list \<Rightarrow> parsed_xattr list" where
  "set_attr idx suffix value attrs = filter (\<lambda>a. \<not> has_key idx suffix a) attrs
     @ [\<lparr> px_index = idx, px_name = suffix, px_value = value, px_inum = 0, px_size = length value \<rparr>]"

definition xattr_set_impl :: "nat \<Rightarrow> ext4 \<Rightarrow> u32 \<Rightarrow> bytes \<Rightarrow> bytes \<Rightarrow> u32 \<Rightarrow> (jdev, unit option) io" where
  "xattr_set_impl fuel fs ino name value flags = (case split_name name of
     None \<Rightarrow> lift (Err ENOTSUP)
   | Some (idx, suffix) \<Rightarrow>
       bindS (xattr_collect fs ino) (\<lambda>attrs.
       let present = (\<exists>a \<in> set attrs. has_key idx suffix a) in
       if flags AND XATTR_CREATE \<noteq> 0 \<and> present then lift (Err EEXIST)
       else if flags AND XATTR_REPLACE \<noteq> 0 \<and> \<not> present then lift (Err ENODATA)
       else xattr_store fuel fs ino (set_attr idx suffix value attrs)))"

definition xattr_set :: "nat \<Rightarrow> ext4 \<Rightarrow> u32 \<Rightarrow> bytes \<Rightarrow> bytes \<Rightarrow> u32 \<Rightarrow> (jdev, unit option) io" where
  "xattr_set fuel fs ino name value flags = journaled_fuel fs (xattr_set_impl fuel fs ino name value flags)"

definition xattr_remove_impl :: "nat \<Rightarrow> ext4 \<Rightarrow> u32 \<Rightarrow> bytes \<Rightarrow> (jdev, unit option) io" where
  "xattr_remove_impl fuel fs ino name = (case split_name name of
     None \<Rightarrow> lift (Err ENODATA)
   | Some (idx, suffix) \<Rightarrow>
       bindS (xattr_collect fs ino) (\<lambda>attrs.
       let kept = filter (\<lambda>a. \<not> has_key idx suffix a) attrs in
       if length kept = length attrs then lift (Err ENODATA) else xattr_store fuel fs ino kept))"

definition xattr_remove :: "nat \<Rightarrow> ext4 \<Rightarrow> u32 \<Rightarrow> bytes \<Rightarrow> (jdev, unit option) io" where
  "xattr_remove fuel fs ino name = journaled_fuel fs (xattr_remove_impl fuel fs ino name)"

section \<open>Access lists\<close>

definition ACL_ACCESS_NAME :: bytes where "ACL_ACCESS_NAME = str_bytes ''system.posix_acl_access''"
definition ACL_DEFAULT_NAME :: bytes where "ACL_DEFAULT_NAME = str_bytes ''system.posix_acl_default''"

definition try_get :: "ext4 \<Rightarrow> u32 \<Rightarrow> bytes \<Rightarrow> (jdev, bytes option) io" where
  "try_get fs ino name = or_value (bindS (xattr_get fs ino name) (\<lambda>v. ret (Some v))) None"

definition acl_access_check :: "ext4 \<Rightarrow> u32 \<Rightarrow> u16 \<Rightarrow> u16 \<Rightarrow> u16 \<Rightarrow> (jdev, bool option) io" where
  "acl_access_check fs ino req_uid req_gid want =
     bindS (try_get fs ino ACL_ACCESS_NAME) (\<lambda>value.
     case Option.bind value parse_acl of None \<Rightarrow> ret None
     | Some es \<Rightarrow> bindS (get_inode_ref fs ino) (\<lambda>r.
         ret (Some (acl_permission es (i_uid (ir_inode r)) (i_gid (ir_inode r)) req_uid req_gid want))))"

definition with_permissions :: "u16 \<Rightarrow> inode_ref \<Rightarrow> inode_ref" where
  "with_permissions perm r = r\<lparr> ir_inode := (ir_inode r)\<lparr> i_mode := (i_mode (ir_inode r) AND NOT 0x1FF) OR perm \<rparr> \<rparr>"

definition posix_acl_create :: "nat \<Rightarrow> ext4 \<Rightarrow> u32 \<Rightarrow> u32 \<Rightarrow> u16 \<Rightarrow> (jdev, unit option) io" where
  "posix_acl_create fuel fs parent_ino child_ino umask =
     bindS (get_inode_ref fs child_ino) (\<lambda>r.
     if is_link (ir_inode r) then ret (Some ())
     else let dir = is_dir (ir_inode r); perm = i_mode (ir_inode r) AND 0x1FF in
       bindS (try_get fs parent_ino ACL_DEFAULT_NAME) (\<lambda>default_val.
       case Option.bind default_val parse_acl of
         None \<Rightarrow> bindS (write_back_inode fs (with_permissions (perm AND NOT (umask AND 0x1FF)) r)) (\<lambda>_. ret (Some ()))
       | Some es \<Rightarrow>
           let (es, perm, not_equiv) = posix_acl_create_masq es perm in
           bindS (write_back_inode fs (with_permissions (perm AND 0x1FF) r)) (\<lambda>_.
           bindO (if not_equiv then xattr_set fuel fs child_ino ACL_ACCESS_NAME (serialize_acl es) 0 else ret (Some ())) (\<lambda>_.
           if dir then xattr_set fuel fs child_ino ACL_DEFAULT_NAME (the default_val) 0 else ret (Some ())))))"

section \<open>Attribute lists as maps\<close>

text \<open>Keys are unique: no two names split alike.\<close>

lemma split_name_inj: "split_name a = Some k \<Longrightarrow> split_name b = Some k \<Longrightarrow> a = b"
proof -
  have "\<exists>p. name_prefix idx = Some p \<and> full = p @ suffix" if "split_name full = Some (idx, suffix)" for full idx suffix
    using that by (auto simp: split_name_def name_prefix_def strip_prefix_Some split: if_splits option.splits)
  then show "split_name a = Some k \<Longrightarrow> split_name b = Some k \<Longrightarrow> a = b" by (cases k) (metis option.inject)
qed

definition attr_map :: "parsed_xattr list \<Rightarrow> bytes \<Rightarrow> bytes option" where
  "attr_map attrs name = (case split_name name of
     None \<Rightarrow> None | Some (idx, suffix) \<Rightarrow> map_option px_value (find (has_key idx suffix) attrs))"

lemma find_filter: "find P xs = (case filter P xs of [] \<Rightarrow> None | x # _ \<Rightarrow> Some x)"
  by (induction xs) auto

lemma name_le_refl [simp]: "name_le n n"
  by (induction n) auto

lemma filter_key_sort: "filter (has_key idx suffix) (sort_attrs attrs) = filter (has_key idx suffix) attrs"
proof -
  have "filter (has_key idx suffix) (insert_attr a bs) = filter (has_key idx suffix) (a # bs)" for a bs
  proof (induction bs)
    case (Cons b bs)
    then show ?case by (auto simp: has_key_def attr_le_def)
  qed simp
  then show ?thesis by (induction attrs) (simp_all add: sort_attrs_def)
qed

lemma attr_map_sorted: "attr_map (map (stored (\<lambda>_. 0)) (sort_attrs attrs)) = attr_map attrs"
proof
  have "find P (map f xs) = map_option f (find (P \<circ> f) xs)" for P and f :: "parsed_xattr \<Rightarrow> parsed_xattr" and xs
    by (induction xs) auto
  moreover have "has_key idx suffix \<circ> stored (\<lambda>_. 0) = has_key idx suffix" for idx suffix
    by (auto simp: has_key_def stored_def)
  ultimately have "find (has_key idx suffix) (map (stored (\<lambda>_. 0)) (sort_attrs attrs)) =
      map_option (stored (\<lambda>_. 0)) (find (has_key idx suffix) attrs)" for idx suffix
    by (simp add: find_filter [of _ "sort_attrs attrs"] filter_key_sort find_filter [of _ attrs])
  moreover have "px_value \<circ> stored (\<lambda>_. 0) = px_value" by (auto simp: stored_def)
  ultimately show "attr_map (map (stored (\<lambda>_. 0)) (sort_attrs attrs)) name = attr_map attrs name" for name
    by (simp add: attr_map_def option.map_comp split: option.split)
qed

lemma find_other: "(idx, suffix) \<noteq> (i, n) \<Longrightarrow> find (has_key i n) (filter (\<lambda>a. \<not> has_key idx suffix a) attrs) = find (has_key i n) attrs"
  by (induction attrs) (auto simp: has_key_def)

lemma find_same: "find (has_key idx suffix) (filter (\<lambda>a. \<not> has_key idx suffix a) attrs) = None"
  by (auto simp: find_None_iff)

lemma find_in_append: "find P (xs @ ys) = (case find P xs of None \<Rightarrow> find P ys | Some x \<Rightarrow> Some x)"
  by (induction xs) auto

lemma attr_map_set:
  assumes "split_name name = Some (idx, suffix)"
  shows "attr_map (set_attr idx suffix value attrs) = (attr_map attrs)(name \<mapsto> value)"
    and "attr_map (filter (\<lambda>a. \<not> has_key idx suffix a) attrs) = (attr_map attrs)(name := None)"
proof -
  have other: "(idx, suffix) \<noteq> (i, n)" if "k \<noteq> name" "split_name k = Some (i, n)" for k i n
    using split_name_inj [of k "(i, n)" name] that assms by auto
  have new: "has_key i n \<lparr> px_index = idx, px_name = suffix, px_value = value, px_inum = 0, px_size = length value \<rparr>
      \<longleftrightarrow> (idx, suffix) = (i, n)" for i n
    by (auto simp: has_key_def)
  show "attr_map (set_attr idx suffix value attrs) = (attr_map attrs)(name \<mapsto> value)"
  proof
    fix k
    show "attr_map (set_attr idx suffix value attrs) k = ((attr_map attrs)(name \<mapsto> value)) k"
    proof (cases "k = name")
      case True
      then show ?thesis by (simp add: attr_map_def assms set_attr_def find_in_append find_same new)
    next
      case False
      then show ?thesis using other [OF False]
        by (auto simp: attr_map_def set_attr_def find_in_append find_other new split: option.split prod.split)
    qed
  qed
  show "attr_map (filter (\<lambda>a. \<not> has_key idx suffix a) attrs) = (attr_map attrs)(name := None)"
  proof
    fix k
    show "attr_map (filter (\<lambda>a. \<not> has_key idx suffix a) attrs) k = ((attr_map attrs)(name := None)) k"
    proof (cases "k = name")
      case True
      then show ?thesis by (simp add: attr_map_def assms find_same)
    next
      case False
      then show ?thesis using other [OF False] by (auto simp: attr_map_def find_other split: option.split)
    qed
  qed
qed

lemma parse_step:
  "parse_loop es base off = [] \<or> (\<exists>e n. off + 16 \<le> length es \<and> 16 \<le> n
    \<and> parse_loop es base off = e # parse_loop es base (off + n) \<and> (length base < 2 ^ 32 \<longrightarrow> storable inum_of e))"
proof -
  let ?n = "unat (es ! off)"
  have n: "?n \<le> 255" using unat_bound [of "es ! off"] by simp
  show ?thesis
  proof (cases "length es < off + 4 \<or> ?n = 0 \<and> es ! (off + 1) = 0 \<or> length es < off + ENTRY_FIXED + ?n")
    case True
    then show ?thesis by (subst parse_loop.simps) (auto simp: Let_def)
  next
    case False
    then have len: "off + 16 + ?n \<le> length es" "?n \<noteq> 0 \<or> es ! (off + 1) \<noteq> 0" by (auto simp: ENTRY_FIXED_def)
    let ?v = "if (le_word (slice es (off + 4) 4) :: u32) = 0 \<and> unat (le_word (slice es (off + 2) 2) :: u16)
        + unat (le_word (slice es (off + 8) 4) :: u32) \<le> length base
      then slice base (unat (le_word (slice es (off + 2) 2) :: u16)) (unat (le_word (slice es (off + 8) 4) :: u32)) else []"
    have v: "length ?v \<le> length base" by auto
    define e where "e = \<lparr> px_index = es ! (off + 1), px_name = slice es (off + ENTRY_FIXED) ?n, px_value = ?v,
        px_inum = le_word (slice es (off + 4) 4), px_size = unat (le_word (slice es (off + 8) 4) :: u32) \<rparr>"
    have e: "parse_loop es base off = e # parse_loop es base (off + entry_len ?n)"
      using False unfolding e_def by (subst parse_loop.simps) (simp add: Let_def)
    have l: "length (px_name e) = ?n" using len(1) by (simp add: e_def ENTRY_FIXED_def)
    have x: "px_index e = es ! (off + 1)" by (simp add: e_def)
    have "px_value e = ?v" by (simp add: e_def)
    then have "length (px_value e) \<le> length base" using v by (simp only:)
    moreover have "px_name e \<noteq> [] \<or> px_index e \<noteq> 0" using l x len(2) by fastforce
    ultimately have "storable inum_of e" if "length base < 2 ^ 32"
      using that l n unfolding storable_def by linarith
    moreover have "off + 16 \<le> length es" "16 \<le> entry_len ?n" using len(1) entry_len_bounds(1) [of ?n] by auto
    ultimately show ?thesis using e by blast
  qed
qed

lemma parse_storable: "length base < 2 ^ 32 \<Longrightarrow> a \<in> set (parse_loop es base off) \<Longrightarrow> storable inum_of a"
proof (induction "length es - off" arbitrary: off rule: less_induct)
  case less
  consider "parse_loop es base off = []" | e n where "off + 16 \<le> length es" "16 \<le> n"
    "parse_loop es base off = e # parse_loop es base (off + n)" "storable inum_of e"
    using parse_step [of es base off inum_of] less.prems(1) by blast
  then show ?case
  proof cases
    case 2
    have "storable inum_of a" if "a \<in> set (parse_loop es base (off + n))"
      by (rule less.hyps [OF _ less.prems(1) that]) (use 2 in simp)
    then show ?thesis using 2 less.prems(2) by auto
  qed (use less.prems in simp)
qed

section \<open>What a reader of the inode body sees\<close>

definition body_attrs :: "ext4 \<Rightarrow> (nat \<Rightarrow> u8) \<Rightarrow> u32 \<Rightarrow> parsed_xattr list" where
  "body_attrs fs v ino =
     (let n = unat (sb_inode_size (fs_sb fs)); off = ibody_off (inode_at fs v ino);
          record = image_read v (inode_pos fs v ino) n; region = slice record (off + 4) (n - (off + 4)) in
      if (le_word (slice record off 4) :: u32) \<noteq> EXT4_XATTR_MAGIC then [] else parse_entries region region)"

text \<open>The inode record of \<open>ino\<close> has room for attributes behind the struct, no attribute block and no
  value inodes, and the descriptor of its group lies elsewhere.\<close>

definition body_ready :: "ext4 \<Rightarrow> (nat \<Rightarrow> u8) \<Rightarrow> u32 \<Rightarrow> bool" where
  "body_ready fs v ino \<longleftrightarrow> inodes_ready fs \<and> ibody_geometry fs (inode_at fs v ino) \<noteq> None
     \<and> 156 \<le> ibody_off (inode_at fs v ino) \<and> xattr_block_of (inode_at fs v ino) = 0
     \<and> apart (desc_pos (fs_sb fs) (inode_group (fs_sb fs) ino), 64) (inode_pos fs v ino, unat (sb_inode_size (fs_sb fs)))
     \<and> (\<forall>a \<in> set (body_attrs fs v ino). px_inum a = 0)"

lemma resolve_inline: "\<forall>a \<in> set attrs. px_inum a = 0 \<Longrightarrow> resolve_values fs attrs = ret attrs"
proof (induction attrs)
  case (Cons a attrs)
  then show ?case by (simp add: fun_eq_iff bindS_def)
qed (simp add: fun_eq_iff)

lemma collect_body:
  assumes "jd_inv s" and "body_ready fs (jd_view s) ino"
  shows "xattr_collect fs ino s = (Ok (body_attrs fs (jd_view s) ino), s)"
proof -
  let ?v = "jd_view s"
  have ready: "inodes_ready fs" and geo: "ibody_geometry fs (inode_at fs ?v ino) \<noteq> None"
    and blk: "xattr_block_of (inode_at fs ?v ino) = 0" and inl: "\<forall>a \<in> set (body_attrs fs ?v ino). px_inum a = 0"
    using assms(2) by (simp_all add: body_ready_def)
  have pos: "inode_disk_pos fs ino s = (Ok (inode_pos fs ?v ino), s)"
    using assms(1) ready
    by (simp add: inode_disk_pos_def inodes_ready_def load_new_eq bindS_def Let_def inode_pos_def inode_group_def desc_at_def desc_pos_def)
  have guard: "0 < i_extra_isize (inode_at fs ?v ino)" "ibody_off (inode_at fs ?v ino) + 4 \<le> unat (sb_inode_size (fs_sb fs))"
    using geo by (auto simp: ibody_geometry_def Let_def split: if_splits)
  have body: "ibody_attrs_at fs ino (ibody_off (inode_at fs ?v ino)) (unat (sb_inode_size (fs_sb fs))) s =
      (Ok (body_attrs fs ?v ino), s)"
    using assms(1) by (simp add: ibody_attrs_at_def bindS_def pos jd_read_view body_attrs_def Let_def)
  show ?thesis
    using guard by (simp add: xattr_collect_def bindS_def get_inode_ref_eq [OF assms(1) ready] Let_def body blk resolve_inline [OF inl])
qed

lemma le_word_zeros [simp]: "le_word (replicate n 0) = (0 :: 'a::len word)"
  by (induction n) (simp_all add: le_word_Cons)

text \<open>Storing attributes that fit into the body.\<close>

definition fits_body :: "ext4 \<Rightarrow> (nat \<Rightarrow> u8) \<Rightarrow> u32 \<Rightarrow> parsed_xattr list \<Rightarrow> bool" where
  "fits_body fs v ino attrs \<longleftrightarrow> attrs = []
     \<or> serialize_region attrs (unat (sb_inode_size (fs_sb fs)) - ibody_off (inode_at fs v ino) - 4) \<noteq> None"

definition body_bytes :: "nat \<Rightarrow> parsed_xattr list \<Rightarrow> bytes" where
  "body_bytes n attrs = (if attrs = [] then replicate n 0
     else le_bytes 4 EXT4_XATTR_MAGIC @ the (serialize_region attrs (n - 4)))"

lemma store_body:
  assumes inv: "jd_inv s" and body: "body_ready fs (jd_view s) ino" and fits: "fits_body fs (jd_view s) ino attrs"
    and st: "\<forall>a \<in> set attrs. storable (\<lambda>_. 0) a"
  shows "\<exists>t d. xattr_store fuel fs ino attrs s = (Ok (Some ()), t) \<and> jd_inv t
    \<and> body_ready fs (jd_view t) ino \<and> attr_map (body_attrs fs (jd_view t) ino) = attr_map attrs
    \<and> zero_checksum (inode_at fs (jd_view t) ino) = zero_checksum (inode_at fs (jd_view s) ino)
    \<and> length d = unat (sb_inode_size (fs_sb fs)) \<and> jd_view t = image_write (jd_view s) (inode_pos fs (jd_view s) ino) d"
proof -
  define v where "v = jd_view s"
  define p where "p = inode_pos fs v ino"
  define n where "n = unat (sb_inode_size (fs_sb fs))"
  define i where "i = inode_at fs v ino"
  define off where "off = ibody_off i"
  define b where "b = body_bytes (n - off) attrs"
  define v1 where "v1 = image_write v (p + off) b"
  define r where "r = \<lparr> ir_inode_num = ino, ir_inode = i \<rparr>"
  define c where "c = checksummed fs v1 r"
  define v2 where "v2 = image_write v1 p (inode_bytes c)"
  have ready: "inodes_ready fs" and geo: "ibody_geometry fs i = Some (off, n)" and low: "156 \<le> off"
    and blk: "xattr_block_of i = 0" and apart: "apart (desc_pos (fs_sb fs) (inode_group (fs_sb fs) ino), 64) (p, n)"
    using body by (auto simp: body_ready_def ibody_geometry_def Let_def i_def v_def off_def n_def p_def split: if_splits)
  have n: "off + 4 < n" "n \<le> 256"
    using geo ready by (auto simp: ibody_geometry_def Let_def off_def inodes_ready_def word_le_nat_alt n_def split: if_splits)
  have region: "attrs \<noteq> [] \<Longrightarrow> \<exists>region. serialize_region attrs (n - off - 4) = Some region \<and> length region = n - off - 4
      \<and> parse_entries region region = map (stored (\<lambda>_. 0)) (sort_attrs attrs)"
    using fits region_parse [of attrs "n - off - 4"] st n by (auto simp: fits_body_def n_def off_def i_def v_def)
  have b: "length b = n - off" using region n by (auto simp: b_def body_bytes_def diff_diff_left add.commute)
  have i60: "length (i_block i) = 60" by (simp add: i_def inode_at_def inode_of_bytes_def)
  have posv: "inode_pos fs (image_write w a d) ino = inode_pos fs w ino" if "p \<le> a" "a + length d \<le> p + n" for w a d
  proof -
    have "desc_at (image_write w a d) (fs_sb fs) (inode_group (fs_sb fs) ino) = desc_at w (fs_sb fs) (inode_group (fs_sb fs) ino)"
      unfolding desc_at_def by (rule image_read_write_apart) (use apart that in \<open>auto simp: apart_def\<close>)
    then show ?thesis by (simp add: inode_pos_def)
  qed
  have pos1: "inode_pos fs v1 ino = p" using posv [of "p + off" b v] b n by (simp add: v1_def p_def)
  note c = checksummed_props [where fs = fs and v = v1 and r = r, folded c_def, unfolded r_def inode_ref.simps, OF i60]
  have pos2: "inode_pos fs v2 ino = p" using posv [of p "inode_bytes c" v1] c(3) low n pos1 by (simp add: v2_def)
  have at2: "inode_at fs v2 ino = c"
    using c(2,3) inode_roundtrip [of c "[]"] by (simp add: inode_at_def pos2) (simp add: v2_def read_written)
  have same: "i_extra_isize c = i_extra_isize i" "xattr_block_of c = xattr_block_of i" "ibody_geometry fs c = ibody_geometry fs i"
    "ibody_off c = off"
  proof -
    have "i_extra_isize c = i_extra_isize i" "i_file_acl c = i_file_acl i" "l_i_file_acl_high (i_osd2 c) = l_i_file_acl_high (i_osd2 i)"
      using arg_cong [OF c(1), of i_extra_isize] arg_cong [OF c(1), of i_file_acl]
        arg_cong [OF c(1), of "\<lambda>x. l_i_file_acl_high (i_osd2 x)"]
      by (simp_all add: zero_checksum_def)
    then show "i_extra_isize c = i_extra_isize i" "xattr_block_of c = xattr_block_of i"
      "ibody_geometry fs c = ibody_geometry fs i" "ibody_off c = off"
      by (simp_all add: xattr_block_of_def ibody_geometry_def ibody_off_def off_def)
  qed
  have tail: "image_read v2 (p + off) m = take m b" if "m \<le> n - off" for m
  proof -
    have "image_read v2 (p + off) m = image_read v1 (p + off) m"
      using c(3) low by (simp add: v2_def image_read_write_apart)
    also have "\<dots> = take m b"
      using that b by (intro nth_equalityI) (auto simp: nth_image_read v1_def image_write_def)
    finally show ?thesis .
  qed
  have parts: "slice (image_read v2 p n) off 4 = take 4 b" "slice (image_read v2 p n) (off + 4) (n - (off + 4)) = drop 4 b"
  proof -
    show "slice (image_read v2 p n) off 4 = take 4 b" using n tail [of 4] by (simp add: slice_image_read)
    have "slice (image_read v2 p n) (off + 4) (n - (off + 4)) = drop 4 (image_read v2 (p + off) (n - off))"
      using n by (intro nth_equalityI) (auto simp: nth_slice nth_image_read add.assoc)
    then show "slice (image_read v2 p n) (off + 4) (n - (off + 4)) = drop 4 b" using tail [of "n - off"] b by simp
  qed
  have attrs2: "body_attrs fs v2 ino = map (stored (\<lambda>_. 0)) (sort_attrs attrs)"
  proof (cases "attrs = []")
    case True
    have "take 4 b = replicate 4 0" using n by (simp add: b_def body_bytes_def True)
    then show ?thesis
      using parts by (simp add: body_attrs_def pos2 at2 same n_def [symmetric] Let_def True EXT4_XATTR_MAGIC_def sort_attrs_def)
  next
    case False
    with region obtain region where rg: "serialize_region attrs (n - off - 4) = Some region"
      "parse_entries region region = map (stored (\<lambda>_. 0)) (sort_attrs attrs)" by blast
    then have "b = le_bytes 4 EXT4_XATTR_MAGIC @ region" using False by (simp add: b_def body_bytes_def)
    then show ?thesis
      using parts rg(2) by (simp add: body_attrs_def pos2 at2 same n_def [symmetric] Let_def le_word_le_bytes)
  qed
  have wr: "sees (write_ibody_attrs fs ino attrs) s () v2"
  proof -
    have go: "sees (bindS (jd_write (p + off) b) (\<lambda>_. bindS (write_back_inode fs r) (\<lambda>_. ret ()))) t () v2"
      if t: "jd_inv t" "jd_view t = v" for t
    proof (rule sees_bind [OF sees_write [OF t]])
      fix u assume u: "jd_inv u" "jd_view u = image_write v (p + off) b"
      have "sees (write_back_inode fs r) u (r\<lparr> ir_inode := c \<rparr>) v2"
        using sees_write_back [OF u(1,2) ready, of r] i60 pos1 by (simp add: r_def c_def v2_def v1_def)
      then show "sees (bindS (write_back_inode fs r) (\<lambda>_. ret ())) u () v2" by (rule sees_bind) (rule sees_ret)
    qed
    show ?thesis
      unfolding write_ibody_attrs_def
    proof (rule sees_bind [OF sees_get_inode_ref [OF inv v_def [symmetric] ready]])
      fix t assume t: "jd_inv t" "jd_view t = v"
      have "sees (bindS (inode_disk_pos fs ino) (\<lambda>isize_pos.
         if attrs = [] then
           bindS (jd_write (isize_pos + off) (replicate (n - off) 0)) (\<lambda>_. bindS (write_back_inode fs r) (\<lambda>_. ret ()))
         else case serialize_region attrs (n - off - 4) of
           None \<Rightarrow> lift (Err ENOSPC)
         | Some region \<Rightarrow>
             bindS (jd_write (isize_pos + off) (le_bytes 4 EXT4_XATTR_MAGIC @ region)) (\<lambda>_.
             bindS (write_back_inode fs r) (\<lambda>_. ret ())))) t () v2"
      proof (rule sees_bind [OF sees_inode_pos [OF t ready]])
        fix u assume u: "jd_inv u" "jd_view u = v"
        show "sees (if attrs = [] then
           bindS (jd_write (inode_pos fs v ino + off) (replicate (n - off) 0)) (\<lambda>_. bindS (write_back_inode fs r) (\<lambda>_. ret ()))
         else case serialize_region attrs (n - off - 4) of
           None \<Rightarrow> lift (Err ENOSPC)
         | Some region \<Rightarrow>
             bindS (jd_write (inode_pos fs v ino + off) (le_bytes 4 EXT4_XATTR_MAGIC @ region)) (\<lambda>_.
             bindS (write_back_inode fs r) (\<lambda>_. ret ()))) u () v2"
          using go [OF u] region by (auto simp: b_def body_bytes_def p_def)
      qed
      then show "sees (case ibody_geometry fs (ir_inode \<lparr> ir_inode_num = ino, ir_inode = inode_at fs v ino \<rparr>) of
           None \<Rightarrow> if attrs = [] then ret () else lift (Err ENOSPC)
         | Some (off, isize) \<Rightarrow> bindS (inode_disk_pos fs ino) (\<lambda>isize_pos.
         if attrs = [] then
           bindS (jd_write (isize_pos + off) (replicate (isize - off) 0)) (\<lambda>_.
           bindS (write_back_inode fs \<lparr> ir_inode_num = ino, ir_inode = inode_at fs v ino \<rparr>) (\<lambda>_. ret ()))
         else case serialize_region attrs (isize - off - 4) of
           None \<Rightarrow> lift (Err ENOSPC)
         | Some region \<Rightarrow>
             bindS (jd_write (isize_pos + off) (le_bytes 4 EXT4_XATTR_MAGIC @ region)) (\<lambda>_.
             bindS (write_back_inode fs \<lparr> ir_inode_num = ino, ir_inode = inode_at fs v ino \<rparr>) (\<lambda>_. ret ())))) t () v2"
        unfolding r_def i_def [symmetric] inode_ref.simps geo option.case prod.case .
    qed
  qed
  then obtain t where t: "write_ibody_attrs fs ino attrs s = (Ok (), t)" "jd_inv t" "jd_view t = v2" by (auto simp: sees_def)
  have store: "xattr_store fuel fs ino attrs s = (Ok (Some ()), t)"
    using region t(1)
    by (cases "attrs = []") (auto simp: xattr_store_def bindS_def get_inode_ref_eq [OF inv ready] Let_def v_def [symmetric] i_def [symmetric] blk geo)
  define d where "d = image_read v2 p n"
  have "image_write v p d = v2"
  proof
    fix k
    show "image_write v p d k = v2 k"
      using b c(3) low n by (auto simp: image_write_def d_def nth_image_read v2_def v1_def)
  qed
  moreover have "body_ready fs v2 ino"
    using ready apart low blk geo unfolding body_ready_def by (simp add: at2 pos2 same attrs2 n_def [symmetric] stored_def)
  moreover have "attr_map (body_attrs fs v2 ino) = attr_map attrs" by (simp add: attrs2 attr_map_sorted)
  moreover have "zero_checksum (inode_at fs v2 ino) = zero_checksum i" using c(1) by (simp add: at2)
  moreover have "length d = n" by (simp add: d_def)
  ultimately show ?thesis
    using store t(2,3) by (intro exI [of _ t] exI [of _ d]) (simp add: v_def p_def n_def i_def)
qed

section \<open>The contract of an attribute store\<close>

text \<open>\<open>rel s m\<close> says that the store \<open>s\<close> holds the attributes of the map \<open>m\<close>. \<open>may_set\<close> and
  \<open>may_remove\<close> say that the outcome finds room.\<close>

locale attribute_store =
  fixes rel :: "'s \<Rightarrow> (bytes \<rightharpoonup> bytes) \<Rightarrow> bool"
    and get_attr :: "bytes \<Rightarrow> ('s, bytes) io"
    and put_attr :: "bytes \<Rightarrow> bytes \<Rightarrow> u32 \<Rightarrow> ('s, unit option) io"
    and drop_attr :: "bytes \<Rightarrow> ('s, unit option) io"
    and may_set :: "'s \<Rightarrow> bytes \<Rightarrow> bytes \<Rightarrow> bool"
    and may_remove :: "'s \<Rightarrow> bytes \<Rightarrow> bool"
  assumes get_law: "rel s m \<Longrightarrow> get_attr name s = (case m name of Some v \<Rightarrow> Ok v | None \<Rightarrow> Err ENODATA, s)"
    and put_law: "rel s m \<Longrightarrow> may_set s name value \<Longrightarrow>
      (if flags AND XATTR_CREATE \<noteq> 0 \<and> m name \<noteq> None then put_attr name value flags s = (Err EEXIST, s)
       else if flags AND XATTR_REPLACE \<noteq> 0 \<and> m name = None then put_attr name value flags s = (Err ENODATA, s)
       else \<exists>t. put_attr name value flags s = (Ok (Some ()), t) \<and> rel t (m(name \<mapsto> value)))"
    and drop_law: "rel s m \<Longrightarrow> may_remove s name \<Longrightarrow>
      (if m name = None then drop_attr name s = (Err ENODATA, s)
       else \<exists>t. drop_attr name s = (Ok (Some ()), t) \<and> rel t (m(name := None)))"
begin

lemma put_then_get:
  assumes "rel s m" "may_set s name value" "put_attr name value flags s = (Ok (Some ()), t)"
  shows "fst (get_attr name t) = Ok value" and "k \<noteq> name \<Longrightarrow> fst (get_attr k t) = fst (get_attr k s)"
proof -
  have "rel t (m(name \<mapsto> value))" using put_law [OF assms(1,2), of flags] assms(3) by (auto split: if_splits)
  then show "fst (get_attr name t) = Ok value" "k \<noteq> name \<Longrightarrow> fst (get_attr k t) = fst (get_attr k s)"
    by (simp_all add: get_law get_law [OF assms(1)])
qed

lemma drop_then_get:
  assumes "rel s m" "may_remove s name" "drop_attr name s = (Ok (Some ()), t)"
  shows "fst (get_attr name t) = Err ENODATA" and "k \<noteq> name \<Longrightarrow> fst (get_attr k t) = fst (get_attr k s)"
proof -
  have "rel t (m(name := None))" using drop_law [OF assms(1,2)] assms(3) by (auto split: if_splits)
  then show "fst (get_attr name t) = Err ENODATA" "k \<noteq> name \<Longrightarrow> fst (get_attr k t) = fst (get_attr k s)"
    by (simp_all add: get_law get_law [OF assms(1)])
qed

end

definition body_store :: "ext4 \<Rightarrow> u32 \<Rightarrow> jdev \<Rightarrow> (bytes \<rightharpoonup> bytes) \<Rightarrow> bool" where
  "body_store fs ino s m \<longleftrightarrow> jd_inv s \<and> body_ready fs (jd_view s) ino \<and> m = attr_map (body_attrs fs (jd_view s) ino)"

definition room_to_set :: "ext4 \<Rightarrow> u32 \<Rightarrow> jdev \<Rightarrow> bytes \<Rightarrow> bytes \<Rightarrow> bool" where
  "room_to_set fs ino s name value \<longleftrightarrow> (case split_name name of None \<Rightarrow> False
   | Some (idx, suffix) \<Rightarrow> length suffix \<le> 255 \<and> length value < 2 ^ 32
       \<and> fits_body fs (jd_view s) ino (set_attr idx suffix value (body_attrs fs (jd_view s) ino)))"

definition room_to_remove :: "ext4 \<Rightarrow> u32 \<Rightarrow> jdev \<Rightarrow> bytes \<Rightarrow> bool" where
  "room_to_remove fs ino s name \<longleftrightarrow> (case split_name name of None \<Rightarrow> True
   | Some (idx, suffix) \<Rightarrow> fits_body fs (jd_view s) ino (filter (\<lambda>a. \<not> has_key idx suffix a) (body_attrs fs (jd_view s) ino)))"

lemma body_attrs_storable:
  "inodes_ready fs \<Longrightarrow> a \<in> set (body_attrs fs v ino) \<Longrightarrow> storable (\<lambda>_. 0) a"
  by (auto simp: body_attrs_def Let_def parse_entries_def inodes_ready_def word_le_nat_alt dest!: parse_storable [rotated]
      split: if_splits)

lemma attr_map_None: "split_name name = Some (idx, suffix) \<Longrightarrow> attr_map attrs name = None \<longleftrightarrow> (\<forall>a \<in> set attrs. \<not> has_key idx suffix a)"
  by (auto simp: attr_map_def find_None_iff)

interpretation body: attribute_store "body_store fs ino" "xattr_get fs ino" "xattr_set_impl fuel fs ino"
    "xattr_remove_impl fuel fs ino" "room_to_set fs ino" "room_to_remove fs ino"
proof
  fix s m name
  assume "body_store fs ino s m"
  then have s: "xattr_collect fs ino s = (Ok (body_attrs fs (jd_view s) ino), s)" "m = attr_map (body_attrs fs (jd_view s) ino)"
    by (auto simp: body_store_def intro: collect_body)
  show "xattr_get fs ino name s = (case m name of Some v \<Rightarrow> Ok v | None \<Rightarrow> Err ENODATA, s)"
    by (simp add: xattr_get_def bindS_def s attr_map_def split: option.split)
next
  fix s m and name val :: bytes and flags :: u32
  assume st: "body_store fs ino s m" and room: "room_to_set fs ino s name val"
  then have s: "jd_inv s" "body_ready fs (jd_view s) ino" "m = attr_map (body_attrs fs (jd_view s) ino)"
    "xattr_collect fs ino s = (Ok (body_attrs fs (jd_view s) ino), s)"
    by (auto simp: body_store_def intro: collect_body)
  obtain idx suffix where n: "split_name name = Some (idx, suffix)" "length suffix \<le> 255" "length val < 2 ^ 32"
    "fits_body fs (jd_view s) ino (set_attr idx suffix val (body_attrs fs (jd_view s) ino))"
    using room by (auto simp: room_to_set_def split: option.splits)
  have idx: "idx \<noteq> 0" using n(1) by (auto simp: split_name_def split: if_splits option.splits)
  have ready: "inodes_ready fs" using s(2) by (simp add: body_ready_def)
  have "\<forall>a \<in> set (set_attr idx suffix val (body_attrs fs (jd_view s) ino)). storable (\<lambda>_. 0) a"
    using body_attrs_storable [OF ready] n(2,3) idx by (auto simp: set_attr_def) (auto simp: storable_def)
  from store_body [OF s(1,2) n(4) this, of fuel] obtain t where
    t: "xattr_store fuel fs ino (set_attr idx suffix val (body_attrs fs (jd_view s) ino)) s = (Ok (Some ()), t)"
    "body_store fs ino t (m(name \<mapsto> val))"
    using attr_map_set(1) [OF n(1)] s(3) by (auto simp: body_store_def)
  have present: "m name \<noteq> None \<longleftrightarrow> (\<exists>a \<in> set (body_attrs fs (jd_view s) ino). has_key idx suffix a)"
    using attr_map_None [OF n(1)] s(3) by auto
  show "if flags AND XATTR_CREATE \<noteq> 0 \<and> m name \<noteq> None then xattr_set_impl fuel fs ino name val flags s = (Err EEXIST, s)
       else if flags AND XATTR_REPLACE \<noteq> 0 \<and> m name = None then xattr_set_impl fuel fs ino name val flags s = (Err ENODATA, s)
       else \<exists>t. xattr_set_impl fuel fs ino name val flags s = (Ok (Some ()), t) \<and> body_store fs ino t (m(name \<mapsto> val))"
    using t present by (auto simp: xattr_set_impl_def n(1) bindS_def s(4) Let_def)
next
  fix s m name
  assume st: "body_store fs ino s m" and room: "room_to_remove fs ino s name"
  then have s: "jd_inv s" "body_ready fs (jd_view s) ino" "m = attr_map (body_attrs fs (jd_view s) ino)"
    "xattr_collect fs ino s = (Ok (body_attrs fs (jd_view s) ino), s)"
    by (auto simp: body_store_def intro: collect_body)
  show "if m name = None then xattr_remove_impl fuel fs ino name s = (Err ENODATA, s)
       else \<exists>t. xattr_remove_impl fuel fs ino name s = (Ok (Some ()), t) \<and> body_store fs ino t (m(name := None))"
  proof (cases "split_name name")
    case None
    then show ?thesis by (simp add: s(3) attr_map_def xattr_remove_impl_def)
  next
    case (Some k)
    then obtain idx suffix where n: "split_name name = Some (idx, suffix)" by (cases k) auto
    let ?kept = "filter (\<lambda>a. \<not> has_key idx suffix a) (body_attrs fs (jd_view s) ino)"
    have fits: "fits_body fs (jd_view s) ino ?kept" using room by (simp add: room_to_remove_def n)
    have "\<forall>a \<in> set ?kept. storable (\<lambda>_. 0) a"
      using body_attrs_storable [of fs] s(2) by (auto simp: body_ready_def)
    from store_body [OF s(1,2) fits this, of fuel] obtain t where
      t: "xattr_store fuel fs ino ?kept s = (Ok (Some ()), t)" "body_store fs ino t (m(name := None))"
      using attr_map_set(2) [OF n] s(3) by (auto simp: body_store_def)
    have absent: "m name = None \<longleftrightarrow> length ?kept = length (body_attrs fs (jd_view s) ino)"
      using attr_map_None [OF n] s(3) length_filter_less [of _ "body_attrs fs (jd_view s) ino" "\<lambda>a. \<not> has_key idx suffix a"]
      by (fastforce simp: filter_id_conv [THEN iffD2])
    show ?thesis using t absent by (auto simp: xattr_remove_impl_def n bindS_def s(4) Let_def)
  qed
qed

text \<open>C33: Attributes in the inode body are a map from names to values. On an inode whose record has room
  behind the struct and no attribute block: a lookup returns the value of the map, or ENODATA; setting with
  XATTR\_CREATE an attribute that is there, or with XATTR\_REPLACE one that is not, fails and writes nothing;
  any other set that fits, and the removal of an attribute, succeed, and the inode then holds the updated
  map, so that a lookup finds exactly what was set and every other attribute is as before. All that holds
  again afterwards, so it holds for any sequence of such operations.\<close>

theorem body_attributes_are_a_map:
  assumes "body_store fs ino s m"
  shows "xattr_get fs ino name s = (case m name of Some v \<Rightarrow> Ok v | None \<Rightarrow> Err ENODATA, s)
    \<and> (room_to_set fs ino s name val \<longrightarrow>
      (if flags AND XATTR_CREATE \<noteq> 0 \<and> m name \<noteq> None then xattr_set_impl fuel fs ino name val flags s = (Err EEXIST, s)
       else if flags AND XATTR_REPLACE \<noteq> 0 \<and> m name = None then xattr_set_impl fuel fs ino name val flags s = (Err ENODATA, s)
       else \<exists>t. xattr_set_impl fuel fs ino name val flags s = (Ok (Some ()), t) \<and> body_store fs ino t (m(name \<mapsto> val))
         \<and> fst (xattr_get fs ino name t) = Ok val \<and> (\<forall>k. k \<noteq> name \<longrightarrow> fst (xattr_get fs ino k t) = fst (xattr_get fs ino k s))))
    \<and> (room_to_remove fs ino s name \<longrightarrow>
      (if m name = None then xattr_remove_impl fuel fs ino name s = (Err ENODATA, s)
       else \<exists>t. xattr_remove_impl fuel fs ino name s = (Ok (Some ()), t) \<and> body_store fs ino t (m(name := None))))"
  using body.get_law [OF assms] body.put_law [OF assms, of name val flags fuel] body.drop_law [OF assms, of name fuel]
    body.put_then_get [OF assms, of name val fuel flags]
  by (fastforce split: if_splits)

text \<open>In \<open>tiny\<close>: inode 12 with 32 extra bytes, all of its record zero behind them.\<close>

definition roomy_inode :: inode where
  "roomy_inode = (inode_of_bytes (replicate 156 0))\<lparr> i_extra_isize := 32 \<rparr>"

definition roomy_image :: "nat \<Rightarrow> u8" where
  "roomy_image = image_write tiny_image 19200 (inode_bytes roomy_inode)"

definition roomy_dev :: jdev where
  "roomy_dev = JournalDevice_new \<lparr> dk_image = roomy_image, dk_events = [] \<rparr> 2048"

lemma roomy_dev [simp]: "jd_inv roomy_dev" "jd_view roomy_dev = roomy_image"
  by (simp_all add: roomy_dev_def jd_inv_def jd_view_def JournalDevice_new_def)

lemma roomy_body:
  "inode_pos tiny_fs roomy_image 12 = 19200" "inode_at tiny_fs roomy_image 12 = roomy_inode"
  "body_attrs tiny_fs roomy_image 12 = []" "body_ready tiny_fs roomy_image 12"
proof -
  have len: "length (i_block roomy_inode) = 60" by (simp add: roomy_inode_def inode_of_bytes_def)
  have "desc_at roomy_image tiny_sb 0 = desc_at tiny_image tiny_sb 0"
    by (simp add: roomy_image_def desc_at_def desc_pos_def read_apart apart_def len)
  then show pos: "inode_pos tiny_fs roomy_image 12 = 19200"
    by (simp add: inode_pos_def inode_group_def saturating_sub_def)
  show at: "inode_at tiny_fs roomy_image 12 = roomy_inode"
    using len inode_roundtrip [of roomy_inode "[]"] by (simp add: inode_at_def pos) (simp add: roomy_image_def read_written)
  have off: "ibody_off roomy_inode = 160" by (simp add: ibody_off_def roomy_inode_def)
  have "slice (image_read roomy_image 19200 256) 160 4 = image_read tiny_image 19360 4"
    by (simp add: slice_image_read roomy_image_def image_read_write_apart len)
  also have "\<dots> = replicate 4 0"
    by (intro nth_equalityI) (auto simp: nth_image_read tiny_image_def image_write_def)
  finally show attrs: "body_attrs tiny_fs roomy_image 12 = []"
    by (simp add: body_attrs_def at pos off Let_def EXT4_XATTR_MAGIC_def)
  have "xattr_block_of roomy_inode = 0"
    by (simp add: xattr_block_of_def roomy_inode_def inode_of_bytes_def osd2_of_bytes_def slice_replicate zeros_get)
  then show "body_ready tiny_fs roomy_image 12"
    by (simp add: body_ready_def at attrs pos off ibody_geometry_def apart_def desc_pos_def inode_group_def saturating_sub_def)
      (simp add: roomy_inode_def)
qed

theorem body_attributes_are_a_map_witness:
  "\<exists>t. xattr_set_impl 0 tiny_fs 12 (str_bytes ''user.a'') [1, 2] 0 roomy_dev = (Ok (Some ()), t)
    \<and> fst (xattr_get tiny_fs 12 (str_bytes ''user.a'') t) = Ok [1, 2]"
proof -
  have st: "body_store tiny_fs 12 roomy_dev (attr_map [])" by (simp add: body_store_def roomy_body)
  have name: "split_name (str_bytes ''user.a'') = Some (1, [97])"
    by (simp add: split_name_def strip_prefix_def str_bytes_def)
  have "room_to_set tiny_fs 12 roomy_dev (str_bytes ''user.a'') [1, 2]"
    by (simp add: room_to_set_def name fits_body_def roomy_body set_attr_def serialize_region_def sort_attrs_def Let_def
        ibody_off_def roomy_inode_def entry_len_def value_pad_def ENTRY_FIXED_def XATTR_PAD_def)
  then show ?thesis
    using body_attributes_are_a_map [OF st, of "str_bytes ''user.a''" "[1, 2]" 0 0] by (auto simp: attr_map_def)
qed

end
