(* ===== verification/Locks.thy ===== *)
theory Locks
  imports Errors
begin

text \<open>
  Advisory byte-range locks (\<open>fuse_getlk\<close>, \<open>fuse_setlk\<close>, \<open>lock_conflict\<close> and
  \<open>lock_remove_owner_range\<close> of \<open>src/src/fuse_interface/mod.rs\<close>, the type \<open>FileLock\<close> and the field
  \<open>locks\<close> of \<open>src/src/ext4_defs/ext4.rs\<close>). The table is runtime state only and no other operation reads
  it, so it is modelled apart from the filesystem: a map from inode numbers to lists of held locks, with
  one operation that changes it.

  The table is a state machine whose steps are requests. Safety is an invariant of the reachable states
  (no two held locks clash); liveness says that a request that is tried again and again
  is granted once the owners in its way release their locks.
\<close>

section \<open>The code\<close>

definition F_RDLCK :: u32 where "F_RDLCK = 0"
definition F_WRLCK :: u32 where "F_WRLCK = 1"
definition F_UNLCK :: u32 where "F_UNLCK = 2"

record file_lock =
  fl_owner :: u64
  fl_pid :: u32
  fl_start :: u64
  fl_end :: u64
  fl_typ :: u32

type_synonym lock_table = "u32 \<Rightarrow> file_lock list option"

definition lock_conflict :: "lock_table \<Rightarrow> u32 \<Rightarrow> u64 \<Rightarrow> u64 \<Rightarrow> u64 \<Rightarrow> u32 \<Rightarrow> file_lock option" where
  "lock_conflict t ino owner start stop typ =
     Option.bind (t ino) (find (\<lambda>l. fl_owner l \<noteq> owner \<and> start \<le> fl_end l \<and> fl_start l \<le> stop
       \<and> (typ = F_WRLCK \<or> fl_typ l = F_WRLCK)))"

definition lock_remove_owner_range :: "lock_table \<Rightarrow> u32 \<Rightarrow> u64 \<Rightarrow> u64 \<Rightarrow> u64 \<Rightarrow> lock_table" where
  "lock_remove_owner_range t ino owner start stop =
     (case t ino of None \<Rightarrow> t
      | Some held \<Rightarrow>
          let held = filter (\<lambda>l. \<not> (fl_owner l = owner \<and> start \<le> fl_end l \<and> fl_start l \<le> stop)) held
          in t(ino := if held = [] then None else Some held))"

definition fuse_getlk :: "lock_table \<Rightarrow> u64 \<Rightarrow> u64 \<Rightarrow> u64 \<Rightarrow> u64 \<Rightarrow> u32 \<Rightarrow> u32 \<Rightarrow> file_lock res" where
  "fuse_getlk t ino lock_owner start stop typ pid =
     (case lock_conflict t (ucast ino) lock_owner start stop typ of
        Some conflict \<Rightarrow> Ok conflict
      | None \<Rightarrow> Ok \<lparr> fl_owner = lock_owner, fl_pid = pid, fl_start = start, fl_end = stop, fl_typ = F_UNLCK \<rparr>)"

definition fuse_setlk :: "u64 \<Rightarrow> u64 \<Rightarrow> u64 \<Rightarrow> u64 \<Rightarrow> u32 \<Rightarrow> u32 \<Rightarrow> (lock_table, unit) io" where
  "fuse_setlk ino lock_owner start stop typ pid t =
     (let ino = ucast ino in
      if typ = F_UNLCK then (Ok (), lock_remove_owner_range t ino lock_owner start stop)
      else if lock_conflict t ino lock_owner start stop typ \<noteq> None then (Err EAGAIN, t)
      else let t = lock_remove_owner_range t ino lock_owner start stop;
               held = (case t ino of None \<Rightarrow> [] | Some held \<Rightarrow> held)
           in (Ok (), t(ino := Some (held @ [\<lparr> fl_owner = lock_owner, fl_pid = pid, fl_start = start, fl_end = stop, fl_typ = typ \<rparr>]))))"

definition locks_release_owner :: "lock_table \<Rightarrow> u64 \<Rightarrow> lock_table" where
  "locks_release_owner t owner ino =
     (case t ino of None \<Rightarrow> None
      | Some held \<Rightarrow>
          let held = filter (\<lambda>l. fl_owner l \<noteq> owner) held in if held = [] then None else Some held)"

definition fuse_flush :: "u64 \<Rightarrow> (lock_table, unit) io" where
  "fuse_flush lock_owner t = (Ok (), locks_release_owner t lock_owner)"

definition fuse_release :: "u64 option \<Rightarrow> (lock_table, unit) io" where
  "fuse_release lock_owner t =
     (Ok (), case lock_owner of Some owner \<Rightarrow> locks_release_owner t owner | None \<Rightarrow> t)"

section \<open>Requests and reachable tables\<close>

record lock_request =
  lr_ino :: u64
  lr_owner :: u64
  lr_start :: u64
  lr_end :: u64
  lr_typ :: u32
  lr_pid :: u32

definition request :: "lock_request \<Rightarrow> (lock_table, unit) io" where
  "request r = fuse_setlk (lr_ino r) (lr_owner r) (lr_start r) (lr_end r) (lr_typ r) (lr_pid r)"

datatype lock_event = Request lock_request | Flush u64 | Release "u64 option"

fun apply_event :: "lock_event \<Rightarrow> (lock_table, unit) io" where
  "apply_event (Request r) = request r"
| "apply_event (Flush owner) = fuse_flush owner"
| "apply_event (Release lock_owner) = fuse_release lock_owner"

inductive lock_step :: "lock_table \<Rightarrow> lock_table \<Rightarrow> bool" where
  "lock_step t (snd (apply_event e t))"

inductive_cases lock_stepE: "lock_step t t'"

inductive reachable :: "lock_table \<Rightarrow> bool" where
  start: "reachable (\<lambda>_. None)"
| step: "reachable t \<Longrightarrow> lock_step t t' \<Longrightarrow> reachable t'"

lemma reachable_request: "reachable t \<Longrightarrow> reachable (snd (request r t))"
  using reachable.step [OF _ lock_step.intros [of t "Request r"]] by simp

definition held :: "lock_table \<Rightarrow> u32 \<Rightarrow> file_lock list" where
  "held t ino = (case t ino of None \<Rightarrow> [] | Some ls \<Rightarrow> ls)"

definition overlaps :: "file_lock \<Rightarrow> u64 \<Rightarrow> u64 \<Rightarrow> bool" where
  "overlaps l start stop \<longleftrightarrow> start \<le> fl_end l \<and> fl_start l \<le> stop"

definition blocks_request :: "lock_request \<Rightarrow> file_lock \<Rightarrow> bool" where
  "blocks_request r l \<longleftrightarrow> fl_owner l \<noteq> lr_owner r \<and> overlaps l (lr_start r) (lr_end r)
     \<and> (lr_typ r = F_WRLCK \<or> fl_typ l = F_WRLCK)"

definition releases :: "lock_request \<Rightarrow> file_lock \<Rightarrow> bool" where
  "releases r l \<longleftrightarrow> fl_owner l = lr_owner r \<and> overlaps l (lr_start r) (lr_end r)"

text \<open>The events that drop a lock.\<close>

fun frees :: "lock_event \<Rightarrow> u32 \<Rightarrow> file_lock \<Rightarrow> bool" where
  "frees (Request r) ino l \<longleftrightarrow> lr_typ r = F_UNLCK \<and> ucast (lr_ino r) = ino \<and> releases r l"
| "frees (Flush owner) ino l \<longleftrightarrow> fl_owner l = owner"
| "frees (Release lock_owner) ino l \<longleftrightarrow> lock_owner = Some (fl_owner l)"

definition lock_of :: "lock_request \<Rightarrow> file_lock" where
  "lock_of r = \<lparr> fl_owner = lr_owner r, fl_pid = lr_pid r, fl_start = lr_start r, fl_end = lr_end r, fl_typ = lr_typ r \<rparr>"

lemma lock_of_simps [simp]:
  "fl_owner (lock_of r) = lr_owner r" "fl_start (lock_of r) = lr_start r" "fl_end (lock_of r) = lr_end r"
  "fl_typ (lock_of r) = lr_typ r"
  by (simp_all add: lock_of_def)

lemma conflict_iff:
  "lock_conflict t ino (lr_owner r) (lr_start r) (lr_end r) (lr_typ r) = find (blocks_request r) (held t ino)"
  by (simp add: lock_conflict_def held_def blocks_request_def [abs_def] overlaps_def conj.assoc split: option.split)

lemma held_remove:
  "held (lock_remove_owner_range t ino (lr_owner r) (lr_start r) (lr_end r)) j =
     (if j = ino then filter (\<lambda>l. \<not> releases r l) (held t ino) else held t j)"
  by (auto simp: lock_remove_owner_range_def held_def releases_def overlaps_def Let_def conj.assoc split: option.split)

lemma held_none [simp]: "held (\<lambda>_. None) ino = []"
  by (simp add: held_def)

text \<open>What a request does to the held locks.\<close>

lemma request_effect:
  "fst (request r t) = (if lr_typ r \<noteq> F_UNLCK \<and> (\<exists>l \<in> set (held t (ucast (lr_ino r))). blocks_request r l) then Err EAGAIN else Ok ())"
  "held (snd (request r t)) j =
     (if fst (request r t) \<noteq> Ok () \<or> j \<noteq> ucast (lr_ino r) then held t j
      else filter (\<lambda>l. \<not> releases r l) (held t j) @ (if lr_typ r = F_UNLCK then [] else [lock_of r]))"
proof -
  have none: "find P xs = None \<longleftrightarrow> (\<forall>x \<in> set xs. \<not> P x)" for P and xs :: "file_lock list"
    by (auto simp: find_None_iff)
  have ext: "held (t'(i := Some ls)) j = (if j = i then ls else held t' j)" for t' i j ls
    by (simp add: held_def)
  have set: "request r t = (if lr_typ r = F_UNLCK then (Ok (), lock_remove_owner_range t (ucast (lr_ino r)) (lr_owner r) (lr_start r) (lr_end r))
      else if find (blocks_request r) (held t (ucast (lr_ino r))) \<noteq> None then (Err EAGAIN, t)
      else let t' = lock_remove_owner_range t (ucast (lr_ino r)) (lr_owner r) (lr_start r) (lr_end r)
        in (Ok (), t'(ucast (lr_ino r) := Some (held t' (ucast (lr_ino r)) @ [lock_of r]))))"
    by (simp only: request_def fuse_setlk_def Let_def conflict_iff held_def [symmetric] lock_of_def)
  show "fst (request r t) = (if lr_typ r \<noteq> F_UNLCK \<and> (\<exists>l \<in> set (held t (ucast (lr_ino r))). blocks_request r l) then Err EAGAIN else Ok ())"
    by (simp add: set Let_def none)
  show "held (snd (request r t)) j =
     (if fst (request r t) \<noteq> Ok () \<or> j \<noteq> ucast (lr_ino r) then held t j
      else filter (\<lambda>l. \<not> releases r l) (held t j) @ (if lr_typ r = F_UNLCK then [] else [lock_of r]))"
    by (simp add: set Let_def none ext held_remove)
qed

lemma held_release_owner: "held (locks_release_owner t owner) ino = filter (\<lambda>l. fl_owner l \<noteq> owner) (held t ino)"
  by (simp add: locks_release_owner_def held_def Let_def split: option.split)

lemma held_after_close:
  "held (snd (fuse_flush owner t)) ino = filter (\<lambda>l. fl_owner l \<noteq> owner) (held t ino)"
  "held (snd (fuse_release lock_owner t)) ino = filter (\<lambda>l. lock_owner \<noteq> Some (fl_owner l)) (held t ino)"
  by (auto simp: fuse_flush_def fuse_release_def held_release_owner split: option.split intro: filter_cong)

section \<open>Safety\<close>

definition compatible :: "file_lock \<Rightarrow> file_lock \<Rightarrow> bool" where
  "compatible l k \<longleftrightarrow> (overlaps l (fl_start k) (fl_end k) \<longrightarrow>
     fl_owner l \<noteq> fl_owner k \<and> fl_typ l \<noteq> F_WRLCK \<and> fl_typ k \<noteq> F_WRLCK)"

lemma overlaps_sym: "overlaps l (fl_start k) (fl_end k) \<longleftrightarrow> overlaps k (fl_start l) (fl_end l)"
  by (auto simp: overlaps_def)

lemma held_no_unlock: "reachable t \<Longrightarrow> \<forall>l \<in> set (held t ino). fl_typ l \<noteq> F_UNLCK"
proof (induction arbitrary: ino rule: reachable.induct)
  case start
  show ?case by (simp add: held_def)
next
  case (step t t')
  from step.hyps(2) obtain e where t': "t' = snd (apply_event e t)" by (rule lock_stepE)
  show ?case using step.IH by (cases e) (auto simp: t' request_effect held_after_close)
qed

text \<open>C31: No two locks that are held at once clash, in every table that any sequence of requests, flushes
  and releases by any owners on any files can produce: of two locks on overlapping ranges of one file, the owners differ and
  neither is a write lock.\<close>

theorem held_locks_compatible:
  assumes "reachable t"
  shows "sorted_wrt compatible (held t ino)"
  using assms
proof (induction arbitrary: ino rule: reachable.induct)
  case start
  show ?case by (simp add: held_def)
next
  case (step t t')
  from step.hyps(2) obtain e where t': "t' = snd (apply_event e t)" by (rule lock_stepE)
  have keep: "compatible l (lock_of r)"
    if "l \<in> set (held t (ucast (lr_ino r)))" "\<not> releases r l" "\<forall>l \<in> set (held t (ucast (lr_ino r))). \<not> blocks_request r l" for l r
    using that by (fastforce simp: compatible_def releases_def blocks_request_def)
  show ?case
    using step.IH keep by (cases e) (auto simp: t' request_effect held_after_close sorted_wrt_append sorted_wrt_filter)
qed

theorem held_locks_compatible_witness:
  "held (snd (request \<lparr> lr_ino = 12, lr_owner = 2, lr_start = 5, lr_end = 20, lr_typ = 0, lr_pid = 7 \<rparr> (snd (request \<lparr> lr_ino = 12, lr_owner = 1, lr_start = 0, lr_end = 9, lr_typ = 0, lr_pid = 7 \<rparr> (\<lambda>_. None))))) 12 \<noteq> []
   \<and> sorted_wrt compatible (held (snd (request \<lparr> lr_ino = 12, lr_owner = 2, lr_start = 5, lr_end = 20, lr_typ = 0, lr_pid = 7 \<rparr> (snd (request \<lparr> lr_ino = 12, lr_owner = 1, lr_start = 0, lr_end = 9, lr_typ = 0, lr_pid = 7 \<rparr> (\<lambda>_. None))))) 12)"
proof
  show "sorted_wrt compatible (held (snd (request \<lparr> lr_ino = 12, lr_owner = 2, lr_start = 5, lr_end = 20, lr_typ = 0, lr_pid = 7 \<rparr> (snd (request \<lparr> lr_ino = 12, lr_owner = 1, lr_start = 0, lr_end = 9, lr_typ = 0, lr_pid = 7 \<rparr> (\<lambda>_. None))))) 12)"
    by (rule held_locks_compatible) (intro reachable_request reachable.start)
qed (simp add: request_effect F_UNLCK_def F_WRLCK_def)

section \<open>The test\<close>

text \<open>C39: The lock test and the lock request agree: the test reports an unlocked range exactly when the
  request would be granted, a refused request leaves the table as it is, and what the test reports
  otherwise is a held lock of another owner on the range, one of the two being a write lock.\<close>

theorem getlk_predicts_setlk:
  assumes "typ \<noteq> F_UNLCK" and "reachable t"
  shows "\<exists>l. fuse_getlk t ino owner start stop typ pid = Ok l \<and>
    (if fl_typ l = F_UNLCK
     then fst (fuse_setlk ino owner start stop typ pid t) = Ok ()
     else fuse_setlk ino owner start stop typ pid t = (Err EAGAIN, t)
       \<and> l \<in> set (held t (ucast ino)) \<and> fl_owner l \<noteq> owner \<and> overlaps l start stop \<and> F_WRLCK \<in> {typ, fl_typ l})"
proof -
  define r where "r = \<lparr> lr_ino = ino, lr_owner = owner, lr_start = start, lr_end = stop, lr_typ = typ, lr_pid = pid \<rparr>"
  have req: "fuse_setlk ino owner start stop typ pid t = request r t" by (simp add: request_def r_def)
  have test: "fuse_getlk t ino owner start stop typ pid =
      (case find (blocks_request r) (held t (ucast ino)) of Some l \<Rightarrow> Ok l
       | None \<Rightarrow> Ok \<lparr> fl_owner = owner, fl_pid = pid, fl_start = start, fl_end = stop, fl_typ = F_UNLCK \<rparr>)"
    using conflict_iff [of t "ucast ino" r] by (simp add: fuse_getlk_def r_def)
  have r: "lr_ino r = ino" "lr_typ r = typ" "lr_owner r = owner" "lr_start r = start" "lr_end r = stop" by (simp_all add: r_def)
  show ?thesis
  proof (cases "find (blocks_request r) (held t (ucast ino))")
    case None
    have "fst (request r t) = Ok ()" using None by (auto simp: request_effect r find_None_iff)
    then show ?thesis unfolding test None by (simp add: req)
  next
    case (Some l)
    then have l: "l \<in> set (held t (ucast ino))" "blocks_request r l" by (auto simp: find_Some_iff)
    then have "fl_typ l \<noteq> F_UNLCK" using held_no_unlock [OF assms(2)] by blast
    moreover have "fuse_setlk ino owner start stop typ pid t = (Err EAGAIN, t)"
    proof -
      have "lock_conflict t (ucast ino) owner start stop typ = Some l" using Some conflict_iff [of t "ucast ino" r] by (simp add: r_def)
      then show ?thesis using assms(1) by (simp add: fuse_setlk_def)
    qed
    ultimately show ?thesis using Some l unfolding test by (auto simp: req blocks_request_def r)
  qed
qed

theorem getlk_predicts_setlk_witness:
  "\<exists>l. fuse_getlk (snd (request \<lparr> lr_ino = 12, lr_owner = 1, lr_start = 0, lr_end = 9, lr_typ = 1, lr_pid = 7 \<rparr> (\<lambda>_. None))) 12 2 5 20 0 8 = Ok l \<and> fl_typ l = F_WRLCK"
proof -
  let ?t = "snd (request \<lparr> lr_ino = 12, lr_owner = 1, lr_start = 0, lr_end = 9, lr_typ = 1, lr_pid = 7 \<rparr> (\<lambda>_. None))"
  have held: "held ?t 12 = [\<lparr> fl_owner = 1, fl_pid = 7, fl_start = 0, fl_end = 9, fl_typ = 1 \<rparr>]"
    by (simp add: request_effect F_UNLCK_def lock_of_def)
  then have refused: "fst (fuse_setlk 12 2 5 20 0 8 ?t) \<noteq> Ok ()"
    using request_effect(1) [of "\<lparr> lr_ino = 12, lr_owner = 2, lr_start = 5, lr_end = 20, lr_typ = 0, lr_pid = 8 \<rparr>" ?t]
    by (simp add: request_def blocks_request_def overlaps_def F_WRLCK_def F_UNLCK_def)
  have "reachable ?t" by (intro reachable_request reachable.start)
  then show ?thesis
    using getlk_predicts_setlk [of 0 ?t 12 2 5 20 8] refused by (fastforce simp: F_UNLCK_def F_WRLCK_def split: if_splits)
qed

section \<open>Liveness\<close>

lemma releases_not_blocking: "releases r l \<Longrightarrow> \<not> blocks_request r l"
  by (simp add: releases_def blocks_request_def)

text \<open>C32: A request that keeps being tried is granted. Take any infinite sequence of requests, flushes and
  releases by any owners, started in any table. If from some point on no granted request puts a lock in the way of
  \<open>r\<close>, and every lock that is then in its way is released by its owner at some later moment, by an unlock request or by closing a file, and
  \<open>r\<close> is tried again and again, then one of its tries is granted: nothing is left in the table that
  could refuse it forever.\<close>

theorem lock_granted_eventually:
  assumes run: "\<forall>i. tables (Suc i) = snd (apply_event (events i) (tables i))"
    and calm: "\<forall>i \<ge> n. \<forall>q. events i = Request q \<and> ucast (lr_ino q) = (ucast (lr_ino r) :: u32) \<longrightarrow>
      lr_typ q = F_UNLCK \<or> \<not> blocks_request r (lock_of q)"
    and freed: "\<forall>l \<in> set (held (tables n) (ucast (lr_ino r))). blocks_request r l \<longrightarrow>
      (\<exists>i \<ge> n. frees (events i) (ucast (lr_ino r)) l)"
    and tried: "\<forall>m. \<exists>i \<ge> m. events i = Request r"
  shows "\<exists>i \<ge> n. events i = Request r \<and> fst (request r (tables i)) = Ok ()"
proof -
  define ino :: u32 where "ino = ucast (lr_ino r)"
  define in_way where "in_way i = {l \<in> set (held (tables i) ino). blocks_request r l}" for i
  have shrink: "in_way (Suc i) \<subseteq> in_way i" if "n \<le> i" for i
    using calm [rule_format, OF that] run
    by (cases "events i") (auto simp: in_way_def request_effect held_after_close ino_def split: if_splits)
  have later: "in_way j \<subseteq> in_way i" if "n \<le> i" "i \<le> j" for i j
    using that(2) by (induction j rule: dec_induct) (use shrink that(1) in \<open>auto dest: order_trans\<close>)
  have gone: "\<exists>i \<ge> n. l \<notin> in_way i" if l: "l \<in> in_way n" for l
  proof -
    obtain i where i: "n \<le> i" "frees (events i) ino l" using freed l unfolding in_way_def ino_def by blast
    have "l \<notin> in_way (Suc i)"
      using run i(2) by (cases "events i") (auto simp: in_way_def request_effect held_after_close)
    then show ?thesis using i(1) by (intro exI [of _ "Suc i"]) simp
  qed
  then obtain at where at: "\<And>l. l \<in> in_way n \<Longrightarrow> n \<le> at l \<and> l \<notin> in_way (at l)" by metis
  have "finite (in_way n)" by (simp add: in_way_def)
  then obtain m where m: "\<And>l. l \<in> in_way n \<Longrightarrow> at l \<le> m" by (meson finite_imageI finite_nat_set_iff_bounded_le imageI)
  obtain i where i: "n + m \<le> i" "events i = Request r" using tried by blast
  have "in_way i = {}"
  proof (rule equals0I)
    fix l assume l: "l \<in> in_way i"
    then have "l \<in> in_way n" using later [of n i] i(1) by auto
    then have "l \<in> in_way (at l)" "l \<notin> in_way (at l)" using at [of l] m [of l] later [of "at l" i] i(1) l by auto
    then show False by blast
  qed
  then have "fst (request r (tables i)) = Ok ()" by (auto simp: request_effect in_way_def ino_def)
  then show ?thesis using i by (intro exI [of _ i]) simp
qed

theorem lock_granted_eventually_witness:
  "let events = (\<lambda>i :: nat. if i = 0 then Request \<lparr> lr_ino = 12, lr_owner = 1, lr_start = 0, lr_end = 9, lr_typ = 2, lr_pid = 7 \<rparr> else Request \<lparr> lr_ino = 12, lr_owner = 2, lr_start = 0, lr_end = 9, lr_typ = 1, lr_pid = 7 \<rparr>);
       tables = rec_nat (snd (request \<lparr> lr_ino = 12, lr_owner = 1, lr_start = 0, lr_end = 9, lr_typ = 1, lr_pid = 7 \<rparr> (\<lambda>_. None))) (\<lambda>i t. snd (apply_event (events i) t))
   in fst (request \<lparr> lr_ino = 12, lr_owner = 2, lr_start = 0, lr_end = 9, lr_typ = 1, lr_pid = 7 \<rparr> (tables 0)) = Err EAGAIN \<and> (\<exists>i. fst (request \<lparr> lr_ino = 12, lr_owner = 2, lr_start = 0, lr_end = 9, lr_typ = 1, lr_pid = 7 \<rparr> (tables i)) = Ok ())"
proof -
  let ?events = "\<lambda>i :: nat. if i = 0 then Request \<lparr> lr_ino = 12, lr_owner = 1, lr_start = 0, lr_end = 9, lr_typ = 2, lr_pid = 7 \<rparr> else Request \<lparr> lr_ino = 12, lr_owner = 2, lr_start = 0, lr_end = 9, lr_typ = 1, lr_pid = 7 \<rparr>"
  let ?tables = "rec_nat (snd (request \<lparr> lr_ino = 12, lr_owner = 1, lr_start = 0, lr_end = 9, lr_typ = 1, lr_pid = 7 \<rparr> (\<lambda>_. None))) (\<lambda>i t. snd (apply_event (?events i) t))"
  let ?r = "\<lparr> lr_ino = 12, lr_owner = 2, lr_start = 0, lr_end = 9, lr_typ = 1, lr_pid = 7 \<rparr>"
  have held: "held (?tables 0) 12 = [\<lparr> fl_owner = 1, fl_pid = 7, fl_start = 0, fl_end = 9, fl_typ = 1 \<rparr>]"
    by (simp add: request_effect F_UNLCK_def lock_of_def)
  have "\<exists>i \<ge> 0. ?events i = Request ?r \<and> fst (request ?r (?tables i)) = Ok ()"
  proof (rule lock_granted_eventually)
    show "\<forall>i. ?tables (Suc i) = snd (apply_event (?events i) (?tables i))" by simp
    show "\<forall>i \<ge> 0. \<forall>q. ?events i = Request q \<and> ucast (lr_ino q) = (ucast (lr_ino ?r) :: u32) \<longrightarrow>
      lr_typ q = F_UNLCK \<or> \<not> blocks_request ?r (lock_of q)"
      by (simp add: F_UNLCK_def blocks_request_def)
    show "\<forall>l \<in> set (held (?tables 0) (ucast (lr_ino ?r))). blocks_request ?r l \<longrightarrow>
      (\<exists>i \<ge> 0. frees (?events i) (ucast (lr_ino ?r)) l)"
      using held by (auto simp: F_UNLCK_def releases_def overlaps_def intro!: exI [of _ 0])
    show "\<forall>m. \<exists>i \<ge> m. ?events i = Request ?r" by (metis Suc_n_not_le_n nat_le_linear not_less_eq_eq zero_less_Suc less_numeral_extra(3))
  qed
  moreover have "fst (request ?r (?tables 0)) = Err EAGAIN"
    using held by (simp add: request_effect blocks_request_def overlaps_def F_UNLCK_def F_WRLCK_def)
  ultimately show ?thesis by (auto simp: Let_def)
qed

section \<open>Departures from POSIX\<close>

text \<open>Closing one file drops the owner's locks on every file.\<close>

lemma close_drops_locks_everywhere: "\<forall>l \<in> set (held (snd (fuse_flush owner t)) ino). fl_owner l \<noteq> owner"
  by (simp add: held_after_close)

text \<open>Unlocking one byte of a range drops the whole lock, where POSIX would keep its two ends.\<close>

lemma partial_unlock_drops_lock:
  "held (snd (request \<lparr> lr_ino = 12, lr_owner = 1, lr_start = 50, lr_end = 50, lr_typ = F_UNLCK, lr_pid = 7 \<rparr>
    (snd (request \<lparr> lr_ino = 12, lr_owner = 1, lr_start = 0, lr_end = 99, lr_typ = F_WRLCK, lr_pid = 7 \<rparr> (\<lambda>_. None))))) 12 = []"
  by (simp add: request_effect releases_def overlaps_def F_WRLCK_def F_UNLCK_def)

end
