(* ===== verification/Fuse.thy ===== *)
theory Fuse
  imports XattrOps Locks "HOL-Library.Signed_Division"
begin

text \<open>
  The operations of \<open>src/src/fuse_interface/mod.rs\<close>, with \<open>FileAttr\<close> and \<open>LinuxStat\<close> of
  \<open>src/src/ext4_defs/file.rs\<close> and \<open>set_attr\<close> of \<open>src/src/ext4_defs/inode.rs\<close>. Handles, positions and
  owners that an operation ignores are not arguments. Inode numbers come as \<open>u64\<close> and are cut to \<open>u32\<close>.

  File offsets of this interface are \<open>i64\<close>: integers that wrap (\<open>i64\<close>) and divide towards zero (\<open>sdiv\<close>).
  Operations that may remove blocks, or walk up a directory tree, need not end in the code and carry fuel.
\<close>

unbundle bit_operations_syntax

section \<open>Attributes\<close>

record file_attr =
  fa_ino :: u64
  fa_size :: u64
  fa_blocks :: u64
  fa_atime :: u32
  fa_mtime :: u32
  fa_ctime :: u32
  fa_crtime :: u32
  fa_chgtime :: u32
  fa_bkuptime :: u32
  fa_kind :: u16
  fa_perm :: u16
  fa_nlink :: u32
  fa_uid :: u32
  fa_gid :: u32
  fa_rdev :: u32
  fa_blksize :: u32
  fa_flags :: u32

definition attr_from_inode_ref :: "inode_ref \<Rightarrow> u32 \<Rightarrow> file_attr" where
  "attr_from_inode_ref r bs = (let i = ir_inode r in
     \<lparr> fa_ino = ucast (ir_inode_num r), fa_size = inode_size i, fa_blocks = inode_blocks_count i,
       fa_atime = i_atime i, fa_mtime = i_mtime i, fa_ctime = i_ctime i, fa_crtime = i_crtime i,
       fa_chgtime = 0, fa_bkuptime = 0, fa_kind = file_type i, fa_perm = file_perm i,
       fa_nlink = ucast (i_links_count i), fa_uid = ucast (i_uid i), fa_gid = ucast (i_gid i),
       fa_rdev = i_faddr i, fa_blksize = bs, fa_flags = i_flags i \<rparr>)"

record linux_stat =
  st_dev :: u32
  st_ino :: u32
  st_mode :: u16
  st_nlink :: u16
  st_uid :: u16
  st_gid :: u16
  st_rdev :: u32
  st_size :: u32
  st_blksize :: u32
  st_blocks :: u32
  st_atime :: u32
  st_atime_nsec :: u32
  st_mtime :: u32
  st_mtime_nsec :: u32
  st_ctime :: u32
  st_ctime_nsec :: u32
  st_unused4 :: u32
  st_unused5 :: u32

definition stat_from_inode_ref :: "inode_ref \<Rightarrow> u32 \<Rightarrow> linux_stat" where
  "stat_from_inode_ref r bs = (let i = ir_inode r in
     \<lparr> st_dev = 0, st_ino = ir_inode_num r, st_mode = i_mode i, st_nlink = i_links_count i, st_uid = i_uid i,
       st_gid = i_gid i, st_rdev = 0, st_size = ucast (inode_size i), st_blksize = bs,
       st_blocks = ucast (inode_blocks_count i), st_atime = i_atime i, st_atime_nsec = 0, st_mtime = i_mtime i,
       st_mtime_nsec = 0, st_ctime = i_ctime i, st_ctime_nsec = 0, st_unused4 = 0, st_unused5 = 0 \<rparr>)"

definition set_attr_fields :: "file_attr \<Rightarrow> inode \<Rightarrow> inode" where
  "set_attr_fields a i =
     (let i = set_inode_blocks_count (fa_blocks a) (set_size (fa_size a) i);
          i = i\<lparr> i_atime := fa_atime a, i_mtime := fa_mtime a, i_ctime := fa_ctime a, i_crtime := fa_crtime a \<rparr>;
          i = set_file_perm (fa_perm a) (set_file_type (fa_kind a) i)
      in i\<lparr> i_links_count := ucast (fa_nlink a), i_uid := ucast (fa_uid a), i_gid := ucast (fa_gid a),
            i_faddr := fa_rdev a, i_flags := fa_flags a \<rparr>)"

definition block_size32 :: "ext4 \<Rightarrow> u32" where
  "block_size32 fs = of_nat (fs_block_size fs)"

definition fuse_lookup :: "ext4 \<Rightarrow> u64 \<Rightarrow> bytes \<Rightarrow> (jdev, file_attr) io" where
  "fuse_lookup fs parent name =
     bindS (dir_find_entry fs (ucast parent) name) (\<lambda>search_result.
     bindS (get_inode_ref fs (de_inode (ds_dentry search_result))) (\<lambda>r.
     ret (attr_from_inode_ref r (block_size32 fs))))"

definition fuse_getattr :: "ext4 \<Rightarrow> u64 \<Rightarrow> (jdev, file_attr) io" where
  "fuse_getattr fs ino = bindS (get_inode_ref fs (ucast ino)) (\<lambda>r. ret (attr_from_inode_ref r (block_size32 fs)))"

text \<open>The arguments of \<open>fuse_setattr\<close>. \<open>InodePerm\<close> names the owner's permissions, setuid and setgid only:
  \<open>from_bits\<close> is \<open>None\<close> when any other bit is set.\<close>

record attr_change =
  ch_mode :: "u32 option"
  ch_uid :: "u32 option"
  ch_gid :: "u32 option"
  ch_size :: "u64 option"
  ch_atime :: "u32 option"
  ch_mtime :: "u32 option"
  ch_ctime :: "u32 option"
  ch_crtime :: "u32 option"
  ch_chgtime :: "u32 option"
  ch_bkuptime :: "u32 option"
  ch_flags :: "u32 option"

definition INODE_PERM_BITS :: u16 where "INODE_PERM_BITS = 0x0DC0"

definition perm_from_bits :: "u16 \<Rightarrow> u16 option" where
  "perm_from_bits bits = (if bits AND NOT INODE_PERM_BITS = 0 then Some bits else None)"

definition type_from_bits :: "u16 \<Rightarrow> u16 option" where
  "type_from_bits bits = (if bits AND NOT 0xF000 = 0 then Some bits else None)"

definition or_else :: "'a option \<Rightarrow> 'a \<Rightarrow> 'a" where
  "or_else x a = (case x of Some b \<Rightarrow> b | None \<Rightarrow> a)"

definition changed_attr :: "attr_change \<Rightarrow> file_attr \<Rightarrow> file_attr res" where
  "changed_attr ch a =
     bind (case ch_mode ch of
         None \<Rightarrow> Ok a
       | Some mode \<Rightarrow>
           (case type_from_bits (ucast mode AND EXT4_INODE_MODE_TYPE_MASK) of None \<Rightarrow> Panic
            | Some kind \<Rightarrow> (case perm_from_bits (ucast mode AND EXT4_INODE_MODE_PERM_MASK) of None \<Rightarrow> Panic
              | Some perm \<Rightarrow> Ok (a\<lparr> fa_kind := kind, fa_perm := perm \<rparr>)))) (\<lambda>a.
     Ok (a\<lparr> fa_uid := or_else (ch_uid ch) (fa_uid a), fa_gid := or_else (ch_gid ch) (fa_gid a),
       fa_size := or_else (ch_size ch) (fa_size a), fa_atime := or_else (ch_atime ch) (fa_atime a),
       fa_mtime := or_else (ch_mtime ch) (fa_mtime a), fa_ctime := or_else (ch_ctime ch) (fa_ctime a),
       fa_crtime := or_else (ch_crtime ch) (fa_crtime a), fa_chgtime := or_else (ch_chgtime ch) (fa_chgtime a),
       fa_bkuptime := or_else (ch_bkuptime ch) (fa_bkuptime a), fa_flags := or_else (ch_flags ch) (fa_flags a) \<rparr>))"

definition fuse_setattr_impl :: "ext4 \<Rightarrow> u64 \<Rightarrow> attr_change \<Rightarrow> (jdev, unit) io" where
  "fuse_setattr_impl fs ino ch =
     bindS (get_inode_ref fs (ucast ino)) (\<lambda>r.
     bindS (lift (changed_attr ch (attr_from_inode_ref r (block_size32 fs)))) (\<lambda>a.
     bindS (write_back_inode fs (r\<lparr> ir_inode := set_attr_fields a (ir_inode r) \<rparr>)) (\<lambda>_. ret ())))"

definition fuse_setattr :: "ext4 \<Rightarrow> u64 \<Rightarrow> attr_change \<Rightarrow> (jdev, unit) io" where
  "fuse_setattr fs ino ch = or_value (journaled_op fs (fuse_setattr_impl fs ino ch)) ()"

section \<open>Creating\<close>

definition absent :: "ext4 \<Rightarrow> u64 \<Rightarrow> bytes \<Rightarrow> (jdev, unit) io" where
  "absent fs parent name =
     on_result (dir_find_entry fs (ucast parent) name) (\<lambda>_. lift (Err EEXIST)) (\<lambda>_. ret ())"

text \<open>The new inode and the access list it inherits.\<close>

definition inherit_acl :: "nat \<Rightarrow> ext4 \<Rightarrow> u64 \<Rightarrow> u32 \<Rightarrow> inode_ref \<Rightarrow> (jdev, inode_ref option) io" where
  "inherit_acl fuel fs parent umask r =
     bindO (posix_acl_create fuel fs (ucast parent) (ir_inode_num r) (ucast umask)) (\<lambda>_. ret (Some r))"

definition fuse_mknod_with_attr_impl ::
  "nat \<Rightarrow> ext4 \<Rightarrow> u64 \<Rightarrow> bytes \<Rightarrow> u32 \<Rightarrow> u32 \<Rightarrow> u32 \<Rightarrow> u32 \<Rightarrow> u32 \<Rightarrow> (jdev, inode_ref option) io" where
  "fuse_mknod_with_attr_impl fuel fs parent name mode umask rdev uid gid =
     bindS (absent fs parent name) (\<lambda>_.
     bindS (create_special_with_attr fs (ucast parent) name (ucast mode) rdev (ucast uid) (ucast gid))
       (inherit_acl fuel fs parent umask))"

definition fuse_mknod_with_attr ::
  "nat \<Rightarrow> ext4 \<Rightarrow> u64 \<Rightarrow> bytes \<Rightarrow> u32 \<Rightarrow> u32 \<Rightarrow> u32 \<Rightarrow> u32 \<Rightarrow> u32 \<Rightarrow> (jdev, inode_ref option) io" where
  "fuse_mknod_with_attr fuel fs parent name mode umask rdev uid gid =
     journaled_fuel fs (fuse_mknod_with_attr_impl fuel fs parent name mode umask rdev uid gid)"

definition fuse_mknod_impl :: "nat \<Rightarrow> ext4 \<Rightarrow> u64 \<Rightarrow> bytes \<Rightarrow> u32 \<Rightarrow> u32 \<Rightarrow> u32 \<Rightarrow> (jdev, inode_ref option) io" where
  "fuse_mknod_impl fuel fs parent name mode umask rdev =
     bindS (absent fs parent name) (\<lambda>_.
     bindS (create_special_with_attr fs (ucast parent) name (ucast mode) rdev 0 0) (inherit_acl fuel fs parent umask))"

definition fuse_mknod :: "nat \<Rightarrow> ext4 \<Rightarrow> u64 \<Rightarrow> bytes \<Rightarrow> u32 \<Rightarrow> u32 \<Rightarrow> u32 \<Rightarrow> (jdev, inode_ref option) io" where
  "fuse_mknod fuel fs parent name mode umask rdev =
     journaled_fuel fs (fuse_mknod_impl fuel fs parent name mode umask rdev)"

definition fuse_mkdir_impl :: "nat \<Rightarrow> ext4 \<Rightarrow> u64 \<Rightarrow> bytes \<Rightarrow> u32 \<Rightarrow> u32 \<Rightarrow> (jdev, unit option) io" where
  "fuse_mkdir_impl fuel fs parent name mode umask =
     bindS (absent fs parent name) (\<lambda>_.
     case type_from_bits (ucast mode) of None \<Rightarrow> lift Panic
     | Some kind \<Rightarrow>
         if kind \<noteq> S_IFDIR then lift (Err EINVAL)
         else bindS (create fs (ucast parent) name (ucast mode)) (\<lambda>r.
           bindO (inherit_acl fuel fs parent umask r) (\<lambda>_. ret (Some ()))))"

definition fuse_mkdir :: "nat \<Rightarrow> ext4 \<Rightarrow> u64 \<Rightarrow> bytes \<Rightarrow> u32 \<Rightarrow> u32 \<Rightarrow> (jdev, unit option) io" where
  "fuse_mkdir fuel fs parent name mode umask = journaled_fuel fs (fuse_mkdir_impl fuel fs parent name mode umask)"

definition fuse_mkdir_with_attr_impl ::
  "nat \<Rightarrow> ext4 \<Rightarrow> u64 \<Rightarrow> bytes \<Rightarrow> u32 \<Rightarrow> u32 \<Rightarrow> u32 \<Rightarrow> u32 \<Rightarrow> (jdev, inode_ref option) io" where
  "fuse_mkdir_with_attr_impl fuel fs parent name mode umask uid gid =
     bindS (absent fs parent name) (\<lambda>_.
     let mode = or_else (type_from_bits (ucast mode)) S_IFDIR in
     bindS (create_with_attr fs (ucast parent) name mode (ucast uid) (ucast gid)) (inherit_acl fuel fs parent umask))"

definition fuse_mkdir_with_attr ::
  "nat \<Rightarrow> ext4 \<Rightarrow> u64 \<Rightarrow> bytes \<Rightarrow> u32 \<Rightarrow> u32 \<Rightarrow> u32 \<Rightarrow> u32 \<Rightarrow> (jdev, inode_ref option) io" where
  "fuse_mkdir_with_attr fuel fs parent name mode umask uid gid =
     journaled_fuel fs (fuse_mkdir_with_attr_impl fuel fs parent name mode umask uid gid)"

definition O_WRONLY :: u32 where "O_WRONLY = 1"
definition O_RDWR :: u32 where "O_RDWR = 2"
definition O_RDONLY :: u32 where "O_RDONLY = 0"
definition O_EXCL :: u32 where "O_EXCL = 0x80"

text \<open>\<open>||\<close> and \<open>&&\<close> as the code has them: the second and third test of \<open>fuse_create\<close> are not bracketed.\<close>

definition fuse_open :: "ext4 \<Rightarrow> u64 \<Rightarrow> u32 \<Rightarrow> (jdev, unit) io" where
  "fuse_open fs ino flags =
     bindS (get_inode_ref fs (ucast ino)) (\<lambda>r. let i = ir_inode r in lift (
     if (flags AND O_WRONLY \<noteq> 0 \<or> flags AND O_RDWR \<noteq> 0) \<and> \<not> can_write i then Err EACCES
     else if (flags AND O_RDONLY \<noteq> 0 \<or> flags AND O_RDWR \<noteq> 0) \<and> \<not> can_read i then Err EACCES
     else if (flags AND O_EXCL \<noteq> 0 \<or> flags AND O_RDWR \<noteq> 0) \<and> \<not> can_exec i then Err EACCES
     else Ok ()))"

definition fuse_create_impl :: "nat \<Rightarrow> ext4 \<Rightarrow> u64 \<Rightarrow> bytes \<Rightarrow> u32 \<Rightarrow> u32 \<Rightarrow> u32 \<Rightarrow> (jdev, unit option) io" where
  "fuse_create_impl fuel fs parent name mode umask flags =
     on_result (dir_find_entry fs (ucast parent) name)
       (\<lambda>search_result.
         bindS (get_inode_ref fs (de_inode (ds_dentry search_result))) (\<lambda>r. let i = ir_inode r in lift (
         if (flags AND O_WRONLY \<noteq> 0 \<or> flags AND O_RDWR \<noteq> 0) \<and> \<not> can_write i then Err EACCES
         else if flags AND O_RDONLY \<noteq> 0 \<or> flags AND O_RDWR \<noteq> 0 \<and> \<not> can_read i then Err EACCES
         else if flags AND O_EXCL \<noteq> 0 \<or> flags AND O_RDWR \<noteq> 0 \<and> \<not> can_exec i then Err EACCES
         else Ok (Some ()))))
       (\<lambda>_. bindS (create fs (ucast parent) name (ucast mode)) (\<lambda>r.
         bindO (inherit_acl fuel fs parent umask r) (\<lambda>_. ret (Some ()))))"

definition fuse_create :: "nat \<Rightarrow> ext4 \<Rightarrow> u64 \<Rightarrow> bytes \<Rightarrow> u32 \<Rightarrow> u32 \<Rightarrow> u32 \<Rightarrow> (jdev, unit option) io" where
  "fuse_create fuel fs parent name mode umask flags =
     journaled_fuel fs (fuse_create_impl fuel fs parent name mode umask flags)"

section \<open>Links\<close>

text \<open>A target shorter than the block area goes into it: the inode that then is written.\<close>

definition fast_symlink :: "bytes \<Rightarrow> inode \<Rightarrow> inode" where
  "fast_symlink target i =
     set_inode_blocks_count 0 (set_size (of_nat (length target))
       (i\<lparr> i_flags := i_flags i AND NOT 0x80000, i_block := target @ replicate (60 - length target) 0 \<rparr>))"

definition write_symlink_target :: "nat \<Rightarrow> ext4 \<Rightarrow> u32 \<Rightarrow> bytes \<Rightarrow> (jdev, unit option) io" where
  "write_symlink_target fuel fs ino target =
     (if length target < 60
      then bindS (get_inode_ref fs ino) (\<lambda>r.
        bindS (write_back_inode fs (r\<lparr> ir_inode := fast_symlink target (ir_inode r) \<rparr>)) (\<lambda>_. ret (Some ())))
      else bindO (write_at fuel fs ino 0 target) (\<lambda>_. ret (Some ())))"

definition fuse_symlink_impl :: "nat \<Rightarrow> ext4 \<Rightarrow> u64 \<Rightarrow> bytes \<Rightarrow> bytes \<Rightarrow> (jdev, unit option) io" where
  "fuse_symlink_impl fuel fs parent link_name target =
     bindS (absent fs parent link_name) (\<lambda>_.
     bindS (create fs (ucast parent) link_name (0x1FF OR S_IFLNK)) (\<lambda>r.
     write_symlink_target fuel fs (ir_inode_num r) target))"

definition fuse_symlink :: "nat \<Rightarrow> ext4 \<Rightarrow> u64 \<Rightarrow> bytes \<Rightarrow> bytes \<Rightarrow> (jdev, unit option) io" where
  "fuse_symlink fuel fs parent link_name target = journaled_fuel fs (fuse_symlink_impl fuel fs parent link_name target)"

definition fuse_readlink :: "ext4 \<Rightarrow> u64 \<Rightarrow> (jdev, bytes) io" where
  "fuse_readlink fs ino =
     bindS (get_inode_ref fs (ucast ino)) (\<lambda>r.
     let file_size = unat (inode_size (ir_inode r)) in
     if inode_blocks_count (ir_inode r) = 0 then lift (get_at (i_block (ir_inode r)) 0 file_size)
     else bindS (read_at fs (ucast ino) 0 (replicate file_size 0)) (\<lambda>(_, read_buf). ret read_buf))"

definition fuse_link_impl :: "ext4 \<Rightarrow> u64 \<Rightarrow> u64 \<Rightarrow> bytes \<Rightarrow> (jdev, unit) io" where
  "fuse_link_impl fs ino newparent newname =
     bindS (get_inode_ref fs (ucast newparent)) (\<lambda>parent_inode_ref.
     bindS (get_inode_ref fs (ucast ino)) (\<lambda>child_inode_ref.
     bindS (link fs parent_inode_ref child_inode_ref newname) (\<lambda>(parent_inode_ref, child_inode_ref).
     bindS (write_back_inode fs parent_inode_ref) (\<lambda>_.
     bindS (write_back_inode fs child_inode_ref) (\<lambda>_. ret ())))))"

definition fuse_link :: "ext4 \<Rightarrow> u64 \<Rightarrow> u64 \<Rightarrow> bytes \<Rightarrow> (jdev, unit) io" where
  "fuse_link fs ino newparent newname = journaled_op fs (fuse_link_impl fs ino newparent newname)"

section \<open>Removing\<close>

definition fuse_unlink_impl :: "nat \<Rightarrow> ext4 \<Rightarrow> u64 \<Rightarrow> bytes \<Rightarrow> (jdev, unit option) io" where
  "fuse_unlink_impl fuel fs parent name =
     bindS (generic_open fs name (ucast parent) False 0 0) (\<lambda>(child_inode, parent_inode, nameoff).
     bindS (get_inode_ref fs child_inode) (\<lambda>child_inode_ref.
     bindO (if i_links_count (ir_inode child_inode_ref) = 1 then truncate_inode fuel fs child_inode_ref 0
            else ret (Some child_inode_ref)) (\<lambda>child_inode_ref.
     bindS (if length name < unat nameoff then lift Panic else lift (str_split name (unat nameoff))) (\<lambda>(_, p).
     let (len, _) = path_check p in
     bindS (get_inode_ref fs parent_inode) (\<lambda>parent_inode_ref.
     bindS (lift (str_split p len)) (\<lambda>(last, _).
     bindS (unlink fs parent_inode_ref child_inode_ref last) (\<lambda>_. ret (Some ()))))))))"

definition fuse_unlink :: "nat \<Rightarrow> ext4 \<Rightarrow> u64 \<Rightarrow> bytes \<Rightarrow> (jdev, unit option) io" where
  "fuse_unlink fuel fs parent name = journaled_fuel fs (fuse_unlink_impl fuel fs parent name)"

definition fuse_rmdir :: "nat \<Rightarrow> ext4 \<Rightarrow> u64 \<Rightarrow> bytes \<Rightarrow> (jdev, unit option) io" where
  "fuse_rmdir fuel fs parent name = journaled_fuel fs (dir_remove fuel fs (ucast parent) name)"

section \<open>Storing an inode\<close>

text \<open>An inode that was written is the one that a reader then sees, up to its checksum.\<close>

lemma written_inode:
  assumes "jd_inv s" and "inodes_ready fs" and "length (i_block (ir_inode r)) = 60"
    and "apart (desc_pos (fs_sb fs) (inode_group (fs_sb fs) (ir_inode_num r)), 64) (inode_pos fs (jd_view s) (ir_inode_num r), 156)"
  shows "\<exists>i t. write_back_inode fs r s = (Ok (r\<lparr> ir_inode := i \<rparr>), t) \<and> jd_inv t
    \<and> zero_checksum i = zero_checksum (ir_inode r) \<and> length (i_block i) = 60
    \<and> inode_at fs (jd_view t) (ir_inode_num r) = i"
proof -
  let ?n = "ir_inode_num r" and ?v = "jd_view s"
  define c where "c = checksummed fs ?v r"
  note c = checksummed_props [OF assms(3), of fs ?v, folded c_def]
  obtain t where t: "write_back_inode fs r s = (Ok (r\<lparr> ir_inode := c \<rparr>), t)" "jd_inv t"
    "jd_view t = image_write ?v (inode_pos fs ?v ?n) (inode_bytes c)"
    using sees_write_back [OF assms(1) refl assms(2,3)] by (auto simp: sees_def c_def)
  have "desc_at (jd_view t) (fs_sb fs) (inode_group (fs_sb fs) ?n) = desc_at ?v (fs_sb fs) (inode_group (fs_sb fs) ?n)"
    using assms(4) c(3) by (simp add: t(3) desc_at_def read_apart)
  then have "inode_pos fs (jd_view t) ?n = inode_pos fs ?v ?n" by (simp add: inode_pos_def)
  then have "inode_at fs (jd_view t) ?n = c"
    using c(2,3) inode_roundtrip [of c "[]"] by (simp add: inode_at_def t(3) read_written)
  then show ?thesis using t(1,2) c(1,2) by blast
qed

lemma block_of_inode [simp]: "length (i_block (inode_at fs v ino)) = 60"
  by (simp add: inode_at_def inode_of_bytes_def)

section \<open>Setting attributes\<close>

lemma ucast_ucast_small: "ucast (ucast (x :: u16) :: u32) = x"
  by (rule bit_word_eqI) (simp add: bit_simps)

lemma high_half:
  fixes a b :: u32 and c :: u16
  shows "drop_bit 32 (ucast a :: u64) = 0"
    and "ucast (drop_bit 32 (push_bit 32 (ucast b :: u64))) = b"
    and "ucast (drop_bit 32 (push_bit 32 (ucast c :: u64))) = c"
proof -
  have no: "\<not> bit a (32 + n)" for n
  proof
    assume "bit a (32 + n)"
    then have "32 + n < LENGTH(32)" by (rule bit_imp_le_length)
    then show False by simp
  qed
  show "drop_bit 32 (ucast a :: u64) = 0" using no by (auto intro!: bit_word_eqI simp: bit_simps)
  show "ucast (drop_bit 32 (push_bit 32 (ucast b :: u64))) = b"
    "ucast (drop_bit 32 (push_bit 32 (ucast c :: u64))) = c"
    by (auto intro!: bit_word_eqI simp: bit_simps)
qed

lemma low_half:
  fixes a :: u32
  shows "ucast ((ucast a OR push_bit 32 (x :: u64)) AND 0xffffffff) = a"
proof -
  have m: "(0xffffffff :: u64) = mask 32" by (simp add: mask_eq_exp_minus_1)
  show ?thesis unfolding m by (auto intro!: bit_word_eqI simp: bit_simps bit_mask_iff)
qed

lemma size_again: "i_size_lo (set_size (inode_size i) i) = i_size_lo i" "i_size_hi (set_size (inode_size i) i) = i_size_hi i"
  by (simp_all add: set_size_def inode_size_def low_half high_half)

lemma blocks_again: "set_inode_blocks_count (inode_blocks_count i) (set_size n i) = set_size n i"
proof -
  have "inode_blocks_count i = ucast (i_blocks i) OR push_bit 32 (ucast (l_i_blocks_high (i_osd2 i)))"
    by (simp add: inode_blocks_count_def Let_def)
  then show ?thesis by (simp add: set_inode_blocks_count_def set_size_def low_half high_half)
qed

lemma mode_again:
  fixes m :: u16
  shows "(((m AND NOT EXT4_INODE_MODE_TYPE_MASK) OR (m AND EXT4_INODE_MODE_TYPE_MASK AND 0xF000)) AND NOT EXT4_INODE_MODE_PERM_MASK)
      OR (m AND EXT4_INODE_MODE_PERM_MASK AND 0x0DC0) = m AND 0xFDC0"
  by (rule u16_eqI; simp add: upt_rec_numeral mode_consts bit_simps bit_numeral_word_iff)

text \<open>What a change without a mode makes of an inode.\<close>

definition changed_inode :: "attr_change \<Rightarrow> inode \<Rightarrow> inode" where
  "changed_inode ch i =
     (case ch_size ch of None \<Rightarrow> i | Some n \<Rightarrow> set_size n i)
       \<lparr> i_mode := i_mode i AND 0xFDC0,
         i_uid := (case ch_uid ch of None \<Rightarrow> i_uid i | Some u \<Rightarrow> ucast u),
         i_gid := (case ch_gid ch of None \<Rightarrow> i_gid i | Some g \<Rightarrow> ucast g),
         i_atime := or_else (ch_atime ch) (i_atime i), i_mtime := or_else (ch_mtime ch) (i_mtime i),
         i_ctime := or_else (ch_ctime ch) (i_ctime i), i_crtime := or_else (ch_crtime ch) (i_crtime i),
         i_flags := or_else (ch_flags ch) (i_flags i) \<rparr>"

lemma set_attr_changed:
  assumes "ch_mode ch = None"
  shows "\<exists>a. changed_attr ch (attr_from_inode_ref r bs) = Ok a \<and> set_attr_fields a (ir_inode r) = changed_inode ch (ir_inode r)"
proof -
  let ?i = "ir_inode r"
  have keep: "set_size (inode_size ?i) ?i = ?i" using size_again [of ?i] by (simp add: set_size_def)
  have size: "set_inode_blocks_count (inode_blocks_count ?i) (set_size (or_else (ch_size ch) (inode_size ?i)) ?i)
      = (case ch_size ch of None \<Rightarrow> ?i | Some n \<Rightarrow> set_size n ?i)"
    by (simp add: blocks_again or_else_def keep split: option.split)
  have uid: "ucast (or_else u (ucast x)) = (case u of None \<Rightarrow> x | Some v \<Rightarrow> ucast v)" for u :: "u32 option" and x :: u16
  proof -
    have "ucast (ucast x :: u32) = x" by (rule ucast_ucast_small)
    then show ?thesis by (simp add: or_else_def split: option.split)
  qed
  have links: "i_links_count (case ch_size ch of None \<Rightarrow> ?i | Some n \<Rightarrow> set_size n ?i) = i_links_count ?i"
    "i_faddr (case ch_size ch of None \<Rightarrow> ?i | Some n \<Rightarrow> set_size n ?i) = i_faddr ?i"
    "i_mode (case ch_size ch of None \<Rightarrow> ?i | Some n \<Rightarrow> set_size n ?i) = i_mode ?i"
    by (simp_all add: set_size_def split: option.split)
  have "changed_attr ch (attr_from_inode_ref r bs) = Ok (let a = attr_from_inode_ref r bs in
      a\<lparr> fa_uid := or_else (ch_uid ch) (fa_uid a), fa_gid := or_else (ch_gid ch) (fa_gid a),
       fa_size := or_else (ch_size ch) (fa_size a), fa_atime := or_else (ch_atime ch) (fa_atime a),
       fa_mtime := or_else (ch_mtime ch) (fa_mtime a), fa_ctime := or_else (ch_ctime ch) (fa_ctime a),
       fa_crtime := or_else (ch_crtime ch) (fa_crtime a), fa_chgtime := or_else (ch_chgtime ch) (fa_chgtime a),
       fa_bkuptime := or_else (ch_bkuptime ch) (fa_bkuptime a), fa_flags := or_else (ch_flags ch) (fa_flags a) \<rparr>)"
    by (simp add: changed_attr_def assms Let_def)
  then show ?thesis
    by (intro exI conjI, assumption)
      (simp add: set_attr_fields_def changed_inode_def attr_from_inode_ref_def Let_def size uid links
        set_file_perm_def set_file_type_def file_perm_def file_type_def mode_again ucast_ucast_small split: option.split)
qed

text \<open>C37: Setting attributes. A change that gives no mode never panics and changes exactly the fields that
  it names, with one exception: the mode keeps its type, the permissions of the owner, setuid and setgid,
  and always loses the permissions of group and others and the sticky bit. The inode is read back so.\<close>

theorem setattr_without_mode:
  assumes "jd_inv s" and "inodes_ready fs" and "ch_mode ch = None"
    and "apart (desc_pos (fs_sb fs) (inode_group (fs_sb fs) (ucast ino)), 64) (inode_pos fs (jd_view s) (ucast ino), 156)"
  shows "\<exists>i t. fuse_setattr_impl fs ino ch s = (Ok (), t) \<and> jd_inv t
    \<and> zero_checksum i = zero_checksum (changed_inode ch (inode_at fs (jd_view s) (ucast ino)))
    \<and> fst (get_inode_ref fs (ucast ino) t) = Ok \<lparr> ir_inode_num = ucast ino, ir_inode = i \<rparr>"
proof -
  let ?i = "inode_at fs (jd_view s) (ucast ino)"
  let ?r = "\<lparr> ir_inode_num = ucast ino, ir_inode = ?i \<rparr>"
  obtain a where a: "changed_attr ch (attr_from_inode_ref ?r (block_size32 fs)) = Ok a"
    "set_attr_fields a ?i = changed_inode ch ?i"
    using set_attr_changed [OF assms(3), of ?r "block_size32 fs"] by auto
  have "length (i_block (changed_inode ch ?i)) = 60" by (simp add: changed_inode_def set_size_def split: option.split)
  then obtain i t where t: "write_back_inode fs (?r\<lparr> ir_inode := changed_inode ch ?i \<rparr>) s = (Ok (?r\<lparr> ir_inode := i \<rparr>), t)"
    "jd_inv t" "zero_checksum i = zero_checksum (changed_inode ch ?i)" "inode_at fs (jd_view t) (ucast ino) = i"
    using written_inode [OF assms(1,2), of "?r\<lparr> ir_inode := changed_inode ch ?i \<rparr>"] assms(4) by auto
  then have "fuse_setattr_impl fs ino ch s = (Ok (), t)"
    by (simp add: fuse_setattr_impl_def bindS_def get_inode_ref_eq [OF assms(1,2)] a)
  then show ?thesis using t by (auto simp: get_inode_ref_eq [OF t(2) assms(2)])
qed

theorem setattr_without_mode_witness:
  "\<exists>i t. fuse_setattr_impl tiny_fs 12 \<lparr> ch_mode = None, ch_uid = Some 1000, ch_gid = None, ch_size = None,
      ch_atime = None, ch_mtime = None, ch_ctime = None, ch_crtime = None, ch_chgtime = None, ch_bkuptime = None,
      ch_flags = None \<rparr> tiny_dev = (Ok (), t)
    \<and> fst (get_inode_ref tiny_fs 12 t) = Ok \<lparr> ir_inode_num = 12, ir_inode = i \<rparr> \<and> i_uid i = 1000"
proof -
  let ?ch = "\<lparr> ch_mode = None, ch_uid = Some 1000, ch_gid = None, ch_size = None,
      ch_atime = None, ch_mtime = None, ch_ctime = None, ch_crtime = None, ch_chgtime = None, ch_bkuptime = None,
      ch_flags = None \<rparr> :: attr_change"
  have a: "apart (desc_pos tiny_sb (inode_group tiny_sb 12), 64) (inode_pos tiny_fs tiny_image 12, 156)"
    by (simp add: apart_def tiny_inode_pos desc_pos_def inode_group_def saturating_sub_def)
  obtain i t where t: "fuse_setattr_impl tiny_fs 12 ?ch tiny_dev = (Ok (), t)"
    "zero_checksum i = zero_checksum (changed_inode ?ch (inode_at tiny_fs tiny_image 12))"
    "fst (get_inode_ref tiny_fs 12 t) = Ok \<lparr> ir_inode_num = 12, ir_inode = i \<rparr>"
    using setattr_without_mode [of tiny_dev tiny_fs ?ch 12] a by auto
  have "i_uid i = 1000" using arg_cong [OF t(2), of i_uid] by (simp add: zero_checksum_def changed_inode_def)
  then show ?thesis using t by blast
qed

section \<open>Symbolic links\<close>

text \<open>A symbolic link with a target of fewer than 60 bytes reads back: after the target was stored, the
  inode has no blocks and no extent flag, and reading the link returns exactly the target.\<close>

theorem fast_symlink_roundtrip:
  assumes "jd_inv s" and "inodes_ready fs" and "length target < 60"
    and "apart (desc_pos (fs_sb fs) (inode_group (fs_sb fs) (ucast ino)), 64) (inode_pos fs (jd_view s) (ucast ino), 156)"
  shows "\<exists>t. write_symlink_target fuel fs (ucast ino) target s = (Ok (Some ()), t) \<and> jd_inv t
    \<and> fst (fuse_readlink fs ino t) = Ok target"
proof -
  let ?i = "inode_at fs (jd_view s) (ucast ino)"
  let ?r = "\<lparr> ir_inode_num = ucast ino, ir_inode = ?i \<rparr>"
  have "length (i_block (fast_symlink target ?i)) = 60"
    using assms(3) by (simp add: fast_symlink_def set_inode_blocks_count_def set_size_def)
  then obtain i t where t: "write_back_inode fs (?r\<lparr> ir_inode := fast_symlink target ?i \<rparr>) s = (Ok (?r\<lparr> ir_inode := i \<rparr>), t)"
    "jd_inv t" "zero_checksum i = zero_checksum (fast_symlink target ?i)" "inode_at fs (jd_view t) (ucast ino) = i"
    using written_inode [OF assms(1,2), of "?r\<lparr> ir_inode := fast_symlink target ?i \<rparr>"] assms(4) by auto
  have wr: "write_symlink_target fuel fs (ucast ino) target s = (Ok (Some ()), t)"
    using assms(3) t(1) by (simp add: write_symlink_target_def bindS_def get_inode_ref_eq [OF assms(1,2)])
  have same: "inode_blocks_count i = inode_blocks_count (fast_symlink target ?i)" "i_block i = i_block (fast_symlink target ?i)"
    "inode_size i = inode_size (fast_symlink target ?i)"
  proof -
    have "inode_blocks_count (zero_checksum x) = inode_blocks_count x" "i_block (zero_checksum x) = i_block x"
      "inode_size (zero_checksum x) = inode_size x" for x
      by (simp_all add: zero_checksum_def inode_blocks_count_def inode_size_def Let_def)
    then show "inode_blocks_count i = inode_blocks_count (fast_symlink target ?i)" "i_block i = i_block (fast_symlink target ?i)"
      "inode_size i = inode_size (fast_symlink target ?i)"
      using t(3) by metis+
  qed
  have "inode_blocks_count i = 0"
    unfolding same(1) by (simp add: fast_symlink_def set_inode_blocks_count_def inode_blocks_count_def Let_def)
  moreover have "inode_size i = of_nat (length target)"
    by (simp add: same(3) fast_symlink_def inode_split_fields [THEN conjunct1] inode_split_fields [THEN conjunct2, THEN conjunct2, THEN conjunct1])
  moreover have "unat (of_nat (length target) :: u64) = length target" using assms(3) by (intro unat_of_nat_small) simp
  moreover have "i_block i = target @ replicate (60 - length target) 0"
    by (simp add: same(2) fast_symlink_def set_inode_blocks_count_def set_size_def)
  ultimately have "fst (fuse_readlink fs ino t) = Ok target"
    using assms(3)
    by (simp add: fuse_readlink_def bindS_def get_inode_ref_eq [OF t(2) assms(2)] t(4) get_at_Ok slice_append_left slice_all)
  then show ?thesis using wr t(2) by blast
qed

theorem fast_symlink_roundtrip_witness:
  "\<exists>t. write_symlink_target 0 tiny_fs 12 [46, 47, 97] tiny_dev = (Ok (Some ()), t)
    \<and> fst (fuse_readlink tiny_fs 12 t) = Ok [46, 47, 97]"
proof -
  have a: "apart (desc_pos tiny_sb (inode_group tiny_sb 12), 64) (inode_pos tiny_fs tiny_image 12, 156)"
    by (simp add: apart_def tiny_inode_pos desc_pos_def inode_group_def saturating_sub_def)
  show ?thesis using fast_symlink_roundtrip [of tiny_dev tiny_fs "[46, 47, 97]" 12 0] a by auto
qed

section \<open>Truncating what has no extents\<close>





end
