(* ===== verification/FuseData.thy ===== *)
theory FuseData
  imports Fuse
begin

text \<open>
  Data and metadata operations of \<open>src/src/fuse_interface/mod.rs\<close>: reading, writing, listing, access,
  extended attributes, block mapping, ioctls, preallocation, seeking and copying.

  \<open>fuse_lseek\<close> is shown to return the first data or the first hole from an offset on, in terms of the list
  of extents that the file has.
\<close>

unbundle bit_operations_syntax

section \<open>Integers of this interface\<close>

text \<open>\<open>i64 x\<close> is \<open>x\<close> as it is held in an \<open>i64\<close>, \<open>usize_of x\<close> the cast of an \<open>i64\<close> to \<open>usize\<close>.\<close>

definition i64 :: "int \<Rightarrow> int" where
  "i64 x = (x + 2 ^ 63) mod 2 ^ 64 - 2 ^ 63"

definition usize_of :: "int \<Rightarrow> nat" where
  "usize_of x = nat (x mod 2 ^ 64)"

section \<open>Reading and writing\<close>

definition fuse_read :: "ext4 \<Rightarrow> u64 \<Rightarrow> int \<Rightarrow> u32 \<Rightarrow> (jdev, bytes) io" where
  "fuse_read fs ino offset n =
     bindS (read_at fs (ucast ino) (usize_of offset) (replicate (unat n) 0)) (\<lambda>(read_size, data).
     lift (get_at data 0 read_size))"

definition fuse_write :: "nat \<Rightarrow> ext4 \<Rightarrow> u64 \<Rightarrow> int \<Rightarrow> bytes \<Rightarrow> (jdev, nat option) io" where
  "fuse_write fuel fs ino offset data = write_at fuel fs (ucast ino) (usize_of offset) data"

definition fuse_opendir :: "ext4 \<Rightarrow> u64 \<Rightarrow> (jdev, u64) io" where
  "fuse_opendir fs ino =
     bindS (get_inode_ref fs (ucast ino)) (\<lambda>r. lift (if is_dir (ir_inode r) then Ok ino else Err ENOTDIR))"

definition fuse_readdir :: "ext4 \<Rightarrow> u64 \<Rightarrow> int \<Rightarrow> (jdev, (dir_entry \<times> u64) list) io" where
  "fuse_readdir fs ino offset = dir_entries_with_offset_from fs (ucast ino) (of_int offset)"

fun entries_plus :: "ext4 \<Rightarrow> (dir_entry \<times> u64) list \<Rightarrow> (jdev, (dir_entry \<times> u64 \<times> file_attr) list) io" where
  "entries_plus fs [] = ret []"
| "entries_plus fs ((e, next_offset) # es) =
     bindS (get_inode_ref fs (de_inode e)) (\<lambda>r.
     bindS (entries_plus fs es) (\<lambda>plus. ret ((e, next_offset, attr_from_inode_ref r (block_size32 fs)) # plus)))"

definition fuse_readdirplus :: "ext4 \<Rightarrow> u64 \<Rightarrow> int \<Rightarrow> (jdev, (dir_entry \<times> u64 \<times> file_attr) list) io" where
  "fuse_readdirplus fs ino offset =
     bindS (dir_entries_with_offset_from fs (ucast ino) (of_int offset)) (entries_plus fs)"

definition fuse_access :: "ext4 \<Rightarrow> u64 \<Rightarrow> u16 \<Rightarrow> u16 \<Rightarrow> u16 \<Rightarrow> u32 \<Rightarrow> (jdev, bool) io" where
  "fuse_access fs ino uid gid mode msk =
     bindS (acl_access_check fs (ucast ino) uid gid (mode AND 7)) (\<lambda>granted. case granted of
       Some granted \<Rightarrow> ret granted
     | None \<Rightarrow> bindS (get_inode_ref fs (ucast ino)) (\<lambda>r. ret (check_access (ir_inode r) uid gid mode (ucast msk))))"

definition fuse_statfs :: "ext4 \<Rightarrow> u64 \<Rightarrow> (jdev, linux_stat) io" where
  "fuse_statfs fs ino = bindS (get_inode_ref fs (ucast ino)) (\<lambda>r. ret (stat_from_inode_ref r (block_size32 fs)))"

section \<open>Extended attributes\<close>

definition fuse_setxattr :: "nat \<Rightarrow> ext4 \<Rightarrow> u64 \<Rightarrow> bytes \<Rightarrow> bytes \<Rightarrow> u32 \<Rightarrow> (jdev, unit option) io" where
  "fuse_setxattr fuel fs ino name value flags = journaled_fuel fs (xattr_set fuel fs (ucast ino) name value flags)"

definition fuse_getxattr :: "ext4 \<Rightarrow> u64 \<Rightarrow> bytes \<Rightarrow> u32 \<Rightarrow> (jdev, bytes) io" where
  "fuse_getxattr fs ino name n =
     bindS (xattr_get fs (ucast ino) name) (\<lambda>value.
     lift (if n = 0 then Ok value else if unat n < length value then Err ERANGE else Ok value))"

definition fuse_listxattr :: "ext4 \<Rightarrow> u64 \<Rightarrow> u32 \<Rightarrow> (jdev, bytes) io" where
  "fuse_listxattr fs ino n =
     bindS (xattr_list fs (ucast ino)) (\<lambda>names.
     let buf = concat (map (\<lambda>name. name @ [0]) names) in
     lift (if n \<noteq> 0 \<and> unat n < length buf then Err ERANGE else Ok buf))"

definition fuse_removexattr :: "nat \<Rightarrow> ext4 \<Rightarrow> u64 \<Rightarrow> bytes \<Rightarrow> (jdev, unit option) io" where
  "fuse_removexattr fuel fs ino name = journaled_fuel fs (xattr_remove fuel fs (ucast ino) name)"

section \<open>Block mapping, ioctls and readiness\<close>

definition fuse_bmap :: "ext4 \<Rightarrow> u64 \<Rightarrow> u32 \<Rightarrow> u64 \<Rightarrow> (jdev, u64) io" where
  "fuse_bmap fs ino blocksize idx =
     (if blocksize = 0 then lift (Err EINVAL)
      else let fs_bs = of_nat (fs_block_size fs) :: u64; bs = ucast blocksize; byte_off = idx * bs in
        if fs_bs = 0 then lift Panic
        else bindS (get_inode_ref fs (ucast ino)) (\<lambda>iref.
          bindS (get_pblock_state (fs_block_size fs) iref (ucast (byte_off div fs_bs))) (\<lambda>(pblock, _).
          ret (if pblock = 0 then 0 else (pblock * fs_bs + byte_off mod fs_bs) div bs))))"

definition FS_IOC_GETFLAGS :: u32 where "FS_IOC_GETFLAGS = 0x80086601"
definition FS_IOC_SETFLAGS :: u32 where "FS_IOC_SETFLAGS = 0x40086602"
definition FS_IOC_GETVERSION :: u32 where "FS_IOC_GETVERSION = 0x80087601"
definition EXT4_FL_USER_VISIBLE :: u32 where "EXT4_FL_USER_VISIBLE = 0x705BDFFF"
definition EXT4_FL_USER_MODIFIABLE :: u32 where "EXT4_FL_USER_MODIFIABLE = 0x6003C0FF"

definition fuse_ioctl :: "ext4 \<Rightarrow> u64 \<Rightarrow> u32 \<Rightarrow> bytes \<Rightarrow> (jdev, bytes) io" where
  "fuse_ioctl fs ino cmd in_data =
     (if cmd = FS_IOC_GETFLAGS then
        bindS (get_inode_ref fs (ucast ino)) (\<lambda>iref. ret (le_bytes 4 (i_flags (ir_inode iref) AND EXT4_FL_USER_VISIBLE)))
      else if cmd = FS_IOC_SETFLAGS then
        if length in_data < 4 then lift (Err EINVAL)
        else let want = le_word (take 4 in_data) in
          bindS (get_inode_ref fs (ucast ino)) (\<lambda>iref.
          let merged = (i_flags (ir_inode iref) AND NOT EXT4_FL_USER_MODIFIABLE) OR (want AND EXT4_FL_USER_MODIFIABLE) in
          bindS (write_back_inode fs (iref\<lparr> ir_inode := (ir_inode iref)\<lparr> i_flags := merged \<rparr> \<rparr>)) (\<lambda>_. ret []))
      else if cmd = FS_IOC_GETVERSION then
        bindS (get_inode_ref fs (ucast ino)) (\<lambda>iref. ret (le_bytes 4 (i_generation (ir_inode iref))))
      else lift (Err ENOTTY))"

definition fuse_poll :: "u32 \<Rightarrow> u32" where
  "fuse_poll events = events AND (0x001 OR 0x004 OR 0x040 OR 0x100)"

section \<open>Session\<close>

text \<open>Mounting, unmounting and closing a directory keep no state; syncing passes the flush on to the device.\<close>

definition fuse_init :: "(jdev, unit) io" where "fuse_init = ret ()"
definition fuse_destroy :: "(jdev, unit) io" where "fuse_destroy = ret ()"
definition fuse_releasedir :: "(jdev, unit) io" where "fuse_releasedir = ret ()"
definition fuse_fsync :: "(jdev, unit) io" where "fuse_fsync = jd_flush"
definition fuse_fsyncdir :: "(jdev, unit) io" where "fuse_fsyncdir = jd_flush"

section \<open>Preallocation\<close>

definition unmapped :: "ext4 \<Rightarrow> inode_ref \<Rightarrow> nat \<Rightarrow> (jdev, bool) io" where
  "unmapped fs r b = bindS (or_value (get_pblock_idx (fs_block_size fs) r (of_nat b)) 0) (\<lambda>p. ret (p = 0))"

text \<open>The loop that allocates: \<open>n\<close> blocks from \<open>lb\<close> on are left to look at.\<close>

fun fallocate_fill :: "ext4 \<Rightarrow> nat \<Rightarrow> nat \<Rightarrow> inode_ref \<Rightarrow> u32 \<Rightarrow> (jdev, inode_ref) io" where
  "fallocate_fill fs 0 lb r start_bgid = ret r"
| "fallocate_fill fs (Suc n) lb r start_bgid =
     bindS (unmapped fs r lb) (\<lambda>hole.
     if \<not> hole then fallocate_fill fs n (lb + 1) r start_bgid
     else bindS (run_length (unmapped fs r) (lb + 1) n) (\<lambda>k.
       let run_end = lb + 1 + k; count = run_end - lb in
       bindS (map_inode_pblk_batch fs r start_bgid (of_nat lb) count True) (\<lambda>(allocated, r, start_bgid).
       if length allocated < count then lift (Err ENOSPC)
       else fallocate_fill fs (n - k) run_end r start_bgid)))"

text \<open>The bytes from \<open>start\<close> to \<open>stop\<close> of mapped blocks are zeroed, from block \<open>lb\<close> on.\<close>

fun zero_partial :: "nat \<Rightarrow> ext4 \<Rightarrow> inode_ref \<Rightarrow> int \<Rightarrow> int \<Rightarrow> int \<Rightarrow> (jdev, unit option) io" where
  "zero_partial 0 fs r start stop lb = ret None"
| "zero_partial (Suc fuel) fs r start stop lb =
     (let bs = int (fs_block_size fs); blk_start = i64 (lb * bs) in
      if \<not> blk_start < stop then ret (Some ())
      else let lo = i64 (max start blk_start - blk_start);
               hi = i64 (min stop (i64 (blk_start + bs)) - blk_start) in
        bindS (or_value (get_pblock_idx (fs_block_size fs) r (of_int lb)) 0) (\<lambda>pblk.
        bindS (if pblk = 0 then ret ()
               else let off = unat pblk * fs_block_size fs in
                 bindS (jd_read off (fs_block_size fs)) (\<lambda>data.
                 if usize_of hi < usize_of lo \<or> length data < usize_of hi then lift Panic
                 else jd_write off (put data (usize_of lo) (replicate (usize_of hi - usize_of lo) 0)))) (\<lambda>_.
        zero_partial fuel fs r start stop (i64 (lb + 1)))))"

definition fallocate_zero_partial :: "nat \<Rightarrow> ext4 \<Rightarrow> inode_ref \<Rightarrow> int \<Rightarrow> int \<Rightarrow> (jdev, unit option) io" where
  "fallocate_zero_partial fuel fs r start stop =
     (if fs_block_size fs = 0 then lift Panic else zero_partial fuel fs r start stop (start sdiv int (fs_block_size fs)))"

definition punch_hole :: "nat \<Rightarrow> ext4 \<Rightarrow> inode_ref \<Rightarrow> int \<Rightarrow> int \<Rightarrow> (jdev, unit option) io" where
  "punch_hole fuel fs r start stop =
     (let bs = int (fs_block_size fs);
          aligned_start = i64 (i64 (i64 (start + bs) - 1) sdiv bs * bs);
          aligned_end = i64 (stop sdiv bs * bs) in
      if aligned_start < aligned_end then
        bindO (extent_remove_space fuel fs r (of_int (aligned_start sdiv bs)) (of_int (aligned_end sdiv bs - 1))) (\<lambda>r.
        bindS (write_back_inode fs r) (\<lambda>r.
        bindO (if start < aligned_start then fallocate_zero_partial fuel fs r start aligned_start else ret (Some ())) (\<lambda>_.
        if aligned_end < stop then fallocate_zero_partial fuel fs r aligned_end stop else ret (Some ()))))
      else fallocate_zero_partial fuel fs r start stop)"

definition FALLOC_FL_KEEP_SIZE :: u32 where "FALLOC_FL_KEEP_SIZE = 0x01"
definition FALLOC_FL_PUNCH_HOLE :: u32 where "FALLOC_FL_PUNCH_HOLE = 0x02"

definition fuse_fallocate_impl :: "nat \<Rightarrow> ext4 \<Rightarrow> u64 \<Rightarrow> int \<Rightarrow> int \<Rightarrow> u32 \<Rightarrow> (jdev, unit option) io" where
  "fuse_fallocate_impl fuel fs ino offset len mode =
     (if offset < 0 \<or> len \<le> 0 then lift (Err EINVAL)
      else if mode AND NOT (FALLOC_FL_KEEP_SIZE OR FALLOC_FL_PUNCH_HOLE) \<noteq> 0 then lift (Err ENOTSUP)
      else let punch = (mode AND FALLOC_FL_PUNCH_HOLE \<noteq> 0); keep_size = (mode AND FALLOC_FL_KEEP_SIZE \<noteq> 0) in
        if punch \<and> \<not> keep_size then lift (Err EINVAL)
        else let bs = int (fs_block_size fs); stop = i64 (offset + len) in
          bindS (get_inode_ref fs (ucast ino)) (\<lambda>r.
          if bs = 0 then lift Panic
          else if punch then punch_hole fuel fs r offset stop
          else let start_blk = usize_of (offset sdiv bs); end_blk = usize_of (i64 (i64 (stop + bs) - 1) sdiv bs) in
            bindS (fallocate_fill fs (end_blk - start_blk) start_blk r 0) (\<lambda>r.
            if \<not> keep_size \<and> inode_size (ir_inode r) < of_int stop
            then bindS (write_back_inode fs (r\<lparr> ir_inode := set_size (of_int stop) (ir_inode r) \<rparr>)) (\<lambda>_. ret (Some ()))
            else ret (Some ()))))"

definition fuse_fallocate :: "nat \<Rightarrow> ext4 \<Rightarrow> u64 \<Rightarrow> int \<Rightarrow> int \<Rightarrow> u32 \<Rightarrow> (jdev, unit option) io" where
  "fuse_fallocate fuel fs ino offset len mode = journaled_fuel fs (fuse_fallocate_impl fuel fs ino offset len mode)"

section \<open>Seeking\<close>

definition SEEK_DATA :: int where "SEEK_DATA = 3"
definition SEEK_HOLE :: int where "SEEK_HOLE = 4"

text \<open>The loop of \<open>fuse_lseek\<close>. The block number is cut to 32 bits, so in a file of more than \<open>2 ^ 32\<close>
  blocks the loop may go back and not end.\<close>

fun seek_loop :: "nat \<Rightarrow> ext4 \<Rightarrow> inode_ref \<Rightarrow> int \<Rightarrow> bool \<Rightarrow> int \<Rightarrow> (jdev, int option) io" where
  "seek_loop 0 fs r n want_data pos = ret None"
| "seek_loop (Suc fuel) fs r n want_data pos =
     (if pos < n
      then let lblk = of_int (pos sdiv int (fs_block_size fs)) :: u32 in
        bindS (or_value (bindS (get_pblock_idx (fs_block_size fs) r lblk) (\<lambda>p. ret (p = 0))) True) (\<lambda>hole.
        if hole \<noteq> want_data then ret (Some pos)
        else seek_loop fuel fs r n want_data (i64 ((uint lblk + 1) * int (fs_block_size fs))))
      else if want_data then lift (Err ENXIO) else ret (Some n))"

definition fuse_lseek :: "nat \<Rightarrow> ext4 \<Rightarrow> u64 \<Rightarrow> int \<Rightarrow> int \<Rightarrow> (jdev, int option) io" where
  "fuse_lseek fuel fs ino offset whence =
     (if whence \<noteq> SEEK_DATA \<and> whence \<noteq> SEEK_HOLE then lift (Err EINVAL)
      else if offset < 0 then lift (Err EINVAL)
      else bindS (get_inode_ref fs (ucast ino)) (\<lambda>r.
        let n = sint (inode_size (ir_inode r)) in
        if n \<le> offset then lift (Err ENXIO)
        else if fs_block_size fs = 0 then lift Panic
        else seek_loop fuel fs r n (whence = SEEK_DATA) offset))"

section \<open>Copying\<close>

function copy_loop ::
  "nat \<Rightarrow> ext4 \<Rightarrow> u32 \<Rightarrow> u32 \<Rightarrow> nat \<Rightarrow> nat \<Rightarrow> nat \<Rightarrow> nat \<Rightarrow> bytes \<Rightarrow> (jdev, nat option) io" where
  "copy_loop fuel fs ino_in ino_out len copied in_off out_off buf =
     (if \<not> copied < len then ret (Some copied)
      else let want = min (fs_block_size fs) (len - copied) in
        bindS (read_at fs ino_in in_off (take want buf)) (\<lambda>(n, part).
        let buf = part @ drop want buf in
        if n = 0 then ret (Some copied)
        else bindO (write_at fuel fs ino_out out_off (take n buf)) (\<lambda>written.
          if written < n then ret (Some (copied + written))
          else copy_loop fuel fs ino_in ino_out len (copied + written) (in_off + written) (out_off + written) buf)))"
  by pat_completeness auto
termination
  by (relation "measure (\<lambda>(fuel, fs, ino_in, ino_out, len, copied, in_off, out_off, buf). len - copied)") auto

declare copy_loop.simps [simp del]

definition fuse_copy_file_range_impl ::
  "nat \<Rightarrow> ext4 \<Rightarrow> u64 \<Rightarrow> int \<Rightarrow> u64 \<Rightarrow> int \<Rightarrow> u64 \<Rightarrow> u32 \<Rightarrow> (jdev, nat option) io" where
  "fuse_copy_file_range_impl fuel fs ino_in offset_in ino_out offset_out len flags =
     (if flags \<noteq> 0 then lift (Err EINVAL)
      else if offset_in < 0 \<or> offset_out < 0 then lift (Err EINVAL)
      else if ino_in = ino_out \<and> (of_int offset_in :: u64) < of_int offset_out + len
        \<and> (of_int offset_out :: u64) < of_int offset_in + len then lift (Err EINVAL)
      else copy_loop fuel fs (ucast ino_in) (ucast ino_out) (unat len) 0 (usize_of offset_in) (usize_of offset_out)
        (replicate (fs_block_size fs) 0))"

definition fuse_copy_file_range ::
  "nat \<Rightarrow> ext4 \<Rightarrow> u64 \<Rightarrow> int \<Rightarrow> u64 \<Rightarrow> int \<Rightarrow> u64 \<Rightarrow> u32 \<Rightarrow> (jdev, nat option) io" where
  "fuse_copy_file_range fuel fs ino_in offset_in ino_out offset_out len flags =
     journaled_fuel fs (fuse_copy_file_range_impl fuel fs ino_in offset_in ino_out offset_out len flags)"

section \<open>Data and holes\<close>

text \<open>Byte \<open>p\<close> of a file with the extents \<open>es\<close> is in a block that is mapped; preallocated blocks count as
  data, as the code counts them.\<close>

definition in_data :: "nat \<Rightarrow> extent list \<Rightarrow> int \<Rightarrow> bool" where
  "in_data bs es p \<longleftrightarrow> fst (lookup es (of_int (p div int bs))) \<noteq> 0"

definition sought :: "nat \<Rightarrow> extent list \<Rightarrow> bool \<Rightarrow> int \<Rightarrow> int \<Rightarrow> int \<Rightarrow> bool" where
  "sought bs es want_data pos n q \<longleftrightarrow>
     pos \<le> q \<and> q < n \<and> in_data bs es q = want_data \<and> (\<forall>p. pos \<le> p \<and> p < q \<longrightarrow> in_data bs es p \<noteq> want_data)"

lemma i64_small: "- (2 ^ 63) \<le> x \<Longrightarrow> x < 2 ^ 63 \<Longrightarrow> i64 x = x"
  by (simp add: i64_def)

lemma sdiv_nonneg: "0 \<le> a \<Longrightarrow> 0 < b \<Longrightarrow> a sdiv b = (a div b :: int)"
  by (simp add: signed_divide_int_def sgn_if)

lemma uint_in_range: "0 \<le> x \<Longrightarrow> x < 2 ^ 32 \<Longrightarrow> uint (of_int x :: u32) = x"
  by (simp add: uint_word_of_int)

lemma get_pblock_idx_maps:
  "jd_inv s \<Longrightarrow> maps_blocks (jd_view s) bs (ir_inode r) es \<Longrightarrow> get_pblock_idx bs r l s = (Ok (fst (lookup es l)), s)"
  unfolding maps_blocks_def using get_pblock_idx_lookup [OF reads_view] by blast

lemma block_bounds: "0 < b \<Longrightarrow> p div b * b \<le> p \<and> p < (p div b + 1) * (b :: int)"
  using pos_mod_bound [of b p] pos_mod_sign [of b p] div_mult_mod_eq [of p b] unfolding distrib_right by linarith

lemma block_less: "0 < b \<Longrightarrow> p < k * b \<Longrightarrow> p div b < (k :: int)"
  using block_bounds [of b p] mult_right_mono [of k "p div b" b] by linarith

lemma same_block_data:
  assumes "0 < bs" and "pos \<le> p" and "p < (pos div int bs + 1) * int bs"
  shows "in_data bs es p = in_data bs es pos"
proof -
  have "p div int bs \<le> pos div int bs" using block_less [OF _ assms(3)] assms(1) by simp
  moreover have "pos div int bs \<le> p div int bs" using assms(1,2) by (simp add: zdiv_mono1)
  ultimately show ?thesis by (simp add: in_data_def)
qed

text \<open>The search goes on at the next block when this one is not of the kind sought.\<close>

lemma sought_later:
  assumes "0 < bs" and "in_data bs es pos \<noteq> want" and "m = (pos div int bs + 1) * int bs"
  shows "sought bs es want pos n q \<longleftrightarrow> sought bs es want m n q"
proof -
  have "pos < m" unfolding assms(3) using assms(1)
    using block_bounds [of "int bs" pos] by simp
  moreover have "p < m \<Longrightarrow> pos \<le> p \<Longrightarrow> in_data bs es p \<noteq> want" for p
    using same_block_data [OF assms(1)] assms(2,3) by metis
  ultimately show ?thesis unfolding sought_def by (meson dual_order.trans less_imp_le not_le)
qed

lemma seek_loop_finds:
  assumes s: "jd_inv s" and m: "maps_blocks (jd_view s) bs (ir_inode r) es" and bs: "bs = fs_block_size fs" "0 < bs" "bs < 2 ^ 31"
    and n: "n \<le> 2 ^ 32 * int bs"
  shows "0 \<le> pos \<Longrightarrow> n \<le> (pos div int bs + int fuel) * int bs \<Longrightarrow>
    (\<exists>q. sought bs es want pos n q \<and> seek_loop (Suc fuel) fs r n want pos s = (Ok (Some q), s))
    \<or> (\<nexists>q. sought bs es want pos n q) \<and> seek_loop (Suc fuel) fs r n want pos s
        = (if want then (Err ENXIO, s) else (Ok (Some n), s))"
proof (induction fuel arbitrary: pos)
  case 0
  have "n \<le> pos" using 0(2) block_bounds [of "int bs" pos] bs(2) by simp
  then show ?case by (simp add: sought_def)
next
  case (Suc fuel)
  show ?case
  proof (cases "pos < n")
    case True
    define m where "m = (pos div int bs + 1) * int bs"
    have "pos < 2 ^ 32 * int bs" using True n by simp
    then have k: "0 \<le> pos div int bs" "pos div int bs < 2 ^ 32"
      using bs(2) Suc.prems(1) block_less [of "int bs" pos "2 ^ 32"] by (simp_all add: pos_imp_zdiv_nonneg_iff)
    have blk: "pos sdiv int bs = pos div int bs" using Suc.prems(1) bs(2) by (simp add: sdiv_nonneg)
    have u: "uint (of_int (pos div int bs) :: u32) = pos div int bs" using k by (simp add: uint_in_range)
    have "m \<le> 2 ^ 32 * int bs" unfolding m_def using k by (intro mult_right_mono) simp_all
    moreover have "0 \<le> m" unfolding m_def using k by simp
    moreover have "int bs < 2 ^ 31" using bs(3) by simp
    ultimately have m64: "i64 m = m" "0 \<le> m" by (auto intro!: i64_small)
    have m_blk: "m div int bs = pos div int bs + 1" using bs(2) by (simp add: m_def)
    have hole: "or_value (bindS (get_pblock_idx (fs_block_size fs) r (of_int (pos div int bs))) (\<lambda>p. ret (p = 0))) True s
        = (Ok (\<not> in_data bs es pos), s)"
      using get_pblock_idx_maps [OF s m, of "of_int (pos div int bs)"] by (simp add: or_value_def bindS_def in_data_def bs(1) [symmetric])
    have run: "seek_loop (Suc (Suc fuel)) fs r n want pos s =
        (if in_data bs es pos = want then (Ok (Some pos), s) else seek_loop (Suc fuel) fs r n want m s)"
      by (subst seek_loop.simps(2))
        (auto simp: True blk u bs(1) [symmetric] m_def [symmetric] m64(1) Let_def bindS_def hole [unfolded bs(1) [symmetric]] simp del: seek_loop.simps)
    show ?thesis
    proof (cases "in_data bs es pos = want")
      case True
      then show ?thesis unfolding run using \<open>pos < n\<close> by (auto simp: sought_def)
    next
      case False
      have "n \<le> (m div int bs + int fuel) * int bs" using Suc.prems(2) by (simp add: m_blk algebra_simps)
      from Suc.IH [OF m64(2) this] show ?thesis unfolding run
        using False sought_later [OF bs(2) False m_def, of n] by simp
    qed
  qed (auto simp: sought_def)
qed

text \<open>C36: Seeking. In a file of at most \<open>2 ^ 32\<close> blocks, from an offset inside it, the search for data
  returns the first byte from there on that lies in a mapped block and ENXIO when there is none; the search
  for a hole returns the first byte that lies in none, or the end of the file. It reads one block of the
  map at most for each block of the file and writes nothing.\<close>

theorem fuse_lseek_correct:
  fixes fs :: ext4 and s :: jdev and ino :: u64 and fuel :: nat
  defines "i \<equiv> inode_at fs (jd_view s) (ucast ino)"
  defines "n \<equiv> sint (inode_size i)" and "bs \<equiv> fs_block_size fs"
  assumes "jd_inv s" and "inodes_ready fs" and "maps_blocks (jd_view s) bs i es"
    and "whence = SEEK_DATA \<or> whence = SEEK_HOLE" and "0 \<le> offset" and "offset < n"
    and "n \<le> 2 ^ 32 * int bs" and "bs < 2 ^ 31" and "n \<le> int fuel * int bs"
  shows "(\<exists>q. sought bs es (whence = SEEK_DATA) offset n q \<and> fuse_lseek (Suc fuel) fs ino offset whence s = (Ok (Some q), s))
    \<or> (\<nexists>q. sought bs es (whence = SEEK_DATA) offset n q)
       \<and> fuse_lseek (Suc fuel) fs ino offset whence s = (if whence = SEEK_DATA then (Err ENXIO, s) else (Ok (Some n), s))"
proof -
  let ?r = "\<lparr> ir_inode_num = ucast ino, ir_inode = i \<rparr>"
  have bs: "0 < bs" using assms(5) by (auto simp: inodes_ready_def bs_def)
  have get: "get_inode_ref fs (ucast ino) s = (Ok ?r, s)" by (simp add: get_inode_ref_eq [OF assms(4,5)] i_def)
  have "fuse_lseek (Suc fuel) fs ino offset whence s = seek_loop (Suc fuel) fs ?r n (whence = SEEK_DATA) offset s"
    using assms(7-9) bs by (auto simp: fuse_lseek_def bindS_def get n_def bs_def simp del: seek_loop.simps)
  moreover have "0 \<le> offset div int bs * int bs" using assms(8) bs by (simp add: pos_imp_zdiv_nonneg_iff)
  then have "n \<le> (offset div int bs + int fuel) * int bs" using assms(12) by (simp add: algebra_simps)
  moreover have "maps_blocks (jd_view s) bs (ir_inode ?r) es" using assms(6) by simp
  ultimately show ?thesis
    using seek_loop_finds [OF assms(4) _ bs_def [THEN meta_eq_to_obj_eq] bs assms(11,10,8)] by presburger
qed

theorem fuse_lseek_correct_witness:
  "fuse_lseek 6 tiny_fs 12 100 3 file_dev = (Ok (Some 4096), file_dev)"
proof -
  have size: "inode_size sample_file = 10000" by (simp add: inode_size_def sample_file_def)
  have low: "\<not> in_data 2048 [sample_extent] p" if "0 \<le> p" "p < 4096" for p
  proof -
    have "p div 2048 = 0 \<or> p div 2048 = 1" using that by auto
    then show ?thesis by (auto simp: in_data_def lookup_def covers_def sample_extent_def get_actual_len_def is_unwritten_def EXT_INIT_MAX_LEN_def)
  qed
  have high: "in_data 2048 [sample_extent] 4096"
    by (simp add: in_data_def lookup_def covers_def sample_extent_def get_actual_len_def is_unwritten_def EXT_INIT_MAX_LEN_def get_pblock_def)
  have only: "sought 2048 [sample_extent] True 100 10000 q \<longleftrightarrow> q = 4096" for q
    unfolding sought_def using low high by (smt (verit))
  show ?thesis
    using fuse_lseek_correct [of file_dev tiny_fs 12 "[sample_extent]" 3 100 5]
    by (simp add: file_inode file_maps size only SEEK_DATA_def)
qed

end
