(* ===== verification/Rename.thy ===== *)
theory Rename
  imports Fuse FileAtomic
begin

text \<open>
  Renaming (\<open>fuse_rename\<close>, \<open>rename_exchange\<close>, \<open>dir_is_ancestor\<close> and \<open>adjust_dir_links\<close> of
  \<open>src/src/fuse_interface/mod.rs\<close>). The walk up to the root follows \<open>..\<close> entries, which a damaged
  directory tree may close to a cycle: it carries fuel.
\<close>

unbundle bit_operations_syntax

definition dotdot :: bytes where "dotdot = [0x2E, 0x2E]"

fun dir_is_ancestor :: "nat \<Rightarrow> ext4 \<Rightarrow> u32 \<Rightarrow> u32 \<Rightarrow> (jdev, bool option) io" where
  "dir_is_ancestor 0 fs ancestor cur = ret None"
| "dir_is_ancestor (Suc fuel) fs ancestor cur =
     (if cur = ancestor then ret (Some True)
      else if cur = ROOT_INODE then ret (Some False)
      else on_result (dir_find_entry fs cur dotdot)
        (\<lambda>res. let parent = de_inode (ds_dentry res) in
           if parent = cur then ret (Some False) else dir_is_ancestor fuel fs ancestor parent)
        (\<lambda>_. ret (Some False)))"

definition adjust_dir_links :: "ext4 \<Rightarrow> u32 \<Rightarrow> int \<Rightarrow> (jdev, unit) io" where
  "adjust_dir_links fs ino delta =
     (if delta = 0 then ret ()
      else bindS (get_inode_ref fs ino) (\<lambda>r.
        let links = of_int (max 0 (int (unat (i_links_count (ir_inode r))) + delta)) in
        bindS (write_back_inode fs (r\<lparr> ir_inode := (ir_inode r)\<lparr> i_links_count := links \<rparr> \<rparr>)) (\<lambda>_. ret ())))"

definition rename_exchange :: "nat \<Rightarrow> ext4 \<Rightarrow> u32 \<Rightarrow> bytes \<Rightarrow> u32 \<Rightarrow> bool \<Rightarrow> u32 \<Rightarrow> bytes \<Rightarrow> (jdev, unit option) io" where
  "rename_exchange fuel fs old_parent name src_ino src_is_dir new_parent newname =
     bindS (dir_find_entry fs new_parent newname) (\<lambda>dst.
     let dst_ino = de_inode (ds_dentry dst) in
     if dst_ino = src_ino then ret (Some ())
     else bindS (get_inode_ref fs dst_ino) (\<lambda>dst_ref.
     let dst_is_dir = is_dir (ir_inode dst_ref) in
     bindO (if dst_is_dir then dir_is_ancestor fuel fs dst_ino old_parent else ret (Some False)) (\<lambda>above.
     if above then lift (Err EINVAL)
     else bindS (dir_set_entry_target fs old_parent name dst_ino) (\<lambda>_.
     bindS (dir_set_entry_target fs new_parent newname src_ino) (\<lambda>_.
     if old_parent = new_parent then ret (Some ())
     else bindS (if src_is_dir then dir_set_entry_target fs src_ino dotdot new_parent else ret ()) (\<lambda>_.
     bindS (if dst_is_dir then dir_set_entry_target fs dst_ino dotdot old_parent else ret ()) (\<lambda>_.
     bindS (adjust_dir_links fs old_parent (of_bool dst_is_dir - of_bool src_is_dir)) (\<lambda>_.
     bindS (adjust_dir_links fs new_parent (of_bool src_is_dir - of_bool dst_is_dir)) (\<lambda>_. ret (Some ()))))))))))"

definition RENAME_NOREPLACE :: u32 where "RENAME_NOREPLACE = 1"
definition RENAME_EXCHANGE :: u32 where "RENAME_EXCHANGE = 2"

text \<open>What becomes of an existing destination; \<open>True\<close> means that there is nothing left to do.\<close>

definition clear_destination :: "nat \<Rightarrow> ext4 \<Rightarrow> u32 \<Rightarrow> bool \<Rightarrow> u32 \<Rightarrow> bytes \<Rightarrow> u32 \<Rightarrow> (jdev, bool option) io" where
  "clear_destination fuel fs src_ino src_is_dir new_parent newname flags =
     on_result (dir_find_entry fs new_parent newname)
       (\<lambda>dst. if flags AND RENAME_NOREPLACE \<noteq> 0 then lift (Err EEXIST)
         else let dst_ino = de_inode (ds_dentry dst) in
           if dst_ino = src_ino then ret (Some True)
           else bindS (get_inode_ref fs dst_ino) (\<lambda>dst_ref.
             let dst_is_dir = is_dir (ir_inode dst_ref) in
             if dst_is_dir \<and> \<not> src_is_dir then lift (Err EISDIR)
             else if \<not> dst_is_dir \<and> src_is_dir then lift (Err ENOTDIR)
             else bindO (if dst_is_dir then dir_remove fuel fs new_parent newname
                         else fuse_unlink fuel fs (ucast new_parent) newname) (\<lambda>_. ret (Some False))))
       (\<lambda>_. ret (Some False))"

text \<open>The source takes the new name.\<close>

definition move_entry :: "ext4 \<Rightarrow> u32 \<Rightarrow> bytes \<Rightarrow> inode_ref \<Rightarrow> u32 \<Rightarrow> bytes \<Rightarrow> (jdev, unit) io" where
  "move_entry fs old_parent name src_ref new_parent newname =
     bindS (get_inode_ref fs new_parent) (\<lambda>np.
     bindS (dir_add_entry fs np src_ref newname) (\<lambda>np.
     bindS (write_back_inode fs np) (\<lambda>_.
     bindS (get_inode_ref fs old_parent) (\<lambda>op.
     bindS (dir_remove_entry fs op name) (\<lambda>_.
     bindS (write_back_inode fs op) (\<lambda>_.
     if is_dir (ir_inode src_ref) \<and> old_parent \<noteq> new_parent
     then bindS (dir_set_entry_target fs (ir_inode_num src_ref) dotdot new_parent) (\<lambda>_.
       bindS (adjust_dir_links fs old_parent (-1)) (\<lambda>_. adjust_dir_links fs new_parent 1))
     else ret ()))))))"

definition fuse_rename_impl :: "nat \<Rightarrow> ext4 \<Rightarrow> u64 \<Rightarrow> bytes \<Rightarrow> u64 \<Rightarrow> bytes \<Rightarrow> u32 \<Rightarrow> (jdev, unit option) io" where
  "fuse_rename_impl fuel fs parent name newparent newname flags =
     (let old_parent = ucast parent; new_parent = ucast newparent in
      bindS (dir_find_entry fs old_parent name) (\<lambda>src.
      let src_ino = de_inode (ds_dentry src) in
      bindS (get_inode_ref fs src_ino) (\<lambda>src_ref.
      let src_is_dir = is_dir (ir_inode src_ref) in
      bindO (if src_is_dir then dir_is_ancestor fuel fs src_ino new_parent else ret (Some False)) (\<lambda>above.
      if above then lift (Err EINVAL)
      else if flags AND RENAME_EXCHANGE \<noteq> 0
      then rename_exchange fuel fs old_parent name src_ino src_is_dir new_parent newname
      else bindO (clear_destination fuel fs src_ino src_is_dir new_parent newname flags) (\<lambda>done.
      if done then ret (Some ())
      else bindS (move_entry fs old_parent name src_ref new_parent newname) (\<lambda>_. ret (Some ())))))))"

definition fuse_rename :: "nat \<Rightarrow> ext4 \<Rightarrow> u64 \<Rightarrow> bytes \<Rightarrow> u64 \<Rightarrow> bytes \<Rightarrow> u32 \<Rightarrow> (jdev, unit option) io" where
  "fuse_rename fuel fs parent name newparent newname flags =
     journaled_fuel fs (fuse_rename_impl fuel fs parent name newparent newname flags)"

section \<open>Ancestors\<close>

text \<open>What a directory gives as its parent, and the step of the walk: from a directory that is not the
  root to its parent, when that is another directory.\<close>

definition parent_dir :: "ext4 \<Rightarrow> jdev \<Rightarrow> u32 \<Rightarrow> u32 res" where
  "parent_dir fs s c = map_res (\<lambda>d. de_inode (ds_dentry d)) (fst (dir_find_entry fs c dotdot s))"

inductive up :: "ext4 \<Rightarrow> jdev \<Rightarrow> u32 \<Rightarrow> u32 \<Rightarrow> bool" for fs s where
  "c \<noteq> ROOT_INODE \<Longrightarrow> parent_dir fs s c = Ok p \<Longrightarrow> p \<noteq> c \<Longrightarrow> up fs s c p"

inductive_simps up_iff: "up fs s c p"

text \<open>A directory at which the walk ends: the root, one without a readable \<open>..\<close>, one that is its own parent.\<close>

definition topmost :: "ext4 \<Rightarrow> jdev \<Rightarrow> u32 \<Rightarrow> bool" where
  "topmost fs s c \<longleftrightarrow> c = ROOT_INODE \<or> parent_dir fs s c = Ok c \<or> (\<exists>e. parent_dir fs s c = Err e)"

lemma dir_find_entry_reads: "snd (dir_find_entry fs c name s) = s"
  using reads.obeys_dir_reads(1) [of fs c name] unfolding obeys_def by (metis (no_types))

lemma dir_is_ancestor_step:
  "dir_is_ancestor (Suc fuel) fs a c s =
     (if c = a then (Ok (Some True), s)
      else if topmost fs s c then (Ok (Some False), s)
      else case parent_dir fs s c of
        Ok p \<Rightarrow> dir_is_ancestor fuel fs a p s
      | Err e \<Rightarrow> (Err e, s) | Panic \<Rightarrow> (Panic, s) | Undef \<Rightarrow> (Undef, s))"
proof -
  obtain r where r: "dir_find_entry fs c dotdot s = (r, s)"
    using dir_find_entry_reads [of fs c dotdot s] by (metis prod.collapse)
  show ?thesis
    by (cases r) (auto simp: r on_result_def topmost_def parent_dir_def)
qed

lemma up_cases:
  assumes "\<not> topmost fs s c"
  shows "(\<exists>p. up fs s c p \<and> parent_dir fs s c = Ok p) \<or> parent_dir fs s c = Panic \<or> parent_dir fs s c = Undef"
  using assms by (cases "parent_dir fs s c") (auto simp: topmost_def up_iff)

lemma up_not_topmost: "up fs s c p \<Longrightarrow> \<not> topmost fs s c \<and> parent_dir fs s c = Ok p"
  by (auto simp: topmost_def up_iff)

lemma up_star: "up fs s c p \<Longrightarrow> (up fs s)\<^sup>*\<^sup>* c d \<longleftrightarrow> c = d \<or> (up fs s)\<^sup>*\<^sup>* p d"
  by (auto simp: up_iff elim: converse_rtranclpE intro: converse_rtranclp_into_rtranclp)

lemma ancestor_result:
  assumes "dir_is_ancestor fuel fs a c s = (Ok (Some b), t)"
  shows "if b then (up fs s)\<^sup>*\<^sup>* c a else \<not> (up fs s)\<^sup>*\<^sup>* c a \<and> (\<exists>d. (up fs s)\<^sup>*\<^sup>* c d \<and> topmost fs s d)"
  using assms
proof (induction fuel arbitrary: c)
  case (Suc fuel)
  show ?case
  proof (cases "c = a \<or> topmost fs s c")
    case True
    then show ?thesis using Suc.prems up_not_topmost [of fs s c]
      by (auto simp: dir_is_ancestor_step simp del: dir_is_ancestor.simps(2) split: if_splits elim: converse_rtranclpE)
  next
    case False
    then obtain p where p: "up fs s c p" "parent_dir fs s c = Ok p"
      using up_cases [of fs s c] Suc.prems by (auto simp: dir_is_ancestor_step simp del: dir_is_ancestor.simps(2))
    then have "dir_is_ancestor fuel fs a p s = (Ok (Some b), t)"
      using Suc.prems False by (simp add: dir_is_ancestor_step del: dir_is_ancestor.simps(2))
    from Suc.IH [OF this] show ?thesis using up_star [OF p(1)] False by (cases b) auto
  qed
qed simp

text \<open>A walk that can reach the ancestor, or an end, does.\<close>

lemma ancestor_runs:
  assumes "(up fs s)\<^sup>*\<^sup>* c d" and "d = a \<or> topmost fs s d \<or> parent_dir fs s d = Panic \<or> parent_dir fs s d = Undef"
  shows "\<exists>fuel. dir_is_ancestor fuel fs a c s \<noteq> (Ok None, s)
    \<and> (d = a \<longrightarrow> dir_is_ancestor fuel fs a c s = (Ok (Some True), s))
    \<and> (topmost fs s d \<longrightarrow> (\<exists>b. dir_is_ancestor fuel fs a c s = (Ok (Some b), s)))"
  using assms(1)
proof (induction rule: converse_rtranclp_induct)
  case base
  show ?case
    using assms(2) by (intro exI [of _ "Suc 0"]) (auto simp: dir_is_ancestor_step topmost_def simp del: dir_is_ancestor.simps(2))
next
  case (step c p)
  then obtain fuel where fuel: "dir_is_ancestor fuel fs a p s \<noteq> (Ok None, s)"
    "d = a \<longrightarrow> dir_is_ancestor fuel fs a p s = (Ok (Some True), s)"
    "topmost fs s d \<longrightarrow> (\<exists>b. dir_is_ancestor fuel fs a p s = (Ok (Some b), s))" by blast
  have "dir_is_ancestor (Suc fuel) fs a c s =
      (if c = a then (Ok (Some True), s) else dir_is_ancestor fuel fs a p s)"
    using up_not_topmost [OF step(1)] by (simp add: dir_is_ancestor_step del: dir_is_ancestor.simps(2))
  then show ?case using fuel by (intro exI [of _ "Suc fuel"]) (auto simp del: dir_is_ancestor.simps(2))
qed

text \<open>C35: The walk up the tree. It answers yes exactly when the directory is the one it started from or is
  above it; it answers no exactly when it is not, and the walk ends: at the root, at a directory whose
  \<open>..\<close> cannot be found, or at one that is its own parent; and it never ends, whatever the fuel, exactly
  when the directory is not above and every directory reached has another one above it, which is a cycle
  of \<open>..\<close> entries.\<close>

theorem dir_is_ancestor_correct:
  "((\<exists>fuel. dir_is_ancestor fuel fs a c s = (Ok (Some True), s)) \<longleftrightarrow> (up fs s)\<^sup>*\<^sup>* c a)
   \<and> ((\<exists>fuel. dir_is_ancestor fuel fs a c s = (Ok (Some False), s))
        \<longleftrightarrow> \<not> (up fs s)\<^sup>*\<^sup>* c a \<and> (\<exists>d. (up fs s)\<^sup>*\<^sup>* c d \<and> topmost fs s d))
   \<and> ((\<forall>fuel. dir_is_ancestor fuel fs a c s = (Ok None, s))
        \<longleftrightarrow> \<not> (up fs s)\<^sup>*\<^sup>* c a \<and> (\<forall>d. (up fs s)\<^sup>*\<^sup>* c d \<longrightarrow> (\<exists>p. up fs s d p)))"
proof (intro conjI iffI; (elim conjE exE)?)
  fix fuel
  assume "dir_is_ancestor fuel fs a c s = (Ok (Some True), s)"
  then show "(up fs s)\<^sup>*\<^sup>* c a" using ancestor_result by fastforce
next
  assume "(up fs s)\<^sup>*\<^sup>* c a"
  then show "\<exists>fuel. dir_is_ancestor fuel fs a c s = (Ok (Some True), s)" using ancestor_runs by blast
next
  fix fuel
  assume "dir_is_ancestor fuel fs a c s = (Ok (Some False), s)"
  from ancestor_result [OF this]
  show "\<not> (up fs s)\<^sup>*\<^sup>* c a" "\<exists>d. (up fs s)\<^sup>*\<^sup>* c d \<and> topmost fs s d" by simp_all
next
  fix d
  assume a: "\<not> (up fs s)\<^sup>*\<^sup>* c a" and d: "(up fs s)\<^sup>*\<^sup>* c d" "topmost fs s d"
  obtain fuel b where "dir_is_ancestor fuel fs a c s = (Ok (Some b), s)" using ancestor_runs [OF d(1)] d(2) by blast
  then show "\<exists>fuel. dir_is_ancestor fuel fs a c s = (Ok (Some False), s)"
    using ancestor_result a by (cases b) fastforce+
next
  assume none: "\<forall>fuel. dir_is_ancestor fuel fs a c s = (Ok None, s)"
  then show "\<not> (up fs s)\<^sup>*\<^sup>* c a" using ancestor_runs by blast
  show "\<forall>d. (up fs s)\<^sup>*\<^sup>* c d \<longrightarrow> (\<exists>p. up fs s d p)" using none ancestor_runs up_cases by metis
next
  assume "\<not> (up fs s)\<^sup>*\<^sup>* c a" "\<forall>d. (up fs s)\<^sup>*\<^sup>* c d \<longrightarrow> (\<exists>p. up fs s d p)"
  then have "dir_is_ancestor fuel fs a c s = (Ok None, s)" for fuel
  proof (induction fuel arbitrary: c)
    case (Suc fuel)
    then obtain p where p: "up fs s c p" by blast
    then have "dir_is_ancestor fuel fs a p s = (Ok None, s)" using Suc by (simp add: up_star)
    then show ?case using up_not_topmost [OF p] Suc.prems(1)
      by (auto simp: dir_is_ancestor_step simp del: dir_is_ancestor.simps(2))
  qed simp
  then show "\<forall>fuel. dir_is_ancestor fuel fs a c s = (Ok None, s)" by blast
qed

theorem dir_is_ancestor_correct_witness:
  "\<exists>d fuel. dir_is_ancestor fuel tiny_fs 5 12 (dir_dev d) = (Ok (Some False), dir_dev d)"
proof -
  obtain d where d: "block_rel 2048 d [dot_name \<mapsto> 12]" by (rule dot_block)
  have "dir_lookup tiny_fs 12 dotdot (dir_dev d) = Err ENOENT"
    using dir_holds_lookup [OF _ tiny_ready dir_sample(1) [OF d, folded dir_dev(2)], of dotdot]
    by (simp add: in_map_def dot_name_def dotdot_def)
  then have top: "topmost tiny_fs (dir_dev d) 12" by (simp add: topmost_def parent_dir_def dir_lookup_def)
  then have "\<not> (up tiny_fs (dir_dev d))\<^sup>*\<^sup>* 12 5" by (auto elim: converse_rtranclpE dest: up_not_topmost)
  then have "\<exists>fuel. dir_is_ancestor fuel tiny_fs 5 12 (dir_dev d) = (Ok (Some False), dir_dev d)"
    using dir_is_ancestor_correct [of tiny_fs 5 12 "dir_dev d"] top by blast
  then show ?thesis by blast
qed

end
