(* ===== verification/CommitFails.thy ===== *)
theory CommitFails
  imports FileAtomic
begin

text \<open>
  Commits that fail. \<open>commit\<close> may return an error before its first write (the transaction has more blocks
  than one descriptor has tags) or between two writes (a block of the log has no place): in every case
  the commit block is not written, and only blocks of the log have changed. Once the commit block is
  in the log the rest of the commit cannot fail.

  The log need not be in the inode of the journal alone: \<open>T\<close> is the set of the blocks that hold the rest of
  its extent tree, and \<open>M\<close> the map from log blocks to blocks of the filesystem, which may have errors.
\<close>

section \<open>The log and its blocks\<close>

text \<open>The log blocks that the engine addresses: the journal superblock and the log proper.\<close>

definition in_range :: "live_sb \<Rightarrow> u32 \<Rightarrow> bool" where
  "in_range ls k \<longleftrightarrow> k = 0 \<or> k = jsb_first (ls_sb ls) \<or> k < jsb_maxlen (ls_sb ls)"

definition log_area :: "nat \<Rightarrow> journal \<Rightarrow> jdev \<Rightarrow> (u32 \<Rightarrow> u64 res) \<Rightarrow> nat set" where
  "log_area bs j s M = {unat p | p k. M k = Ok p \<and> (\<forall>ls. fst (live_sb bs j s) = Ok ls \<longrightarrow> in_range ls k)}"

text \<open>While the blocks \<open>T\<close> are as in \<open>s\<close>, log block \<open>k\<close> is at \<open>M k\<close>; the log is not in \<open>T\<close>.\<close>

definition log_placed :: "nat \<Rightarrow> journal \<Rightarrow> jdev \<Rightarrow> nat set \<Rightarrow> (u32 \<Rightarrow> u64 res) \<Rightarrow> bool" where
  "log_placed bs j s T M \<longleftrightarrow> T \<inter> log_area bs j s M = {} \<and>
     (\<forall>t k. closed t \<and> (\<forall>b \<in> T. block_of bs (jd_image t) b = block_of bs (jd_image s) b)
        \<longrightarrow> map_log_block bs j k t = (M k, t))"

text \<open>Only blocks of \<open>L\<close> differ.\<close>

definition same_outside :: "nat \<Rightarrow> nat set \<Rightarrow> jdev \<Rightarrow> jdev \<Rightarrow> bool" where
  "same_outside bs L s t \<longleftrightarrow> (\<forall>b. b \<notin> L \<longrightarrow> block_of bs (jd_image t) b = block_of bs (jd_image s) b)"

definition in_log :: "nat \<Rightarrow> nat set \<Rightarrow> jdev \<Rightarrow> jdev \<Rightarrow> bool" where
  "in_log bs L s t \<longleftrightarrow> closed t \<and> jd_depth t = jd_depth s \<and> same_outside bs L s t"

definition log_step :: "nat \<Rightarrow> nat set \<Rightarrow> jdev \<Rightarrow> jdev \<Rightarrow> jdev \<Rightarrow> bool" where
  "log_step bs L s t u \<longleftrightarrow> (in_log bs L s t \<longrightarrow> in_log bs L s u)"

interpretation logging: read_contract "log_step bs L s" for bs L s
  by unfold_locales (simp_all add: log_step_def obeys_def jd_read_def Let_def)

lemma in_log_refl: "closed s \<Longrightarrow> in_log bs L s s"
  by (simp add: in_log_def same_outside_def)

lemma log_stepD: "obeys (log_step bs L s) m \<Longrightarrow> m t = (r, u) \<Longrightarrow> in_log bs L s t \<Longrightarrow> in_log bs L s u"
  unfolding obeys_def log_step_def by (metis snd_conv)

lemma log_stepI:
  assumes "\<And>t. in_log bs L s t \<Longrightarrow> in_log bs L s (snd (m t))"
  shows "obeys (log_step bs L s) m"
  using assms by (simp add: obeys_def log_step_def)

lemma obeys_flush [obeys_intros]: "obeys (log_step bs L s) jd_flush"
  by (rule log_stepI) (auto simp: in_log_def same_outside_def jd_synced_def closed_def jd_image_def disk_flush_def)

section \<open>Operations on the log\<close>

text \<open>The journal \<open>j\<close> has the superblock \<open>ls\<close> and a place for its log when the commit begins.\<close>

definition log_ready :: "nat \<Rightarrow> journal \<Rightarrow> jdev \<Rightarrow> nat set \<Rightarrow> (u32 \<Rightarrow> u64 res) \<Rightarrow> live_sb \<Rightarrow> bool" where
  "log_ready bs j s T M ls \<longleftrightarrow> log_placed bs j s T M \<and> fst (live_sb bs j s) = Ok ls \<and> 1024 mod bs + 1024 \<le> bs"

lemma map_block:
  assumes "log_placed bs j s T M" and "closed t" and "\<And>b. b \<in> T \<Longrightarrow> block_of bs (jd_image t) b = block_of bs (jd_image s) b"
  shows "map_log_block bs j k t = (M k, t)"
  using assms by (simp add: log_placed_def)

lemma tree_kept:
  "log_placed bs j s T M \<Longrightarrow> in_log bs (log_area bs j s M) s t \<Longrightarrow> b \<in> T \<Longrightarrow>
   block_of bs (jd_image t) b = block_of bs (jd_image s) b"
  by (auto simp: log_placed_def in_log_def same_outside_def)

lemma map_in_log:
  "log_placed bs j s T M \<Longrightarrow> in_log bs (log_area bs j s M) s t \<Longrightarrow> map_log_block bs j k t = (M k, t)"
  using map_block [of bs j s T M t k] tree_kept [of bs j s T M t] by (simp add: in_log_def)

lemma obeys_read_log [obeys_intros]: "obeys (log_step bs L s) (read_log_block bs j k)"
  unfolding read_log_block_def map_log_block_def by (intro obeys_intros)

lemma obeys_write_log:
  assumes ready: "log_ready bs j s T M ls" and "in_range ls k"
  shows "obeys (log_step bs (log_area bs j s M) s) (write_log_block bs j k d)"
proof (rule log_stepI)
  fix t
  assume t: "in_log bs (log_area bs j s M) s t"
  have placed: "log_placed bs j s T M" and bs: "0 < bs" using ready by (auto simp: log_ready_def)
  note m = map_in_log [OF placed t]
  show "in_log bs (log_area bs j s M) s (snd (write_log_block bs j k d t))"
  proof (cases "M k")
    case (Ok p)
    have p: "unat p \<in> log_area bs j s M" using Ok assms by (auto simp: log_area_def log_ready_def)
    have "in_log bs (log_area bs j s M) s (snd (jd_write (unat p * bs) d t))" if "length d = bs"
      using t p bs that jd_write_closed [of t "unat p * bs" d]
      by (auto simp: in_log_def same_outside_def jd_put_def closed_def jd_image_def disk_write_def
          block_of_store [unfolded store_def])
    then show ?thesis using t m Ok by (simp add: write_log_block_def bindS_def)
  qed (use t m in \<open>simp_all add: write_log_block_def bindS_def\<close>)
qed

lemma in_range_0: "in_range ls 0"
  by (simp add: in_range_def)

lemma in_range_first: "in_range ls (jsb_first (ls_sb ls))"
  by (simp add: in_range_def)

lemma in_range_advance: "in_range ls (advance (jsb_first (ls_sb ls)) (jsb_maxlen (ls_sb ls)) k)"
  by (simp add: in_range_def advance_def not_le)

lemma obeys_head:
  assumes "log_ready bs j s T M ls"
  shows "obeys (log_step bs (log_area bs j s M) s) (write_journal_head bs j c seq start)"
  unfolding write_journal_head_def by (intro obeys_intros obeys_write_log [OF assms] in_range_0)

lemma obeys_live [obeys_intros]: "obeys (log_step bs L s) (live_sb bs j)"
  unfolding live_sb_def by (intro obeys_intros)

lemma obeys_write_logged:
  assumes "log_ready bs j s T M ls"
  shows "in_range ls c \<Longrightarrow> obeys (log_step bs (log_area bs j s M) s)
     (write_logged bs j (jsb_first (ls_sb ls)) (jsb_maxlen (ls_sb ls)) c ds)"
proof (induction ds arbitrary: c)
  case (Cons d ds)
  show ?case
    unfolding write_logged.simps by (intro obeys_intros obeys_write_log [OF assms] Cons in_range_advance)
qed (simp add: obeys_intros)

lemma obeys_ends:
  assumes "log_ready bs j s T M ls" and "in_range ls c"
  shows "obeys (log_step bs (log_area bs j s M) s) (write_revokes bs j ls c txn)"
    "obeys (log_step bs (log_area bs j s M) s) (write_commit_block bs j ls c seq)"
  unfolding write_revokes_def write_commit_block_def by (intro obeys_intros obeys_write_log [OF assms])+

lemma cursor_in_range:
  "in_range ls c \<Longrightarrow> write_logged bs j (jsb_first (ls_sb ls)) (jsb_maxlen (ls_sb ls)) c ds t = (Ok c', u) \<Longrightarrow> in_range ls c'"
  "in_range ls c \<Longrightarrow> write_revokes bs j ls c txn t = (Ok c', u) \<Longrightarrow> in_range ls c'"
proof -
  show "in_range ls c \<Longrightarrow> write_logged bs j (jsb_first (ls_sb ls)) (jsb_maxlen (ls_sb ls)) c ds t = (Ok c', u) \<Longrightarrow> in_range ls c'"
  proof (induction ds arbitrary: c t)
    case (Cons d ds)
    then show ?case using Cons.IH [OF in_range_advance] by (auto simp: bindS_eq_Ok)
  qed simp
  show "in_range ls c \<Longrightarrow> write_revokes bs j ls c txn t = (Ok c', u) \<Longrightarrow> in_range ls c'"
    by (auto simp: write_revokes_def bindS_eq_Ok in_range_advance split: if_splits)
qed

lemma head_ok:
  assumes "log_placed bs j s T M" and bs: "1024 \<le> bs" and "M 0 = Ok p"
    and "closed t" and "\<And>b. b \<in> T \<Longrightarrow> block_of bs (jd_image t) b = block_of bs (jd_image s) b"
  shows "\<exists>img. runs (write_journal_head bs j c seq start) t () img"
proof -
  let ?b = "block_of bs (jd_image t) (unat p)"
  let ?p = "put_all ?b [(24, be_bytes 4 seq), (28, be_bytes 4 start)]"
  note m = map_block [OF assms(1,4,5), of 0, unfolded assms(3)]
  have rd: "read_log_block bs j 0 t = (Ok ?b, t)"
    using m assms(4) by (simp add: read_log_block_def bindS_def jd_read_closed block_of_def)
  have lp: "length ?p = bs" using bs by (simp add: put_all_Cons length_put)
  have h: "(if c then finalize_journal_sb_csum ?p else Ok ?p) = Ok (head_block c seq start ?b)"
    using bs lp by (simp add: finalize_journal_sb_csum_ok head_block_def Let_def)
  have p: "patch_journal_sb_head ?b seq start = Ok ?p"
    using bs by (simp add: patch_journal_sb_head_ok)
  have wr: "write_log_block bs j 0 (head_block c seq start ?b) t = (Ok (), jd_put (unat p * bs) (head_block c seq start ?b) t)"
    using m bs assms(4) by (simp add: write_log_block_def bindS_def jd_write_closed)
  have "write_journal_head bs j c seq start t = (Ok (), jd_synced (jd_put (unat p * bs) (head_block c seq start ?b) t))"
    unfolding write_journal_head_def
    by (simp only: bindS_def [of "read_log_block bs j 0"] rd prod.case res.case p bindS_simps h
        bindS_def [of "write_log_block bs j 0 (head_block c seq start ?b)"] wr jd_flush_synced)
  then show ?thesis using assms(4) by (auto simp: runs_def)
qed

section \<open>The end of a commit\<close>

lemma runs_checkpoint_any:
  assumes "closed t"
  shows "\<exists>done n. runs (checkpoint bs crash 0 jnl) t done (store_all bs (take n jnl) (jd_image t))"
proof (cases "\<exists>n. crash = MidCheckpoint n")
  case True
  then obtain n where "crash = MidCheckpoint n" by blast
  then show ?thesis using runs_checkpoint_mid [OF assms, of 0 n bs jnl] by auto
next
  case False
  then show ?thesis using runs_checkpoint [of crash t bs 0 jnl] assms
    by (intro exI [of _ True] exI [of _ "length jnl"]) auto
qed

lemma flag_written:
  assumes "closed t" and fit: "1024 mod bs + 1024 \<le> bs"
  obtains r u where "update_live_sb on t = (Ok r, u)" and "closed u"
    and "\<And>b. b \<noteq> sb_idx bs \<Longrightarrow> block_of bs (jd_image u) b = block_of bs (jd_image t) b"
proof -
  obtain r where "runs (update_live_sb on) t r
    (store bs (jd_image t) (sb_idx bs) (sb_block on bs (block_of bs (jd_image t) (sb_idx bs))))"
    by (rule runs_update_sb [OF assms])
  then obtain u where u: "update_live_sb on t = (Ok r, u)" "closed u"
    "jd_image u = store bs (jd_image t) (sb_idx bs) (sb_block on bs (block_of bs (jd_image t) (sb_idx bs)))"
    by (auto simp: runs_def)
  then show thesis using that [OF u(1,2)] fit by (simp add: block_of_store)
qed

text \<open>Once the commit block is written the rest succeeds.\<close>

definition commit_tail ::
  "nat \<Rightarrow> journal \<Rightarrow> live_sb \<Rightarrow> u32 \<Rightarrow> crash_point \<Rightarrow> (nat \<times> bytes) list \<Rightarrow> (jdev, unit) io" where
  "commit_tail bs j ls seq crash jnl =
     bindS (update_live_sb True) (\<lambda>_.
     bindS jd_flush (\<lambda>_.
     if crash = AfterCommitBlock then ret ()
     else bindS (checkpoint bs crash 0 jnl) (\<lambda>finished.
       if \<not> finished then ret ()
       else bindS jd_flush (\<lambda>_.
         bindS (write_journal_head bs j (ls_has_csum ls) (seq + 1) 0) (\<lambda>_.
         bindS (update_live_sb False) (\<lambda>_.
         jd_flush))))))"

lemma commit_tail_ok:
  assumes placed: "log_placed bs j s T M" and fit: "1024 mod bs + 1024 \<le> bs" and m: "M 0 = Ok p"
    and jnl: "\<forall>(b, d) \<in> set jnl. length d = bs \<and> b \<notin> T" and sb: "sb_idx bs \<notin> T"
    and t: "in_log bs (log_area bs j s M) s t"
  shows "\<exists>u. commit_tail bs j ls seq crash jnl t = (Ok (), u)"
proof -
  have bs: "1024 \<le> bs" "0 < bs" using fit by simp_all
  have keep: "block_of bs (store_all bs (take n jnl) img) b = block_of bs img b" if "b \<in> T" for n b img
    by (rule block_of_store_all_other [OF bs(2)]) (use jnl that in \<open>auto dest!: in_set_takeD\<close>)
  have clean: "\<exists>v. bindS jd_flush (\<lambda>_. bindS (write_journal_head bs j (ls_has_csum ls) (seq + 1) 0)
      (\<lambda>_. bindS (update_live_sb False) (\<lambda>_. jd_flush))) u = (Ok (), v)"
    if u: "closed u" "\<And>b. b \<in> T \<Longrightarrow> block_of bs (jd_image u) b = block_of bs (jd_image s) b" for u
  proof -
    obtain w where w: "write_journal_head bs j (ls_has_csum ls) (seq + 1) 0 (jd_synced u) = (Ok (), w)" "closed w"
      using head_ok [OF placed bs(1) m, of "jd_synced u" "ls_has_csum ls" "seq + 1" 0] u by (auto simp: runs_def)
    obtain r v where "update_live_sb False w = (Ok r, v)" by (rule flag_written [OF w(2) fit, where on = False])
    then show ?thesis using w(1) by (simp add: bindS_def)
  qed
  have "closed t" and t': "\<And>b. b \<in> T \<Longrightarrow> block_of bs (jd_image t) b = block_of bs (jd_image s) b"
    using t tree_kept [OF placed t] by (simp_all add: in_log_def)
  obtain r u where u: "update_live_sb True t = (Ok r, u)" "closed u"
    "\<And>b. b \<noteq> sb_idx bs \<Longrightarrow> block_of bs (jd_image u) b = block_of bs (jd_image t) b"
    using flag_written [OF \<open>closed t\<close> fit, where on = True] by metis
  have at_u: "block_of bs (jd_image u) b = block_of bs (jd_image s) b" if "b \<in> T" for b
    using u(3) [of b] t' [OF that] sb that by auto
  show ?thesis
  proof (cases "crash = AfterCommitBlock")
    case True
    then show ?thesis using u(1) by (simp add: commit_tail_def bindS_def)
  next
    case False
    obtain f n where "runs (checkpoint bs crash 0 jnl) (jd_synced u) f (store_all bs (take n jnl) (jd_image u))"
      using runs_checkpoint_any [of "jd_synced u" bs crash jnl] u(2) by auto
    then obtain w where w: "checkpoint bs crash 0 jnl (jd_synced u) = (Ok f, w)" "closed w"
      "jd_image w = store_all bs (take n jnl) (jd_image u)" by (auto simp: runs_def)
    then obtain v where "bindS jd_flush (\<lambda>_. bindS (write_journal_head bs j (ls_has_csum ls) (seq + 1) 0)
        (\<lambda>_. bindS (update_live_sb False) (\<lambda>_. jd_flush))) w = (Ok (), v)"
      using clean [OF w(2)] keep at_u by auto
    then show ?thesis using u(1) w(1) False by (simp add: commit_tail_def bindS_def)
  qed
qed

section \<open>A commit that fails\<close>

definition stops :: "nat \<Rightarrow> nat set \<Rightarrow> jdev \<Rightarrow> (jdev, 'a) io \<Rightarrow> jdev \<Rightarrow> bool" where
  "stops bs L s m t \<longleftrightarrow> (\<forall>r u. m t = (r, u) \<and> (\<forall>a. r \<noteq> Ok a) \<longrightarrow> in_log bs L s u)"

lemma stops_bind:
  assumes "obeys (log_step bs L s) m" and "in_log bs L s t"
    and "\<And>a u. m t = (Ok a, u) \<Longrightarrow> in_log bs L s u \<Longrightarrow> stops bs L s (f a) u"
  shows "stops bs L s (bindS m f) t"
proof -
  obtain r u where m: "m t = (r, u)" by (cases "m t")
  note u = log_stepD [OF assms(1) m assms(2)]
  show ?thesis using assms(3) u m by (cases r) (auto simp: stops_def bindS_def)
qed

lemma stops_pure: "in_log bs L s t \<Longrightarrow> stops bs L s (lift r) t" "stops bs L s (ret a) t"
  by (simp_all add: stops_def lift_def ret_def)

lemma stops_Ok: "\<exists>u. m t = (Ok a, u) \<Longrightarrow> stops bs L s m t"
  by (auto simp: stops_def)

lemma logged_lengths:
  "write_logged bs j first maxlen c ds t = (Ok c', u) \<Longrightarrow> \<forall>d \<in> set ds. length d = bs"
  by (induction ds arbitrary: c t) (auto simp: bindS_eq_Ok write_log_block_def split: if_splits)

lemma length_log_copy_eq: "length (log_copy d) = length d"
  by (simp add: log_copy_def escaped_def length_put)

lemma journaled_keys:
  assumes "journaled_blocks bs txn t = (Ok jnl, u)"
  shows "fst ` set jnl \<subseteq> txn_keys bs txn"
proof -
  have f: "fst ` set (staged_data txn) = fst ` set (txn_blocks txn)"
    using fold_staged [of "[] :: (nat \<times> bytes) list" "txn_blocks txn"] by (simp add: Let_def staged_data_def)
  obtain d where "jnl = bt_insert (sb_idx bs) d (staged_data txn)"
    using assms by (auto simp: journaled_blocks_def Let_def bindS_eq_Ok staged_data_def sb_idx_def split: if_splits)
  then show ?thesis using f by (auto simp: keys_bt_insert txn_keys_def)
qed

lemma head_maps: "write_journal_head bs j c seq start t = (Ok a, u) \<Longrightarrow> log_placed bs j s T M \<Longrightarrow>
    in_log bs (log_area bs j s M) s t \<Longrightarrow> \<exists>p. M 0 = Ok p"
  using map_in_log [of bs j s T M t 0] by (auto simp: write_journal_head_def read_log_block_def bindS_eq_Ok)

text \<open>The commit of the blocks \<open>jnl\<close>, from the capacity test on.\<close>

definition commit_blocks ::
  "nat \<Rightarrow> journal \<Rightarrow> live_sb \<Rightarrow> transaction \<Rightarrow> crash_point \<Rightarrow> (nat \<times> bytes) list \<Rightarrow> (jdev, unit) io" where
  "commit_blocks bs j ls txn crash jnl =
     (if descriptor_block_tag_capacity bs (ls_fmt ls) (ls_has_64bit ls) (ls_has_csum ls) < length jnl
      then lift (Err ENOSPC)
      else bindS (lift (assemble_descriptor_block (ls_seed ls) (txn_sequence txn) bs (ls_fmt ls) (ls_has_64bit ls)
                          (ls_has_csum ls) (map (entry_tag ls (txn_sequence txn)) jnl))) (\<lambda>descriptor.
        bindS (write_logged bs j (jsb_first (ls_sb ls)) (jsb_maxlen (ls_sb ls)) (jsb_first (ls_sb ls))
                 (descriptor # map (\<lambda>x. log_copy (snd x)) jnl)) (\<lambda>cursor.
        bindS (write_revokes bs j ls cursor txn) (\<lambda>cursor.
        bindS jd_flush (\<lambda>_.
        bindS (write_journal_head bs j (ls_has_csum ls) (txn_sequence txn) (jsb_first (ls_sb ls))) (\<lambda>_.
        bindS (write_commit_block bs j ls cursor (txn_sequence txn)) (\<lambda>_.
        commit_tail bs j ls (txn_sequence txn) crash jnl)))))))"

lemma commit_split:
  "\<not> Transaction_is_empty txn \<Longrightarrow> commit_with_crash bs j txn crash =
     bindS (live_sb bs j) (\<lambda>ls. bindS (journaled_blocks bs txn) (commit_blocks bs j ls txn crash))"
  unfolding commit_with_crash_def commit_blocks_def commit_tail_def Let_def log_entries_ok bindS_simps
  by (simp only: if_False map_map o_def fst_conv snd_conv length_map)

lemma commit_fails:
  assumes cl: "closed s" and placed: "log_placed bs j s T M" and fit: "1024 mod bs + 1024 \<le> bs"
    and apart: "T \<inter> txn_keys bs txn = {}"
    and run: "commit_with_crash bs j txn crash s = (r, t)" "\<And>a. r \<noteq> Ok a"
  shows "in_log bs (log_area bs j s M) s t"
proof -
  let ?L = "log_area bs j s M"
  note start = in_log_refl [OF cl, of bs ?L]
  have blocks: "stops bs ?L s (commit_blocks bs j ls txn crash jnl) u"
    if live: "fst (live_sb bs j s) = Ok ls" and keys: "fst ` set jnl \<subseteq> txn_keys bs txn" and u: "in_log bs ?L s u" for ls jnl u
  proof -
    have ready: "log_ready bs j s T M ls" using placed fit live by (simp add: log_ready_def)
    have tail: "stops bs ?L s (commit_tail bs j ls (txn_sequence txn) crash jnl) v"
      if "\<forall>d \<in> set (map (\<lambda>x. log_copy (snd x)) jnl). length d = bs" "M 0 = Ok p" "in_log bs ?L s v" for p v
    proof (rule stops_Ok, rule commit_tail_ok [OF placed fit that(2) _ _ that(3)])
      show "\<forall>(b, d) \<in> set jnl. length d = bs \<and> b \<notin> T"
        using that(1) keys apart by (fastforce simp: length_log_copy_eq)
      show "sb_idx bs \<notin> T" using apart by (auto simp: txn_keys_def)
    qed
    show ?thesis
    proof (cases "descriptor_block_tag_capacity bs (ls_fmt ls) (ls_has_64bit ls) (ls_has_csum ls) < length jnl")
      case True
      then show ?thesis by (simp add: commit_blocks_def stops_pure u)
    next
      case False
      show ?thesis
        unfolding commit_blocks_def if_not_P [OF False]
        apply (rule stops_bind [OF logging.obeys_pure(2) u])
        apply (rule stops_bind [OF obeys_write_logged [OF ready in_range_first]], assumption)
        apply (frule cursor_in_range(1) [OF in_range_first])
        apply (rule stops_bind [OF obeys_ends(1) [OF ready]], assumption, assumption)
        apply (drule (1) cursor_in_range(2))
        apply (rule stops_bind [OF obeys_flush], assumption)
        apply (rule stops_bind [OF obeys_head [OF ready]], assumption)
        apply (drule head_maps [OF _ placed], assumption, elim exE)
        apply (rule stops_bind [OF obeys_ends(2) [OF ready]], assumption, assumption)
        apply (drule logged_lengths)
        apply (rule tail, simp, assumption, assumption)
        done
    qed
  qed
  have "stops bs ?L s (commit_with_crash bs j txn crash) s"
  proof (cases "Transaction_is_empty txn")
    case True
    then show ?thesis by (simp add: commit_with_crash_def stops_pure)
  next
    case False
    have read: "obeys (log_step bs ?L s) (journaled_blocks bs txn)"
      unfolding journaled_blocks_def by (intro obeys_intros)
    show ?thesis
      unfolding commit_split [OF False]
      by (intro stops_bind [OF obeys_live start] stops_bind [OF read] blocks) (auto dest: journaled_keys)
  qed
  then show ?thesis using run by (auto simp: stops_def)
qed

section \<open>Journaled operations that fail\<close>

text \<open>\<open>call\<close> runs \<open>operation\<close> in a transaction that does not touch the journal's own tree. If it does not
  succeed, for whatever reason, then no block outside the log differs from before, an error leaves the
  device closed, and the disk as a whole is as before unless the operation itself had succeeded, so
  that it was the commit that failed.\<close>

definition undone_if_failed ::
  "ext4 \<Rightarrow> nat set \<Rightarrow> (u32 \<Rightarrow> u64 res) \<Rightarrow> jdev \<Rightarrow> (jdev, 'a) io \<Rightarrow> (jdev, 'a) io \<Rightarrow> bool" where
  "undone_if_failed fs T M s call operation \<longleftrightarrow>
     (let bs = fs_block_size fs in
      (\<forall>seq a u txn. operation (jd_begin seq s) = (Ok a, u) \<and> jd_txn u = Some txn \<longrightarrow> T \<inter> txn_keys bs txn = {})
      \<longrightarrow> (\<forall>r t. call s = (r, t) \<and> (\<forall>a. r \<noteq> Ok a) \<longrightarrow>
            same_outside bs (log_area bs (the (fs_journal fs)) s M) s t
            \<and> ((\<exists>e. r = Err e) \<longrightarrow> closed t \<and> jd_depth t = 0)
            \<and> ((\<forall>seq a. fst (operation (jd_begin seq s)) \<noteq> Ok a) \<longrightarrow> jd_image t = jd_image s)))"

lemma same_image: "jd_image t = jd_image s \<Longrightarrow> same_outside bs L s t"
  by (simp add: same_outside_def)

lemma log_placed_image:
  assumes "log_placed bs j s T M" and "closed s" and "closed t" and "jd_image t = jd_image s"
  shows "log_placed bs j t T M" and "log_area bs j t M = log_area bs j s M"
proof -
  have m: "map_log_block bs j k u = (M k, u)"
    if "closed u" "\<forall>b \<in> T. block_of bs (jd_image u) b = block_of bs (jd_image s) b" for k u
    using assms(1) that by (simp add: log_placed_def)
  have "fst (live_sb bs j t) = fst (live_sb bs j s)"
    using assms(2-4) m [of s 0] m [of t 0]
    by (cases "M 0") (simp_all add: live_sb_def read_log_block_def bindS_def jd_read_closed)
  then show a: "log_area bs j t M = log_area bs j s M" by (simp add: log_area_def)
  show "log_placed bs j t T M" using assms(1) by (simp add: log_placed_def a assms(4))
qed

lemma journaled_undone:
  assumes j: "fs_journal fs = Some j" and s: "closed s" "jd_depth s = 0" and op: "captured 1 op"
    and placed: "log_placed (fs_block_size fs) j s T M" and fit: "1024 mod fs_block_size fs + 1024 \<le> fs_block_size fs"
  shows "undone_if_failed fs T M s (journaled_op fs op) op"
  unfolding undone_if_failed_def Let_def j option.sel
proof (intro impI allI, elim conjE)
  let ?bs = "fs_block_size fs" and ?L = "log_area (fs_block_size fs) j s M"
  fix r t
  assume apart: "\<forall>seq a u txn. op (jd_begin seq s) = (Ok a, u) \<and> jd_txn u = Some txn \<longrightarrow> T \<inter> txn_keys ?bs txn = {}"
    and run: "journaled_op fs op s = (r, t)" and bad: "\<forall>a. r \<noteq> Ok a"
  note f = journaled_op_fails [OF j op s]
  obtain q where q: "live_sequence ?bs j s = (q, s)"
    using reads_sequence by (metis prod.collapse reads_only_def obeys_def)
  show "same_outside ?bs ?L s t \<and> ((\<exists>e. r = Err e) \<longrightarrow> closed t \<and> jd_depth t = 0)
    \<and> ((\<forall>seq a. fst (op (jd_begin seq s)) \<noteq> Ok a) \<longrightarrow> jd_image t = jd_image s)"
  proof (cases "\<exists>seq a. q = Ok seq \<and> fst (op (jd_begin seq s)) = Ok a")
    case False
    have "jd_image t = jd_image s \<and> ((\<exists>e. r = Err e) \<longrightarrow> closed t \<and> jd_depth t = 0)"
    proof (cases q)
      case (Ok seq)
      have "r = fst (op (jd_begin seq s))" if "fst (op (jd_begin seq s)) \<in> {Panic, Undef}"
        using run q Ok that by (cases "op (jd_begin seq s)") (auto simp: journaled_op_def journal_begin_def j bindS_def)
      then show ?thesis using f False run bad Ok unfolding q fst_conv
        by (cases "fst (op (jd_begin seq s))") auto
    qed (use f run bad s in \<open>auto simp: q\<close>)
    then show ?thesis by (simp add: same_image)
  next
    case True
    then obtain seq a u where seq: "q = Ok seq" and u: "op (jd_begin seq s) = (Ok a, u)" by (metis prod.collapse)
    note c = captured_from_begin [OF op s u]
    obtain txn where txn: "jd_txn u = Some txn" using c(1) by blast
    let ?e = "u\<lparr> jd_depth := 0, jd_txn := None, jd_crash := NoCrash \<rparr>"
    have e: "closed ?e" "jd_image ?e = jd_image s" "jd_depth ?e = 0" using c(2) by (simp_all add: closed_def jd_image_def)
    have d: "jd_depth u = 1" using c(4) by simp
    obtain x v where x: "commit_with_crash ?bs j txn (jd_crash u) ?e = (x, v)" by (cases "commit_with_crash ?bs j txn (jd_crash u) ?e")
    have "journal_end fs True u = (x, v)"
      using x by (simp add: journal_end_def j end_closes [OF d] txn take_crash_def)
    then have rt: "(r, t) = bindS (\<lambda>_. (x, v)) (\<lambda>_. ret a) u"
      using run q seq u by (simp add: journaled_op_def journal_begin_def j bindS_def)
    then have x': "\<And>b. x \<noteq> Ok b" "t = v" using bad by (cases x; simp add: bindS_def)+
    note p = log_placed_image [OF placed s(1) e(1,2)]
    have "in_log ?bs (log_area ?bs j ?e M) ?e v"
      by (rule commit_fails [OF e(1) p(1) fit _ x x'(1)]) (use apart u txn in blast)
    then have "same_outside ?bs ?L s t" "closed t" "jd_depth t = 0"
      using e(2,3) x'(2) unfolding p(2) by (simp_all add: in_log_def same_outside_def)
    then show ?thesis using u by (metis fst_conv)
  qed
qed

end
