(* ===== verification/FuseAtomic.thy ===== *)
theory FuseAtomic
  imports FuseData Rename CommitFails
begin

text \<open>
  Atomicity of the front end. The requests of \<open>src/src/fuse_interface/mod.rs\<close> that change the filesystem
  run in one transaction each (all but \<open>fuse_ioctl\<close>, which writes one inode): the operations it calls open transactions of their own, but these
  are nested in it. So the theorems on journaled operations (\<open>Atomic\<close>) hold for the request as a whole.

  A request that may still be running (its fuel is spent) has not ended its transaction. \<open>settled\<close> turns
  such a result into \<open>Undef\<close>, so that requests with fuel and without are journaled operations alike.
\<close>

section \<open>Operations with fuel\<close>

definition settled :: "('s, 'a option) io \<Rightarrow> ('s, 'a) io" where
  "settled m s = (case m s of
     (Ok (Some a), t) \<Rightarrow> (Ok a, t) | (Ok None, t) \<Rightarrow> (Undef, t)
   | (Err e, t) \<Rightarrow> (Err e, t) | (Panic, t) \<Rightarrow> (Panic, t) | (Undef, t) \<Rightarrow> (Undef, t))"

lemma settled_eq:
  "m s = (Ok (Some a), t) \<Longrightarrow> settled m s = (Ok a, t)" "m s = (Ok None, t) \<Longrightarrow> settled m s = (Undef, t)"
  "m s = (Err e, t) \<Longrightarrow> settled m s = (Err e, t)" "m s = (Panic, t) \<Longrightarrow> settled m s = (Panic, t)"
  "m s = (Undef, t) \<Longrightarrow> settled m s = (Undef, t)"
  by (simp_all add: settled_def)

lemma snd_settled: "snd (settled m s) = snd (m s)"
  by (simp add: settled_def split: prod.split res.split option.split)

lemma settled_pure: "settled (ret None) = lift Undef" "settled (ret (Some a)) = ret a"
  "settled (lift r) = lift (bind r (\<lambda>x. case x of None \<Rightarrow> Undef | Some a \<Rightarrow> Ok a))"
  by (rule ext, simp add: settled_def ret_def lift_def bind_def split: res.split option.split)+

lemma settled_bindS: "settled (bindS m f) = bindS m (\<lambda>a. settled (f a))"
proof
  fix s
  obtain r t where "m s = (r, t)" by (cases "m s")
  then show "settled (bindS m f) s = bindS m (\<lambda>a. settled (f a)) s" by (cases r) (simp_all add: settled_def bindS_def)
qed

lemma settled_bindO: "settled (bindO m f) = bindS (settled m) (\<lambda>a. settled (f a))"
proof
  fix s
  obtain r t where m: "m s = (r, t)" by (cases "m s")
  show "settled (bindO m f) s = bindS (settled m) (\<lambda>a. settled (f a)) s"
  proof (cases r)
    case (Ok x)
    then show ?thesis using m by (cases x) (simp_all add: settled_def bindO_def bindS_def ret_def)
  qed (use m in \<open>simp_all add: settled_def bindO_def bindS_def\<close>)
qed

lemma settled_on_result: "settled (on_result m f h) = on_result m (\<lambda>a. settled (f a)) (\<lambda>e. settled (h e))"
proof
  fix s
  obtain r t where "m s = (r, t)" by (cases "m s")
  then show "settled (on_result m f h) s = on_result m (\<lambda>a. settled (f a)) (\<lambda>e. settled (h e)) s"
    by (cases r) (simp_all add: settled_def on_result_def)
qed

text \<open>\<open>body\<close> is what both wrappers do once the transaction has begun.\<close>

lemma settled_journaled: "settled (journaled_fuel fs op) = journaled_op fs (settled op)"
proof -
  have unit: "settled (bindS m (\<lambda>_. ret (Some a))) s = bindS m (\<lambda>_. ret a) s"
    "settled (bindS m (\<lambda>_. lift (Err e))) s = bindS m (\<lambda>_. lift (Err e)) s" for m :: "(jdev, unit) io" and a e s
    by (simp_all add: settled_bindS settled_pure bind_def)
  have body: "settled (\<lambda>s. case op s of (Ok None, s) \<Rightarrow> (Ok None, s)
       | (Ok (Some a), s) \<Rightarrow> bindS (journal_end fs True) (\<lambda>_. ret (Some a)) s
       | (Err e, s) \<Rightarrow> bindS (journal_end fs False) (\<lambda>_. lift (Err e)) s
       | (Panic, s) \<Rightarrow> (Panic, s) | (Undef, s) \<Rightarrow> (Undef, s)) s
    = (case settled op s of (Ok a, s) \<Rightarrow> bindS (journal_end fs True) (\<lambda>_. ret a) s
       | (Err e, s) \<Rightarrow> bindS (journal_end fs False) (\<lambda>_. lift (Err e)) s
       | (Panic, s) \<Rightarrow> (Panic, s) | (Undef, s) \<Rightarrow> (Undef, s))" for s
  proof -
    obtain r t where op: "op s = (r, t)" by (cases "op s")
    show ?thesis
    proof (cases r)
      case (Ok x)
      then show ?thesis using op unit(1) by (cases x) (simp_all add: settled_def)
    next
      case (Err e)
      then show ?thesis using op unit(2) by (simp add: settled_def)
    qed (use op in \<open>simp_all add: settled_def\<close>)
  qed
  show ?thesis unfolding journaled_fuel_def journaled_op_def settled_bindS body ..
qed

section \<open>Nested transactions\<close>

named_theorems captured_intros

lemma captured_pure [captured_intros]: "captured n (ret a)" "captured n (lift r)"
  by (rule capturedI, intro obeys_intros)+

declare captured_bind [captured_intros]

lemma captured_on_result [captured_intros]:
  assumes "captured n m" and "\<And>a. captured n (f a)" and "\<And>e. captured n (h e)"
  shows "captured n (on_result m f h)"
  unfolding captured_def
proof (intro allI impI)
  fix s :: jdev
  assume s: "jd_txn s \<noteq> None \<and> 0 < jd_depth s \<and> unat (jd_depth s) \<le> n"
  obtain r t where m: "m s = (r, t)" by (cases "m s")
  note t = capturedD [OF assms(1) m]
  show "case on_result m f h s of (r, t) \<Rightarrow> still_open s r t"
  proof (cases r)
    case (Ok a)
    obtain q u where u: "f a t = (q, u)" by (cases "f a t")
    show ?thesis using capturedD [OF assms(2) u] s t m u Ok by (simp add: on_result_def still_open_def)
  next
    case (Err e)
    obtain q u where u: "h e t = (q, u)" by (cases "h e t")
    show ?thesis using capturedD [OF assms(3) u] s t m u Err by (simp add: on_result_def still_open_def)
  qed (use s t m in \<open>simp_all add: on_result_def still_open_def\<close>)
qed

lemma captured_cases [captured_intros]:
  "(c \<Longrightarrow> captured n a) \<Longrightarrow> (\<not> c \<Longrightarrow> captured n b) \<Longrightarrow> captured n (if c then a else b)"
  "(\<And>x. captured n (f x)) \<Longrightarrow> captured n (Let v f)"
  "captured n a \<Longrightarrow> (\<And>x. captured n (f x)) \<Longrightarrow> captured n (case z of None \<Rightarrow> a | Some x \<Rightarrow> f x)"
  "(\<And>x y. captured n (g x y)) \<Longrightarrow> captured n (case p of (x, y) \<Rightarrow> g x y)"
  by (simp_all split: option.split prod.split)

definition captured_fuel :: "nat \<Rightarrow> (jdev, 'a option) io \<Rightarrow> bool" where
  "captured_fuel n m \<longleftrightarrow> captured n (settled m)"

lemma captured_fuel_pure [captured_intros]: "captured_fuel n (ret a)" "captured_fuel n (lift r)"
  by (cases a) (simp_all add: captured_fuel_def settled_pure captured_intros)

lemma captured_fuel_bind [captured_intros]:
  "captured n m \<Longrightarrow> (\<And>a. captured_fuel n (f a)) \<Longrightarrow> captured_fuel n (bindS m f)"
  "captured_fuel n k \<Longrightarrow> (\<And>a. captured_fuel n (f a)) \<Longrightarrow> captured_fuel n (bindO k f)"
  "captured n m \<Longrightarrow> (\<And>a. captured_fuel n (f a)) \<Longrightarrow> (\<And>e. captured_fuel n (h e)) \<Longrightarrow> captured_fuel n (on_result m f h)"
  unfolding captured_fuel_def settled_bindS settled_bindO settled_on_result by (intro captured_intros; assumption)+

lemma captured_fuel_cases [captured_intros]:
  "(c \<Longrightarrow> captured_fuel n a) \<Longrightarrow> (\<not> c \<Longrightarrow> captured_fuel n b) \<Longrightarrow> captured_fuel n (if c then a else b)"
  "(\<And>x. captured_fuel n (f x)) \<Longrightarrow> captured_fuel n (Let v f)"
  "captured_fuel n a \<Longrightarrow> (\<And>x. captured_fuel n (f x)) \<Longrightarrow> captured_fuel n (case z of None \<Rightarrow> a | Some x \<Rightarrow> f x)"
  "(\<And>x y. captured_fuel n (g x y)) \<Longrightarrow> captured_fuel n (case p of (x, y) \<Rightarrow> g x y)"
  by (simp_all split: option.split prod.split)

lemma captured_fuelI: "obeys capture_step m \<Longrightarrow> captured_fuel n m"
  unfolding captured_fuel_def
  by (rule capturedI) (simp add: obeys_def snd_settled)

lemma captured_fuel_nested: "captured_fuel (n + 1) op \<Longrightarrow> n < 2 ^ 16 \<Longrightarrow> captured_fuel n (journaled_fuel fs op)"
  by (simp add: captured_fuel_def settled_journaled captured_nested)

section \<open>Attributes\<close>

context read_contract
begin

lemma obeys_read_at [obeys_intros]: "obeys R (read_at fs ino off buf)"
proof -
  have part: "obeys R (read_part bs r k skip n buf c)" for bs r k skip n buf c
    unfolding read_part_def by (intro obeys_intros)
  have "obeys R (read_loop bs r tb len l k c buf)" for bs r tb len l k c buf
  proof (induction bs r tb len l k c buf rule: read_loop.induct)
    case (1 bs r tb len l k c buf)
    then show ?case by (subst read_loop.simps) (auto intro!: obeys_intros part simp: Let_def)
  qed
  then show ?thesis unfolding read_at_def by (intro obeys_intros part)
qed

lemma obeys_xattr_reads [obeys_intros]:
  "obeys R (ibody_attrs_at fs ino off isize)" "obeys R (block_attrs fs blk)" "obeys R (xattr_collect fs ino)"
  "obeys R (try_get fs ino name)"
proof -
  show ib: "obeys R (ibody_attrs_at fs ino off isize)" for off isize
    unfolding ibody_attrs_at_def by (intro obeys_intros)
  show bl: "obeys R (block_attrs fs blk)" for blk
    unfolding block_attrs_def by (intro obeys_intros)
  have res: "obeys R (resolve_values fs as)" for as
    by (induction as) (simp_all only: resolve_values.simps, (intro obeys_intros | assumption)+)
  show c: "obeys R (xattr_collect fs ino)"
    unfolding xattr_collect_def by (intro obeys_intros ib bl res)
  show "obeys R (try_get fs ino name)"
    unfolding try_get_def xattr_get_def by (intro obeys_intros c)
qed

end

context device_contract
begin

lemma obeys_xattr_writes [obeys_intros]: "obeys R (write_ibody_attrs fs ino as)"
  unfolding write_ibody_attrs_def by (intro obeys_intros)

end

lemma captured_prims:
  "captured n (get_inode_ref fs k)" "captured n (write_back_inode fs r)" "captured n (write_back_inode_without_csum fs r)"
  "captured n (dir_find_entry fs k name)" "captured n (dir_has_entry fs k)" "captured n (dir_remove_entry fs r name)"
  "captured n (dir_add_entry fs r c name)" "captured n (dir_set_entry_target fs k name l)"
  "captured n (ialloc_alloc_inode fs dir)" "captured n (ialloc_free_inode fs k dir)"
  "captured n (balloc_alloc_block fs r goal)" "captured n (balloc_free_blocks fs r b cnt)"
  "captured n (jd_read off len)" "captured n (jd_write off d)" "captured n (read_at fs k off d)"
  "captured n (block_attrs fs b)" "captured n (xattr_collect fs k)" "captured n (try_get fs k name)"
  "captured n (write_ibody_attrs fs k as)"
  by (rule capturedI, intro obeys_intros)+

declare captured_prims [captured_intros]

text \<open>Operations that open a transaction.\<close>

lemma captured_ops:
  assumes "n + 1 < 2 ^ 16"
  shows "captured_fuel n (write_at fuel fs k off d)" "captured_fuel n (truncate_inode fuel fs r sz)"
    "captured n (create fs k name mode)" "captured n (create_with_attr fs k name mode uid gid)"
    "captured n (create_special_with_attr fs k name mode rdev uid gid)"
    "captured n (link fs r c name)" "captured n (unlink fs r c name)"
proof -
  have n: "n < 2 ^ 16" using assms by simp
  show "captured_fuel n (write_at fuel fs k off d)" "captured_fuel n (truncate_inode fuel fs r sz)"
    unfolding write_at_def truncate_inode_def by (intro captured_fuel_nested captured_fuelI obeys_intros n)+
  show "captured n (create fs k name mode)" "captured n (create_with_attr fs k name mode uid gid)"
    "captured n (create_special_with_attr fs k name mode rdev uid gid)"
    unfolding create_def create_with_attr_def create_special_with_attr_def
    by (intro captured_nested captured_creators assms n)+
  show "captured n (link fs r c name)" "captured n (unlink fs r c name)"
    unfolding link_def unlink_def by (intro captured_nested capturedI obeys_intros n)+
qed

lemma captured_open:
  assumes "n + 1 < 2 ^ 16"
  shows "captured n (generic_open fs path k create_missing ftype off)"
proof -
  have "captured n (open_loop fs c ftype path k found off)" for c path k found off
  proof (induction "length path" arbitrary: path k found off rule: less_induct)
    case less
    have rest: "captured n (open_loop fs c ftype (drop len (dropWhile (\<lambda>c. c = 0x2F) path)) k found off)"
      if c: "\<not> (len = 0 \<or> dropWhile (\<lambda>c. c = 0x2F) path = [])" for len k found off
    proof (rule less)
      obtain x where "x \<in> set path" using c by (cases path) auto
      then show "length (drop len (dropWhile (\<lambda>c. c = 0x2F) path)) < length path"
        using drop_shorter [of len x path] c by simp
    qed
    show ?case
      by (subst open_loop.simps, unfold Let_def)
        (intro captured_intros captured_ops assms; (rule rest; assumption)?)
  qed
  then show ?thesis unfolding generic_open_def by (intro captured_intros)
qed

section \<open>Attributes\<close>

lemma captured_values:
  assumes "n + 1 < 2 ^ 16"
  shows "captured_fuel n (free_block_ea_inodes fuel fs ino)" "captured_fuel n (prepare_values fuel fs ino as)"
proof -
  have one: "captured_fuel n (free_ea_inode fuel fs k)" for k
    unfolding free_ea_inode_def by (intro captured_intros captured_ops assms)
  have "captured_fuel n (free_values fuel fs u as)" for u as
    by (induction as arbitrary: u) (simp_all only: free_values.simps, (intro captured_intros one | assumption)+)
  then show "captured_fuel n (free_block_ea_inodes fuel fs ino)"
    unfolding free_block_ea_inodes_def by (intro captured_intros)
  have make: "captured_fuel n (create_ea_inode fuel fs ino v)" for v
    unfolding create_ea_inode_def by (intro captured_intros captured_ops assms)
  show "captured_fuel n (prepare_values fuel fs ino as)"
    by (induction as) (simp_all only: prepare_values.simps, (intro captured_intros make | assumption)+)
qed

lemma captured_xattr:
  assumes "n + 1 < 2 ^ 16"
  shows "captured_fuel n (xattr_set_impl fuel fs ino name v flags)" "captured_fuel n (xattr_remove_impl fuel fs ino name)"
proof -
  have "captured_fuel n (write_block_attrs fuel fs ino as)" "captured_fuel n (free_xattr_block fuel fs ino)" for as
    unfolding write_block_attrs_def free_xattr_block_def by (intro captured_intros captured_values assms)+
  then have store: "captured_fuel n (xattr_store fuel fs ino as)" for as
    unfolding xattr_store_def by (intro captured_intros)
  show "captured_fuel n (xattr_set_impl fuel fs ino name v flags)" "captured_fuel n (xattr_remove_impl fuel fs ino name)"
    unfolding xattr_set_impl_def xattr_remove_impl_def by (intro captured_intros store)+
qed

lemma captured_xattr_ops:
  assumes "n + 2 < 2 ^ 16"
  shows "captured_fuel n (xattr_set fuel fs ino name v flags)" "captured_fuel n (xattr_remove fuel fs ino name)"
    "captured_fuel n (inherit_acl fuel fs k umask r)"
proof -
  have n: "n < 2 ^ 16" "n + 1 + 1 < 2 ^ 16" using assms by simp_all
  show set: "captured_fuel n (xattr_set fuel fs ino name v flags)" for ino name v flags
    unfolding xattr_set_def by (intro captured_fuel_nested captured_xattr n)
  show "captured_fuel n (xattr_remove fuel fs ino name)"
    unfolding xattr_remove_def by (intro captured_fuel_nested captured_xattr n)
  show "captured_fuel n (inherit_acl fuel fs k umask r)"
    unfolding inherit_acl_def posix_acl_create_def by (intro captured_intros set)
qed

section \<open>Requests\<close>

lemma captured_absent: "captured n (absent fs k name)"
  unfolding absent_def by (intro captured_intros)

lemma captured_creating:
  assumes "n + 2 < 2 ^ 16"
  shows "captured_fuel n (fuse_mknod_impl fuel fs k name mode umask rdev)"
    "captured_fuel n (fuse_mknod_with_attr_impl fuel fs k name mode umask rdev uid gid)"
    "captured_fuel n (fuse_mkdir_impl fuel fs k name mode umask)"
    "captured_fuel n (fuse_mkdir_with_attr_impl fuel fs k name mode umask uid gid)"
    "captured_fuel n (fuse_create_impl fuel fs k name mode umask flags)"
    "captured_fuel n (fuse_symlink_impl fuel fs k name target)"
proof -
  have n: "n + 1 < 2 ^ 16" using assms by simp
  show "captured_fuel n (fuse_mknod_impl fuel fs k name mode umask rdev)"
    "captured_fuel n (fuse_mknod_with_attr_impl fuel fs k name mode umask rdev uid gid)"
    "captured_fuel n (fuse_mkdir_impl fuel fs k name mode umask)"
    "captured_fuel n (fuse_mkdir_with_attr_impl fuel fs k name mode umask uid gid)"
    "captured_fuel n (fuse_create_impl fuel fs k name mode umask flags)"
    "captured_fuel n (fuse_symlink_impl fuel fs k name target)"
    unfolding fuse_mknod_impl_def fuse_mknod_with_attr_impl_def fuse_mkdir_impl_def fuse_mkdir_with_attr_impl_def
      fuse_create_impl_def fuse_symlink_impl_def write_symlink_target_def
    by (intro captured_intros captured_absent captured_ops captured_xattr_ops n assms)+
qed

lemma captured_removing:
  assumes "n + 1 < 2 ^ 16"
  shows "captured_fuel n (fuse_unlink_impl fuel fs k name)" "captured_fuel n (dir_remove fuel fs l name)"
  unfolding fuse_unlink_impl_def dir_remove_def
  by (intro captured_intros captured_open captured_ops assms)+

lemma captured_linking:
  assumes "n + 1 < 2 ^ 16"
  shows "captured n (fuse_link_impl fs k l name)" "captured n (fuse_setattr_impl fs k ch)"
  unfolding fuse_link_impl_def fuse_setattr_impl_def
  by (intro captured_intros captured_ops assms)+

lemma captured_rename:
  assumes "n + 2 < 2 ^ 16"
  shows "captured_fuel n (fuse_rename_impl fuel fs k name l newname flags)"
proof -
  have n: "n < 2 ^ 16" "n + 1 < 2 ^ 16" "n + 1 + 1 < 2 ^ 16" using assms by simp_all
  have above: "captured_fuel n (dir_is_ancestor fuel fs a c)" for a c
    by (induction fuel arbitrary: c) (simp_all only: dir_is_ancestor.simps, (intro captured_intros | assumption)+)
  have links: "captured n (adjust_dir_links fs k d)" for k d
    unfolding adjust_dir_links_def by (intro captured_intros)
  have exchange: "captured_fuel n (rename_exchange fuel fs op nm si sd np nn)" for op nm si sd np nn
    unfolding rename_exchange_def by (intro captured_intros above links)
  have gone: "captured_fuel n (fuse_unlink fuel fs l nm)" for l nm
    unfolding fuse_unlink_def by (intro captured_fuel_nested captured_removing n)
  have clear: "captured_fuel n (clear_destination fuel fs si sd np nn fl)" for si sd np nn fl
    unfolding clear_destination_def by (intro captured_intros captured_removing gone n)
  have move: "captured n (move_entry fs op nm r np nn)" for op nm r np nn
    unfolding move_entry_def by (intro captured_intros links)
  show ?thesis
    unfolding fuse_rename_impl_def by (intro captured_intros above exchange clear move)
qed

lemma captured_fallocate: "captured_fuel n (fuse_fallocate_impl fuel fs k off len mode)"
proof -
  have test: "obeys capture_step (unmapped fs r b)" for r b
    unfolding unmapped_def by (intro obeys_intros)
  have run: "obeys capture_step (run_length (unmapped fs r) b m)" for r b m
    by (induction m arbitrary: b) (simp_all only: run_length.simps, (intro obeys_intros test | assumption)+)
  have "obeys capture_step (fallocate_fill fs m b r g)" for m b r g
  proof (induction m arbitrary: b r g rule: less_induct)
    case (less m)
    show ?case
      by (cases m) (simp_all only: fallocate_fill.simps Let_def, (intro obeys_intros test run less | simp)+)
  qed
  then have fill: "captured n (fallocate_fill fs m b r g)" for m b r g by (rule capturedI)
  have "obeys capture_step (zero_partial fuel fs r a z b)" for r a z b
    by (induction fuel arbitrary: b) (simp_all only: zero_partial.simps Let_def, (intro obeys_intros | assumption)+)
  then have zero: "captured_fuel n (fallocate_zero_partial fuel fs r a z)" for r a z
    unfolding fallocate_zero_partial_def by (intro captured_intros captured_fuelI)
  have space: "captured_fuel n (extent_remove_space fuel fs r u v)" for r u v
    by (rule captured_fuelI) (intro obeys_intros)
  show ?thesis
    unfolding fuse_fallocate_impl_def punch_hole_def by (intro captured_intros fill zero space)
qed

lemma captured_copy:
  assumes "n + 1 < 2 ^ 16"
  shows "captured_fuel n (fuse_copy_file_range_impl fuel fs k a l b len flags)"
proof -
  have "captured_fuel n (copy_loop fuel fs k l len c i o' buf)" for k l len c i o' buf
  proof (induction "len - c" arbitrary: c i o' buf rule: less_induct)
    case less
    show ?case
      by (subst copy_loop.simps, unfold Let_def)
        (intro captured_intros captured_ops assms less; simp)
  qed
  then show ?thesis unfolding fuse_copy_file_range_impl_def by (intro captured_intros)
qed

section \<open>A write too large for the journal\<close>

text \<open>A file of 200 blocks at block 1000 of \<open>tiny\<close>, and the small journal at block 100.\<close>

definition wide_extent :: extent where
  "wide_extent = \<lparr> ee_first_block = 0, ee_block_count = 200, ee_start_hi = 0, ee_start_lo = 1000 \<rparr>"

definition wide_root :: bytes where
  "wide_root = header_bytes \<lparr> eh_magic = 0xF30A, eh_entries_count = 1, eh_max_entries_count = 4,
     eh_depth = 0, eh_generation = 0 \<rparr> @ extent_bytes wide_extent @ replicate 36 0"

definition wide_node :: extent_node where
  "wide_node = \<lparr> en_header = \<lparr> eh_magic = 0xF30A, eh_entries_count = 1, eh_max_entries_count = 4,
     eh_depth = 0, eh_generation = 0 \<rparr>, en_data = Root wide_root, en_is_root = True \<rparr>"

definition wide_file :: inode where
  "wide_file = (inode_of_bytes (replicate 156 0))\<lparr> i_block := wide_root, i_size_lo := 409600, i_size_hi := 0 \<rparr>"

definition wide_image :: "nat \<Rightarrow> u8" where
  "wide_image = image_write (image_write tiny_image 204800 small_sb_bytes) 19200 (inode_bytes wide_file)"

definition wide_dev :: jdev where
  "wide_dev = JournalDevice_new \<lparr> dk_image = wide_image, dk_events = [] \<rparr> 2048"

definition logged_fs :: ext4 where
  "logged_fs = tiny_fs\<lparr> fs_journal := Some small_journal \<rparr>"

lemma logged_fs [simp]:
  "fs_journal logged_fs = Some small_journal" "fs_block_size logged_fs = 2048" "fs_sb logged_fs = tiny_sb"
  "file_ready logged_fs = file_ready tiny_fs"
  by (simp_all add: logged_fs_def file_ready_def own_data_def inode_at_def inode_pos_def fs_block_size_def inodes_ready_def
      fun_eq_iff flip: tiny_fs(2) tiny_fs(1))

lemma wide_maps: "maps_blocks v bs wide_file [wide_extent]"
proof -
  have len: "length wide_root = 60" by (simp add: wide_root_def)
  have root: "load_from_data (i_block wide_file) True = Ok wide_node"
    using len by (simp add: load_from_data_def wide_file_def wide_node_def) (simp add: wide_root_def slice_def)
  have "tree_of v bs 0 wide_node 0 (2 ^ 32) [wide_extent]"
  proof (rule tree_of.leaf)
    have n: "entries wide_node = 1" by (simp add: entries_def wide_node_def)
    then show "node_ok wide_node" using len by (simp add: node_ok_def fits_def wide_node_def)
    have "extent_at (en_data wide_node) 0 = wide_extent"
      by (simp add: extent_at_def wide_node_def wide_root_def slice_def)
    then show "[wide_extent] = map (extent_at (en_data wide_node)) [0..<entries wide_node]"
      by (simp add: n)
  qed (simp_all add: wide_extent_def get_actual_len_def is_unwritten_def EXT_INIT_MAX_LEN_def)
  then show ?thesis
    unfolding maps_blocks_def using root by (intro exI [of _ wide_node] exI) (simp add: wide_node_def)
qed

lemma wide_lookup: "k < 200 \<Longrightarrow> lookup [wide_extent] (of_nat k) = (of_nat (1000 + k), False)"
proof -
  assume k: "k < 200"
  then have u: "unat (of_nat k :: u32) = k" by (intro unat_of_nat_small) simp
  have "unat (ucast (of_nat k :: u32) :: u64) = k"
    using k u by (simp add: unsigned_ucast_eq take_bit_eq_mod)
  then have c: "ucast (of_nat k :: u32) = (of_nat k :: u64)"
    using k unat_of_nat_small [of k, where 'a = 64] by (simp add: word_unat_eq_iff)
  then show ?thesis
    using k u by (simp add: lookup_def covers_def wide_extent_def get_actual_len_def is_unwritten_def
        EXT_INIT_MAX_LEN_def get_pblock_def)
qed

lemma wide_size: "inode_size wide_file = 409600"
  by (simp add: inode_size_def wide_file_def)

lemma wide_pos: "k < 200 \<Longrightarrow> data_pos 2048 [wide_extent] k = (1000 + k) * 2048"
  using unat_of_nat_small [of "1000 + k", where 'a = 64] by (simp add: data_pos_def wide_lookup)

lemma wide_inode:
  assumes "\<And>p. p < 2048000 \<Longrightarrow> w p = wide_image p"
  shows "inode_at tiny_fs w 12 = wide_file"
proof -
  have len: "length (i_block wide_file) = 60" by (simp add: wide_file_def wide_root_def)
  note rt = inode_roundtrip [OF len, of "[]"]
  have "desc_at w tiny_sb 0 = desc_at wide_image tiny_sb 0"
    unfolding desc_at_def by (rule image_read_cong) (use assms in \<open>simp add: desc_pos_def\<close>)
  also have "\<dots> = desc_at tiny_image tiny_sb 0"
    by (simp add: wide_image_def desc_at_def desc_pos_def read_apart apart_def small_sb_bytes)
  finally have "inode_pos tiny_fs w 12 = 19200"
    by (simp add: inode_pos_def inode_group_def saturating_sub_def)
  moreover have "image_read w 19200 156 = image_read wide_image 19200 156"
    by (rule image_read_cong) (use assms in simp)
  ultimately show ?thesis
    using rt len by (simp add: inode_at_def wide_image_def read_written)
qed

lemma wide_ready: "file_ready logged_fs wide_image 12 wide_file [wide_extent]"
proof -
  have n: "file_blocks 2048 wide_file = 200" by (simp add: file_blocks_def wide_size)
  have has: "has_block [wide_extent] k" if "k < 200" for k
    using that unat_of_nat_small [of "1000 + k", where 'a = 64] by (auto simp: has_block_def wide_lookup word_unat_eq_iff)
  have "inode_at tiny_fs w 12 = wide_file"
    if "\<forall>p. (\<forall>k < 200. has_block [wide_extent] k \<longrightarrow>
        p < data_pos 2048 [wide_extent] k \<or> data_pos 2048 [wide_extent] k + 2048 \<le> p) \<longrightarrow> w p = wide_image p" for w
    by (rule wide_inode, rule that [rule_format]) (simp add: wide_pos)
  moreover have "k = j" if "k < 200" "j < 200" "fst (lookup [wide_extent] (of_nat k)) = fst (lookup [wide_extent] (of_nat j))" for k j
  proof -
    have "unat (of_nat (1000 + k) :: u64) = unat (of_nat (1000 + j) :: u64)" using that by (simp add: wide_lookup)
    then show ?thesis using that(1,2) unat_of_nat_small [of "1000 + k", where 'a = 64] unat_of_nat_small [of "1000 + j", where 'a = 64] by simp
  qed
  ultimately have "own_data tiny_fs wide_image 12 wide_file [wide_extent]"
    unfolding own_data_def using wide_maps n by (simp add: Let_def)
  then show ?thesis using wide_size by (simp add: file_ready_def inodes_ready_def)
qed

lemma wide_dev: "closed wide_dev" "jd_depth wide_dev = 0" "jd_block_size wide_dev = 2048" "jd_image wide_dev = wide_image"
  by (simp_all add: wide_dev_def closed_def JournalDevice_new_def jd_image_def)

lemma wide_live:
  assumes "closed t" and "jd_image t = wide_image"
  shows "live_sb_of (block_of 2048 (jd_image t) (small_pos 0)) = Ok small_ls" and "live_sb 2048 small_journal t = (Ok small_ls, t)"
proof -
  have "block_of 2048 wide_image 100 = small_sb_bytes"
    using small_sb_bytes(1) by (simp add: block_of_def wide_image_def read_apart read_written apart_def wide_file_def wide_root_def)
  then show *: "live_sb_of (block_of 2048 (jd_image t) (small_pos 0)) = Ok small_ls"
    using small_pos [of 0] by (simp add: assms(2) small_live)
  show "live_sb 2048 small_journal t = (Ok small_ls, t)"
    using read_log_eq [OF small_mapped assms(1), of 0] * by (simp add: live_sb_def bindS_def)
qed

lemma wide_placed: "\<exists>M. log_placed 2048 small_journal wide_dev {} M"
proof -
  have "map_log_block 2048 small_journal k t = (Ok (of_nat (small_pos (unat k))), t)" if cl: "closed t" for k t
  proof -
    have k: "of_nat (unat k) = k" by simp
    have l: "unat k < 2 ^ 32" using unsigned_less [where 'a = nat, of k] by simp
    obtain p where p: "map_log_block 2048 small_journal (of_nat (unat k)) t = (Ok p, t)" "unat p = small_pos (unat k)"
      using small_mapped cl l unfolding log_mapped_def by blast
    have "p = of_nat (unat p)" by simp
    then show ?thesis using p by (simp only: k)
  qed
  then show ?thesis by (auto simp: log_placed_def)
qed

text \<open>The body stages 130 blocks of the file.\<close>

abbreviation wide_data :: bytes where
  "wide_data \<equiv> replicate 266240 1"

lemma wide_body:
  obtains t txn where "write_at_impl 0 logged_fs 12 0 wide_data (jd_begin 7 wide_dev) = (Ok (Some 266240), t)"
    and "jd_txn t = Some txn" and "jd_image t = wide_image" and "jd_depth t = 1" and "jd_crash t = NoCrash"
    and "whole_blocks 2048 (txn_blocks txn)" and "130 \<le> card (txn_keys 2048 txn)"
proof -
  let ?s = "jd_begin 7 wide_dev"
  note b = begin_open [OF wide_dev(1,2), of 7]
  have s: "jd_inv ?s" "jd_view ?s = wide_image"
    using b wide_dev by (simp_all add: jd_inv_def jd_view_def Transaction_new_def whole_blocks_def bt_ok_def txn_view_def fun_eq_iff jd_image_def)
  have "written_block [wide_extent] k" if "k < 200" for k
    using that unat_of_nat_small [of "1000 + k", where 'a = 64] by (auto simp: written_block_def wide_lookup word_unat_eq_iff)
  then have "\<forall>k. 0 div 2048 \<le> k \<and> k * 2048 < 0 + length wide_data \<longrightarrow> written_block [wide_extent] k" by auto
  then obtain t where t: "write_at_impl 0 logged_fs 12 0 wide_data ?s = (Ok (Some 266240), t)" "jd_inv t"
    "\<forall>x < 409600. file_byte (jd_view t) 2048 [wide_extent] x
      = (if 0 \<le> x \<and> x < 0 + length wide_data then wide_data ! (x - 0) else file_byte wide_image 2048 [wide_extent] x)"
    using write_at_replaces [of ?s logged_fs 12 wide_file "[wide_extent]" 0 wide_data 0] s wide_ready
    by (auto simp: wide_size)
  have "captured 1 (write_at_impl 0 logged_fs 12 0 wide_data)" by (intro capturedI obeys_intros)
  note c = captured_from_begin [OF this wide_dev(1,2) t(1)]
  obtain txn where txn: "jd_txn t = Some txn" using c(1) by blast
  have "obeys inv_step (write_at_impl 0 logged_fs 12 0 wide_data)" by (intro obeys_intros)
  then have size: "jd_block_size t = 2048"
    using t(1) b(5) wide_dev(3) unfolding obeys_def inv_step_def by (metis snd_conv)
  have whole: "whole_blocks 2048 (txn_blocks txn)" using t(2) txn size by (simp add: jd_inv_def)
  have "1000 + k \<in> txn_keys 2048 txn" if k: "k < 130" for k
  proof (rule ccontr)
    assume "1000 + k \<notin> txn_keys 2048 txn"
    then have "map_of (txn_blocks txn) (1000 + k) = None" by (simp add: txn_keys_def map_of_eq_None_iff)
    then have "block_of 2048 (jd_view t) (1000 + k) = block_of 2048 wide_image (1000 + k)"
      using block_of_view [OF txn _ whole [folded size], of "1000 + k"] size c(2) wide_dev(4) by simp
    then have "block_of 2048 (jd_view t) (1000 + k) ! 0 = block_of 2048 wide_image (1000 + k) ! 0" by simp
    then have "jd_view t ((1000 + k) * 2048) = wide_image ((1000 + k) * 2048)"
      by (simp add: block_of_def nth_image_read)
    moreover have "file_byte (jd_view t) 2048 [wide_extent] (k * 2048) = jd_view t ((1000 + k) * 2048)"
      using k unat_of_nat_small [of "1000 + k", where 'a = 64] by (auto simp: file_byte_def wide_lookup word_unat_eq_iff)
    moreover have "wide_image ((1000 + k) * 2048) = 0"
      by (simp add: wide_image_def image_write_def tiny_image_def small_sb_bytes wide_file_def wide_root_def)
    ultimately show False using t(3) [rule_format, of "k * 2048"] k by simp
  qed
  then have "(\<lambda>k. 1000 + k) ` {..<130} \<subseteq> txn_keys 2048 txn" by auto
  moreover have "finite (txn_keys 2048 txn)" by (simp add: txn_keys_def)
  ultimately have "card ((\<lambda>k :: nat. 1000 + k) ` {..<130}) \<le> card (txn_keys 2048 txn)" by (metis card_mono)
  then have "130 \<le> card (txn_keys 2048 txn)" by (simp add: card_image inj_on_def)
  moreover have "jd_depth t = 1" using c(4) by simp
  moreover have "jd_crash wide_dev = NoCrash" by (simp add: wide_dev_def JournalDevice_new_def)
  ultimately show thesis using that t(1) txn c(2,3) wide_dev(4) whole by simp
qed

section \<open>Properties\<close>

text \<open>A request is the journaled operation of its body.\<close>

lemma request_undone:
  assumes "fs_journal fs = Some j" and "closed s" and "jd_depth s = 0" and "log_placed (fs_block_size fs) j s T M"
    and "1024 mod fs_block_size fs + 1024 \<le> fs_block_size fs" and "captured_fuel 1 op"
  shows "undone_if_failed fs T M s (settled (journaled_fuel fs op)) (settled op)"
  unfolding settled_journaled by (rule journaled_undone [OF assms(1-3) _ assms(4,5)]) (use assms(6) in \<open>simp add: captured_fuel_def\<close>)

text \<open>What a request that succeeds has done is in place as a whole after any crash of its commit.\<close>

lemma request_commits:
  assumes "captured_fuel 1 op" and "fs_journal fs = Some j" and "closed s" and "jd_depth s = 0"
    and "op (jd_begin (jsb_sequence (ls_sb ls)) s) = (Ok (Some a), t)" and "jd_txn t = Some txn"
    and "jd_block_size t = fs_block_size fs"
    and "commit_setup (fs_block_size fs) j P ls txn s" and "log_apart (fs_block_size fs) P ls txn"
    and "ls_has_csum ls = (has_incompat (j_sb j) JBD2_FEATURE_INCOMPAT_CSUM_V2
      \<or> has_incompat (j_sb j) JBD2_FEATURE_INCOMPAT_CSUM_V3)"
    and "\<not> continues (block_of (fs_block_size fs) (jd_image s)
       (P (unat (jsb_first (ls_sb ls)) + card (txn_keys (fs_block_size fs) txn) + 2))) (txn_sequence txn + 1)"
  shows "\<exists>u v. settled (journaled_fuel fs op) s = (Ok a, u) \<and> recover (fs_block_size fs) j u = (Ok (), v)
    \<and> (\<forall>b. b \<noteq> sb_idx (fs_block_size fs)
          \<and> b \<notin> P ` insert 0 {unat (jsb_first (ls_sb ls))..
                unat (jsb_first (ls_sb ls)) + card (txn_keys (fs_block_size fs) txn) + 1}
        \<longrightarrow> block_of (fs_block_size fs) (jd_image v) b = block_of (fs_block_size fs) (jd_view t) b)"
  using journaled_op_commits [OF assms(2) assms(1) [unfolded captured_fuel_def] assms(3,4) settled_eq(1) [where m = op, OF assms(5)] assms(6-)]
  unfolding settled_journaled by blast

text \<open>C3: A request that fails is undone. Each request of the front end that creates, removes,
  renames, links, preallocates, copies, writes or changes extended attributes is one journaled operation.
  When it returns an error, whether from its body, from one of the operations nested in it, from reading
  the journal at its start or from the commit at its end, or when it panics or has not ended, then no
  block outside the log has changed; after an error the transaction is closed. Unless the body
  succeeded and the commit failed, not even the log has changed. The journal's extent tree may have any
  depth and its map may have errors; the request must not write that tree.\<close>

theorem failed_requests_are_undone:
  assumes "fs_journal fs = Some j" and "closed s" and "jd_depth s = 0" and "log_placed (fs_block_size fs) j s T M"
    and "1024 mod fs_block_size fs + 1024 \<le> fs_block_size fs"
  shows "undone_if_failed fs T M s (settled (fuse_rename fuel fs k name l newname flags)) (settled (fuse_rename_impl fuel fs k name l newname flags))
    \<and> undone_if_failed fs T M s (settled (fuse_create fuel fs k name mode umask flags)) (settled (fuse_create_impl fuel fs k name mode umask flags))
    \<and> undone_if_failed fs T M s (settled (fuse_mkdir fuel fs k name mode umask)) (settled (fuse_mkdir_impl fuel fs k name mode umask))
    \<and> undone_if_failed fs T M s (settled (fuse_mkdir_with_attr fuel fs k name mode umask uid gid))
        (settled (fuse_mkdir_with_attr_impl fuel fs k name mode umask uid gid))
    \<and> undone_if_failed fs T M s (settled (fuse_mknod fuel fs k name mode umask rdev)) (settled (fuse_mknod_impl fuel fs k name mode umask rdev))
    \<and> undone_if_failed fs T M s (settled (fuse_mknod_with_attr fuel fs k name mode umask rdev uid gid))
        (settled (fuse_mknod_with_attr_impl fuel fs k name mode umask rdev uid gid))
    \<and> undone_if_failed fs T M s (settled (fuse_symlink fuel fs k name target)) (settled (fuse_symlink_impl fuel fs k name target))
    \<and> undone_if_failed fs T M s (fuse_link fs k l name) (fuse_link_impl fs k l name)
    \<and> undone_if_failed fs T M s (settled (fuse_unlink fuel fs k name)) (settled (fuse_unlink_impl fuel fs k name))
    \<and> undone_if_failed fs T M s (settled (fuse_rmdir fuel fs k name)) (settled (dir_remove fuel fs (ucast k) name))
    \<and> undone_if_failed fs T M s (settled (fuse_setxattr fuel fs k name v flags)) (settled (xattr_set fuel fs (ucast k) name v flags))
    \<and> undone_if_failed fs T M s (settled (fuse_removexattr fuel fs k name)) (settled (xattr_remove fuel fs (ucast k) name))
    \<and> undone_if_failed fs T M s (settled (fuse_fallocate fuel fs k off len flags)) (settled (fuse_fallocate_impl fuel fs k off len flags))
    \<and> undone_if_failed fs T M s (settled (fuse_copy_file_range fuel fs k off l pos cnt flags))
        (settled (fuse_copy_file_range_impl fuel fs k off l pos cnt flags))
    \<and> undone_if_failed fs T M s (settled (fuse_write fuel fs k off v)) (settled (write_at_impl fuel fs (ucast k) (usize_of off) v))"
  unfolding fuse_rename_def fuse_create_def fuse_mkdir_def fuse_mkdir_with_attr_def fuse_mknod_def fuse_mknod_with_attr_def
    fuse_symlink_def fuse_link_def fuse_unlink_def fuse_rmdir_def fuse_setxattr_def fuse_removexattr_def fuse_fallocate_def
    fuse_copy_file_range_def fuse_write_def write_at_def
  by (intro conjI request_undone [OF assms] journaled_undone [OF assms(1-3) _ assms(4,5)] captured_rename captured_creating captured_linking
      captured_removing captured_xattr_ops captured_fallocate captured_copy captured_fuelI obeys_intros; simp)

text \<open>A write of 130 blocks inside the file: the body succeeds, but the commit has more blocks than one
  descriptor has tags.\<close>

theorem failed_requests_are_undone_witness:
  "\<exists>M t u. fst (write_at_impl 0 logged_fs 12 0 wide_data (jd_begin 7 wide_dev)) = Ok (Some 266240)
    \<and> fuse_write 0 logged_fs 12 0 wide_data wide_dev = (Err ENOSPC, t) \<and> closed t \<and> jd_depth t = 0
    \<and> same_outside 2048 (log_area 2048 small_journal wide_dev M) wide_dev t"
proof -
  obtain M where M: "log_placed 2048 small_journal wide_dev {} M" using wide_placed by blast
  obtain t txn where t: "write_at_impl 0 logged_fs 12 0 wide_data (jd_begin 7 wide_dev) = (Ok (Some 266240), t)"
    "jd_txn t = Some txn" "jd_image t = wide_image" "jd_depth t = 1" "jd_crash t = NoCrash"
    "whole_blocks 2048 (txn_blocks txn)" "130 \<le> card (txn_keys 2048 txn)"
    by (rule wide_body)
  have fit: "(1024 :: nat) mod 2048 + 1024 \<le> 2048" by simp
  let ?e = "t\<lparr> jd_depth := 0, jd_txn := None, jd_crash := NoCrash \<rparr>"
  have e: "closed ?e" "jd_image ?e = wide_image" using t(3) by (simp_all add: closed_def jd_image_def)
  have ne: "txn_blocks txn \<noteq> []" using t(7) by (auto simp: txn_keys_def)
  have "commit_with_crash 2048 small_journal txn NoCrash ?e = (Err ENOSPC, ?e)"
    by (rule commit_over_capacity [OF e(1) small_mapped _ wide_live(1) [OF e] ne t(6)])
      (use t(7) in \<open>simp_all add: small_ls_def descriptor_block_tag_capacity_def tag_len_def\<close>)
  then have fin: "journal_end logged_fs True t = (Err ENOSPC, ?e)"
    using t(5) by (simp add: journal_end_def end_closes [OF t(4)] t(2) take_crash_def)
  have "live_sequence 2048 small_journal wide_dev = (Ok 7, wide_dev)"
    using wide_live(2) [OF wide_dev(1,4)] by (simp add: live_sequence_def bindS_def small_seq)
  then have run: "fuse_write 0 logged_fs 12 0 wide_data wide_dev = (Err ENOSPC, ?e)"
    using t(1) fin by (simp add: fuse_write_def write_at_def usize_of_def journaled_fuel_def journal_begin_def bindS_def)
  have "undone_if_failed logged_fs {} M wide_dev (settled (fuse_write 0 logged_fs 12 0 wide_data))
      (settled (write_at_impl 0 logged_fs (ucast (12 :: u64)) (usize_of 0) wide_data))"
    using failed_requests_are_undone [OF logged_fs(1) wide_dev(1,2), of "{}" M, unfolded logged_fs(2), OF M fit] by blast
  then have "closed ?e \<and> jd_depth ?e = 0 \<and> same_outside 2048 (log_area 2048 small_journal wide_dev M) wide_dev ?e"
    using settled_eq(3) [where m = "fuse_write 0 logged_fs 12 0 wide_data", OF run] by (simp add: undone_if_failed_def)
  then show ?thesis using t(1) run by (metis fst_conv)
qed

end
