(* ===== verification/Simple.thy ===== *)
theory Simple
  imports FuseData
begin

text \<open>
  The simple interface (\<open>src/src/simple_interface/mod.rs\<close>): flag strings, opening by path, making and
  listing directories, reading and writing by inode number.
\<close>

unbundle bit_operations_syntax

definition O_CREAT :: u32 where "O_CREAT = 0x40"
definition O_TRUNC :: u32 where "O_TRUNC = 0x200"
definition O_APPEND :: u32 where "O_APPEND = 0x400"

definition ext4_parse_flags :: "bytes \<Rightarrow> u32 res" where
  "ext4_parse_flags flags =
     (if flags \<in> str_bytes ` {''r'', ''rb''} then Ok O_RDONLY
      else if flags \<in> str_bytes ` {''w'', ''wb''} then Ok (O_WRONLY OR O_CREAT OR O_TRUNC)
      else if flags \<in> str_bytes ` {''a'', ''ab''} then Ok (O_WRONLY OR O_CREAT OR O_APPEND)
      else if flags \<in> str_bytes ` {''r+'', ''rb+'', ''r+b''} then Ok O_RDWR
      else if flags \<in> str_bytes ` {''w+'', ''wb+'', ''w+b''} then Ok (O_RDWR OR O_CREAT OR O_TRUNC)
      else if flags \<in> str_bytes ` {''a+'', ''ab+'', ''a+b''} then Ok (O_RDWR OR O_CREAT OR O_APPEND)
      else Err EINVAL)"

text \<open>The flags are unwrapped, and what is created is a directory: \<open>filetype\<close> is bound twice.\<close>

definition ext4_file_open :: "ext4 \<Rightarrow> bytes \<Rightarrow> bytes \<Rightarrow> (jdev, u32) io" where
  "ext4_file_open fs path flags =
     bindS (lift (case ext4_parse_flags flags of Ok f \<Rightarrow> Ok f | _ \<Rightarrow> Panic)) (\<lambda>iflags.
     bindS (generic_open fs path ROOT_INODE (iflags AND O_CREAT \<noteq> 0) S_IFDIR 0) (\<lambda>(found, _, _). ret found))"

definition ext4_dir_mk :: "ext4 \<Rightarrow> bytes \<Rightarrow> (jdev, u32) io" where
  "ext4_dir_mk fs path =
     on_result (dir_find_entry fs ROOT_INODE path)
       (\<lambda>_. lift (Err EEXIST))
       (\<lambda>_. bindS (generic_open fs path ROOT_INODE True S_IFDIR 0) (\<lambda>(found, _, _). ret found))"

definition ext4_dir_open :: "ext4 \<Rightarrow> bytes \<Rightarrow> (jdev, u32) io" where
  "ext4_dir_open fs path = bindS (generic_open fs path ROOT_INODE False S_IFDIR 0) (\<lambda>(found, _, _). ret found)"

definition ext4_dir_get_entries :: "ext4 \<Rightarrow> u32 \<Rightarrow> (jdev, dir_entry list) io" where
  "ext4_dir_get_entries fs inode = dir_get_entries fs inode"

definition ext4_file_read :: "ext4 \<Rightarrow> u64 \<Rightarrow> u32 \<Rightarrow> int \<Rightarrow> (jdev, bytes) io" where
  "ext4_file_read fs ino n offset =
     bindS (read_at fs (ucast ino) (usize_of offset) (replicate (unat n) 0)) (\<lambda>(read_size, data).
     lift (get_at data 0 read_size))"

definition ext4_file_write :: "nat \<Rightarrow> ext4 \<Rightarrow> u64 \<Rightarrow> int \<Rightarrow> bytes \<Rightarrow> (jdev, nat option) io" where
  "ext4_file_write fuel fs ino offset data = write_at fuel fs (ucast ino) (usize_of offset) data"

section \<open>Reading\<close>

text \<open>Both interfaces return the bytes of the file from the offset on, at most as many as asked for and
  none past the end; an offset that is negative is past every end.\<close>

lemma file_read_bytes:
  fixes fs :: ext4 and s :: jdev and ino :: u64
  defines "v \<equiv> jd_view s" and "bs \<equiv> fs_block_size fs" and "i \<equiv> inode_at fs (jd_view s) (ucast ino)"
  assumes "jd_inv s" and "inodes_ready fs" and "maps_blocks v bs i es" and "bs \<le> 2 ^ 16"
    and "unat (inode_size i) \<le> 2 ^ 32 * bs"
  shows "ext4_file_read fs ino n offset s =
      (Ok (file_bytes v bs es (usize_of offset) (min (unat n) (unat (inode_size i) - usize_of offset))), s)"
    and "fuse_read fs ino offset n s = ext4_file_read fs ino n offset s"
proof -
  have "unat n < 2 ^ LENGTH(32)" by (rule unsigned_less)
  then have "length (replicate (unat n) (0 :: u8)) < 2 ^ 63" by simp
  then show "ext4_file_read fs ino n offset s =
      (Ok (file_bytes v bs es (usize_of offset) (min (unat n) (unat (inode_size i) - usize_of offset))), s)"
    using read_at_bytes [OF assms(4,5), of "ucast ino" es "replicate (unat n) 0" "usize_of offset"] assms(6-8)
    unfolding v_def bs_def i_def ext4_file_read_def
    by (simp add: bindS_def get_at_Ok slice_append_left slice_all)
qed (simp add: fuse_read_def ext4_file_read_def)

lemma file_read_negative:
  assumes "jd_inv s" and "inodes_ready fs" and "maps_blocks (jd_view s) (fs_block_size fs) (inode_at fs (jd_view s) (ucast ino)) es"
    and "fs_block_size fs \<le> 2 ^ 16" and "unat (inode_size (inode_at fs (jd_view s) (ucast ino))) \<le> 2 ^ 32 * fs_block_size fs"
    and "- (2 ^ 63) \<le> offset" and "offset < 0"
  shows "ext4_file_read fs ino n offset s = (Ok [], s)"
proof -
  have "offset mod 2 ^ 64 = offset + 2 ^ 64" using assms(6,7) mod_add_self2 [of offset "2 ^ 64"] mod_pos_pos_trivial [of "offset + 2 ^ 64" "2 ^ 64"] by simp
  then have "2 ^ 63 \<le> usize_of offset" using assms(6) by (simp add: usize_of_def)
  then have "unat (inode_size (inode_at fs (jd_view s) (ucast ino))) \<le> usize_of offset" using assms(4,5) by simp
  then show ?thesis unfolding file_read_bytes(1) [OF assms(1-5)] by (simp add: file_bytes_def)
qed

end
