(* ===== verification/RenameFile.thy ===== *)
theory RenameFile
  imports Rename
begin

text \<open>
  Renaming a file inside a directory, as a whole request: \<open>fuse_rename_impl\<close> enters the new name, removes the old
  one and writes the directory's inode back after each step.
\<close>

unbundle bit_operations_syntax

lemma dir_find_entry_held:
  assumes "jd_inv s" and "inodes_ready fs" and "dir_holds fs (jd_view s) ino i es m"
  shows "case m name of None \<Rightarrow> dir_find_entry fs ino name s = (Err ENOENT, s)
    | Some c \<Rightarrow> \<exists>d. dir_find_entry fs ino name s = (Ok d, s) \<and> de_inode (ds_dentry d) = c"
proof -
  obtain ms where "linear_dir fs (jd_view s) ino i es ms" "m = dir_names fs i ms"
    using assms(3) by (auto simp: dir_holds_def)
  then show ?thesis using dir_find_entry_names [OF assms(1,2), of ino i es ms name] by (auto split: option.splits)
qed

section \<open>Writing the directory's inode\<close>

text \<open>The blocks of the directory, and the bytes that are neither in them nor in its inode.\<close>

definition in_dir :: "ext4 \<Rightarrow> inode \<Rightarrow> extent list \<Rightarrow> nat \<Rightarrow> bool" where
  "in_dir fs i es p \<longleftrightarrow> (\<exists>k < dir_blocks fs i. dir_pos fs es k \<le> p \<and> p < dir_pos fs es k + fs_block_size fs)"

definition in_record :: "ext4 \<Rightarrow> (nat \<Rightarrow> u8) \<Rightarrow> u32 \<Rightarrow> nat \<Rightarrow> bool" where
  "in_record fs v ino p \<longleftrightarrow> inode_pos fs v ino \<le> p \<and> p < inode_pos fs v ino + 156"

text \<open>The inode's record lies outside the directory's blocks, and neither the extent tree nor the group
  descriptor that locates the inode lies in one of them.\<close>

definition dir_stable :: "ext4 \<Rightarrow> (nat \<Rightarrow> u8) \<Rightarrow> u32 \<Rightarrow> inode \<Rightarrow> extent list \<Rightarrow> bool" where
  "dir_stable fs v ino i es \<longleftrightarrow> (\<forall>p. \<not> (in_dir fs i es p \<and> in_record fs v ino p))
     \<and> (\<forall>w. (\<forall>p. \<not> in_dir fs i es p \<and> \<not> in_record fs v ino p \<longrightarrow> w p = v p)
          \<longrightarrow> inode_pos fs w ino = inode_pos fs v ino \<and> maps_blocks w (fs_block_size fs) i es)"

lemma dir_stable_change:
  assumes "dir_stable fs v ino i es" and "\<And>p. \<not> in_dir fs i es p \<Longrightarrow> \<not> in_record fs v ino p \<Longrightarrow> w p = v p"
  shows "dir_stable fs w ino i es" and "inode_pos fs w ino = inode_pos fs v ino" and "maps_blocks w (fs_block_size fs) i es"
proof -
  show pos: "inode_pos fs w ino = inode_pos fs v ino" and "maps_blocks w (fs_block_size fs) i es"
    using assms unfolding dir_stable_def by blast+
  then have "in_record fs w ino = in_record fs v ino" by (simp add: fun_eq_iff in_record_def)
  then show "dir_stable fs w ino i es" using assms unfolding dir_stable_def pos by metis
qed

text \<open>An inode that differs in its checksum only describes the same directory.\<close>

lemma same_but_checksum:
  assumes "zero_checksum j = zero_checksum i"
  shows "i_block j = i_block i" "inode_size j = inode_size i" "is_dir j = is_dir i" "is_index j = is_index i"
proof -
  have "i_block (zero_checksum x) = i_block x" "inode_size (zero_checksum x) = inode_size x"
    "is_dir (zero_checksum x) = is_dir x" "is_index (zero_checksum x) = is_index x" for x
    by (simp_all add: zero_checksum_def inode_size_def is_dir_def file_type_def is_index_def Let_def)
  then show "i_block j = i_block i" "inode_size j = inode_size i" "is_dir j = is_dir i" "is_index j = is_index i"
    using assms by metis+
qed

lemma write_back_dir:
  assumes "jd_inv s" and "inodes_ready fs" and "dir_holds fs (jd_view s) ino i es m" and "dir_stable fs (jd_view s) ino i es"
  shows "\<exists>j t. write_back_inode fs \<lparr> ir_inode_num = ino, ir_inode = i \<rparr> s = (Ok \<lparr> ir_inode_num = ino, ir_inode = j \<rparr>, t) \<and> jd_inv t
    \<and> dir_holds fs (jd_view t) ino j es m \<and> dir_stable fs (jd_view t) ino j es \<and> zero_checksum j = zero_checksum i"
proof -
  let ?r = "\<lparr> ir_inode_num = ino, ir_inode = i \<rparr>" and ?v = "jd_view s" and ?bs = "fs_block_size fs"
  obtain ms where ms: "linear_dir fs ?v ino i es ms" "own_blocks fs ?v ino i es" "disjoint_names fs i ms" "m = dir_names fs i ms"
    using assms(3) by (auto simp: dir_holds_def)
  have blk: "length (i_block (ir_inode ?r)) = 60" using ms(1) block_of_inode [of fs ?v ino] by (simp add: linear_dir_def)
  define j where "j = checksummed fs ?v ?r"
  define w where "w = image_write ?v (inode_pos fs ?v ino) (inode_bytes j)"
  note j = checksummed_props [OF blk, of fs ?v, folded j_def, unfolded inode_ref.simps]
  note same = same_but_checksum [OF j(1)]
  obtain t where t: "write_back_inode fs ?r s = (Ok \<lparr> ir_inode_num = ino, ir_inode = j \<rparr>, t)" "jd_inv t" "jd_view t = w"
    using sees_write_back [OF assms(1) refl assms(2) blk] by (auto simp: sees_def j_def w_def)
  have out: "w p = ?v p" if "\<not> in_record fs ?v ino p" for p
    using that j(3) by (auto simp: w_def image_write_def in_record_def)
  note st = dir_stable_change [OF assms(4), of w, OF out]
  have read_j: "inode_at fs u ino = j" if "inode_pos fs u ino = inode_pos fs ?v ino" "\<And>p. in_record fs ?v ino p \<Longrightarrow> u p = w p" for u
  proof -
    have "image_read u (inode_pos fs ?v ino) 156 = image_read w (inode_pos fs ?v ino) 156"
      by (rule image_read_cong) (use that(2) in \<open>simp add: in_record_def\<close>)
    then show ?thesis using inode_roundtrip [of j "[]"] j(2,3) by (simp add: inode_at_def that(1) w_def read_written)
  qed
  have maps: "maps_blocks u ?bs j es = maps_blocks u ?bs i es" for u by (simp add: maps_blocks_def same)
  have blocks: "dir_block fs w es k = dir_block fs ?v es k" if "k < dir_blocks fs i" for k
    unfolding dir_block_def
  proof (rule image_read_cong)
    fix p
    assume "dir_pos fs es k \<le> p" "p < dir_pos fs es k + ?bs"
    then have "in_dir fs i es p" using that by (auto simp: in_dir_def)
    then show "w p = ?v p" using assms(4) out by (auto simp: dir_stable_def)
  qed
  have "linear_dir fs w ino j es ms"
    using ms(1) read_j [of w] st(2,3) blocks by (simp add: linear_dir_def same maps)
  moreover have "own_blocks fs w ino j es"
    unfolding own_blocks_def same
  proof (rule conjI [OF ms(2) [unfolded own_blocks_def, THEN conjunct1]], intro allI impI)
    fix u :: "nat \<Rightarrow> u8"
    assume "\<forall>p. (\<forall>k < dir_blocks fs i. p < dir_pos fs es k \<or> dir_pos fs es k + ?bs \<le> p) \<longrightarrow> u p = w p"
    then have u: "u p = w p" if "\<not> in_dir fs i es p" for p using that by (metis in_dir_def not_le)
    then have "u p = ?v p" if "\<not> in_dir fs i es p" "\<not> in_record fs ?v ino p" for p using that out by simp
    note su = dir_stable_change [OF assms(4) this]
    have "inode_at fs u ino = j"
      by (rule read_j [OF su(2)]) (use u assms(4) in \<open>auto simp: dir_stable_def\<close>)
    then show "inode_at fs u ino = j \<and> maps_blocks u ?bs j es" using su(3) by (simp add: maps)
  qed
  moreover have "disjoint_names fs j ms" "m = dir_names fs j ms"
    using ms(3,4) by (simp_all add: disjoint_names_def dir_names_def same)
  ultimately have "dir_holds fs w ino j es m" unfolding dir_holds_def by blast
  moreover have "dir_stable fs w ino j es"
    using st(1) unfolding dir_stable_def in_dir_def same maps .
  ultimately show ?thesis
    unfolding t(3) [symmetric] using t(1,2) j(1) by blast
qed

lemma dir_stable_block_write:
  assumes "dir_stable fs v ino i es" and "k < dir_blocks fs i" and "length d = fs_block_size fs"
  shows "dir_stable fs (image_write v (dir_pos fs es k) d) ino i es"
  by (rule dir_stable_change(1) [OF assms(1)]) (use assms(2,3) in \<open>auto simp: image_write_def in_dir_def\<close>)

section \<open>The request\<close>

text \<open>What the two steps of \<open>move_entry\<close> do to a directory.\<close>

lemma add_and_store:
  assumes "jd_inv s" and "inodes_ready fs" and "dir_holds fs (jd_view s) ino i es m" and "dir_stable fs (jd_view s) ino i es"
    and new: "m name = None" "ir_inode_num cref \<noteq> 0" "length name \<le> 255"
    and room: "\<exists>k < dir_blocks fs i. insert_to_block (fs_block_size fs) (dir_block fs (jd_view s) es k) name
      (ir_inode_num cref) (de_type_from_inode (ir_inode cref)) \<noteq> Err ENOSPC"
  shows "\<exists>t j u. dir_add_entry fs \<lparr> ir_inode_num = ino, ir_inode = i \<rparr> cref name s = (Ok \<lparr> ir_inode_num = ino, ir_inode = i \<rparr>, t)
    \<and> write_back_inode fs \<lparr> ir_inode_num = ino, ir_inode = i \<rparr> t = (Ok \<lparr> ir_inode_num = ino, ir_inode = j \<rparr>, u) \<and> jd_inv u
    \<and> dir_holds fs (jd_view u) ino j es (m(name \<mapsto> ir_inode_num cref)) \<and> dir_stable fs (jd_view u) ino j es
    \<and> zero_checksum j = zero_checksum i"
proof -
  obtain t k d where t: "dir_add_entry fs \<lparr> ir_inode_num = ino, ir_inode = i \<rparr> cref name s = (Ok \<lparr> ir_inode_num = ino, ir_inode = i \<rparr>, t)"
    "jd_inv t" "dir_holds fs (jd_view t) ino i es (m(name \<mapsto> ir_inode_num cref))" "k < dir_blocks fs i"
    "length d = fs_block_size fs" "jd_view t = image_write (jd_view s) (dir_pos fs es k) d"
    using dir_add_entry_writes [OF assms(1-3) new room] by blast
  show ?thesis
    using write_back_dir [OF t(2) assms(2) t(3)] dir_stable_block_write [OF assms(4) t(4,5)] t(1,6) by auto
qed

lemma remove_and_store:
  assumes "jd_inv s" and "inodes_ready fs" and "dir_holds fs (jd_view s) ino i es m" and "dir_stable fs (jd_view s) ino i es"
    and "m name \<noteq> None"
  shows "\<exists>t j u. dir_remove_entry fs \<lparr> ir_inode_num = ino, ir_inode = i \<rparr> name s = (Ok (), t)
    \<and> write_back_inode fs \<lparr> ir_inode_num = ino, ir_inode = i \<rparr> t = (Ok \<lparr> ir_inode_num = ino, ir_inode = j \<rparr>, u) \<and> jd_inv u
    \<and> dir_holds fs (jd_view u) ino j es (m(name := None)) \<and> dir_stable fs (jd_view u) ino j es
    \<and> zero_checksum j = zero_checksum i"
proof -
  obtain t k d where t: "dir_remove_entry fs \<lparr> ir_inode_num = ino, ir_inode = i \<rparr> name s = (Ok (), t)"
    "jd_inv t" "dir_holds fs (jd_view t) ino i es (m(name := None))" "k < dir_blocks fs i"
    "length d = fs_block_size fs" "jd_view t = image_write (jd_view s) (dir_pos fs es k) d"
    using dir_remove_entry_writes [OF assms(1-3), of name] assms(5) by auto
  show ?thesis
    using write_back_dir [OF t(2) assms(2) t(3)] dir_stable_block_write [OF assms(4) t(4,5)] t(1,6) by auto
qed

lemma dir_inode_read:
  "jd_inv s \<Longrightarrow> inodes_ready fs \<Longrightarrow> dir_holds fs (jd_view s) ino i es m \<Longrightarrow>
   get_inode_ref fs ino s = (Ok \<lparr> ir_inode_num = ino, ir_inode = i \<rparr>, s)"
  by (auto simp: get_inode_ref_eq dir_holds_def linear_dir_def)

text \<open>C5: Renaming a file inside a directory without an index, to a name that is free: the request succeeds,
  afterwards the directory holds the new name with the file's inode number, no longer the old name, and
  every other name as before, and looking up any name says so. The directory's inode changes in nothing
  but its checksum, and an open transaction's writes are seen throughout.\<close>

theorem rename_file_correct:
  fixes fs s parent i es m c name newname flags fuel
  defines "ino \<equiv> ucast (parent :: u64) :: u32" and "m' \<equiv> (m(newname \<mapsto> c))(name := None)"
  assumes "jd_inv s" and "inodes_ready fs" and "dir_holds fs (jd_view s) ino i es m" and "dir_stable fs (jd_view s) ino i es"
    and "m name = Some c" and "c \<noteq> 0" and "\<not> is_dir (inode_at fs (jd_view s) c)"
    and "m newname = None" and "length newname \<le> 255" and "flags AND RENAME_EXCHANGE = 0"
    and "\<exists>k < dir_blocks fs i. insert_to_block (fs_block_size fs) (dir_block fs (jd_view s) es k) newname c
      (de_type_from_inode (inode_at fs (jd_view s) c)) \<noteq> Err ENOSPC"
  shows "\<exists>j t. fuse_rename_impl fuel fs parent name parent newname flags s = (Ok (Some ()), t) \<and> jd_inv t
    \<and> dir_holds fs (jd_view t) ino j es m' \<and> (\<forall>n. dir_lookup fs ino n t = in_map m' n)
    \<and> zero_checksum j = zero_checksum i"
proof -
  let ?src = "\<lparr> ir_inode_num = c, ir_inode = inode_at fs (jd_view s) c \<rparr>"
  obtain d where d: "dir_find_entry fs ino name s = (Ok d, s)" "de_inode (ds_dentry d) = c"
    using dir_find_entry_held [OF assms(3-5), of name] assms(7) by auto
  have free: "dir_find_entry fs ino newname s = (Err ENOENT, s)"
    using dir_find_entry_held [OF assms(3-5), of newname] assms(10) by simp
  obtain t j u where t: "dir_add_entry fs \<lparr> ir_inode_num = ino, ir_inode = i \<rparr> ?src newname s = (Ok \<lparr> ir_inode_num = ino, ir_inode = i \<rparr>, t)"
    "write_back_inode fs \<lparr> ir_inode_num = ino, ir_inode = i \<rparr> t = (Ok \<lparr> ir_inode_num = ino, ir_inode = j \<rparr>, u)" "jd_inv u"
    "dir_holds fs (jd_view u) ino j es (m(newname \<mapsto> c))" "dir_stable fs (jd_view u) ino j es" "zero_checksum j = zero_checksum i"
    using add_and_store [OF assms(3-6,10) _ assms(11), of ?src] assms(8,13) by auto
  have held: "(m(newname \<mapsto> c)) name \<noteq> None" using assms(7) by simp
  obtain t' j' u' where t': "dir_remove_entry fs \<lparr> ir_inode_num = ino, ir_inode = j \<rparr> name u = (Ok (), t')"
    "write_back_inode fs \<lparr> ir_inode_num = ino, ir_inode = j \<rparr> t' = (Ok \<lparr> ir_inode_num = ino, ir_inode = j' \<rparr>, u')" "jd_inv u'"
    "dir_holds fs (jd_view u') ino j' es m'" "zero_checksum j' = zero_checksum j"
    using remove_and_store [OF t(3) assms(4) t(4,5) held] unfolding m'_def by blast
  have "move_entry fs ino name ?src ino newname s = (Ok (), u')"
    using assms(9) dir_inode_read [OF assms(3-5)] dir_inode_read [OF t(3) assms(4) t(4)] t(1,2) t'(1,2)
    by (simp add: move_entry_def bindS_def ret_def)
  then have "fuse_rename_impl fuel fs parent name parent newname flags s = (Ok (Some ()), u')"
    using assms(9,12) d free
    by (simp add: fuse_rename_impl_def Let_def bindS_def bindO_def ret_def on_result_def clear_destination_def
        get_inode_ref_eq [OF assms(3,4)] flip: ino_def)
  then show ?thesis using t'(3,4,5) t(6) dir_holds_lookup [OF t'(3) assms(4) t'(4)] by auto
qed

text \<open>A directory of one block that names the inode 8, which is all zeros.\<close>

lemma sample_inode_pos:
  assumes "\<And>p. p < 18000 \<Longrightarrow> w p = dir_image d p" and "length d = 2048"
  shows "inode_pos tiny_fs w 12 = 19200" and "inode_pos tiny_fs w 8 = 18176"
proof -
  have "desc_at w tiny_sb 0 = desc_at (dir_image d) tiny_sb 0"
    unfolding desc_at_def by (rule image_read_cong) (use assms in \<open>simp add: desc_pos_def\<close>)
  also have "\<dots> = desc_at tiny_image tiny_sb 0"
    using assms(2) by (simp add: dir_image_def desc_at_def desc_pos_def read_apart apart_def)
  finally show "inode_pos tiny_fs w 12 = 19200" "inode_pos tiny_fs w 8 = 18176"
    by (simp_all add: inode_pos_def inode_group_def saturating_sub_def)
qed

lemma sample_stable:
  assumes "block_rel 2048 d m"
  shows "dir_stable tiny_fs (dir_image d) 12 dir_inode [dir_extent]"
proof -
  have d: "length d = 2048" using assms by (simp add: block_rel_def)
  have pos: "dir_pos tiny_fs [dir_extent] 0 = 204800"
    by (simp add: dir_pos_def lookup_def covers_def dir_extent_def get_actual_len_def is_unwritten_def EXT_INIT_MAX_LEN_def get_pblock_def)
  have at: "in_dir tiny_fs dir_inode [dir_extent] p \<longleftrightarrow> 204800 \<le> p \<and> p < 206848"
    "in_record tiny_fs (dir_image d) 12 p \<longleftrightarrow> 19200 \<le> p \<and> p < 19356" for p
    using dir_sample(2) [OF assms] pos sample_inode_pos(1) [of "dir_image d" d] d by (simp_all add: in_dir_def in_record_def)
  show ?thesis
    unfolding dir_stable_def at
    using sample_inode_pos(1) [OF _ d] dir_maps by auto
qed

lemma zero_inode_sample:
  assumes "length d = 2048"
  shows "\<not> is_dir (inode_at tiny_fs (dir_image d) 8)"
proof -
  have "image_read (dir_image d) 18176 156 = replicate 156 0"
    using assms by (intro nth_equalityI) (simp_all add: nth_image_read dir_image_def image_write_def tiny_image_def)
  then have "inode_at tiny_fs (dir_image d) 8 = inode_of_bytes (replicate 156 0)"
    using sample_inode_pos(2) [OF refl assms] by (simp add: inode_at_def)
  moreover have "i_mode (inode_of_bytes (replicate 156 0)) = 0"
    by (simp add: inode_of_bytes_def le_get_def slice_replicate le_word_def numeral_2_eq_2)
  ultimately show ?thesis by (simp add: is_dir_def file_type_def S_IFDIR_def)
qed

theorem rename_file_correct_witness:
  "\<exists>d t. dir_lookup tiny_fs 12 [0x61] (dir_dev d) = Ok 8
    \<and> fuse_rename_impl 0 tiny_fs 12 [0x61] 12 [0x62] 0 (dir_dev d) = (Ok (Some ()), t)
    \<and> dir_lookup tiny_fs 12 [0x62] t = Ok 8 \<and> dir_lookup tiny_fs 12 [0x61] t = Err ENOENT"
proof -
  let ?m = "[[0x61] \<mapsto> 8] :: bytes \<rightharpoonup> u32"
  obtain d where d: "length d = 2048" "holds d 0 [fresh_entry [0x61] 8 1 2036] 2036"
    using insert_to_new_block_holds [of "replicate 2048 0" 2048 "[0x61]" 8 1] by auto
  have rel: "block_rel 2048 d ?m" unfolding block_rel_def
    using d by (intro conjI exI [of _ "[fresh_entry [0x61] 8 1 2036]"]) (simp_all add: distinct_names_def names_Cons)
  note s = dir_sample [OF rel, folded dir_dev(2)]
  have "has_room 1 (fresh_entry [0x61] 8 1 2036)"
    by (simp add: has_room_def used_def slack_def used_size_def required_len_def fresh_entry_def Let_def)
  then have "insert_loop 2036 d [0x62] ino ty 0 \<noteq> Err ENOSPC" for ino ty
    using insert_loop_room [of d 0 "[]" "fresh_entry [0x61] 8 1 2036" "[]" 2036 "[0x62]" ino ty] d by auto
  then have room: "\<exists>k < dir_blocks tiny_fs dir_inode. insert_to_block (fs_block_size tiny_fs)
      (dir_block tiny_fs (jd_view (dir_dev d)) [dir_extent] k) [0x62] 8
      (de_type_from_inode (inode_at tiny_fs (jd_view (dir_dev d)) 8)) \<noteq> Err ENOSPC"
    using s(2,3) by (intro exI [of _ 0]) (auto simp: insert_to_block_def)
  obtain j t where t: "fuse_rename_impl 0 tiny_fs 12 [0x61] 12 [0x62] 0 (dir_dev d) = (Ok (Some ()), t)"
    "\<forall>n. dir_lookup tiny_fs 12 n t = in_map ((?m([0x62] \<mapsto> 8))([0x61] := None)) n"
    using rename_file_correct [of "dir_dev d" tiny_fs 12 dir_inode "[dir_extent]" ?m "[0x61]" 8 "[0x62]" 0 0]
      s(1) sample_stable [OF rel, folded dir_dev(2)] zero_inode_sample [OF d(1)] room tiny_ready by auto
  moreover have "dir_lookup tiny_fs 12 [0x61] (dir_dev d) = Ok 8"
    using dir_holds_lookup [OF _ tiny_ready s(1), of "[0x61]"] by (simp add: in_map_def)
  ultimately show ?thesis by (intro exI [of _ d] exI [of _ t]) (simp add: in_map_def)
qed

end
