(* ===== verification/Spec2Isabelle.thy ===== *)
theory Spec2Isabelle
  imports Geometry BatchAlloc ExtentInsert ExtentRemove FileAtomic HTreeLeaf FuseAtomic Simple RenameFile
begin

text \<open>
  A model of ext4_rs, an ext4 filesystem in Rust, and the properties that make its parts correct.

  \<^bold>\<open>The program.\<close> The crate reads and writes an ext4 image through a block device. \<open>src/src/ext4_defs\<close>
  holds the on-disk structures (superblock, group descriptors, inodes, extent nodes, directory
  entries, jbd2 blocks) and \<open>src/src/ext4_impls\<close> the operations: the allocators take blocks and
  inodes from bitmaps and keep the counters of descriptors and superblock; the extent tree maps a
  file's blocks; directories map names to inodes; the journal makes an operation atomic. An
  operation runs between \<open>journal_begin\<close> and \<open>journal_end\<close>: its writes are captured in a running
  transaction by a wrapper of the device, and at the end they are committed to the log (descriptor
  and data, a commit block, the dirty superblock, the checkpoint, the clean superblock) or dropped.
  Opening replays a log that was left dirty.

  \<^bold>\<open>Foundations.\<close>
  \<^item> \<open>Prelude\<close>: machine integers as words, byte strings with slices and in-place updates, endian
    conversions, ordered maps. \<open>Errors\<close>: \<open>utils/errors.rs\<close>; results are \<open>Ok\<close>, \<open>Err errno\<close>, \<open>Panic\<close>
    (an out-of-range slice, an \<open>unwrap\<close>) and \<open>Undef\<close> (an \<open>unsafe\<close> access outside its buffer); a
    stateful operation returns its state with any result. Integer arithmetic wraps, as in the
    release profile. The locale \<open>codec\<close> is the contract of an on-disk format.
  \<^item> \<open>StructLayout\<close>: C layout of the structs; a struct that is cast from bytes is its byte image.
  \<^item> \<open>BlockDev\<close>: \<open>ext4_defs/block.rs\<close> and the file-backed device. The locale \<open>block_device\<close> is the
    contract of the trait \<open>BlockDevice\<close>, interpreted on the device and on the journal's wrapper.
  \<^item> \<open>Crc\<close> (\<open>utils/crc.rs\<close>): the table-driven CRC-32C is the bitwise shift register, and changes
    under any burst of at most four bytes. \<open>Bitmap\<close> (\<open>utils/bitmap.rs\<close>): the three-loop search finds
    the least clear bit of its range; freeing a range clears exactly its bits.

  \<^bold>\<open>On-disk structures.\<close>
  \<^item> \<open>SuperBlock\<close>, \<open>BlockGroup\<close>, \<open>Inode\<close> (\<open>ext4_defs/super_block.rs\<close>, \<open>block_group.rs\<close>, \<open>inode.rs\<close>): fields
    split over two words, group counts, checksums (stamping is a fixpoint and verifies), mode bits,
    the permission check, and descriptors as an array on disk.
  \<^item> \<open>ExtentNode\<close>, \<open>ExtentTree\<close> (\<open>ext4_defs/extents.rs\<close>, \<open>find_extent\<close> of \<open>ext4_impls/extents.rs\<close>,
    \<open>get_pblock_idx\<close> of \<open>ext4_impls/inode.rs\<close>): \<open>tree_of\<close> relates a node of any depth to the list of
    extents in its leaves; the lookup, two binary searches and a descent, finds what a search of
    that list finds.
  \<^item> \<open>JournalFormat\<close> (\<open>ext4_defs/journal.rs\<close>): parsers and emitters of every jbd2 block are inverse
    on valid values, parsers are safe on all input, checksums verify and reject changed blocks.

  \<^bold>\<open>The journal.\<close>
  \<^item> \<open>JournalDevice\<close> (\<open>ext4_impls/journal/transaction.rs\<close>, \<open>device.rs\<close>): the running transaction;
    captured writes leave the device alone and read back as plain writes.
  \<^item> \<open>Journal\<close> (\<open>ext4_impls/journal/mod.rs\<close>): load, scan, recovery, commit with its injected crash
    points. \<open>JournalRuns\<close> describes a run by the writes it made; \<open>JournalCrash\<close> shows that recovery
    after a crash anywhere past the commit block gives the image of the uninterrupted commit, and
    \<open>CommitFails\<close> that a commit that fails never gets that far: it has changed the log alone. The scan of the log is a recursion on the number of blocks left
    (\<open>s_maxlen\<close>), which bounds the code's loop too.
  \<^item> \<open>Ext4Fs\<close> (\<open>ext4_impls/ext4.rs\<close>): opening, system zones, geometry, inode access, and
    \<open>journaled_op\<close>. \<open>Atomic\<close>: the locale \<open>device_contract\<close> states what every operation keeps step by step
    and is interpreted three times (nothing reaches the disk, staged blocks are whole, reads do not
    write); with it an operation that fails changes nothing and one that succeeds is in place as a whole
    after any crash.

  \<^bold>\<open>Allocation.\<close>
  \<^item> \<open>Alloc\<close> (\<open>ext4_impls/balloc.rs\<close>, \<open>ialloc.rs\<close>): inode allocation and freeing, the three block
    allocators, freeing of blocks. The loops over groups run at most once per group, the
    batch searches carry the number of blocks still wanted, and the whole of each is total.
  \<^item> \<open>Geometry\<close>: the arithmetic of groups and indices is one to one and does not wrap; \<open>Views\<close>: a
    small logic (\<open>sees\<close>) for what an operation returns and what a reader sees after it;
    \<open>InodeStore\<close>, \<open>InodeAlloc\<close>, \<open>BlockAlloc\<close>, \<open>BatchAlloc\<close>: what the operations do to bitmap,
    descriptor, superblock and inode, with ENOSPC as a branch of its own.

  \<^bold>\<open>Trees and directories.\<close>
  \<^item> \<open>ExtentInsert\<close> (the insertion part of \<open>ext4_impls/extents.rs\<close>): merging, insertion in the root and
    in leaf blocks, splits that carry a separator upwards, growing in depth, block checksums. The
    nested call of \<open>insert_extent\<close> is bounded in the definition; one nested call is shown to be
    enough, so the definition satisfies the recursion of the source.
  \<^item> \<open>ExtentRemove\<close> (the removal part of \<open>extents.rs\<close>): punching, cutting the extents of a leaf, dropping
    emptied leaves. The walk over the path need not end in the code; it carries fuel and reports
    \<open>None\<close> when it is still running. What is shown is what one cut frees and keeps.
  \<^item> \<open>MapBlocks\<close> (the rest of \<open>ext4_impls/inode.rs\<close>): appending blocks and \<open>map_inode_pblk_batch\<close>, whose
    extents map the new blocks, in order, to the allocated ones.
  \<^item> \<open>DirEntry\<close> (\<open>ext4_defs/direntry.rs\<close>), \<open>DirBlock\<close> (the work of \<open>ext4_impls/dir.rs\<close> inside one block): a
    block \<open>holds\<close> a list of entries; lookup, insertion and removal are a map of names (the locale
    \<open>name_store\<close>). The loops over a block stop at an entry length of 0 and otherwise advance by it.
  \<^item> \<open>DirHash\<close>, \<open>HTree\<close> (\<open>ext4_impls/htree.rs\<close>): the hashes, descent, lookup, conversion, splits and growth
    of hashed directories; the level count of the root bounds the nested insertion, and the model
    stops at three. \<open>Slots\<close>: arrays of records in a buffer. \<open>HTreeIndex\<close>: an insertion reroutes exactly
    one range of hashes, a split separates two ranges. \<open>HTreeLeaf\<close>: a written leaf reads back.
  \<^item> \<open>Dir\<close> (the operations of \<open>dir.rs\<close> on whole directories), \<open>DirWalk\<close>: a directory without an index is the
    union of the maps of its blocks; adding and removing an entry update that map by one name.

  \<^bold>\<open>Files.\<close>
  \<^item> \<open>FileRead\<close> (\<open>read_at\<close> of \<open>ext4_impls/file.rs\<close>): a read returns the bytes of the file, whose
    specification maps every position through the list of extents to a byte of the device or a zero.
  \<^item> \<open>FileWrite\<close> (\<open>write_at\<close>, \<open>truncate_inode\<close>): a write changes exactly the bytes it covers. A write or a
    truncation may remove blocks and so carries the fuel of \<open>ExtentRemove\<close>; the theorem needs none.
  \<^item> \<open>FileOps\<close> (\<open>utils/path.rs\<close>, \<open>generic_open\<close> and \<open>unlink\<close> of \<open>ext4.rs\<close>, the rest of \<open>file.rs\<close>): paths, links,
    creation, removal. Every step of the walk over a path shortens it.
  \<^item> \<open>FileAtomic\<close>: every operation on extents, directories and files respects the contracts of \<open>Atomic\<close>,
    nested transactions included.

  \<^bold>\<open>Attributes, access lists and locks.\<close>
  \<^item> \<open>Xattr\<close> (the format in \<open>ext4_impls/xattr.rs\<close>): what the writer of attributes stores in an inode body or a
    block, the parser reads. \<open>XattrOps\<close> (its operations): the locale \<open>attribute_store\<close> is the contract of a map
    from names to values, interpreted on the inode body.
  \<^item> \<open>Acl\<close> (\<open>ext4_impls/acl.rs\<close>): the permission check is that of POSIX on lists in canonical order, and
    creation intersects the mode with the list class by class.
  \<^item> \<open>Locks\<close> (the lock table of \<open>fuse_interface/mod.rs\<close>): a state machine of requests; held locks never
    clash, and a request that is tried again and again is granted once the locks in its way are released.

  \<^bold>\<open>Front ends.\<close>
  \<^item> \<open>Fuse\<close>, \<open>FuseData\<close>, \<open>Rename\<close> (\<open>src/src/fuse_interface/mod.rs\<close>, the attribute structs of \<open>ext4_defs/file.rs\<close>):
    every request, with the casts and the wrap-around of its arguments. What setting attributes keeps, short
    symbolic links, seeking to data and holes, the walk from a directory up to the root. That walk, seeking
    and everything that may remove blocks carry fuel; a walk ends unless \<open>..\<close> entries form a cycle, and
    seeking ends within the number of blocks of a file of at most \<open>2 ^ 32\<close> blocks.
  \<^item> \<open>FuseAtomic\<close>: each request that changes the filesystem (but for the ioctl that stores inode flags) is one
    journaled operation, whatever it nests; one that fails, in its body or in its commit, has changed nothing
    outside the log. \<open>RenameFile\<close>: renaming a file inside
    a directory without an index moves exactly its name.
  \<^item> \<open>Simple\<close> (\<open>simple_interface/mod.rs\<close>): flag strings, opening by path, reading and writing by inode number.

  \<^bold>\<open>Hypotheses.\<close> The allocator theorems ask that the blocks an operation writes (superblock,
  descriptor, bitmap, inode) lie apart, which \<open>mkfs\<close> establishes, and that descriptors are 64 bytes
  long. The \<open>tiny\<close> and \<open>small\<close> filesystems of \<open>Views\<close> and \<open>Atomic\<close> satisfy them. The theorems on commits say
  where the log lies (\<open>log_mapped\<close>, \<open>log_placed\<close>): the journal's extent tree is not in the log, nor written by the operation.

  \<^bold>\<open>Not modelled.\<close> The command line driver of \<open>main.rs\<close> only calls the front ends, and the other sources re-export
  names. Log output, error messages, threads and the mutex of the device wrapper are left out: every operation is one
  step.
\<close>

end
